(* ===== verification/XR_Prelude.thy ===== *)
theory XR_Prelude
  imports Main "HOL-Library.Word" "HOL-Library.Monad_Syntax"
begin

text \<open>
  Shared vocabulary of the development: the C integer types, the HAL status codes, NOR flash
  contents as functions from byte addresses to bytes with the program / erase / read
  operations on them, and little-endian fields.  A computation of the C code that reads and
  writes a state has the type \<open>'s \<Rightarrow> ('a \<times> 's) option\<close>: \<open>None\<close> is undefined behaviour
  (a NULL or out-of-bounds access) or a loop that does not return; every error the code
  reports is an ordinary value.
\<close>

unbundle bit_operations_syntax

type_synonym u8 = "8 word"
type_synonym u16 = "16 word"
type_synonym u32 = "32 word"

named_theorems flash_simps "rewrite rules for flash contents"

text \<open>\<open>HAL_Status\<close>, the result of the hardware layer's functions.\<close>

abbreviation (input) HAL_OK :: int where "HAL_OK \<equiv> 0"
abbreviation (input) HAL_ERROR :: int where "HAL_ERROR \<equiv> - 1"
abbreviation (input) HAL_BUSY :: int where "HAL_BUSY \<equiv> - 2"
abbreviation (input) HAL_TIMEOUT :: int where "HAL_TIMEOUT \<equiv> - 3"
abbreviation (input) HAL_INVALID :: int where "HAL_INVALID \<equiv> - 4"

section \<open>Option computations\<close>

lemma bind_Some_iff:
  "Option.bind m f = Some y \<longleftrightarrow> (\<exists>x. m = Some x \<and> f x = Some y)"
  by (cases m) auto

section \<open>Unsigned arithmetic\<close>

lemma unat_le_sub: "(b :: 'a::len word) \<le> a \<Longrightarrow> unat (a - b) = unat a - unat b"
  by (rule unat_sub)

lemma unat_add_no_wrap:
  fixes a b :: "'a::len word"
  assumes "unat a + unat b < 2 ^ LENGTH('a)"
  shows "unat (a + b) = unat a + unat b"
  using assms by (simp add: unat_word_ariths)

lemma unat_mult_no_wrap:
  fixes a b :: "'a::len word"
  assumes "unat a * unat b < 2 ^ LENGTH('a)"
  shows "unat (a * b) = unat a * unat b"
  using assms by (simp add: unat_word_ariths)

lemma unat_u32_bound [simp]: "unat (x :: u32) < 4294967296"
  using unsigned_less [of x, where 'a = nat] by simp

lemma unat_u16_bound [simp]: "unat (x :: u16) < 65536"
  using unsigned_less [of x, where 'a = nat] by simp

lemma unat_u8_bound [simp]: "unat (x :: u8) < 256"
  using unsigned_less [of x, where 'a = nat] by simp

lemma unat_ucast_upward:
  fixes x :: "'a::len word"
  assumes "LENGTH('a) \<le> LENGTH('b::len)"
  shows "unat (ucast x :: 'b word) = unat x"
proof -
  have "unat x < 2 ^ LENGTH('b)"
    using unsigned_less [of x, where 'a = nat] power_increasing [OF assms, of "2::nat"]
    by (meson less_le_trans one_le_numeral)
  then show ?thesis by (simp add: unsigned_ucast_eq take_bit_nat_eq_self)
qed

lemma unat_ucast_u16_u32 [simp]: "unat (ucast (x :: u16) :: u32) = unat x"
  by (rule unat_ucast_upward) simp

lemma unat_ucast_u8_u32 [simp]: "unat (ucast (x :: u8) :: u32) = unat x"
  by (rule unat_ucast_upward) simp

section \<open>Contents of a NOR flash\<close>

text \<open>Programming can only clear bits; erasing sets every byte of a block to 0xFF.\<close>

type_synonym content = "nat \<Rightarrow> u8"

definition nor_program :: "content \<Rightarrow> nat \<Rightarrow> u8 list \<Rightarrow> content" where
  "nor_program m a bs =
     (\<lambda>x. if a \<le> x \<and> x < a + length bs then m x AND bs ! (x - a) else m x)"

definition nor_erase :: "content \<Rightarrow> nat \<Rightarrow> nat \<Rightarrow> content" where
  "nor_erase m a n = (\<lambda>x. if a \<le> x \<and> x < a + n then 0xFF else m x)"

definition content_read :: "content \<Rightarrow> nat \<Rightarrow> nat \<Rightarrow> u8 list" where
  "content_read m a n = map (\<lambda>i. m (a + i)) [0..<n]"

text \<open>Two contents that may differ inside the range only.\<close>

definition same_outside :: "nat \<Rightarrow> nat \<Rightarrow> content \<Rightarrow> content \<Rightarrow> bool" where
  "same_outside a n m m' \<longleftrightarrow> (\<forall>x. x < a \<or> a + n \<le> x \<longrightarrow> m' x = m x)"

definition erased :: "content \<Rightarrow> nat \<Rightarrow> nat \<Rightarrow> bool" where
  "erased m a n \<longleftrightarrow> (\<forall>x. a \<le> x \<and> x < a + n \<longrightarrow> m x = 0xFF)"

lemma length_content_read [simp]: "length (content_read m a n) = n"
  by (simp add: content_read_def)

lemma nth_content_read [simp]: "i < n \<Longrightarrow> content_read m a n ! i = m (a + i)"
  by (simp add: content_read_def)

lemma content_read_0 [simp]: "content_read m a 0 = []"
  by (simp add: content_read_def)

lemma content_read_cong:
  "(\<And>i. i < n \<Longrightarrow> m (a + i) = m' (a + i)) \<Longrightarrow> content_read m a n = content_read m' a n"
  by (simp add: content_read_def)

lemma content_read_add:
  "content_read m a (n + k) = content_read m a n @ content_read m (a + n) k"
  by (rule nth_equalityI) (auto simp: nth_append)

lemma take_content_read: "k \<le> n \<Longrightarrow> take k (content_read m a n) = content_read m a k"
  by (rule nth_equalityI) auto

lemma nor_program_nil [simp]: "nor_program m a [] = m"
  by (rule ext) (auto simp: nor_program_def)

lemma nor_erase_0 [simp]: "nor_erase m a 0 = m"
  by (rule ext) (auto simp: nor_erase_def)

lemma nor_program_append:
  "nor_program (nor_program m a xs) (a + length xs) ys = nor_program m a (xs @ ys)"
  by (rule ext) (auto simp: nor_program_def nth_append intro!: arg_cong2 [where f = "(AND)"]
      arg_cong2 [where f = nth])

lemma nor_erase_append:
  "nor_erase (nor_erase m a n) (a + n) k = nor_erase m a (n + k)"
  by (rule ext) (auto simp: nor_erase_def)

lemma nor_program_apply_out:
  "x < a \<or> a + length bs \<le> x \<Longrightarrow> nor_program m a bs x = m x"
  by (auto simp: nor_program_def)

lemma nor_program_apply_in:
  "i < length bs \<Longrightarrow> nor_program m a bs (a + i) = m (a + i) AND bs ! i"
  by (simp add: nor_program_def)

lemma and_u8_FF: "(0xFF :: u8) AND b = b"
proof -
  have "(0xFF :: u8) = - 1" by simp
  then show ?thesis by (simp only: and.left_neutral)
qed

lemma nor_program_erased:
  assumes "erased m a (length bs)"
  shows "content_read (nor_program m a bs) a (length bs) = bs"
proof (rule nth_equalityI)
  fix i assume "i < length (content_read (nor_program m a bs) a (length bs))"
  then have i: "i < length bs" by simp
  with assms have "m (a + i) = 0xFF" by (simp add: erased_def)
  with i show "content_read (nor_program m a bs) a (length bs) ! i = bs ! i"
    by (simp add: nor_program_apply_in and_u8_FF)
qed simp

lemma erased_nor_erase: "erased (nor_erase m a n) a n"
  by (simp add: erased_def nor_erase_def)

lemma erased_sub: "erased m a n \<Longrightarrow> a \<le> b \<Longrightarrow> b + k \<le> a + n \<Longrightarrow> erased m b k"
  by (auto simp: erased_def)

lemma erased_program_disjoint:
  "erased m b k \<Longrightarrow> a + length bs \<le> b \<or> b + k \<le> a \<Longrightarrow> erased (nor_program m a bs) b k"
  by (auto simp: erased_def nor_program_def)

lemma same_outside_refl [simp]: "same_outside a n m m"
  by (simp add: same_outside_def)

lemma same_outside_0 [simp]: "same_outside a 0 m m' \<longleftrightarrow> m' = m"
  by (simp add: same_outside_def fun_eq_iff) (metis linorder_not_le)

lemma same_outside_trans:
  "same_outside a n m m' \<Longrightarrow> same_outside a n m' m'' \<Longrightarrow> same_outside a n m m''"
  by (simp add: same_outside_def)

lemma same_outside_mono:
  "same_outside b k m m' \<Longrightarrow> a \<le> b \<Longrightarrow> b + k \<le> a + n \<Longrightarrow> same_outside a n m m'"
  by (auto simp: same_outside_def)

lemma same_outside_program: "same_outside a (length bs) m (nor_program m a bs)"
  by (auto simp: same_outside_def nor_program_def)

lemma same_outside_erase: "same_outside a n m (nor_erase m a n)"
  by (auto simp: same_outside_def nor_erase_def)

lemma same_outside_read:
  "same_outside a n m m' \<Longrightarrow> b + k \<le> a \<or> a + n \<le> b \<Longrightarrow> content_read m' b k = content_read m b k"
  by (rule content_read_cong) (auto simp: same_outside_def)

text \<open>The contents with a range replaced.\<close>

definition place :: "nat \<Rightarrow> u8 list \<Rightarrow> content \<Rightarrow> content" where
  "place a bs m = (\<lambda>x. if a \<le> x \<and> x < a + length bs then bs ! (x - a) else m x)"

lemma place_read_in:
  "a \<le> b \<Longrightarrow> b + n \<le> a + length bs \<Longrightarrow> content_read (place a bs m) b n = take n (drop (b - a) bs)"
  by (rule nth_equalityI) (auto simp: place_def)

lemma place_read_out:
  "b + n \<le> a \<or> a + length bs \<le> b \<Longrightarrow> content_read (place a bs m) b n = content_read m b n"
  by (rule nth_equalityI) (auto simp: place_def)

lemma place_apply: "place a bs m x = (if a \<le> x \<and> x < a + length bs then bs ! (x - a) else m x)"
  by (simp add: place_def)

lemma place_nil [simp]: "place a [] m = m"
  by (rule ext) (auto simp: place_def)

lemma place_append: "place (a + length xs) ys (place a xs m) = place a (xs @ ys) m"
  by (auto simp: place_def nth_append fun_eq_iff)

lemma program_erased_range: "nor_program (nor_erase m a (length bs)) a bs = place a bs m"
  by (auto simp: nor_program_def nor_erase_def place_def fun_eq_iff and_u8_FF)


section \<open>Little-endian fields\<close>

definition u16_of_bytes :: "u8 list \<Rightarrow> u16" where
  "u16_of_bytes bs = ucast (bs ! 0) OR push_bit 8 (ucast (bs ! 1))"

definition u32_of_bytes :: "u8 list \<Rightarrow> u32" where
  "u32_of_bytes bs = ucast (bs ! 0) OR push_bit 8 (ucast (bs ! 1))
     OR push_bit 16 (ucast (bs ! 2)) OR push_bit 24 (ucast (bs ! 3))"

definition bytes_of_u16 :: "u16 \<Rightarrow> u8 list" where
  "bytes_of_u16 x = [ucast x, ucast (drop_bit 8 x)]"

definition bytes_of_u32 :: "u32 \<Rightarrow> u8 list" where
  "bytes_of_u32 x = [ucast x, ucast (drop_bit 8 x), ucast (drop_bit 16 x), ucast (drop_bit 24 x)]"

lemma length_bytes_of_u16 [simp]: "length (bytes_of_u16 x) = 2"
  by (simp add: bytes_of_u16_def)

lemma length_bytes_of_u32 [simp]: "length (bytes_of_u32 x) = 4"
  by (simp add: bytes_of_u32_def)

lemma u16_bytes_roundtrip [simp]: "u16_of_bytes (bytes_of_u16 x @ ys) = x"
  by (rule bit_word_eqI) (auto simp: u16_of_bytes_def bytes_of_u16_def bit_simps)

lemma u32_bytes_roundtrip [simp]: "u32_of_bytes (bytes_of_u32 x @ ys) = x"
proof (rule bit_word_eqI)
  fix n assume "n < LENGTH(32)"
  then show "bit (u32_of_bytes (bytes_of_u32 x @ ys)) n = bit x n"
    by (cases "n < 8"; cases "n < 16"; cases "n < 24")
      (auto simp: u32_of_bytes_def bytes_of_u32_def bit_simps)
qed

text \<open>A sub-range of a byte string: the bytes of a field at an offset.\<close>

definition field :: "nat \<Rightarrow> nat \<Rightarrow> u8 list \<Rightarrow> u8 list" where
  "field off n bs = take n (drop off bs)"

lemma field_content_read:
  "off + n \<le> k \<Longrightarrow> field off n (content_read m a k) = content_read m (a + off) n"
  by (rule nth_equalityI) (auto simp: field_def add.assoc)

lemma length_field: "length (field off n bs) = min n (length bs - off)"
  by (simp add: field_def)

end
