(* ===== verification/Flash_Iface.thy ===== *)
theory Flash_Iface
  imports XR_Prelude
begin

text \<open>
  The interface between the flash layers and their clients (the FDCM store, the image module,
  the OTA service): the functions the clients link against, as a record over the state
  \<open>'s\<close> of the layers below, and the contract of that interface as the locale
  \<open>flash_store\<close>.  \<open>ok\<close> says that a device is registered and working, \<open>dsize\<close> is its size,
  \<open>mem\<close> its contents.
\<close>

record 's flash_if =
  if_flash_read :: "u32 \<Rightarrow> u32 \<Rightarrow> u8 list \<Rightarrow> u32 \<Rightarrow> 's \<Rightarrow> (u32 \<times> u8 list \<times> 's) option"
  if_flash_write :: "u32 \<Rightarrow> u32 \<Rightarrow> u8 list \<Rightarrow> u32 \<Rightarrow> 's \<Rightarrow> (u32 \<times> 's) option"
  if_flash_erase :: "u32 \<Rightarrow> u32 \<Rightarrow> u32 \<Rightarrow> 's \<Rightarrow> (int \<times> 's) option"
  if_flash_get_erase_block :: "u32 \<Rightarrow> u32 \<Rightarrow> u32 \<Rightarrow> 's \<Rightarrow> int option"
  if_hal_open :: "u32 \<Rightarrow> u32 \<Rightarrow> 's \<Rightarrow> (int \<times> 's) option"
  if_hal_close :: "u32 \<Rightarrow> 's \<Rightarrow> (int \<times> 's) option"
  if_hal_write :: "u32 \<Rightarrow> u32 \<Rightarrow> u8 list \<Rightarrow> u32 \<Rightarrow> 's \<Rightarrow> (int \<times> 's) option"
  if_hal_read :: "u32 \<Rightarrow> u32 \<Rightarrow> u8 list \<Rightarrow> u32 \<Rightarrow> 's \<Rightarrow> (int \<times> u8 list \<times> 's) option"
  if_malloc :: "nat \<Rightarrow> 's \<Rightarrow> u8 list option \<times> 's"

text \<open>
  What a call may change: nothing of other devices, no device's size or working order, and
  of the device itself only the given range.
\<close>

definition store_frame ::
  "(u32 \<Rightarrow> 's \<Rightarrow> bool) \<Rightarrow> (u32 \<Rightarrow> 's \<Rightarrow> nat) \<Rightarrow> (u32 \<Rightarrow> 's \<Rightarrow> content)
     \<Rightarrow> u32 \<Rightarrow> nat \<Rightarrow> nat \<Rightarrow> 's \<Rightarrow> 's \<Rightarrow> bool" where
  "store_frame ok dsize mem fl a n s s' \<longleftrightarrow>
     (\<forall>f. (ok f s \<longrightarrow> ok f s') \<and> dsize f s' = dsize f s \<and> (f \<noteq> fl \<longrightarrow> mem f s' = mem f s)) \<and>
     same_outside a n (mem fl s) (mem fl s')"

lemma store_frame_trans:
  "store_frame ok dsize mem fl a n s s' \<Longrightarrow> store_frame ok dsize mem fl a n s' s'' \<Longrightarrow>
   store_frame ok dsize mem fl a n s s''"
  by (auto simp: store_frame_def intro: same_outside_trans)

lemma store_frame_mono:
  "store_frame ok dsize mem fl b k s s' \<Longrightarrow> a \<le> b \<Longrightarrow> b + k \<le> a + n \<Longrightarrow>
   store_frame ok dsize mem fl a n s s'"
  by (auto simp: store_frame_def intro: same_outside_mono)

lemma store_frame_refl [simp]: "store_frame ok dsize mem fl a n s s"
  by (simp add: store_frame_def)

lemma store_frame_none:
  assumes "store_frame ok dsize mem fl' b 0 s s'"
  shows "store_frame ok dsize mem fl a n s s'"
proof -
  have "mem f s' = mem f s" for f
    using assms by (cases "f = fl'") (simp_all add: store_frame_def)
  then show ?thesis using assms by (simp add: store_frame_def)
qed

lemma store_frame_ok: "store_frame ok dsize mem fl' a n s s' \<Longrightarrow> ok fl s \<Longrightarrow> ok fl s'"
  by (simp add: store_frame_def)

lemma store_frame_dsize: "store_frame ok dsize mem fl' a n s s' \<Longrightarrow> dsize fl s' = dsize fl s"
  by (simp add: store_frame_def)

lemma store_frame_mem_none: "store_frame ok dsize mem fl' a 0 s s' \<Longrightarrow> mem fl s' = mem fl s"
  by (cases "fl = fl'") (simp_all add: store_frame_def)

locale flash_store =
  fixes F :: "'s flash_if"
    and ok :: "u32 \<Rightarrow> 's \<Rightarrow> bool"
    and dsize :: "u32 \<Rightarrow> 's \<Rightarrow> nat"
    and mem :: "u32 \<Rightarrow> 's \<Rightarrow> content"
  assumes dsize_bound: "dsize fl s < 4294967296"
    and read_law: "ok fl s \<Longrightarrow> unat n \<le> length buf \<Longrightarrow>
      \<exists>r buf' s'. if_flash_read F fl a buf n s = Some (r, buf', s') \<and> (r = n \<or> r = 0) \<and>
        store_frame ok dsize mem fl 0 0 s s' \<and> length buf' = length buf \<and>
        (r = n \<and> n \<noteq> 0 \<and> unat a + unat n < 4294967296 \<longrightarrow> unat a + unat n \<le> dsize fl s \<and>
           buf' = content_read (mem fl s) (unat a) (unat n) @ drop (unat n) buf)"
    and write_law: "ok fl s \<Longrightarrow> unat n \<le> length data \<Longrightarrow> unat a + unat n < 4294967296 \<Longrightarrow>
      \<exists>r s'. if_flash_write F fl a data n s = Some (r, s') \<and> (r = n \<or> r = 0) \<and>
        store_frame ok dsize mem fl (unat a) (unat n) s s' \<and>
        (r = n \<longrightarrow> (n \<noteq> 0 \<longrightarrow> unat a + unat n \<le> dsize fl s) \<and>
           mem fl s' = nor_program (mem fl s) (unat a) (take (unat n) data))"
    and erase_law: "ok fl s \<Longrightarrow> unat a + unat n \<le> dsize fl s \<Longrightarrow>
      \<exists>r s'. if_flash_erase F fl a n s = Some (r, s') \<and> (r = 0 \<or> r = - 1) \<and>
        store_frame ok dsize mem fl (unat a) (unat n) s s' \<and>
        (r = 0 \<longrightarrow> mem fl s' = nor_erase (mem fl s) (unat a) (unat n))"
    and block_law: "ok fl s \<Longrightarrow>
      \<exists>r. if_flash_get_erase_block F fl a n s = Some r \<and>
        (r < 0 \<or> r \<in> {65536, 32768, 4096} \<and> nat r dvd unat a \<and> nat r dvd unat n \<and> n \<noteq> 0)"
    and open_law: "ok fl s \<Longrightarrow>
      \<exists>r s'. if_hal_open F fl t s = Some (r, s') \<and> store_frame ok dsize mem fl 0 0 s s'"
    and close_law: "ok fl s \<Longrightarrow>
      \<exists>r s'. if_hal_close F fl s = Some (r, s') \<and> store_frame ok dsize mem fl 0 0 s s'"
    and hal_write_law: "ok fl s \<Longrightarrow> unat n \<le> length data \<Longrightarrow> unat a + unat n < 4294967296 \<Longrightarrow>
      \<exists>r s'. if_hal_write F fl a data n s = Some (r, s') \<and>
        store_frame ok dsize mem fl (unat a) (unat n) s s' \<and>
        (r = 0 \<longrightarrow> n \<noteq> 0 \<and> unat a + unat n \<le> dsize fl s \<and>
           mem fl s' = nor_program (mem fl s) (unat a) (take (unat n) data))"
    and hal_read_law: "ok fl s \<Longrightarrow> unat n \<le> length buf \<Longrightarrow>
      \<exists>r buf' s'. if_hal_read F fl a buf n s = Some (r, buf', s') \<and>
        store_frame ok dsize mem fl 0 0 s s' \<and> length buf' = length buf \<and>
        (r = 0 \<longrightarrow> n \<noteq> 0 \<and> (unat a + unat n < 4294967296 \<longrightarrow> unat a + unat n \<le> dsize fl s \<and>
           buf' = content_read (mem fl s) (unat a) (unat n) @ drop (unat n) buf))"
    and malloc_law: "if_malloc F k s = (p, s') \<Longrightarrow>
      store_frame ok dsize mem fl 0 0 s s' \<and> (\<forall>b. p = Some b \<longrightarrow> length b = k)"

end
