(* ===== verification/Fdcm.thy ===== *)
theory Fdcm
  imports Flash_Iface
begin

text \<open>
  The flash data chunk manager \<open>src/rom/rom_bin/src/image/fdcm.c\<close>: an area that keeps the
  latest chunk of one size.  The area holds a header, a bitmap with one bit per slot (bit 0
  means used) and the slots; a write takes the next slot and clears its bit, and erases the
  area when the slots are used up.  Pointers the code tests for NULL are options.
\<close>

section \<open>Header and bitmap\<close>

definition FDCM_ID_CODE :: u32 where "FDCM_ID_CODE = 0xA55A5AA5"
abbreviation (input) FDCM_INDEX_MAX :: u16 where "FDCM_INDEX_MAX \<equiv> 1024"
abbreviation (input) FDCM_BYTE_BITS :: u32 where "FDCM_BYTE_BITS \<equiv> 8"

record fdcm_header =
  id_code :: u32
  bitmap_size :: u16
  data_size :: u16

abbreviation (input) FDCM_HEADER_SIZE :: u32 where "FDCM_HEADER_SIZE \<equiv> 8"

text \<open>The layout of the packed structure in memory, little endian.\<close>

definition bytes_of_fdcm_header :: "fdcm_header \<Rightarrow> u8 list" where
  "bytes_of_fdcm_header h =
     bytes_of_u32 (id_code h) @ bytes_of_u16 (bitmap_size h) @ bytes_of_u16 (data_size h)"

definition fdcm_header_of_bytes :: "u8 list \<Rightarrow> fdcm_header" where
  "fdcm_header_of_bytes bs =
     \<lparr>id_code = u32_of_bytes bs, bitmap_size = u16_of_bytes (drop 4 bs),
      data_size = u16_of_bytes (drop 6 bs)\<rparr>"

function used_bits :: "u8 \<Rightarrow> u32" where
  "used_bits val = (if val = 0 then 0 else used_bits (drop_bit 1 val) + 1)"
  by pat_completeness auto
termination
  by (relation "measure unat")
    (auto simp: unat_div unat_gt_0 drop_bit_eq_div simp flip: word_neq_0_conv)

declare used_bits.simps [simp del]

fun fdcm_bit_count :: "u8 list \<Rightarrow> u32" where
  "fdcm_bit_count [] = 0"
| "fdcm_bit_count (b # bitmap) =
     (if b = 0 then FDCM_BYTE_BITS + fdcm_bit_count bitmap else used_bits (NOT b))"

section \<open>Operations\<close>

record fdcm_handle =
  fh_flash :: u32
  fh_addr :: u32
  fh_size :: u32

text \<open>The bitmap size a rewrite chooses: computed at 32 bits, stored in the 16-bit field.\<close>

definition fdcm_bitmap_size :: "u32 \<Rightarrow> u16 \<Rightarrow> u16" where
  "fdcm_bitmap_size sz ds =
     (let b = ucast ((sz - FDCM_HEADER_SIZE - 1) div (ucast ds * FDCM_BYTE_BITS + 1) + 1) :: u16
      in if b > FDCM_INDEX_MAX then FDCM_INDEX_MAX else b)"

definition fdcm_rewrite ::
  "'s flash_if \<Rightarrow> fdcm_handle \<Rightarrow> u8 list \<Rightarrow> u16 \<Rightarrow> 's \<Rightarrow> (u32 \<times> 's) option" where
  "fdcm_rewrite F hdl data ds s =
     (let bitmap_byte = 0xFE;
          header = \<lparr>id_code = FDCM_ID_CODE, bitmap_size = fdcm_bitmap_size (fh_size hdl) ds,
                    data_size = ds\<rparr>;
          addr = fh_size hdl - FDCM_HEADER_SIZE - ucast (bitmap_size header)
      in if ucast ds > addr then Some (0, s) else do {
        (e, s) \<leftarrow> if_flash_erase F (fh_flash hdl) (fh_addr hdl) (fh_size hdl) s;
        if e \<noteq> 0 then Some (0, s) else do {
          (w, s) \<leftarrow> if_flash_write F (fh_flash hdl) (fh_addr hdl) (bytes_of_fdcm_header header)
                     FDCM_HEADER_SIZE s;
          if w \<noteq> FDCM_HEADER_SIZE then Some (0, s) else do {
            (w, s) \<leftarrow> if_flash_write F (fh_flash hdl) (fh_addr hdl + FDCM_HEADER_SIZE)
                       [bitmap_byte] 1 s;
            if w \<noteq> 1 then Some (0, s) else do {
              (w, s) \<leftarrow> if_flash_write F (fh_flash hdl)
                         (fh_addr hdl + FDCM_HEADER_SIZE + ucast (bitmap_size header))
                         data (ucast ds) s;
              if w \<noteq> ucast ds then Some (0, s) else Some (ucast ds, s)
            }
          }
        }
      })"

definition rom_fdcm_open ::
  "'s flash_if \<Rightarrow> u32 \<Rightarrow> u32 \<Rightarrow> u32 \<Rightarrow> 's \<Rightarrow> (fdcm_handle option \<times> 's) option" where
  "rom_fdcm_open F flash addr sz s = do {
     b \<leftarrow> if_flash_get_erase_block F flash addr sz s;
     if b < 0 then Some (None, s)
     else case if_malloc F 12 s of
         (None, s) \<Rightarrow> Some (None, s)
       | (Some _, s) \<Rightarrow> Some (Some \<lparr>fh_flash = flash, fh_addr = addr, fh_size = sz\<rparr>, s)
   }"

text \<open>The header is usable for chunks of this size in an area of this size.\<close>

definition header_invalid :: "fdcm_header \<Rightarrow> u16 \<Rightarrow> u32 \<Rightarrow> bool" where
  "header_invalid h ds sz \<longleftrightarrow>
     id_code h \<noteq> FDCM_ID_CODE \<or> data_size h \<noteq> ds \<or> bitmap_size h = 0 \<or>
     ucast (bitmap_size h) + FDCM_HEADER_SIZE \<ge> sz"

text \<open>
  The local header is an uninitialised stack variable; its bytes are used only after the read
  has stored all of them, so the buffer starts as zeros here.
\<close>

definition rom_fdcm_read ::
  "'s flash_if \<Rightarrow> fdcm_handle option \<Rightarrow> u8 list option \<Rightarrow> u16 \<Rightarrow> 's
     \<Rightarrow> (u32 \<times> u8 list option \<times> 's) option" where
  "rom_fdcm_read F hdl data ds s = (case (hdl, data) of
       (Some hdl, Some data) \<Rightarrow> do {
         (r, hb, s) \<leftarrow> if_flash_read F (fh_flash hdl) (fh_addr hdl) (replicate 8 0)
                        FDCM_HEADER_SIZE s;
         if r \<noteq> FDCM_HEADER_SIZE then Some (0, Some data, s) else
           let header = fdcm_header_of_bytes hb in
           if header_invalid header ds (fh_size hdl) then Some (0, Some data, s) else
           case if_malloc F (unat (bitmap_size header)) s of
             (None, s) \<Rightarrow> Some (0, Some data, s)
           | (Some bitmap, s) \<Rightarrow>
               let addr = fh_addr hdl + FDCM_HEADER_SIZE in do {
                 (r, bitmap, s) \<leftarrow> if_flash_read F (fh_flash hdl) addr bitmap
                                    (ucast (bitmap_size header)) s;
                 if r \<noteq> ucast (bitmap_size header) then Some (0, Some data, s) else
                   let bit_cnt = fdcm_bit_count (take (unat (bitmap_size header)) bitmap);
                       addr = addr + (ucast (bitmap_size header) + ucast ds * (bit_cnt - 1))
                   in do {
                     (r, data, s) \<leftarrow> if_flash_read F (fh_flash hdl) addr data (ucast ds) s;
                     Some (r, Some data, s)
                   }
               }
       }
     | _ \<Rightarrow> Some (0, data, s))"

definition rom_fdcm_write ::
  "'s flash_if \<Rightarrow> fdcm_handle option \<Rightarrow> u8 list option \<Rightarrow> u16 \<Rightarrow> 's \<Rightarrow> (u32 \<times> 's) option" where
  "rom_fdcm_write F hdl data ds s = (case (hdl, data) of
       (Some hdl, Some data) \<Rightarrow> do {
         (r, hb, s) \<leftarrow> if_flash_read F (fh_flash hdl) (fh_addr hdl) (replicate 8 0)
                        FDCM_HEADER_SIZE s;
         if r \<noteq> FDCM_HEADER_SIZE then Some (0, s) else
           let header = fdcm_header_of_bytes hb in
           if header_invalid header ds (fh_size hdl) then fdcm_rewrite F hdl data ds s
           else if ucast ds > fh_size hdl - FDCM_HEADER_SIZE - ucast (bitmap_size header)
           then Some (0, s)
           else case if_malloc F (unat (bitmap_size header)) s of
             (None, s) \<Rightarrow> Some (0, s)
           | (Some bitmap, s) \<Rightarrow>
               let addr = fh_addr hdl + FDCM_HEADER_SIZE in do {
                 (r, bitmap, s) \<leftarrow> if_flash_read F (fh_flash hdl) addr bitmap
                                    (ucast (bitmap_size header)) s;
                 if r \<noteq> ucast (bitmap_size header) then Some (0, s) else
                   let bit_cnt = fdcm_bit_count (take (unat (bitmap_size header)) bitmap) in
                   if bit_cnt \<ge> FDCM_BYTE_BITS * ucast (bitmap_size header) \<or>
                      FDCM_HEADER_SIZE + ucast (bitmap_size header) + ucast ds * (bit_cnt + 1)
                        > fh_size hdl
                   then fdcm_rewrite F hdl data ds s
                   else
                     let index = bit_cnt div FDCM_BYTE_BITS;
                         b = (bitmap ! unat index) AND
                               NOT (push_bit (unat (bit_cnt mod FDCM_BYTE_BITS)) 1)
                     in do {
                       (w, s) \<leftarrow> if_flash_write F (fh_flash hdl) (addr + index) [b] 1 s;
                       if w \<noteq> 1 then Some (0, s) else
                         if_flash_write F (fh_flash hdl)
                           (fh_addr hdl + FDCM_HEADER_SIZE + ucast (bitmap_size header)
                              + ucast ds * bit_cnt) data (ucast ds) s
                     }
               }
       }
     | _ \<Rightarrow> Some (0, s))"

definition fdcm_erase :: "'s flash_if \<Rightarrow> fdcm_handle option \<Rightarrow> 's \<Rightarrow> (int \<times> 's) option" where
  "fdcm_erase F hdl s = (case hdl of
       None \<Rightarrow> Some (- 1, s)
     | Some hdl \<Rightarrow> do {
         (e, s) \<leftarrow> if_flash_erase F (fh_flash hdl) (fh_addr hdl) (fh_size hdl) s;
         Some (if e \<noteq> 0 then - 1 else 0, s)
       })"

end
