(* ===== verification/Image.thy ===== *)
theory Image
  imports Fdcm
begin

text \<open>
  The image module: \<open>src/rom/rom_bin/src/image/image.c\<close>, \<open>src/image/image.c\<close> and the types of
  \<open>include/image/image.h\<close>.  An image is a chain of sections in flash, each a header of 64 bytes
  with the offset of the next one, a body and a tailer; the boot configuration (which image
  to run) is a chunk of an FDCM area.  \<open>image_priv\<close>, the module's static variable, is passed
  explicitly beside the state of the flash layers.
\<close>

section \<open>Constants and types\<close>

abbreviation (input) IMAGE_SEQ_NUM :: u8 where "IMAGE_SEQ_NUM \<equiv> 2"
abbreviation (input) IMAGE_CHECK_SIZE :: u32 where "IMAGE_CHECK_SIZE \<equiv> 1024"
abbreviation (input) IMAGE_EXPAND_SIZE :: nat where "IMAGE_EXPAND_SIZE \<equiv> 5"
abbreviation (input) IMAGE_HEADER_SIZE :: u32 where "IMAGE_HEADER_SIZE \<equiv> 64"
abbreviation (input) IMAGE_INVALID_ADDR :: u32 where "IMAGE_INVALID_ADDR \<equiv> 0xFFFFFFFF"
abbreviation (input) IMAGE_INVALID_SIZE :: u16 where "IMAGE_INVALID_SIZE \<equiv> 0xFFFF"
abbreviation (input) IMAGE_MAGIC_NUMBER :: u32 where "IMAGE_MAGIC_NUMBER \<equiv> 0x48495741"
abbreviation (input) IMAGE_BOOT_ID :: u32 where "IMAGE_BOOT_ID \<equiv> 0xA5FF5A00"
abbreviation (input) IMAGE_ATTR_FLAG_SEC_BIN :: u32 where "IMAGE_ATTR_FLAG_SEC_BIN \<equiv> 32"

datatype image_state = IMAGE_STATE_UNVERIFIED | IMAGE_STATE_VERIFIED | IMAGE_STATE_UNDEFINED
datatype image_seg = IMAGE_SEG_HEADER | IMAGE_SEG_BODY | IMAGE_SEG_TAILER
datatype image_val = IMAGE_INVALID | IMAGE_VALID
datatype image_check_type = IMAGE_CHECK_NORMAL | IMAGE_CHECK_OTA

record image_cfg =
  cfg_seq :: u8
  cfg_state :: image_state

record section_header =
  magic_number :: u32
  version :: u32
  header_chksum :: u16
  data_chksum :: u16
  sh_data_size :: u32
  load_addr :: u32
  entry :: u32
  body_len :: u32
  attribute :: u32
  next_addr :: u32
  sh_id :: u32
  sh_priv :: "u32 list"

text \<open>The packed layout of the 64 bytes, little endian.\<close>

abbreviation (input) OFF_body_len :: u32 where "OFF_body_len \<equiv> 24"
abbreviation (input) OFF_attribute :: u32 where "OFF_attribute \<equiv> 28"
abbreviation (input) OFF_next_addr :: u32 where "OFF_next_addr \<equiv> 32"
abbreviation (input) OFF_id :: u32 where "OFF_id \<equiv> 36"
abbreviation (input) OFF_priv5 :: u32 where "OFF_priv5 \<equiv> 60"

definition u32_at :: "nat \<Rightarrow> u8 list \<Rightarrow> u32" where
  "u32_at off bs = u32_of_bytes (drop off bs)"

definition section_header_of_bytes :: "u8 list \<Rightarrow> section_header" where
  "section_header_of_bytes bs =
     \<lparr>magic_number = u32_at 0 bs, version = u32_at 4 bs,
      header_chksum = u16_of_bytes (drop 8 bs), data_chksum = u16_of_bytes (drop 10 bs),
      sh_data_size = u32_at 12 bs, load_addr = u32_at 16 bs, entry = u32_at 20 bs,
      body_len = u32_at 24 bs, attribute = u32_at 28 bs, next_addr = u32_at 32 bs,
      sh_id = u32_at 36 bs, sh_priv = map (\<lambda>i. u32_at (40 + 4 * i) bs) [0..<6]\<rparr>"

text \<open>
  \<open>image_ota_param_t\<close>.  \<open>ota_size\<close> is a 24-bit field, stores to it truncate; \<open>flash\<close> and
  \<open>addr\<close> are arrays of \<open>IMAGE_SEQ_NUM\<close> elements.
\<close>

record image_ota_param =
  ota_flash :: u8
  ota_size :: u32
  ota_addr :: u32
  img_max_size :: u16
  img_xz_max_size :: u16
  bl_size :: u32
  running_seq :: u8
  iop_flash :: "u8 list"
  iop_addr :: "u32 list"

record sec_addr_t =
  sa_id :: u32
  sa_addr :: u32

record image_priv =
  iop :: image_ota_param
  sec_num :: "u8 list"
  sec_addr :: "sec_addr_t list option list"

definition image_priv_zero :: image_priv where
  "image_priv_zero =
     \<lparr>iop = \<lparr>ota_flash = 0, ota_size = 0, ota_addr = 0, img_max_size = 0, img_xz_max_size = 0,
             bl_size = 0, running_seq = 0, iop_flash = [0, 0], iop_addr = [0, 0]\<rparr>,
      sec_num = [0, 0], sec_addr = [None, None]\<rparr>"

text \<open>Array accesses: out of bounds is undefined.\<close>

definition at :: "'a list \<Rightarrow> u8 \<Rightarrow> 'a option" where
  "at xs i = (if unat i < length xs then Some (xs ! unat i) else None)"

definition IMG_BL_FLASH :: "image_ota_param \<Rightarrow> u32" where
  "IMG_BL_FLASH p = ucast (iop_flash p ! 0)"

definition IMG_BL_ADDR :: "image_ota_param \<Rightarrow> u32" where
  "IMG_BL_ADDR p = iop_addr p ! 0 - bl_size p"

definition IMG_SEC_ADDR :: "image_ota_param \<Rightarrow> u8 \<Rightarrow> u32 \<Rightarrow> u32" where
  "IMG_SEC_ADDR p sq off = iop_addr p ! unat sq + off - bl_size p"

text \<open>
  A read of n bytes into a local variable; \<open>None\<close> inside the result when \<open>flash_read\<close>
  returned another count, so that the variable was not stored.
\<close>

definition read_local ::
  "'s flash_if \<Rightarrow> u32 \<Rightarrow> u32 \<Rightarrow> nat \<Rightarrow> 's \<Rightarrow> (u8 list option \<times> 's) option" where
  "read_local F flash addr n s = do {
     (r, bs, s) \<leftarrow> if_flash_read F flash addr (replicate n 0) (of_nat n) s;
     Some (if r \<noteq> of_nat n then None else Some bs, s)
   }"

section \<open>Checksums\<close>

fun checksum_bytes :: "u16 \<Rightarrow> u8 list \<Rightarrow> u16" where
  "checksum_bytes c (b0 # b1 # b2 # b3 # bs) =
     (let chksum32 = u32_of_bytes [b0, b1, b2, b3]
      in checksum_bytes (c + ucast chksum32 + ucast (drop_bit 16 chksum32)) bs)"
| "checksum_bytes c (b0 # b1 # bs) = checksum_bytes (c + u16_of_bytes [b0, b1]) bs"
| "checksum_bytes c [b] = c + ucast b"
| "checksum_bytes c [] = c"

text \<open>The first \<open>len\<close> bytes of \<open>data\<close>; callers pass at least as many.\<close>

definition rom_image_checksum16 :: "u8 list \<Rightarrow> u32 \<Rightarrow> u16" where
  "rom_image_checksum16 data len = checksum_bytes 0 (take (unat len) data)"

definition image_get_checksum :: "u8 list option \<Rightarrow> u32 \<Rightarrow> u16" where
  "image_get_checksum buf len = (case buf of None \<Rightarrow> 0 | Some b \<Rightarrow> rom_image_checksum16 b len)"

text \<open>The header is passed as the bytes it consists of.\<close>

definition image_check_header :: "u8 list option \<Rightarrow> image_val" where
  "image_check_header sh = (case sh of
       None \<Rightarrow> IMAGE_INVALID
     | Some b \<Rightarrow>
        if magic_number (section_header_of_bytes b) \<noteq> IMAGE_MAGIC_NUMBER then IMAGE_INVALID
        else if image_get_checksum (Some b) IMAGE_HEADER_SIZE \<noteq> 0xFFFF then IMAGE_INVALID
        else IMAGE_VALID)"

definition image_check_data ::
  "u8 list option \<Rightarrow> u8 list option \<Rightarrow> u32 \<Rightarrow> u8 list option \<Rightarrow> u32 \<Rightarrow> image_val option" where
  "image_check_data sh body blen tailer tlen = (case (sh, body) of
       (Some h, Some b) \<Rightarrow>
         if blen = 0 \<or> (tailer = None \<and> tlen \<noteq> 0) then Some IMAGE_INVALID
         else if length b < unat blen then None
         else do {
           t \<leftarrow> (case tailer of None \<Rightarrow> Some [] | Some t \<Rightarrow> if length t < unat tlen then None else Some t);
           let chk = data_chksum (section_header_of_bytes h) in
           let data_checksum =
             (if tlen = 0 then chk + rom_image_checksum16 b blen
              else if blen AND 1 = 0
              then chk + rom_image_checksum16 b blen + rom_image_checksum16 t tlen
              else chk + rom_image_checksum16 b (blen - 1)
                     + rom_image_checksum16 [b ! (unat blen - 1), t ! 0] 2
                     + rom_image_checksum16 (drop 1 t) (tlen - 1))
           in Some (if data_checksum \<noteq> 0xFFFF then IMAGE_INVALID else IMAGE_VALID)
         }
     | _ \<Rightarrow> Some IMAGE_INVALID)"

section \<open>The boot configuration\<close>

record image_raw_cfg =
  raw_seq :: u16
  raw_state :: u16

abbreviation (input) IMAGE_RAW_STATE_UNVERIFIED :: u16 where "IMAGE_RAW_STATE_UNVERIFIED \<equiv> 0x6996"
abbreviation (input) IMAGE_RAW_STATE_VERIFIED :: u16 where "IMAGE_RAW_STATE_VERIFIED \<equiv> 0x9669"
abbreviation (input) IMAGE_WRITE_RAW_CFG_TRY_CNT :: nat where "IMAGE_WRITE_RAW_CFG_TRY_CNT \<equiv> 2"

definition s_image_raw_seq :: "u16 list" where
  "s_image_raw_seq = [0x5555, 0xAAAA]"

definition bytes_of_raw_cfg :: "image_raw_cfg \<Rightarrow> u8 list" where
  "bytes_of_raw_cfg c = bytes_of_u16 (raw_seq c) @ bytes_of_u16 (raw_state c)"

definition raw_cfg_of_bytes :: "u8 list \<Rightarrow> image_raw_cfg" where
  "raw_cfg_of_bytes bs = \<lparr>raw_seq = u16_of_bytes bs, raw_state = u16_of_bytes (drop 2 bs)\<rparr>"

definition image_get_raw_cfg ::
  "'s flash_if \<Rightarrow> image_ota_param \<Rightarrow> 's \<Rightarrow> (int \<times> image_raw_cfg \<times> 's) option" where
  "image_get_raw_cfg F p s =
     (let raw = replicate 4 0 in do {
        (hdl, s) \<leftarrow> rom_fdcm_open F (ucast (ota_flash p)) (ota_addr p) (ota_size p) s;
        if hdl = None then Some (- 1, raw_cfg_of_bytes raw, s) else do {
          (r, raw, s) \<leftarrow> rom_fdcm_read F hdl (Some raw) 4 s;
          Some (if r = 4 then 0 else - 1, raw_cfg_of_bytes (the raw), s)
        }
      })"

fun raw_cfg_tries ::
  "nat \<Rightarrow> 's flash_if \<Rightarrow> fdcm_handle option \<Rightarrow> u8 list \<Rightarrow> u8 list \<Rightarrow> 's \<Rightarrow> (int \<times> 's) option" where
  "raw_cfg_tries 0 F hdl raw read_cfg s = Some (- 1, s)"
| "raw_cfg_tries (Suc i) F hdl raw read_cfg s = do {
     (r, s) \<leftarrow> rom_fdcm_write F hdl (Some raw) 4 s;
     if r \<noteq> 4 then Some (- 1, s) else do {
       (r, rd, s) \<leftarrow> rom_fdcm_read F hdl (Some read_cfg) 4 s;
       if r \<noteq> 4 then Some (- 1, s)
       else if take 4 (the rd) = take 4 raw then Some (0, s)
       else raw_cfg_tries i F hdl raw (the rd) s
     }
   }"

definition image_set_raw_cfg ::
  "'s flash_if \<Rightarrow> image_ota_param \<Rightarrow> image_raw_cfg \<Rightarrow> 's \<Rightarrow> (int \<times> 's) option" where
  "image_set_raw_cfg F p raw s = do {
     (hdl, s) \<leftarrow> rom_fdcm_open F (ucast (ota_flash p)) (ota_addr p) (ota_size p) s;
     if hdl = None then Some (- 1, s)
     else raw_cfg_tries IMAGE_WRITE_RAW_CFG_TRY_CNT F hdl (bytes_of_raw_cfg raw) (replicate 4 0) s
   }"

text \<open>The sequence a magic number stands for: the first match in the table.\<close>

fun raw_seq_index :: "u16 list \<Rightarrow> u16 \<Rightarrow> u8 \<Rightarrow> u8 option" where
  "raw_seq_index [] raw i = None"
| "raw_seq_index (m # ms) raw i = (if raw = m then Some i else raw_seq_index ms raw (i + 1))"

definition image_get_cfg ::
  "'s flash_if \<Rightarrow> image_priv \<Rightarrow> image_cfg option \<Rightarrow> 's \<Rightarrow> (int \<times> image_cfg option \<times> 's) option" where
  "image_get_cfg F img cfg s = (case cfg of None \<Rightarrow> Some (- 1, None, s) | Some c \<Rightarrow>
     if ota_size (iop img) = 0 \<or> ota_addr (iop img) = IMAGE_INVALID_ADDR then Some (- 1, cfg, s)
     else do {
       (r, raw, s) \<leftarrow> image_get_raw_cfg F (iop img) s;
       if r \<noteq> 0 then Some (- 1, cfg, s) else
         case raw_seq_index s_image_raw_seq (raw_seq raw) 0 of
           None \<Rightarrow> Some (- 1, cfg, s)
         | Some sq \<Rightarrow> Some (0, Some \<lparr>cfg_seq = sq,
             cfg_state = (if raw_state raw = IMAGE_RAW_STATE_VERIFIED then IMAGE_STATE_VERIFIED
                          else if raw_state raw = IMAGE_RAW_STATE_UNVERIFIED
                          then IMAGE_STATE_UNVERIFIED else IMAGE_STATE_UNDEFINED)\<rparr>, s)
     })"

definition image_set_cfg ::
  "'s flash_if \<Rightarrow> image_priv \<Rightarrow> image_cfg option \<Rightarrow> 's \<Rightarrow> (int \<times> 's) option" where
  "image_set_cfg F img cfg s = (case cfg of None \<Rightarrow> Some (- 1, s) | Some c \<Rightarrow>
     if ota_size (iop img) = 0 \<or> ota_addr (iop img) = IMAGE_INVALID_ADDR then Some (- 1, s)
     else if cfg_seq c \<ge> IMAGE_SEQ_NUM \<or> cfg_state c \<noteq> IMAGE_STATE_VERIFIED then Some (- 1, s)
     else do {
       q \<leftarrow> at s_image_raw_seq (cfg_seq c);
       (r, s) \<leftarrow> image_set_raw_cfg F (iop img) \<lparr>raw_seq = q, raw_state = IMAGE_RAW_STATE_VERIFIED\<rparr> s;
       Some (if r \<noteq> 0 then - 1 else 0, s)
     })"

section \<open>Initialisation\<close>

definition image_clear_sec_addr :: "image_priv \<Rightarrow> image_priv" where
  "image_clear_sec_addr img =
     img\<lparr>sec_num := map (\<lambda>_. 0) (sec_num img), sec_addr := map (\<lambda>_. None) (sec_addr img)\<rparr>"

definition image_init_running_seq ::
  "'s flash_if \<Rightarrow> image_priv \<Rightarrow> 's \<Rightarrow> (u8 \<times> 's) option" where
  "image_init_running_seq F img s =
     (if ota_addr (iop img) = IMAGE_INVALID_ADDR then Some (0, s)
      else do {
        (r, cfg, s) \<leftarrow> image_get_cfg F img
           (Some \<lparr>cfg_seq = 0, cfg_state = IMAGE_STATE_UNVERIFIED\<rparr>) s;
        if r \<noteq> 0 then Some (0, s)
        else Some (if cfg_state (the cfg) = IMAGE_STATE_VERIFIED then cfg_seq (the cfg) else 0, s)
      })"

text \<open>\<open>tz\<close>: the build has CONFIG_TRUSTZONE or CONFIG_TRUSTZONE_BOOT.\<close>

definition image_get_bl_size :: "bool \<Rightarrow> section_header \<Rightarrow> u32" where
  "image_get_bl_size tz sh = (if tz then sh_priv sh ! 5 else next_addr sh)"

definition IMAGE_AREA_SIZE :: "u16 \<Rightarrow> u32" where
  "IMAGE_AREA_SIZE sz = ucast sz * 1024"

definition ota_param_of_header :: "bool \<Rightarrow> u32 \<Rightarrow> u32 \<Rightarrow> section_header \<Rightarrow> image_ota_param" where
  "ota_param_of_header tz flash addr sh =
     (let priv0 = sh_priv sh ! 0; priv2 = sh_priv sh ! 2;
          bl = image_get_bl_size tz sh;
          img_max = ucast ((priv2 AND 0xFFFF) - bl div 1024);
          xz_max = ucast (drop_bit 16 priv2);
          of1 = (if priv0 AND 0xFF = 0xFF then flash else priv0 AND 0xFF);
          os1 = (if drop_bit 8 priv0 AND 0xFFFFFF = 0xFFFFFF then bl else drop_bit 8 priv0 AND 0xFFFFFF);
          old = version sh < 2;
          ofl = ucast (if old then flash else of1);
          os = (if old then bl else os1) AND 0xFFFFFF;
          oa = (if old then 2 ^ 20 else sh_priv sh ! 1)
      in \<lparr>ota_flash = ofl, ota_size = os, ota_addr = oa, img_max_size = img_max,
          img_xz_max_size = xz_max, bl_size = bl, running_seq = 0,
          iop_flash = ucast flash # map (\<lambda>i. ofl) [1..<2],
          iop_addr = (addr + bl) # map (\<lambda>i. oa + os +
             IMAGE_AREA_SIZE (if xz_max = IMAGE_INVALID_SIZE then img_max else xz_max) * of_nat (i - 1)) [1..<2]\<rparr>)"

definition image_init ::
  "'s flash_if \<Rightarrow> bool \<Rightarrow> u32 \<Rightarrow> u32 \<Rightarrow> image_priv \<Rightarrow> 's \<Rightarrow> (int \<times> image_priv \<times> 's) option" where
  "image_init F tz flash addr img s = do {
     (r, bs, s) \<leftarrow> if_flash_read F flash addr (replicate 64 0) IMAGE_HEADER_SIZE s;
     if r \<noteq> IMAGE_HEADER_SIZE then Some (- 1, img, s) else
       let sh = section_header_of_bytes bs in
       if ucast (sh_priv sh ! 2 AND 0xFFFF) = IMAGE_INVALID_SIZE then Some (- 1, img, s) else
         let img = image_clear_sec_addr
               (img\<lparr>iop := (ota_param_of_header tz flash addr sh)\<lparr>running_seq := running_seq (iop img)\<rparr>\<rparr>) in do {
           (sq, s) \<leftarrow> image_init_running_seq F img s;
           Some (0, img\<lparr>iop := (iop img)\<lparr>running_seq := sq\<rparr>\<rparr>, s)
         }
   }"

definition image_deinit :: "image_priv \<Rightarrow> image_priv" where
  "image_deinit img = image_priv_zero"

definition image_get_ota_param :: "image_priv \<Rightarrow> image_ota_param" where
  "image_get_ota_param img = iop img"

definition image_set_running_seq :: "u8 \<Rightarrow> image_priv \<Rightarrow> image_priv" where
  "image_set_running_seq sq img = img\<lparr>iop := (iop img)\<lparr>running_seq := sq\<rparr>\<rparr>"

definition image_get_running_seq :: "image_priv \<Rightarrow> u8" where
  "image_get_running_seq img = running_seq (iop img)"

section \<open>Finding a section\<close>

text \<open>
  The cache \<open>sec_addr[seq]\<close> is an array of \<open>sec_addr_t\<close> whose first \<open>sec_num[seq]\<close> elements
  are in use (\<open>sec_num\<close> is an 8-bit counter); it grows by five elements at a time.  The fresh
  elements are zero here; nothing reads an element before it is stored.
\<close>

definition cached :: "image_priv \<Rightarrow> u8 \<Rightarrow> sec_addr_t list" where
  "cached img sq = (case sec_addr img ! unat sq of
      None \<Rightarrow> [] | Some arr \<Rightarrow> take (unat (sec_num img ! unat sq)) arr)"

definition image_expand_addr ::
  "'s flash_if \<Rightarrow> image_priv \<Rightarrow> u8 \<Rightarrow> 's \<Rightarrow> int \<times> image_priv \<times> 's" where
  "image_expand_addr F img sq s =
     (let n = unat (sec_num img ! unat sq) in
      case if_malloc F ((n + IMAGE_EXPAND_SIZE) * 8) s of
        (None, s) \<Rightarrow> (- 1, img, s)
      | (Some _, s) \<Rightarrow>
          (0, img\<lparr>sec_addr := (sec_addr img)[unat sq :=
                 Some (cached img sq @ replicate (n + IMAGE_EXPAND_SIZE - length (cached img sq))
                                         \<lparr>sa_id = 0, sa_addr = 0\<rparr>)]\<rparr>, s))"

text \<open>Storing the element \<open>sec_num\<close> and counting it.\<close>

definition sec_append :: "image_priv \<Rightarrow> u8 \<Rightarrow> u32 \<Rightarrow> u32 \<Rightarrow> image_priv option" where
  "sec_append img sq addr sid =
     (let n = sec_num img ! unat sq in
      case sec_addr img ! unat sq of
        None \<Rightarrow> None
      | Some arr \<Rightarrow>
          if unat n < length arr
          then Some (img\<lparr>sec_addr := (sec_addr img)[unat sq := Some (arr[unat n := \<lparr>sa_id = sid, sa_addr = addr\<rparr>])],
                         sec_num := (sec_num img)[unat sq := n + 1]\<rparr>)
          else None)"

text \<open>The chain walk of \<open>app_image_get_addr\<close>, also the second one of \<open>tzboot_image_get_addr\<close>.\<close>

partial_function (option) chain_walk ::
  "'s flash_if \<Rightarrow> u8 \<Rightarrow> u32 \<Rightarrow> u32 \<Rightarrow> u32 \<Rightarrow> u32 \<Rightarrow> image_priv \<Rightarrow> 's \<Rightarrow> (u32 \<times> image_priv \<times> 's) option" where
  "chain_walk F sq sid flash addr next img s =
     (if next = IMAGE_INVALID_ADDR then Some (IMAGE_INVALID_ADDR, img, s)
      else
        let (e, img, s) = (if unat (sec_num img ! unat sq) mod IMAGE_EXPAND_SIZE = 0
                           then image_expand_addr F img sq s else (0, img, s))
        in if e \<noteq> 0 then Some (IMAGE_INVALID_ADDR, img, s) else do {
          (part, s) \<leftarrow> read_local F flash (addr + OFF_next_addr) 8 s;
          case part of
            None \<Rightarrow> Some (IMAGE_INVALID_ADDR, img, s)
          | Some part \<Rightarrow> do {
              img \<leftarrow> sec_append img sq addr (u32_at 4 part);
              if sid = u32_at 4 part then Some (addr, img, s)
              else chain_walk F sq sid (ucast (iop_flash (iop img) ! unat sq))
                     (IMG_SEC_ADDR (iop img) sq (u32_at 0 part)) (u32_at 0 part) img s
            }
        })"

definition cache_find :: "sec_addr_t list \<Rightarrow> u32 \<Rightarrow> u32 option" where
  "cache_find xs sid = map_option sa_addr (List.find (\<lambda>e. sid = sa_id e) xs)"

definition app_image_get_addr ::
  "'s flash_if \<Rightarrow> image_priv \<Rightarrow> u8 \<Rightarrow> u32 \<Rightarrow> 's \<Rightarrow> (u32 \<times> image_priv \<times> 's) option" where
  "app_image_get_addr F img sq sid s =
     (if sq \<ge> IMAGE_SEQ_NUM then Some (IMAGE_INVALID_ADDR, img, s)
      else case cache_find (cached img sq) sid of
        Some addr \<Rightarrow> Some (addr, img, s)
      | None \<Rightarrow>
          if sec_num img ! unat sq = 0
          then chain_walk F sq sid (IMG_BL_FLASH (iop img)) (IMG_BL_ADDR (iop img))
                 (IMG_BL_ADDR (iop img)) img s
          else
            let flash = ucast (iop_flash (iop img) ! unat sq);
                addr = sa_addr (last (cached img sq))
            in do {
              (nx, s) \<leftarrow> read_local F flash (addr + OFF_next_addr) 4 s;
              case nx of
                None \<Rightarrow> Some (IMAGE_INVALID_ADDR, img, s)
              | Some b \<Rightarrow> chain_walk F sq sid flash (IMG_SEC_ADDR (iop img) sq (u32_at 0 b))
                            (u32_at 0 b) img s
            })"

text \<open>
  The first walk of \<open>tzboot_image_get_addr\<close> collects the secure sections; it ends with \<open>True\<close>
  when the function goes on after it.
\<close>

partial_function (option) tz_walk ::
  "'s flash_if \<Rightarrow> u8 \<Rightarrow> u32 \<Rightarrow> u32 \<Rightarrow> u32 \<Rightarrow> image_priv \<Rightarrow> 's \<Rightarrow> (bool \<times> image_priv \<times> 's) option" where
  "tz_walk F sq flash addr tz_next img s =
     (if tz_next = IMAGE_INVALID_ADDR then Some (True, img, s)
      else do {
        (attr, s) \<leftarrow> (if sec_num img ! unat sq \<noteq> 0
                       then do { (a, s) \<leftarrow> read_local F flash (addr + OFF_attribute) 4 s;
                                 Some (map_option (u32_at 0) a, s) }
                       else Some (Some IMAGE_ATTR_FLAG_SEC_BIN, s));
        case attr of
          None \<Rightarrow> Some (False, img, s)
        | Some attr \<Rightarrow>
            if attr AND IMAGE_ATTR_FLAG_SEC_BIN = 0 then Some (True, img, s) else
            let (e, img, s) = (if unat (sec_num img ! unat sq) mod IMAGE_EXPAND_SIZE = 0
                               then image_expand_addr F img sq s else (0, img, s))
            in if e \<noteq> 0 then Some (False, img, s) else do {
              (nx, s) \<leftarrow> read_local F flash (addr + OFF_priv5) 4 s;
              case nx of
                None \<Rightarrow> Some (False, img, s)
              | Some nx \<Rightarrow> do {
                  (i, s) \<leftarrow> read_local F flash (addr + OFF_id) 4 s;
                  case i of
                    None \<Rightarrow> Some (False, img, s)
                  | Some i \<Rightarrow> do {
                      img \<leftarrow> sec_append img sq addr (u32_at 0 i);
                      tz_walk F sq (ucast (iop_flash (iop img) ! unat sq))
                        (IMG_SEC_ADDR (iop img) sq (u32_at 0 nx)) (u32_at 0 nx) img s
                    }
                }
            }
      })"

definition tz_rest ::
  "'s flash_if \<Rightarrow> image_priv \<Rightarrow> u8 \<Rightarrow> u32 \<Rightarrow> 's \<Rightarrow> (u32 \<times> image_priv \<times> 's) option" where
  "tz_rest F img sq sid s = do {
     (nx, s) \<leftarrow> read_local F (IMG_BL_FLASH (iop img)) (IMG_BL_ADDR (iop img) + OFF_next_addr) 4 s;
     case nx of
       None \<Rightarrow> Some (IMAGE_INVALID_ADDR, img, s)
     | Some b \<Rightarrow> chain_walk F sq sid (IMG_BL_FLASH (iop img)) (IMG_SEC_ADDR (iop img) sq (u32_at 0 b))
                   (u32_at 0 b) img s
   }"

definition tzboot_image_get_addr ::
  "'s flash_if \<Rightarrow> image_priv \<Rightarrow> u8 \<Rightarrow> u32 \<Rightarrow> 's \<Rightarrow> (u32 \<times> image_priv \<times> 's) option" where
  "tzboot_image_get_addr F img sq sid s =
     (if sq \<ge> IMAGE_SEQ_NUM then Some (IMAGE_INVALID_ADDR, img, s)
      else case cache_find (cached img sq) sid of
        Some addr \<Rightarrow> Some (addr, img, s)
      | None \<Rightarrow>
          if sec_num img ! unat sq = 0
          then do {
            (ok, img, s) \<leftarrow> tz_walk F sq (IMG_BL_FLASH (iop img)) (IMG_BL_ADDR (iop img))
                              (IMG_BL_ADDR (iop img)) img s;
            if \<not> ok then Some (IMAGE_INVALID_ADDR, img, s)
            else case cache_find (cached img sq) sid of
                Some addr \<Rightarrow> Some (addr, img, s)
              | None \<Rightarrow> tz_rest F img sq sid s
          }
          else tz_rest F img sq sid s)"

text \<open>\<open>tzb\<close>: the build has CONFIG_TRUSTZONE_BOOT.\<close>

definition image_get_addr ::
  "'s flash_if \<Rightarrow> bool \<Rightarrow> image_priv \<Rightarrow> u8 \<Rightarrow> u32 \<Rightarrow> 's \<Rightarrow> (u32 \<times> image_priv \<times> 's) option" where
  "image_get_addr F tzb img sq sid s =
     (if tzb then tzboot_image_get_addr F img sq sid s else app_image_get_addr F img sq sid s)"

definition image_get_section_addr ::
  "'s flash_if \<Rightarrow> bool \<Rightarrow> u32 \<Rightarrow> image_priv \<Rightarrow> 's \<Rightarrow> (u32 \<times> image_priv \<times> 's) option" where
  "image_get_section_addr F tzb sid img s = image_get_addr F tzb img (running_seq (iop img)) sid s"

section \<open>Reading and writing a section\<close>

text \<open>
  The buffer is \<open>None\<close> when the pointer is NULL; on a read the result holds its new contents.
  Note that the header segment of the cached chain is forgotten before it is written.
\<close>

definition image_rw ::
  "'s flash_if \<Rightarrow> bool \<Rightarrow> u32 \<Rightarrow> image_seg \<Rightarrow> u32 \<Rightarrow> u8 list option \<Rightarrow> u32 \<Rightarrow> bool \<Rightarrow> image_priv \<Rightarrow> 's
     \<Rightarrow> (u32 \<times> u8 list option \<times> image_priv \<times> 's) option" where
  "image_rw F tzb sid seg offset buf sz do_write img s = (case buf of
       None \<Rightarrow> Some (0, None, img, s)
     | Some b \<Rightarrow> do {
         let sq = running_seq (iop img);
         (addr, img, s) \<leftarrow> image_get_addr F tzb img sq sid s;
         if addr = IMAGE_INVALID_ADDR then Some (0, Some b, img, s) else do {
           let flash = ucast (iop_flash (iop img) ! unat sq);
           (base, img, s) \<leftarrow> (case seg of
               IMAGE_SEG_HEADER \<Rightarrow>
                 Some (Some addr, if do_write then image_clear_sec_addr img else img, s)
             | IMAGE_SEG_BODY \<Rightarrow> Some (Some (addr + IMAGE_HEADER_SIZE), img, s)
             | IMAGE_SEG_TAILER \<Rightarrow> do {
                 (bl, s) \<leftarrow> read_local F flash (addr + OFF_body_len) 4 s;
                 Some (map_option (\<lambda>bl. addr + (IMAGE_HEADER_SIZE + u32_at 0 bl)) bl, img, s)
               });
           case base of
             None \<Rightarrow> Some (0, Some b, img, s)
           | Some a \<Rightarrow>
               if do_write then do {
                 (r, s) \<leftarrow> if_flash_write F flash (a + offset) b sz s;
                 Some (r, Some b, img, s)
               } else do {
                 (r, b, s) \<leftarrow> if_flash_read F flash (a + offset) b sz s;
                 Some (r, Some b, img, s)
               }
         }
       })"

text \<open>The inline functions of \<open>image.h\<close>, in the build without encrypted sections.\<close>

definition image_read ::
  "'s flash_if \<Rightarrow> bool \<Rightarrow> u32 \<Rightarrow> image_seg \<Rightarrow> u32 \<Rightarrow> u8 list option \<Rightarrow> u32 \<Rightarrow> image_priv \<Rightarrow> 's
     \<Rightarrow> (u32 \<times> u8 list option \<times> image_priv \<times> 's) option" where
  "image_read F tzb sid seg offset buf sz img s = image_rw F tzb sid seg offset buf sz False img s"

definition image_write ::
  "'s flash_if \<Rightarrow> bool \<Rightarrow> u32 \<Rightarrow> image_seg \<Rightarrow> u32 \<Rightarrow> u8 list option \<Rightarrow> u32 \<Rightarrow> image_priv \<Rightarrow> 's
     \<Rightarrow> (u32 \<times> u8 list option \<times> image_priv \<times> 's) option" where
  "image_write F tzb sid seg offset buf sz img s = image_rw F tzb sid seg offset buf sz True img s"

section \<open>Checking sections\<close>

text \<open>
  The checksum loop of \<open>_image_check_section\<close>: \<open>None\<close> in the result when a read failed.
\<close>

partial_function (option) section_sum ::
  "'s flash_if \<Rightarrow> u32 \<Rightarrow> u32 \<Rightarrow> u8 list \<Rightarrow> u32 \<Rightarrow> u32 \<Rightarrow> u16 \<Rightarrow> 's \<Rightarrow> (u16 option \<times> u8 list \<times> 's) option" where
  "section_sum F flash addr buf buf_len data_sz chk s =
     (if data_sz > 0 then
        if data_sz \<ge> buf_len then do {
          (r, buf, s) \<leftarrow> if_flash_read F flash addr buf buf_len s;
          if r \<noteq> buf_len then Some (None, buf, s)
          else section_sum F flash (addr + buf_len) buf buf_len (data_sz - buf_len)
                 (chk + rom_image_checksum16 buf buf_len) s
        } else do {
          (r, buf, s) \<leftarrow> if_flash_read F flash addr buf data_sz s;
          if r \<noteq> data_sz then Some (None, buf, s)
          else section_sum F flash (addr + data_sz) buf buf_len 0
                 (chk + rom_image_checksum16 buf data_sz) s
        }
      else Some (Some chk, buf, s))"

definition next_section :: "image_check_type \<Rightarrow> section_header \<Rightarrow> u32" where
  "next_section check_t sh =
     (if check_t = IMAGE_CHECK_OTA then
        if sh_id sh = IMAGE_BOOT_ID
        then (if sh_priv sh ! 5 = IMAGE_INVALID_ADDR then next_addr sh else sh_priv sh ! 5)
        else if attribute sh AND IMAGE_ATTR_FLAG_SEC_BIN = 0 then next_addr sh
        else (if sh_priv sh ! 5 = IMAGE_INVALID_ADDR then next_addr sh else sh_priv sh ! 5)
      else next_addr sh)"

text \<open>Returns the verdict and, when it is valid, the value stored in \<open>*next_addr\<close>.\<close>

definition image_check_section_at ::
  "'s flash_if \<Rightarrow> u32 \<Rightarrow> u32 \<Rightarrow> u8 list \<Rightarrow> u32 \<Rightarrow> image_check_type \<Rightarrow> 's
     \<Rightarrow> (u32 option \<times> u8 list \<times> 's) option" where
  "image_check_section_at F flash addr buf buf_len check_t s = do {
     (r, buf, s) \<leftarrow> if_flash_read F flash addr buf IMAGE_HEADER_SIZE s;
     if r \<noteq> IMAGE_HEADER_SIZE then Some (None, buf, s)
     else if image_check_header (Some buf) = IMAGE_INVALID then Some (None, buf, s)
     else
       let sh = section_header_of_bytes buf; offset = next_section check_t sh in do {
         (chk, buf, s) \<leftarrow> section_sum F flash (addr + IMAGE_HEADER_SIZE) buf buf_len
                            (sh_data_size sh) (data_chksum sh) s;
         Some (if chk = Some 0xFFFF then Some offset else None, buf, s)
       }
   }"

definition image_check_section ::
  "'s flash_if \<Rightarrow> bool \<Rightarrow> u8 \<Rightarrow> u32 \<Rightarrow> image_priv \<Rightarrow> 's \<Rightarrow> (image_val \<times> image_priv \<times> 's) option" where
  "image_check_section F tzb sq sid img s = do {
     (addr, img, s) \<leftarrow> image_get_addr F tzb img sq sid s;
     if addr = IMAGE_INVALID_ADDR then Some (IMAGE_INVALID, img, s)
     else case if_malloc F (unat IMAGE_CHECK_SIZE) s of
         (None, s) \<Rightarrow> Some (IMAGE_INVALID, img, s)
       | (Some buf, s) \<Rightarrow> do {
           (r, _, s) \<leftarrow> image_check_section_at F (ucast (iop_flash (iop img) ! unat sq)) addr buf
                         IMAGE_CHECK_SIZE IMAGE_CHECK_NORMAL s;
           Some (if r = None then IMAGE_INVALID else IMAGE_VALID, img, s)
         }
   }"

partial_function (option) check_chain ::
  "'s flash_if \<Rightarrow> image_ota_param \<Rightarrow> u8 \<Rightarrow> u32 \<Rightarrow> u32 \<Rightarrow> u8 list \<Rightarrow> image_check_type \<Rightarrow> 's
     \<Rightarrow> (image_val \<times> 's) option" where
  "check_chain F p sq flash addr buf check_t s = do {
     (r, buf, s) \<leftarrow> image_check_section_at F flash addr buf IMAGE_CHECK_SIZE check_t s;
     case r of
       None \<Rightarrow> Some (IMAGE_INVALID, s)
     | Some nx \<Rightarrow>
         if nx = IMAGE_INVALID_ADDR then Some (IMAGE_VALID, s)
         else do {
           fl \<leftarrow> at (iop_flash p) sq;
           check_chain F p sq (ucast fl) (IMG_SEC_ADDR p sq nx) buf check_t s
         }
   }"

definition image_check_all ::
  "'s flash_if \<Rightarrow> u8 \<Rightarrow> image_check_type \<Rightarrow> image_priv \<Rightarrow> 's \<Rightarrow> (image_val \<times> 's) option" where
  "image_check_all F sq check_t img s = (case if_malloc F (unat IMAGE_CHECK_SIZE) s of
       (None, s) \<Rightarrow> Some (IMAGE_INVALID, s)
     | (Some buf, s) \<Rightarrow>
         check_chain F (iop img) sq (IMG_BL_FLASH (iop img)) (IMG_BL_ADDR (iop img)) buf check_t s)"

definition image_check_sections ::
  "'s flash_if \<Rightarrow> u8 \<Rightarrow> image_priv \<Rightarrow> 's \<Rightarrow> (image_val \<times> 's) option" where
  "image_check_sections F sq img s = image_check_all F sq IMAGE_CHECK_NORMAL img s"

definition image_check_ota_sections ::
  "'s flash_if \<Rightarrow> u8 \<Rightarrow> image_priv \<Rightarrow> 's \<Rightarrow> (image_val \<times> 's) option" where
  "image_check_ota_sections F sq img s = image_check_all F sq IMAGE_CHECK_OTA img s"

partial_function (option) size_walk ::
  "'s flash_if \<Rightarrow> image_ota_param \<Rightarrow> u8 \<Rightarrow> u32 \<Rightarrow> u32 \<Rightarrow> u8 list \<Rightarrow> 's \<Rightarrow> (u32 \<times> 's) option" where
  "size_walk F p sq flash addr sh s = do {
     (r, sh, s) \<leftarrow> if_flash_read F flash addr sh IMAGE_HEADER_SIZE s;
     if r \<noteq> IMAGE_HEADER_SIZE then Some (0, s)
     else if image_check_header (Some sh) = IMAGE_INVALID then Some (0, s)
     else
       let h = section_header_of_bytes sh in
       if next_addr h = IMAGE_INVALID_ADDR
       then Some (addr + IMAGE_HEADER_SIZE + sh_data_size h - iop_addr p ! unat sq + bl_size p, s)
       else size_walk F p sq (ucast (iop_flash p ! unat sq)) (IMG_SEC_ADDR p sq (next_addr h)) sh s
   }"

definition image_get_size :: "'s flash_if \<Rightarrow> image_priv \<Rightarrow> 's \<Rightarrow> (u32 \<times> 's) option" where
  "image_get_size F img s =
     (let sq = running_seq (iop img) in
      if sq \<ge> IMAGE_SEQ_NUM then Some (0, s)
      else size_walk F (iop img) sq (IMG_BL_FLASH (iop img)) (IMG_BL_ADDR (iop img)) (replicate 64 0) s)"

end
