(* ===== verification/Ota.thy ===== *)
theory Ota
  imports Image
begin

text \<open>
  The over-the-air update service \<open>src/ota/ota.c\<close> (types of \<open>ota_i.h\<close> and \<open>ota.h\<close>), with the
  transports \<open>ota_file.c\<close> and \<open>ota_http.c\<close>.  A new image is downloaded or pushed into the
  slot of the update sequence, its sections are checked, its digest is verified, and only
  then the boot configuration is switched to it.  The state holds the module's static
  variables, the callback invocations so far, the image module's state and the state of the
  layers below.
\<close>

section \<open>Types and state\<close>

datatype ota_status = OTA_STATUS_OK | OTA_STATUS_ERROR

datatype ota_upgrade_status =
  OTA_UPGRADE_STOP | OTA_UPGRADE_START | OTA_UPGRADE_SUCCESS | OTA_UPGRADE_FAIL | OTA_UPGRADE_UPDATING

datatype ota_verify =
  OTA_VERIFY_NONE | OTA_VERIFY_CRC32 | OTA_VERIFY_MD5 | OTA_VERIFY_SHA1 | OTA_VERIFY_SHA256

datatype ota_protocol = OTA_PROTOCOL_FILE | OTA_PROTOCOL_HTTP

abbreviation (input) OTA_BUF_SIZE :: u32 where "OTA_BUF_SIZE \<equiv> 2048"
abbreviation (input) OTA_FLASH_TIMEOUT :: u32 where "OTA_FLASH_TIMEOUT \<equiv> 5000"
abbreviation (input) OTA_START_PERCENT :: u32 where "OTA_START_PERCENT \<equiv> 0"
abbreviation (input) OTA_DOWNLOAD_FINISH_PERCENT :: u32 where "OTA_DOWNLOAD_FINISH_PERCENT \<equiv> 80"
abbreviation (input) OTA_CHECK_SECTIONS_PERCENT :: u32 where "OTA_CHECK_SECTIONS_PERCENT \<equiv> 90"
abbreviation (input) OTA_VERIFY_IMAGE_PERCENT :: u32 where "OTA_VERIFY_IMAGE_PERCENT \<equiv> 100"
abbreviation (input) OTA_VERIFY_MAGIC :: u32 where "OTA_VERIFY_MAGIC \<equiv> 0x0055AAFF"
abbreviation (input) OTA_VERIFY_DATA_BYTES :: u32 where "OTA_VERIFY_DATA_BYTES \<equiv> 44"

text \<open>
  The build: CONFIG_OTA_POLICY_PINGPONG, CONFIG_OTA_POLICY_IMAGE_COMPRESSION and
  CONFIG_BOOTLOADER.
\<close>

record ota_build =
  POLICY_PINGPONG :: bool
  POLICY_COMPRESSION :: bool
  BOOTLOADER :: bool

text \<open>
  \<open>op_iop\<close>: \<open>ota_priv.iop\<close> is set; it can only point to the image module's parameters.
  \<open>ota_skip_size\<close> is the bit pattern of the C \<open>int32_t\<close>; \<open>fs_param\<close> and \<open>http_param\<close> say that
  the transports' parameter blocks are allocated, \<open>http_uri\<close> is the text in the latter.
\<close>

record 's ota =
  op_iop :: bool
  op_get_size :: u32
  ota_cb :: bool
  ota_skip_size :: u32
  cb_log :: "(ota_upgrade_status \<times> u32 \<times> u32) list"
  fs_param :: bool
  http_param :: bool
  http_uri :: string
  o_img :: image_priv
  o_fs :: 's

definition ota_iop :: "'s ota \<Rightarrow> image_ota_param option" where
  "ota_iop st = (if op_iop st then Some (iop (o_img st)) else None)"

text \<open>
  A call of \<open>ota_cb\<close> when one is registered; its arguments are evaluated only then, and a
  division by zero among them is undefined.
\<close>

definition notify :: "ota_upgrade_status \<Rightarrow> u32 \<Rightarrow> u32 option \<Rightarrow> 's ota \<Rightarrow> 's ota option" where
  "notify e sz percent st =
     (if ota_cb st then do { p \<leftarrow> percent; Some (st\<lparr>cb_log := cb_log st @ [(e, sz, p)]\<rparr>) }
      else Some st)"

definition udiv :: "u32 \<Rightarrow> u32 \<Rightarrow> u32 option" where
  "udiv a b = (if b = 0 then None else Some (a div b))"

text \<open>A call into the flash layers.\<close>

definition on_fs :: "('s \<Rightarrow> ('a \<times> 's) option) \<Rightarrow> 's ota \<Rightarrow> ('a \<times> 's ota) option" where
  "on_fs f st = do { (a, s) \<leftarrow> f (o_fs st); Some (a, st\<lparr>o_fs := s\<rparr>) }"

definition slot_size :: "ota_build \<Rightarrow> image_ota_param \<Rightarrow> u32" where
  "slot_size B p = IMAGE_AREA_SIZE (if POLICY_PINGPONG B then img_max_size p else img_xz_max_size p)"

text \<open>The percentage \<open>(get_size - skip_size) * 80 / area size\<close>.\<close>

definition progress :: "ota_build \<Rightarrow> image_ota_param \<Rightarrow> 's ota \<Rightarrow> u32 option" where
  "progress B p st =
     udiv ((op_get_size st - ota_skip_size st) * OTA_DOWNLOAD_FINISH_PERCENT) (slot_size B p)"

section \<open>Initialisation\<close>

definition ota_update_seq_policy :: "u8 list" where
  "ota_update_seq_policy = [1, 0]"

definition ota_get_update_seq :: "'s ota \<Rightarrow> u8" where
  "ota_get_update_seq st = (case ota_iop st of
       None \<Rightarrow> IMAGE_SEQ_NUM
     | Some p \<Rightarrow>
        if IMAGE_AREA_SIZE (img_max_size p) = 0 \<or> bl_size p = 0 \<or> running_seq p \<ge> IMAGE_SEQ_NUM
        then IMAGE_SEQ_NUM
        else ota_update_seq_policy ! unat (running_seq p))"

definition ota_init :: "ota_build \<Rightarrow> 's ota \<Rightarrow> ota_status \<times> 's ota" where
  "ota_init B st =
     (if POLICY_COMPRESSION B \<and> img_xz_max_size (iop (o_img st)) = IMAGE_INVALID_SIZE
      then OTA_STATUS_ERROR else OTA_STATUS_OK,
      st\<lparr>op_iop := True, op_get_size := 0\<rparr>)"

definition ota_deinit :: "'s ota \<Rightarrow> 's ota" where
  "ota_deinit st = st\<lparr>op_iop := False, op_get_size := 0\<rparr>"

definition ota_set_cb :: "bool \<Rightarrow> 's ota \<Rightarrow> ota_status \<times> 's ota" where
  "ota_set_cb cb st = (OTA_STATUS_OK, st\<lparr>ota_cb := cb\<rparr>)"

definition ota_set_skip_size :: "u32 \<Rightarrow> 's ota \<Rightarrow> ota_status \<times> 's ota" where
  "ota_set_skip_size skip st = (OTA_STATUS_OK, st\<lparr>ota_skip_size := skip\<rparr>)"

text \<open>The skip size defaults to the size of the bootloader, which the pushed file starts with.\<close>

definition default_skip :: "ota_build \<Rightarrow> image_ota_param \<Rightarrow> 's ota \<Rightarrow> 's ota" where
  "default_skip B p st =
     (if sint (ota_skip_size st) < 0
      then st\<lparr>ota_skip_size := if POLICY_PINGPONG B then bl_size p else 0\<rparr> else st)"

section \<open>Downloading an image\<close>

text \<open>
  A transport: \<open>g_init\<close> opens the source, \<open>g_get\<close> fills a buffer of the given size: status,
  the received bytes, the end-of-file flag.
\<close>

record 's ota_transport =
  g_init :: "'s ota \<Rightarrow> (ota_status \<times> 's ota) option"
  g_get :: "u32 \<Rightarrow> 's ota \<Rightarrow> (ota_status \<times> u8 list \<times> bool \<times> 's ota) option"

partial_function (option) skip_loop ::
  "'s ota_transport \<Rightarrow> u32 \<Rightarrow> 's ota \<Rightarrow> (bool \<times> 's ota) option" where
  "skip_loop T skip_size st =
     (if skip_size > 0 then do {
        (status, data, eof, st) \<leftarrow> g_get T (if skip_size > OTA_BUF_SIZE then OTA_BUF_SIZE else skip_size) st;
        if status \<noteq> OTA_STATUS_OK \<or> eof then Some (False, st) else
          let recv_size = of_nat (length data) in do {
            st \<leftarrow> notify OTA_UPGRADE_UPDATING 0 (Some OTA_START_PERCENT)
                    (st\<lparr>op_get_size := op_get_size st + recv_size\<rparr>);
            skip_loop T (skip_size - recv_size) st
          }
      } else Some (True, st))"

text \<open>The loop that stores the image: the status, what is left of the slot, the state.\<close>

partial_function (option) download_loop ::
  "'s flash_if \<Rightarrow> ota_build \<Rightarrow> image_ota_param \<Rightarrow> 's ota_transport \<Rightarrow> u32 \<Rightarrow> u32 \<Rightarrow> u32 \<Rightarrow> 's ota
     \<Rightarrow> (ota_status \<times> u32 \<times> 's ota) option" where
  "download_loop F B p T flash addr left st =
     (if left > 0 then do {
        (status, data, eof, st) \<leftarrow> g_get T (if left > OTA_BUF_SIZE then OTA_BUF_SIZE else left) st;
        if status \<noteq> OTA_STATUS_OK then Some (OTA_STATUS_ERROR, left, st)
        else if data = [] then
          (if eof then Some (OTA_STATUS_OK, left, st) else do {
             st \<leftarrow> notify OTA_UPGRADE_UPDATING (op_get_size st - ota_skip_size st) (progress B p st) st;
             download_loop F B p T flash addr left st
           })
        else
          let recv_size = of_nat (length data); st = st\<lparr>op_get_size := op_get_size st + recv_size\<rparr> in do {
            (w, st) \<leftarrow> on_fs (if_hal_write F flash addr data recv_size) st;
            if w \<noteq> HAL_OK then Some (OTA_STATUS_ERROR, left - recv_size, st)
            else if eof then Some (OTA_STATUS_OK, left - recv_size, st) else do {
              st \<leftarrow> notify OTA_UPGRADE_UPDATING (op_get_size st - ota_skip_size st) (progress B p st) st;
              download_loop F B p T flash (addr + recv_size) (left - recv_size) st
            }
          }
      } else Some (OTA_STATUS_ERROR, left, st))"

text \<open>The part of \<open>ota_update_image_process\<close> from the label \<open>ota_err\<close> on.\<close>

definition check_download ::
  "'s flash_if \<Rightarrow> u8 \<Rightarrow> ota_status \<Rightarrow> u32 \<Rightarrow> 's ota \<Rightarrow> (ota_status \<times> 's ota) option" where
  "check_download F sq ret left st =
     (if ret \<noteq> OTA_STATUS_OK \<and> left \<noteq> 0 then Some (ret, st) else do {
        (v, st) \<leftarrow> on_fs (image_check_sections F sq (o_img st)) st;
        if v = IMAGE_INVALID then Some (OTA_STATUS_ERROR, st) else do {
          st \<leftarrow> notify OTA_UPGRADE_UPDATING (op_get_size st - ota_skip_size st)
                  (Some OTA_CHECK_SECTIONS_PERCENT) st;
          Some (OTA_STATUS_OK, st)
        }
      })"

definition ota_update_image_process ::
  "'s flash_if \<Rightarrow> ota_build \<Rightarrow> 's ota_transport \<Rightarrow> u8 \<Rightarrow> 's ota \<Rightarrow> (ota_status \<times> 's ota) option" where
  "ota_update_image_process F B T sq st = do {
     p \<leftarrow> ota_iop st;
     fl \<leftarrow> at (iop_flash p) sq;
     addr \<leftarrow> at (iop_addr p) sq;
     let flash = ucast fl;
     let room = slot_size B p;
     st \<leftarrow> notify OTA_UPGRADE_START 0 (Some OTA_START_PERCENT) st;
     (e, st) \<leftarrow> on_fs (if_flash_erase F flash addr room) st;
     if e \<noteq> 0 then Some (OTA_STATUS_ERROR, st) else
     case if_malloc F (unat OTA_BUF_SIZE) (o_fs st) of
       (None, s) \<Rightarrow> Some (OTA_STATUS_ERROR, st\<lparr>o_fs := s\<rparr>)
     | (Some _, s) \<Rightarrow> do {
         (i, st) \<leftarrow> g_init T (st\<lparr>o_fs := s\<rparr>);
         if i \<noteq> OTA_STATUS_OK then check_download F sq OTA_STATUS_ERROR room st else
         let st = default_skip B p (st\<lparr>op_get_size := 0\<rparr>) in do {
           (ok, st) \<leftarrow> skip_loop T (ota_skip_size st) st;
           if \<not> ok then check_download F sq OTA_STATUS_ERROR room st else do {
             (o1, st) \<leftarrow> on_fs (if_hal_open F flash OTA_FLASH_TIMEOUT) st;
             if o1 \<noteq> HAL_OK then check_download F sq OTA_STATUS_ERROR room st else do {
               (ret, left, st) \<leftarrow> download_loop F B p T flash addr room st;
               (_, st) \<leftarrow> on_fs (if_hal_close F flash) st;
               check_download F sq ret left st
             }
           }
         }
       }
   }"

definition ota_update_image ::
  "'s flash_if \<Rightarrow> ota_build \<Rightarrow> 's ota_transport \<Rightarrow> 's ota \<Rightarrow> (ota_status \<times> 's ota) option" where
  "ota_update_image F B T st =
     (let sq = ota_get_update_seq st in
      if sq < IMAGE_SEQ_NUM then do {
        (ret, st) \<leftarrow> ota_update_image_process F B T sq st;
        if ret \<noteq> OTA_STATUS_OK then do {
          p \<leftarrow> ota_iop st;
          st \<leftarrow> notify OTA_UPGRADE_FAIL (op_get_size st - ota_skip_size st) (progress B p st) st;
          Some (ret, st)
        } else Some (ret, st)
      } else Some (OTA_STATUS_ERROR, st))"

section \<open>The transports\<close>

text \<open>
  FatFS and the HTTP client are given: \<open>f_open\<close> and \<open>f_read\<close> return FR_OK as 0 (the latter with
  the bytes read, \<open>f_close\<close> the state), \<open>HTTPC_get\<close> returns HTTP_CLIENT_SUCCESS (0),
  HTTP_CLIENT_EOS (1000) or an error, with the bytes received.
\<close>

record 's ota_net =
  f_open :: "string \<Rightarrow> 's \<Rightarrow> int \<times> 's"
  f_read :: "u32 \<Rightarrow> 's \<Rightarrow> int \<times> u8 list \<times> 's"
  f_close :: "'s \<Rightarrow> 's"
  HTTPC_get :: "string \<Rightarrow> u32 \<Rightarrow> 's \<Rightarrow> int \<times> u8 list \<times> 's"

abbreviation (input) HTTP_CLIENT_SUCCESS :: int where "HTTP_CLIENT_SUCCESS \<equiv> 0"
abbreviation (input) HTTP_CLIENT_EOS :: int where "HTTP_CLIENT_EOS \<equiv> 1000"
abbreviation (input) HTTP_CLIENT_MAX_URL_LENGTH :: nat where "HTTP_CLIENT_MAX_URL_LENGTH \<equiv> 512"

text \<open>
  The parameter blocks are allocated on the first use (\<open>ota_fs_param_t\<close> of 568 bytes,
  \<open>HTTPParameters\<close> of 1024 bytes here; only success or failure matters).  The URL is copied
  without a test of its length; a longer one overruns the block.
\<close>

definition ota_update_file_init ::
  "'s flash_if \<Rightarrow> 's ota_net \<Rightarrow> string \<Rightarrow> 's ota \<Rightarrow> (ota_status \<times> 's ota) option" where
  "ota_update_file_init F N url st =
     (let (p, st) = (if fs_param st then (True, st)
        else case if_malloc F 568 (o_fs st) of (b, s) \<Rightarrow> (b \<noteq> None, st\<lparr>fs_param := b \<noteq> None, o_fs := s\<rparr>))
      in if \<not> p then Some (OTA_STATUS_ERROR, st)
         else if length url < 7 then None
         else let (res, s) = f_open N (drop 7 url) (o_fs st) in
              Some (if res \<noteq> 0 then OTA_STATUS_ERROR else OTA_STATUS_OK, st\<lparr>o_fs := s\<rparr>))"

definition ota_update_file_get ::
  "'s ota_net \<Rightarrow> u32 \<Rightarrow> 's ota \<Rightarrow> (ota_status \<times> u8 list \<times> bool \<times> 's ota) option" where
  "ota_update_file_get N buf_size st =
     (if \<not> fs_param st then None else
      let (res, data, s) = f_read N buf_size (o_fs st); st = st\<lparr>o_fs := s\<rparr> in
      if res \<noteq> 0 then Some (OTA_STATUS_ERROR, data, False, st\<lparr>fs_param := False\<rparr>)
      else if (of_nat (length data) :: u32) < buf_size
      then Some (OTA_STATUS_OK, data, True, st\<lparr>o_fs := f_close N (o_fs st), fs_param := False\<rparr>)
      else Some (OTA_STATUS_OK, data, False, st))"

definition ota_update_http_init ::
  "'s flash_if \<Rightarrow> string \<Rightarrow> 's ota \<Rightarrow> (ota_status \<times> 's ota) option" where
  "ota_update_http_init F url st =
     (let (p, st) = (if http_param st then (True, st)
        else case if_malloc F 1024 (o_fs st) of (b, s) \<Rightarrow> (b \<noteq> None, st\<lparr>http_param := b \<noteq> None, o_fs := s\<rparr>))
      in if \<not> p then Some (OTA_STATUS_ERROR, st)
         else if HTTP_CLIENT_MAX_URL_LENGTH < length url then None
         else Some (OTA_STATUS_OK, st\<lparr>http_uri := url\<rparr>))"

definition ota_update_http_get ::
  "'s ota_net \<Rightarrow> u32 \<Rightarrow> 's ota \<Rightarrow> (ota_status \<times> u8 list \<times> bool \<times> 's ota) option" where
  "ota_update_http_get N buf_size st =
     (if \<not> http_param st then None else
      let (ret, data, s) = HTTPC_get N (http_uri st) buf_size (o_fs st); st = st\<lparr>o_fs := s\<rparr> in
      if ret = HTTP_CLIENT_SUCCESS then Some (OTA_STATUS_OK, data, False, st)
      else if ret = HTTP_CLIENT_EOS then Some (OTA_STATUS_OK, data, True, st\<lparr>http_param := False\<rparr>)
      else Some (OTA_STATUS_ERROR, data, False, st\<lparr>http_param := False\<rparr>))"

definition file_transport :: "'s flash_if \<Rightarrow> 's ota_net \<Rightarrow> string \<Rightarrow> 's ota_transport" where
  "file_transport F N url = \<lparr>g_init = ota_update_file_init F N url, g_get = ota_update_file_get N\<rparr>"

definition http_transport :: "'s flash_if \<Rightarrow> 's ota_net \<Rightarrow> string \<Rightarrow> 's ota_transport" where
  "http_transport F N url = \<lparr>g_init = ota_update_http_init F url, g_get = ota_update_http_get N\<rparr>"

text \<open>A NULL URL is \<open>None\<close>; the result of \<open>ota_init\<close> is ignored.\<close>

definition ota_get_image ::
  "'s flash_if \<Rightarrow> ota_build \<Rightarrow> 's ota_net \<Rightarrow> ota_protocol \<Rightarrow> string option \<Rightarrow> 's ota
     \<Rightarrow> (ota_status \<times> 's ota) option" where
  "ota_get_image F B N protocol url st = (case url of
       None \<Rightarrow> Some (OTA_STATUS_ERROR, st)
     | Some url \<Rightarrow>
         let (_, st) = ota_init B st in
         (case protocol of
            OTA_PROTOCOL_FILE \<Rightarrow> ota_update_image F B (file_transport F N url) st
          | OTA_PROTOCOL_HTTP \<Rightarrow> ota_update_image F B (http_transport F N url) st))"

section \<open>Pushing an image\<close>

definition ota_push_init :: "ota_build \<Rightarrow> 's ota \<Rightarrow> ota_status \<times> 's ota" where
  "ota_push_init B st = ota_init B st"

definition ota_push_start ::
  "'s flash_if \<Rightarrow> ota_build \<Rightarrow> 's ota \<Rightarrow> (ota_status \<times> 's ota) option" where
  "ota_push_start F B st = do {
     p \<leftarrow> ota_iop st;
     let sq = ota_get_update_seq st;
     fl \<leftarrow> at (iop_flash p) sq;
     addr \<leftarrow> at (iop_addr p) sq;
     let st = default_skip B p st;
     st \<leftarrow> notify OTA_UPGRADE_START 0 (Some OTA_START_PERCENT) st;
     (e, st) \<leftarrow> on_fs (if_flash_erase F (ucast fl) addr (slot_size B p)) st;
     Some (if e \<noteq> 0 then OTA_STATUS_ERROR else OTA_STATUS_OK, st)
   }"

text \<open>
  The label \<open>out\<close> of \<open>ota_push_data\<close>.
\<close>

definition push_out ::
  "ota_build \<Rightarrow> image_ota_param \<Rightarrow> ota_status \<Rightarrow> u32 \<Rightarrow> 's ota \<Rightarrow> (ota_status \<times> 's ota) option" where
  "push_out B p status remain st = do {
     st \<leftarrow> notify (if status = OTA_STATUS_OK then OTA_UPGRADE_UPDATING else OTA_UPGRADE_FAIL)
             (if op_get_size st > ota_skip_size st then op_get_size st - ota_skip_size st else 0)
             (if remain > 0
              then map_option (\<lambda>q. OTA_DOWNLOAD_FINISH_PERCENT - q)
                     (udiv (remain * OTA_DOWNLOAD_FINISH_PERCENT) (slot_size B p))
              else Some OTA_START_PERCENT) st;
     Some (status, st)
   }"

definition ota_push_data ::
  "'s flash_if \<Rightarrow> ota_build \<Rightarrow> u8 list \<Rightarrow> 's ota \<Rightarrow> (ota_status \<times> 's ota) option" where
  "ota_push_data F B data st = do {
     p \<leftarrow> ota_iop st;
     let len = (of_nat (length data) :: u32);
     if len = 0 then push_out B p OTA_STATUS_OK 0 st
     else if op_get_size st < ota_skip_size st \<and> ota_skip_size st - op_get_size st \<ge> len
     then push_out B p OTA_STATUS_OK 0 (st\<lparr>op_get_size := op_get_size st + len\<rparr>)
     else
       let skip = (if op_get_size st < ota_skip_size st then ota_skip_size st - op_get_size st else 0);
           write_data = drop (unat skip) data;
           write_size = len - skip;
           st = st\<lparr>op_get_size := op_get_size st + skip\<rparr>;
           remain = slot_size B p + ota_skip_size st - op_get_size st
       in if write_size > remain then push_out B p OTA_STATUS_ERROR remain st
       else do {
         let sq = ota_get_update_seq st;
         fl \<leftarrow> at (iop_flash p) sq;
         base \<leftarrow> at (iop_addr p) sq;
         (ret, st) \<leftarrow> on_fs (if_flash_write F (ucast fl) (base + op_get_size st - ota_skip_size st)
                               write_data write_size) st;
         let st = st\<lparr>op_get_size := op_get_size st + ret\<rparr>;
         push_out B p (if ret \<noteq> write_size then OTA_STATUS_ERROR else OTA_STATUS_OK) remain st
       }
   }"

definition ota_push_stop :: "'s ota \<Rightarrow> (ota_status \<times> 's ota) option" where
  "ota_push_stop st = do {
     st \<leftarrow> notify OTA_UPGRADE_STOP (op_get_size st - ota_skip_size st) (Some OTA_VERIFY_IMAGE_PERCENT) st;
     Some (OTA_STATUS_OK, ota_deinit st)
   }"

section \<open>Verification\<close>

text \<open>
  \<open>ota_verify_data_t\<close>, 44 bytes: the magic number, length, version, type, a reserved half-word
  and 32 bytes of digest.  Type codes outside the enumeration are \<open>None\<close>.
\<close>

record ota_verify_data =
  ov_magic :: u32
  ov_length :: u16
  ov_version :: u16
  ov_type :: u16
  ov_data :: "u8 list"

definition verify_data_of_bytes :: "u8 list \<Rightarrow> ota_verify_data" where
  "verify_data_of_bytes bs =
     \<lparr>ov_magic = u32_of_bytes bs, ov_length = u16_of_bytes (drop 4 bs),
      ov_version = u16_of_bytes (drop 6 bs), ov_type = u16_of_bytes (drop 8 bs),
      ov_data = field 12 32 bs\<rparr>"

definition verify_of_code :: "u16 \<Rightarrow> ota_verify option" where
  "verify_of_code c =
     (if c = 0 then Some OTA_VERIFY_NONE else if c = 1 then Some OTA_VERIFY_CRC32
      else if c = 2 then Some OTA_VERIFY_MD5 else if c = 3 then Some OTA_VERIFY_SHA1
      else if c = 4 then Some OTA_VERIFY_SHA256 else None)"

text \<open>
  The walk to the end of the image.  The walk returns the position (0 on a bad image) and the
  device it was reading last, which is the one the code then closes.
\<close>

partial_function (option) pos_walk ::
  "'s flash_if \<Rightarrow> image_ota_param \<Rightarrow> u8 \<Rightarrow> u32 \<Rightarrow> u32 \<Rightarrow> u8 list \<Rightarrow> 's \<Rightarrow> (u32 \<times> u32 \<times> 's) option" where
  "pos_walk F p sq flash addr sh s = do {
     (r, sh, s) \<leftarrow> if_hal_read F flash addr sh IMAGE_HEADER_SIZE s;
     if r \<noteq> HAL_OK then Some (0, flash, s)
     else if image_check_header (Some sh) = IMAGE_INVALID then Some (0, flash, s)
     else
       let h = section_header_of_bytes sh; nx = next_section IMAGE_CHECK_OTA h in
       if nx = IMAGE_INVALID_ADDR then Some (addr + IMAGE_HEADER_SIZE + sh_data_size h, flash, s)
       else pos_walk F p sq (ucast (iop_flash p ! unat sq)) (IMG_SEC_ADDR p sq nx) sh s
   }"

definition ota_get_verify_data_pos ::
  "'s flash_if \<Rightarrow> u8 \<Rightarrow> 's ota \<Rightarrow> (u32 \<times> 's ota) option" where
  "ota_get_verify_data_pos F sq st =
     (if sq \<ge> IMAGE_SEQ_NUM then Some (0, st) else do {
        p \<leftarrow> ota_iop st;
        (e, st) \<leftarrow> on_fs (if_hal_open F (IMG_BL_FLASH p) OTA_FLASH_TIMEOUT) st;
        if e \<noteq> HAL_OK then Some (0, st) else do {
          ((pos, flash), st) \<leftarrow> on_fs (\<lambda>s. map_option (\<lambda>(pos, fl, s). ((pos, fl), s))
             (pos_walk F p sq (IMG_BL_FLASH p) (IMG_BL_ADDR p) (replicate 64 0) s)) st;
          (_, st) \<leftarrow> on_fs (if_hal_close F flash) st;
          Some (pos, st)
        }
      })"

definition verify_seq :: "ota_build \<Rightarrow> 's ota \<Rightarrow> u8 option" where
  "verify_seq B st = (if BOOTLOADER B then map_option running_seq (ota_iop st)
                      else Some (ota_get_update_seq st))"

definition ota_get_verify_data ::
  "'s flash_if \<Rightarrow> ota_build \<Rightarrow> u8 list \<Rightarrow> 's ota \<Rightarrow> (ota_status \<times> u8 list \<times> 's ota) option" where
  "ota_get_verify_data F B data st = do {
     sq \<leftarrow> verify_seq B st;
     if sq \<ge> IMAGE_SEQ_NUM then Some (OTA_STATUS_ERROR, data, st)
     else if op_get_size st = 0 then Some (OTA_STATUS_ERROR, data, st)
     else do {
       p \<leftarrow> ota_iop st;
       let flash = ucast (iop_flash p ! unat sq);
       (addr, st) \<leftarrow> ota_get_verify_data_pos F sq st;
       if addr = 0 then Some (OTA_STATUS_ERROR, data, st) else do {
         (e, st) \<leftarrow> on_fs (if_hal_open F flash OTA_FLASH_TIMEOUT) st;
         if e \<noteq> HAL_OK then Some (OTA_STATUS_ERROR, data, st) else do {
           ((r, data), st) \<leftarrow> on_fs (\<lambda>s. map_option (\<lambda>(r, d, s). ((r, d), s))
              (if_hal_read F flash addr data OTA_VERIFY_DATA_BYTES s)) st;
           (_, st) \<leftarrow> on_fs (if_hal_close F flash) st;
           Some (if r \<noteq> HAL_OK then OTA_STATUS_ERROR
                 else if ov_magic (verify_data_of_bytes data) \<noteq> OTA_VERIFY_MAGIC then OTA_STATUS_ERROR
                 else OTA_STATUS_OK, data, st)
         }
       }
     }
   }"

text \<open>
  The crypto engine's drivers, by algorithm: initialise (the CRC gets the total size), append
  a chunk, finish with the digest's bytes; each with a HAL status.
\<close>

record 'h crypto =
  HAL_Hash_Init :: "ota_verify \<Rightarrow> u32 \<Rightarrow> int \<times> 'h"
  HAL_Hash_Append :: "ota_verify \<Rightarrow> 'h \<Rightarrow> u8 list \<Rightarrow> int \<times> 'h"
  HAL_Hash_Finish :: "ota_verify \<Rightarrow> 'h \<Rightarrow> int \<times> u8 list"

text \<open>The loop of \<open>ota_verify_image_append_process\<close>; \<open>buf\<close> is its read buffer.\<close>

function append_loop ::
  "'s flash_if \<Rightarrow> 'h crypto \<Rightarrow> ota_verify \<Rightarrow> u32 \<Rightarrow> u32 \<Rightarrow> u32 \<Rightarrow> u8 list \<Rightarrow> 'h \<Rightarrow> 's
     \<Rightarrow> (u32 \<times> 'h \<times> 's) option" where
  "append_loop F C alg flash addr left buf hdl s =
     (if left > 0 then
        let read_size = (if left > OTA_BUF_SIZE then OTA_BUF_SIZE else left) in do {
          (r, buf, s) \<leftarrow> if_hal_read F flash addr buf read_size s;
          if r \<noteq> HAL_OK then Some (left, hdl, s)
          else let (e, hdl) = HAL_Hash_Append C alg hdl (take (unat read_size) buf) in
            if e \<noteq> HAL_OK then Some (left, hdl, s)
            else append_loop F C alg flash (addr + read_size) (left - read_size) buf hdl s
        }
      else Some (left, hdl, s))"
  by pat_completeness auto
termination
  by (relation "measure (\<lambda>(F, C, alg, flash, addr, left, buf, hdl, s). unat left)")
    (auto simp: unat_sub word_le_nat_alt word_less_nat_alt)

declare append_loop.simps [simp del]

definition ota_verify_image_append_process ::
  "'s flash_if \<Rightarrow> 'h crypto \<Rightarrow> ota_verify \<Rightarrow> u32 \<Rightarrow> u32 \<Rightarrow> u32 \<Rightarrow> 'h \<Rightarrow> 's
     \<Rightarrow> (ota_status \<times> 'h \<times> 's) option" where
  "ota_verify_image_append_process F C alg flash addr len hdl s = do {
     (e, s) \<leftarrow> if_hal_open F flash OTA_FLASH_TIMEOUT s;
     if e \<noteq> HAL_OK then Some (OTA_STATUS_ERROR, hdl, s) else do {
       (status, hdl, s) \<leftarrow> (case if_malloc F (unat OTA_BUF_SIZE) s of
           (None, s) \<Rightarrow> Some (OTA_STATUS_ERROR, hdl, s)
         | (Some buf, s) \<Rightarrow> do {
             (left, hdl, s) \<leftarrow> append_loop F C alg flash addr len buf hdl s;
             Some (if left = 0 then OTA_STATUS_OK else OTA_STATUS_ERROR, hdl, s)
           });
       (_, s) \<leftarrow> if_hal_close F flash s;
       Some (status, hdl, s)
     }
   }"

definition ota_verify_image_append ::
  "'s flash_if \<Rightarrow> ota_build \<Rightarrow> 'h crypto \<Rightarrow> ota_verify \<Rightarrow> u8 \<Rightarrow> 'h \<Rightarrow> 's ota
     \<Rightarrow> (ota_status \<times> 'h \<times> 's ota) option" where
  "ota_verify_image_append F B C alg sq hdl st = do {
     p \<leftarrow> ota_iop st;
     (len, st) \<leftarrow> (if BOOTLOADER B
        then do { (pos, st) \<leftarrow> ota_get_verify_data_pos F sq st; Some (pos - iop_addr p ! unat sq, st) }
        else Some (op_get_size st - ota_skip_size st - OTA_VERIFY_DATA_BYTES, st));
     ((status, hdl), st) \<leftarrow> on_fs (\<lambda>s. map_option (\<lambda>(r, h, s). ((r, h), s))
        (ota_verify_image_append_process F C alg (ucast (iop_flash p ! unat sq))
           (iop_addr p ! unat sq) len hdl s)) st;
     Some (status, hdl, st)
   }"

definition digest_size :: "ota_verify \<Rightarrow> nat" where
  "digest_size alg = (case alg of OTA_VERIFY_NONE \<Rightarrow> 0 | OTA_VERIFY_CRC32 \<Rightarrow> 4 | OTA_VERIFY_MD5 \<Rightarrow> 16
     | OTA_VERIFY_SHA1 \<Rightarrow> 20 | OTA_VERIFY_SHA256 \<Rightarrow> 32)"

text \<open>
  \<open>ota_verify_image_crc32\<close>, \<open>_md5\<close>, \<open>_sha1\<close> and \<open>_sha256\<close>: the four functions differ in the
  driver they call and the size of the digest.
\<close>

definition ota_verify_image_digest ::
  "'s flash_if \<Rightarrow> ota_build \<Rightarrow> 'h crypto \<Rightarrow> ota_verify \<Rightarrow> u8 \<Rightarrow> u8 list \<Rightarrow> 's ota
     \<Rightarrow> (ota_status \<times> 's ota) option" where
  "ota_verify_image_digest F B C alg sq value st =
     (let (e, hdl) = HAL_Hash_Init C alg (op_get_size st) in
      if e \<noteq> HAL_OK then Some (OTA_STATUS_ERROR, st) else do {
        (status, hdl, st) \<leftarrow> ota_verify_image_append F B C alg sq hdl st;
        if status \<noteq> OTA_STATUS_OK then Some (OTA_STATUS_ERROR, st) else
        let (e, digest) = HAL_Hash_Finish C alg hdl in
        if e \<noteq> HAL_OK then Some (OTA_STATUS_ERROR, st)
        else if length value < digest_size alg then None
        else Some (if take (digest_size alg) value = take (digest_size alg) digest
                   then OTA_STATUS_OK else OTA_STATUS_ERROR, st)
      })"

definition ota_verify_image_none :: "u8 \<Rightarrow> u8 list option \<Rightarrow> ota_status" where
  "ota_verify_image_none sq value = OTA_STATUS_OK"

text \<open>The label \<open>verify_err\<close>, and the notification of success.\<close>

definition reported_size :: "ota_build \<Rightarrow> 's ota \<Rightarrow> u32" where
  "reported_size B st = (if POLICY_PINGPONG B then op_get_size st - ota_skip_size st else op_get_size st)"

definition verify_failed :: "ota_build \<Rightarrow> 's ota \<Rightarrow> (ota_status \<times> 's ota) option" where
  "verify_failed B st = do {
     p \<leftarrow> ota_iop st;
     st \<leftarrow> notify OTA_UPGRADE_FAIL (reported_size B st)
             (udiv (reported_size B st * OTA_DOWNLOAD_FINISH_PERCENT) (slot_size B p)) st;
     Some (OTA_STATUS_ERROR, st)
   }"

definition ota_verify_image ::
  "'s flash_if \<Rightarrow> ota_build \<Rightarrow> 'h crypto \<Rightarrow> ota_verify option \<Rightarrow> u8 list option \<Rightarrow> 's ota
     \<Rightarrow> (ota_status \<times> 's ota) option" where
  "ota_verify_image F B C verify value st =
     (if verify \<noteq> Some OTA_VERIFY_NONE \<and> value = None then Some (OTA_STATUS_ERROR, st) else do {
        sq \<leftarrow> verify_seq B st;
        if sq \<ge> IMAGE_SEQ_NUM then Some (OTA_STATUS_ERROR, st)
        else if op_get_size st = 0 then Some (OTA_STATUS_ERROR, st)
        else case verify of None \<Rightarrow> Some (OTA_STATUS_ERROR, st) | Some alg \<Rightarrow> do {
          (status, st) \<leftarrow> (if alg = OTA_VERIFY_NONE then Some (ota_verify_image_none sq value, st)
                          else ota_verify_image_digest F B C alg sq (the value) st);
          if status \<noteq> OTA_STATUS_OK then verify_failed B st else do {
            let cfg = (if POLICY_COMPRESSION B
                       then \<lparr>cfg_seq = ota_get_update_seq st, cfg_state = IMAGE_STATE_VERIFIED\<rparr>
                       else if BOOTLOADER B
                       then \<lparr>cfg_seq = ota_get_update_seq st, cfg_state = IMAGE_STATE_UNVERIFIED\<rparr>
                       else \<lparr>cfg_seq = sq, cfg_state = IMAGE_STATE_VERIFIED\<rparr>);
            (ret, st) \<leftarrow> on_fs (image_set_cfg F (o_img st) (Some cfg)) st;
            if ret = 0 then do {
              st \<leftarrow> notify OTA_UPGRADE_SUCCESS (reported_size B st) (Some OTA_VERIFY_IMAGE_PERCENT) st;
              Some (OTA_STATUS_OK, st)
            } else verify_failed B st
          }
        }
      })"

text \<open>
  The local \<open>verify_data\<close> of \<open>ota_push_finish\<close> starts uninitialised; it is used only when
  \<open>ota_get_verify_data\<close> has stored all of it, so it starts as zeros here.
\<close>

definition push_result :: "ota_build \<Rightarrow> image_ota_param \<Rightarrow> ota_status \<Rightarrow> 's ota \<Rightarrow> (ota_status \<times> 's ota) option" where
  "push_result B p status st = do {
     st \<leftarrow> notify (if status = OTA_STATUS_OK then OTA_UPGRADE_SUCCESS else OTA_UPGRADE_FAIL)
             (op_get_size st - ota_skip_size st)
             (if status = OTA_STATUS_OK then Some OTA_VERIFY_IMAGE_PERCENT else progress B p st) st;
     Some (status, st)
   }"

definition ota_push_finish ::
  "'s flash_if \<Rightarrow> ota_build \<Rightarrow> 'h crypto \<Rightarrow> 's ota \<Rightarrow> (ota_status \<times> 's ota) option" where
  "ota_push_finish F B C st = do {
     p \<leftarrow> ota_iop st;
     (v, st) \<leftarrow> on_fs (image_check_sections F (ota_get_update_seq st) (o_img st)) st;
     if v = IMAGE_INVALID then push_result B p OTA_STATUS_ERROR st else do {
       st \<leftarrow> notify OTA_UPGRADE_UPDATING (op_get_size st - ota_skip_size st)
               (Some OTA_CHECK_SECTIONS_PERCENT) st;
       (g, data, st) \<leftarrow> ota_get_verify_data F B (replicate 44 0) st;
       let vd = verify_data_of_bytes data;
       (status, st) \<leftarrow> (if g \<noteq> OTA_STATUS_OK then ota_verify_image F B C (Some OTA_VERIFY_NONE) None st
                       else ota_verify_image F B C (verify_of_code (ov_type vd)) (Some (ov_data vd)) st);
       push_result B p status st
     }
   }"

end
