(* ===== verification/Flash_Chip.thy ===== *)
theory Flash_Chip
  imports XR_Prelude
begin

text \<open>
  The chip side of the flash driver: the function pointers of \<open>struct FlashChip\<close> and
  \<open>struct FlashDrv\<close> that \<open>hal_flash.c\<close> calls (include/driver/chip/flashchip/flash_chip.h),
  as a record of functions over an arbitrary chip state, and the documented behaviour of a
  NOR flash chip behind them as the predicate \<open>nor_chip\<close>.  The chip state holds whatever
  the chip and its controller remember; \<open>cells\<close> reads the memory array out of it.
\<close>

section \<open>Status codes and erase modes\<close>


abbreviation (input) FLASH_ERASE_4KB :: u32 where "FLASH_ERASE_4KB \<equiv> 4096"
abbreviation (input) FLASH_ERASE_32KB :: u32 where "FLASH_ERASE_32KB \<equiv> 32768"
abbreviation (input) FLASH_ERASE_64KB :: u32 where "FLASH_ERASE_64KB \<equiv> 65536"
abbreviation (input) FLASH_ERASE_CHIP :: u32 where "FLASH_ERASE_CHIP \<equiv> 2"

section \<open>The chip's function pointers\<close>

text \<open>
  \<open>pageProgram\<close> and \<open>chip_read\<close> take the program or read mode first.  \<open>chip_read\<close> returns
  the bytes it stored in the caller's buffer.
\<close>

record 'c chip_ops =
  drv_open :: "'c \<Rightarrow> 'c"
  drv_close :: "'c \<Rightarrow> 'c"
  writeEnable :: "'c \<Rightarrow> 'c"
  pageProgram :: "u32 \<Rightarrow> u32 \<Rightarrow> u8 list \<Rightarrow> 'c \<Rightarrow> int \<times> 'c"
  chip_read :: "u32 \<Rightarrow> u32 \<Rightarrow> u32 \<Rightarrow> 'c \<Rightarrow> int \<times> u8 list \<times> 'c"
  chip_erase :: "u32 \<Rightarrow> u32 \<Rightarrow> 'c \<Rightarrow> int \<times> 'c"
  isBusy :: "'c \<Rightarrow> int \<times> 'c"

text \<open>\<open>idle_after ops k c c'\<close>: the next k status reads say busy, the one after says idle.\<close>

fun idle_after :: "'c chip_ops \<Rightarrow> nat \<Rightarrow> 'c \<Rightarrow> 'c \<Rightarrow> bool" where
  "idle_after ops 0 c c' \<longleftrightarrow> fst (isBusy ops c) \<le> 0 \<and> c' = snd (isBusy ops c)"
| "idle_after ops (Suc k) c c' \<longleftrightarrow>
     0 < fst (isBusy ops c) \<and> idle_after ops k (snd (isBusy ops c)) c'"

section \<open>Documented behaviour of a NOR flash\<close>

text \<open>
  An accepted page program or block erase (of a mode in \<open>supp\<close>) completes within the polling budget of the driver
  (the data sheets' maximal times are well below five seconds) and then has changed exactly
  its range; a command the bus refused (negative status) has changed nothing outside its
  range.  A program command is only specified inside one 256-byte page.  The status read, the
  write-enable latch and switching the controller do not change the cells.
\<close>

definition completes ::
  "'c chip_ops \<Rightarrow> ('c \<Rightarrow> content) \<Rightarrow> nat \<Rightarrow> nat \<Rightarrow> content \<Rightarrow> content \<Rightarrow> int \<times> 'c \<Rightarrow> bool" where
  "completes ops cells a n before after rc \<longleftrightarrow>
     (if fst rc < 0 then same_outside a n before (cells (snd rc))
      else \<exists>k < 500000. \<exists>c'. idle_after ops k (snd rc) c' \<and> cells c' = after)"

definition chip_switches :: "'c chip_ops \<Rightarrow> ('c \<Rightarrow> content) \<Rightarrow> bool" where
  "chip_switches ops cells \<longleftrightarrow>
     (\<forall>c. cells (drv_open ops c) = cells c \<and> cells (drv_close ops c) = cells c)"

definition chip_programs :: "'c chip_ops \<Rightarrow> ('c \<Rightarrow> content) \<Rightarrow> nat \<Rightarrow> bool" where
  "chip_programs ops cells cap \<longleftrightarrow>
     (\<forall>m a bs c. bs \<noteq> [] \<longrightarrow> unat a mod 256 + length bs \<le> 256 \<longrightarrow> unat a + length bs \<le> cap \<longrightarrow>
        completes ops cells (unat a) (length bs) (cells c) (nor_program (cells c) (unat a) bs)
          (pageProgram ops m a bs (writeEnable ops c)))"

definition block_mode :: "u32 \<Rightarrow> bool" where
  "block_mode m \<longleftrightarrow> m = FLASH_ERASE_4KB \<or> m = FLASH_ERASE_32KB \<or> m = FLASH_ERASE_64KB"

definition chip_erases ::
  "'c chip_ops \<Rightarrow> ('c \<Rightarrow> content) \<Rightarrow> nat \<Rightarrow> u32 \<Rightarrow> bool" where
  "chip_erases ops cells cap supp \<longleftrightarrow>
     (\<forall>m a c. block_mode m \<longrightarrow> m AND supp \<noteq> 0 \<longrightarrow> a mod m = 0 \<longrightarrow> unat a + unat m \<le> cap \<longrightarrow>
        completes ops cells (unat a) (unat m) (cells c) (nor_erase (cells c) (unat a) (unat m))
          (chip_erase ops m a (writeEnable ops c)))"

definition chip_reads :: "'c chip_ops \<Rightarrow> ('c \<Rightarrow> content) \<Rightarrow> nat \<Rightarrow> bool" where
  "chip_reads ops cells cap \<longleftrightarrow>
     (\<forall>m a n c r bs c'. chip_read ops m a n c = (r, bs, c') \<longrightarrow>
        cells c' = cells c \<and> length bs = unat n \<and>
        (r = 0 \<and> unat a + unat n \<le> cap \<longrightarrow> bs = content_read (cells c) (unat a) (unat n)))"

definition nor_chip :: "'c chip_ops \<Rightarrow> ('c \<Rightarrow> content) \<Rightarrow> nat \<Rightarrow> u32 \<Rightarrow> bool" where
  "nor_chip ops cells cap supp \<longleftrightarrow> chip_switches ops cells \<and> chip_programs ops cells cap \<and>
     chip_erases ops cells cap supp \<and> chip_reads ops cells cap"

lemma nor_chip_open [simp]: "nor_chip ops cells cap supp \<Longrightarrow> cells (drv_open ops c) = cells c"
  by (simp add: nor_chip_def chip_switches_def)

lemma nor_chip_close [simp]: "nor_chip ops cells cap supp \<Longrightarrow> cells (drv_close ops c) = cells c"
  by (simp add: nor_chip_def chip_switches_def)

lemma nor_chip_program:
  "nor_chip ops cells cap supp \<Longrightarrow> bs \<noteq> [] \<Longrightarrow> unat a mod 256 + length bs \<le> 256 \<Longrightarrow>
   unat a + length bs \<le> cap \<Longrightarrow>
   completes ops cells (unat a) (length bs) (cells c) (nor_program (cells c) (unat a) bs)
     (pageProgram ops m a bs (writeEnable ops c))"
  unfolding nor_chip_def chip_programs_def by blast

lemma nor_chip_erase:
  "nor_chip ops cells cap supp \<Longrightarrow> block_mode m \<Longrightarrow> m AND supp \<noteq> 0 \<Longrightarrow> a mod m = 0 \<Longrightarrow> unat a + unat m \<le> cap \<Longrightarrow>
   completes ops cells (unat a) (unat m) (cells c) (nor_erase (cells c) (unat a) (unat m))
     (chip_erase ops m a (writeEnable ops c))"
  by (simp add: nor_chip_def chip_erases_def)

lemma nor_chip_read:
  "nor_chip ops cells cap supp \<Longrightarrow> chip_read ops m a n c = (r, bs, c') \<Longrightarrow>
   cells c' = cells c \<and> length bs = unat n \<and>
   (r = 0 \<and> unat a + unat n \<le> cap \<longrightarrow> bs = content_read (cells c) (unat a) (unat n))"
  unfolding nor_chip_def chip_reads_def by blast

section \<open>Devices and the state of the HAL\<close>

text \<open>
  \<open>struct FlashDev\<close> with the fields of its chip that the driver reads.  \<open>xip_opt_read\<close> is the
  condition of the read path that leaves the controller alone (\<open>xip_on\<close> and
  \<open>FLASH_OPTIMIZE_READ\<close>).
\<close>

record 'c flash_dev =
  dev_chip :: 'c
  cfg_mSize :: u32
  cfg_mEraseSizeSupport :: u32
  dev_rmode :: u32
  dev_wmode :: u32
  dev_usercnt :: u8
  xip_opt_read :: bool

text \<open>
  The state \<open>hal_flash.c\<close> works on: the list \<open>flashNodeHead\<close> of registered devices by
  device number, what the next mutex operations and allocations of the environment return
  (an empty list: they succeed), and the number of watchdog feeds so far.  An allocation
  that succeeds returns a block with arbitrary contents.
\<close>

record 'c hal =
  flashNodeHead :: "(u32 \<times> 'c flash_dev) list"
  mutex_rets :: "int list"
  malloc_rets :: "u8 list option list"
  alive_cnt :: nat

definition hal_mutex :: "'c hal \<Rightarrow> int \<times> 'c hal" where
  "hal_mutex s = (case mutex_rets s of [] \<Rightarrow> (HAL_OK, s)
                  | r # rs \<Rightarrow> (r, s\<lparr>mutex_rets := rs\<rparr>))"

definition malloc_block :: "nat \<Rightarrow> u8 list \<Rightarrow> u8 list" where
  "malloc_block n stale = take n (stale @ replicate n 0)"

definition hal_malloc :: "nat \<Rightarrow> 'c hal \<Rightarrow> u8 list option \<times> 'c hal" where
  "hal_malloc n s = (case malloc_rets s of [] \<Rightarrow> (Some (replicate n 0), s)
     | None # rs \<Rightarrow> (None, s\<lparr>malloc_rets := rs\<rparr>)
     | Some stale # rs \<Rightarrow> (Some (malloc_block n stale), s\<lparr>malloc_rets := rs\<rparr>))"

definition getFlashDev :: "u32 \<Rightarrow> 'c hal \<Rightarrow> 'c flash_dev option" where
  "getFlashDev fl s = map_of (flashNodeHead s) fl"

fun put_assoc :: "'k \<Rightarrow> 'v \<Rightarrow> ('k \<times> 'v) list \<Rightarrow> ('k \<times> 'v) list" where
  "put_assoc k v [] = []"
| "put_assoc k v ((k', v') # xs) = (if k' = k then (k, v) # xs else (k', v') # put_assoc k v xs)"

definition putFlashDev :: "u32 \<Rightarrow> 'c flash_dev \<Rightarrow> 'c hal \<Rightarrow> 'c hal" where
  "putFlashDev fl dev s = s\<lparr>flashNodeHead := put_assoc fl dev (flashNodeHead s)\<rparr>"

lemma map_of_put_assoc:
  "map_of (put_assoc k v xs) k' =
     (if k' = k \<and> map_of xs k \<noteq> None then Some v else map_of xs k')"
  by (induction k v xs rule: put_assoc.induct) auto

lemma getFlashDev_put:
  "getFlashDev fl' (putFlashDev fl dev s) =
     (if fl' = fl \<and> getFlashDev fl s \<noteq> None then Some dev else getFlashDev fl' s)"
  by (simp add: getFlashDev_def putFlashDev_def map_of_put_assoc)

lemma hal_mutex_frame:
  "hal_mutex s = (r, s') \<Longrightarrow> flashNodeHead s' = flashNodeHead s \<and> alive_cnt s' = alive_cnt s"
  by (auto simp: hal_mutex_def split: list.splits)

lemma hal_malloc_frame:
  "hal_malloc n s = (p, s') \<Longrightarrow> flashNodeHead s' = flashNodeHead s"
  by (auto simp: hal_malloc_def split: list.splits option.splits)

lemma length_malloc_block [simp]: "length (malloc_block n stale) = n"
  by (simp add: malloc_block_def)

lemma hal_malloc_length: "hal_malloc n s = (Some p, s') \<Longrightarrow> length p = n"
  by (auto simp: hal_malloc_def split: list.splits option.splits)

end
