(* ===== verification/HAL_Flash.thy ===== *)
theory HAL_Flash
  imports Flash_Chip
begin

text \<open>
  The flash driver \<open>src/rom/rom_bin/src/driver/chip/hal_flash.c\<close>: waiting for completion,
  opening and closing a device, writing in chunks of 128 bytes, reading, erasing block by block
  with retries, the address-to-block computation, the read-modify-write
  \<open>HAL_Flash_Overwrite\<close> and the comparison \<open>HAL_Flash_Check\<close>.  The configuration is the one
  the headers select for this chip: \<open>FLASH_XIP_OPT_READ\<close> on, the write and erase variants of
  the XIP optimisation, and with them the re-write and re-erase checks, off.
\<close>

section \<open>Waiting for completion\<close>

text \<open>
  The loop of \<open>HAL_Flash_WaitCompl\<close>: \<open>t\<close> is \<open>timeout_temp\<close> (unsigned, so the test against
  zero fires at zero only), \<open>w\<close> is \<open>_wait_us\<close>, \<open>n\<close> counts the watchdog feeds.
\<close>

definition WDG_MIN_TIMEOUT_US :: u32 where
  "WDG_MIN_TIMEOUT_US = 500000"

partial_function (option) wait_loop ::
  "'c chip_ops \<Rightarrow> u32 \<Rightarrow> u32 \<Rightarrow> 'c \<Rightarrow> nat \<Rightarrow> (int \<times> 'c \<times> nat) option" where
  "wait_loop ops t w c n =
     (if 0 < fst (isBusy ops c)
      then if t - 10 \<le> 0 then Some (HAL_TIMEOUT, snd (isBusy ops c), n)
           else if w + 10 > WDG_MIN_TIMEOUT_US div 5
           then wait_loop ops (t - 10) 0 (snd (isBusy ops c)) (n + 1)
           else wait_loop ops (t - 10) (w + 10) (snd (isBusy ops c)) n
      else Some (HAL_OK, snd (isBusy ops c), n))"

definition HAL_Flash_WaitCompl ::
  "'c chip_ops \<Rightarrow> u32 \<Rightarrow> 'c \<Rightarrow> nat \<Rightarrow> (int \<times> 'c \<times> nat) option" where
  "HAL_Flash_WaitCompl ops timeout_ms c n = wait_loop ops (timeout_ms * 1000) 0 c n"

section \<open>Opening and closing a device\<close>

definition rom_HAL_Flash_Open :: "u32 \<Rightarrow> u32 \<Rightarrow> 'c hal \<Rightarrow> (int \<times> 'c hal) option" where
  "rom_HAL_Flash_Open fl timeout_ms s = (case getFlashDev fl s of None \<Rightarrow> None | Some dev \<Rightarrow>
     (let (ret, s1) = hal_mutex s in
      Some (ret, if ret = HAL_OK then putFlashDev fl (dev\<lparr>dev_usercnt := dev_usercnt dev + 1\<rparr>) s1
                 else s1)))"

definition rom_HAL_Flash_Close :: "u32 \<Rightarrow> 'c hal \<Rightarrow> (int \<times> 'c hal) option" where
  "rom_HAL_Flash_Close fl s = (case getFlashDev fl s of None \<Rightarrow> None | Some dev \<Rightarrow>
     (let (ret, s1) = hal_mutex s in
      Some (ret, if ret = HAL_OK then putFlashDev fl (dev\<lparr>dev_usercnt := dev_usercnt dev - 1\<rparr>) s1
                 else s1)))"

section \<open>Writing\<close>

text \<open>
  The chunk loop of \<open>rom_HAL_Flash_Write\<close>.  \<open>flag\<close> says that the data lie in PSRAM or XIP
  memory and are copied through a bounce buffer (from \<open>data + index\<close>); otherwise the pointer
  \<open>ptr\<close> walks over the data.  Only a negative result of the program command leaves the loop;
  a negative result of the wait is logged.
\<close>

definition PageWritByte :: u32 where
  "PageWritByte = 128"

definition chunk_size :: "u32 \<Rightarrow> u32 \<Rightarrow> u32" where
  "chunk_size left address = min left (PageWritByte - (address mod PageWritByte))"

lemma unat_chunk_size:
  "unat (chunk_size left address) = min (unat left) (128 - unat address mod 128)"
proof -
  have le: "address mod 128 \<le> (128 :: u32)"
    by (simp add: word_le_nat_alt unat_mod order.strict_implies_order)
  then have "unat (128 - address mod (128 :: u32)) = 128 - unat address mod 128"
    by (simp add: unat_sub unat_mod)
  then show ?thesis
    by (simp add: chunk_size_def PageWritByte_def min_def word_le_nat_alt)
qed

lemma chunk_size_pos: "0 < left \<Longrightarrow> 0 < unat (chunk_size left address)"
  by (simp add: unat_chunk_size unat_gt_0 flip: word_neq_0_conv)

lemma unat_sub_chunk:
  "unat (left - chunk_size left address) = unat left - unat (chunk_size left address)"
  by (rule unat_sub) (simp add: chunk_size_def)

lemma sub_chunk_less: "0 < left \<Longrightarrow> unat (left - chunk_size left address) < unat left"
  using chunk_size_pos [of left address]
  by (simp add: unat_sub_chunk unat_gt_0 flip: word_neq_0_conv)

function write_loop ::
  "'c chip_ops \<Rightarrow> u32 \<Rightarrow> bool \<Rightarrow> u8 list \<Rightarrow> u32 \<Rightarrow> u32 \<Rightarrow> nat \<Rightarrow> u32 \<Rightarrow> int \<Rightarrow> 'c \<Rightarrow> nat
     \<Rightarrow> (int \<times> 'c \<times> nat) option" where
  "write_loop ops wmode flag data address index ptr left ret c n =
     (if left > 0 then
        let pp_size = chunk_size left address;
            src = (if flag then take (unat pp_size) (drop (unat index) data)
                   else take (unat pp_size) (drop ptr data));
            rc = pageProgram ops wmode address src (writeEnable ops (drv_open ops c))
        in if fst rc < 0 then Some (fst rc, drv_close ops (snd rc), n)
           else do {
             (ret2, c2, n2) \<leftarrow> HAL_Flash_WaitCompl ops 5000 (snd rc) n;
             write_loop ops wmode flag data (address + pp_size) (index + pp_size)
               (if flag then ptr else ptr + unat pp_size) (left - pp_size) ret2 (drv_close ops c2) n2
           }
      else Some (ret, c, n))"
  by pat_completeness auto
termination
  by (relation "measure (\<lambda>(ops, wmode, flag, data, address, index, ptr, left, ret, c, n). unat left)")
    (auto simp: sub_chunk_less)

declare write_loop.simps [simp del]

text \<open>
  \<open>flag\<close> is the outcome of the pointer range test; the bounce buffer has 256 bytes.  Reading
  past the end of the caller's data is undefined.
\<close>

definition rom_HAL_Flash_Write ::
  "'c chip_ops \<Rightarrow> bool \<Rightarrow> u32 \<Rightarrow> u32 \<Rightarrow> u8 list \<Rightarrow> u32 \<Rightarrow> 'c hal \<Rightarrow> (int \<times> 'c hal) option" where
  "rom_HAL_Flash_Write ops flag fl addr data sz s = (case getFlashDev fl s of
       None \<Rightarrow> Some (HAL_INVALID, s)
     | Some dev \<Rightarrow>
        if sz = 0 \<or> addr + sz > cfg_mSize dev then Some (HAL_INVALID, s)
        else
          let (bounce, s1) = (if flag then hal_malloc 256 s else (Some [], s)) in
          if bounce = None then Some (HAL_ERROR, s1)
          else if length data < unat sz then None
          else do {
            (ret, c, n) \<leftarrow> write_loop ops (dev_wmode dev) flag data addr 0 0 sz HAL_ERROR
                             (dev_chip dev) (alive_cnt s1);
            Some (ret, (putFlashDev fl (dev\<lparr>dev_chip := c\<rparr>) s1)\<lparr>alive_cnt := n\<rparr>)
          })"

section \<open>Reading\<close>

definition rom_HAL_Flash_Read ::
  "'c chip_ops \<Rightarrow> u32 \<Rightarrow> u32 \<Rightarrow> u8 list \<Rightarrow> u32 \<Rightarrow> 'c hal \<Rightarrow> (int \<times> u8 list \<times> 'c hal) option" where
  "rom_HAL_Flash_Read ops fl addr buf sz s = (case getFlashDev fl s of
       None \<Rightarrow> Some (HAL_INVALID, buf, s)
     | Some dev \<Rightarrow>
        if sz = 0 \<or> addr + sz > cfg_mSize dev then Some (HAL_INVALID, buf, s)
        else if length buf < unat sz then None
        else if xip_opt_read dev then
          let (ret, bs, c) = chip_read ops (dev_rmode dev) addr sz (dev_chip dev)
          in Some (ret, bs @ drop (unat sz) buf, putFlashDev fl (dev\<lparr>dev_chip := c\<rparr>) s)
        else
          let (ret, bs, c) = chip_read ops (dev_rmode dev) addr sz (drv_open ops (dev_chip dev))
          in Some (ret, bs @ drop (unat sz) buf,
                   putFlashDev fl (dev\<lparr>dev_chip := drv_close ops c\<rparr>) s))"

section \<open>Erasing\<close>

text \<open>
  The block loop of \<open>rom_HAL_Flash_Erase\<close>: a block whose wait failed is tried again while the
  total count of failures stays below three, and is passed over afterwards.
\<close>

function erase_loop ::
  "'c chip_ops \<Rightarrow> u32 \<Rightarrow> u32 \<Rightarrow> u32 \<Rightarrow> nat \<Rightarrow> int \<Rightarrow> 'c \<Rightarrow> nat \<Rightarrow> (int \<times> 'c \<times> nat) option" where
  "erase_loop ops blk_size eaddr blk_cnt reErase_cnt ret c n =
     (if blk_cnt > 0 then
        let rc = chip_erase ops blk_size eaddr (writeEnable ops (drv_open ops c))
        in if fst rc < 0 then Some (fst rc, drv_close ops (snd rc), n)
           else do {
             (ret2, c2, n2) \<leftarrow> HAL_Flash_WaitCompl ops 5000 (snd rc) n;
             if ret2 < 0 \<and> Suc reErase_cnt < 3
             then erase_loop ops blk_size eaddr blk_cnt (Suc reErase_cnt) ret2 (drv_close ops c2) n2
             else erase_loop ops blk_size (eaddr + blk_size) (blk_cnt - 1)
                    (if ret2 < 0 then Suc reErase_cnt else reErase_cnt) ret2 (drv_close ops c2) n2
           }
      else Some (ret, c, n))"
  by pat_completeness auto
termination
  by (relation "measures [\<lambda>(ops, blk_size, eaddr, blk_cnt, r, ret, c, n). unat blk_cnt,
                          \<lambda>(ops, blk_size, eaddr, blk_cnt, r, ret, c, n). 3 - r]")
    (auto simp: unat_sub word_le_nat_alt unat_gt_0 Suc_le_eq simp flip: word_neq_0_conv)

declare erase_loop.simps [simp del]

definition rom_HAL_Flash_Erase ::
  "'c chip_ops \<Rightarrow> u32 \<Rightarrow> u32 \<Rightarrow> u32 \<Rightarrow> u32 \<Rightarrow> 'c hal \<Rightarrow> (int \<times> 'c hal) option" where
  "rom_HAL_Flash_Erase ops fl blk_size addr blk_cnt s = (case getFlashDev fl s of
       None \<Rightarrow> None
     | Some dev \<Rightarrow>
        if addr + blk_size * blk_cnt > cfg_mSize dev then Some (HAL_INVALID, s)
        else if blk_size = FLASH_ERASE_CHIP \<and> blk_cnt \<noteq> 1 then Some (HAL_INVALID, s)
        else if addr mod blk_size \<noteq> 0 then Some (HAL_INVALID, s)
        else do {
          (ret, c, n) \<leftarrow> erase_loop ops blk_size addr blk_cnt 0 HAL_ERROR (dev_chip dev) (alive_cnt s);
          Some (ret, (putFlashDev fl (dev\<lparr>dev_chip := c\<rparr>) s)\<lparr>alive_cnt := n\<rparr>)
        })"

section \<open>Block of an address\<close>

text \<open>Returns the status and the value \<open>*start\<close> has afterwards.\<close>

definition rom_HAL_Flash_MemoryOf ::
  "u32 \<Rightarrow> u32 \<Rightarrow> u32 \<Rightarrow> u32 \<Rightarrow> 'c hal \<Rightarrow> (int \<times> u32) option" where
  "rom_HAL_Flash_MemoryOf fl mode addr start s = (case getFlashDev fl s of
       None \<Rightarrow> None
     | Some dev \<Rightarrow>
        if mode AND cfg_mEraseSizeSupport dev = 0 then Some (HAL_INVALID, start)
        else Some (HAL_OK, addr AND NOT (mode - 1)))"

section \<open>Overwriting and comparing\<close>

text \<open>
  \<open>HAL_Flash_Overwrite\<close>: \<open>left\<close> is signed, the results of \<open>MemoryOf\<close> and \<open>Read\<close> are ignored.
  \<open>saddr\<close> keeps its previous value when \<open>MemoryOf\<close> does not store one.
\<close>

partial_function (option) overwrite_loop ::
  "'c chip_ops \<Rightarrow> bool \<Rightarrow> u32 \<Rightarrow> u8 list \<Rightarrow> nat \<Rightarrow> u32 \<Rightarrow> u32 \<Rightarrow> u32 \<Rightarrow> u8 list \<Rightarrow> int \<Rightarrow> 'c hal
     \<Rightarrow> (int \<times> 'c hal) option" where
  "overwrite_loop ops flag fl data ptr paddr left saddr buf ret s =
     (if 0 <s left then do {
        (_, saddr) \<leftarrow> rom_HAL_Flash_MemoryOf fl FLASH_ERASE_4KB paddr saddr s;
        (_, buf, s) \<leftarrow> rom_HAL_Flash_Read ops fl saddr buf FLASH_ERASE_4KB s;
        (ret, s) \<leftarrow> rom_HAL_Flash_Erase ops fl FLASH_ERASE_4KB saddr 1 s;
        if ret \<noteq> HAL_OK then Some (ret, s) else
          let off = paddr - saddr;
              pp_size = min left (FLASH_ERASE_4KB - off);
              buf = take (unat off) buf @ take (unat pp_size) (drop ptr data)
                    @ drop (unat off + unat pp_size) buf
          in if length data < ptr + unat pp_size \<or> 4096 < unat off + unat pp_size then None else do {
            (ret, s) \<leftarrow> rom_HAL_Flash_Write ops flag fl saddr buf FLASH_ERASE_4KB s;
            if ret \<noteq> HAL_OK then Some (ret, s)
            else overwrite_loop ops flag fl data (ptr + unat pp_size) (paddr + pp_size)
                   (left - pp_size) saddr buf ret s
          }
      } else Some (ret, s))"

definition HAL_Flash_Overwrite ::
  "'c chip_ops \<Rightarrow> bool \<Rightarrow> u32 \<Rightarrow> u32 \<Rightarrow> u8 list \<Rightarrow> u32 \<Rightarrow> 'c hal \<Rightarrow> (int \<times> 'c hal) option" where
  "HAL_Flash_Overwrite ops flag fl addr data sz s = (case getFlashDev fl s of
       None \<Rightarrow> None
     | Some dev \<Rightarrow>
        if cfg_mEraseSizeSupport dev AND FLASH_ERASE_4KB = 0 then Some (HAL_INVALID, s)
        else (case hal_malloc 4096 s of
            (None, s1) \<Rightarrow> Some (HAL_ERROR, s1)
          | (Some buf, s1) \<Rightarrow> overwrite_loop ops flag fl data 0 addr sz 0 buf HAL_ERROR s1))"

text \<open>
  \<open>HAL_Flash_Check\<close>: \<open>pos\<close> is \<open>pbuf - buf\<close>; the buffer of 128 bytes is refilled from the
  flash when it is used up, and the status of the refill is ignored.
\<close>

fun check_loop ::
  "'c chip_ops \<Rightarrow> u32 \<Rightarrow> u8 list \<Rightarrow> u32 \<Rightarrow> nat \<Rightarrow> u8 list \<Rightarrow> int \<Rightarrow> 'c hal \<Rightarrow> (int \<times> 'c hal) option" where
  "check_loop ops fl [] paddr pos buf ret s = Some (ret, s)"
| "check_loop ops fl (d # ds) paddr pos buf ret s = do {
     (buf, pos, s) \<leftarrow> (if pos = 128
        then do { (_, buf, s) \<leftarrow> rom_HAL_Flash_Read ops fl paddr buf 128 s; Some (buf, 0, s) }
        else Some (buf, pos, s));
     let dst = d XOR (buf ! pos);
     if dst = 0 then check_loop ops fl ds (paddr + 1) (pos + 1) buf ret s
     else if dst AND (buf ! pos) \<noteq> 0 then Some (2, s)
     else check_loop ops fl ds (paddr + 1) (pos + 1) buf 1 s
   }"

definition HAL_Flash_Check ::
  "'c chip_ops \<Rightarrow> u32 \<Rightarrow> u32 \<Rightarrow> u8 list \<Rightarrow> u32 \<Rightarrow> 'c hal \<Rightarrow> (int \<times> 'c hal) option" where
  "HAL_Flash_Check ops fl addr data sz s =
     (case hal_malloc 128 s of
        (None, s1) \<Rightarrow> Some (- 1, s1)
      | (Some buf, s1) \<Rightarrow> if length data < unat sz then None
          else check_loop ops fl (take (unat sz) data) addr 128 buf 0 s1)"

end
