(* ===== verification/Flash_Area.thy ===== *)
theory Flash_Area
  imports HAL_Flash
begin

text \<open>
  \<open>src/rom/rom_bin/src/image/flash.c\<close>: reading, writing and erasing an area of a flash
  device, each under the device's lock.  The inline functions \<open>flash_read\<close> and
  \<open>flash_write\<close> are those of \<open>include/image/flash.h\<close>.
\<close>

definition FLASH_OPEN_TIMEOUT :: u32 where
  "FLASH_OPEN_TIMEOUT = 5000"

definition rom_flash_rw ::
  "'c chip_ops \<Rightarrow> bool \<Rightarrow> u32 \<Rightarrow> u32 \<Rightarrow> u8 list \<Rightarrow> u32 \<Rightarrow> bool \<Rightarrow> 'c hal
     \<Rightarrow> (u32 \<times> u8 list \<times> 'c hal) option" where
  "rom_flash_rw ops flag fl addr buf sz do_write s = do {
     (status, s) \<leftarrow> rom_HAL_Flash_Open fl FLASH_OPEN_TIMEOUT s;
     if status \<noteq> HAL_OK then Some (0, buf, s) else do {
       (status, buf, s) \<leftarrow>
         (if do_write
          then do { (st, s) \<leftarrow> rom_HAL_Flash_Write ops flag fl addr buf sz s; Some (st, buf, s) }
          else rom_HAL_Flash_Read ops fl addr buf sz s);
       (_, s) \<leftarrow> rom_HAL_Flash_Close fl s;
       Some (if status \<noteq> HAL_OK then 0 else sz, buf, s)
     }
   }"

definition flash_read ::
  "'c chip_ops \<Rightarrow> u32 \<Rightarrow> u32 \<Rightarrow> u8 list \<Rightarrow> u32 \<Rightarrow> 'c hal \<Rightarrow> (u32 \<times> u8 list \<times> 'c hal) option" where
  "flash_read ops fl addr buf sz s = rom_flash_rw ops False fl addr buf sz False s"

definition flash_write ::
  "'c chip_ops \<Rightarrow> bool \<Rightarrow> u32 \<Rightarrow> u32 \<Rightarrow> u8 list \<Rightarrow> u32 \<Rightarrow> 'c hal \<Rightarrow> (u32 \<times> 'c hal) option" where
  "flash_write ops flag fl addr buf sz s = do {
     (r, _, s) \<leftarrow> rom_flash_rw ops flag fl addr buf sz True s;
     Some (r, s)
   }"

section \<open>The erase block of an area\<close>

definition s_flash_erase_param :: "(u32 \<times> u32) list" where
  "s_flash_erase_param =
     [(64 * 1024, FLASH_ERASE_64KB), (32 * 1024, FLASH_ERASE_32KB), (4 * 1024, FLASH_ERASE_4KB)]"

text \<open>The scan of the table; \<open>start\<close> is the local variable \<open>MemoryOf\<close> stores into.\<close>

fun erase_block_scan ::
  "(u32 \<times> u32) list \<Rightarrow> u32 \<Rightarrow> u32 \<Rightarrow> u32 \<Rightarrow> u32 \<Rightarrow> 'c hal \<Rightarrow> int option" where
  "erase_block_scan [] fl addr sz start s = Some (- 1)"
| "erase_block_scan ((block_size, erase_mode) # ps) fl addr sz start s =
     (if sz \<ge> block_size \<and> sz AND (block_size - 1) = 0 then do {
        (st, start) \<leftarrow> rom_HAL_Flash_MemoryOf fl erase_mode addr start s;
        if st = HAL_OK \<and> addr = start then Some (uint block_size)
        else erase_block_scan ps fl addr sz start s
      } else erase_block_scan ps fl addr sz start s)"

definition rom_flash_get_erase_block :: "u32 \<Rightarrow> u32 \<Rightarrow> u32 \<Rightarrow> 'c hal \<Rightarrow> int option" where
  "rom_flash_get_erase_block fl addr sz s = erase_block_scan s_flash_erase_param fl addr sz 0 s"

section \<open>Erasing an area\<close>

abbreviation (input) BLOCK_SIZE_4K :: u32 where "BLOCK_SIZE_4K \<equiv> 4096"
abbreviation (input) BLOCK_SIZE_32K :: u32 where "BLOCK_SIZE_32K \<equiv> 32768"
abbreviation (input) BLOCK_SIZE_64K :: u32 where "BLOCK_SIZE_64K \<equiv> 65536"

definition align_up :: "u32 \<Rightarrow> u32 \<Rightarrow> u32" where
  "align_up x b = (x + b - 1) AND NOT (b - 1)"

definition align_down :: "u32 \<Rightarrow> u32 \<Rightarrow> u32" where
  "align_down x b = x AND NOT (b - 1)"

text \<open>
  The five areas (erase mode, start, size) in the order they are erased: 4K ahead, 4K behind,
  32K ahead, 32K behind, 64K in the middle.  The local variables the code leaves at their
  initial value are 0 here.
\<close>

definition erase_regions :: "u32 \<Rightarrow> u32 \<Rightarrow> u32 \<Rightarrow> (u32 \<times> u32 \<times> u32) list" where
  "erase_regions addr sz support =
     (if sz \<ge> BLOCK_SIZE_64K \<and> support AND FLASH_ERASE_64KB \<noteq> 0 then
        let start_64k = align_up addr BLOCK_SIZE_64K;
            end_64k = align_down (addr + sz) BLOCK_SIZE_64K;
            ahead_32k_start = align_up addr BLOCK_SIZE_32K;
            behind_32k_end = align_down (addr + sz) BLOCK_SIZE_32K
        in [(FLASH_ERASE_4KB, addr, ahead_32k_start - addr),
            (FLASH_ERASE_4KB, behind_32k_end, addr + sz - behind_32k_end),
            (FLASH_ERASE_32KB, ahead_32k_start, start_64k - ahead_32k_start),
            (FLASH_ERASE_32KB, end_64k, behind_32k_end - end_64k),
            (FLASH_ERASE_64KB, start_64k, end_64k - start_64k)]
      else if sz \<ge> BLOCK_SIZE_32K \<and> support AND FLASH_ERASE_32KB \<noteq> 0 then
        let ahead_32k_start = align_up addr BLOCK_SIZE_32K;
            ahead_32k_end = align_down (addr + sz) BLOCK_SIZE_32K
        in [(FLASH_ERASE_4KB, addr, ahead_32k_start - addr),
            (FLASH_ERASE_4KB, ahead_32k_end, addr + sz - ahead_32k_end),
            (FLASH_ERASE_32KB, ahead_32k_start, ahead_32k_end - ahead_32k_start),
            (FLASH_ERASE_32KB, ahead_32k_end, 0),
            (FLASH_ERASE_64KB, 0, 0)]
      else if sz \<ge> BLOCK_SIZE_4K \<and> support AND FLASH_ERASE_4KB \<noteq> 0 then
        [(FLASH_ERASE_4KB, addr, sz), (FLASH_ERASE_4KB, 0, 0), (FLASH_ERASE_32KB, 0, 0),
         (FLASH_ERASE_32KB, 0, 0), (FLASH_ERASE_64KB, 0, 0)]
      else
        [(FLASH_ERASE_4KB, addr, 0), (FLASH_ERASE_4KB, 0, 0), (FLASH_ERASE_32KB, 0, 0),
         (FLASH_ERASE_32KB, 0, 0), (FLASH_ERASE_64KB, 0, 0)])"

fun erase_run ::
  "'c chip_ops \<Rightarrow> u32 \<Rightarrow> (u32 \<times> u32 \<times> u32) list \<Rightarrow> 'c hal \<Rightarrow> (int \<times> 'c hal) option" where
  "erase_run ops fl [] s = Some (0, s)"
| "erase_run ops fl ((mode, start, sz) # rs) s =
     (if sz > 0 then do {
        (status, s) \<leftarrow> rom_HAL_Flash_Erase ops fl mode start (sz div mode) s;
        if status \<noteq> HAL_OK then Some (- 1, s) else erase_run ops fl rs s
      } else erase_run ops fl rs s)"

definition rom_flash_erase ::
  "'c chip_ops \<Rightarrow> u32 \<Rightarrow> u32 \<Rightarrow> u32 \<Rightarrow> 'c hal \<Rightarrow> (int \<times> 'c hal) option" where
  "rom_flash_erase ops fl addr sz s =
     (if addr mod BLOCK_SIZE_4K \<noteq> 0 \<or> sz mod BLOCK_SIZE_4K \<noteq> 0 then Some (- 1, s)
      else do {
        (status, s) \<leftarrow> rom_HAL_Flash_Open fl FLASH_OPEN_TIMEOUT s;
        if status \<noteq> HAL_OK then Some (- 1, s) else do {
          dev \<leftarrow> getFlashDev fl s;
          (ret, s) \<leftarrow> erase_run ops fl (erase_regions addr sz (cfg_mEraseSizeSupport dev)) s;
          (_, s) \<leftarrow> rom_HAL_Flash_Close fl s;
          Some (ret, s)
        }
      })"

end
