(* ===== verification/HAL_Flash_Spec.thy ===== *)
theory HAL_Flash_Spec
  imports HAL_Flash
begin

text \<open>
  What the flash driver does on a chip that behaves as documented: every loop returns, a write
  or erase changes its range only, and what it leaves there is the programmed or erased
  content.  \<open>dev_frame\<close> relates the HAL states around a call: the devices keep their
  configuration, and only the named range of the named device may change.
\<close>

section \<open>Termination of the wait\<close>

lemma wait_budget_step:
  assumes "m \<noteq> 0" "10 * Suc m < 4294967296"
  shows "(of_nat (10 * Suc m) :: u32) - 10 = of_nat (10 * m)"
    and "\<not> (of_nat (10 * Suc m) :: u32) - 10 \<le> 0"
proof -
  show eq: "(of_nat (10 * Suc m) :: u32) - 10 = of_nat (10 * m)"
    by (simp add: algebra_simps)
  have "unat (of_nat (10 * m) :: u32) = 10 * m"
    using assms by (simp add: unat_of_nat del: of_nat_mult)
  then have "(of_nat (10 * m) :: u32) \<noteq> 0"
    using assms by (metis mult_eq_0_iff unat_0 zero_neq_numeral)
  then show "\<not> (of_nat (10 * Suc m) :: u32) - 10 \<le> 0"
    by (simp only: eq word_le_0_iff not_False_eq_True)
qed

text \<open>
  Every step takes ten off the unsigned budget, so a budget that is a multiple of ten, even one
  that has wrapped around, is used up after finitely many steps whatever the chip answers.
\<close>

lemma wait_loop_returns:
  "\<exists>r c' n'. wait_loop ops (of_nat (10 * Suc m)) w c n = Some (r, c', n') \<and> r \<in> {HAL_OK, HAL_TIMEOUT}"
proof (induction m arbitrary: w c n)
  case 0
  show ?case by (subst wait_loop.simps) (auto simp: algebra_simps)
next
  case (Suc m)
  have left: "(of_nat (10 * Suc (Suc m)) :: u32) - 10 = of_nat (10 * Suc m)"
    by (simp add: algebra_simps)
  show ?case
  proof (cases "fst (isBusy ops c) \<le> 0 \<or> (of_nat (10 * Suc m) :: u32) \<le> 0")
    case True
    then show ?thesis by (subst wait_loop.simps) (auto simp del: mult_Suc_right of_nat_mult simp: left)
  next
    case False
    with Suc.IH show ?thesis
      by (subst wait_loop.simps) (simp del: mult_Suc_right of_nat_mult add: left)
  qed
qed

lemma wait_loop_idle:
  assumes "idle_after ops k c c'" "k \<le> m" "10 * Suc m < 4294967296"
  shows "\<exists>n'. wait_loop ops (of_nat (10 * Suc m)) w c n = Some (HAL_OK, c', n')"
  using assms
proof (induction k arbitrary: m w c n)
  case 0
  then show ?case by (subst wait_loop.simps) auto
next
  case (Suc k)
  then obtain m' where m: "m = Suc m'" by (cases m) auto
  have IH: "\<exists>n'. wait_loop ops (of_nat (10 * Suc m')) w (snd (isBusy ops c)) n = Some (HAL_OK, c', n')"
    for w n
    using Suc.prems m by (intro Suc.IH) auto
  from Suc.prems IH wait_budget_step [of "Suc m'"] show ?case
    unfolding m by (subst wait_loop.simps) (simp del: mult_Suc_right of_nat_mult)
qed

lemma WaitCompl_budget: "(5000 * 1000 :: u32) = of_nat (10 * Suc 499999)"
  by simp

lemma WaitCompl_always_returns:
  "\<exists>r c' n'. HAL_Flash_WaitCompl ops timeout_ms c n = Some (r, c', n') \<and> r \<in> {HAL_OK, HAL_TIMEOUT}"
proof -
  define m where "m = (if unat (100 * timeout_ms) = 0 then 4294967295 else unat (100 * timeout_ms) - 1)"
  have "of_nat (Suc m) = (100 * timeout_ms :: u32)"
  proof (cases "100 * timeout_ms = 0")
    case True
    then have "Suc m = 4294967296" by (simp add: m_def)
    then show ?thesis using True by simp
  next
    case False
    then have "0 < unat (100 * timeout_ms)" by (simp only: unat_gt_0 not_False_eq_True)
    moreover have "0 < k \<Longrightarrow> Suc (if k = 0 then 4294967295 else k - 1) = k" for k :: nat by simp
    ultimately have "Suc m = unat (100 * timeout_ms)" unfolding m_def by blast
    then show ?thesis by simp
  qed
  moreover have "timeout_ms * 1000 = 10 * (100 * timeout_ms :: u32)" by simp
  ultimately have "timeout_ms * 1000 = of_nat (10 * Suc m)" by (simp only: of_nat_mult of_nat_numeral)
  then show ?thesis unfolding HAL_Flash_WaitCompl_def by (simp only: wait_loop_returns)
qed

lemma WaitCompl_returns:
  "\<exists>r c' n'. HAL_Flash_WaitCompl ops 5000 c n = Some (r, c', n') \<and> r \<in> {HAL_OK, HAL_TIMEOUT}"
  by (rule WaitCompl_always_returns)

lemma WaitCompl_idle:
  "idle_after ops k c c' \<Longrightarrow> k < 500000 \<Longrightarrow>
   \<exists>n'. HAL_Flash_WaitCompl ops 5000 c n = Some (HAL_OK, c', n')"
  unfolding HAL_Flash_WaitCompl_def WaitCompl_budget by (rule wait_loop_idle) (assumption, linarith, simp)

section \<open>The chunk loop of a write\<close>

text \<open>The loop unrolled once, over names for the chunk and for the program command's result.\<close>

lemma write_loop_0: "write_loop ops wmode flag data address index ptr 0 ret c n = Some (ret, c, n)"
  by (simp add: write_loop.simps)

lemma write_loop_chunk:
  assumes "left > 0" "pp = chunk_size left address"
    and "src = (if flag then take (unat pp) (drop (unat index) data) else take (unat pp) (drop ptr data))"
    and "rc = pageProgram ops wmode address src (writeEnable ops (drv_open ops c))"
  shows "write_loop ops wmode flag data address index ptr left ret c n =
    (if fst rc < 0 then Some (fst rc, drv_close ops (snd rc), n)
     else do {
       (ret2, c2, n2) \<leftarrow> HAL_Flash_WaitCompl ops 5000 (snd rc) n;
       write_loop ops wmode flag data (address + pp) (index + pp)
         (if flag then ptr else ptr + unat pp) (left - pp) ret2 (drv_close ops c2) n2
     })"
  unfolding assms(2-4) using assms(1)
  by (subst write_loop.simps) (simp only: Let_def if_True)

lemma write_loop_returns:
  "\<exists>r c' n'. write_loop ops wmode flag data address index ptr left ret c n = Some (r, c', n')"
proof (induction "unat left" arbitrary: address index ptr left ret c n rule: less_induct)
  case less
  show ?case
  proof (cases "left > 0")
    case False
    then show ?thesis by (simp add: write_loop.simps)
  next
    case True
    note chunk = write_loop_chunk [OF True refl refl refl]
    let ?rc = "pageProgram ops wmode address
      (if flag then take (unat (chunk_size left address)) (drop (unat index) data)
       else take (unat (chunk_size left address)) (drop ptr data)) (writeEnable ops (drv_open ops c))"
    obtain r2 c2 n2 where "HAL_Flash_WaitCompl ops 5000 (snd ?rc) n = Some (r2, c2, n2)"
      using WaitCompl_returns [of ops "snd ?rc" n] by auto
    with less [OF sub_chunk_less [OF True]] show ?thesis
      unfolding chunk by (cases "fst ?rc < 0") simp_all
  qed
qed

text \<open>
  A chunk never crosses a 128-byte boundary, so it stays inside one page of 256 bytes.
\<close>

lemma chunk_in_page: "unat a mod 256 + unat (chunk_size left a) \<le> 256"
proof -
  have "unat a mod 256 = 128 * (unat a div 128 mod 2) + unat a mod 128"
    using mod_mult2_eq [of "unat a" 128 2] by simp
  moreover have "unat a div 128 mod 2 \<le> 1" by simp
  moreover have "unat (chunk_size left a) \<le> 128 - unat a mod 128"
    by (simp add: unat_chunk_size)
  moreover have "unat a mod 128 \<le> 128" by simp
  ultimately show ?thesis by linarith
qed

text \<open>\<open>pos\<close> is the place in the data the next chunk is taken from.\<close>

lemma write_loop_programs:
  assumes "nor_chip ops cells cap supp"
    and "unat address + unat left \<le> cap" "unat address + unat left < 4294967296"
    and "pos = (if flag then unat index else ptr)"
    and "pos + unat left \<le> length data"
    and "flag \<Longrightarrow> unat index + unat left < 4294967296"
    and "left = 0 \<longrightarrow> ret = HAL_OK"
  shows "\<exists>r c' n'. write_loop ops wmode flag data address index ptr left ret c n = Some (r, c', n') \<and>
           same_outside (unat address) (unat left) (cells c) (cells c') \<and> (r < 0 \<or> r = HAL_OK) \<and>
           (r = HAL_OK \<longrightarrow>
              cells c' = nor_program (cells c) (unat address) (take (unat left) (drop pos data)))"
  using assms
proof (induction "unat left" arbitrary: address index ptr left ret c n pos rule: less_induct)
  case less
  show ?case
  proof (cases "left > 0")
    case False
    then have "left = 0" by (simp add: word_gt_0)
    with less.prems(7) show ?thesis by (simp add: write_loop_0)
  next
    case True
    define pp where "pp = chunk_size left address"
    define src where "src = take (unat pp) (drop pos data)"
    define rc where "rc = pageProgram ops wmode address src (writeEnable ops (drv_open ops c))"
    have pp: "0 < unat pp" "unat pp \<le> unat left" "unat (left - pp) = unat left - unat pp"
      using chunk_size_pos [OF True, of address]
      by (auto simp: pp_def unat_chunk_size unat_sub_chunk)
    have src: "(if flag then take (unat pp) (drop (unat index) data) else take (unat pp) (drop ptr data)) = src"
      using less.prems(4) by (simp add: src_def)
    have len: "length src = unat pp" using pp less.prems(5) by (simp add: src_def)
    have "completes ops cells (unat address) (length src) (cells (drv_open ops c))
        (nor_program (cells (drv_open ops c)) (unat address) src) rc"
      unfolding rc_def using less.prems(1,2) pp len chunk_in_page [of address left]
      by (intro nor_chip_program) (auto simp: pp_def)
    then have compl: "completes ops cells (unat address) (unat pp) (cells c)
        (nor_program (cells c) (unat address) src) rc"
      using less.prems(1) len by simp
    show ?thesis
    proof (cases "fst rc < 0")
      case neg: True
      have "write_loop ops wmode flag data address index ptr left ret c n =
          Some (fst rc, drv_close ops (snd rc), n)"
        using write_loop_chunk [OF True pp_def src [symmetric] rc_def] neg by simp
      then show ?thesis
        using compl neg less.prems(1) pp
        by (auto simp: completes_def elim!: same_outside_mono)
    next
      case ok: False
      with compl obtain k c2 where idle: "k < 500000" "idle_after ops k (snd rc) c2"
        and c2: "cells c2 = nor_program (cells c) (unat address) src"
        by (auto simp: completes_def)
      obtain n2 where wait: "HAL_Flash_WaitCompl ops 5000 (snd rc) n = Some (HAL_OK, c2, n2)"
        using WaitCompl_idle [OF idle(2,1)] by blast
      have adv: "unat (address + pp) = unat address + unat pp"
        using less.prems(3) pp by (intro unat_add_no_wrap) simp
      have step: "write_loop ops wmode flag data address index ptr left ret c n =
          write_loop ops wmode flag data (address + pp) (index + pp)
            (if flag then ptr else ptr + unat pp) (left - pp) HAL_OK (drv_close ops c2) n2"
        using write_loop_chunk [OF True pp_def src [symmetric] rc_def] ok wait by simp
      have pos': "pos + unat pp = (if flag then unat (index + pp) else ptr + unat pp)"
        using less.prems(4,6) pp by (auto simp: unat_add_no_wrap)
      have "\<exists>r c' n'. write_loop ops wmode flag data (address + pp) (index + pp)
            (if flag then ptr else ptr + unat pp) (left - pp) HAL_OK (drv_close ops c2) n2
            = Some (r, c', n') \<and>
           same_outside (unat (address + pp)) (unat (left - pp)) (cells (drv_close ops c2)) (cells c') \<and>
           (r < 0 \<or> r = HAL_OK) \<and>
           (r = HAL_OK \<longrightarrow> cells c' = nor_program (cells (drv_close ops c2)) (unat (address + pp))
              (take (unat (left - pp)) (drop (pos + unat pp) data)))"
        using less.prems pp adv pos' sub_chunk_less [OF True, of address]
        by (intro less.hyps) (auto simp: unat_add_no_wrap simp flip: pp_def)
      then obtain r c' n' where rec: "write_loop ops wmode flag data (address + pp) (index + pp)
            (if flag then ptr else ptr + unat pp) (left - pp) HAL_OK (drv_close ops c2) n2 = Some (r, c', n')"
        and out: "same_outside (unat address + unat pp) (unat left - unat pp) (cells c2) (cells c')"
        and r: "r < 0 \<or> r = HAL_OK"
        and res: "r = HAL_OK \<Longrightarrow> cells c' = nor_program (cells c2) (unat address + unat pp)
              (take (unat left - unat pp) (drop (pos + unat pp) data))"
        using adv pp less.prems(1) by auto
      have "same_outside (unat address) (unat left) (cells c) (cells c2)"
        unfolding c2 using len pp by (intro same_outside_mono [OF same_outside_program]) auto
      moreover have "same_outside (unat address) (unat left) (cells c2) (cells c')"
        using pp by (intro same_outside_mono [OF out]) auto
      ultimately have frame: "same_outside (unat address) (unat left) (cells c) (cells c')"
        by (rule same_outside_trans)
      have split: "take (unat left) (drop pos data) =
          src @ take (unat left - unat pp) (drop (pos + unat pp) data)"
        using pp take_add [of "unat pp" "unat left - unat pp" "drop pos data"]
        by (simp add: src_def add.commute)
      have "cells c' = nor_program (cells c) (unat address) (take (unat left) (drop pos data))"
        if "r = HAL_OK"
        using res [OF that] nor_program_append [of "cells c" "unat address" src] len
        unfolding split c2 by simp
      with frame r rec show ?thesis
        unfolding step by simp
    qed
  qed
qed

section \<open>The block loop of an erase\<close>

lemma erase_loop_0: "erase_loop ops m a 0 k ret c n = Some (ret, c, n)"
  by (simp add: erase_loop.simps)

lemma erase_loop_block:
  assumes "cnt > 0" "rc = chip_erase ops m a (writeEnable ops (drv_open ops c))"
  shows "erase_loop ops m a cnt k ret c n =
    (if fst rc < 0 then Some (fst rc, drv_close ops (snd rc), n)
     else do {
       (ret2, c2, n2) \<leftarrow> HAL_Flash_WaitCompl ops 5000 (snd rc) n;
       if ret2 < 0 \<and> Suc k < 3
       then erase_loop ops m a cnt (Suc k) ret2 (drv_close ops c2) n2
       else erase_loop ops m (a + m) (cnt - 1) (if ret2 < 0 then Suc k else k) ret2 (drv_close ops c2) n2
     })"
  unfolding assms(2) using assms(1)
  by (subst erase_loop.simps) (simp only: Let_def if_True)

lemma unat_pred: "0 < (cnt :: u32) \<Longrightarrow> unat (cnt - 1) = unat cnt - 1"
  by (simp add: unat_minus_one word_gt_0)

lemma erase_loop_returns:
  "\<exists>r c' n'. erase_loop ops m a cnt k ret c n = Some (r, c', n')"
proof (induction "unat cnt * 3 + (3 - k)" arbitrary: a cnt k ret c n rule: less_induct)
  case less
  show ?case
  proof (cases "cnt > 0")
    case False
    then show ?thesis by (simp add: erase_loop.simps)
  next
    case True
    let ?rc = "chip_erase ops m a (writeEnable ops (drv_open ops c))"
    obtain r2 c2 n2 where wait: "HAL_Flash_WaitCompl ops 5000 (snd ?rc) n = Some (r2, c2, n2)"
      using WaitCompl_returns [of ops "snd ?rc" n] by auto
    have cnt: "0 < unat cnt" using True by (simp add: word_gt_0 unat_gt_0)
    have retry: "\<exists>r c' n'. erase_loop ops m a cnt (Suc k) r2 (drv_close ops c2) n2 = Some (r, c', n')"
      if "Suc k < 3"
      using that by (intro less) simp
    have skip: "\<exists>r c' n'. erase_loop ops m (a + m) (cnt - 1) k' r2 (drv_close ops c2) n2 = Some (r, c', n')"
      if "k \<le> k'" for k'
      using that cnt by (intro less) (simp add: unat_pred [OF True])
    show ?thesis
      using retry skip [of k] skip [of "Suc k"]
      by (subst erase_loop_block [OF True refl]) (simp add: wait)
  qed
qed

lemma word_mod_0_iff: "(a :: u32) mod m = 0 \<longleftrightarrow> unat m dvd unat a"
  by (metis dvd_eq_mod_eq_0 unat_eq_zero unat_mod)

lemma erase_loop_erases:
  assumes "nor_chip ops cells cap supp" "block_mode m" "m AND supp \<noteq> 0" "unat m dvd unat a"
    and "unat a + unat cnt * unat m \<le> cap" "unat a + unat cnt * unat m < 4294967296"
    and "cnt = 0 \<longrightarrow> ret = HAL_OK"
  shows "\<exists>r c' n'. erase_loop ops m a cnt k ret c n = Some (r, c', n') \<and>
           same_outside (unat a) (unat cnt * unat m) (cells c) (cells c') \<and> (r < 0 \<or> r = HAL_OK) \<and>
           (r = HAL_OK \<longrightarrow> cells c' = nor_erase (cells c) (unat a) (unat cnt * unat m))"
  using assms
proof (induction "unat cnt" arbitrary: a cnt ret c n)
  case 0
  then have "cnt = 0" by (simp add: unat_eq_zero)
  with "0.prems"(7) show ?case by (simp add: erase_loop_0)
next
  case (Suc j)
  have pos: "cnt > 0" using Suc.hyps(2) by (simp add: word_gt_0 unat_gt_0 flip: unat_gt_0)
  have j: "unat (cnt - 1) = j" using Suc.hyps(2) by (simp add: unat_pred [OF pos])
  have area: "unat cnt * unat m = unat m + j * unat m" by (simp flip: Suc.hyps(2))
  define rc where "rc = chip_erase ops m a (writeEnable ops (drv_open ops c))"
  have "completes ops cells (unat a) (unat m) (cells (drv_open ops c))
      (nor_erase (cells (drv_open ops c)) (unat a) (unat m)) rc"
    unfolding rc_def using Suc.prems area
    by (intro nor_chip_erase) (auto simp: word_mod_0_iff trans_le_add1)
  then have compl: "completes ops cells (unat a) (unat m) (cells c)
      (nor_erase (cells c) (unat a) (unat m)) rc"
    using Suc.prems(1) by simp
  show ?case
  proof (cases "fst rc < 0")
    case True
    then show ?thesis
      using compl Suc.prems(1) area
      by (auto simp: erase_loop_block [OF pos rc_def] completes_def elim!: same_outside_mono)
  next
    case False
    with compl obtain i c2 where idle: "i < 500000" "idle_after ops i (snd rc) c2"
      and c2: "cells c2 = nor_erase (cells c) (unat a) (unat m)"
      by (auto simp: completes_def)
    obtain n2 where wait: "HAL_Flash_WaitCompl ops 5000 (snd rc) n = Some (HAL_OK, c2, n2)"
      using WaitCompl_idle [OF idle(2,1)] by blast
    have step: "erase_loop ops m a cnt k ret c n =
        erase_loop ops m (a + m) (cnt - 1) k HAL_OK (drv_close ops c2) n2"
      using erase_loop_block [OF pos rc_def] False wait by simp
    have adv: "unat (a + m) = unat a + unat m"
      using Suc.prems(6) area by (intro unat_add_no_wrap) simp
    have "\<exists>r c' n'. erase_loop ops m (a + m) (cnt - 1) k HAL_OK (drv_close ops c2) n2 = Some (r, c', n') \<and>
        same_outside (unat (a + m)) (unat (cnt - 1) * unat m) (cells (drv_close ops c2)) (cells c') \<and>
        (r < 0 \<or> r = HAL_OK) \<and>
        (r = HAL_OK \<longrightarrow> cells c' = nor_erase (cells (drv_close ops c2)) (unat (a + m))
            (unat (cnt - 1) * unat m))"
      using Suc.prems area j adv
      by (intro Suc.hyps(1)) simp_all
    then obtain r c' n' where rec: "erase_loop ops m (a + m) (cnt - 1) k HAL_OK (drv_close ops c2) n2 = Some (r, c', n')"
      and out: "same_outside (unat a + unat m) (j * unat m) (cells c2) (cells c')"
      and r: "r < 0 \<or> r = HAL_OK"
      and res: "r = HAL_OK \<Longrightarrow> cells c' = nor_erase (cells c2) (unat a + unat m) (j * unat m)"
      using adv j Suc.prems(1) by auto
    have "same_outside (unat a) (unat cnt * unat m) (cells c) (cells c2)"
      unfolding c2 area by (intro same_outside_mono [OF same_outside_erase]) auto
    moreover have "same_outside (unat a) (unat cnt * unat m) (cells c2) (cells c')"
      unfolding area by (intro same_outside_mono [OF out]) auto
    ultimately have "same_outside (unat a) (unat cnt * unat m) (cells c) (cells c')"
      by (rule same_outside_trans)
    moreover have "cells c' = nor_erase (cells c) (unat a) (unat cnt * unat m)" if "r = HAL_OK"
      using res [OF that] unfolding c2 area by (simp add: nor_erase_append)
    ultimately show ?thesis
      using r rec unfolding step by simp
  qed
qed

section \<open>Devices before and after a call\<close>

definition dev_ok :: "'c chip_ops \<Rightarrow> ('c \<Rightarrow> content) \<Rightarrow> u32 \<Rightarrow> 'c hal \<Rightarrow> bool" where
  "dev_ok ops cells fl s \<longleftrightarrow> (case getFlashDev fl s of None \<Rightarrow> False
     | Some d \<Rightarrow> nor_chip ops cells (unat (cfg_mSize d)) (cfg_mEraseSizeSupport d))"

definition dev_size :: "u32 \<Rightarrow> 'c hal \<Rightarrow> nat" where
  "dev_size fl s = (case getFlashDev fl s of None \<Rightarrow> 0 | Some d \<Rightarrow> unat (cfg_mSize d))"

definition dev_supp :: "u32 \<Rightarrow> 'c hal \<Rightarrow> u32" where
  "dev_supp fl s = (case getFlashDev fl s of None \<Rightarrow> 0 | Some d \<Rightarrow> cfg_mEraseSizeSupport d)"

definition dev_mem :: "('c \<Rightarrow> content) \<Rightarrow> u32 \<Rightarrow> 'c hal \<Rightarrow> content" where
  "dev_mem cells fl s = (case getFlashDev fl s of None \<Rightarrow> (\<lambda>_. 0) | Some d \<Rightarrow> cells (dev_chip d))"

definition dev_frame ::
  "('c \<Rightarrow> content) \<Rightarrow> u32 \<Rightarrow> nat \<Rightarrow> nat \<Rightarrow> 'c hal \<Rightarrow> 'c hal \<Rightarrow> bool" where
  "dev_frame cells fl a n s s' \<longleftrightarrow>
     (\<forall>f. (getFlashDev f s' = None \<longleftrightarrow> getFlashDev f s = None) \<and>
          dev_size f s' = dev_size f s \<and> dev_supp f s' = dev_supp f s \<and>
          (f \<noteq> fl \<longrightarrow> dev_mem cells f s' = dev_mem cells f s)) \<and>
     same_outside a n (dev_mem cells fl s) (dev_mem cells fl s')"

lemma dev_size_bound: "dev_size fl s < 4294967296"
  by (simp add: dev_size_def split: option.splits)

lemma dev_frame_trans:
  "dev_frame cells fl a n s s' \<Longrightarrow> dev_frame cells fl a n s' s'' \<Longrightarrow> dev_frame cells fl a n s s''"
  by (auto simp: dev_frame_def intro: same_outside_trans)

lemma dev_frame_mono:
  "dev_frame cells fl b k s s' \<Longrightarrow> a \<le> b \<Longrightarrow> b + k \<le> a + n \<Longrightarrow> dev_frame cells fl a n s s'"
  by (auto simp: dev_frame_def intro: same_outside_mono)

lemma dev_frame_none: "dev_frame cells fl' 0 0 s s' \<Longrightarrow> dev_frame cells fl a n s s'"
  by (auto simp: dev_frame_def) (metis same_outside_refl)+

lemma dev_frame_same_list: "flashNodeHead s' = flashNodeHead s \<Longrightarrow> dev_frame cells fl a n s s'"
  by (simp add: dev_frame_def dev_size_def dev_supp_def dev_mem_def getFlashDev_def)

lemma dev_frame_put:
  assumes "getFlashDev fl s = Some d" "cfg_mSize d' = cfg_mSize d"
    "cfg_mEraseSizeSupport d' = cfg_mEraseSizeSupport d"
    "same_outside a n (cells (dev_chip d)) (cells (dev_chip d'))"
  shows "dev_frame cells fl a n s (putFlashDev fl d' s)"
  using assms
  by (simp add: dev_frame_def dev_size_def dev_supp_def dev_mem_def getFlashDev_put)

lemma getFlashDev_cong: "flashNodeHead s' = flashNodeHead s \<Longrightarrow> getFlashDev fl s' = getFlashDev fl s"
  by (simp add: getFlashDev_def)

lemma putFlashDev_list:
  "flashNodeHead s' = flashNodeHead s \<Longrightarrow>
   flashNodeHead (putFlashDev fl d s') = flashNodeHead (putFlashDev fl d s)"
  by (simp add: putFlashDev_def)

lemma dev_mem_put:
  "getFlashDev fl s = Some d \<Longrightarrow> dev_mem cells fl (putFlashDev fl d' s) = cells (dev_chip d')"
  by (simp add: dev_mem_def getFlashDev_put)

lemma alive_cnt_update_list [simp]:
  "getFlashDev fl (s\<lparr>alive_cnt := n\<rparr>) = getFlashDev fl s"
  "dev_frame cells fl a k s0 (s\<lparr>alive_cnt := n\<rparr>) = dev_frame cells fl a k s0 s"
  "dev_mem cells fl (s\<lparr>alive_cnt := n\<rparr>) = dev_mem cells fl s"
  by (simp_all add: getFlashDev_def dev_frame_def dev_size_def dev_supp_def dev_mem_def)

lemma dev_ok_cases:
  assumes "dev_ok ops cells fl s"
  obtains d where "getFlashDev fl s = Some d"
    "nor_chip ops cells (dev_size fl s) (dev_supp fl s)"
    "dev_size fl s = unat (cfg_mSize d)" "dev_supp fl s = cfg_mEraseSizeSupport d"
    "dev_mem cells fl s = cells (dev_chip d)"
  using assms
  by (auto simp: dev_ok_def dev_size_def dev_supp_def dev_mem_def split: option.splits)

lemma dev_ok_frame: "dev_frame cells fl' a n s s' \<Longrightarrow> dev_ok ops cells fl s \<Longrightarrow> dev_ok ops cells fl s'"
  unfolding dev_frame_def dev_ok_def dev_size_def dev_supp_def
  by (drule conjunct1, drule spec [of _ fl]) (auto split: option.splits)

section \<open>The operations of the driver\<close>

lemma Open_spec:
  assumes "getFlashDev fl s \<noteq> None"
  shows "\<exists>r s'. rom_HAL_Flash_Open fl t s = Some (r, s') \<and> dev_frame cells fl 0 0 s s'"
proof -
  obtain d where d: "getFlashDev fl s = Some d" using assms by auto
  obtain r s1 where m: "hal_mutex s = (r, s1)" by (cases "hal_mutex s")
  have list: "flashNodeHead s1 = flashNodeHead s" using hal_mutex_frame [OF m] by simp
  have "dev_frame cells fl 0 0 s (putFlashDev fl (d\<lparr>dev_usercnt := u\<rparr>) s1)" for u
    using dev_frame_put [OF d, of "d\<lparr>dev_usercnt := u\<rparr>" 0 0 cells]
      putFlashDev_list [OF list] by (simp add: dev_frame_def dev_size_def dev_supp_def dev_mem_def getFlashDev_def)
  then show ?thesis
    using list by (simp add: rom_HAL_Flash_Open_def d m dev_frame_same_list)
qed

lemma Close_spec:
  assumes "getFlashDev fl s \<noteq> None"
  shows "\<exists>r s'. rom_HAL_Flash_Close fl s = Some (r, s') \<and> dev_frame cells fl 0 0 s s'"
proof -
  obtain d where d: "getFlashDev fl s = Some d" using assms by auto
  obtain r s1 where m: "hal_mutex s = (r, s1)" by (cases "hal_mutex s")
  have list: "flashNodeHead s1 = flashNodeHead s" using hal_mutex_frame [OF m] by simp
  have "dev_frame cells fl 0 0 s (putFlashDev fl (d\<lparr>dev_usercnt := u\<rparr>) s1)" for u
    using dev_frame_put [OF d, of "d\<lparr>dev_usercnt := u\<rparr>" 0 0 cells]
      putFlashDev_list [OF list] by (simp add: dev_frame_def dev_size_def dev_supp_def dev_mem_def getFlashDev_def)
  then show ?thesis
    using list by (simp add: rom_HAL_Flash_Close_def d m dev_frame_same_list)
qed

lemma dev_frame_put_list:
  assumes "flashNodeHead s1 = flashNodeHead s" "getFlashDev fl s = Some d"
    "cfg_mSize d' = cfg_mSize d" "cfg_mEraseSizeSupport d' = cfg_mEraseSizeSupport d"
    "same_outside a n (cells (dev_chip d)) (cells (dev_chip d'))"
  shows "dev_frame cells fl a n s (putFlashDev fl d' s1)"
  using dev_frame_put [OF assms(2-5)] putFlashDev_list [OF assms(1)]
  by (simp add: dev_frame_def dev_size_def dev_supp_def dev_mem_def getFlashDev_def)

lemma Write_spec:
  assumes "dev_ok ops cells fl s" "unat sz \<le> length data"
    and "unat addr + unat sz < 4294967296"
  shows "\<exists>r s'. rom_HAL_Flash_Write ops flag fl addr data sz s = Some (r, s') \<and>
           dev_frame cells fl (unat addr) (unat sz) s s' \<and>
           (r = HAL_OK \<longrightarrow> sz \<noteq> 0 \<and> unat addr + unat sz \<le> dev_size fl s \<and>
              dev_mem cells fl s' = nor_program (dev_mem cells fl s) (unat addr) (take (unat sz) data))"
proof -
  obtain d where d: "getFlashDev fl s = Some d"
    and chip: "nor_chip ops cells (unat (cfg_mSize d)) (cfg_mEraseSizeSupport d)"
    and size: "dev_size fl s = unat (cfg_mSize d)" and mem: "dev_mem cells fl s = cells (dev_chip d)"
    using assms(1) by (auto elim: dev_ok_cases)
  have sum: "unat (addr + sz) = unat addr + unat sz"
    using assms(3) by (intro unat_add_no_wrap) simp
  show ?thesis
  proof (cases "sz = 0 \<or> addr + sz > cfg_mSize d")
    case True
    then show ?thesis by (simp add: rom_HAL_Flash_Write_def d dev_frame_same_list)
  next
    case False
    then have fits: "unat addr + unat sz \<le> unat (cfg_mSize d)"
      by (simp add: not_less word_le_nat_alt sum)
    obtain p s1 where b: "(if flag then hal_malloc 256 s else (Some [], s)) = (p, s1)"
      by (cases "if flag then hal_malloc 256 s else (Some [], s)")
    have list: "flashNodeHead s1 = flashNodeHead s"
      using b hal_malloc_frame [of 256 s p s1] by (auto split: if_splits)
    show ?thesis
    proof (cases p)
      case None
      with False list show ?thesis
        by (simp add: rom_HAL_Flash_Write_def d b dev_frame_same_list)
    next
      case (Some blk)
      obtain r c n where loop: "write_loop ops (dev_wmode d) flag data addr 0 0 sz HAL_ERROR
          (dev_chip d) (alive_cnt s1) = Some (r, c, n)"
        and out: "same_outside (unat addr) (unat sz) (cells (dev_chip d)) (cells c)"
        and res: "r = HAL_OK \<Longrightarrow> cells c = nor_program (cells (dev_chip d)) (unat addr) (take (unat sz) data)"
        using write_loop_programs [OF chip fits assms(3), of 0 flag 0 0 data HAL_ERROR
            "dev_wmode d" "dev_chip d" "alive_cnt s1"] assms(2) False
        by (cases flag; simp; blast)
      have "dev_frame cells fl (unat addr) (unat sz) s (putFlashDev fl (d\<lparr>dev_chip := c\<rparr>) s1)"
        using list d out by (intro dev_frame_put_list [OF list d]) simp_all
      then show ?thesis
        using Some loop res assms(2) fits size mem False
        by (auto simp: rom_HAL_Flash_Write_def d b dev_mem_put getFlashDev_cong [OF list])
    qed
  qed
qed

lemma Read_spec:
  assumes "dev_ok ops cells fl s" "unat sz \<le> length buf"
  shows "\<exists>r buf' s'. rom_HAL_Flash_Read ops fl addr buf sz s = Some (r, buf', s') \<and>
           dev_frame cells fl 0 0 s s' \<and> length buf' = length buf \<and>
           (r = HAL_OK \<longrightarrow> sz \<noteq> 0 \<and>
             (unat addr + unat sz < 4294967296 \<longrightarrow> unat addr + unat sz \<le> dev_size fl s \<and>
              buf' = content_read (dev_mem cells fl s) (unat addr) (unat sz) @ drop (unat sz) buf))"
proof -
  obtain d where d: "getFlashDev fl s = Some d"
    and chip: "nor_chip ops cells (unat (cfg_mSize d)) (cfg_mEraseSizeSupport d)"
    and size: "dev_size fl s = unat (cfg_mSize d)" and mem: "dev_mem cells fl s = cells (dev_chip d)"
    using assms(1) by (auto elim: dev_ok_cases)
  have fits: "unat addr + unat sz \<le> unat (cfg_mSize d)"
    if "\<not> cfg_mSize d < addr + sz" "unat addr + unat sz < 4294967296"
    using that unat_add_no_wrap [of addr sz] by (simp add: not_less word_le_nat_alt)
  define c0 where "c0 = (if xip_opt_read d then dev_chip d else drv_open ops (dev_chip d))"
  obtain r bs c where rd: "chip_read ops (dev_rmode d) addr sz c0 = (r, bs, c)"
    by (cases "chip_read ops (dev_rmode d) addr sz c0")
  have c0: "cells c0 = cells (dev_chip d)" using chip by (simp add: c0_def)
  define c1 where "c1 = (if xip_opt_read d then c else drv_close ops c)"
  have c1: "cells c1 = cells (dev_chip d)" and len: "length bs = unat sz"
    and bs: "r = 0 \<Longrightarrow> unat addr + unat sz \<le> unat (cfg_mSize d) \<Longrightarrow>
      bs = content_read (cells (dev_chip d)) (unat addr) (unat sz)"
    using nor_chip_read [OF chip rd] chip c0 by (auto simp: c1_def)
  have "dev_frame cells fl 0 0 s (putFlashDev fl (d\<lparr>dev_chip := c1\<rparr>) s)"
    by (rule dev_frame_put [OF d]) (simp_all add: c1)
  moreover have "rom_HAL_Flash_Read ops fl addr buf sz s =
      (if sz = 0 \<or> addr + sz > cfg_mSize d then Some (HAL_INVALID, buf, s)
       else Some (r, bs @ drop (unat sz) buf, putFlashDev fl (d\<lparr>dev_chip := c1\<rparr>) s))"
    using rd assms(2) by (cases "xip_opt_read d") (simp_all add: rom_HAL_Flash_Read_def d c0_def c1_def)
  ultimately show ?thesis
    using bs fits len assms(2) size mem by (auto simp: dev_frame_same_list)
qed

lemma Erase_spec:
  assumes "dev_ok ops cells fl s" "block_mode m" "m AND dev_supp fl s \<noteq> 0"
    and "unat addr + unat cnt * unat m \<le> dev_size fl s" "unat m dvd unat addr" "cnt \<noteq> 0"
  shows "\<exists>r s'. rom_HAL_Flash_Erase ops fl m addr cnt s = Some (r, s') \<and>
           dev_frame cells fl (unat addr) (unat cnt * unat m) s s' \<and>
           (r = HAL_OK \<longrightarrow>
              dev_mem cells fl s' = nor_erase (dev_mem cells fl s) (unat addr) (unat cnt * unat m))"
proof -
  obtain d where d: "getFlashDev fl s = Some d"
    and chip: "nor_chip ops cells (unat (cfg_mSize d)) (cfg_mEraseSizeSupport d)"
    and size: "dev_size fl s = unat (cfg_mSize d)" and mem: "dev_mem cells fl s = cells (dev_chip d)"
    and supp: "dev_supp fl s = cfg_mEraseSizeSupport d"
    using assms(1) by (auto elim: dev_ok_cases)
  have bound: "unat addr + unat cnt * unat m < 4294967296"
    using assms(4) size unat_u32_bound [of "cfg_mSize d"] by linarith
  have "unat (addr + m * cnt) = unat addr + unat cnt * unat m"
    using bound by (simp add: unat_add_no_wrap unat_mult_no_wrap mult.commute)
  then have fits: "\<not> cfg_mSize d < addr + m * cnt"
    using assms(4) size by (simp add: not_less word_le_nat_alt)
  have mode: "m \<noteq> FLASH_ERASE_CHIP" using assms(2) by (auto simp: block_mode_def)
  have "m AND cfg_mEraseSizeSupport d \<noteq> 0" using assms(3) supp by simp
  note loop = erase_loop_erases [OF chip assms(2) this assms(5), of cnt HAL_ERROR 0 "dev_chip d" "alive_cnt s"]
  obtain r c n where loop: "erase_loop ops m addr cnt 0 HAL_ERROR (dev_chip d) (alive_cnt s) = Some (r, c, n)"
    and out: "same_outside (unat addr) (unat cnt * unat m) (cells (dev_chip d)) (cells c)"
    and res: "r = HAL_OK \<Longrightarrow> cells c = nor_erase (cells (dev_chip d)) (unat addr) (unat cnt * unat m)"
    using loop assms(4,6) bound size by auto
  have "dev_frame cells fl (unat addr) (unat cnt * unat m) s (putFlashDev fl (d\<lparr>dev_chip := c\<rparr>) s)"
    using out by (intro dev_frame_put [OF d]) simp_all
  then show ?thesis
    using fits mode assms(5) loop res mem
    by (simp add: rom_HAL_Flash_Erase_def d word_mod_0_iff dev_mem_put)
qed

end
