(* ===== verification/Flash_Area_Spec.thy ===== *)
theory Flash_Area_Spec
  imports Flash_Area HAL_Flash_Spec Flash_Iface
begin

text \<open>
  The area operations on a documented chip: reads return the contents, writes program them,
  and the five areas of an erase tile the requested one.
\<close>

section \<open>Rounding to a block\<close>

lemma and_not_mask_eq:
  fixes x :: u32
  assumes "k < 32"
  shows "unat (x AND NOT (2 ^ k - 1)) = unat x div 2 ^ k * 2 ^ k"
proof -
  have "x AND NOT (2 ^ k - 1) = push_bit k (drop_bit k x)"
    by (rule bit_word_eqI) (auto simp: bit_simps simp flip: mask_eq_exp_minus_1)
  moreover have "unat (push_bit k (drop_bit k x)) = unat x div 2 ^ k * 2 ^ k"
  proof -
    have "unat (drop_bit k x) = unat x div 2 ^ k"
      using unat_drop_bit_eq [of k x] drop_bit_eq_div [of k "unat x"] by (simp only:)
    moreover have "unat x div 2 ^ k * 2 ^ k < 4294967296"
      by (rule le_less_trans [OF div_times_less_eq_dividend unat_u32_bound])
    moreover have "unat (push_bit k (drop_bit k x)) = take_bit 32 (push_bit k (unat (drop_bit k x)))"
      by (simp only: unsigned_push_bit_eq) simp
    ultimately show ?thesis
      by (simp only: push_bit_eq_mult) (simp add: take_bit_nat_eq_self)
  qed
  ultimately show ?thesis by simp
qed

lemma unat_align_down:
  "unat (align_down x BLOCK_SIZE_32K) = unat x div 32768 * 32768"
  "unat (align_down x BLOCK_SIZE_64K) = unat x div 65536 * 65536"
  using and_not_mask_eq [of 15 x] and_not_mask_eq [of 16 x] by (simp_all add: align_down_def)

lemma align_up_eq: "align_up x b = (x + (b - 1)) AND NOT (b - 1)"
  by (simp only: align_up_def add_diff_eq)

lemma unat_align_up_32K:
  assumes "unat x + 32767 < 4294967296"
  shows "unat (align_up x BLOCK_SIZE_32K) = (unat x + 32767) div 32768 * 32768"
proof -
  have "unat (x + 32767) = unat x + 32767"
    using unat_add_no_wrap [of x 32767] assms by simp
  then show ?thesis
    using and_not_mask_eq [of 15 "x + 32767"] by (simp only: align_up_eq) simp
qed

lemma unat_align_up_64K:
  assumes "unat x + 65535 < 4294967296"
  shows "unat (align_up x BLOCK_SIZE_64K) = (unat x + 65535) div 65536 * 65536"
proof -
  have "unat (x + 65535) = unat x + 65535"
    using unat_add_no_wrap [of x 65535] assms by simp
  then show ?thesis
    using and_not_mask_eq [of 16 "x + 65535"] by (simp only: align_up_eq) simp
qed

section \<open>The areas of an erase\<close>

text \<open>Rounding up gives the least multiple above, rounding down the greatest below.\<close>

lemma round_up:
  fixes a :: nat
  assumes "0 < b"
  shows "a \<le> (a + (b - 1)) div b * b" "(a + (b - 1)) div b * b < a + b"
    "b dvd q \<Longrightarrow> a \<le> q \<Longrightarrow> (a + (b - 1)) div b * b \<le> q"
proof -
  have eq: "(a + (b - 1)) div b * b + (a + (b - 1)) mod b = a + (b - 1)" by simp
  moreover have "(a + (b - 1)) mod b < b" using assms by simp
  ultimately show "a \<le> (a + (b - 1)) div b * b" using assms by linarith
  show "(a + (b - 1)) div b * b < a + b" using eq assms by linarith
  assume "b dvd q" "a \<le> q"
  then obtain k where q: "q = b * k" by blast
  with \<open>a \<le> q\<close> assms have "a + (b - 1) < Suc k * b" by (simp add: mult.commute)
  then have "(a + (b - 1)) div b < Suc k" by (rule less_mult_imp_div_less)
  then show "(a + (b - 1)) div b * b \<le> q"
    by (metis less_Suc_eq_le mult.commute mult_le_mono1 q)
qed

lemma round_down:
  fixes x :: nat
  assumes "b dvd q" "q \<le> x"
  shows "q \<le> x div b * b"
  using assms by (metis div_le_mono dvd_div_mult_self mult_le_mono1)

definition region_ok :: "u32 \<Rightarrow> nat \<Rightarrow> nat \<Rightarrow> u32 \<times> u32 \<times> u32 \<Rightarrow> bool" where
  "region_ok supp a n r \<longleftrightarrow> (case r of (mode, start, k) \<Rightarrow> k > 0 \<longrightarrow>
     block_mode mode \<and> mode AND supp \<noteq> 0 \<and> unat mode dvd unat start \<and> unat mode dvd unat k \<and>
     a \<le> unat start \<and> unat start + unat k \<le> a + n)"

fun regions_erased :: "content \<Rightarrow> (u32 \<times> u32 \<times> u32) list \<Rightarrow> content" where
  "regions_erased m [] = m"
| "regions_erased m ((mode, start, k) # rs) = regions_erased (nor_erase m (unat start) (unat k)) rs"

text \<open>
  The erase modes the plan relies on: 4K blocks, and 32K blocks whenever 64K blocks are used.
\<close>

definition erase_modes_ok :: "u32 \<Rightarrow> bool" where
  "erase_modes_ok supp \<longleftrightarrow> FLASH_ERASE_4KB AND supp \<noteq> 0 \<and>
     (FLASH_ERASE_64KB AND supp \<noteq> 0 \<longrightarrow> FLASH_ERASE_32KB AND supp \<noteq> 0)"

lemma block_mode_simps [simp]:
  "block_mode FLASH_ERASE_4KB" "block_mode FLASH_ERASE_32KB" "block_mode FLASH_ERASE_64KB"
  by (simp_all add: block_mode_def)

lemma tiles_five:
  assumes "a \<le> p" "p \<le> q" "q \<le> r" "r \<le> t" "t \<le> a + n"
  shows "nor_erase (nor_erase (nor_erase (nor_erase (nor_erase m a (p - a)) t (a + n - t))
           p (q - p)) r (t - r)) q (r - q) = nor_erase m a n"
  using assms by (intro ext) (auto simp: nor_erase_def)

lemma tiles_three:
  assumes "a \<le> p" "p \<le> q" "q \<le> a + n"
  shows "nor_erase (nor_erase (nor_erase m a (p - a)) q (a + n - q)) p (q - p) = nor_erase m a n"
  using assms by (intro ext) (auto simp: nor_erase_def)

lemma unat_diff_le: "unat (x :: u32) \<le> unat y \<Longrightarrow> unat (y - x) = unat y - unat x"
  by (simp add: unat_sub word_le_nat_alt)

lemma erase_regions_64K:
  assumes A: "4096 dvd unat addr" and N: "4096 dvd unat sz" and sum: "unat addr + unat sz < 4294967296"
    and big: "65536 \<le> unat sz" and supp: "FLASH_ERASE_64KB AND supp \<noteq> 0" "erase_modes_ok supp"
  shows "(\<forall>r \<in> set (erase_regions addr sz supp). region_ok supp (unat addr) (unat sz) r) \<and>
         regions_erased m (erase_regions addr sz supp) = nor_erase m (unat addr) (unat sz)"
proof -
  define p q r t where "p = align_up addr BLOCK_SIZE_32K" and "q = align_up addr BLOCK_SIZE_64K"
    and "r = align_down (addr + sz) BLOCK_SIZE_64K" and "t = align_down (addr + sz) BLOCK_SIZE_32K"
  have e: "unat (addr + sz) = unat addr + unat sz" using sum by (simp add: unat_add_no_wrap)
  have p: "unat p = (unat addr + (32768 - 1)) div 32768 * 32768"
    and q: "unat q = (unat addr + (65536 - 1)) div 65536 * 65536"
    unfolding p_def q_def using sum big by (simp_all add: unat_align_up_32K unat_align_up_64K)
  have r: "unat r = (unat addr + unat sz) div 65536 * 65536"
    and t: "unat t = (unat addr + unat sz) div 32768 * 32768"
    by (simp_all add: r_def t_def unat_align_down e)
  have dvd: "32768 dvd unat p" "65536 dvd unat q" "65536 dvd unat r" "32768 dvd unat t"
    by (simp_all add: p q r t)
  have dvd': "32768 dvd unat q" "32768 dvd unat r" "4096 dvd unat p" "4096 dvd unat t"
    using dvd_trans [OF _ dvd(2), of 32768] dvd_trans [OF _ dvd(3), of 32768]
      dvd_trans [OF _ dvd(1), of 4096] dvd_trans [OF _ dvd(4), of 4096] by simp_all
  have ap: "unat addr \<le> unat p" unfolding p by (rule round_up) simp
  have aq: "unat addr \<le> unat q" unfolding q by (rule round_up) simp
  have pq: "unat p \<le> unat q" unfolding p using dvd'(1) aq by (intro round_up(3)) simp_all
  have "unat q < unat addr + 65536" unfolding q by (rule round_up) simp
  then have qr: "unat q \<le> unat r"
    unfolding r using big dvd(2) by (intro round_down) simp_all
  have "unat r \<le> unat addr + unat sz" unfolding r by (rule div_times_less_eq_dividend)
  then have rt: "unat r \<le> unat t" unfolding t using dvd'(2) by (intro round_down) simp_all
  have te: "unat t \<le> unat addr + unat sz" unfolding t by (rule div_times_less_eq_dividend)
  have regions: "erase_regions addr sz supp =
     [(FLASH_ERASE_4KB, addr, p - addr), (FLASH_ERASE_4KB, t, addr + sz - t),
      (FLASH_ERASE_32KB, p, q - p), (FLASH_ERASE_32KB, r, t - r), (FLASH_ERASE_64KB, q, r - q)]"
    using big supp(1)
    by (simp add: erase_regions_def Let_def word_le_nat_alt and.commute flip: p_def q_def r_def t_def)
  have diffs: "unat (p - addr) = unat p - unat addr" "unat (q - p) = unat q - unat p"
    "unat (r - q) = unat r - unat q" "unat (t - r) = unat t - unat r"
    "unat (addr + sz - t) = unat addr + unat sz - unat t"
    using ap pq qr rt te e by (simp_all add: unat_diff_le)
  have modes: "FLASH_ERASE_4KB AND supp \<noteq> 0" "FLASH_ERASE_32KB AND supp \<noteq> 0"
    using supp by (auto simp: erase_modes_ok_def)
  have "4096 dvd unat addr + unat sz" using A N by simp
  then show ?thesis
    unfolding regions using A dvd dvd' diffs ap pq qr rt te supp(1) modes
      tiles_five [OF ap pq qr rt te]
    by (auto simp: region_ok_def)
qed

lemma erase_regions_32K:
  assumes A: "4096 dvd unat addr" and N: "4096 dvd unat sz" and sum: "unat addr + unat sz < 4294967296"
    and big: "32768 \<le> unat sz" and not64: "\<not> (65536 \<le> unat sz \<and> FLASH_ERASE_64KB AND supp \<noteq> 0)"
    and supp: "FLASH_ERASE_32KB AND supp \<noteq> 0" "erase_modes_ok supp"
  shows "(\<forall>r \<in> set (erase_regions addr sz supp). region_ok supp (unat addr) (unat sz) r) \<and>
         regions_erased m (erase_regions addr sz supp) = nor_erase m (unat addr) (unat sz)"
proof -
  define p q where "p = align_up addr BLOCK_SIZE_32K" and "q = align_down (addr + sz) BLOCK_SIZE_32K"
  have e: "unat (addr + sz) = unat addr + unat sz" using sum by (simp add: unat_add_no_wrap)
  have p: "unat p = (unat addr + (32768 - 1)) div 32768 * 32768"
    unfolding p_def using sum big by (simp add: unat_align_up_32K)
  have q: "unat q = (unat addr + unat sz) div 32768 * 32768"
    by (simp add: q_def unat_align_down e)
  have dvd: "32768 dvd unat p" "32768 dvd unat q" by (simp_all add: p q)
  have dvd': "4096 dvd unat p" "4096 dvd unat q"
    using dvd_trans [OF _ dvd(1), of 4096] dvd_trans [OF _ dvd(2), of 4096] by simp_all
  have ap: "unat addr \<le> unat p" unfolding p by (rule round_up) simp
  have "unat p < unat addr + 32768" unfolding p by (rule round_up) simp
  then have pq: "unat p \<le> unat q" unfolding q using big dvd(1) by (intro round_down) simp_all
  have qe: "unat q \<le> unat addr + unat sz" unfolding q by (rule div_times_less_eq_dividend)
  have regions: "erase_regions addr sz supp =
     [(FLASH_ERASE_4KB, addr, p - addr), (FLASH_ERASE_4KB, q, addr + sz - q),
      (FLASH_ERASE_32KB, p, q - p), (FLASH_ERASE_32KB, q, 0), (FLASH_ERASE_64KB, 0, 0)]"
    using big supp(1) not64
    by (auto simp: erase_regions_def Let_def word_le_nat_alt and.commute simp flip: p_def q_def)
  have diffs: "unat (p - addr) = unat p - unat addr" "unat (q - p) = unat q - unat p"
    "unat (addr + sz - q) = unat addr + unat sz - unat q"
    using ap pq qe e by (simp_all add: unat_diff_le)
  have modes: "FLASH_ERASE_4KB AND supp \<noteq> 0" using supp by (auto simp: erase_modes_ok_def)
  have "4096 dvd unat addr + unat sz" using A N by simp
  then show ?thesis
    unfolding regions using A dvd dvd' diffs ap pq qe supp(1) modes tiles_three [OF ap pq qe]
    by (auto simp: region_ok_def)
qed

lemma erase_regions_tile:
  assumes "4096 dvd unat addr" "4096 dvd unat sz" "unat addr + unat sz < 4294967296"
    and "erase_modes_ok supp"
  shows "(\<forall>r \<in> set (erase_regions addr sz supp). region_ok supp (unat addr) (unat sz) r) \<and>
         regions_erased m (erase_regions addr sz supp) = nor_erase m (unat addr) (unat sz)"
proof -
  consider (b64) "65536 \<le> unat sz" "FLASH_ERASE_64KB AND supp \<noteq> 0"
    | (b32) "32768 \<le> unat sz" "\<not> (65536 \<le> unat sz \<and> FLASH_ERASE_64KB AND supp \<noteq> 0)"
        "FLASH_ERASE_32KB AND supp \<noteq> 0"
    | (b4) "\<not> (65536 \<le> unat sz \<and> FLASH_ERASE_64KB AND supp \<noteq> 0)"
        "\<not> (32768 \<le> unat sz \<and> FLASH_ERASE_32KB AND supp \<noteq> 0)"
    by blast
  then show ?thesis
  proof cases
    case b64
    then show ?thesis using assms by (intro erase_regions_64K)
  next
    case b32
    then show ?thesis using assms by (intro erase_regions_32K)
  next
    case b4
    show ?thesis
    proof (cases "sz = 0")
      case True
      then show ?thesis by (simp add: erase_regions_def region_ok_def)
    next
      case False
      then have "0 < unat sz" by (simp add: unat_gt_0)
      with assms(2) have "4096 \<le> unat sz" by (rule dvd_imp_le)
      then have "erase_regions addr sz supp =
          [(FLASH_ERASE_4KB, addr, sz), (FLASH_ERASE_4KB, 0, 0), (FLASH_ERASE_32KB, 0, 0),
           (FLASH_ERASE_32KB, 0, 0), (FLASH_ERASE_64KB, 0, 0)]"
        using b4 assms(4)
        by (auto simp: erase_regions_def word_le_nat_alt and.commute erase_modes_ok_def)
      then show ?thesis using assms by (simp add: region_ok_def erase_modes_ok_def)
    qed
  qed
qed

section \<open>Running the areas\<close>

lemma erase_run_spec:
  assumes "dev_ok ops cells fl s" "a + n \<le> dev_size fl s"
    and "\<forall>r \<in> set rs. region_ok (dev_supp fl s) a n r"
  shows "\<exists>r s'. erase_run ops fl rs s = Some (r, s') \<and> (r = 0 \<or> r = - 1) \<and>
           dev_frame cells fl a n s s' \<and>
           (r = 0 \<longrightarrow> dev_mem cells fl s' = regions_erased (dev_mem cells fl s) rs)"
  using assms
proof (induction rs arbitrary: s)
  case Nil
  then show ?case by (simp add: dev_frame_same_list)
next
  case (Cons x rs)
  obtain mode start k where x: "x = (mode, start, k)" by (cases x)
  show ?case
  proof (cases "k > 0")
    case False
    then have "k = 0" by (simp add: word_gt_0)
    with Cons show ?thesis by (simp add: x)
  next
    case True
    have ok: "block_mode mode" "mode AND dev_supp fl s \<noteq> 0" "unat mode dvd unat start"
      "unat mode dvd unat k" "a \<le> unat start" "unat start + unat k \<le> a + n"
      using Cons.prems(3) True by (simp_all add: x region_ok_def)
    have cnt: "unat (k div mode) * unat mode = unat k" using ok(4) by (simp add: unat_div)
    have "0 < unat k" using True by (simp add: word_gt_0 unat_gt_0)
    with cnt have "k div mode \<noteq> 0" by (metis mult_eq_0_iff unat_0 less_numeral_extra(3))
    then obtain r s1 where er: "rom_HAL_Flash_Erase ops fl mode start (k div mode) s = Some (r, s1)"
      and f1: "dev_frame cells fl (unat start) (unat k) s s1"
      and m1: "r = HAL_OK \<Longrightarrow> dev_mem cells fl s1 = nor_erase (dev_mem cells fl s) (unat start) (unat k)"
      using Erase_spec [OF Cons.prems(1) ok(1,2), of start "k div mode"] ok Cons.prems(2) cnt by auto
    have f1': "dev_frame cells fl a n s s1" using ok by (intro dev_frame_mono [OF f1])
    then have keep: "dev_size fl s1 = dev_size fl s" "dev_supp fl s1 = dev_supp fl s"
      by (simp_all add: dev_frame_def)
    show ?thesis
    proof (cases "r = HAL_OK")
      case False
      with True er f1' show ?thesis by (simp add: x)
    next
      case ret: True
      obtain r2 s2 where run: "erase_run ops fl rs s1 = Some (r2, s2)" "r2 = 0 \<or> r2 = - 1"
        and f2: "dev_frame cells fl a n s1 s2"
        and m2: "r2 = 0 \<Longrightarrow> dev_mem cells fl s2 = regions_erased (dev_mem cells fl s1) rs"
        using Cons.IH [OF dev_ok_frame [OF f1' Cons.prems(1)]] Cons.prems keep by auto
      show ?thesis
        using True er ret run m1 m2 dev_frame_trans [OF f1' f2] by (simp add: x)
    qed
  qed
qed

lemma flash_erase_spec:
  assumes "dev_ok ops cells fl s" "erase_modes_ok (dev_supp fl s)"
    and "unat addr + unat sz \<le> dev_size fl s"
  shows "\<exists>r s'. rom_flash_erase ops fl addr sz s = Some (r, s') \<and> (r = 0 \<or> r = - 1) \<and>
           dev_frame cells fl (unat addr) (unat sz) s s' \<and>
           (r = 0 \<longrightarrow> dev_mem cells fl s' = nor_erase (dev_mem cells fl s) (unat addr) (unat sz))"
proof (cases "addr mod BLOCK_SIZE_4K \<noteq> 0 \<or> sz mod BLOCK_SIZE_4K \<noteq> 0")
  case True
  then show ?thesis by (auto simp: rom_flash_erase_def dev_frame_same_list)
next
  case False
  then have aligned: "4096 dvd unat addr" "4096 dvd unat sz"
    by (simp_all add: word_mod_0_iff)
  have "getFlashDev fl s \<noteq> None" using assms(1) by (auto simp: dev_ok_def split: option.splits)
  then obtain st s1 where op: "rom_HAL_Flash_Open fl FLASH_OPEN_TIMEOUT s = Some (st, s1)"
    and f1: "dev_frame cells fl 0 0 s s1" using Open_spec by blast
  have ok1: "dev_ok ops cells fl s1" by (rule dev_ok_frame [OF f1 assms(1)])
  then obtain d where d: "getFlashDev fl s1 = Some d" "dev_supp fl s1 = cfg_mEraseSizeSupport d"
    by (auto elim: dev_ok_cases)
  have keep: "dev_size fl s1 = dev_size fl s" "dev_supp fl s1 = dev_supp fl s"
    "dev_mem cells fl s1 = dev_mem cells fl s"
    using f1 by (auto simp: dev_frame_def)
  have bound: "unat addr + unat sz < 4294967296"
    using assms(3) dev_size_bound by (rule le_less_trans)
  note tile = erase_regions_tile [OF aligned bound assms(2)]
  obtain r s2 where run: "erase_run ops fl (erase_regions addr sz (dev_supp fl s)) s1 = Some (r, s2)"
    "r = 0 \<or> r = - 1" and f2: "dev_frame cells fl (unat addr) (unat sz) s1 s2"
    and m2: "r = 0 \<Longrightarrow> dev_mem cells fl s2 = nor_erase (dev_mem cells fl s) (unat addr) (unat sz)"
    using erase_run_spec [OF ok1, of "unat addr" "unat sz" "erase_regions addr sz (dev_supp fl s)"]
      tile keep assms(3) by auto
  have "getFlashDev fl s2 \<noteq> None" using f2 d by (auto simp: dev_frame_def)
  then obtain rc s3 where cl: "rom_HAL_Flash_Close fl s2 = Some (rc, s3)"
    and f3: "dev_frame cells fl 0 0 s2 s3" using Close_spec by blast
  have m3: "dev_mem cells fl s3 = dev_mem cells fl s2" using f3 by (simp add: dev_frame_def)
  have "dev_frame cells fl (unat addr) (unat sz) s s3"
    using dev_frame_trans [OF dev_frame_none [OF f1] dev_frame_trans [OF f2 dev_frame_none [OF f3]]] .
  then show ?thesis
    using False op d run cl m2 m3 dev_frame_none [OF f1] keep by (auto simp: rom_flash_erase_def)
qed

section \<open>Reading and writing an area\<close>

lemma dev_ok_dev: "dev_ok ops cells fl s \<Longrightarrow> getFlashDev fl s \<noteq> None"
  by (auto simp: dev_ok_def split: option.splits)

lemma dev_frame_dev: "dev_frame cells fl' a n s s' \<Longrightarrow> getFlashDev fl s \<noteq> None \<Longrightarrow> getFlashDev fl s' \<noteq> None"
  by (simp add: dev_frame_def)

lemma dev_frame_mem_none: "dev_frame cells fl' a 0 s s' \<Longrightarrow> dev_mem cells fl s' = dev_mem cells fl s"
  by (cases "fl = fl'") (simp_all add: dev_frame_def)

lemma dev_frame_size: "dev_frame cells fl' a n s s' \<Longrightarrow> dev_size fl s' = dev_size fl s"
  by (simp add: dev_frame_def)

lemma flash_read_spec:
  assumes "dev_ok ops cells fl s" "unat n \<le> length buf"
  shows "\<exists>r buf' s'. flash_read ops fl a buf n s = Some (r, buf', s') \<and> (r = n \<or> r = 0) \<and>
        dev_frame cells fl 0 0 s s' \<and> length buf' = length buf \<and>
        (r = n \<and> n \<noteq> 0 \<and> unat a + unat n < 4294967296 \<longrightarrow> unat a + unat n \<le> dev_size fl s \<and>
           buf' = content_read (dev_mem cells fl s) (unat a) (unat n) @ drop (unat n) buf)"
proof -
  obtain st s1 where op: "rom_HAL_Flash_Open fl FLASH_OPEN_TIMEOUT s = Some (st, s1)"
    and f1: "dev_frame cells fl 0 0 s s1"
    using Open_spec [OF dev_ok_dev [OF assms(1)]] by blast
  note ok1 = dev_ok_frame [OF f1 assms(1)]
  note keep = dev_frame_mem_none [OF f1] dev_frame_size [OF f1]
  obtain r b s2 where rd: "rom_HAL_Flash_Read ops fl a buf n s1 = Some (r, b, s2)"
    and f2: "dev_frame cells fl 0 0 s1 s2" and len: "length b = length buf"
    and res: "r = HAL_OK \<Longrightarrow> n \<noteq> 0 \<and> (unat a + unat n < 4294967296 \<longrightarrow> unat a + unat n \<le> dev_size fl s \<and>
        b = content_read (dev_mem cells fl s) (unat a) (unat n) @ drop (unat n) buf)"
    using Read_spec [OF ok1 assms(2), of a] keep by auto
  obtain rc s3 where cl: "rom_HAL_Flash_Close fl s2 = Some (rc, s3)"
    and f3: "dev_frame cells fl 0 0 s2 s3"
    using Close_spec [OF dev_frame_dev [OF f2 dev_ok_dev [OF ok1]]] by blast
  have "dev_frame cells fl 0 0 s s3" by (rule dev_frame_trans [OF f1 dev_frame_trans [OF f2 f3]])
  then show ?thesis
    using op rd cl f1 len res by (auto simp: flash_read_def rom_flash_rw_def)
qed

lemma flash_write_spec:
  assumes "dev_ok ops cells fl s" "unat n \<le> length data" "unat a + unat n < 4294967296"
  shows "\<exists>r s'. flash_write ops flag fl a data n s = Some (r, s') \<and> (r = n \<or> r = 0) \<and>
        dev_frame cells fl (unat a) (unat n) s s' \<and>
        (r = n \<longrightarrow> (n \<noteq> 0 \<longrightarrow> unat a + unat n \<le> dev_size fl s) \<and>
           dev_mem cells fl s' = nor_program (dev_mem cells fl s) (unat a) (take (unat n) data))"
proof -
  obtain st s1 where op: "rom_HAL_Flash_Open fl FLASH_OPEN_TIMEOUT s = Some (st, s1)"
    and f1: "dev_frame cells fl 0 0 s s1"
    using Open_spec [OF dev_ok_dev [OF assms(1)]] by blast
  note ok1 = dev_ok_frame [OF f1 assms(1)]
  note keep = dev_frame_mem_none [OF f1] dev_frame_size [OF f1]
  obtain r s2 where wr: "rom_HAL_Flash_Write ops flag fl a data n s1 = Some (r, s2)"
    and f2: "dev_frame cells fl (unat a) (unat n) s1 s2"
    and res: "r = HAL_OK \<Longrightarrow> n \<noteq> 0 \<and> unat a + unat n \<le> dev_size fl s \<and>
        dev_mem cells fl s2 = nor_program (dev_mem cells fl s) (unat a) (take (unat n) data)"
    using Write_spec [OF ok1 assms(2,3), of flag] keep by auto
  obtain rc s3 where cl: "rom_HAL_Flash_Close fl s2 = Some (rc, s3)"
    and f3: "dev_frame cells fl 0 0 s2 s3"
    using Close_spec [OF dev_frame_dev [OF f2 dev_ok_dev [OF ok1]]] by blast
  have f: "dev_frame cells fl (unat a) (unat n) s s3"
    by (rule dev_frame_trans [OF dev_frame_none [OF f1] dev_frame_trans [OF f2 dev_frame_none [OF f3]]])
  have m3: "dev_mem cells fl s3 = dev_mem cells fl s2" by (rule dev_frame_mem_none [OF f3])
  have unchanged: "n = 0 \<Longrightarrow> dev_mem cells fl s3 = dev_mem cells fl s"
    using f by (simp add: dev_frame_def)
  show ?thesis
    using op wr cl f dev_frame_none [OF f1] res m3 unchanged keep
    by (auto simp: flash_write_def rom_flash_rw_def)
qed

section \<open>The erase block of an area\<close>

lemma unat_and_mask: "k < 32 \<Longrightarrow> unat ((x :: u32) AND (2 ^ k - 1)) = unat x mod 2 ^ k"
proof -
  have "unat (x AND (2 ^ k - 1)) = unat (take_bit k x)"
    by (simp only: take_bit_eq_mask mask_eq_exp_minus_1)
  also have "\<dots> = take_bit k (unat x)" by (simp only: unsigned_take_bit_eq)
  also have "\<dots> = unat x mod 2 ^ k" by (simp only: take_bit_eq_mod)
  finally show ?thesis .
qed

lemma and_mask_zero_iff: "k < 32 \<Longrightarrow> (x :: u32) AND (2 ^ k - 1) = 0 \<longleftrightarrow> 2 ^ k dvd unat x"
  by (metis dvd_eq_mod_eq_0 unat_and_mask unat_eq_zero)

lemma and_not_mask_self: "k < 32 \<Longrightarrow> (x :: u32) = x AND NOT (2 ^ k - 1) \<Longrightarrow> 2 ^ k dvd unat x"
  using and_not_mask_eq [of k x] by (metis dvd_triv_right)

lemma get_erase_block_spec:
  assumes "getFlashDev fl s \<noteq> None"
  shows "\<exists>r. rom_flash_get_erase_block fl a n s = Some r \<and>
        (r < 0 \<or> r \<in> {65536, 32768, 4096} \<and> nat r dvd unat a \<and> nat r dvd unat n \<and> n \<noteq> 0)"
proof -
  obtain d where d: "getFlashDev fl s = Some d" using assms by auto
  have n: "n AND 65535 = 0 \<Longrightarrow> 65536 dvd unat n" "n AND 32767 = 0 \<Longrightarrow> 32768 dvd unat n"
    "n AND 4095 = 0 \<Longrightarrow> 4096 dvd unat n"
    using and_mask_zero_iff [of 16 n] and_mask_zero_iff [of 15 n] and_mask_zero_iff [of 12 n] by simp_all
  have a: "a = a AND NOT 65535 \<Longrightarrow> 65536 dvd unat a" "a = a AND NOT 32767 \<Longrightarrow> 32768 dvd unat a"
    "a = a AND NOT 4095 \<Longrightarrow> 4096 dvd unat a"
    using and_not_mask_self [of 16 a] and_not_mask_self [of 15 a] and_not_mask_self [of 12 a] by simp_all
  show ?thesis
    using n a
    by (auto simp: rom_flash_get_erase_block_def s_flash_erase_param_def rom_HAL_Flash_MemoryOf_def d)
qed

section \<open>The interface on the driver\<close>

text \<open>The functions of the interface, as this layer and the driver provide them.\<close>

definition rom_flash_if :: "'c chip_ops \<Rightarrow> bool \<Rightarrow> 'c hal flash_if" where
  "rom_flash_if ops flag = \<lparr>
     if_flash_read = flash_read ops,
     if_flash_write = flash_write ops flag,
     if_flash_erase = rom_flash_erase ops,
     if_flash_get_erase_block = rom_flash_get_erase_block,
     if_hal_open = rom_HAL_Flash_Open,
     if_hal_close = rom_HAL_Flash_Close,
     if_hal_write = rom_HAL_Flash_Write ops flag,
     if_hal_read = rom_HAL_Flash_Read ops,
     if_malloc = hal_malloc\<rparr>"

definition rom_ok :: "'c chip_ops \<Rightarrow> ('c \<Rightarrow> content) \<Rightarrow> u32 \<Rightarrow> 'c hal \<Rightarrow> bool" where
  "rom_ok ops cells fl s \<longleftrightarrow> dev_ok ops cells fl s \<and> erase_modes_ok (dev_supp fl s)"

lemma store_frame_of_dev:
  "dev_frame cells fl a n s s' \<Longrightarrow> store_frame (rom_ok ops cells) dev_size (dev_mem cells) fl a n s s'"
  unfolding store_frame_def rom_ok_def
  by (auto simp: dev_ok_frame) (simp_all add: dev_frame_def)

interpretation rom: flash_store "rom_flash_if ops flag" "rom_ok ops cells" dev_size "dev_mem cells"
  for ops :: "'c chip_ops" and flag :: bool and cells :: "'c \<Rightarrow> content"
proof (unfold_locales, goal_cases)
  case (1 fl s)
  show ?case by (rule dev_size_bound)
next
  case (2 fl s n buf a)
  then show ?case
    using flash_read_spec [of ops cells fl s n buf a]
    by (fastforce simp: rom_flash_if_def rom_ok_def intro!: store_frame_of_dev)
next
  case (3 fl s n data a)
  then show ?case
    using flash_write_spec [of ops cells fl s n data a flag]
    by (fastforce simp: rom_flash_if_def rom_ok_def intro!: store_frame_of_dev)
next
  case (4 fl s a n)
  then show ?case
    using flash_erase_spec [of ops cells fl s a n]
    by (fastforce simp: rom_flash_if_def rom_ok_def intro!: store_frame_of_dev)
next
  case (5 fl s a n)
  then show ?case
    using get_erase_block_spec [OF dev_ok_dev, of ops cells fl s a n]
    by (simp add: rom_flash_if_def rom_ok_def)
next
  case (6 fl s t)
  then show ?case
    using Open_spec [of fl s t cells] dev_ok_dev
    by (fastforce simp: rom_flash_if_def rom_ok_def intro!: store_frame_of_dev)
next
  case (7 fl s)
  then show ?case
    using Close_spec [of fl s cells] dev_ok_dev
    by (fastforce simp: rom_flash_if_def rom_ok_def intro!: store_frame_of_dev)
next
  case (8 fl s n data a)
  then show ?case
    using Write_spec [of ops cells fl s n data a flag]
    by (fastforce simp: rom_flash_if_def rom_ok_def intro!: store_frame_of_dev)
next
  case (9 fl s n buf a)
  then show ?case
    using Read_spec [of ops cells fl s n buf a]
    by (fastforce simp: rom_flash_if_def rom_ok_def intro!: store_frame_of_dev)
next
  case (10 k s p s')
  then have m: "hal_malloc k s = (p, s')" by (simp add: rom_flash_if_def)
  then show ?case
    using hal_malloc_length [of k s _ s'] hal_malloc_frame [OF m]
    by (auto intro!: store_frame_of_dev dev_frame_same_list)
qed

end
