(* ===== verification/Flash_Reliable.thy ===== *)
theory Flash_Reliable
  imports Flash_Area_Spec
begin

text \<open>
  The driver on healthy hardware: a chip that accepts every command and becomes idle within
  the polling budget, mutexes and allocations that succeed.  Then every call with valid
  arguments succeeds.  The interface \<open>reliable_store\<close> extends \<open>flash_store\<close> with these
  laws; the store that satisfies it counts a device as usable only while the hardware is
  healthy, so that the frames of \<open>flash_store\<close> say that it stays so.
\<close>

section \<open>Healthy chips\<close>

definition answers :: "'c chip_ops \<Rightarrow> int \<times> 'c \<Rightarrow> bool" where
  "answers ops rc \<longleftrightarrow> 0 \<le> fst rc \<and> (\<exists>k < 500000. \<exists>c'. idle_after ops k (snd rc) c')"

definition chip_prompt :: "'c chip_ops \<Rightarrow> bool" where
  "chip_prompt ops \<longleftrightarrow> (\<forall>m a bs c. answers ops (pageProgram ops m a bs c)) \<and>
     (\<forall>m a c. answers ops (chip_erase ops m a c)) \<and>
     (\<forall>m a n c. fst (chip_read ops m a n c) = 0)"

lemma answers_wait:
  assumes "answers ops rc"
  obtains c' n' where "HAL_Flash_WaitCompl ops 5000 (snd rc) n = Some (HAL_OK, c', n')" "\<not> fst rc < 0"
  using assms WaitCompl_idle [of ops _ "snd rc"] unfolding answers_def by fastforce

lemma write_loop_prompt:
  assumes "chip_prompt ops" "left = 0 \<longrightarrow> ret = HAL_OK"
  shows "\<exists>c' n'. write_loop ops wmode flag data address index ptr left ret c n = Some (HAL_OK, c', n')"
  using assms(2)
proof (induction "unat left" arbitrary: address index ptr left ret c n rule: less_induct)
  case less
  show ?case
  proof (cases "left > 0")
    case False
    then show ?thesis using less.prems by (simp add: write_loop_0 word_gt_0)
  next
    case True
    let ?src = "if flag then take (unat (chunk_size left address)) (drop (unat index) data)
                else take (unat (chunk_size left address)) (drop ptr data)"
    let ?rc = "pageProgram ops wmode address ?src (writeEnable ops (drv_open ops c))"
    have "answers ops ?rc" using assms(1) by (simp add: chip_prompt_def)
    then obtain c2 n2 where "HAL_Flash_WaitCompl ops 5000 (snd ?rc) n = Some (HAL_OK, c2, n2)" "\<not> fst ?rc < 0"
      by (rule answers_wait)
    then show ?thesis
      unfolding write_loop_chunk [OF True refl refl refl]
      using less.hyps [OF sub_chunk_less [OF True, of address]] by simp
  qed
qed

lemma erase_loop_prompt:
  assumes "chip_prompt ops" "cnt = 0 \<longrightarrow> ret = HAL_OK"
  shows "\<exists>c' n'. erase_loop ops m a cnt k ret c n = Some (HAL_OK, c', n')"
  using assms(2)
proof (induction "unat cnt" arbitrary: a cnt ret c n rule: less_induct)
  case less
  show ?case
  proof (cases "cnt > 0")
    case False
    then show ?thesis using less.prems by (simp add: erase_loop_0 word_gt_0)
  next
    case True
    let ?rc = "chip_erase ops m a (writeEnable ops (drv_open ops c))"
    have "answers ops ?rc" using assms(1) by (simp add: chip_prompt_def)
    then obtain c2 n2 where "HAL_Flash_WaitCompl ops 5000 (snd ?rc) n = Some (HAL_OK, c2, n2)" "\<not> fst ?rc < 0"
      by (rule answers_wait)
    then have "erase_loop ops m a cnt k ret c n =
        erase_loop ops m (a + m) (cnt - 1) k HAL_OK (drv_close ops c2) n2"
      by (simp add: erase_loop_block [OF True refl])
    moreover have "unat (cnt - 1) < unat cnt"
      using True by (simp add: unat_pred word_gt_0 unat_gt_0)
    ultimately show ?thesis
      using less.hyps [of "cnt - 1" HAL_OK] by simp
  qed
qed

lemma loops_answer_ok:
  assumes "chip_prompt ops"
  shows "write_loop ops wmode flag data address index ptr left ret c n = Some (r, c', n') \<Longrightarrow>
      left \<noteq> 0 \<Longrightarrow> r = HAL_OK"
    and "erase_loop ops m a cnt k ret c n = Some (r, c', n') \<Longrightarrow> cnt \<noteq> 0 \<Longrightarrow> r = HAL_OK"
  using write_loop_prompt [OF assms, of left ret wmode flag data address index ptr c n]
    erase_loop_prompt [OF assms, of cnt ret m a k c n] by auto

section \<open>Calls that succeed\<close>

definition env_quiet :: "'c hal \<Rightarrow> bool" where
  "env_quiet s \<longleftrightarrow> mutex_rets s = [] \<and> malloc_rets s = []"

lemma env_quiet_put [simp]:
  "env_quiet (putFlashDev fl d s) = env_quiet s" "env_quiet (s\<lparr>alive_cnt := n\<rparr>) = env_quiet s"
  by (simp_all add: env_quiet_def putFlashDev_def)

lemma quiet_mutex: "env_quiet s \<Longrightarrow> hal_mutex s = (HAL_OK, s)"
  by (simp add: env_quiet_def hal_mutex_def)

lemma quiet_malloc: "env_quiet s \<Longrightarrow> hal_malloc k s = (Some (replicate k 0), s)"
  by (simp add: env_quiet_def hal_malloc_def)

lemma Open_quiet:
  assumes "env_quiet s" "rom_HAL_Flash_Open fl t s = Some (r, s')"
  shows "r = HAL_OK \<and> env_quiet s'"
  using assms by (auto simp: rom_HAL_Flash_Open_def quiet_mutex split: option.splits)

lemma Close_quiet:
  assumes "env_quiet s" "rom_HAL_Flash_Close fl s = Some (r, s')"
  shows "env_quiet s'"
  using assms by (auto simp: rom_HAL_Flash_Close_def quiet_mutex split: option.splits)

lemma Write_quiet:
  assumes "env_quiet s" "rom_HAL_Flash_Write ops flag fl a data n s = Some (r, s')"
  shows "env_quiet s'"
  using assms by (auto simp: rom_HAL_Flash_Write_def quiet_malloc bind_Some_iff split: option.splits if_splits)

lemma Read_quiet:
  assumes "env_quiet s" "rom_HAL_Flash_Read ops fl a buf n s = Some (r, b, s')"
  shows "env_quiet s'"
  using assms by (auto simp: rom_HAL_Flash_Read_def split: option.splits if_splits prod.splits)

lemma Erase_quiet:
  assumes "env_quiet s" "rom_HAL_Flash_Erase ops fl m a cnt s = Some (r, s')"
  shows "env_quiet s'"
  using assms by (auto simp: rom_HAL_Flash_Erase_def bind_Some_iff split: option.splits if_splits)

lemma Write_succeeds:
  assumes "chip_prompt ops" "env_quiet s" "n \<noteq> 0" "unat a + unat n \<le> dev_size fl s"
    and run: "rom_HAL_Flash_Write ops flag fl a data n s = Some (r, s')"
  shows "r = HAL_OK"
proof (cases "getFlashDev fl s")
  case None
  then show ?thesis using assms by (auto simp: dev_size_def unat_eq_zero)
next
  case (Some d)
  have "\<not> cfg_mSize d < a + n"
    using assms(4) Some unat_add_no_wrap [of a n] unat_u32_bound [of "cfg_mSize d"]
    by (auto simp: dev_size_def not_less word_le_nat_alt)
  then show ?thesis
    using run Some assms(2,3) loops_answer_ok(1) [OF assms(1)]
    by (auto simp: rom_HAL_Flash_Write_def quiet_malloc bind_Some_iff split: if_splits)
qed

lemma Read_succeeds:
  assumes "chip_prompt ops" "n \<noteq> 0" "unat a + unat n \<le> dev_size fl s"
    and run: "rom_HAL_Flash_Read ops fl a buf n s = Some (r, b, s')"
  shows "r = HAL_OK"
proof (cases "getFlashDev fl s")
  case None
  then show ?thesis using assms by (auto simp: dev_size_def unat_eq_zero)
next
  case (Some d)
  have "\<not> cfg_mSize d < a + n"
    using assms(3) Some unat_add_no_wrap [of a n] unat_u32_bound [of "cfg_mSize d"]
    by (auto simp: dev_size_def not_less word_le_nat_alt)
  moreover have "chip_read ops m a n c = (r', bs, c') \<Longrightarrow> r' = 0" for m c r' bs c'
    using assms(1) unfolding chip_prompt_def by (metis fst_conv)
  ultimately show ?thesis
    using run Some assms(2) by (auto simp: rom_HAL_Flash_Read_def split: if_splits prod.splits)
qed

lemma Erase_succeeds:
  assumes "chip_prompt ops" "cnt \<noteq> 0" "m \<noteq> FLASH_ERASE_CHIP" "unat m dvd unat a"
    and "unat a + unat cnt * unat m \<le> dev_size fl s"
    and run: "rom_HAL_Flash_Erase ops fl m a cnt s = Some (r, s')"
  shows "r = HAL_OK"
proof (cases "getFlashDev fl s")
  case None
  then show ?thesis using run by (simp add: rom_HAL_Flash_Erase_def)
next
  case (Some d)
  have b: "unat a + unat cnt * unat m < 4294967296"
    using assms(5) dev_size_bound [of fl s] by linarith
  have "unat (a + m * cnt) = unat a + unat cnt * unat m"
    using b by (simp add: unat_add_no_wrap unat_mult_no_wrap mult.commute)
  then have "\<not> cfg_mSize d < a + m * cnt"
    using assms(5) Some by (simp add: dev_size_def not_less word_le_nat_alt)
  then show ?thesis
    using run Some assms(2,3,4) loops_answer_ok(2) [OF assms(1)]
    by (auto simp: rom_HAL_Flash_Erase_def bind_Some_iff word_mod_0_iff split: if_splits)
qed

lemma rw_succeeds:
  assumes "chip_prompt ops" "env_quiet s" "dev_ok ops cells fl s"
    and run: "rom_flash_rw ops flag fl a buf n w s = Some (r, b, s')"
  shows "env_quiet s' \<and> (n \<noteq> 0 \<and> unat a + unat n \<le> dev_size fl s \<longrightarrow> r = n)"
proof -
  obtain r1 s1 where o: "rom_HAL_Flash_Open fl FLASH_OPEN_TIMEOUT s = Some (r1, s1)" "dev_frame cells fl 0 0 s s1"
    using Open_spec [OF dev_ok_dev [OF assms(3)]] by blast
  note oq = Open_quiet [OF assms(2) o(1)]
  have sz: "dev_size fl s1 = dev_size fl s" by (rule dev_frame_size [OF o(2)])
  have fin: "n \<noteq> 0 \<and> unat a + unat n \<le> dev_size fl s \<longrightarrow> r2 = HAL_OK"
    if "(if w then do { (st, s) \<leftarrow> rom_HAL_Flash_Write ops flag fl a buf n s1; Some (st, buf, s) }
          else rom_HAL_Flash_Read ops fl a buf n s1) = Some (r2, b2, s2)" for r2 b2 s2
    using that Write_succeeds [OF assms(1), of s1 n a fl flag buf r2 s2]
      Read_succeeds [OF assms(1), of n a fl s1 buf r2 b2 s2] oq
    by (auto simp: sz bind_Some_iff split: if_splits)
  have q: "env_quiet s2"
    if "(if w then do { (st, s) \<leftarrow> rom_HAL_Flash_Write ops flag fl a buf n s1; Some (st, buf, s) }
          else rom_HAL_Flash_Read ops fl a buf n s1) = Some (r2, b2, s2)" for r2 b2 s2
    using that Write_quiet [of s1 ops flag fl a buf n r2 s2] Read_quiet [of s1 ops fl a buf n r2 b2 s2] oq
    by (auto simp: bind_Some_iff split: if_splits)
  show ?thesis
    using run fin q Close_quiet oq unfolding rom_flash_rw_def o(1)
    by (auto simp: bind_Some_iff split: if_splits) blast+
qed

lemma erase_run_succeeds:
  assumes "chip_prompt ops" "env_quiet s" "dev_ok ops cells fl s" "a + n \<le> dev_size fl s"
    and "\<forall>r \<in> set rs. region_ok (dev_supp fl s) a n r"
    and "erase_run ops fl rs s = Some (r, s')"
  shows "r = 0 \<and> env_quiet s'"
  using assms(2-6)
proof (induction rs arbitrary: s)
  case Nil
  then show ?case by simp
next
  case (Cons x rs)
  obtain mode start k where x: "x = (mode, start, k)" by (cases x)
  show ?case
  proof (cases "k > 0")
    case False
    then have "k = 0" by (simp add: word_gt_0)
    then show ?thesis using Cons.IH [OF Cons.prems(1-3)] Cons.prems(4,5) by (simp add: x)
  next
    case True
    have reg: "block_mode mode" "mode AND dev_supp fl s \<noteq> 0" "unat mode dvd unat start"
      "unat mode dvd unat k" "a \<le> unat start" "unat start + unat k \<le> a + n"
      using Cons.prems(4) True by (simp_all add: x region_ok_def)
    have cnt: "unat (k div mode) * unat mode = unat k" using reg(4) by (simp add: unat_div)
    have "0 < unat k" using True by (simp add: word_gt_0 unat_gt_0)
    with cnt have nz: "k div mode \<noteq> 0" by (metis mult_eq_0_iff unat_0 less_numeral_extra(3))
    obtain r1 s1 where er: "rom_HAL_Flash_Erase ops fl mode start (k div mode) s = Some (r1, s1)"
      and f1: "dev_frame cells fl (unat start) (unat k) s s1"
      using Erase_spec [OF Cons.prems(2) reg(1,2), of start "k div mode"] reg Cons.prems(3) cnt nz by auto
    have "mode \<noteq> FLASH_ERASE_CHIP" using reg(1) by (auto simp: block_mode_def)
    then have r1: "r1 = HAL_OK"
      using Erase_succeeds [OF assms(1) nz _ reg(3) _ er] cnt reg(6) Cons.prems(3) by simp
    have f1': "dev_frame cells fl a n s s1" using reg by (intro dev_frame_mono [OF f1])
    then have keep: "dev_size fl s1 = dev_size fl s" "dev_supp fl s1 = dev_supp fl s"
      by (simp_all add: dev_frame_def)
    show ?thesis
      using Cons.IH [OF Erase_quiet [OF Cons.prems(1) er] dev_ok_frame [OF f1' Cons.prems(2)]]
        Cons.prems(3-5) True er r1 keep by (simp add: x)
  qed
qed

lemma flash_erase_succeeds:
  assumes prompt: "chip_prompt ops" and quiet: "env_quiet s" and ok: "dev_ok ops cells fl s"
    and modes: "erase_modes_ok (dev_supp fl s)" and fits: "unat addr + unat sz \<le> dev_size fl s"
    and run: "rom_flash_erase ops fl addr sz s = Some (r, s')"
  shows "env_quiet s' \<and> (4096 dvd unat addr \<and> 4096 dvd unat sz \<longrightarrow> r = 0)"
proof (cases "addr mod BLOCK_SIZE_4K \<noteq> 0 \<or> sz mod BLOCK_SIZE_4K \<noteq> 0")
  case True
  then show ?thesis using run quiet by (auto simp: rom_flash_erase_def word_mod_0_iff)
next
  case False
  then have aligned: "4096 dvd unat addr" "4096 dvd unat sz"
    by (simp_all add: word_mod_0_iff)
  obtain st s1 where op: "rom_HAL_Flash_Open fl FLASH_OPEN_TIMEOUT s = Some (st, s1)"
    and f1: "dev_frame cells fl 0 0 s s1" using Open_spec [OF dev_ok_dev [OF ok]] by blast
  note oq = Open_quiet [OF quiet op]
  have ok1: "dev_ok ops cells fl s1" by (rule dev_ok_frame [OF f1 ok])
  then obtain d where d: "getFlashDev fl s1 = Some d" "dev_supp fl s1 = cfg_mEraseSizeSupport d"
    by (auto elim: dev_ok_cases)
  have keep: "dev_size fl s1 = dev_size fl s" "dev_supp fl s1 = dev_supp fl s"
    using f1 by (auto simp: dev_frame_def)
  have bound: "unat addr + unat sz < 4294967296"
    using fits dev_size_bound by (rule le_less_trans)
  note tile = erase_regions_tile [OF aligned bound modes]
  obtain r2 s2 rc s3 where parts: "erase_run ops fl (erase_regions addr sz (dev_supp fl s)) s1 = Some (r2, s2)"
    "rom_HAL_Flash_Close fl s2 = Some (rc, s3)" "r = r2" "s' = s3"
    using run False op oq d keep by (auto simp: rom_flash_erase_def bind_Some_iff)
  have "r2 = 0 \<and> env_quiet s2"
    by (rule erase_run_succeeds [OF prompt _ ok1 _ _ parts(1), of "unat addr" "unat sz"])
      (use oq fits keep tile in auto)
  then show ?thesis using parts Close_quiet by blast
qed

section \<open>The interface of a reliable store\<close>

locale reliable_store = flash_store F ok dsize mem
  for F :: "'s flash_if" and ok :: "u32 \<Rightarrow> 's \<Rightarrow> bool"
    and dsize :: "u32 \<Rightarrow> 's \<Rightarrow> nat" and mem :: "u32 \<Rightarrow> 's \<Rightarrow> content" +
  assumes read_succeeds: "ok fl s \<Longrightarrow> unat n \<le> length buf \<Longrightarrow> n \<noteq> 0 \<Longrightarrow> unat a + unat n \<le> dsize fl s \<Longrightarrow>
      if_flash_read F fl a buf n s = Some (rn, b, s') \<Longrightarrow> rn = n"
    and write_succeeds: "ok fl s \<Longrightarrow> unat n \<le> length data \<Longrightarrow> n \<noteq> 0 \<Longrightarrow> unat a + unat n \<le> dsize fl s \<Longrightarrow>
      if_flash_write F fl a data n s = Some (rn, s') \<Longrightarrow> rn = n"
    and erase_succeeds: "ok fl s \<Longrightarrow> 4096 dvd unat a \<Longrightarrow> 4096 dvd unat n \<Longrightarrow> unat a + unat n \<le> dsize fl s \<Longrightarrow>
      if_flash_erase F fl a n s = Some (r, s') \<Longrightarrow> r = 0"
    and block_succeeds: "ok fl s \<Longrightarrow> 4096 dvd unat a \<Longrightarrow> 4096 dvd unat n \<Longrightarrow> n \<noteq> 0 \<Longrightarrow>
      if_flash_get_erase_block F fl a n s = Some r \<Longrightarrow> 0 \<le> r"
    and open_succeeds: "ok fl s \<Longrightarrow> if_hal_open F fl t s = Some (r, s') \<Longrightarrow> r = 0"
    and hal_write_succeeds: "ok fl s \<Longrightarrow> unat n \<le> length data \<Longrightarrow> n \<noteq> 0 \<Longrightarrow> unat a + unat n \<le> dsize fl s \<Longrightarrow>
      if_hal_write F fl a data n s = Some (r, s') \<Longrightarrow> r = 0"
    and hal_read_succeeds: "ok fl s \<Longrightarrow> unat n \<le> length buf \<Longrightarrow> n \<noteq> 0 \<Longrightarrow> unat a + unat n \<le> dsize fl s \<Longrightarrow>
      if_hal_read F fl a buf n s = Some (r, b, s') \<Longrightarrow> r = 0"
    and malloc_succeeds: "ok fl s \<Longrightarrow> if_malloc F k s = (p, s') \<Longrightarrow> p \<noteq> None"

context reliable_store
begin

text \<open>One call of the interface that cannot fail, with everything it guarantees.\<close>

lemma read_sure:
  assumes "ok fl s" "unat n \<le> length buf" "n \<noteq> 0" "unat a + unat n \<le> dsize fl s"
  obtains s' where "if_flash_read F fl a buf n s =
      Some (n, content_read (mem fl s) (unat a) (unat n) @ drop (unat n) buf, s')"
    "store_frame ok dsize mem fl 0 0 s s'"
proof -
  have "unat a + unat n < 4294967296" using assms(4) dsize_bound [of fl s] by linarith
  with read_law [OF assms(1,2), of a] read_succeeds [OF assms] assms(3) that
  show thesis by fastforce
qed

lemma write_sure:
  assumes "ok fl s" "unat n \<le> length data" "n \<noteq> 0" "unat a + unat n \<le> dsize fl s"
  obtains s' where "if_flash_write F fl a data n s = Some (n, s')"
    "store_frame ok dsize mem fl (unat a) (unat n) s s'"
    "mem fl s' = nor_program (mem fl s) (unat a) (take (unat n) data)"
proof -
  have "unat a + unat n < 4294967296" using assms(4) dsize_bound [of fl s] by linarith
  with write_law [OF assms(1,2), of a] write_succeeds [OF assms] that
  show thesis by fastforce
qed

lemma erase_sure:
  assumes "ok fl s" "4096 dvd unat a" "4096 dvd unat n" "unat a + unat n \<le> dsize fl s"
  obtains s' where "if_flash_erase F fl a n s = Some (0, s')"
    "store_frame ok dsize mem fl (unat a) (unat n) s s'"
    "mem fl s' = nor_erase (mem fl s) (unat a) (unat n)"
  using erase_law [OF assms(1,4)] erase_succeeds [OF assms] that by fastforce

lemma malloc_sure:
  assumes "ok fl s"
  obtains b s' where "if_malloc F k s = (Some b, s')" "length b = k"
    "store_frame ok dsize mem fl 0 0 s s'"
proof -
  obtain p s' where m: "if_malloc F k s = (p, s')" by force
  then show thesis
    using malloc_law [OF m, of fl] malloc_succeeds [OF assms m] that by auto
qed

lemma hal_read_sure:
  assumes "ok fl s" "unat n \<le> length buf" "n \<noteq> 0" "unat a + unat n \<le> dsize fl s"
  obtains s' where "if_hal_read F fl a buf n s =
      Some (0, content_read (mem fl s) (unat a) (unat n) @ drop (unat n) buf, s')"
    "store_frame ok dsize mem fl 0 0 s s'"
proof -
  have "unat a + unat n < 4294967296" using assms(4) dsize_bound [of fl s] by linarith
  with hal_read_law [OF assms(1,2), of a] hal_read_succeeds [OF assms] that
  show thesis by fastforce
qed

lemma open_sure:
  assumes "ok fl s"
  obtains s' where "if_hal_open F fl t s = Some (0, s')" "store_frame ok dsize mem fl 0 0 s s'"
  using open_law [OF assms, of t] open_succeeds [OF assms] that by fastforce

lemma hal_write_sure:
  assumes "ok fl s" "unat n \<le> length data" "n \<noteq> 0" "unat a + unat n \<le> dsize fl s"
  obtains s' where "if_hal_write F fl a data n s = Some (0, s')"
    "store_frame ok dsize mem fl (unat a) (unat n) s s'"
    "mem fl s' = nor_program (mem fl s) (unat a) (take (unat n) data)"
proof -
  have "unat a + unat n < 4294967296" using assms(4) dsize_bound [of fl s] by linarith
  with hal_write_law [OF assms(1,2), of a] hal_write_succeeds [OF assms] that
  show thesis by fastforce
qed

end

definition rom_good :: "'c chip_ops \<Rightarrow> ('c \<Rightarrow> content) \<Rightarrow> u32 \<Rightarrow> 'c hal \<Rightarrow> bool" where
  "rom_good ops cells fl s \<longleftrightarrow> rom_ok ops cells fl s \<and> chip_prompt ops \<and> env_quiet s"

lemma good_frame:
  assumes "store_frame (rom_ok ops cells) dev_size (dev_mem cells) fl a n s s'" "env_quiet s \<longrightarrow> env_quiet s'"
  shows "store_frame (rom_good ops cells) dev_size (dev_mem cells) fl a n s s'"
  using assms by (auto simp: store_frame_def rom_good_def)

lemma aligned_bits:
  fixes x :: u32
  assumes "2 ^ k dvd unat x" "k < 32"
  shows "x AND (2 ^ k - 1) = 0" "x AND NOT (2 ^ k - 1) = x"
proof -
  show "x AND (2 ^ k - 1) = 0" using assms by (simp add: and_mask_zero_iff)
  have "unat (x AND NOT (2 ^ k - 1)) = unat x"
    using assms by (simp add: and_not_mask_eq)
  then show "x AND NOT (2 ^ k - 1) = x" by (rule unsigned_word_eqI)
qed

lemma get_erase_block_succeeds:
  assumes "FLASH_ERASE_4KB AND dev_supp fl s \<noteq> 0" "4096 dvd unat a" "4096 dvd unat n" "n \<noteq> 0"
    and "rom_flash_get_erase_block fl a n s = Some r"
  shows "0 \<le> r"
proof (cases "getFlashDev fl s")
  case None
  then show ?thesis using assms(1) by (simp add: dev_supp_def)
next
  case (Some d)
  have "unat n \<noteq> 0" using assms(4) by (simp add: unat_eq_zero)
  then have big: "4096 \<le> unat n" using assms(3) by (simp add: dvd_imp_le)
  have "n AND 4095 = 0" "a AND NOT 4095 = a"
    using aligned_bits [of 12 n] aligned_bits [of 12 a] assms(2,3) by simp_all
  then show ?thesis
    using assms(1,5) Some big
    by (auto simp: rom_flash_get_erase_block_def s_flash_erase_param_def rom_HAL_Flash_MemoryOf_def dev_supp_def
        word_le_nat_alt not_le split: if_splits)
qed

lemma read_good:
  assumes "rom_good ops cells fl s" "flash_read ops fl a buf n s = Some (r, b, s')"
  shows "env_quiet s' \<and> (n \<noteq> 0 \<and> unat a + unat n \<le> dev_size fl s \<longrightarrow> r = n)"
  using assms rw_succeeds [of ops s cells fl False a buf n False r b s']
  by (simp add: rom_good_def rom_ok_def flash_read_def)

lemma write_good:
  assumes "rom_good ops cells fl s" "flash_write ops flag fl a data n s = Some (r, s')"
  shows "env_quiet s' \<and> (n \<noteq> 0 \<and> unat a + unat n \<le> dev_size fl s \<longrightarrow> r = n)"
  using assms rw_succeeds [of ops s cells fl flag a data n True r]
  by (auto simp: rom_good_def rom_ok_def flash_write_def bind_Some_iff)

lemma erase_good:
  assumes "rom_good ops cells fl s" "unat a + unat n \<le> dev_size fl s" "rom_flash_erase ops fl a n s = Some (r, s')"
  shows "env_quiet s' \<and> (4096 dvd unat a \<and> 4096 dvd unat n \<longrightarrow> r = 0)"
  using assms flash_erase_succeeds [of ops s cells fl a n r s'] by (simp add: rom_good_def rom_ok_def)

lemma rom_if_sel [simp]:
  "if_flash_read (rom_flash_if ops flag) = flash_read ops"
  "if_flash_write (rom_flash_if ops flag) = flash_write ops flag"
  "if_flash_erase (rom_flash_if ops flag) = rom_flash_erase ops"
  "if_flash_get_erase_block (rom_flash_if ops flag) = rom_flash_get_erase_block"
  "if_hal_open (rom_flash_if ops flag) = rom_HAL_Flash_Open"
  "if_hal_close (rom_flash_if ops flag) = rom_HAL_Flash_Close"
  "if_hal_write (rom_flash_if ops flag) = rom_HAL_Flash_Write ops flag"
  "if_hal_read (rom_flash_if ops flag) = rom_HAL_Flash_Read ops"
  "if_malloc (rom_flash_if ops flag) = hal_malloc"
  by (simp_all add: rom_flash_if_def)

lemma good_ok: "rom_good ops cells fl s \<Longrightarrow> rom_ok ops cells fl s \<and> env_quiet s \<and> chip_prompt ops"
  by (simp add: rom_good_def)

interpretation good: reliable_store "rom_flash_if ops flag" "rom_good ops cells" dev_size "dev_mem cells"
  for ops :: "'c chip_ops" and flag :: bool and cells :: "'c \<Rightarrow> content"
proof (unfold_locales, goal_cases)
  case (1 fl s)
  show ?case by (rule dev_size_bound)
next
  case (2 fl s n buf a)
  note g = good_ok [OF 2(1)]
  obtain r b s' where L: "flash_read ops fl a buf n s = Some (r, b, s')" "r = n \<or> r = 0"
    "store_frame (rom_ok ops cells) dev_size (dev_mem cells) fl 0 0 s s'" "length b = length buf"
    "r = n \<and> n \<noteq> 0 \<and> unat a + unat n < 4294967296 \<longrightarrow> unat a + unat n \<le> dev_size fl s \<and>
           b = content_read (dev_mem cells fl s) (unat a) (unat n) @ drop (unat n) buf"
    using rom.read_law [where ops = ops and cells = cells and fl = fl and s = s and n = n and buf = buf and a = a] g 2(2) by auto
  show ?case using L good_frame [OF L(3)] read_good [OF 2(1) L(1)] by simp
next
  case (3 fl s n data a)
  note g = good_ok [OF 3(1)]
  obtain r s' where L: "flash_write ops flag fl a data n s = Some (r, s')" "r = n \<or> r = 0"
    "store_frame (rom_ok ops cells) dev_size (dev_mem cells) fl (unat a) (unat n) s s'"
    "r = n \<longrightarrow> (n \<noteq> 0 \<longrightarrow> unat a + unat n \<le> dev_size fl s) \<and>
           dev_mem cells fl s' = nor_program (dev_mem cells fl s) (unat a) (take (unat n) data)"
    using rom.write_law [where ops = ops and cells = cells and fl = fl and s = s and n = n and data = data and a = a and flag = flag] g 3(2,3) by auto
  show ?case using L good_frame [OF L(3)] write_good [OF 3(1) L(1)] by simp
next
  case (4 fl s a n)
  note g = good_ok [OF 4(1)]
  obtain r s' where L: "rom_flash_erase ops fl a n s = Some (r, s')" "r = 0 \<or> r = - 1"
    "store_frame (rom_ok ops cells) dev_size (dev_mem cells) fl (unat a) (unat n) s s'"
    "r = 0 \<longrightarrow> dev_mem cells fl s' = nor_erase (dev_mem cells fl s) (unat a) (unat n)"
    using rom.erase_law [where ops = ops and cells = cells and fl = fl and s = s and n = n and a = a] g 4(2) by auto
  show ?case using L good_frame [OF L(3)] erase_good [OF 4(1,2) L(1)] by simp
next
  case (5 fl s a n)
  then show ?case using rom.block_law [where ops = ops and cells = cells and fl = fl and s = s and a = a and n = n] good_ok by fastforce
next
  case (6 fl s t)
  note g = good_ok [OF 6(1)]
  obtain r s' where L: "rom_HAL_Flash_Open fl t s = Some (r, s')"
    "store_frame (rom_ok ops cells) dev_size (dev_mem cells) fl 0 0 s s'"
    using rom.open_law [where ops = ops and cells = cells and fl = fl and s = s and t = t] g by auto
  show ?case using L good_frame [OF L(2)] Open_quiet [OF _ L(1)] by simp
next
  case (7 fl s)
  note g = good_ok [OF 7(1)]
  obtain r s' where L: "rom_HAL_Flash_Close fl s = Some (r, s')"
    "store_frame (rom_ok ops cells) dev_size (dev_mem cells) fl 0 0 s s'"
    using rom.close_law [where ops = ops and cells = cells and fl = fl and s = s] g by auto
  show ?case using L good_frame [OF L(2)] Close_quiet [OF _ L(1)] by simp
next
  case (8 fl s n data a)
  note g = good_ok [OF 8(1)]
  obtain r s' where L: "rom_HAL_Flash_Write ops flag fl a data n s = Some (r, s')"
    "store_frame (rom_ok ops cells) dev_size (dev_mem cells) fl (unat a) (unat n) s s'"
    "r = 0 \<longrightarrow> n \<noteq> 0 \<and> unat a + unat n \<le> dev_size fl s \<and>
           dev_mem cells fl s' = nor_program (dev_mem cells fl s) (unat a) (take (unat n) data)"
    using rom.hal_write_law [where ops = ops and cells = cells and fl = fl and s = s and n = n and data = data and a = a and flag = flag] g 8(2,3) by auto
  show ?case using L good_frame [OF L(2)] Write_quiet [OF _ L(1)] by simp
next
  case (9 fl s n buf a)
  note g = good_ok [OF 9(1)]
  obtain r b s' where L: "rom_HAL_Flash_Read ops fl a buf n s = Some (r, b, s')"
    "store_frame (rom_ok ops cells) dev_size (dev_mem cells) fl 0 0 s s'" "length b = length buf"
    "r = 0 \<longrightarrow> n \<noteq> 0 \<and> (unat a + unat n < 4294967296 \<longrightarrow> unat a + unat n \<le> dev_size fl s \<and>
           b = content_read (dev_mem cells fl s) (unat a) (unat n) @ drop (unat n) buf)"
    using rom.hal_read_law [where ops = ops and cells = cells and fl = fl and s = s and n = n and buf = buf and a = a] g 9(2) by auto
  show ?case using L good_frame [OF L(2)] Read_quiet [OF _ L(1)] by simp
next
  case (10 k s p s' fl)
  then have m: "hal_malloc k s = (p, s')" by simp
  have "env_quiet s \<longrightarrow> env_quiet s'" using m by (auto simp: quiet_malloc)
  then show ?case
    using rom.malloc_law [where ops = ops and flag = flag and k = k and s = s and p = p and s' = s' and cells = cells and fl = fl] m by (auto intro!: good_frame)
next
  case (11 fl s n buf a rn b s')
  then show ?case using read_good [of ops cells fl s a buf n rn b s'] by simp
next
  case (12 fl s n data a rn s')
  then show ?case using write_good [of ops cells fl s flag a data n rn s'] by simp
next
  case (13 fl s a n r s')
  then show ?case using erase_good [of ops cells fl s a n r s'] by simp
next
  case (14 fl s a n r)
  then show ?case
    using get_erase_block_succeeds [of fl s a n r] good_ok [OF 14(1)] by (simp add: rom_ok_def erase_modes_ok_def)
next
  case (15 fl s t r s')
  then show ?case using Open_quiet [of s fl t r s'] good_ok [OF 15(1)] by simp
next
  case (16 fl s n data a r s')
  then show ?case using Write_succeeds [of ops s n a fl flag data r s'] good_ok [OF 16(1)] by simp
next
  case (17 fl s n buf a r b s')
  then show ?case using Read_succeeds [of ops n a fl s buf r b s'] good_ok [OF 17(1)] by simp
next
  case (18 fl s k p s')
  then show ?case using good_ok [OF 18(1)] by (auto simp: quiet_malloc)
qed

end
