(* ===== verification/Fdcm_Spec.thy ===== *)
theory Fdcm_Spec
  imports Fdcm Flash_Reliable
begin

text \<open>
  What the chunk manager promises: an area holds the history of the chunks written since it
  was last erased, a read returns the last of them, a write appends one or, when no slot is
  left, starts a new history; and whatever the area holds, a call changes the area only.
\<close>

section \<open>The bitmap\<close>

fun bitmap_of :: "nat \<Rightarrow> nat \<Rightarrow> u8 list" where
  "bitmap_of 0 k = []"
| "bitmap_of (Suc n) k = (if 8 \<le> k then 0 # bitmap_of n (k - 8)
                           else push_bit k 0xFF # replicate n 0xFF)"

lemma length_bitmap_of [simp]: "length (bitmap_of n k) = n"
  by (induction n k rule: bitmap_of.induct) auto

lemma below_8: "k < 8 \<Longrightarrow> k = 0 \<or> k = 1 \<or> k = 2 \<or> k = 3 \<or> k = 4 \<or> k = 5 \<or> k = 6 \<or> k = (7::nat)"
  by auto

lemma used_bits_push: "k < 8 \<Longrightarrow> used_bits (NOT (push_bit k 0xFF)) = of_nat k"
  by (drule below_8) (elim disjE; simp add: used_bits.simps push_bit_eq_mult)

lemma push_bit_nonzero: "k < 8 \<Longrightarrow> push_bit k (0xFF :: u8) \<noteq> 0"
  by (drule below_8) (elim disjE; simp add: push_bit_eq_mult)

lemma bit_count_bitmap_of:
  "k \<le> 8 * n \<Longrightarrow> fdcm_bit_count (bitmap_of n k) = of_nat k"
proof (induction n k rule: bitmap_of.induct)
  case (2 n k)
  then show ?case
    by (cases "8 \<le> k") (auto simp: used_bits_push push_bit_nonzero of_nat_diff)
qed simp

lemma push_bit_step:
  "k < 8 \<Longrightarrow> push_bit k 0xFF AND NOT (push_bit k 1) = (push_bit (Suc k) 0xFF :: u8)"
  by (drule below_8) (elim disjE; simp add: push_bit_eq_mult)

lemma bitmap_of_step:
  "k < 8 * n \<Longrightarrow>
   (bitmap_of n k)[k div 8 := bitmap_of n k ! (k div 8) AND NOT (push_bit (k mod 8) 1)]
     = bitmap_of n (Suc k)"
proof (induction n k rule: bitmap_of.induct)
  case (2 n k)
  show ?case
  proof (cases "8 \<le> k")
    case True
    then have "k div 8 = Suc ((k - 8) div 8)" "k mod 8 = (k - 8) mod 8" "Suc k - 8 = Suc (k - 8)"
      by (auto simp: le_div_geq le_mod_geq)
    with 2 True show ?thesis by simp
  next
    case False
    then consider "Suc k < 8" | "k = 7" by linarith
    then show ?thesis
    proof cases
      case 1
      then have "push_bit k 0xFF AND NOT (push_bit k 1) = (push_bit (Suc k) 0xFF :: u8)"
        by (intro push_bit_step) simp
      with 1 show ?thesis by (simp del: push_bit_Suc push_bit_of_1)
    next
      case 2
      then show ?thesis using push_bit_step [of 7]
        by (cases n) (auto simp: push_bit_eq_mult)
    qed
  qed
qed simp

section \<open>The header\<close>

lemma length_header_bytes [simp]: "length (bytes_of_fdcm_header h) = 8"
  by (simp add: bytes_of_fdcm_header_def)

lemma header_roundtrip [simp]: "fdcm_header_of_bytes (bytes_of_fdcm_header h @ ys) = h"
proof -
  have "u16_of_bytes (bytes_of_u16 (data_size h) @ ys) = data_size h" by simp
  moreover have "drop 4 (bytes_of_fdcm_header h @ ys) =
      bytes_of_u16 (bitmap_size h) @ bytes_of_u16 (data_size h) @ ys"
    "drop 6 (bytes_of_fdcm_header h @ ys) = bytes_of_u16 (data_size h) @ ys"
    by (simp_all add: bytes_of_fdcm_header_def bytes_of_u32_def bytes_of_u16_def)
  ultimately show ?thesis
    by (simp add: fdcm_header_of_bytes_def) (simp add: bytes_of_fdcm_header_def)
qed

lemma header_roundtrip_nil [simp]: "fdcm_header_of_bytes (bytes_of_fdcm_header h) = h"
  using header_roundtrip [of h "[]"] by simp

section \<open>The history an area holds\<close>

definition slot_base :: "nat \<Rightarrow> nat" where
  "slot_base bs = 8 + bs"

definition fdcm_holds :: "content \<Rightarrow> nat \<Rightarrow> nat \<Rightarrow> u16 \<Rightarrow> u16 \<Rightarrow> u8 list list \<Rightarrow> bool" where
  "fdcm_holds m a sz bs ds recs \<longleftrightarrow>
     bs \<noteq> 0 \<and> bs \<le> FDCM_INDEX_MAX \<and> ds \<noteq> 0 \<and> recs \<noteq> [] \<and>
     length recs \<le> 8 * unat bs \<and> (\<forall>r \<in> set recs. length r = unat ds) \<and>
     slot_base (unat bs) + unat ds * length recs \<le> sz \<and>
     content_read m a 8 =
       bytes_of_fdcm_header \<lparr>id_code = FDCM_ID_CODE, bitmap_size = bs, data_size = ds\<rparr> \<and>
     content_read m (a + 8) (unat bs) = bitmap_of (unat bs) (length recs) \<and>
     (\<forall>i < length recs. content_read m (a + slot_base (unat bs) + unat ds * i) (unat ds) = recs ! i) \<and>
     erased m (a + slot_base (unat bs) + unat ds * length recs)
       (sz - slot_base (unat bs) - unat ds * length recs)"


definition fdcm_area :: "fdcm_handle \<Rightarrow> nat \<Rightarrow> bool" where
  "fdcm_area hdl n \<longleftrightarrow>
     4096 \<le> unat (fh_size hdl) \<and> unat (fh_addr hdl) + unat (fh_size hdl) \<le> n"

lemma bitmap_size_le: "fdcm_bitmap_size sz ds \<le> FDCM_INDEX_MAX"
  by (simp add: fdcm_bitmap_size_def Let_def linorder_not_less)

lemma bitmap_size_le_nat: "unat (fdcm_bitmap_size sz ds) \<le> 1024"
  using bitmap_size_le [of sz ds] by (simp add: word_le_nat_alt)

lemma unat_add_const:
  fixes x :: u32
  assumes "unat x + unat y < 4294967296"
  shows "unat (x + y) = unat x + unat y"
  using assms by (simp add: unat_word_ariths)

text \<open>The three programs of a rewrite, on an erased area.\<close>

lemma holds_after_rewrite:
  assumes "bs \<noteq> 0" "bs \<le> FDCM_INDEX_MAX" "ds \<noteq> 0" "length x = unat ds"
    and "8 + unat bs + unat ds \<le> sz"
    and "h = bytes_of_fdcm_header \<lparr>id_code = FDCM_ID_CODE, bitmap_size = bs, data_size = ds\<rparr>"
  shows "fdcm_holds (nor_program (nor_program (nor_program (nor_erase m a sz) a h) (a + 8) [0xFE])
           (a + 8 + unat bs) x) a sz bs ds [x]"
    (is "fdcm_holds ?m _ _ _ _ _")
proof -
  define e where "e = nor_erase m a sz"
  have pos: "0 < unat bs" using assms by (simp add: unat_gt_0)
  have len: "length h = 8" by (simp add: assms)
  have E: "e y = 0xFF" if "a \<le> y" "y < a + sz" for y
    using that by (simp add: e_def nor_erase_def)
  have hdr: "content_read ?m a 8 = h"
    by (rule nth_equalityI)
      (use assms len E in \<open>auto simp: nor_program_def and_u8_FF simp flip: e_def\<close>)
  have bm: "content_read ?m (a + 8) (unat bs) = bitmap_of (unat bs) 1"
  proof (rule nth_equalityI)
    fix i assume "i < length (content_read ?m (a + 8) (unat bs))"
    then have i: "i < unat bs" by simp
    then obtain n where n: "unat bs = Suc n" by (cases "unat bs") auto
    have "?m (a + 8 + i) = (if i = 0 then 0xFE else 0xFF)"
      using i assms len E pos by (auto simp: nor_program_def and_u8_FF simp flip: e_def)
    moreover have "bitmap_of (unat bs) 1 ! i = (if i = 0 then 0xFE else 0xFF)"
      using i n by (cases i) (auto simp: push_bit_eq_mult)
    ultimately show "content_read ?m (a + 8) (unat bs) ! i = bitmap_of (unat bs) 1 ! i"
      using i by simp
  qed simp
  have slot: "content_read ?m (a + slot_base (unat bs)) (unat ds) = x"
    by (rule nth_equalityI)
      (use assms pos len E in \<open>auto simp: nor_program_def and_u8_FF slot_base_def simp flip: e_def\<close>)
  have rest: "erased ?m (a + slot_base (unat bs) + unat ds) (sz - slot_base (unat bs) - unat ds)"
    using assms len E pos
    by (auto simp: erased_def nor_program_def slot_base_def simp flip: e_def)
  show ?thesis
    using assms pos hdr bm slot rest by (simp add: fdcm_holds_def slot_base_def)
qed

text \<open>The two programs of an append: the bit of the slot, then the slot.\<close>

lemma content_read_program_byte:
  assumes "i < n"
  shows "content_read (nor_program m (a + i) [b]) a n = (content_read m a n)[i := m (a + i) AND b]"
  by (rule nth_equalityI) (use assms in \<open>auto simp: nor_program_def nth_list_update\<close>)

lemma holds_after_append:
  assumes h: "fdcm_holds m a sz bs ds recs" and x: "length x = unat ds"
    and room: "length recs < 8 * unat bs"
      "slot_base (unat bs) + unat ds * (length recs + 1) \<le> sz"
    and b: "b = bitmap_of (unat bs) (length recs) ! (length recs div 8)
                  AND NOT (push_bit (length recs mod 8) 1)"
  shows "fdcm_holds (nor_program (nor_program m (a + 8 + length recs div 8) [b])
           (a + slot_base (unat bs) + unat ds * length recs) x) a sz bs ds (recs @ [x])"
    (is "fdcm_holds ?m _ _ _ _ _")
proof -
  let ?k = "length recs" and ?S = "a + slot_base (unat bs)"
  let ?m1 = "nor_program m (a + 8 + ?k div 8) [b]"
  have idx: "?k div 8 < unat bs" using room by linarith
  have low: "content_read ?m y n = content_read ?m1 y n" if "y + n \<le> ?S + unat ds * ?k" for y n
    using that by (intro content_read_cong nor_program_apply_out) auto
  have keep: "content_read ?m1 y n = content_read m y n"
    if "y + n \<le> a + 8 \<or> ?S \<le> y" for y n
    using that idx by (intro content_read_cong nor_program_apply_out) (auto simp: slot_base_def)
  have hdr: "content_read ?m a 8 = content_read m a 8"
    by (subst low; (subst keep)?) (auto simp: slot_base_def)
  have "content_read ?m (a + 8) (unat bs) = content_read ?m1 (a + 8) (unat bs)"
    by (rule low) (simp add: slot_base_def)
  also have "\<dots> = (content_read m (a + 8) (unat bs))[?k div 8 := m (a + 8 + ?k div 8) AND b]"
    by (rule content_read_program_byte [OF idx])
  also have "m (a + 8 + ?k div 8) = bitmap_of (unat bs) ?k ! (?k div 8)"
    using h idx by (metis fdcm_holds_def nth_content_read)
  also have "bitmap_of (unat bs) ?k ! (?k div 8) AND b = b"
    unfolding b by (simp only: and.assoc [symmetric] and.idem)
  finally have bm: "content_read ?m (a + 8) (unat bs) = bitmap_of (unat bs) (Suc ?k)"
    using h bitmap_of_step [OF room(1)] by (simp add: fdcm_holds_def b)
  have slots: "content_read ?m (?S + unat ds * i) (unat ds) = (recs @ [x]) ! i"
    if i: "i < length (recs @ [x])" for i
  proof (cases "i < ?k")
    case True
    then have "unat ds * i + unat ds \<le> unat ds * ?k"
      by (metis Suc_leI mult_Suc_right mult_le_mono2 add.commute)
    then have "content_read ?m (?S + unat ds * i) (unat ds) = content_read m (?S + unat ds * i) (unat ds)"
      by (subst low; (subst keep)?) auto
    with h True show ?thesis by (simp add: fdcm_holds_def nth_append)
  next
    case False
    with i have [simp]: "i = ?k" by simp
    have "erased ?m1 (?S + unat ds * ?k) (unat ds)"
      using h room x idx unfolding fdcm_holds_def
      by (auto simp: erased_def nor_program_def slot_base_def algebra_simps)
    then have "content_read ?m (?S + unat ds * ?k) (length x) = x"
      by (intro nor_program_erased) (simp add: x)
    then show ?thesis by (simp add: x)
  qed
  have rest: "erased ?m (?S + unat ds * (?k + 1)) (sz - slot_base (unat bs) - unat ds * (?k + 1))"
    using h room x idx unfolding fdcm_holds_def
    by (auto simp: erased_def nor_program_def slot_base_def algebra_simps)
  show ?thesis
    using h room x hdr bm slots rest unfolding fdcm_holds_def by simp
qed

section \<open>The operations over the interface\<close>

lemma header_valid_size:
  assumes "\<not> header_invalid h ds sz" "unat (bitmap_size h) \<le> 1024"
  shows "8 + unat (bitmap_size h) < unat sz" "bitmap_size h \<noteq> 0" "data_size h = ds"
proof -
  have "unat (ucast (bitmap_size h) + 8 :: u32) = unat (bitmap_size h) + 8"
    by (subst unat_add_const) (use assms(2) in simp_all)
  with assms show "8 + unat (bitmap_size h) < unat sz" "bitmap_size h \<noteq> 0" "data_size h = ds"
    by (auto simp: header_invalid_def not_le word_less_nat_alt)
qed

lemma slot_offset:
  assumes "unat bs \<le> 1024" "unat (k :: u32) \<le> 8193"
  shows "unat (ucast (ds :: u16) * k) = unat ds * unat k"
    and "unat (8 + ucast (bs :: u16) + ucast ds * k) = 8 + unat bs + unat ds * unat k"
proof -
  have "unat ds \<le> 65535" using unat_u16_bound [of ds] by linarith
  then have le: "unat ds * unat k \<le> 65535 * 8193" by (rule mult_le_mono) (rule assms)
  then show m: "unat (ucast ds * k) = unat ds * unat k"
    by (subst unat_mult_no_wrap) simp_all
  have "unat (8 + ucast bs :: u32) = 8 + unat bs"
    by (subst unat_add_const) (use assms in simp_all)
  then show "unat (8 + ucast bs + ucast ds * k) = 8 + unat bs + unat ds * unat k"
    by (subst unat_add_const) (use assms le m in simp_all)
qed

lemma unat_Suc_u32: "unat (k :: u32) < 4294967295 \<Longrightarrow> unat (k + 1) = unat k + 1"
  using unat_add_const [of k 1] by simp

context flash_store
begin

lemma fdcm_rewrite_law:
  assumes ok: "ok (fh_flash hdl) s" and area: "fdcm_area hdl (dsize (fh_flash hdl) s)"
    and data: "unat ds \<le> length data"
  shows "\<exists>r s'. fdcm_rewrite F hdl data ds s = Some (r, s') \<and> (r = ucast ds \<or> r = 0) \<and>
     store_frame ok dsize mem (fh_flash hdl) (unat (fh_addr hdl)) (unat (fh_size hdl)) s s' \<and>
     (r \<noteq> 0 \<and> fdcm_bitmap_size (fh_size hdl) ds \<noteq> 0 \<longrightarrow>
        fdcm_holds (mem (fh_flash hdl) s') (unat (fh_addr hdl)) (unat (fh_size hdl))
          (fdcm_bitmap_size (fh_size hdl) ds) ds [take (unat ds) data])"
proof -
  let ?fl = "fh_flash hdl" and ?a = "fh_addr hdl" and ?n = "fh_size hdl"
  let ?bs = "fdcm_bitmap_size ?n ds"
  let ?h = "bytes_of_fdcm_header \<lparr>id_code = FDCM_ID_CODE, bitmap_size = ?bs, data_size = ds\<rparr>"
  let ?fr = "store_frame ok dsize mem ?fl (unat ?a) (unat ?n)"
  note bs = bitmap_size_le_nat [of ?n ds]
  have bound: "unat ?a + unat ?n \<le> dsize ?fl s" "4096 \<le> unat ?n" "dsize ?fl s < 4294967296"
    using area dsize_bound by (auto simp: fdcm_area_def)
  have left: "unat (?n - 8 - ucast ?bs) = unat ?n - 8 - unat ?bs"
  proof -
    have "unat (?n - 8) = unat ?n - 8" using unat_sub [of 8 ?n] bound by (simp add: word_le_nat_alt)
    then show ?thesis by (subst unat_sub) (use bound bs in \<open>simp_all add: word_le_nat_alt\<close>)
  qed
  have a1: "unat (?a + 8) = unat ?a + 8" using unat_add_const [of ?a 8] bound by simp
  have a2: "unat (?a + 8 + ucast ?bs) = unat ?a + 8 + unat ?bs"
    by (subst unat_add_const) (use bound bs a1 in simp_all)
  show ?thesis
  proof (cases "(ucast ds :: u32) > ?n - 8 - ucast ?bs")
    case True
    then show ?thesis by (auto simp: fdcm_rewrite_def Let_def)
  next
    case False
    then have room: "8 + unat ?bs + unat ds \<le> unat ?n"
      using left bs bound by (simp add: word_less_nat_alt not_less)
    obtain e s1 where E: "if_flash_erase F ?fl ?a ?n s = Some (e, s1)" "e = 0 \<or> e = - 1" "?fr s s1"
      "e = 0 \<Longrightarrow> mem ?fl s1 = nor_erase (mem ?fl s) (unat ?a) (unat ?n)"
      using erase_law [OF ok bound(1)] by auto
    have ok1: "ok ?fl s1" using E(3) ok by (rule store_frame_ok)
    obtain w2 s2 where W2: "if_flash_write F ?fl ?a ?h 8 s1 = Some (w2, s2)" "w2 = 8 \<or> w2 = 0"
      "store_frame ok dsize mem ?fl (unat ?a) 8 s1 s2"
      "w2 = 8 \<Longrightarrow> mem ?fl s2 = nor_program (mem ?fl s1) (unat ?a) ?h"
      using write_law [OF ok1, of 8 ?h ?a] bound by auto
    have ok2: "ok ?fl s2" using W2(3) ok1 by (rule store_frame_ok)
    obtain w3 s3 where W3: "if_flash_write F ?fl (?a + 8) [0xFE] 1 s2 = Some (w3, s3)"
      "w3 = 1 \<or> w3 = 0" "store_frame ok dsize mem ?fl (unat ?a + 8) 1 s2 s3"
      "w3 = 1 \<Longrightarrow> mem ?fl s3 = nor_program (mem ?fl s2) (unat ?a + 8) [0xFE]"
      using write_law [OF ok2, of 1 "[0xFE]" "?a + 8"] bound a1 by auto
    have ok3: "ok ?fl s3" using W3(3) ok2 by (rule store_frame_ok)
    obtain w4 s4 where W4: "if_flash_write F ?fl (?a + 8 + ucast ?bs) data (ucast ds) s3 = Some (w4, s4)"
      "w4 = ucast ds \<or> w4 = 0" "store_frame ok dsize mem ?fl (unat ?a + 8 + unat ?bs) (unat ds) s3 s4"
      "w4 = ucast ds \<Longrightarrow>
        mem ?fl s4 = nor_program (mem ?fl s3) (unat ?a + 8 + unat ?bs) (take (unat ds) data)"
      using write_law [OF ok3, of "ucast ds" data "?a + 8 + ucast ?bs"] bound a2 data room by auto
    have f2: "?fr s1 s2" using W2(3) by (rule store_frame_mono) (use bound in auto)
    have f3: "?fr s2 s3" using W3(3) by (rule store_frame_mono) (use bound in auto)
    have f4: "?fr s3 s4" using W4(3) by (rule store_frame_mono) (use room in auto)
    note f12 = store_frame_trans [OF E(3) f2]
    note f13 = store_frame_trans [OF f12 f3]
    note f14 = store_frame_trans [OF f13 f4]
    have done4: "fdcm_holds (mem ?fl s4) (unat ?a) (unat ?n) ?bs ds [take (unat ds) data]"
      if "e = 0" "w2 = 8" "w3 = 1" "w4 = ucast ds" "(ucast ds :: u32) \<noteq> 0" "?bs \<noteq> 0"
    proof -
      have "ds \<noteq> 0" using that(5) by auto
      then show ?thesis
        using that E(4) W2(4) W3(4) W4(4) data room bitmap_size_le
        by (simp add: holds_after_rewrite)
    qed
    show ?thesis
      using False E(1,3) W2(1) W3(1) W4(1,2) f12 f13 f14 done4
      by (auto simp: fdcm_rewrite_def Let_def)
  qed
qed

text \<open>Reading the header and the bitmap does not depend on what the area holds.\<close>

lemma fdcm_read_header:
  assumes "ok (fh_flash hdl) s" "fdcm_area hdl (dsize (fh_flash hdl) s)"
  obtains r hb s' where
    "if_flash_read F (fh_flash hdl) (fh_addr hdl) (replicate 8 0) 8 s = Some (r, hb, s')"
    "r = 8 \<or> r = 0" "store_frame ok dsize mem (fh_flash hdl) 0 0 s s'"
    "r = 8 \<longrightarrow> hb = content_read (mem (fh_flash hdl) s) (unat (fh_addr hdl)) 8"
proof -
  have "unat (fh_addr hdl) + 8 < 4294967296"
    using assms(2) dsize_bound [of "fh_flash hdl" s] by (simp add: fdcm_area_def)
  then show ?thesis
    using read_law [OF assms(1), of 8 "replicate 8 0" "fh_addr hdl"] that by auto
qed

lemma fdcm_read_bitmap:
  assumes "ok (fh_flash hdl) s" "fdcm_area hdl (dsize (fh_flash hdl) s)"
    and "unat (bs :: u16) \<le> 1024" "bs \<noteq> 0" "length buf = unat bs"
  obtains r bm s' where
    "if_flash_read F (fh_flash hdl) (fh_addr hdl + 8) buf (ucast bs) s = Some (r, bm, s')"
    "r = ucast bs \<or> r = 0" "store_frame ok dsize mem (fh_flash hdl) 0 0 s s'"
    "r = ucast bs \<longrightarrow> bm = content_read (mem (fh_flash hdl) s) (unat (fh_addr hdl) + 8) (unat bs)"
proof -
  have bound: "unat (fh_addr hdl) + 8 + unat bs < 4294967296"
    using assms(2,3) dsize_bound [of "fh_flash hdl" s] by (simp add: fdcm_area_def)
  have a8: "unat (fh_addr hdl + 8) = unat (fh_addr hdl) + 8"
    using unat_add_const [of "fh_addr hdl" 8] bound by simp
  have "(ucast bs :: u32) \<noteq> 0" using assms(4) using unat_ucast_u16_u32 [of bs] unat_eq_zero [of bs]
    by (metis unat_0)
  then show ?thesis
    using read_law [OF assms(1), of "ucast bs" buf "fh_addr hdl + 8"] bound a8 assms(5) that by auto
qed

lemma fdcm_write_law:
  assumes ok: "ok (fh_flash hdl) s" and area: "fdcm_area hdl (dsize (fh_flash hdl) s)"
    and data: "unat ds \<le> length data"
    and h: "h = fdcm_header_of_bytes (content_read (mem (fh_flash hdl) s) (unat (fh_addr hdl)) 8)"
    and small: "header_invalid h ds (fh_size hdl) \<or> unat (bitmap_size h) \<le> 1024"
    and k: "k = fdcm_bit_count (content_read (mem (fh_flash hdl) s) (unat (fh_addr hdl) + 8)
                  (unat (bitmap_size h)))"
    and room: "room \<longleftrightarrow> \<not> header_invalid h ds (fh_size hdl) \<and> unat k < 8 * unat (bitmap_size h) \<and>
                 8 + unat (bitmap_size h) + unat ds * (unat k + 1) \<le> unat (fh_size hdl)"
  shows "\<exists>r s'. rom_fdcm_write F (Some hdl) (Some data) ds s = Some (r, s') \<and>
     (r = ucast ds \<or> r = 0) \<and>
     store_frame ok dsize mem (fh_flash hdl) (unat (fh_addr hdl)) (unat (fh_size hdl)) s s' \<and>
     (r \<noteq> 0 \<longrightarrow> (if room
        then mem (fh_flash hdl) s' = nor_program
               (nor_program (mem (fh_flash hdl) s) (unat (fh_addr hdl) + 8 + unat k div 8)
                  [mem (fh_flash hdl) s (unat (fh_addr hdl) + 8 + unat k div 8)
                     AND NOT (push_bit (unat k mod 8) 1)])
               (unat (fh_addr hdl) + 8 + unat (bitmap_size h) + unat ds * unat k)
               (take (unat ds) data)
        else fdcm_bitmap_size (fh_size hdl) ds \<noteq> 0 \<longrightarrow>
          fdcm_holds (mem (fh_flash hdl) s') (unat (fh_addr hdl)) (unat (fh_size hdl))
            (fdcm_bitmap_size (fh_size hdl) ds) ds [take (unat ds) data]))"
proof -
  let ?fl = "fh_flash hdl" and ?a = "fh_addr hdl" and ?n = "fh_size hdl" and ?bs = "bitmap_size h"
  let ?fr = "store_frame ok dsize mem ?fl (unat ?a) (unat ?n)"
  let ?keep = "store_frame ok dsize mem ?fl 0 0"
  have bound: "unat ?a + unat ?n \<le> dsize ?fl s" "4096 \<le> unat ?n" "dsize ?fl s < 4294967296"
    using area dsize_bound by (auto simp: fdcm_area_def)
  have up: "?fr s s'" if "?keep s s'" for s' using that by (rule store_frame_none)
  have carry: "ok ?fl s'" "fdcm_area hdl (dsize ?fl s')" "mem ?fl s' = mem ?fl s" if "?keep s s'" for s'
    using that ok area by (simp_all add: store_frame_ok store_frame_dsize store_frame_mem_none)
  obtain r hb s1 where R: "if_flash_read F ?fl ?a (replicate 8 0) 8 s = Some (r, hb, s1)"
    "r = 8 \<or> r = 0" "?keep s s1" "r = 8 \<longrightarrow> hb = content_read (mem ?fl s) (unat ?a) 8"
    using fdcm_read_header [OF ok area] by blast
  have rewrite: ?thesis
    if f: "?keep s s2" and eq: "rom_fdcm_write F (Some hdl) (Some data) ds s = fdcm_rewrite F hdl data ds s2"
      and nr: "\<not> room" for s2
  proof -
    obtain r s' where w: "fdcm_rewrite F hdl data ds s2 = Some (r, s')" "r = ucast ds \<or> r = 0"
      and f': "?fr s2 s'" and p: "r \<noteq> 0 \<and> fdcm_bitmap_size ?n ds \<noteq> 0 \<longrightarrow>
        fdcm_holds (mem ?fl s') (unat ?a) (unat ?n) (fdcm_bitmap_size ?n ds) ds [take (unat ds) data]"
      using fdcm_rewrite_law [OF carry(1,2) [OF f] data] by blast
    have fr: "?fr s s'" using up [OF f] f' by (rule store_frame_trans)
    show ?thesis
      unfolding eq if_not_P [OF nr]
    proof (intro exI conjI impI)
      show "fdcm_rewrite F hdl data ds s2 = Some (r, s')" by (rule w)
      show "r = ucast ds \<or> r = 0" by (rule w)
      show "?fr s s'" by (rule fr)
      show "fdcm_holds (mem ?fl s') (unat ?a) (unat ?n) (fdcm_bitmap_size ?n ds) ds [take (unat ds) data]"
        if "r \<noteq> 0" "fdcm_bitmap_size ?n ds \<noteq> 0"
        using p that by (rule mp [OF _ conjI])
    qed
  qed
  consider (noread) "r = 0" | (bad) "r = 8" "header_invalid h ds ?n"
    | (good) "r = 8" "\<not> header_invalid h ds ?n" "unat ?bs \<le> 1024"
    using R(2) small by auto
  then show ?thesis
  proof cases
    case noread
    with R up show ?thesis by (simp add: rom_fdcm_write_def)
  next
    case bad
    show ?thesis
      by (rule rewrite [OF R(3)]) (use bad R h room in \<open>simp_all add: rom_fdcm_write_def\<close>)
  next
    case good
    note hv = header_valid_size [OF good(2,3)]
    let ?left = "?n - 8 - ucast ?bs"
    show ?thesis
    proof (cases "(ucast ds :: u32) > ?left")
      case True
      with good R h up show ?thesis by (simp add: rom_fdcm_write_def)
    next
      case fits: False
      obtain p s2 where M: "if_malloc F (unat ?bs) s1 = (p, s2)" by force
      note ml = malloc_law [OF M, of ?fl]
      have f2: "?keep s s2" using R(3) ml by (blast intro: store_frame_trans)
      have hh: "fdcm_header_of_bytes hb = h" using R(4) good(1) h by simp
      show ?thesis
      proof (cases p)
        case None
        with good R(1) hh up fits M f2 show ?thesis by (simp add: rom_fdcm_write_def)
      next
        case (Some buf)
        with ml have len: "length buf = unat ?bs" by simp
        obtain rb bm s3 where B: "if_flash_read F ?fl (?a + 8) buf (ucast ?bs) s2 = Some (rb, bm, s3)"
          "rb = ucast ?bs \<or> rb = 0" "?keep s2 s3"
          "rb = ucast ?bs \<longrightarrow> bm = content_read (mem ?fl s2) (unat ?a + 8) (unat ?bs)"
          using fdcm_read_bitmap [OF carry(1,2) [OF f2] good(3) hv(2) len] by blast
        have f3: "?keep s s3" using f2 B(3) by (rule store_frame_trans)
        show ?thesis
        proof (cases "rb = ucast ?bs")
          case False
          with good R(1) hh up fits M B Some f3 show ?thesis by (simp add: rom_fdcm_write_def)
        next
          case True
          then have bm: "bm = content_read (mem ?fl s) (unat ?a + 8) (unat ?bs)"
            using B(4) carry(3) [OF f2] by simp
          then have kb: "fdcm_bit_count (take (unat ?bs) bm) = k" by (simp add: k)
          note step = good R(1) hh fits M B(1) Some True kb
          have full_iff: "\<not> (k \<ge> 8 * ucast ?bs \<or> 8 + ucast ?bs + ucast ds * (k + 1) > ?n) \<longleftrightarrow> room"
          proof -
            have "unat (8 * ucast ?bs :: u32) = 8 * unat ?bs"
              using unat_mult_no_wrap [of 8 "ucast ?bs :: u32"] good(3) by simp
            then have 1: "k \<ge> 8 * ucast ?bs \<longleftrightarrow> \<not> unat k < 8 * unat ?bs"
              by (simp add: word_le_nat_alt not_less)
            show ?thesis
            proof (cases "unat k < 8 * unat ?bs")
              case True
              then have "unat (k + 1) = unat k + 1" by (intro unat_Suc_u32) (use good(3) in simp)
              then have "unat (8 + ucast ?bs + ucast ds * (k + 1)) = 8 + unat ?bs + unat ds * (unat k + 1)"
                using slot_offset(2) [OF good(3), of "k + 1" ds] good(3) True by simp
              then show ?thesis using good 1 True by (simp add: room word_less_nat_alt not_less)
            qed (use 1 room in simp)
          qed
          show ?thesis
          proof (cases room)
            case False
            show ?thesis
            proof (rule rewrite [OF f3 _ False])
              show "rom_fdcm_write F (Some hdl) (Some data) ds s = fdcm_rewrite F hdl data ds s3"
                using step False full_iff by (simp add: rom_fdcm_write_def)
            qed
          next
            case True
            let ?i = "unat k div 8" and ?a2 = "?a + 8 + ucast ?bs + ucast ds * k"
            let ?b = "mem ?fl s (unat ?a + 8 + ?i) AND NOT (push_bit (unat k mod 8) 1)"
            have kb8: "unat k < 8 * unat ?bs" and rm: "8 + unat ?bs + unat ds * (unat k + 1) \<le> unat ?n"
              using True room by auto
            have i: "?i < unat ?bs" "unat (k div 8) = ?i" "unat (k mod 8) = unat k mod 8"
              using kb8 by (simp_all add: unat_div unat_mod less_mult_imp_div_less)
            have ai: "unat (?a + 8 + k div 8) = unat ?a + 8 + ?i"
            proof -
              have "unat (?a + 8) = unat ?a + 8" using unat_add_const [of ?a 8] bound by simp
              then show ?thesis by (subst unat_add_const) (use i bound good(3) in simp_all)
            qed
            have a2: "unat ?a2 = unat ?a + (8 + unat ?bs + unat ds * unat k)"
            proof -
              have "unat (8 + ucast ?bs + ucast ds * k) = 8 + unat ?bs + unat ds * unat k"
                by (rule slot_offset) (use good(3) kb8 in simp_all)
              moreover have "?a2 = ?a + (8 + ucast ?bs + ucast ds * k)" by (simp add: add.assoc)
              ultimately show ?thesis using rm bound by (subst \<open>?a2 = _\<close>, subst unat_add_const) simp_all
            qed
            have bi: "bm ! ?i = mem ?fl s (unat ?a + 8 + ?i)" using i by (simp add: bm)
            obtain w s4 where W: "if_flash_write F ?fl (?a + 8 + k div 8) [?b] 1 s3 = Some (w, s4)"
              "w = 1 \<or> w = 0" "store_frame ok dsize mem ?fl (unat ?a + 8 + ?i) 1 s3 s4"
              "w = 1 \<longrightarrow> mem ?fl s4 = nor_program (mem ?fl s) (unat ?a + 8 + ?i) [?b]"
              using write_law [OF carry(1) [OF f3], of 1 "[?b]" "?a + 8 + k div 8"] ai bound i good(3)
                carry(3) [OF f3] by auto
            have f4: "?fr s s4"
              by (rule store_frame_trans [OF up [OF f3]], rule store_frame_mono [OF W(3)])
                (use i good(3) bound in auto)
            obtain v s5 where V: "if_flash_write F ?fl ?a2 data (ucast ds) s4 = Some (v, s5)"
              "v = ucast ds \<or> v = 0"
              "store_frame ok dsize mem ?fl (unat ?a + (8 + unat ?bs + unat ds * unat k)) (unat ds) s4 s5"
              "v = ucast ds \<longrightarrow> mem ?fl s5 = nor_program (mem ?fl s4)
                 (unat ?a + (8 + unat ?bs + unat ds * unat k)) (take (unat ds) data)"
              using write_law [OF store_frame_ok [OF f4 ok], of "ucast ds" data ?a2] a2 rm bound data by auto
            have f5: "?fr s s5"
              by (rule store_frame_trans [OF f4], rule store_frame_mono [OF V(3)]) (use rm in auto)
            have nf: "\<not> (k \<ge> 8 * ucast ?bs \<or> 8 + ucast ?bs + ucast ds * (k + 1) > ?n)"
              using True full_iff by blast
            have W1: "if_flash_write F ?fl (?a + 8 + k div 8)
                [bm ! unat (k div 8) AND NOT (push_bit (unat (k mod 8)) 1)] 1 s3 = Some (w, s4)"
              using W(1) bi i by simp
            show ?thesis
            proof (cases "w = 1")
              case False
              then have "rom_fdcm_write F (Some hdl) (Some data) ds s = Some (0, s4)"
                using step nf W1 by (simp add: rom_fdcm_write_def)
              then show ?thesis using f4 by simp
            next
              case w: True
              then have "rom_fdcm_write F (Some hdl) (Some data) ds s = Some (v, s5)"
                using step nf W1 V(1) by (simp add: rom_fdcm_write_def)
              then show ?thesis using f5 V(2,4) W(4) w True by (auto simp: add.assoc)
            qed
          qed
        qed
      qed
    qed
  qed
qed

text \<open>What a history fixes of the header and of the counted bits.\<close>

lemma holds_header:
  assumes "fdcm_holds m a (unat sz) bs ds recs"
    and h: "h = fdcm_header_of_bytes (content_read m a 8)"
  shows "h = \<lparr>id_code = FDCM_ID_CODE, bitmap_size = bs, data_size = ds\<rparr>"
    and "\<not> header_invalid h ds sz" and "unat bs \<le> 1024"
    and "unat (fdcm_bit_count (content_read m (a + 8) (unat bs))) = length recs"
proof -
  note H = assms(1) [unfolded fdcm_holds_def slot_base_def]
  show heq: "h = \<lparr>id_code = FDCM_ID_CODE, bitmap_size = bs, data_size = ds\<rparr>" using H h by simp
  show b: "unat bs \<le> 1024" using H by (simp add: word_le_nat_alt)
  have "unat (ucast bs + 8 :: u32) = unat bs + 8"
    using unat_add_const [of "ucast bs" 8] b by simp
  moreover have "0 < unat ds * length recs" using H by (simp add: unat_gt_0)
  then have "unat bs + 8 < unat sz" using H by linarith
  ultimately show "\<not> header_invalid h ds sz"
    using H by (simp add: header_invalid_def heq not_le word_less_nat_alt)
  have "length recs \<le> 8192" using H b by linarith
  then show "unat (fdcm_bit_count (content_read m (a + 8) (unat bs))) = length recs"
    using H by (simp add: bit_count_bitmap_of unat_of_nat)
qed

lemma fdcm_append_law:
  assumes ok: "ok (fh_flash hdl) s" and area: "fdcm_area hdl (dsize (fh_flash hdl) s)"
    and data: "length x = unat ds"
    and holds: "fdcm_holds (mem (fh_flash hdl) s) (unat (fh_addr hdl)) (unat (fh_size hdl)) bs ds recs"
  shows "\<exists>r s'. rom_fdcm_write F (Some hdl) (Some x) ds s = Some (r, s') \<and>
     (r = ucast ds \<or> r = 0) \<and>
     store_frame ok dsize mem (fh_flash hdl) (unat (fh_addr hdl)) (unat (fh_size hdl)) s s' \<and>
     (r \<noteq> 0 \<longrightarrow>
       (if length recs < 8 * unat bs \<and>
           slot_base (unat bs) + unat ds * (length recs + 1) \<le> unat (fh_size hdl)
        then fdcm_holds (mem (fh_flash hdl) s') (unat (fh_addr hdl)) (unat (fh_size hdl)) bs ds (recs @ [x])
        else fdcm_bitmap_size (fh_size hdl) ds \<noteq> 0 \<longrightarrow>
          fdcm_holds (mem (fh_flash hdl) s') (unat (fh_addr hdl)) (unat (fh_size hdl))
            (fdcm_bitmap_size (fh_size hdl) ds) ds [x]))"
proof -
  let ?m = "mem (fh_flash hdl) s" and ?a = "unat (fh_addr hdl)" and ?k = "length recs"
  define h where "h = fdcm_header_of_bytes (content_read ?m ?a 8)"
  note hh = holds_header [OF holds h_def]
  define k where "k = fdcm_bit_count (content_read ?m (?a + 8) (unat (bitmap_size h)))"
  have k: "unat k = ?k" using hh by (simp add: k_def)
  have bm: "?m (?a + 8 + ?k div 8) = bitmap_of (unat bs) ?k ! (?k div 8)" if "?k < 8 * unat bs"
  proof -
    have "?k div 8 < unat bs" using that by linarith
    then show ?thesis using holds by (metis fdcm_holds_def nth_content_read)
  qed
  define room where "room \<longleftrightarrow> \<not> header_invalid h ds (fh_size hdl) \<and>
    unat k < 8 * unat (bitmap_size h) \<and>
    8 + unat (bitmap_size h) + unat ds * (unat k + 1) \<le> unat (fh_size hdl)"
  have room: "room \<longleftrightarrow> ?k < 8 * unat bs \<and> slot_base (unat bs) + unat ds * (?k + 1) \<le> unat (fh_size hdl)"
    using hh k by (simp add: room_def slot_base_def)
  obtain r s' where W: "rom_fdcm_write F (Some hdl) (Some x) ds s = Some (r, s')"
    "r = ucast ds \<or> r = 0"
    "store_frame ok dsize mem (fh_flash hdl) ?a (unat (fh_size hdl)) s s'"
    "r \<noteq> 0 \<longrightarrow> (if room
        then mem (fh_flash hdl) s' = nor_program
               (nor_program ?m (?a + 8 + unat k div 8)
                  [?m (?a + 8 + unat k div 8) AND NOT (push_bit (unat k mod 8) 1)])
               (?a + 8 + unat (bitmap_size h) + unat ds * unat k) (take (unat ds) x)
        else fdcm_bitmap_size (fh_size hdl) ds \<noteq> 0 \<longrightarrow>
          fdcm_holds (mem (fh_flash hdl) s') ?a (unat (fh_size hdl))
            (fdcm_bitmap_size (fh_size hdl) ds) ds [take (unat ds) x])"
    using fdcm_write_law [OF ok area _ h_def _ k_def room_def, of x] hh data by auto
  have app: "fdcm_holds (mem (fh_flash hdl) s') ?a (unat (fh_size hdl)) bs ds (recs @ [x])"
    if "r \<noteq> 0" room
  proof -
    have "mem (fh_flash hdl) s' = nor_program
       (nor_program ?m (?a + 8 + ?k div 8)
          [bitmap_of (unat bs) ?k ! (?k div 8) AND NOT (push_bit (?k mod 8) 1)])
       (?a + slot_base (unat bs) + unat ds * ?k) x"
      using W(4) that hh(1) k bm data room by (simp add: slot_base_def add.assoc)
    then show ?thesis
      using holds_after_append [OF holds data _ _ refl] that(2) room by simp
  qed
  show ?thesis
    using W app data unfolding room [symmetric] by (intro exI [of _ r] exI [of _ s']) auto
qed

lemma fdcm_read_law:
  assumes ok: "ok (fh_flash hdl) s" and area: "fdcm_area hdl (dsize (fh_flash hdl) s)"
    and data: "unat ds \<le> length buf"
    and holds: "fdcm_holds (mem (fh_flash hdl) s) (unat (fh_addr hdl)) (unat (fh_size hdl)) bs ds recs"
  shows "\<exists>r buf' s'. rom_fdcm_read F (Some hdl) (Some buf) ds s = Some (r, Some buf', s') \<and>
     (r = ucast ds \<or> r = 0) \<and> store_frame ok dsize mem (fh_flash hdl) 0 0 s s' \<and>
     (r \<noteq> 0 \<longrightarrow> buf' = last recs @ drop (unat ds) buf)"
proof -
  let ?fl = "fh_flash hdl" and ?a = "fh_addr hdl" and ?n = "fh_size hdl" and ?k = "length recs"
  let ?keep = "store_frame ok dsize mem ?fl 0 0"
  have bound: "unat ?a + unat ?n \<le> dsize ?fl s" "4096 \<le> unat ?n" "dsize ?fl s < 4294967296"
    using area dsize_bound by (auto simp: fdcm_area_def)
  have carry: "ok ?fl s'" "fdcm_area hdl (dsize ?fl s')" "mem ?fl s' = mem ?fl s" if "?keep s s'" for s'
    using that ok area by (simp_all add: store_frame_ok store_frame_dsize store_frame_mem_none)
  define h where "h = fdcm_header_of_bytes (content_read (mem ?fl s) (unat ?a) 8)"
  note hh = holds_header [OF holds h_def]
  note H = holds [unfolded fdcm_holds_def slot_base_def]
  obtain r hb s1 where R: "if_flash_read F ?fl ?a (replicate 8 0) 8 s = Some (r, hb, s1)"
    "r = 8 \<or> r = 0" "?keep s s1" "r = 8 \<longrightarrow> hb = content_read (mem ?fl s) (unat ?a) 8"
    using fdcm_read_header [OF ok area] by blast
  have hb: "r = 8 \<Longrightarrow> fdcm_header_of_bytes hb = h" using R(4) by (simp add: h_def)
  obtain p s2 where M: "if_malloc F (unat bs) s1 = (p, s2)" by force
  note ml = malloc_law [OF M, of ?fl]
  have f2: "?keep s s2" using R(3) ml by (blast intro: store_frame_trans)
  consider "r = 0" | "r = 8" "p = None" | buf2 where "r = 8" "p = Some buf2" using R(2) by fastforce
  then show ?thesis
  proof cases
    case 1
    with R show ?thesis by (simp add: rom_fdcm_read_def)
  next
    case 2
    with R(1) hb hh(1,2) M f2 show ?thesis by (simp add: rom_fdcm_read_def)
  next
    case 3
    then have len: "length buf2 = unat bs" using ml by simp
    have bs0: "bs \<noteq> 0" using H by simp
    obtain rb bm s3 where B: "if_flash_read F ?fl (?a + 8) buf2 (ucast bs) s2 = Some (rb, bm, s3)"
      "rb = ucast bs \<or> rb = 0" "?keep s2 s3"
      "rb = ucast bs \<longrightarrow> bm = content_read (mem ?fl s2) (unat ?a + 8) (unat bs)"
      using fdcm_read_bitmap [OF carry(1,2) [OF f2] hh(3) bs0 len] by blast
    have f3: "?keep s s3" using f2 B(3) by (rule store_frame_trans)
    show ?thesis
    proof (cases "rb = ucast bs")
      case False
      with R(1) hb hh(1,2) M 3 B(1) f3 show ?thesis by (simp add: rom_fdcm_read_def)
    next
      case True
      define k where "k = fdcm_bit_count (take (unat bs) bm)"
      have k: "unat k = ?k" using B(4) True carry(3) [OF f2] hh(4) by (simp add: k_def)
      let ?a2 = "?a + 8 + (ucast bs + ucast ds * (k - 1))"
      obtain r4 buf' s4 where D: "if_flash_read F ?fl ?a2 buf (ucast ds) s3 = Some (r4, buf', s4)"
        "r4 = ucast ds \<or> r4 = 0" "?keep s3 s4"
        "r4 = ucast ds \<and> ds \<noteq> 0 \<and> unat ?a2 + unat ds < 4294967296 \<longrightarrow>
           buf' = content_read (mem ?fl s3) (unat ?a2) (unat ds) @ drop (unat ds) buf"
        using read_law [OF carry(1) [OF f3], of "ucast ds" buf ?a2] data
        by (auto simp: unat_eq_zero simp flip: unat_eq_zero [of "ucast ds :: u32"])
      have pos: "0 < ?k" "?k \<le> 8192" using H hh(3) by (auto simp: word_le_nat_alt)
      have k1: "unat (k - 1) = ?k - 1"
        using unat_sub [of 1 k] k pos by (simp add: word_le_nat_alt)
      have "unat (8 + ucast bs + ucast ds * (k - 1)) = 8 + unat bs + unat ds * (?k - 1)"
        using slot_offset(2) [OF hh(3), of "k - 1" ds] k1 pos by simp
      moreover have "?a2 = ?a + (8 + ucast bs + ucast ds * (k - 1))" by (simp add: add.assoc)
      moreover have mk: "unat ds * (?k - 1) + unat ds = unat ds * ?k"
        using pos by (cases ?k) simp_all
      ultimately have a2: "unat ?a2 = unat ?a + (8 + unat bs + unat ds * (?k - 1))"
        using H bound unat_add_const [of ?a "8 + ucast bs + ucast ds * (k - 1)"]
        by (simp add: add.assoc)
      have "content_read (mem ?fl s) (unat ?a2) (unat ds) = recs ! (?k - 1)"
        unfolding a2 using H pos by (simp add: add.assoc)
      also have "\<dots> = last recs" using H by (simp add: last_conv_nth)
      finally have cr: "content_read (mem ?fl s3) (unat ?a2) (unat ds) = last recs"
        using carry(3) [OF f3] by simp
      have "unat ?a2 + unat ds < 4294967296" using a2 mk H bound by simp
      moreover have "ds \<noteq> 0" using H by simp
      ultimately have post: "r4 \<noteq> 0 \<longrightarrow> buf' = last recs @ drop (unat ds) buf"
        using D(2,4) cr by auto
      have "rom_fdcm_read F (Some hdl) (Some buf) ds s = Some (r4, Some buf', s4)"
        using R(1) hb hh(1,2) M 3 B(1) True D(1) by (simp add: rom_fdcm_read_def flip: k_def)
      then show ?thesis using D(2) post store_frame_trans [OF f3 D(3)] by simp
    qed
  qed
qed

text \<open>
  The first write to an area without a usable header starts a history.  The header is the one
  a later write sees, so the area is erased and holds the chunk alone.
\<close>

lemma fdcm_first_write_law:
  assumes ok: "ok (fh_flash hdl) s" and area: "fdcm_area hdl (dsize (fh_flash hdl) s)"
    and data: "length x = unat ds" and bms: "fdcm_bitmap_size (fh_size hdl) ds \<noteq> 0"
    and fresh: "header_invalid (fdcm_header_of_bytes
                  (content_read (mem (fh_flash hdl) s) (unat (fh_addr hdl)) 8)) ds (fh_size hdl)"
  shows "\<exists>r s'. rom_fdcm_write F (Some hdl) (Some x) ds s = Some (r, s') \<and>
     (r = ucast ds \<or> r = 0) \<and>
     store_frame ok dsize mem (fh_flash hdl) (unat (fh_addr hdl)) (unat (fh_size hdl)) s s' \<and>
     (r \<noteq> 0 \<longrightarrow> fdcm_holds (mem (fh_flash hdl) s') (unat (fh_addr hdl)) (unat (fh_size hdl))
                  (fdcm_bitmap_size (fh_size hdl) ds) ds [x])"
  using fdcm_write_law [OF ok area _ refl _ refl refl, of ds x] fresh data bms by auto

text \<open>Opening checks that the area is made of erase blocks, so it is at least one block long.\<close>

lemma fdcm_open_law:
  assumes "ok fl s"
  shows "\<exists>h s'. rom_fdcm_open F fl a n s = Some (h, s') \<and> store_frame ok dsize mem fl 0 0 s s' \<and>
     (\<forall>hdl. h = Some hdl \<longrightarrow> hdl = \<lparr>fh_flash = fl, fh_addr = a, fh_size = n\<rparr> \<and>
        4096 \<le> unat n \<and> 4096 dvd unat a \<and> 4096 dvd unat n)"
proof -
  obtain r where r: "if_flash_get_erase_block F fl a n s = Some r"
    "r < 0 \<or> r \<in> {65536, 32768, 4096} \<and> nat r dvd unat a \<and> nat r dvd unat n \<and> n \<noteq> 0"
    using block_law [OF assms] by blast
  have big: "4096 dvd unat a" "4096 dvd unat n" "4096 \<le> unat n" if "\<not> r < 0"
  proof -
    from r(2) that have d: "nat r dvd unat a" "nat r dvd unat n" "0 < unat n" "4096 dvd nat r"
      by (auto simp: unat_gt_0)
    show "4096 dvd unat a" "4096 dvd unat n" using d by (auto intro: dvd_trans)
    then show "4096 \<le> unat n" using d(3) by (simp add: dvd_imp_le)
  qed
  obtain p s1 where m: "if_malloc F 12 s = (p, s1)" by force
  show ?thesis
    using r(1) big m malloc_law [OF m, of fl]
    by (cases p) (auto simp: rom_fdcm_open_def)
qed

lemma fdcm_erase_law:
  assumes ok: "ok (fh_flash hdl) s" and area: "fdcm_area hdl (dsize (fh_flash hdl) s)"
  shows "\<exists>r s'. fdcm_erase F (Some hdl) s = Some (r, s') \<and> (r = 0 \<or> r = - 1) \<and>
     store_frame ok dsize mem (fh_flash hdl) (unat (fh_addr hdl)) (unat (fh_size hdl)) s s' \<and>
     (r = 0 \<longrightarrow> erased (mem (fh_flash hdl) s') (unat (fh_addr hdl)) (unat (fh_size hdl)))"
proof -
  have "unat (fh_addr hdl) + unat (fh_size hdl) \<le> dsize (fh_flash hdl) s"
    using area by (simp add: fdcm_area_def)
  then show ?thesis
    using erase_law [OF ok, of "fh_addr hdl" "fh_size hdl"] erased_nor_erase
    by (auto simp: fdcm_erase_def)
qed

end

text \<open>An erased area has no usable header.\<close>

lemma u32_of_erased: "u32_of_bytes (replicate 8 0xFF) = 0xFFFFFFFF"
  by code_simp

lemma erased_header_invalid:
  assumes "erased m a n" "8 \<le> n"
  shows "header_invalid (fdcm_header_of_bytes (content_read m a 8)) ds sz"
proof -
  have "content_read m a 8 = replicate 8 0xFF"
    using assms by (intro nth_equalityI) (auto simp: erased_def)
  then have "id_code (fdcm_header_of_bytes (content_read m a 8)) = 0xFFFFFFFF"
    by (simp only: fdcm_header_of_bytes_def fdcm_header.simps u32_of_erased)
  then show ?thesis by (simp add: header_invalid_def FDCM_ID_CODE_def)
qed

text \<open>The bitmap size fits its field in every area of at most 512 KB.\<close>

lemma bitmap_size_nonzero:
  assumes "ds \<noteq> 0" "9 \<le> unat sz" "unat sz \<le> 524288"
  shows "fdcm_bitmap_size sz ds \<noteq> 0"
proof -
  have d: "0 < unat ds" using assms by (simp add: unat_gt_0)
  have "unat ds \<le> 65535" using unat_u16_bound [of ds] by linarith
  then have "unat (ucast ds * 8 + 1 :: u32) = unat ds * 8 + 1"
    using unat_mult_no_wrap [of "ucast ds :: u32" 8] unat_add_const [of "ucast ds * 8" 1] by simp
  moreover have s: "unat (sz - 8 - 1) = unat sz - 9"
  proof -
    have "sz - 8 - 1 = sz - 9" by simp
    then show ?thesis using unat_sub [of 9 sz] assms by (simp add: word_le_nat_alt)
  qed
  moreover have q: "(unat sz - 9) div (unat ds * 8 + 1) < 65535"
  proof -
    have "(unat sz - 9) div (unat ds * 8 + 1) \<le> (unat sz - 9) div 9"
      using d by (intro div_le_mono2) auto
    also have "\<dots> < 65535" using assms by (simp add: less_mult_imp_div_less)
    finally show ?thesis .
  qed
  ultimately have u: "unat ((sz - 8 - 1) div (ucast ds * 8 + 1) + 1)
       = (unat sz - 9) div (unat ds * 8 + 1) + 1"
    by (subst unat_add_const) (simp_all add: unat_div)
  have "unat (ucast ((sz - 8 - 1) div (ucast ds * 8 + 1) + 1) :: u16)
       = (unat sz - 9) div (unat ds * 8 + 1) + 1"
    using u q by (simp add: unsigned_ucast_eq take_bit_nat_eq_self)
  then have "(ucast ((sz - 8 - 1) div (ucast ds * 8 + 1) + 1) :: u16) \<noteq> 0"
    by (metis add_is_0 one_neq_zero unat_0)
  then show ?thesis by (simp add: fdcm_bitmap_size_def Let_def)
qed

end
