(* ===== verification/Image_Spec.thy ===== *)
theory Image_Spec
  imports Image Fdcm_Spec
begin

text \<open>
  What the image module guarantees over the flash interface: the section checksum is the
  16-bit sum of the section's contents, whatever the buffer the check reads it through; a
  check that says valid has seen a chain of intact sections; the address cache stays inside
  its arrays and tells the truth about the flash; the boot configuration that was stored is
  the one that is read back.
\<close>

section \<open>The checksum\<close>

fun sum16 :: "u8 list \<Rightarrow> u16" where
  "sum16 (a # b # bs) = u16_of_bytes [a, b] + sum16 bs"
| "sum16 [b] = ucast b"
| "sum16 [] = 0"

lemma halves_of_u32:
  "ucast (u32_of_bytes [a, b, c, d]) = u16_of_bytes [a, b]"
  "ucast (drop_bit 16 (u32_of_bytes [a, b, c, d])) = u16_of_bytes [c, d]"
proof -
  show "ucast (u32_of_bytes [a, b, c, d]) = u16_of_bytes [a, b]"
    by (rule bit_word_eqI) (auto simp: u32_of_bytes_def u16_of_bytes_def bit_simps)
  show "ucast (drop_bit 16 (u32_of_bytes [a, b, c, d])) = u16_of_bytes [c, d]"
  proof (rule bit_word_eqI)
    fix n assume "n < LENGTH(16)"
    then show "bit (ucast (drop_bit 16 (u32_of_bytes [a, b, c, d])) :: u16) n = bit (u16_of_bytes [c, d]) n"
      by (cases "n < 8") (auto simp: u32_of_bytes_def u16_of_bytes_def bit_simps dest: bit_imp_le_length)
  qed
qed

lemma checksum_bytes_sum16: "checksum_bytes c bs = c + sum16 bs"
  by (induction c bs rule: checksum_bytes.induct) (simp_all add: halves_of_u32 Let_def ac_simps)

lemma checksum16_sum16: "rom_image_checksum16 data len = sum16 (take (unat len) data)"
  by (simp add: rom_image_checksum16_def checksum_bytes_sum16)

lemma sum16_append: "even (length xs) \<Longrightarrow> sum16 (xs @ ys) = sum16 xs + sum16 ys"
  by (induction xs rule: sum16.induct) (simp_all add: ac_simps)

lemma sum16_append_odd:
  "odd (length xs) \<Longrightarrow> sum16 (xs @ y # ys) = sum16 (butlast xs) + u16_of_bytes [last xs, y] + sum16 ys"
proof -
  assume odd: "odd (length xs)"
  then have ne: "xs \<noteq> []" by auto
  then have "xs @ y # ys = butlast xs @ last xs # y # ys" by simp
  moreover have "even (length (butlast xs))" using odd ne by simp
  ultimately show ?thesis by (metis add.assoc sum16.simps(1) sum16_append)
qed

lemma checksum16_two [simp]: "rom_image_checksum16 [a, b] 2 = u16_of_bytes [a, b]"
  by (simp add: checksum16_sum16)

lemma even_and_1: "(x :: u32) AND 1 = 0 \<longleftrightarrow> even (unat x)"
proof -
  have "unat (x AND 1) = unat x mod 2" by (simp add: and_one_eq unat_mod)
  then show ?thesis by (metis even_iff_mod_2_eq_zero unat_eq_zero)
qed

text \<open>The joint of an odd body and its tailer is summed as in the concatenation.\<close>

lemma check_data_sum:
  assumes "length body = unat blen" "length tail = unat tlen" "blen \<noteq> 0"
  shows "image_check_data (Some h) (Some body) blen (Some tail) tlen =
    Some (if data_chksum (section_header_of_bytes h) + sum16 (body @ tail) = 0xFFFF
          then IMAGE_VALID else IMAGE_INVALID)"
proof (cases "tlen = 0 \<or> even (unat blen)")
  case True
  then show ?thesis
    using assms by (auto simp: image_check_data_def Let_def checksum16_sum16 even_and_1 sum16_append add.assoc)
next
  case False
  then obtain t ts where t: "tail = t # ts"
    using assms by (cases tail) (auto simp: unat_eq_zero)
  have l1: "unat (tlen - 1) = length ts" "unat (blen - 1) = length body - 1"
    using assms t False by (simp_all add: unat_minus_one flip: unat_eq_zero)
  have "body \<noteq> []" using False assms by auto
  then have "take (length body - 1) body = butlast body" "body ! (unat blen - 1) = last body"
    using assms by (simp_all add: butlast_conv_take last_conv_nth)
  then show ?thesis
    using False assms l1 t even_and_1 [of blen]
    by (simp add: image_check_data_def Let_def checksum16_sum16 sum16_append_odd add.assoc)
qed

section \<open>Reading and checking sections\<close>

context flash_store
begin

lemma read_local_law:
  assumes "ok fl s" "n < 4294967296" "n \<noteq> 0"
  obtains r s' where "read_local F fl a n s = Some (r, s')" "store_frame ok dsize mem fl 0 0 s s'"
    "\<forall>b. r = Some b \<longrightarrow> length b = n \<and>
       (unat a + n < 4294967296 \<longrightarrow> b = content_read (mem fl s) (unat a) n)"
proof -
  have n: "unat (of_nat n :: u32) = n" using assms(2) by (simp add: unat_of_nat)
  then have nz: "(of_nat n :: u32) \<noteq> 0" using assms(3) by auto
  obtain r b s' where R: "if_flash_read F fl a (replicate n 0) (of_nat n) s = Some (r, b, s')"
    "store_frame ok dsize mem fl 0 0 s s'" "length b = n"
    "r = of_nat n \<and> unat a + n < 4294967296 \<longrightarrow> b = content_read (mem fl s) (unat a) n"
    using read_law [OF assms(1), of "of_nat n" "replicate n 0" a] n nz by auto
  show ?thesis
    by (rule that [of "if r \<noteq> of_nat n then None else Some b" s'])
      (use R in \<open>simp_all add: read_local_def\<close>)
qed

lemma section_sum_law:
  assumes "ok fl s" "unat blen \<le> length buf" "blen \<noteq> 0"
  shows "\<exists>r buf' s'. section_sum F fl a buf blen sz chk s = Some (r, buf', s') \<and>
     store_frame ok dsize mem fl 0 0 s s' \<and> length buf' = length buf \<and>
     (\<forall>c. r = Some c \<and> even (unat blen) \<and> unat a + unat sz < 4294967296 \<longrightarrow>
        c = chk + sum16 (content_read (mem fl s) (unat a) (unat sz)))"
  using assms
proof (induction "unat sz" arbitrary: sz a buf chk s rule: less_induct)
  case less
  show ?case
  proof (cases "sz = 0")
    case True
    then show ?thesis by (subst section_sum.simps) simp
  next
    case False
    let ?n = "if sz \<ge> blen then blen else sz"
    have nz: "?n \<noteq> 0" "unat ?n \<le> unat sz" "unat ?n \<le> length buf" "0 < unat ?n"
      using False less.prems by (auto simp: word_le_nat_alt unat_gt_0)
    obtain r buf1 s1 where R: "if_flash_read F fl a buf ?n s = Some (r, buf1, s1)" "r = ?n \<or> r = 0"
      "store_frame ok dsize mem fl 0 0 s s1" "length buf1 = length buf"
      "r = ?n \<and> ?n \<noteq> 0 \<and> unat a + unat ?n < 4294967296 \<longrightarrow> unat a + unat ?n \<le> dsize fl s \<and>
         buf1 = content_read (mem fl s) (unat a) (unat ?n) @ drop (unat ?n) buf"
      using read_law [OF less.prems(1) nz(3), of a] by blast
    show ?thesis
    proof (cases "r = ?n")
      case no: False
      then show ?thesis
        using R False by (subst section_sum.simps) (auto simp: word_neq_0_conv split: if_splits)
    next
      case yes: True
      let ?chk = "chk + rom_image_checksum16 buf1 ?n"
      have sub: "unat (sz - ?n) = unat sz - unat ?n" by (rule unat_sub) (auto simp: not_le)
      have smaller: "unat (sz - ?n) < unat sz" using sub nz by simp
      have eq: "section_sum F fl a buf blen sz chk s = section_sum F fl (a + ?n) buf1 blen (sz - ?n) ?chk s1"
        using R yes False by (subst section_sum.simps) (auto simp: word_neq_0_conv)
      have ok1: "ok fl s1" and m1: "mem fl s1 = mem fl s"
        using R(3) less.prems(1) by (simp_all add: store_frame_ok store_frame_mem_none)
      obtain r' buf' s' where IH: "section_sum F fl (a + ?n) buf1 blen (sz - ?n) ?chk s1 = Some (r', buf', s')"
        "store_frame ok dsize mem fl 0 0 s1 s'" "length buf' = length buf1"
        "\<forall>c. r' = Some c \<and> even (unat blen) \<and> unat (a + ?n) + unat (sz - ?n) < 4294967296 \<longrightarrow>
           c = ?chk + sum16 (content_read (mem fl s1) (unat (a + ?n)) (unat (sz - ?n)))"
        using less.hyps [OF smaller ok1 _ less.prems(3), of buf1 "a + ?n" ?chk] R(4) less.prems(2) by auto
      have post: "c = chk + sum16 (content_read (mem fl s) (unat a) (unat sz))"
        if c: "r' = Some c" "even (unat blen)" "unat a + unat sz < 4294967296" for c
      proof -
        have an: "unat (a + ?n) = unat a + unat ?n" by (rule unat_add_const) (use nz c(3) in linarith)
        have b1: "take (unat ?n) buf1 = content_read (mem fl s) (unat a) (unat ?n)"
          using R(5) yes nz c(3) by simp
        have "content_read (mem fl s) (unat a) (unat sz) =
            content_read (mem fl s) (unat a) (unat ?n)
              @ content_read (mem fl s) (unat a + unat ?n) (unat sz - unat ?n)"
          using content_read_add [of "mem fl s" "unat a" "unat ?n" "unat sz - unat ?n"] nz by simp
        moreover have "even (unat ?n) \<or> unat sz - unat ?n = 0" using c(2) by auto
        ultimately have "sum16 (content_read (mem fl s) (unat a) (unat sz)) =
            sum16 (content_read (mem fl s) (unat a) (unat ?n))
              + sum16 (content_read (mem fl s) (unat a + unat ?n) (unat sz - unat ?n))"
          by (elim disjE) (simp_all add: sum16_append)
        then show ?thesis
          using IH(4) c an sub nz m1 b1 by (simp add: checksum16_sum16 add.assoc)
      qed
      show ?thesis
        unfolding eq using IH(1,2,3) R(4) post store_frame_trans [OF R(3) IH(2)] by auto
    qed
  qed
qed

end

text \<open>A section read from the flash: its header, and what it means that it is intact.\<close>

definition header_at :: "content \<Rightarrow> u32 \<Rightarrow> section_header" where
  "header_at m a = section_header_of_bytes (content_read m (unat a) 64)"

definition in_space :: "content \<Rightarrow> u32 \<Rightarrow> bool" where
  "in_space m a \<longleftrightarrow> unat a + 64 + unat (sh_data_size (header_at m a)) < 4294967296"

definition section_intact :: "image_check_type \<Rightarrow> content \<Rightarrow> u32 \<Rightarrow> u32 \<Rightarrow> bool" where
  "section_intact ct m a nx \<longleftrightarrow>
     magic_number (header_at m a) = IMAGE_MAGIC_NUMBER \<and>
     sum16 (content_read m (unat a) 64) = 0xFFFF \<and>
     data_chksum (header_at m a)
       + sum16 (content_read m (unat a + 64) (unat (sh_data_size (header_at m a)))) = 0xFFFF \<and>
     nx = next_section ct (header_at m a)"

lemma u32_at_append: "off + 4 \<le> length xs \<Longrightarrow> u32_at off (xs @ ys) = u32_at off xs"
  by (simp add: u32_at_def u32_of_bytes_def nth_append)

lemma header_append:
  "length xs = 64 \<Longrightarrow> section_header_of_bytes (xs @ ys) = section_header_of_bytes xs"
  unfolding section_header_of_bytes_def by (simp add: u32_at_append u16_of_bytes_def nth_append upt_rec)

lemma check_header_iff:
  assumes "length xs = 64"
  shows "image_check_header (Some (xs @ ys)) = IMAGE_VALID \<longleftrightarrow>
     magic_number (section_header_of_bytes xs) = IMAGE_MAGIC_NUMBER \<and> sum16 xs = 0xFFFF"
  using assms
  by (simp add: image_check_header_def image_get_checksum_def checksum16_sum16 header_append)

text \<open>A chain of intact sections: the first on one device, the others on another.\<close>

inductive intact_chain ::
  "image_check_type \<Rightarrow> image_ota_param \<Rightarrow> u8 \<Rightarrow> (u32 \<Rightarrow> content) \<Rightarrow> u32 \<Rightarrow> u32 \<Rightarrow> bool"
  for ct p sq M where
  last_section: "(in_space (M fl) a \<longrightarrow> section_intact ct (M fl) a IMAGE_INVALID_ADDR) \<Longrightarrow>
     intact_chain ct p sq M fl a"
| more_sections: "(in_space (M fl) a \<longrightarrow> section_intact ct (M fl) a nx) \<Longrightarrow>
     nx \<noteq> IMAGE_INVALID_ADDR \<Longrightarrow>
     intact_chain ct p sq M (ucast (iop_flash p ! unat sq)) (IMG_SEC_ADDR p sq nx) \<Longrightarrow>
     intact_chain ct p sq M fl a"

inductive_cases intact_chainE: "intact_chain ct p sq M fl a"

text \<open>A chain that ends: following the offsets in the headers reaches the end mark.\<close>

inductive finite_chain ::
  "image_check_type \<Rightarrow> image_ota_param \<Rightarrow> u8 \<Rightarrow> (u32 \<Rightarrow> content) \<Rightarrow> u32 \<Rightarrow> u32 \<Rightarrow> bool"
  for ct p sq M where
  chain_end: "unat a + 64 < 4294967296 \<Longrightarrow>
     next_section ct (header_at (M fl) a) = IMAGE_INVALID_ADDR \<Longrightarrow> finite_chain ct p sq M fl a"
| chain_next: "unat a + 64 < 4294967296 \<Longrightarrow>
     finite_chain ct p sq M (ucast (iop_flash p ! unat sq))
       (IMG_SEC_ADDR p sq (next_section ct (header_at (M fl) a))) \<Longrightarrow>
     finite_chain ct p sq M fl a"

context flash_store
begin

lemma check_section_at_law:
  assumes ok: "ok fl s" and buf: "length buf = 1024"
  shows "\<exists>r buf' s'. image_check_section_at F fl a buf 1024 ct s = Some (r, buf', s') \<and>
     store_frame ok dsize mem fl 0 0 s s' \<and> length buf' = 1024 \<and>
     (\<forall>nx. r = Some nx \<longrightarrow>
        (in_space (mem fl s) a \<longrightarrow> section_intact ct (mem fl s) a nx) \<and>
        (unat a + 64 < 4294967296 \<longrightarrow> nx = next_section ct (header_at (mem fl s) a)))"
proof -
  let ?xs = "content_read (mem fl s) (unat a) 64"
  obtain r b s1 where R: "if_flash_read F fl a buf 64 s = Some (r, b, s1)" "r = 64 \<or> r = 0"
    "store_frame ok dsize mem fl 0 0 s s1" "length b = 1024"
    "r = 64 \<and> unat a + 64 < 4294967296 \<longrightarrow> b = ?xs @ drop 64 buf"
    using read_law [OF ok, of 64 buf a] buf by auto
  have ok1: "ok fl s1" and m1: "mem fl s1 = mem fl s"
    using R(3) ok by (simp_all add: store_frame_ok store_frame_mem_none)
  let ?h = "section_header_of_bytes b"
  obtain c b2 s2 where S: "section_sum F fl (a + 64) b 1024 (sh_data_size ?h) (data_chksum ?h) s1 = Some (c, b2, s2)"
    "store_frame ok dsize mem fl 0 0 s1 s2" "length b2 = 1024"
    "\<forall>v. c = Some v \<and> unat (a + 64) + unat (sh_data_size ?h) < 4294967296 \<longrightarrow>
       v = data_chksum ?h + sum16 (content_read (mem fl s1) (unat (a + 64)) (unat (sh_data_size ?h)))"
    using section_sum_law [OF ok1, of 1024 b "a + 64" "sh_data_size ?h" "data_chksum ?h"] R(4) by auto
  have f2: "store_frame ok dsize mem fl 0 0 s s2" using R(3) S(2) by (rule store_frame_trans)
  consider "r = 0" | "r = 64" "image_check_header (Some b) = IMAGE_INVALID"
    | "r = 64" "image_check_header (Some b) = IMAGE_VALID"
    using R(2) by (cases "image_check_header (Some b)") auto
  then show ?thesis
  proof cases
    case 3
    have hdr: "?h = header_at (mem fl s) a" "image_check_header (Some (?xs @ drop 64 buf)) = IMAGE_VALID"
      if "unat a + 64 < 4294967296"
      using R(5) 3 that by (simp_all add: header_at_def header_append)
    have post: "section_intact ct (mem fl s) a (next_section ct ?h)"
      if "c = Some 0xFFFF" "in_space (mem fl s) a"
    proof -
      have lt: "unat a + 64 < 4294967296" using that(2) by (simp add: in_space_def)
      then have "unat (a + 64) = unat a + 64" using unat_add_const [of a 64] by simp
      then show ?thesis
        using hdr [OF lt] that S(4) m1
        by (simp add: section_intact_def check_header_iff header_at_def in_space_def)
    qed
    have "image_check_section_at F fl a buf 1024 ct s =
        Some (if c = Some 0xFFFF then Some (next_section ct ?h) else None, b2, s2)"
      using R(1) 3 S(1) by (simp add: image_check_section_at_def)
    then show ?thesis using f2 S(3) post hdr(1) by auto
  qed (use R in \<open>simp_all add: image_check_section_at_def\<close>)
qed

lemma frame_none_iff:
  "store_frame ok dsize mem fl 0 0 s s' \<longleftrightarrow>
     (\<forall>f. (ok f s \<longrightarrow> ok f s') \<and> dsize f s' = dsize f s \<and> mem f s' = mem f s)"
  unfolding store_frame_def by (simp only: same_outside_0) metis

lemma check_chain_sound:
  assumes "check_chain G p sq fl a buf ct s = Some y" "G = F"
    and "ok fl s" "ok (ucast (iop_flash p ! unat sq)) s" "length buf = 1024"
  shows "store_frame ok dsize mem fl 0 0 s (snd y) \<and>
    (fst y = IMAGE_VALID \<longrightarrow> intact_chain ct p sq (\<lambda>f. mem f s) fl a)"
  using assms(2-)
proof (induction rule: check_chain.raw_induct [OF _ assms(1), consumes 0, case_names step])
  case (step chk G p sq fl a buf ct s y)
  note IH = step(1) and step = step(2) [unfolded \<open>G = F\<close>] and ok = step.prems(2,3) and len = step.prems(4)
  let ?fl2 = "ucast (iop_flash p ! unat sq) :: u32"
  obtain r b s1 where C: "image_check_section_at F fl a buf 1024 ct s = Some (r, b, s1)"
    "store_frame ok dsize mem fl 0 0 s s1" "length b = 1024"
    "\<forall>nx. r = Some nx \<longrightarrow> (in_space (mem fl s) a \<longrightarrow> section_intact ct (mem fl s) a nx)"
    using check_section_at_law [OF ok(1) len] by blast
  show ?case
  proof (cases "\<exists>nx. r = Some nx \<and> nx \<noteq> IMAGE_INVALID_ADDR")
    case False
    then show ?thesis using step C by (auto split: option.splits if_splits intro: last_section)
  next
    case True
    then obtain nx where nx: "r = Some nx" "nx \<noteq> IMAGE_INVALID_ADDR" by blast
    have at: "at (iop_flash p) sq = Some (iop_flash p ! unat sq)"
      using step C(1) nx by (auto simp: at_def split: if_splits)
    have rec: "chk F p sq ?fl2 (IMG_SEC_ADDR p sq nx) b ct s1 = Some y"
      using step C(1) nx at by simp
    have eq: "mem f s1 = mem f s" for f using C(2) by (simp add: frame_none_iff)
    have ok2: "ok ?fl2 s1" using C(2) ok by (simp add: frame_none_iff)
    have "store_frame ok dsize mem ?fl2 0 0 s1 (snd y) \<and>
      (fst y = IMAGE_VALID \<longrightarrow> intact_chain ct p sq (\<lambda>f. mem f s1) ?fl2 (IMG_SEC_ADDR p sq nx))"
      using IH [OF rec refl ok2 ok2 C(3)] .
    then show ?thesis
      using C nx by (auto simp: eq frame_none_iff intro: more_sections)
  qed
qed

lemma check_chain_returns:
  assumes "finite_chain ct p sq (\<lambda>f. mem f s) fl a"
    and "ok fl s" "ok (ucast (iop_flash p ! unat sq)) s" "length buf = 1024" "unat sq < length (iop_flash p)"
  shows "\<exists>v s'. check_chain F p sq fl a buf ct s = Some (v, s')"
proof -
  have *: "finite_chain ct p sq M fl a \<Longrightarrow> (\<forall>f. mem f s = M f) \<Longrightarrow> ok fl s \<Longrightarrow>
      ok (ucast (iop_flash p ! unat sq)) s \<Longrightarrow> length buf = 1024 \<Longrightarrow>
      \<exists>v s'. check_chain F p sq fl a buf ct s = Some (v, s')" for M fl a buf s
  proof (induction arbitrary: s buf rule: finite_chain.induct)
    case (chain_end a fl)
    then show ?case
      using check_section_at_law [of fl s buf a ct]
      by (subst check_chain.simps) (auto split: option.splits)
  next
    case (chain_next a fl)
    obtain r b s1 where C: "image_check_section_at F fl a buf 1024 ct s = Some (r, b, s1)"
      "store_frame ok dsize mem fl 0 0 s s1" "length b = 1024"
      "\<forall>nx. r = Some nx \<longrightarrow> nx = next_section ct (header_at (M fl) a)"
      using check_section_at_law [of fl s buf a ct] chain_next by auto
    have "\<exists>v s'. check_chain F p sq (ucast (iop_flash p ! unat sq))
      (IMG_SEC_ADDR p sq (next_section ct (header_at (M fl) a))) b ct s1 = Some (v, s')"
      using C(2,3) chain_next.prems by (intro chain_next.IH) (simp_all add: frame_none_iff)
    then show ?case
      using C assms(5) by (subst check_chain.simps) (auto simp: at_def split: option.splits)
  qed
  show ?thesis by (rule * [OF assms(1) _ assms(2-4)]) simp
qed

lemma check_all_sound:
  assumes "image_check_all F sq ct img s = Some (v, s')"
    and "ok (IMG_BL_FLASH (iop img)) s" "ok (ucast (iop_flash (iop img) ! unat sq)) s"
  shows "store_frame ok dsize mem fl 0 0 s s' \<and>
    (v = IMAGE_VALID \<longrightarrow> intact_chain ct (iop img) sq (\<lambda>f. mem f s) (IMG_BL_FLASH (iop img))
       (IMG_BL_ADDR (iop img)))"
proof -
  obtain q s1 where m: "if_malloc F 1024 s = (q, s1)" by force
  note ml = malloc_law [OF m]
  have eq: "mem f s1 = mem f s" "ok f s \<Longrightarrow> ok f s1" for f using ml [of f] by (simp_all add: frame_none_iff)
  show ?thesis
  proof (cases q)
    case None
    then show ?thesis using assms(1) m ml by (simp add: image_check_all_def)
  next
    case (Some buf)
    then have "check_chain F (iop img) sq (IMG_BL_FLASH (iop img)) (IMG_BL_ADDR (iop img)) buf ct s1 = Some (v, s')"
      using assms(1) m by (simp add: image_check_all_def)
    from check_chain_sound [OF this refl] show ?thesis
      using ml Some assms(2,3) eq by (simp add: frame_none_iff)
  qed
qed

end

end
