(* ===== verification/Image_Cfg_Spec.thy ===== *)
theory Image_Cfg_Spec
  imports Image_Spec
begin

text \<open>
  The boot configuration: what \<open>image_set_cfg\<close> stores in the FDCM area of the OTA parameters
  is what \<open>image_get_cfg\<close> and the choice of the running image read back, and nothing outside
  that area changes.
\<close>

section \<open>The raw configuration\<close>

lemma length_raw_cfg [simp]: "length (bytes_of_raw_cfg c) = 4"
  by (simp add: bytes_of_raw_cfg_def)

lemma raw_cfg_roundtrip [simp]: "raw_cfg_of_bytes (bytes_of_raw_cfg c @ ys) = c"
proof -
  have "drop 2 (bytes_of_raw_cfg c @ ys) = bytes_of_u16 (raw_state c) @ ys"
    by (simp add: bytes_of_raw_cfg_def bytes_of_u16_def)
  then show ?thesis by (simp add: raw_cfg_of_bytes_def) (simp add: bytes_of_raw_cfg_def)
qed

text \<open>The area in which the configuration lives can be written to: it has no usable header yet,
  or it holds configurations.\<close>

definition cfg_area_ready :: "content \<Rightarrow> nat \<Rightarrow> u32 \<Rightarrow> bool" where
  "cfg_area_ready m a sz \<longleftrightarrow>
     header_invalid (fdcm_header_of_bytes (content_read m a 8)) 4 sz \<or>
     (\<exists>bs recs. fdcm_holds m a (unat sz) bs 4 recs)"

definition cfg_stored :: "content \<Rightarrow> image_ota_param \<Rightarrow> image_raw_cfg \<Rightarrow> bool" where
  "cfg_stored m p raw \<longleftrightarrow> (\<exists>bs recs. fdcm_holds m (unat (ota_addr p)) (unat (ota_size p)) bs 4 recs \<and>
     last recs = bytes_of_raw_cfg raw)"

definition raw_of_seq :: "u8 \<Rightarrow> image_raw_cfg" where
  "raw_of_seq sq = \<lparr>raw_seq = s_image_raw_seq ! unat sq, raw_state = IMAGE_RAW_STATE_VERIFIED\<rparr>"

lemma seq_cases: "(sq :: u8) < 2 \<Longrightarrow> sq = 0 \<or> sq = 1"
proof -
  assume "sq < 2"
  then have "unat sq < 2" by (simp add: word_less_nat_alt)
  then have "unat sq = 0 \<or> unat sq = 1" by linarith
  then show ?thesis by (auto simp: word_unat_eq_iff)
qed

lemma raw_seq_index_roundtrip:
  "sq < 2 \<Longrightarrow> raw_seq_index s_image_raw_seq (raw_seq (raw_of_seq sq)) 0 = Some sq"
  by (drule seq_cases) (auto simp: raw_of_seq_def s_image_raw_seq_def)

context flash_store
begin

lemma cfg_write_law:
  assumes ok: "ok (fh_flash hdl) s" and area: "fdcm_area hdl (dsize (fh_flash hdl) s)"
    and sz: "unat (fh_size hdl) \<le> 524288" and raw: "length raw = 4"
    and ready: "cfg_area_ready (mem (fh_flash hdl) s) (unat (fh_addr hdl)) (fh_size hdl)"
  shows "\<exists>r s'. rom_fdcm_write F (Some hdl) (Some raw) 4 s = Some (r, s') \<and> (r = 4 \<or> r = 0) \<and>
     store_frame ok dsize mem (fh_flash hdl) (unat (fh_addr hdl)) (unat (fh_size hdl)) s s' \<and>
     (r = 4 \<longrightarrow> (\<exists>bs recs. last recs = raw \<and>
        fdcm_holds (mem (fh_flash hdl) s') (unat (fh_addr hdl)) (unat (fh_size hdl)) bs 4 recs))"
proof -
  have bms: "fdcm_bitmap_size (fh_size hdl) 4 \<noteq> 0"
    using area sz by (intro bitmap_size_nonzero) (auto simp: fdcm_area_def)
  have len: "length raw = unat (4 :: u16)" using raw by simp
  show ?thesis
    using ready unfolding cfg_area_ready_def
  proof (elim disjE exE)
    let ?holds = "\<lambda>s. fdcm_holds (mem (fh_flash hdl) s) (unat (fh_addr hdl)) (unat (fh_size hdl))"
    assume inv: "header_invalid (fdcm_header_of_bytes
      (content_read (mem (fh_flash hdl) s) (unat (fh_addr hdl)) 8)) 4 (fh_size hdl)"
    obtain r s' where W: "rom_fdcm_write F (Some hdl) (Some raw) 4 s = Some (r, s')" "r = ucast (4 :: u16) \<or> r = 0"
        "store_frame ok dsize mem (fh_flash hdl) (unat (fh_addr hdl)) (unat (fh_size hdl)) s s'"
      and post: "r \<noteq> 0 \<longrightarrow> ?holds s' (fdcm_bitmap_size (fh_size hdl) 4) 4 [raw]"
      using fdcm_first_write_law [OF ok area len bms inv] by blast
    have "\<exists>bs recs. last recs = raw \<and> ?holds s' bs 4 recs" if "r \<noteq> 0"
      using post that by (metis last.simps)
    then show ?thesis using W by auto
  next
    fix bs :: u16 and recs :: "u8 list list"
    let ?room = "length recs < 8 * unat bs \<and>
      slot_base (unat bs) + unat (4 :: u16) * (length recs + 1) \<le> unat (fh_size hdl)"
    let ?holds = "\<lambda>s. fdcm_holds (mem (fh_flash hdl) s) (unat (fh_addr hdl)) (unat (fh_size hdl))"
    assume H: "?holds s bs 4 recs"
    obtain r s' where W: "rom_fdcm_write F (Some hdl) (Some raw) 4 s = Some (r, s')" "r = ucast (4 :: u16) \<or> r = 0"
        "store_frame ok dsize mem (fh_flash hdl) (unat (fh_addr hdl)) (unat (fh_size hdl)) s s'"
      and post: "r \<noteq> 0 \<longrightarrow> (if ?room then ?holds s' bs 4 (recs @ [raw])
        else fdcm_bitmap_size (fh_size hdl) 4 \<noteq> 0 \<longrightarrow> ?holds s' (fdcm_bitmap_size (fh_size hdl) 4) 4 [raw])"
      using fdcm_append_law [OF ok area len H] by blast
    have "\<exists>bs recs. last recs = raw \<and> ?holds s' bs 4 recs" if "r \<noteq> 0"
    proof (cases ?room)
      case True
      then have "?holds s' bs 4 (recs @ [raw])" using post that by simp
      then show ?thesis by (metis last_snoc)
    next
      case False
      then have "?holds s' (fdcm_bitmap_size (fh_size hdl) 4) 4 [raw]"
        using post that bms by (simp only: if_False simp_thms)
      then show ?thesis by (metis last.simps)
    qed
    then show ?thesis using W by auto
  qed
qed

lemma cfg_read_law:
  assumes ok: "ok (fh_flash hdl) s" and area: "fdcm_area hdl (dsize (fh_flash hdl) s)"
    and buf: "length buf = 4"
    and holds: "fdcm_holds (mem (fh_flash hdl) s) (unat (fh_addr hdl)) (unat (fh_size hdl)) bs 4 recs"
  obtains r b s' where "rom_fdcm_read F (Some hdl) (Some buf) 4 s = Some (r, Some b, s')"
    "r = 4 \<or> r = 0" "store_frame ok dsize mem (fh_flash hdl) 0 0 s s'"
    "r = 4 \<longrightarrow> b = last recs"
proof -
  have len: "unat (4 :: u16) \<le> length buf" using buf by simp
  obtain r b s' where "rom_fdcm_read F (Some hdl) (Some buf) 4 s = Some (r, Some b, s')"
    "r = ucast (4 :: u16) \<or> r = 0" "store_frame ok dsize mem (fh_flash hdl) 0 0 s s'"
    "r \<noteq> 0 \<longrightarrow> b = last recs @ drop (unat (4 :: u16)) buf"
    using fdcm_read_law [OF ok area len holds] by blast
  with buf that show ?thesis by auto
qed

lemma raw_cfg_tries_law:
  assumes ok: "ok (fh_flash hdl) s" and area: "fdcm_area hdl (dsize (fh_flash hdl) s)"
    and sz: "unat (fh_size hdl) \<le> 524288" and raw: "length raw = 4"
    and ready: "cfg_area_ready (mem (fh_flash hdl) s) (unat (fh_addr hdl)) (fh_size hdl)"
  shows "\<exists>r s'. raw_cfg_tries (Suc i) F (Some hdl) raw (replicate 4 0) s = Some (r, s') \<and>
     (r = 0 \<or> r = - 1) \<and>
     store_frame ok dsize mem (fh_flash hdl) (unat (fh_addr hdl)) (unat (fh_size hdl)) s s' \<and>
     (r = 0 \<longrightarrow> (\<exists>bs recs. last recs = raw \<and>
        fdcm_holds (mem (fh_flash hdl) s') (unat (fh_addr hdl)) (unat (fh_size hdl)) bs 4 recs))"
proof -
  let ?fr = "store_frame ok dsize mem (fh_flash hdl) (unat (fh_addr hdl)) (unat (fh_size hdl))"
  let ?holds = "\<lambda>s. fdcm_holds (mem (fh_flash hdl) s) (unat (fh_addr hdl)) (unat (fh_size hdl))"
  obtain r s1 where W: "rom_fdcm_write F (Some hdl) (Some raw) 4 s = Some (r, s1)" "r = 4 \<or> r = 0" "?fr s s1"
      "r = 4 \<longrightarrow> (\<exists>bs recs. last recs = raw \<and> ?holds s1 bs 4 recs)"
    using cfg_write_law [OF ok area sz raw ready] by blast
  show ?thesis
  proof (cases "r = 4")
    case False
    then show ?thesis using W by simp
  next
    case True
    then obtain bs recs where H: "last recs = raw" "?holds s1 bs 4 recs" using W(4) by blast
    have ok1: "ok (fh_flash hdl) s1" and area1: "fdcm_area hdl (dsize (fh_flash hdl) s1)"
      using W(3) ok area by (simp_all add: store_frame_ok store_frame_dsize)
    obtain r2 b s2 where R: "rom_fdcm_read F (Some hdl) (Some (replicate 4 0)) 4 s1 = Some (r2, Some b, s2)"
      "r2 = 4 \<or> r2 = 0" "store_frame ok dsize mem (fh_flash hdl) 0 0 s1 s2" "r2 = 4 \<longrightarrow> b = last recs"
      using cfg_read_law [OF ok1 area1 _ H(2), of "replicate 4 0"] by auto
    have f2: "?fr s s2" by (rule store_frame_trans [OF W(3) store_frame_none [OF R(3)]])
    have m2: "mem (fh_flash hdl) s2 = mem (fh_flash hdl) s1" by (rule store_frame_mem_none [OF R(3)])
    show ?thesis
    proof (cases "r2 = 4")
      case False
      then show ?thesis using W(1) True R(1) f2 by simp
    next
      case t2: True
      then have "raw_cfg_tries (Suc i) F (Some hdl) raw (replicate 4 0) s = Some (0, s2)"
        using W(1) True R(1,4) H(1) by simp
      then show ?thesis using f2 H m2 by auto
    qed
  qed
qed

lemma set_raw_cfg_law:
  assumes ok: "ok (ucast (ota_flash p)) s"
    and fits: "unat (ota_addr p) + unat (ota_size p) \<le> dsize (ucast (ota_flash p)) s"
    and sz: "unat (ota_size p) \<le> 524288"
    and ready: "cfg_area_ready (mem (ucast (ota_flash p)) s) (unat (ota_addr p)) (ota_size p)"
  shows "\<exists>r s'. image_set_raw_cfg F p raw s = Some (r, s') \<and> (r = 0 \<or> r = - 1) \<and>
     store_frame ok dsize mem (ucast (ota_flash p)) (unat (ota_addr p)) (unat (ota_size p)) s s' \<and>
     (r = 0 \<longrightarrow> cfg_stored (mem (ucast (ota_flash p)) s') p raw)"
proof -
  let ?fl = "ucast (ota_flash p) :: u32"
  let ?fr = "store_frame ok dsize mem ?fl (unat (ota_addr p)) (unat (ota_size p))"
  obtain h s1 where O: "rom_fdcm_open F ?fl (ota_addr p) (ota_size p) s = Some (h, s1)"
    "store_frame ok dsize mem ?fl 0 0 s s1"
    "\<forall>hdl. h = Some hdl \<longrightarrow> hdl = \<lparr>fh_flash = ?fl, fh_addr = ota_addr p, fh_size = ota_size p\<rparr> \<and>
        4096 \<le> unat (ota_size p)"
    using fdcm_open_law [OF ok] by blast
  show ?thesis
  proof (cases h)
    case None
    then show ?thesis using O store_frame_none [OF O(2)] by (simp add: image_set_raw_cfg_def)
  next
    case (Some hdl)
    have hdl: "fh_flash hdl = ?fl" "fh_addr hdl = ota_addr p" "fh_size hdl = ota_size p" "4096 \<le> unat (ota_size p)"
      using O(3) Some by auto
    have ok1: "ok (fh_flash hdl) s1" and area1: "fdcm_area hdl (dsize (fh_flash hdl) s1)"
      and ready1: "cfg_area_ready (mem (fh_flash hdl) s1) (unat (fh_addr hdl)) (fh_size hdl)"
      using O(2) ok fits ready hdl
      by (simp_all add: store_frame_ok store_frame_dsize store_frame_mem_none fdcm_area_def)
    obtain r s2 where T: "raw_cfg_tries 2 F (Some hdl) (bytes_of_raw_cfg raw) (replicate 4 0) s1 = Some (r, s2)"
      "r = 0 \<or> r = - 1" "?fr s1 s2"
      "r = 0 \<longrightarrow> cfg_stored (mem ?fl s2) p raw"
      using raw_cfg_tries_law [OF ok1 area1 _ _ ready1, of "bytes_of_raw_cfg raw" "Suc 0", folded numeral_2_eq_2]
        sz hdl by (auto simp: cfg_stored_def simp del: raw_cfg_tries.simps)
    then show ?thesis
      using O(1) Some store_frame_trans [OF store_frame_none [OF O(2)] T(3)]
      by (simp add: image_set_raw_cfg_def)
  qed
qed

text \<open>The boot configuration can be written: its area is in the device and ready.\<close>

lemma set_cfg_law:
  assumes ok: "ok (ucast (ota_flash (iop img))) s"
    and fits: "unat (ota_addr (iop img)) + unat (ota_size (iop img)) \<le> dsize (ucast (ota_flash (iop img))) s"
    and sz: "unat (ota_size (iop img)) \<le> 524288"
    and ready: "cfg_area_ready (mem (ucast (ota_flash (iop img))) s)
                  (unat (ota_addr (iop img))) (ota_size (iop img))"
  shows "\<exists>r s'. image_set_cfg F img c s = Some (r, s') \<and> (r = 0 \<or> r = - 1) \<and>
     store_frame ok dsize mem (ucast (ota_flash (iop img))) (unat (ota_addr (iop img)))
       (unat (ota_size (iop img))) s s' \<and>
     (r = 0 \<longrightarrow> (\<exists>sq < 2. c = Some \<lparr>cfg_seq = sq, cfg_state = IMAGE_STATE_VERIFIED\<rparr> \<and>
        ota_size (iop img) \<noteq> 0 \<and> ota_addr (iop img) \<noteq> IMAGE_INVALID_ADDR \<and>
        cfg_stored (mem (ucast (ota_flash (iop img))) s') (iop img) (raw_of_seq sq)))"
proof (cases "\<exists>sq. c = Some \<lparr>cfg_seq = sq, cfg_state = IMAGE_STATE_VERIFIED\<rparr> \<and> sq < 2 \<and>
    ota_size (iop img) \<noteq> 0 \<and> ota_addr (iop img) \<noteq> IMAGE_INVALID_ADDR")
  case False
  then have "image_set_cfg F img c s = Some (- 1, s)"
    by (cases c rule: option.exhaust; cases "the c") (auto simp: image_set_cfg_def not_le)
  then show ?thesis by simp
next
  case True
  then obtain sq where c: "c = Some \<lparr>cfg_seq = sq, cfg_state = IMAGE_STATE_VERIFIED\<rparr>" "sq < 2"
    "ota_size (iop img) \<noteq> 0" "ota_addr (iop img) \<noteq> IMAGE_INVALID_ADDR" by blast
  have at: "at s_image_raw_seq sq = Some (s_image_raw_seq ! unat sq)"
    using c(2) by (simp add: at_def s_image_raw_seq_def word_less_nat_alt)
  obtain r s' where R: "image_set_raw_cfg F (iop img) (raw_of_seq sq) s = Some (r, s')" "r = 0 \<or> r = - 1"
    "store_frame ok dsize mem (ucast (ota_flash (iop img))) (unat (ota_addr (iop img)))
       (unat (ota_size (iop img))) s s'"
    "r = 0 \<longrightarrow> cfg_stored (mem (ucast (ota_flash (iop img))) s') (iop img) (raw_of_seq sq)"
    using set_raw_cfg_law [OF ok fits sz ready] by blast
  have "\<not> 2 \<le> sq" using c(2) by simp
  with R(1) have "image_set_cfg F img c s = Some (if r \<noteq> 0 then - 1 else 0, s')"
    using c at by (simp add: image_set_cfg_def raw_of_seq_def)
  then show ?thesis using R c by auto
qed

lemma get_cfg_law:
  assumes ok: "ok (ucast (ota_flash (iop img))) s"
    and fits: "unat (ota_addr (iop img)) + unat (ota_size (iop img)) \<le> dsize (ucast (ota_flash (iop img))) s"
    and stored: "cfg_stored (mem (ucast (ota_flash (iop img))) s) (iop img) (raw_of_seq sq)" and sq: "sq < 2"
  shows "\<exists>r c' s'. image_get_cfg F img (Some c) s = Some (r, Some c', s') \<and>
     store_frame ok dsize mem (ucast (ota_flash (iop img))) 0 0 s s' \<and>
     (r = 0 \<and> c' = \<lparr>cfg_seq = sq, cfg_state = IMAGE_STATE_VERIFIED\<rparr> \<or> r = - 1 \<and> c' = c)"
proof (cases "ota_size (iop img) = 0 \<or> ota_addr (iop img) = IMAGE_INVALID_ADDR")
  case True
  then show ?thesis by (simp add: image_get_cfg_def)
next
  case valid: False
  let ?p = "iop img"
  let ?fl = "ucast (ota_flash ?p) :: u32"
  obtain bs recs where H: "fdcm_holds (mem ?fl s) (unat (ota_addr ?p)) (unat (ota_size ?p)) bs 4 recs"
    "last recs = bytes_of_raw_cfg (raw_of_seq sq)" using stored by (auto simp: cfg_stored_def)
  obtain h s1 where O: "rom_fdcm_open F ?fl (ota_addr ?p) (ota_size ?p) s = Some (h, s1)"
    "store_frame ok dsize mem ?fl 0 0 s s1"
    "\<forall>hdl. h = Some hdl \<longrightarrow> hdl = \<lparr>fh_flash = ?fl, fh_addr = ota_addr ?p, fh_size = ota_size ?p\<rparr> \<and>
        4096 \<le> unat (ota_size ?p)"
    using fdcm_open_law [OF ok] by blast
  show ?thesis
  proof (cases h)
    case None
    then show ?thesis using O valid by (simp add: image_get_cfg_def image_get_raw_cfg_def)
  next
    case (Some hdl)
    have hdl: "fh_flash hdl = ?fl" "fh_addr hdl = ota_addr ?p" "fh_size hdl = ota_size ?p" "4096 \<le> unat (ota_size ?p)"
      using O(3) Some by auto
    have ok1: "ok (fh_flash hdl) s1" and area1: "fdcm_area hdl (dsize (fh_flash hdl) s1)"
      and H1: "fdcm_holds (mem (fh_flash hdl) s1) (unat (fh_addr hdl)) (unat (fh_size hdl)) bs 4 recs"
      using O(2) ok fits H hdl
      by (simp_all add: store_frame_ok store_frame_dsize store_frame_mem_none fdcm_area_def)
    obtain r b s2 where R: "rom_fdcm_read F (Some hdl) (Some (replicate 4 0)) 4 s1 = Some (r, Some b, s2)"
      "r = 4 \<or> r = 0" "store_frame ok dsize mem (fh_flash hdl) 0 0 s1 s2" "r = 4 \<longrightarrow> b = last recs"
      using cfg_read_law [OF ok1 area1 _ H1, of "replicate 4 0"] by auto
    have f: "store_frame ok dsize mem ?fl 0 0 s s2"
      using store_frame_trans [OF O(2)] R(3) hdl by simp
    have dec: "raw_cfg_of_bytes (bytes_of_raw_cfg (raw_of_seq sq)) = raw_of_seq sq"
      using raw_cfg_roundtrip [of _ "[]"] by simp
    have st: "raw_state (raw_of_seq sq) = IMAGE_RAW_STATE_VERIFIED" by (simp add: raw_of_seq_def)
    show ?thesis
      using valid O(1) Some R(1,2,4) H(2) f dec st raw_seq_index_roundtrip [OF sq]
      by (auto simp: image_get_cfg_def image_get_raw_cfg_def)
  qed
qed

text \<open>The sequence chosen at start-up is the stored one, or the default when nothing can be read.\<close>

lemma init_running_seq_law:
  assumes ok: "ok (ucast (ota_flash (iop img))) s"
    and fits: "unat (ota_addr (iop img)) + unat (ota_size (iop img)) \<le> dsize (ucast (ota_flash (iop img))) s"
    and stored: "cfg_stored (mem (ucast (ota_flash (iop img))) s) (iop img) (raw_of_seq sq)" and sq: "sq < 2"
  shows "\<exists>q s'. image_init_running_seq F img s = Some (q, s') \<and>
     store_frame ok dsize mem (ucast (ota_flash (iop img))) 0 0 s s' \<and> (q = sq \<or> q = 0)"
  using get_cfg_law [OF assms, of "\<lparr>cfg_seq = 0, cfg_state = IMAGE_STATE_UNVERIFIED\<rparr>"]
  by (auto simp: image_init_running_seq_def)

end

end
