(* ===== verification/Ota_Spec.thy ===== *)
theory Ota_Spec
  imports Ota Image_Cfg_Spec
begin

text \<open>
  What the update service guarantees: a push or a download writes inside the slot of the
  update sequence only, the pushed chunks end up in the slot as one byte string, the update
  sequence is never the running one, and the boot configuration is changed only after the
  image was found intact and its digest, when it carries one, was confirmed.
\<close>

section \<open>Callbacks and calls into the flash layers\<close>

lemma notify_cases:
  assumes "notify e n q st = Some st'"
  obtains l where "st' = st\<lparr>cb_log := l\<rparr>"
  using assms that [of "cb_log st"] by (auto simp: notify_def bind_Some_iff split: if_splits)

lemma notify_Some [simp]: "\<exists>l. notify e n (Some q) st = Some (st\<lparr>cb_log := l\<rparr>)"
proof (cases "ota_cb st")
  case False
  then have "notify e n (Some q) st = Some (st\<lparr>cb_log := cb_log st\<rparr>)" by (simp add: notify_def)
  then show ?thesis by blast
qed (auto simp: notify_def)

lemma notify_then:
  "\<exists>l. Option.bind (notify e n (Some q) st) (\<lambda>st. Some (r, st)) = Some (r, st\<lparr>cb_log := l\<rparr>)"
proof -
  obtain l where "notify e n (Some q) st = Some (st\<lparr>cb_log := l\<rparr>)" using notify_Some by blast
  then show ?thesis by (intro exI [of _ l]) simp
qed

lemma on_fs_Some: "f (o_fs st) = Some (a, s) \<Longrightarrow> on_fs f st = Some (a, st\<lparr>o_fs := s\<rparr>)"
  by (simp add: on_fs_def)

lemma on_fs_cases:
  assumes "on_fs f st = Some (a, st')"
  obtains s where "f (o_fs st) = Some (a, s)" "st' = st\<lparr>o_fs := s\<rparr>"
  using assms by (auto simp: on_fs_def bind_Some_iff)

section \<open>The slot that is updated\<close>

text \<open>
  The service is initialised on parameters with two image slots, a positive slot size, and
  the slot of the update sequence fits its device.
\<close>

definition update_flash :: "'s ota \<Rightarrow> u32" where
  "update_flash st = ucast (iop_flash (iop (o_img st)) ! unat (ota_get_update_seq st))"

definition update_addr :: "'s ota \<Rightarrow> u32" where
  "update_addr st = iop_addr (iop (o_img st)) ! unat (ota_get_update_seq st)"

definition update_size :: "ota_build \<Rightarrow> 's ota \<Rightarrow> u32" where
  "update_size B st = slot_size B (iop (o_img st))"

definition ota_ready :: "ota_build \<Rightarrow> 's ota \<Rightarrow> bool" where
  "ota_ready B st \<longleftrightarrow> op_iop st \<and> ota_get_update_seq st < 2 \<and>
     length (iop_flash (iop (o_img st))) = 2 \<and> length (iop_addr (iop (o_img st))) = 2 \<and>
     update_size B st \<noteq> 0"

lemma ota_readyD:
  assumes "ota_ready B st"
  shows "ota_iop st = Some (iop (o_img st))"
    and "at (iop_flash (iop (o_img st))) (ota_get_update_seq st) =
           Some (iop_flash (iop (o_img st)) ! unat (ota_get_update_seq st))"
    and "at (iop_addr (iop (o_img st))) (ota_get_update_seq st) = Some (update_addr st)"
    and "slot_size B (iop (o_img st)) \<noteq> 0"
  using assms by (auto simp: ota_ready_def ota_iop_def at_def update_addr_def update_size_def word_less_nat_alt)

lemma ota_ready_upd [simp]:
  "ota_ready B (st\<lparr>o_fs := s\<rparr>) = ota_ready B st" "ota_ready B (st\<lparr>cb_log := l\<rparr>) = ota_ready B st"
  "ota_ready B (st\<lparr>op_get_size := g\<rparr>) = ota_ready B st" "ota_ready B (st\<lparr>ota_skip_size := k\<rparr>) = ota_ready B st"
  "ota_get_update_seq (st\<lparr>o_fs := s\<rparr>) = ota_get_update_seq st"
  "ota_get_update_seq (st\<lparr>cb_log := l\<rparr>) = ota_get_update_seq st"
  "ota_get_update_seq (st\<lparr>op_get_size := g\<rparr>) = ota_get_update_seq st"
  "ota_get_update_seq (st\<lparr>ota_skip_size := k\<rparr>) = ota_get_update_seq st"
  by (simp_all add: ota_ready_def ota_get_update_seq_def ota_iop_def update_size_def cong: if_cong)

text \<open>The update never goes to the image that is running.\<close>

lemma update_seq_valid:
  assumes "ota_get_update_seq st \<noteq> 2"
  shows "ota_get_update_seq st < 2"
proof -
  have "ota_update_seq_policy ! unat (running_seq p) < 2" if "running_seq p < 2" for p :: image_ota_param
    using seq_cases [OF that] by (auto simp: ota_update_seq_policy_def)
  then show ?thesis
    using assms by (auto simp: ota_get_update_seq_def not_le split: option.splits if_splits)
qed

lemma update_seq_other:
  assumes "ota_get_update_seq st < 2"
  shows "running_seq (iop (o_img st)) < 2" "ota_get_update_seq st \<noteq> running_seq (iop (o_img st))"
proof -
  have r: "running_seq (iop (o_img st)) < 2"
    using assms by (auto simp: ota_get_update_seq_def ota_iop_def not_le split: if_splits)
  then show "running_seq (iop (o_img st)) < 2" .
  from seq_cases [OF r] assms show "ota_get_update_seq st \<noteq> running_seq (iop (o_img st))"
    by (auto simp: ota_get_update_seq_def ota_iop_def ota_update_seq_policy_def split: if_splits)
qed

text \<open>The slot holds the pushed bytes after the skipped ones, the rest of it is erased.\<close>

definition slot_holds :: "content \<Rightarrow> nat \<Rightarrow> nat \<Rightarrow> nat \<Rightarrow> u8 list \<Rightarrow> bool" where
  "slot_holds m base n K bs \<longleftrightarrow> length bs \<le> K + n \<and>
     content_read m base (length bs - K) = drop K bs \<and>
     erased m (base + (length bs - K)) (n - (length bs - K))"

lemma slot_holds_nil [simp]: "slot_holds m base n K [] \<longleftrightarrow> erased m base n"
  by (simp add: slot_holds_def)

lemma slot_holds_skip:
  "slot_holds m base n K bs \<Longrightarrow> length bs + length xs \<le> K \<Longrightarrow> slot_holds m base n K (bs @ xs)"
  by (simp add: slot_holds_def)

lemma slot_holds_write:
  assumes h: "slot_holds m base n K bs" and fits: "length bs + length xs \<le> K + n"
    and more: "K < length bs + length xs"
  shows "slot_holds (nor_program m (base + (length bs - K)) (drop (K - length bs) xs)) base n K (bs @ xs)"
proof -
  let ?g = "length bs - K" and ?ys = "drop (K - length bs) xs"
  let ?m = "nor_program m (base + ?g) ?ys"
  have len: "length bs + length xs - K = ?g + length ?ys" using more by simp
  have low: "content_read ?m base ?g = content_read m base ?g"
    by (rule content_read_cong, rule nor_program_apply_out) auto
  have "erased m (base + ?g) (length ?ys)"
    using h fits by (auto simp: slot_holds_def erased_def)
  then have high: "content_read ?m (base + ?g) (length ?ys) = ?ys" by (rule nor_program_erased)
  have "content_read ?m base (?g + length ?ys) = drop K bs @ ?ys"
    using h low high by (simp add: content_read_add slot_holds_def)
  moreover have "erased ?m (base + (?g + length ?ys)) (n - (?g + length ?ys))"
  proof -
    have gl: "?g + length ?ys \<le> n" using len fits by linarith
    have "erased m (base + ?g) (n - ?g)" using h by (simp add: slot_holds_def)
    then have "erased m (base + (?g + length ?ys)) (n - (?g + length ?ys))"
      by (rule erased_sub) (use gl in linarith)+
    then show ?thesis by (rule erased_program_disjoint) simp
  qed
  ultimately show ?thesis
    using fits len by (simp add: slot_holds_def)
qed

text \<open>What a call leaves alone in the state of the service: everything but the sizes, the log and the flash.\<close>

definition same_service :: "'s ota \<Rightarrow> 's ota \<Rightarrow> bool" where
  "same_service st st' \<longleftrightarrow> op_iop st' = op_iop st \<and> ota_cb st' = ota_cb st \<and>
     o_img st' = o_img st"

lemma same_service_ready:
  "same_service st st' \<Longrightarrow> ota_ready B st' = ota_ready B st \<and> ota_get_update_seq st' = ota_get_update_seq st
     \<and> update_flash st' = update_flash st \<and> update_addr st' = update_addr st \<and> update_size B st' = update_size B st"
  by (simp add: same_service_def ota_ready_def ota_get_update_seq_def ota_iop_def update_size_def
      update_flash_def update_addr_def cong: if_cong)

definition push_inv :: "ota_build \<Rightarrow> content \<Rightarrow> 's ota \<Rightarrow> u8 list \<Rightarrow> bool" where
  "push_inv B m st bs \<longleftrightarrow> unat (op_get_size st) = length bs \<and>
     slot_holds m (unat (update_addr st)) (unat (update_size B st)) (unat (ota_skip_size st)) bs"

text \<open>The room arithmetic of \<open>ota_push_data\<close> does not wrap.\<close>

lemma push_room:
  fixes n k g g' :: u32
  assumes "unat k + unat n < 4294967296" "unat g \<le> unat k + unat n"
    and g': "g' = g + (if g < k then k - g else 0)"
  shows "unat g' = max (unat g) (unat k)" and "unat (n + k - g') = unat n + unat k - unat g'"
proof -
  show u: "unat g' = max (unat g) (unat k)"
  proof (cases "g < k")
    case True
    then show ?thesis by (simp add: g' word_less_nat_alt max_def)
  next
    case False
    then show ?thesis by (simp add: g' word_less_nat_alt max_def)
  qed
  have "unat (n + k) = unat n + unat k" by (rule unat_add_const) (use assms(1) in simp)
  then show "unat (n + k - g') = unat n + unat k - unat g'"
    by (subst unat_sub) (use u assms(2) in \<open>simp_all add: word_le_nat_alt\<close>)
qed

context flash_store
begin

lemma push_start_law:
  assumes ready: "ota_ready B st" and ok: "ok (update_flash st) (o_fs st)"
    and fits: "unat (update_addr st) + unat (update_size B st) \<le> dsize (update_flash st) (o_fs st)"
  shows "\<exists>r st'. ota_push_start F B st = Some (r, st') \<and> same_service st st' \<and>
     op_get_size st' = op_get_size st \<and>
     ota_skip_size st' = ota_skip_size (default_skip B (iop (o_img st)) st) \<and>
     store_frame ok dsize mem (update_flash st) (unat (update_addr st)) (unat (update_size B st))
       (o_fs st) (o_fs st') \<and>
     (r = OTA_STATUS_OK \<longrightarrow>
        erased (mem (update_flash st) (o_fs st')) (unat (update_addr st)) (unat (update_size B st)))"
proof -
  let ?p = "iop (o_img st)"
  define st1 where "st1 = default_skip B ?p st"
  have d: "o_fs st1 = o_fs st" "same_service st st1" "op_get_size st1 = op_get_size st"
    by (simp_all add: st1_def default_skip_def same_service_def)
  obtain l where l: "notify OTA_UPGRADE_START 0 (Some 0) st1 = Some (st1\<lparr>cb_log := l\<rparr>)"
    using notify_Some by blast
  obtain e s1 where E: "if_flash_erase F (update_flash st) (update_addr st) (update_size B st) (o_fs st) = Some (e, s1)"
    "e = 0 \<or> e = - 1" "store_frame ok dsize mem (update_flash st) (unat (update_addr st)) (unat (update_size B st)) (o_fs st) s1"
    "e = 0 \<longrightarrow> mem (update_flash st) s1 = nor_erase (mem (update_flash st) (o_fs st)) (unat (update_addr st)) (unat (update_size B st))"
    using erase_law [OF ok fits] by blast
  have "ota_push_start F B st =
      Some (if e \<noteq> 0 then OTA_STATUS_ERROR else OTA_STATUS_OK, st1\<lparr>cb_log := l, o_fs := s1\<rparr>)"
    using ota_readyD [OF ready] l E(1) d(1)
    by (simp add: ota_push_start_def on_fs_def update_flash_def update_size_def flip: st1_def)
  then show ?thesis
    using E d by (auto simp: same_service_def st1_def erased_nor_erase)
qed

lemma push_data_law:
  assumes ready: "ota_ready B st" and ok: "ok (update_flash st) (o_fs st)"
    and fits: "unat (update_addr st) + unat (update_size B st) \<le> dsize (update_flash st) (o_fs st)"
    and skip: "unat (ota_skip_size st) + unat (update_size B st) < 4294967296"
    and len: "length data < 4294967296"
    and inv: "push_inv B (mem (update_flash st) (o_fs st)) st bs"
  shows "\<exists>r st'. ota_push_data F B data st = Some (r, st') \<and> same_service st st' \<and>
     ota_skip_size st' = ota_skip_size st \<and>
     store_frame ok dsize mem (update_flash st) (unat (update_addr st)) (unat (update_size B st))
       (o_fs st) (o_fs st') \<and>
     (r = OTA_STATUS_OK \<longrightarrow> push_inv B (mem (update_flash st) (o_fs st')) st' (bs @ data)) \<and>
     (length bs + length data > unat (ota_skip_size st) + unat (update_size B st) \<longrightarrow>
        r = OTA_STATUS_ERROR \<and> o_fs st' = o_fs st)"
proof -
  let ?p = "iop (o_img st)" and ?fl = "update_flash st" and ?a = "update_addr st" and ?n = "update_size B st"
  let ?fr = "store_frame ok dsize mem ?fl (unat ?a) (unat ?n)"
  define g k d where "g = op_get_size st" and "k = ota_skip_size st" and "d = (of_nat (length data) :: u32)"
  have ud: "unat d = length data" using len by (simp add: d_def unat_of_nat)
  have G: "unat g = length bs" and H: "slot_holds (mem ?fl (o_fs st)) (unat ?a) (unat ?n) (unat k) bs"
    using inv by (simp_all add: push_inv_def g_def k_def)
  have gk: "unat g \<le> unat k + unat ?n" using G H by (simp add: slot_holds_def)
  note rd = ota_readyD [OF ready]
  have out: "\<exists>l. push_out B ?p status remain st' = Some (status, st'\<lparr>cb_log := l\<rparr>)" for status remain st'
  proof -
    have q: "(if remain > 0 then map_option (\<lambda>q. 80 - q) (udiv (remain * 80) (slot_size B ?p)) else Some 0)
        = Some (if remain > 0 then 80 - remain * 80 div slot_size B ?p else 0)"
      using rd(4) by (simp add: udiv_def)
    show ?thesis
      unfolding push_out_def q by (rule notify_then)
  qed
  define sk where "sk = (if g < k then k - g else 0)"
  define g' where "g' = g + sk"
  note room = push_room [of k ?n g g', OF skip [folded k_def] gk g'_def [unfolded sk_def]]
  have usk: "unat sk = unat k - length bs"
    using G by (auto simp: sk_def word_less_nat_alt unat_sub order.strict_implies_order)
  have pass: "ota_push_data F B data st =
      (if d - sk > ?n + k - g' then push_out B ?p OTA_STATUS_ERROR (?n + k - g') (st\<lparr>op_get_size := g'\<rparr>)
       else do {
         (ret, st2) \<leftarrow> on_fs (if_flash_write F ?fl (?a + g' - k) (drop (unat sk) data) (d - sk))
                        (st\<lparr>op_get_size := g'\<rparr>);
         push_out B ?p (if ret \<noteq> d - sk then OTA_STATUS_ERROR else OTA_STATUS_OK) (?n + k - g')
           (st2\<lparr>op_get_size := op_get_size st2 + ret\<rparr>)
       })" if more: "unat k < length bs + length data" and ne: "data \<noteq> []"
  proof -
    have "\<not> (g < k \<and> k - g \<ge> d)"
      using usk more ud G by (auto simp: sk_def word_less_nat_alt word_le_nat_alt split: if_splits)
    moreover have "d \<noteq> 0" using ud ne by auto
    ultimately show ?thesis
      using rd by (cases "g < k") (simp_all add: ota_push_data_def Let_def update_flash_def update_size_def
          sk_def g'_def g_def k_def d_def)
  qed
  have w: "unat (d - sk) = length data - (unat k - length bs)" if "unat k < length bs + length data"
    using that usk ud by (subst unat_sub) (simp_all add: word_le_nat_alt)
  consider (empty) "data = []" | (skipped) "data \<noteq> []" "length bs + length data \<le> unat k"
    | (over) "data \<noteq> []" "unat k < length bs + length data" "unat k + unat ?n < length bs + length data"
    | (store) "data \<noteq> []" "unat k < length bs + length data" "length bs + length data \<le> unat k + unat ?n"
    by linarith
  then show ?thesis
  proof cases
    case empty
    then have "ota_push_data F B data st = push_out B ?p OTA_STATUS_OK 0 st"
      by (simp add: ota_push_data_def rd(1))
    with out obtain l where "ota_push_data F B data st = Some (OTA_STATUS_OK, st\<lparr>cb_log := l\<rparr>)" by fastforce
    then show ?thesis
      using inv gk G empty
      by (simp add: same_service_def push_inv_def update_addr_def update_size_def k_def)
  next
    case skipped
    have "ota_push_data F B data st = push_out B ?p OTA_STATUS_OK 0 (st\<lparr>op_get_size := g + d\<rparr>)"
    proof -
      have "0 < length data" using skipped(1) by simp
      then have "unat g < unat k" using skipped(2) G by linarith
      then have lt: "g < k" by (simp add: word_less_nat_alt)
      then have "unat (k - g) = unat k - unat g" by (intro unat_sub) simp
      then have "k - g \<ge> d" using skipped G ud by (simp add: word_le_nat_alt)
      moreover have "d \<noteq> 0" using ud skipped(1) by auto
      ultimately show ?thesis
        using lt by (simp add: ota_push_data_def rd(1) flip: g_def k_def d_def)
    qed
    with out obtain l where
      "ota_push_data F B data st = Some (OTA_STATUS_OK, st\<lparr>op_get_size := g + d, cb_log := l\<rparr>)" by fastforce
    moreover have "unat (g + d) = length bs + length data"
      using unat_add_const [of g d] G ud skipped skip by (simp add: k_def)
    ultimately show ?thesis
      using slot_holds_skip [OF H skipped(2)] skipped
      by (simp add: same_service_def push_inv_def update_addr_def update_size_def k_def)
  next
    case over
    have "0 < length data" using over(1) by simp
    then have "unat ?n + unat k - max (length bs) (unat k) < length data - (unat k - length bs)"
      using over(2,3) by linarith
    then have "d - sk > ?n + k - g'"
      using w [OF over(2)] by (simp add: word_less_nat_alt room G)
    with pass [OF over(2,1)] out obtain l where
      "ota_push_data F B data st = Some (OTA_STATUS_ERROR, st\<lparr>op_get_size := g', cb_log := l\<rparr>)" by fastforce
    then show ?thesis by (simp add: same_service_def k_def)
  next
    case store
    let ?off = "length bs - unat k" and ?xs = "drop (unat k - length bs) data"
    have "\<not> unat ?n + unat k - max (length bs) (unat k) < length data - (unat k - length bs)"
      using store(2,3) by linarith
    then have le: "\<not> d - sk > ?n + k - g'"
      using w [OF store(2)] by (simp add: word_less_nat_alt room G)
    have addr: "unat (?a + g' - k) = unat ?a + ?off"
    proof -
      have off: "unat (g' - k) = ?off"
        using room(1) G by (subst unat_sub) (auto simp: word_le_nat_alt max_def)
      have e: "?a + g' - k = ?a + (g' - k)" by simp
      have "unat ?a + unat (g' - k) < 4294967296"
        unfolding off using fits dsize_bound [of ?fl "o_fs st"] store by linarith
      from unat_add_const [OF this] show ?thesis unfolding e off .
    qed
    have len2: "unat (d - sk) = length ?xs" using w [OF store(2)] by simp
    have inside: "unat ?a + ?off + length ?xs \<le> unat ?a + unat ?n" using store by simp
    obtain r s1 where W: "if_flash_write F ?fl (?a + g' - k) ?xs (d - sk) (o_fs st) = Some (r, s1)"
      "r = d - sk \<or> r = 0" "store_frame ok dsize mem ?fl (unat ?a + ?off) (length ?xs) (o_fs st) s1"
      "r = d - sk \<longrightarrow> mem ?fl s1 = nor_program (mem ?fl (o_fs st)) (unat ?a + ?off) ?xs"
    proof -
      have lt: "unat (?a + g' - k) + unat (d - sk) < 4294967296"
        using addr len2 inside fits dsize_bound [of ?fl "o_fs st"] by simp
      have "unat (d - sk) \<le> length ?xs" using len2 by simp
      from write_law [OF ok this lt] that show ?thesis unfolding addr len2 by auto
    qed
    have fr: "?fr (o_fs st) s1"
      by (rule store_frame_mono [OF W(3)]) (use inside in auto)
    define status where "status = (if r \<noteq> d - sk then OTA_STATUS_ERROR else OTA_STATUS_OK)"
    have "ota_push_data F B data st =
        push_out B ?p status (?n + k - g') (st\<lparr>o_fs := s1, op_get_size := g' + r\<rparr>)"
      using pass [OF store(2,1)] le W(1) usk by (simp add: on_fs_def status_def)
    with out obtain l where
      eq: "ota_push_data F B data st = Some (status, st\<lparr>o_fs := s1, op_get_size := g' + r, cb_log := l\<rparr>)"
      by fastforce
    have "push_inv B (mem ?fl s1) (st\<lparr>o_fs := s1, op_get_size := g' + r, cb_log := l\<rparr>) (bs @ data)"
      if "status = OTA_STATUS_OK"
    proof -
      have r: "r = d - sk" using that by (auto simp: status_def split: if_splits)
      have "unat (g' + r) = length bs + length data"
        using unat_add_const [of g' r] room(1) G len2 r store skip by (simp add: k_def max_def)
      moreover have "slot_holds (mem ?fl s1) (unat ?a) (unat ?n) (unat k) (bs @ data)"
        using slot_holds_write [OF H store(3,2)] W(4) r by simp
      ultimately show ?thesis by (simp add: push_inv_def update_addr_def update_size_def k_def)
    qed
    with eq fr store show ?thesis by (auto simp: same_service_def k_def)
  qed
qed

end

end
