(* ===== verification/Ota_Verify_Spec.thy ===== *)
theory Ota_Verify_Spec
  imports Ota_Spec
begin

text \<open>
  The verification half of the update service: walking to the end of the image, reading the
  verify data, feeding the image to the crypto engine and switching the boot configuration.
  The engine is given by what it documents: the digest is a function of the bytes appended.
\<close>

definition engine_ok ::
  "'h crypto \<Rightarrow> ota_verify \<Rightarrow> ('h \<Rightarrow> u8 list) \<Rightarrow> (u8 list \<Rightarrow> u8 list) \<Rightarrow> bool" where
  "engine_ok C alg absorbed H \<longleftrightarrow>
     (\<forall>n h. HAL_Hash_Init C alg n = (HAL_OK, h) \<longrightarrow> absorbed h = []) \<and>
     (\<forall>h xs h'. HAL_Hash_Append C alg h xs = (HAL_OK, h') \<longrightarrow> absorbed h' = absorbed h @ xs) \<and>
     (\<forall>h d. HAL_Hash_Finish C alg h = (HAL_OK, d) \<longrightarrow> d = H (absorbed h))"

text \<open>The part of the image the digest covers: all of it but the verify data at its end.\<close>

definition verified_size :: "'s ota \<Rightarrow> u32" where
  "verified_size st = op_get_size st - ota_skip_size st - OTA_VERIFY_DATA_BYTES"

definition digest_confirmed ::
  "content \<Rightarrow> 's ota \<Rightarrow> (u8 list \<Rightarrow> u8 list) \<Rightarrow> ota_verify \<Rightarrow> u8 list \<Rightarrow> bool" where
  "digest_confirmed m st H alg expected \<longleftrightarrow>
     (unat (update_addr st) + unat (verified_size st) < 4294967296 \<longrightarrow>
      take (digest_size alg) expected =
        take (digest_size alg) (H (content_read m (unat (update_addr st)) (unat (verified_size st)))))"

context flash_store
begin

text \<open>A call that changes no flash.\<close>

lemma frame_none_any:
  "store_frame ok dsize mem fl 0 0 s s' \<Longrightarrow> store_frame ok dsize mem fl' 0 0 s s'"
  by (simp add: frame_none_iff)

lemma append_loop_law:
  assumes "ok fl s" "length buf = 2048"
  shows "\<exists>l h' s'. append_loop F C alg fl a left buf h s = Some (l, h', s') \<and>
     store_frame ok dsize mem fl 0 0 s s' \<and>
     (l = 0 \<and> engine_ok C alg absorbed H \<and> unat a + unat left < 4294967296 \<longrightarrow>
        absorbed h' = absorbed h @ content_read (mem fl s) (unat a) (unat left))"
  using assms
proof (induction "unat left" arbitrary: left a buf h s rule: less_induct)
  case less
  show ?case
  proof (cases "left = 0")
    case True
    then show ?thesis by (subst append_loop.simps) simp
  next
    case False
    define n where "n = (if left > 2048 then 2048 else left :: u32)"
    have n: "n \<noteq> 0" "unat n \<le> unat left" "unat n \<le> 2048" "0 < unat n"
      using False by (auto simp: n_def word_less_nat_alt unat_gt_0 not_less split: if_splits)
    have pos: "0 < left" using False by (simp add: word_neq_0_conv)
    obtain r b s1 where R: "if_hal_read F fl a buf n s = Some (r, b, s1)"
      "store_frame ok dsize mem fl 0 0 s s1" "length b = 2048"
      "r = 0 \<longrightarrow> (unat a + unat n < 4294967296 \<longrightarrow>
         b = content_read (mem fl s) (unat a) (unat n) @ drop (unat n) buf)"
      using hal_read_law [OF less.prems(1), of n buf a] n less.prems(2) by auto
    obtain e h1 where A: "HAL_Hash_Append C alg h (take (unat n) b) = (e, h1)" by force
    consider "r \<noteq> 0" | "r = 0" "e \<noteq> 0" | "r = 0" "e = 0" by blast
    then show ?thesis
    proof cases
      case 1
      then show ?thesis
        using R(1,2) False pos by (subst append_loop.simps) (simp flip: n_def)
    next
      case 2
      then show ?thesis
        using R(1,2) A False pos by (subst append_loop.simps) (simp flip: n_def)
    next
      case 3
      have eq: "append_loop F C alg fl a left buf h s = append_loop F C alg fl (a + n) (left - n) b h1 s1"
        using 3 R(1) A pos by (subst append_loop.simps) (simp flip: n_def)
      have sub: "unat (left - n) = unat left - unat n"
        by (rule unat_sub) (use n in \<open>simp add: word_le_nat_alt\<close>)
      then have smaller: "unat (left - n) < unat left" using n by simp
      have ok1: "ok fl s1" and m1: "mem fl s1 = mem fl s"
        using R(2) less.prems(1) by (simp_all add: store_frame_ok store_frame_mem_none)
      obtain l h' s' where IH: "append_loop F C alg fl (a + n) (left - n) b h1 s1 = Some (l, h', s')"
        "store_frame ok dsize mem fl 0 0 s1 s'"
        "l = 0 \<and> engine_ok C alg absorbed H \<and> unat (a + n) + unat (left - n) < 4294967296 \<longrightarrow>
           absorbed h' = absorbed h1 @ content_read (mem fl s1) (unat (a + n)) (unat (left - n))"
        using less.hyps [OF smaller ok1 R(3), of "a + n" h1] by blast
      have post: "absorbed h' = absorbed h @ content_read (mem fl s) (unat a) (unat left)"
        if c: "l = 0" "engine_ok C alg absorbed H" "unat a + unat left < 4294967296"
      proof -
        have an: "unat (a + n) = unat a + unat n" by (rule unat_add_const) (use n c(3) in linarith)
        have "take (unat n) b = content_read (mem fl s) (unat a) (unat n)"
          using R(4) 3 n c(3) by simp
        then have "absorbed h1 = absorbed h @ content_read (mem fl s) (unat a) (unat n)"
          using c(2) A 3 by (simp add: engine_ok_def)
        moreover have "content_read (mem fl s) (unat a) (unat left) =
            content_read (mem fl s) (unat a) (unat n)
              @ content_read (mem fl s) (unat a + unat n) (unat left - unat n)"
          using content_read_add [of "mem fl s" "unat a" "unat n" "unat left - unat n"] n by simp
        ultimately show ?thesis using IH(3) c an sub m1 n by simp
      qed
      show ?thesis
        unfolding eq using IH(1) post store_frame_trans [OF R(2) IH(2)] by blast
    qed
  qed
qed

lemma append_process_law:
  assumes ok: "ok fl s"
  shows "\<exists>r h' s'. ota_verify_image_append_process F C alg fl a len h s = Some (r, h', s') \<and>
     store_frame ok dsize mem fl 0 0 s s' \<and>
     (r = OTA_STATUS_OK \<and> engine_ok C alg absorbed H \<and> unat a + unat len < 4294967296 \<longrightarrow>
        absorbed h' = absorbed h @ content_read (mem fl s) (unat a) (unat len))"
proof -
  obtain e s1 where O: "if_hal_open F fl 5000 s = Some (e, s1)" "store_frame ok dsize mem fl 0 0 s s1"
    using open_law [OF ok] by blast
  have ok1: "ok fl s1" and m1: "mem fl s1 = mem fl s"
    using O(2) ok by (simp_all add: store_frame_ok store_frame_mem_none)
  obtain q s2 where M: "if_malloc F 2048 s1 = (q, s2)" by force
  note ml = malloc_law [OF M, of fl]
  have f2: "store_frame ok dsize mem fl 0 0 s s2" using O(2) ml by (blast intro: store_frame_trans)
  have ok2: "ok fl s2" and m2: "mem fl s2 = mem fl s"
    using f2 ok by (simp_all add: store_frame_ok store_frame_mem_none)
  have fin: "\<exists>c s'. if_hal_close F fl t = Some (c, s') \<and> store_frame ok dsize mem fl 0 0 s s'"
    if "store_frame ok dsize mem fl 0 0 s t" for t
    using close_law [of fl t] store_frame_ok [OF that ok] store_frame_trans [OF that] by blast
  consider "e \<noteq> 0" | "e = 0" "q = None" | buf where "e = 0" "q = Some buf" by (cases q) auto
  then show ?thesis
  proof cases
    case 1
    then show ?thesis using O by (simp add: ota_verify_image_append_process_def)
  next
    case 2
    obtain c s4 where "if_hal_close F fl s2 = Some (c, s4)" "store_frame ok dsize mem fl 0 0 s s4"
      using fin [OF f2] by blast
    then show ?thesis using 2 O(1) M by (simp add: ota_verify_image_append_process_def)
  next
    case (3 buf)
    note True = 3(1) and q = 3(2)
    have lb: "length buf = 2048" using ml q by simp
    obtain l h' s3 where L: "append_loop F C alg fl a len buf h s2 = Some (l, h', s3)"
      "store_frame ok dsize mem fl 0 0 s2 s3"
      "l = 0 \<and> engine_ok C alg absorbed H \<and> unat a + unat len < 4294967296 \<longrightarrow>
         absorbed h' = absorbed h @ content_read (mem fl s2) (unat a) (unat len)"
      using append_loop_law [OF ok2 lb, of C alg a len h absorbed H] by blast
    obtain c s4 where X: "if_hal_close F fl s3 = Some (c, s4)" "store_frame ok dsize mem fl 0 0 s s4"
      using fin [OF store_frame_trans [OF f2 L(2)]] by blast
    have "ota_verify_image_append_process F C alg fl a len h s =
        Some (if l = 0 then OTA_STATUS_OK else OTA_STATUS_ERROR, h', s4)"
      using True q O(1) M L(1) X(1) by (simp add: ota_verify_image_append_process_def)
    then show ?thesis using X(2) L(3) m2 by auto
  qed
qed

lemma verify_digest_law:
  assumes ready: "ota_ready B st" and build: "\<not> BOOTLOADER B" and ok: "ok (update_flash st) (o_fs st)"
    and vlen: "digest_size alg \<le> length expected"
  shows "\<exists>r s'. ota_verify_image_digest F B C alg (ota_get_update_seq st) expected st = Some (r, st\<lparr>o_fs := s'\<rparr>) \<and>
     store_frame ok dsize mem 0 0 0 (o_fs st) s' \<and>
     (r = OTA_STATUS_OK \<and> engine_ok C alg absorbed H \<longrightarrow>
        digest_confirmed (mem (update_flash st) (o_fs st)) st H alg expected)"
proof -
  obtain e h where I: "HAL_Hash_Init C alg (op_get_size st) = (e, h)" by force
  obtain r h' s1 where P: "ota_verify_image_append_process F C alg (update_flash st) (update_addr st)
      (verified_size st) h (o_fs st) = Some (r, h', s1)"
    "store_frame ok dsize mem (update_flash st) 0 0 (o_fs st) s1"
    "r = OTA_STATUS_OK \<and> engine_ok C alg absorbed H \<and>
       unat (update_addr st) + unat (verified_size st) < 4294967296 \<longrightarrow>
       absorbed h' = absorbed h @ content_read (mem (update_flash st) (o_fs st))
         (unat (update_addr st)) (unat (verified_size st))"
    using append_process_law [OF ok, of C alg "update_addr st" "verified_size st" h absorbed H] by blast
  have A: "ota_verify_image_append F B C alg (ota_get_update_seq st) h st = Some (r, h', st\<lparr>o_fs := s1\<rparr>)"
    using P(1) ota_readyD(1) [OF ready] build
    by (simp add: ota_verify_image_append_def verified_size_def update_flash_def update_addr_def on_fs_def)
  obtain e2 dg where D: "HAL_Hash_Finish C alg h' = (e2, dg)" by force
  consider "e \<noteq> 0" | "e = 0" "r \<noteq> OTA_STATUS_OK" | "e = 0" "r = OTA_STATUS_OK" "e2 \<noteq> 0"
    | "e = 0" "r = OTA_STATUS_OK" "e2 = 0" by blast
  then show ?thesis
  proof cases
    case 1
    then have "ota_verify_image_digest F B C alg (ota_get_update_seq st) expected st = Some (OTA_STATUS_ERROR, st\<lparr>o_fs := o_fs st\<rparr>)"
      using I by (simp add: ota_verify_image_digest_def)
    then show ?thesis by (metis ota_status.distinct(1) store_frame_refl)
  next
    case 2
    then have "ota_verify_image_digest F B C alg (ota_get_update_seq st) expected st = Some (OTA_STATUS_ERROR, st\<lparr>o_fs := s1\<rparr>)"
      using I A by (simp add: ota_verify_image_digest_def)
    then show ?thesis using frame_none_any [OF P(2)] by (metis ota_status.distinct(1))
  next
    case 3
    then have "ota_verify_image_digest F B C alg (ota_get_update_seq st) expected st = Some (OTA_STATUS_ERROR, st\<lparr>o_fs := s1\<rparr>)"
      using I A D by (simp add: ota_verify_image_digest_def)
    then show ?thesis using frame_none_any [OF P(2)] by (metis ota_status.distinct(1))
  next
    case 4
    let ?ds = "digest_size alg"
    have eq: "ota_verify_image_digest F B C alg (ota_get_update_seq st) expected st =
        Some (if take ?ds expected = take ?ds dg then OTA_STATUS_OK else OTA_STATUS_ERROR, st\<lparr>o_fs := s1\<rparr>)"
      using I A D 4 vlen by (simp add: ota_verify_image_digest_def)
    have "dg = H (content_read (mem (update_flash st) (o_fs st)) (unat (update_addr st)) (unat (verified_size st)))"
      if "engine_ok C alg absorbed H" "unat (update_addr st) + unat (verified_size st) < 4294967296"
    proof -
      have "absorbed h = []" "dg = H (absorbed h')" using that(1) I D 4 by (auto simp: engine_ok_def)
      then show ?thesis using P(3) 4 that by simp
    qed
    then show ?thesis
      unfolding eq using frame_none_any [OF P(2)]
      by (intro exI conjI impI) (auto simp: digest_confirmed_def split: if_splits)
  qed
qed

text \<open>
  \<open>boot_area_ready\<close>: the boot configuration's area lies in its device and can be written.
\<close>

lemma verify_failed_law:
  assumes "ota_ready B st"
  shows "\<exists>l. verify_failed B st = Some (OTA_STATUS_ERROR, st\<lparr>cb_log := l\<rparr>)"
proof -
  have "udiv (reported_size B st * 80) (slot_size B (iop (o_img st))) =
      Some (reported_size B st * 80 div slot_size B (iop (o_img st)))"
    using ota_readyD(4) [OF assms] by (simp add: udiv_def)
  then show ?thesis
    using ota_readyD(1) [OF assms] notify_then by (simp add: verify_failed_def)
qed

end

definition boot_area_ok :: "(u32 \<Rightarrow> 's \<Rightarrow> bool) \<Rightarrow> (u32 \<Rightarrow> 's \<Rightarrow> nat) \<Rightarrow> (u32 \<Rightarrow> 's \<Rightarrow> content) \<Rightarrow> image_ota_param \<Rightarrow> 's \<Rightarrow> bool" where
  "boot_area_ok ok dsize mem p s \<longleftrightarrow> ok (ucast (ota_flash p)) s \<and>
     unat (ota_addr p) + unat (ota_size p) \<le> dsize (ucast (ota_flash p)) s \<and>
     unat (ota_size p) \<le> 524288 \<and>
     cfg_area_ready (mem (ucast (ota_flash p)) s) (unat (ota_addr p)) (ota_size p)"

text \<open>What confirms an image: no digest was asked for, or the digest matches.\<close>

definition verify_confirmed ::
  "'h crypto \<Rightarrow> ('h \<Rightarrow> u8 list) \<Rightarrow> (u8 list \<Rightarrow> u8 list) \<Rightarrow> content \<Rightarrow> 's ota \<Rightarrow> ota_verify option
     \<Rightarrow> u8 list option \<Rightarrow> bool" where
  "verify_confirmed C absorbed H m st v expected \<longleftrightarrow>
     (\<exists>alg. v = Some alg \<and> op_get_size st \<noteq> 0 \<and>
        (alg = OTA_VERIFY_NONE \<or>
         (\<exists>d. expected = Some d \<and> (engine_ok C alg absorbed H \<longrightarrow> digest_confirmed m st H alg d))))"

context flash_store
begin

lemma boot_area_frame:
  assumes "store_frame ok dsize mem fl 0 0 s s'"
  shows "boot_area_ok ok dsize mem p s \<Longrightarrow> boot_area_ok ok dsize mem p s'"
  using assms by (simp add: boot_area_ok_def frame_none_iff)

lemma verify_image_law:
  assumes ready: "ota_ready B st" and build: "\<not> BOOTLOADER B" "\<not> POLICY_COMPRESSION B"
    and ok: "ok (update_flash st) (o_fs st)"
    and boot: "boot_area_ok ok dsize mem (iop (o_img st)) (o_fs st)"
    and vlen: "\<forall>alg d. v = Some alg \<and> expected = Some d \<longrightarrow> digest_size alg \<le> length d"
  shows "\<exists>r st'. ota_verify_image F B C v expected st = Some (r, st') \<and> same_service st st' \<and>
     op_get_size st' = op_get_size st \<and> ota_skip_size st' = ota_skip_size st \<and>
     store_frame ok dsize mem (ucast (ota_flash (iop (o_img st)))) (unat (ota_addr (iop (o_img st))))
       (unat (ota_size (iop (o_img st)))) (o_fs st) (o_fs st') \<and>
     (store_frame ok dsize mem 0 0 0 (o_fs st) (o_fs st') \<or>
        verify_confirmed C absorbed H (mem (update_flash st) (o_fs st)) st v expected) \<and>
     (r = OTA_STATUS_OK \<longrightarrow>
        verify_confirmed C absorbed H (mem (update_flash st) (o_fs st)) st v expected \<and>
        cfg_stored (mem (ucast (ota_flash (iop (o_img st)))) (o_fs st')) (iop (o_img st))
          (raw_of_seq (ota_get_update_seq st)))"
    (is "\<exists>r st'. ?run = Some (r, st') \<and> ?post r st'")
proof -
  let ?p = "iop (o_img st)" and ?sq = "ota_get_update_seq st"
  let ?conf = "verify_confirmed C absorbed H (mem (update_flash st) (o_fs st)) st v expected"
  let ?fr = "store_frame ok dsize mem (ucast (ota_flash ?p)) (unat (ota_addr ?p)) (unat (ota_size ?p))"
  have seq: "verify_seq B st = Some ?sq" "\<not> 2 \<le> ?sq"
    using build ready by (simp_all add: verify_seq_def ota_ready_def not_le)
  have rej: "?thesis" if "?run = Some (OTA_STATUS_ERROR, st)"
    by (rule exI, rule exI, intro conjI, rule that) (simp_all add: same_service_def)
  have failed: "?thesis" if "?run = verify_failed B (st\<lparr>o_fs := s1\<rparr>)" "?fr (o_fs st) s1"
      "store_frame ok dsize mem 0 0 0 (o_fs st) s1 \<or> ?conf" for s1
  proof -
    obtain l where "verify_failed B (st\<lparr>o_fs := s1\<rparr>) = Some (OTA_STATUS_ERROR, st\<lparr>o_fs := s1, cb_log := l\<rparr>)"
      using verify_failed_law [of B "st\<lparr>o_fs := s1\<rparr>"] ready by auto
    with that(1) have "?run = Some (OTA_STATUS_ERROR, st\<lparr>o_fs := s1, cb_log := l\<rparr>)" by simp
    then show ?thesis
      by (rule_tac exI, rule_tac exI, intro conjI) (assumption | use that(2,3) in \<open>simp add: same_service_def\<close>)+
  qed
  consider "v \<noteq> Some OTA_VERIFY_NONE" "expected = None" | "op_get_size st = 0" | "v = None" "expected \<noteq> None"
    | alg where "v = Some alg" "op_get_size st \<noteq> 0" "alg = OTA_VERIFY_NONE \<or> expected \<noteq> None" by auto
  then show ?thesis
  proof cases
    case 1
    then show ?thesis by (intro rej) (simp add: ota_verify_image_def)
  next
    case 2
    then show ?thesis by (intro rej) (simp add: ota_verify_image_def seq)
  next
    case 3
    then show ?thesis by (intro rej) (auto simp: ota_verify_image_def seq)
  next
    case (4 alg)
    let ?check = "if alg = OTA_VERIFY_NONE then Some (ota_verify_image_none ?sq expected, st)
       else ota_verify_image_digest F B C alg ?sq (the expected) st"
    obtain r1 s1 where K: "?check = Some (r1, st\<lparr>o_fs := s1\<rparr>)" "store_frame ok dsize mem 0 0 0 (o_fs st) s1"
      "r1 = OTA_STATUS_OK \<longrightarrow> ?conf"
    proof (cases "alg = OTA_VERIFY_NONE")
      case True
      show ?thesis
        by (rule that [of OTA_STATUS_OK "o_fs st"])
          (use True 4 in \<open>simp_all add: ota_verify_image_none_def verify_confirmed_def\<close>)
    next
      case False
      then obtain d where d: "expected = Some d" using 4(3) by auto
      obtain r1 s1 where "ota_verify_image_digest F B C alg ?sq d st = Some (r1, st\<lparr>o_fs := s1\<rparr>)"
        "store_frame ok dsize mem 0 0 0 (o_fs st) s1"
        "r1 = OTA_STATUS_OK \<and> engine_ok C alg absorbed H \<longrightarrow>
          digest_confirmed (mem (update_flash st) (o_fs st)) st H alg d"
        using verify_digest_law [OF ready build(1) ok vlen [rule_format, OF conjI [OF 4(1) d]], of C absorbed H] by blast
      then show ?thesis
        using that [of r1 s1] False 4 d by (simp add: verify_confirmed_def)
    qed
    show ?thesis
    proof (cases "r1 = OTA_STATUS_OK")
      case False
      show ?thesis
      proof (rule failed)
        show "?run = verify_failed B (st\<lparr>o_fs := s1\<rparr>)"
          using 4 K(1) False seq by (auto simp: ota_verify_image_def)
        show "?fr (o_fs st) s1" by (rule store_frame_none [OF K(2)])
      qed (use K(2) in blast)
    next
      case True
      have boot1: "boot_area_ok ok dsize mem ?p s1" by (rule boot_area_frame [OF K(2) boot])
      let ?cfg = "\<lparr>cfg_seq = ?sq, cfg_state = IMAGE_STATE_VERIFIED\<rparr>"
      obtain q s2 where S: "image_set_cfg F (o_img st) (Some ?cfg) s1 = Some (q, s2)" "q = 0 \<or> q = - 1"
        "?fr s1 s2"
        "q = 0 \<longrightarrow> cfg_stored (mem (ucast (ota_flash ?p)) s2) ?p (raw_of_seq ?sq)"
        using set_cfg_law [of "o_img st" s1 "Some ?cfg"] boot1 unfolding boot_area_ok_def by auto
      have fr2: "?fr (o_fs st) s2" by (rule store_frame_trans [OF store_frame_none [OF K(2)] S(3)])
      have conf: ?conf using K(3) True by simp
      show ?thesis
      proof (cases "q = 0")
        case no: False
        show ?thesis
        proof (rule failed)
          show "?run = verify_failed B (st\<lparr>o_fs := s2\<rparr>)"
            using 4 K(1) True seq S(1) no build by (auto simp: ota_verify_image_def on_fs_def)
          show "?fr (o_fs st) s2" by (rule fr2)
        qed (use conf in blast)
      next
        case yes: True
        obtain l where "notify OTA_UPGRADE_SUCCESS (reported_size B (st\<lparr>o_fs := s2\<rparr>)) (Some 100) (st\<lparr>o_fs := s2\<rparr>)
            = Some (st\<lparr>o_fs := s2, cb_log := l\<rparr>)" using notify_Some by blast
        then have "?run = Some (OTA_STATUS_OK, st\<lparr>o_fs := s2, cb_log := l\<rparr>)"
          using 4 K(1) True seq S(1) yes build by (auto simp: ota_verify_image_def on_fs_def)
        then show ?thesis
          using fr2 conf S(4) yes
          by (rule_tac exI, rule_tac exI, intro conjI) (assumption | simp add: same_service_def)+
      qed
    qed
  qed
qed

end

text \<open>The position behind the last section of an image, where its verify data are.\<close>

inductive image_end ::
  "image_ota_param \<Rightarrow> u8 \<Rightarrow> (u32 \<Rightarrow> content) \<Rightarrow> u32 \<Rightarrow> u32 \<Rightarrow> u32 \<Rightarrow> bool" for p sq M where
  end_here: "next_section IMAGE_CHECK_OTA (header_at (M fl) a) = IMAGE_INVALID_ADDR \<Longrightarrow>
     image_end p sq M fl a (a + 64 + sh_data_size (header_at (M fl) a))"
| end_later: "next_section IMAGE_CHECK_OTA (header_at (M fl) a) \<noteq> IMAGE_INVALID_ADDR \<Longrightarrow>
     image_end p sq M (ucast (iop_flash p ! unat sq))
       (IMG_SEC_ADDR p sq (next_section IMAGE_CHECK_OTA (header_at (M fl) a))) e \<Longrightarrow>
     image_end p sq M fl a e"

inductive_cases image_endE: "image_end p sq M fl a e"

lemma image_end_unique: "image_end p sq M fl a e \<Longrightarrow> image_end p sq M fl a e' \<Longrightarrow> e' = e"
proof (induction rule: image_end.induct)
  case (end_here fl a)
  then show ?case by (auto elim: image_endE)
next
  case (end_later fl a e)
  from end_later.prems show ?case
    by (rule image_endE) (use end_later.hyps(1) end_later.IH in auto)
qed

context flash_store
begin

text \<open>Walking to the end of the image: on a chain that ends the walk returns, and reads only.\<close>

lemma pos_walk_law:
  assumes "finite_chain IMAGE_CHECK_OTA p sq (\<lambda>f. mem f s) fl a"
    and "ok fl s" "ok (ucast (iop_flash p ! unat sq)) s" "length sh = 64"
  shows "\<exists>r fl' s'. pos_walk F p sq fl a sh s = Some (r, fl', s') \<and>
     store_frame ok dsize mem 0 0 0 s s' \<and> (fl' = fl \<or> fl' = ucast (iop_flash p ! unat sq)) \<and>
     (r \<noteq> 0 \<longrightarrow> image_end p sq (\<lambda>f. mem f s) fl a r)"
proof -
  have *: "finite_chain IMAGE_CHECK_OTA p sq M fl a \<Longrightarrow> (\<forall>f. mem f s = M f) \<Longrightarrow> ok fl s \<Longrightarrow>
      ok (ucast (iop_flash p ! unat sq)) s \<Longrightarrow> length sh = 64 \<Longrightarrow>
      \<exists>r fl' s'. pos_walk F p sq fl a sh s = Some (r, fl', s') \<and>
        store_frame ok dsize mem 0 0 0 s s' \<and> (fl' = fl \<or> fl' = ucast (iop_flash p ! unat sq)) \<and>
        (r \<noteq> 0 \<longrightarrow> image_end p sq M fl a r)"
    for M fl a sh s
  proof (induction arbitrary: s sh rule: finite_chain.induct)
    case (chain_end a fl)
    obtain r b s1 where R: "if_hal_read F fl a sh 64 s = Some (r, b, s1)"
      "store_frame ok dsize mem fl 0 0 s s1" "length b = 64"
      "r = 0 \<longrightarrow> b = content_read (M fl) (unat a) 64"
      using hal_read_law [of fl s 64 sh a] chain_end by auto
    then have h: "section_header_of_bytes b = header_at (M fl) a" if "r = 0"
      using that by (simp add: header_at_def)
    have "\<exists>r'. pos_walk F p sq fl a sh s = Some (r', fl, s1) \<and> (r' \<noteq> 0 \<longrightarrow> image_end p sq M fl a r')"
      using R(1) h chain_end(2) end_here [of M fl a p sq]
      unfolding pos_walk.simps [of F p sq fl a sh s] by (auto simp: Let_def)
    then show ?case using frame_none_any [OF R(2)] by blast
  next
    case (chain_next a fl)
    let ?fl2 = "ucast (iop_flash p ! unat sq) :: u32"
    obtain r b s1 where R: "if_hal_read F fl a sh 64 s = Some (r, b, s1)"
      "store_frame ok dsize mem fl 0 0 s s1" "length b = 64"
      "r = 0 \<longrightarrow> b = content_read (M fl) (unat a) 64"
      using hal_read_law [of fl s 64 sh a] chain_next by auto
    define nx where "nx = next_section IMAGE_CHECK_OTA (header_at (M fl) a)"
    obtain r2 f2 s2 where IH: "pos_walk F p sq ?fl2 (IMG_SEC_ADDR p sq nx) b s1 = Some (r2, f2, s2)"
      "store_frame ok dsize mem 0 0 0 s1 s2" "f2 = ?fl2"
      "r2 \<noteq> 0 \<longrightarrow> image_end p sq M ?fl2 (IMG_SEC_ADDR p sq nx) r2"
      using chain_next.IH [of s1 b] chain_next.prems R(2,3) unfolding nx_def by (auto simp: frame_none_iff)
    have hdr: "section_header_of_bytes b = header_at (M fl) a" if "r = 0"
      using R(4) that by (simp add: header_at_def)
    have "(\<exists>r'. pos_walk F p sq fl a sh s = Some (r', fl, s1) \<and> (r' \<noteq> 0 \<longrightarrow> image_end p sq M fl a r')) \<or>
        nx \<noteq> IMAGE_INVALID_ADDR \<and>
        pos_walk F p sq fl a sh s = pos_walk F p sq ?fl2 (IMG_SEC_ADDR p sq nx) b s1"
      using R(1) hdr end_here [of M fl a p sq]
      unfolding pos_walk.simps [of F p sq fl a sh s] by (auto simp: nx_def Let_def)
    then show ?case
    proof (elim disjE exE conjE)
      fix r' assume "pos_walk F p sq fl a sh s = Some (r', fl, s1)" "r' \<noteq> 0 \<longrightarrow> image_end p sq M fl a r'"
      then show ?thesis using frame_none_any [OF R(2)] by blast
    next
      assume "nx \<noteq> IMAGE_INVALID_ADDR"
        and "pos_walk F p sq fl a sh s = pos_walk F p sq ?fl2 (IMG_SEC_ADDR p sq nx) b s1"
      then show ?thesis
        using IH store_frame_trans [OF frame_none_any [OF R(2)] IH(2)] end_later [of M fl a p sq r2]
        unfolding nx_def by auto
    qed
  qed
  show ?thesis by (rule * [OF assms(1) _ assms(2-4)]) simp
qed

lemma verify_pos_law:
  assumes ready: "ota_ready B st"
    and ok: "ok (IMG_BL_FLASH (iop (o_img st))) (o_fs st)" "ok (update_flash st) (o_fs st)"
    and fin: "finite_chain IMAGE_CHECK_OTA (iop (o_img st)) (ota_get_update_seq st) (\<lambda>f. mem f (o_fs st))
                (IMG_BL_FLASH (iop (o_img st))) (IMG_BL_ADDR (iop (o_img st)))"
  shows "\<exists>r s'. ota_get_verify_data_pos F (ota_get_update_seq st) st = Some (r, st\<lparr>o_fs := s'\<rparr>) \<and>
     store_frame ok dsize mem 0 0 0 (o_fs st) s' \<and>
     (r \<noteq> 0 \<longrightarrow> image_end (iop (o_img st)) (ota_get_update_seq st) (\<lambda>f. mem f (o_fs st))
        (IMG_BL_FLASH (iop (o_img st))) (IMG_BL_ADDR (iop (o_img st))) r)"
proof -
  let ?p = "iop (o_img st)" and ?sq = "ota_get_update_seq st"
  have sq: "\<not> 2 \<le> ?sq" using ready by (simp add: ota_ready_def not_le)
  obtain e s1 where O: "if_hal_open F (IMG_BL_FLASH ?p) 5000 (o_fs st) = Some (e, s1)"
    "store_frame ok dsize mem (IMG_BL_FLASH ?p) 0 0 (o_fs st) s1" using open_law [OF ok(1)] by blast
  have f1: "store_frame ok dsize mem 0 0 0 (o_fs st) s1" using O(2) by (rule frame_none_any)
  show ?thesis
  proof (cases "e = 0")
    case False
    then have "ota_get_verify_data_pos F ?sq st = Some (0, st\<lparr>o_fs := s1\<rparr>)"
      using O(1) sq ota_readyD(1) [OF ready] by (simp add: ota_get_verify_data_pos_def on_fs_def)
    then show ?thesis using f1 by blast
  next
    case True
    have m1: "(\<lambda>f. mem f s1) = (\<lambda>f. mem f (o_fs st))" using f1 by (simp add: frame_none_iff)
    have ok1: "ok (IMG_BL_FLASH ?p) s1" "ok (ucast (iop_flash ?p ! unat ?sq)) s1"
      using f1 ok by (simp_all add: frame_none_iff update_flash_def)
    obtain r fl' s2 where W: "pos_walk F ?p ?sq (IMG_BL_FLASH ?p) (IMG_BL_ADDR ?p) (replicate 64 0) s1 = Some (r, fl', s2)"
      "store_frame ok dsize mem 0 0 0 s1 s2" "fl' = IMG_BL_FLASH ?p \<or> fl' = ucast (iop_flash ?p ! unat ?sq)"
      "r \<noteq> 0 \<longrightarrow> image_end ?p ?sq (\<lambda>f. mem f (o_fs st)) (IMG_BL_FLASH ?p) (IMG_BL_ADDR ?p) r"
      using pos_walk_law [OF fin [folded m1] ok1, of "replicate 64 0"] unfolding m1 by auto
    have "ok fl' s2" using W(2,3) ok1 by (auto simp: frame_none_iff)
    then obtain c s3 where X: "if_hal_close F fl' s2 = Some (c, s3)" "store_frame ok dsize mem fl' 0 0 s2 s3"
      using close_law by blast
    have f3: "store_frame ok dsize mem 0 0 0 (o_fs st) s3"
      using store_frame_trans [OF f1 W(2)] frame_none_any [OF X(2)] by (rule store_frame_trans)
    have "ota_get_verify_data_pos F ?sq st = Some (r, st\<lparr>o_fs := s3\<rparr>)"
      using O(1) True sq ota_readyD(1) [OF ready] W(1) X(1)
      by (simp add: ota_get_verify_data_pos_def on_fs_def)
    then show ?thesis using f3 W(4) by blast
  qed
qed

lemma get_verify_data_law:
  assumes ready: "ota_ready B st" and build: "\<not> BOOTLOADER B"
    and ok: "ok (IMG_BL_FLASH (iop (o_img st))) (o_fs st)" "ok (update_flash st) (o_fs st)"
    and fin: "finite_chain IMAGE_CHECK_OTA (iop (o_img st)) (ota_get_update_seq st) (\<lambda>f. mem f (o_fs st))
                (IMG_BL_FLASH (iop (o_img st))) (IMG_BL_ADDR (iop (o_img st)))"
    and len: "length data = 44"
  shows "\<exists>g d s'. ota_get_verify_data F B data st = Some (g, d, st\<lparr>o_fs := s'\<rparr>) \<and>
     store_frame ok dsize mem 0 0 0 (o_fs st) s' \<and> length d = 44 \<and>
     (g = OTA_STATUS_OK \<longrightarrow> ov_magic (verify_data_of_bytes d) = OTA_VERIFY_MAGIC \<and>
       (\<exists>pos. image_end (iop (o_img st)) (ota_get_update_seq st) (\<lambda>f. mem f (o_fs st))
            (IMG_BL_FLASH (iop (o_img st))) (IMG_BL_ADDR (iop (o_img st))) pos \<and>
          (unat pos + 44 < 4294967296 \<longrightarrow>
             d = content_read (mem (update_flash st) (o_fs st)) (unat pos) 44)))"
proof -
  let ?p = "iop (o_img st)" and ?sq = "ota_get_update_seq st" and ?fl = "update_flash st"
  have seq: "verify_seq B st = Some ?sq" "\<not> 2 \<le> ?sq"
    using build ready by (simp_all add: verify_seq_def ota_ready_def not_le)
  obtain r s1 where P: "ota_get_verify_data_pos F ?sq st = Some (r, st\<lparr>o_fs := s1\<rparr>)"
    "store_frame ok dsize mem 0 0 0 (o_fs st) s1"
    "r \<noteq> 0 \<longrightarrow> image_end ?p ?sq (\<lambda>f. mem f (o_fs st)) (IMG_BL_FLASH ?p) (IMG_BL_ADDR ?p) r"
    using verify_pos_law [OF ready ok fin] by blast
  have ok1: "ok ?fl s1" using P(2) ok by (simp add: frame_none_iff)
  obtain e s2 where O: "if_hal_open F ?fl 5000 s1 = Some (e, s2)" "store_frame ok dsize mem ?fl 0 0 s1 s2"
    using open_law [OF ok1] by blast
  have f2: "store_frame ok dsize mem 0 0 0 (o_fs st) s2"
    using P(2) frame_none_any [OF O(2)] by (rule store_frame_trans)
  have ok2: "ok ?fl s2" and m2: "mem ?fl s2 = mem ?fl (o_fs st)" using f2 ok by (simp_all add: frame_none_iff)
  obtain q d s3 where R: "if_hal_read F ?fl r data 44 s2 = Some (q, d, s3)" "store_frame ok dsize mem ?fl 0 0 s2 s3"
    "length d = 44" "q = 0 \<longrightarrow> (unat r + 44 < 4294967296 \<longrightarrow> d = content_read (mem ?fl s2) (unat r) 44)"
    using hal_read_law [OF ok2, of 44 data r] len by auto
  have f3: "store_frame ok dsize mem 0 0 0 (o_fs st) s3"
    using f2 frame_none_any [OF R(2)] by (rule store_frame_trans)
  have "ok ?fl s3" using f3 ok by (simp add: frame_none_iff)
  then obtain c s4 where X: "if_hal_close F ?fl s3 = Some (c, s4)" "store_frame ok dsize mem ?fl 0 0 s3 s4"
    using close_law by blast
  have f4: "store_frame ok dsize mem 0 0 0 (o_fs st) s4"
    using f3 frame_none_any [OF X(2)] by (rule store_frame_trans)
  note base = seq ota_readyD(1) [OF ready]
  consider "op_get_size st = 0" | "op_get_size st \<noteq> 0" "r = 0" | "op_get_size st \<noteq> 0" "r \<noteq> 0" "e \<noteq> 0"
    | "op_get_size st \<noteq> 0" "r \<noteq> 0" "e = 0" by blast
  then show ?thesis
  proof cases
    case 1
    then have "ota_get_verify_data F B data st = Some (OTA_STATUS_ERROR, data, st\<lparr>o_fs := o_fs st\<rparr>)"
      using base by (simp add: ota_get_verify_data_def)
    then show ?thesis using len by (metis ota_status.distinct(1) store_frame_refl)
  next
    case 2
    then have "ota_get_verify_data F B data st = Some (OTA_STATUS_ERROR, data, st\<lparr>o_fs := s1\<rparr>)"
      using base P(1) by (simp add: ota_get_verify_data_def)
    then show ?thesis using len P(2) by (metis ota_status.distinct(1))
  next
    case 3
    then have "ota_get_verify_data F B data st = Some (OTA_STATUS_ERROR, data, st\<lparr>o_fs := s2\<rparr>)"
      using base P(1) O(1) by (simp add: ota_get_verify_data_def on_fs_def update_flash_def)
    then show ?thesis using len f2 by (metis ota_status.distinct(1))
  next
    case 4
    let ?g = "if q \<noteq> 0 then OTA_STATUS_ERROR
       else if ov_magic (verify_data_of_bytes d) \<noteq> OTA_VERIFY_MAGIC then OTA_STATUS_ERROR else OTA_STATUS_OK"
    have run: "ota_get_verify_data F B data st = Some (?g, d, st\<lparr>o_fs := s4\<rparr>)"
      using base P(1) O(1) R(1) X(1) 4 by (simp add: ota_get_verify_data_def on_fs_def update_flash_def)
    have "image_end ?p ?sq (\<lambda>f. mem f (o_fs st)) (IMG_BL_FLASH ?p) (IMG_BL_ADDR ?p) r" using P(3) 4 by simp
    moreover have "unat r + 44 < 4294967296 \<longrightarrow> d = content_read (mem ?fl (o_fs st)) (unat r) 44" if "q = 0"
      using R(4) that m2 by simp
    ultimately have post: "?g = OTA_STATUS_OK \<longrightarrow> ov_magic (verify_data_of_bytes d) = OTA_VERIFY_MAGIC \<and>
       (\<exists>pos. image_end ?p ?sq (\<lambda>f. mem f (o_fs st)) (IMG_BL_FLASH ?p) (IMG_BL_ADDR ?p) pos \<and>
          (unat pos + 44 < 4294967296 \<longrightarrow> d = content_read (mem ?fl (o_fs st)) (unat pos) 44))"
      by (simp split: if_splits) blast
    show ?thesis
      by (rule exI [of _ ?g], rule exI [of _ d], rule exI [of _ s4]) (intro conjI run f4 R(3) post)
  qed
qed

end

text \<open>
  What confirms the pushed image: nothing more when it carries no verify data that can be
  read, else the digest in the verify data behind its last section.
\<close>

definition image_confirmed ::
  "'h crypto \<Rightarrow> ('h \<Rightarrow> u8 list) \<Rightarrow> (u8 list \<Rightarrow> u8 list) \<Rightarrow> (u32 \<Rightarrow> content) \<Rightarrow> 's ota \<Rightarrow> bool" where
  "image_confirmed C absorbed H M st \<longleftrightarrow>
     verify_confirmed C absorbed H (M (update_flash st)) st (Some OTA_VERIFY_NONE) None \<or>
     (\<exists>d pos. ov_magic (verify_data_of_bytes d) = OTA_VERIFY_MAGIC \<and>
        image_end (iop (o_img st)) (ota_get_update_seq st) M (IMG_BL_FLASH (iop (o_img st)))
          (IMG_BL_ADDR (iop (o_img st))) pos \<and>
        (unat pos + 44 < 4294967296 \<longrightarrow> d = content_read (M (update_flash st)) (unat pos) 44) \<and>
        verify_confirmed C absorbed H (M (update_flash st)) st
          (verify_of_code (ov_type (verify_data_of_bytes d))) (Some (ov_data (verify_data_of_bytes d))))"

lemma confirmed_upd [simp]:
  "verify_confirmed C absorbed H m (st\<lparr>o_fs := s\<rparr>) v d = verify_confirmed C absorbed H m st v d"
  "verify_confirmed C absorbed H m (st\<lparr>cb_log := l\<rparr>) v d = verify_confirmed C absorbed H m st v d"
  by (simp_all add: verify_confirmed_def digest_confirmed_def verified_size_def update_addr_def)

lemma update_flash_upd [simp]:
  "update_flash (st\<lparr>o_fs := s\<rparr>) = update_flash st" "update_flash (st\<lparr>cb_log := l\<rparr>) = update_flash st"
  by (simp_all add: update_flash_def)

lemma digest_field: "length d = 44 \<Longrightarrow> length (ov_data (verify_data_of_bytes d)) = 32"
  by (simp add: verify_data_of_bytes_def length_field)

lemma digest_size_le: "digest_size alg \<le> 32"
  by (cases alg) (simp_all add: digest_size_def)

context flash_store
begin

lemma check_sections_law:
  assumes ok: "ok (IMG_BL_FLASH (iop img)) s" "ok (ucast (iop_flash (iop img) ! unat sq)) s"
    and len: "unat sq < length (iop_flash (iop img))"
    and fin: "finite_chain IMAGE_CHECK_NORMAL (iop img) sq (\<lambda>f. mem f s) (IMG_BL_FLASH (iop img)) (IMG_BL_ADDR (iop img))"
  shows "\<exists>v s'. image_check_sections F sq img s = Some (v, s') \<and> store_frame ok dsize mem 0 0 0 s s' \<and>
     (v = IMAGE_VALID \<longrightarrow> intact_chain IMAGE_CHECK_NORMAL (iop img) sq (\<lambda>f. mem f s)
        (IMG_BL_FLASH (iop img)) (IMG_BL_ADDR (iop img)))"
proof -
  obtain q s1 where m: "if_malloc F 1024 s = (q, s1)" by force
  have ml: "store_frame ok dsize mem fl 0 0 s s1" "\<forall>b. q = Some b \<longrightarrow> length b = 1024" for fl
    using malloc_law [OF m, of fl] by auto
  have m1: "(\<lambda>f. mem f s1) = (\<lambda>f. mem f s)" and ok1: "ok f s \<Longrightarrow> ok f s1" for f
    using ml(1) by (simp_all add: frame_none_iff)
  obtain v s' where run: "image_check_all F sq IMAGE_CHECK_NORMAL img s = Some (v, s')"
  proof (cases q)
    case None
    then show ?thesis using m that by (simp add: image_check_all_def)
  next
    case (Some buf)
    then have lb: "length buf = 1024" using ml(2) by simp
    obtain v s' where "check_chain F (iop img) sq (IMG_BL_FLASH (iop img)) (IMG_BL_ADDR (iop img)) buf
        IMAGE_CHECK_NORMAL s1 = Some (v, s')"
      using check_chain_returns [OF fin [folded m1] ok1 [OF ok(1)] ok1 [OF ok(2)] lb len] by blast
    then show ?thesis using m Some that by (simp add: image_check_all_def)
  qed
  from check_all_sound [OF this ok] show ?thesis
    using run frame_none_any unfolding image_check_sections_def by blast
qed

lemma push_result_law:
  assumes "ota_ready B st"
  shows "\<exists>l. push_result B (iop (o_img st)) r st = Some (r, st\<lparr>cb_log := l\<rparr>)"
proof -
  have "(if r = OTA_STATUS_OK then Some 100 else progress B (iop (o_img st)) st) =
      Some (if r = OTA_STATUS_OK then 100
            else (op_get_size st - ota_skip_size st) * 80 div slot_size B (iop (o_img st)))"
    using ota_readyD(4) [OF assms] by (simp add: progress_def udiv_def)
  then show ?thesis unfolding push_result_def by (simp only: notify_then)
qed

lemma push_finish_law:
  assumes ready: "ota_ready B st" and build: "\<not> BOOTLOADER B" "\<not> POLICY_COMPRESSION B"
    and ok: "ok (IMG_BL_FLASH (iop (o_img st))) (o_fs st)" "ok (update_flash st) (o_fs st)"
    and boot: "boot_area_ok ok dsize mem (iop (o_img st)) (o_fs st)"
    and fin: "finite_chain IMAGE_CHECK_NORMAL (iop (o_img st)) (ota_get_update_seq st) (\<lambda>f. mem f (o_fs st))
                (IMG_BL_FLASH (iop (o_img st))) (IMG_BL_ADDR (iop (o_img st)))"
      "finite_chain IMAGE_CHECK_OTA (iop (o_img st)) (ota_get_update_seq st) (\<lambda>f. mem f (o_fs st))
                (IMG_BL_FLASH (iop (o_img st))) (IMG_BL_ADDR (iop (o_img st)))"
  shows "\<exists>r st'. ota_push_finish F B C st = Some (r, st') \<and> same_service st st' \<and>
     store_frame ok dsize mem (ucast (ota_flash (iop (o_img st)))) (unat (ota_addr (iop (o_img st))))
       (unat (ota_size (iop (o_img st)))) (o_fs st) (o_fs st') \<and>
     (store_frame ok dsize mem 0 0 0 (o_fs st) (o_fs st') \<or>
        intact_chain IMAGE_CHECK_NORMAL (iop (o_img st)) (ota_get_update_seq st) (\<lambda>f. mem f (o_fs st))
          (IMG_BL_FLASH (iop (o_img st))) (IMG_BL_ADDR (iop (o_img st))) \<and>
        image_confirmed C absorbed H (\<lambda>f. mem f (o_fs st)) st) \<and>
     (r = OTA_STATUS_OK \<longrightarrow>
        intact_chain IMAGE_CHECK_NORMAL (iop (o_img st)) (ota_get_update_seq st) (\<lambda>f. mem f (o_fs st))
          (IMG_BL_FLASH (iop (o_img st))) (IMG_BL_ADDR (iop (o_img st))) \<and>
        image_confirmed C absorbed H (\<lambda>f. mem f (o_fs st)) st \<and>
        cfg_stored (mem (ucast (ota_flash (iop (o_img st)))) (o_fs st')) (iop (o_img st))
          (raw_of_seq (ota_get_update_seq st)))"
proof -
  let ?p = "iop (o_img st)" and ?sq = "ota_get_update_seq st" and ?M = "\<lambda>f. mem f (o_fs st)"
  let ?intact = "intact_chain IMAGE_CHECK_NORMAL ?p ?sq ?M (IMG_BL_FLASH ?p) (IMG_BL_ADDR ?p)"
  let ?conf = "image_confirmed C absorbed H ?M st"
  let ?fr = "store_frame ok dsize mem (ucast (ota_flash ?p)) (unat (ota_addr ?p)) (unat (ota_size ?p))"
  let ?keep = "store_frame ok dsize mem 0 0 0"
  have sqlt: "unat ?sq < length (iop_flash ?p)" using ready by (simp add: ota_ready_def word_less_nat_alt)
  note rd = ota_readyD(1) [OF ready]
  obtain v s1 where K: "image_check_sections F ?sq (o_img st) (o_fs st) = Some (v, s1)" "?keep (o_fs st) s1"
    "v = IMAGE_VALID \<longrightarrow> ?intact"
    using check_sections_law [OF ok(1) ok(2) [unfolded update_flash_def] sqlt fin(1)] by blast
  show ?thesis
  proof (cases v)
    case IMAGE_INVALID
    obtain l where "push_result B ?p OTA_STATUS_ERROR (st\<lparr>o_fs := s1\<rparr>) = Some (OTA_STATUS_ERROR, st\<lparr>o_fs := s1, cb_log := l\<rparr>)"
      using push_result_law [of B "st\<lparr>o_fs := s1\<rparr>"] ready by auto
    then have "ota_push_finish F B C st = Some (OTA_STATUS_ERROR, st\<lparr>o_fs := s1, cb_log := l\<rparr>)"
      using rd K(1) IMAGE_INVALID by (simp add: ota_push_finish_def on_fs_def)
    then show ?thesis
      using K(2) store_frame_none [OF K(2)]
      by (rule_tac exI, rule_tac exI, intro conjI) (assumption | simp add: same_service_def)+
  next
    case IMAGE_VALID
    obtain l where N: "notify OTA_UPGRADE_UPDATING (op_get_size st - ota_skip_size st) (Some 90) (st\<lparr>o_fs := s1\<rparr>)
        = Some (st\<lparr>o_fs := s1, cb_log := l\<rparr>)" using notify_Some by blast
    let ?st1 = "st\<lparr>o_fs := s1, cb_log := l\<rparr>"
    have m1: "(\<lambda>f. mem f s1) = ?M" using K(2) by (simp add: frame_none_iff)
    have ok1: "ok (IMG_BL_FLASH ?p) s1" "ok (update_flash st) s1"
      using K(2) ok by (simp_all add: frame_none_iff)
    obtain g d s2 where G: "ota_get_verify_data F B (replicate 44 0) ?st1 = Some (g, d, ?st1\<lparr>o_fs := s2\<rparr>)"
      "?keep s1 s2" "length d = 44"
      "g = OTA_STATUS_OK \<longrightarrow> ov_magic (verify_data_of_bytes d) = OTA_VERIFY_MAGIC \<and>
       (\<exists>pos. image_end ?p ?sq ?M (IMG_BL_FLASH ?p) (IMG_BL_ADDR ?p) pos \<and>
          (unat pos + 44 < 4294967296 \<longrightarrow> d = content_read (?M (update_flash st)) (unat pos) 44))"
    proof -
      have eqs: "iop (o_img ?st1) = ?p" "ota_get_update_seq ?st1 = ?sq" "o_fs ?st1 = s1"
        "update_flash ?st1 = update_flash st" by simp_all
      have mf: "mem (update_flash st) s1 = ?M (update_flash st)" using K(2) by (simp add: frame_none_iff)
      have r1: "ota_ready B ?st1" using ready by simp
      have "length (replicate 44 (0 :: u8)) = 44" by simp
      from get_verify_data_law [OF r1 build(1), unfolded eqs m1 mf, OF ok1 fin(2) this]
      show ?thesis using that by blast
    qed
    let ?st2 = "?st1\<lparr>o_fs := s2\<rparr>"
    have f2: "?keep (o_fs st) s2" using K(2) G(2) by (rule store_frame_trans)
    define w vv where "w = (if g \<noteq> OTA_STATUS_OK then Some OTA_VERIFY_NONE
        else verify_of_code (ov_type (verify_data_of_bytes d)))"
      and "vv = (if g \<noteq> OTA_STATUS_OK then None else Some (ov_data (verify_data_of_bytes d)))"
    have vl: "\<forall>alg x. w = Some alg \<and> vv = Some x \<longrightarrow> digest_size alg \<le> length x"
      using digest_field [OF G(3)] digest_size_le by (auto simp: vv_def split: if_splits)
    have ok2: "ok (update_flash ?st2) (o_fs ?st2)" using f2 ok by (simp add: frame_none_iff)
    have boot2: "boot_area_ok ok dsize mem (iop (o_img ?st2)) (o_fs ?st2)"
      using boot_area_frame [OF f2 boot] by simp
    have m2: "mem (update_flash st) s2 = ?M (update_flash st)"
      using f2 by (simp add: frame_none_iff)
    obtain r st3 where V: "ota_verify_image F B C w vv ?st2 = Some (r, st3)" "same_service ?st2 st3" "?fr s2 (o_fs st3)"
      "?keep s2 (o_fs st3) \<or> verify_confirmed C absorbed H (?M (update_flash st)) st w vv"
      "r = OTA_STATUS_OK \<longrightarrow> verify_confirmed C absorbed H (?M (update_flash st)) st w vv \<and>
         cfg_stored (mem (ucast (ota_flash ?p)) (o_fs st3)) ?p (raw_of_seq ?sq)"
    proof -
      have eqs: "iop (o_img ?st2) = ?p" "ota_get_update_seq ?st2 = ?sq" "o_fs ?st2 = s2"
        "update_flash ?st2 = update_flash st" by simp_all
      have r2: "ota_ready B ?st2" using ready by simp
      from verify_image_law [where v = w and expected = vv and C = C and absorbed = absorbed and H = H,
          OF r2 build ok2 boot2 vl, unfolded eqs m2 confirmed_upd]
      show ?thesis by (elim exE conjE) (rule that)
    qed
    have conf: ?conf if "verify_confirmed C absorbed H (?M (update_flash st)) st w vv"
      using that G(4) unfolding image_confirmed_def w_def vv_def by (cases g) auto
    have svc: "same_service st st3" using V(2) by (simp add: same_service_def)
    then have "ota_ready B st3" "iop (o_img st3) = ?p" using ready same_service_ready [OF svc] by (auto simp: same_service_def)
    then obtain l3 where P: "push_result B ?p r st3 = Some (r, st3\<lparr>cb_log := l3\<rparr>)"
      using push_result_law [of B st3 r] by auto
    have "ota_push_finish F B C st = Some (r, st3\<lparr>cb_log := l3\<rparr>)"
      using rd K(1) IMAGE_VALID N G(1) V(1) P
      by (cases g) (simp_all add: ota_push_finish_def on_fs_def w_def vv_def)
    moreover have "?fr (o_fs st) (o_fs st3)"
      using store_frame_none [OF f2] V(3) by (rule store_frame_trans)
    moreover have "?keep (o_fs st) (o_fs st3) \<or> ?conf"
      using V(4) conf store_frame_trans [OF f2] by blast
    ultimately show ?thesis
      using K(3) IMAGE_VALID svc V(5) conf
      by (rule_tac exI, rule_tac exI, intro conjI) (assumption | simp add: same_service_def)+
  qed
qed

end

end
