(* ===== verification/Ota_Download_Spec.thy ===== *)
theory Ota_Download_Spec
  imports Ota_Verify_Spec
begin

text \<open>
  Downloads and sequences of pushes.  A transport is any source of bytes that returns no
  more than it was asked for and leaves the flash and the service's state alone; what it
  delivers lands in the slot of the update sequence, in order and without gaps, and the
  download reports success only for an image whose sections are intact.
\<close>

lemma frame_then_none:
  "store_frame ok dsize mem fl a n s s' \<Longrightarrow> store_frame ok dsize mem fl' b 0 s' s'' \<Longrightarrow>
   store_frame ok dsize mem fl a n s s''"
  by (rule store_frame_trans [OF _ store_frame_none])

section \<open>Pushing a sequence of chunks\<close>

text \<open>A client that pushes chunk after chunk and stops at the first error.\<close>

fun push_chunks ::
  "'s flash_if \<Rightarrow> ota_build \<Rightarrow> u8 list list \<Rightarrow> 's ota \<Rightarrow> (ota_status \<times> 's ota) option" where
  "push_chunks F B [] st = Some (OTA_STATUS_OK, st)"
| "push_chunks F B (c # cs) st = do {
     (r, st) \<leftarrow> ota_push_data F B c st;
     if r \<noteq> OTA_STATUS_OK then Some (r, st) else push_chunks F B cs st
   }"

context flash_store
begin

lemma push_chunks_law:
  assumes "ota_ready B st" "ok (update_flash st) (o_fs st)"
    and "unat (update_addr st) + unat (update_size B st) \<le> dsize (update_flash st) (o_fs st)"
    and "unat (ota_skip_size st) + unat (update_size B st) < 4294967296"
    and "\<forall>c \<in> set cs. length c < 4294967296"
    and "push_inv B (mem (update_flash st) (o_fs st)) st bs"
  shows "\<exists>r st'. push_chunks F B cs st = Some (r, st') \<and> same_service st st' \<and>
     store_frame ok dsize mem (update_flash st) (unat (update_addr st)) (unat (update_size B st))
       (o_fs st) (o_fs st') \<and>
     (r = OTA_STATUS_OK \<longrightarrow> ota_skip_size st' = ota_skip_size st \<and>
        push_inv B (mem (update_flash st) (o_fs st')) st' (bs @ concat cs))"
  using assms
proof (induction cs arbitrary: st bs)
  case Nil
  then show ?case by (simp add: same_service_def)
next
  case (Cons c cs)
  have c: "length c < 4294967296" using Cons.prems(5) by simp
  obtain r st1 where P: "ota_push_data F B c st = Some (r, st1)" "same_service st st1"
    "ota_skip_size st1 = ota_skip_size st"
    "store_frame ok dsize mem (update_flash st) (unat (update_addr st)) (unat (update_size B st)) (o_fs st) (o_fs st1)"
    "r = OTA_STATUS_OK \<longrightarrow> push_inv B (mem (update_flash st) (o_fs st1)) st1 (bs @ c)"
    using push_data_law [OF Cons.prems(1-4) c Cons.prems(6)] by blast
  show ?case
  proof (cases "r = OTA_STATUS_OK")
    case False
    then show ?thesis using P by (simp add: same_service_def)
  next
    case True
    note eq = same_service_ready [OF P(2), of B]
    have "\<exists>r st'. push_chunks F B cs st1 = Some (r, st') \<and> same_service st1 st' \<and>
       store_frame ok dsize mem (update_flash st1) (unat (update_addr st1)) (unat (update_size B st1))
         (o_fs st1) (o_fs st') \<and>
       (r = OTA_STATUS_OK \<longrightarrow> ota_skip_size st' = ota_skip_size st1 \<and>
          push_inv B (mem (update_flash st1) (o_fs st')) st' ((bs @ c) @ concat cs))"
      by (rule Cons.IH) (use Cons.prems P True eq in \<open>auto simp: store_frame_ok store_frame_dsize\<close>)
    then obtain r2 st2 where Q: "push_chunks F B cs st1 = Some (r2, st2)" "same_service st1 st2"
       "store_frame ok dsize mem (update_flash st) (unat (update_addr st)) (unat (update_size B st)) (o_fs st1) (o_fs st2)"
       "r2 = OTA_STATUS_OK \<longrightarrow> ota_skip_size st2 = ota_skip_size st \<and>
          push_inv B (mem (update_flash st) (o_fs st2)) st2 (bs @ concat (c # cs))"
      using eq P(3) by auto
    have "same_service st st2" using P(2) Q(2) by (simp add: same_service_def)
    then show ?thesis
      using P(1) True Q(1,4) store_frame_trans [OF P(4) Q(3)] by simp
  qed
qed

end

section \<open>Transports\<close>

definition transport_ok ::
  "(u32 \<Rightarrow> 's \<Rightarrow> bool) \<Rightarrow> (u32 \<Rightarrow> 's \<Rightarrow> nat) \<Rightarrow> (u32 \<Rightarrow> 's \<Rightarrow> content) \<Rightarrow> 's ota_transport \<Rightarrow> bool" where
  "transport_ok ok dsize mem T \<longleftrightarrow>
     (\<forall>st r st'. g_init T st = Some (r, st') \<longrightarrow> same_service st st' \<and>
        store_frame ok dsize mem 0 0 0 (o_fs st) (o_fs st')) \<and>
     (\<forall>n st r data eof st'. g_get T n st = Some (r, data, eof, st') \<longrightarrow> same_service st st' \<and>
        op_get_size st' = op_get_size st \<and> ota_skip_size st' = ota_skip_size st \<and>
        store_frame ok dsize mem 0 0 0 (o_fs st) (o_fs st') \<and>
        (r = OTA_STATUS_OK \<longrightarrow> length data \<le> unat n))"

text \<open>A transport that always answers, and with at least one byte before the end of the file.\<close>

definition transport_live :: "'s ota_transport \<Rightarrow> bool" where
  "transport_live T \<longleftrightarrow> (\<forall>n st. \<exists>r data eof st'. g_get T n st = Some (r, data, eof, st') \<and>
     (r = OTA_STATUS_OK \<and> \<not> eof \<longrightarrow> data \<noteq> []))"

lemma transport_okD:
  assumes "transport_ok ok dsize mem T" "g_get T n st = Some (r, data, eof, st')"
  shows "same_service st st'" "op_get_size st' = op_get_size st" "ota_skip_size st' = ota_skip_size st"
    "store_frame ok dsize mem 0 0 0 (o_fs st) (o_fs st')" "r = OTA_STATUS_OK \<Longrightarrow> length data \<le> unat n"
  using assms unfolding transport_ok_def by blast+

lemma same_service_trans: "same_service a b \<Longrightarrow> same_service b c \<Longrightarrow> same_service a c"
  by (simp add: same_service_def)

lemma same_service_upd [simp]:
  "same_service st (st\<lparr>op_get_size := g\<rparr>)" "same_service st (st\<lparr>o_fs := s\<rparr>)" "same_service st (st\<lparr>cb_log := l\<rparr>)"
  "same_service st st"
  by (simp_all add: same_service_def)

context flash_store
begin

lemma skip_loop_safe:
  assumes "skip_loop T k st = Some y" "transport_ok ok dsize mem T"
  shows "same_service st (snd y) \<and> store_frame ok dsize mem 0 0 0 (o_fs st) (o_fs (snd y))"
  using assms(2)
proof (induction rule: skip_loop.raw_induct [OF _ assms(1), consumes 0, case_names step])
  case (step skip T k st y)
  note IH = step(1) and run = step(2) and T = step(3)
  show ?case
  proof (cases "k > 0")
    case False
    then show ?thesis using run by auto
  next
    case True
    then obtain r data eof st1 where G: "g_get T (if k > 2048 then 2048 else k) st = Some (r, data, eof, st1)"
      using run by (auto simp: bind_Some_iff)
    note g = transport_okD [OF T G]
    show ?thesis
    proof (cases "r \<noteq> OTA_STATUS_OK \<or> eof")
      case True
      then show ?thesis using run \<open>k > 0\<close> G g by auto
    next
      case False
      let ?n = "of_nat (length data) :: u32"
      let ?st2 = "st1\<lparr>op_get_size := op_get_size st1 + ?n\<rparr>"
      obtain l where "notify OTA_UPGRADE_UPDATING 0 (Some 0) ?st2 = Some (?st2\<lparr>cb_log := l\<rparr>)"
        using notify_Some by blast
      then have "skip T (k - ?n) (?st2\<lparr>cb_log := l\<rparr>) = Some y"
        using run True G False by (simp add: Let_def)
      from IH [OF this T] show ?thesis
        using g(1,4) store_frame_trans [OF g(4)] by (auto simp: same_service_def)
    qed
  qed
qed

lemma progress_Some:
  "slot_size B p \<noteq> 0 \<Longrightarrow> \<exists>q. progress B p st = Some q"
  by (simp add: progress_def udiv_def)

lemma notify_progress:
  assumes "slot_size B p \<noteq> 0"
  obtains l where "notify e n (progress B p st') st = Some (st\<lparr>cb_log := l\<rparr>)"
proof -
  obtain q where "progress B p st' = Some q" using progress_Some [OF assms] by blast
  moreover obtain l where "notify e n (Some q) st = Some (st\<lparr>cb_log := l\<rparr>)" using notify_Some by blast
  ultimately show ?thesis using that by simp
qed

lemma download_loop_safe:
  assumes "download_loop G B p T fl a left st = Some y" "G = F" "transport_ok ok dsize mem T"
    and "ok fl (o_fs st)" "unat a + unat left \<le> dsize fl (o_fs st)" "slot_size B p \<noteq> 0"
  shows "case y of (r, left', st') \<Rightarrow> same_service st st' \<and> unat left' \<le> unat left \<and>
     op_get_size st' = op_get_size st + (left - left') \<and> ota_skip_size st' = ota_skip_size st \<and>
     store_frame ok dsize mem fl (unat a) (unat left) (o_fs st) (o_fs st') \<and>
     (r = OTA_STATUS_OK \<longrightarrow> (\<exists>xs. length xs = unat left - unat left' \<and>
        mem fl (o_fs st') = nor_program (mem fl (o_fs st)) (unat a) xs))"
  using assms(2-)
proof (induction rule: download_loop.raw_induct [OF _ assms(1), consumes 0, case_names step])
  case (step dl G B p T fl a left st y)
  note IH = step(1) and run = step(2) [unfolded \<open>G = F\<close>] and T = step.prems(2) and ok = step.prems(3)
    and fits = step.prems(4) and nz = step.prems(5)
  show ?case
  proof (cases "left > 0")
    case False
    then show ?thesis using run by auto
  next
    case pos: True
    let ?n = "if left > 2048 then 2048 else left"
    obtain r data eof st1 where G: "g_get T ?n st = Some (r, data, eof, st1)"
      using run pos by (auto simp: bind_Some_iff)
    note g = transport_okD [OF T G]
    have f1: "store_frame ok dsize mem fl (unat a) (unat left) (o_fs st) (o_fs st1)"
      using g(4) by (rule store_frame_none)
    have m1: "mem fl (o_fs st1) = mem fl (o_fs st)" using g(4) by (simp add: frame_none_iff)
    have ok1: "ok fl (o_fs st1)" "dsize fl (o_fs st1) = dsize fl (o_fs st)"
      using g(4) ok by (simp_all add: frame_none_iff)
    consider (fail) "r \<noteq> OTA_STATUS_OK" | (stop) "r = OTA_STATUS_OK" "data = []" "eof"
      | (again) "r = OTA_STATUS_OK" "data = []" "\<not> eof" | (store) "r = OTA_STATUS_OK" "data \<noteq> []" by blast
    then show ?thesis
    proof cases
      case fail
      then have "y = (OTA_STATUS_ERROR, left, st1)" using run pos G by simp
      then show ?thesis using g f1 by simp
    next
      case stop
      then have "y = (OTA_STATUS_OK, left, st1)" using run pos G by simp
      then show ?thesis using g f1 m1 by simp
    next
      case again
      obtain l where "notify OTA_UPGRADE_UPDATING (op_get_size st1 - ota_skip_size st1) (progress B p st1) st1
          = Some (st1\<lparr>cb_log := l\<rparr>)" by (rule notify_progress [OF nz])
      then have "dl F B p T fl a left (st1\<lparr>cb_log := l\<rparr>) = Some y" using run pos G again by simp
      from IH [OF this refl T] ok1 fits nz show ?thesis
        using g(1,2,3) m1 store_frame_trans [OF f1] by (auto simp: same_service_def split: prod.splits)
    next
      case store
      let ?k = "of_nat (length data) :: u32"
      have len: "length data \<le> unat left" using g(5) [OF store(1)] by (auto simp: word_less_nat_alt split: if_splits)
      then have "length data < 4294967296" using unat_u32_bound [of left] by linarith
      then have uk: "unat ?k = length data" by (simp add: unat_of_nat)
      let ?st2 = "st1\<lparr>op_get_size := op_get_size st1 + ?k\<rparr>"
      obtain w s2 where W: "if_hal_write F fl a data ?k (o_fs st1) = Some (w, s2)"
        "store_frame ok dsize mem fl (unat a) (length data) (o_fs st1) s2"
        "w = 0 \<longrightarrow> mem fl s2 = nor_program (mem fl (o_fs st)) (unat a) data"
        using hal_write_law [OF ok1(1), of ?k data a] uk len fits dsize_bound [of fl "o_fs st"] m1 by auto
      have f2: "store_frame ok dsize mem fl (unat a) (unat left) (o_fs st) s2"
        using f1 store_frame_mono [OF W(2), of "unat a" "unat left"] len by (auto intro: store_frame_trans)
      have sub: "unat (left - ?k) = unat left - length data"
        using uk len by (subst unat_sub) (simp_all add: word_le_nat_alt)
      let ?st3 = "?st2\<lparr>o_fs := s2\<rparr>"
      consider (bad) "w \<noteq> 0" | (last) "w = 0" "eof" | (more) "w = 0" "\<not> eof" by blast
      then show ?thesis
      proof cases
        case bad
        then have "y = (OTA_STATUS_ERROR, left - ?k, ?st3)"
          using run pos G store W(1) by (simp add: Let_def on_fs_def)
        then show ?thesis using g(1,2,3) f2 sub by (simp add: same_service_def)
      next
        case last
        then have "y = (OTA_STATUS_OK, left - ?k, ?st3)"
          using run pos G store W(1) by (simp add: Let_def on_fs_def)
        then show ?thesis using g(1,2,3) f2 sub W(3) last len by (auto simp: same_service_def)
      next
        case more
        obtain l where "notify OTA_UPGRADE_UPDATING (op_get_size ?st3 - ota_skip_size ?st3) (progress B p ?st3) ?st3
            = Some (?st3\<lparr>cb_log := l\<rparr>)" by (rule notify_progress [OF nz])
        then have rec: "dl F B p T fl (a + ?k) (left - ?k) (?st3\<lparr>cb_log := l\<rparr>) = Some y"
          using run pos G store W(1) more by (simp add: Let_def on_fs_def)
        have an: "unat (a + ?k) = unat a + length data"
          using unat_add_const [of a ?k] uk len fits dsize_bound [of fl "o_fs st"] by simp
        have ok3: "ok fl (o_fs (?st3\<lparr>cb_log := l\<rparr>))" "dsize fl (o_fs (?st3\<lparr>cb_log := l\<rparr>)) = dsize fl (o_fs st)"
          using f2 ok by (simp_all add: store_frame_ok store_frame_dsize)
        have fits3: "unat (a + ?k) + unat (left - ?k) \<le> dsize fl (o_fs (?st3\<lparr>cb_log := l\<rparr>))"
          using fits an sub len ok3(2) by simp
        obtain r' left' st' where y: "y = (r', left', st')" by (cases y)
        have Y: "same_service ?st3 st'" "unat left' \<le> unat (left - ?k)"
          "op_get_size st' = op_get_size ?st3 + (left - ?k - left')" "ota_skip_size st' = ota_skip_size st"
          "store_frame ok dsize mem fl (unat a + length data) (unat left - length data) s2 (o_fs st')"
          "r' = OTA_STATUS_OK \<longrightarrow> (\<exists>xs. length xs = unat left - length data - unat left' \<and>
             mem fl (o_fs st') = nor_program (mem fl s2) (unat a + length data) xs)"
          using IH [OF rec refl T ok3(1) fits3 nz] g(3) unfolding y an sub by (auto simp: same_service_def)
        have "store_frame ok dsize mem fl (unat a) (unat left) (o_fs st) (o_fs st')"
          using f2 store_frame_mono [OF Y(5), of "unat a" "unat left"] len by (auto intro: store_frame_trans)
        moreover have "\<exists>xs. length xs = unat left - unat left' \<and>
            mem fl (o_fs st') = nor_program (mem fl (o_fs st)) (unat a) xs" if rok: "r' = OTA_STATUS_OK"
        proof -
          obtain xs where "length xs = unat left - length data - unat left'"
            "mem fl (o_fs st') = nor_program (mem fl s2) (unat a + length data) xs" using Y(6) rok by blast
          then have "length (data @ xs) = unat left - unat left'"
            "mem fl (o_fs st') = nor_program (mem fl (o_fs st)) (unat a) (data @ xs)"
            using W(3) more len Y(2) sub by (simp_all add: nor_program_append)
          then show ?thesis by blast
        qed
        moreover have "same_service st st'" using g(1) Y(1) by (simp add: same_service_def)
        moreover have "unat left' \<le> unat left" using Y(2) sub by simp
        ultimately show ?thesis using y Y(3,4) g(2) by simp
      qed
    qed
  qed
qed

lemma check_download_safe:
  assumes run: "check_download F sq ret left st = Some (r, st')"
    and ok: "ok (IMG_BL_FLASH (iop (o_img st))) (o_fs st)" "ok (ucast (iop_flash (iop (o_img st)) ! unat sq)) (o_fs st)"
  shows "same_service st st' \<and> store_frame ok dsize mem 0 0 0 (o_fs st) (o_fs st') \<and>
     (r = OTA_STATUS_OK \<longrightarrow> (ret = OTA_STATUS_OK \<or> left = 0) \<and>
        intact_chain IMAGE_CHECK_NORMAL (iop (o_img st)) sq (\<lambda>f. mem f (o_fs st'))
          (IMG_BL_FLASH (iop (o_img st))) (IMG_BL_ADDR (iop (o_img st))))"
proof (cases "ret \<noteq> OTA_STATUS_OK \<and> left \<noteq> 0")
  case True
  then show ?thesis using run by (auto simp: check_download_def)
next
  case False
  then obtain v st1 where "on_fs (image_check_sections F sq (o_img st)) st = Some (v, st1)"
    using run by (auto simp: check_download_def bind_Some_iff)
  then obtain s1 where K: "image_check_all F sq IMAGE_CHECK_NORMAL (o_img st) (o_fs st) = Some (v, s1)"
    and st1: "st1 = st\<lparr>o_fs := s1\<rparr>" unfolding image_check_sections_def by (rule on_fs_cases)
  have R: "check_download F sq ret left st = (if v = IMAGE_INVALID then Some (OTA_STATUS_ERROR, st1)
      else Option.bind (notify OTA_UPGRADE_UPDATING (op_get_size st1 - ota_skip_size st1) (Some 90) st1)
             (\<lambda>st. Some (OTA_STATUS_OK, st)))"
    using False K st1 by (auto simp: check_download_def on_fs_def image_check_sections_def)
  obtain l where "notify OTA_UPGRADE_UPDATING (op_get_size st1 - ota_skip_size st1) (Some 90) st1
      = Some (st1\<lparr>cb_log := l\<rparr>)" using notify_Some by blast
  then have res: "(r, st') = (if v = IMAGE_INVALID then (OTA_STATUS_ERROR, st1) else (OTA_STATUS_OK, st1\<lparr>cb_log := l\<rparr>))"
    using run R by (auto split: if_splits)
  note snd_K = check_all_sound [OF K ok]
  have m: "(\<lambda>f. mem f s1) = (\<lambda>f. mem f (o_fs st))" using snd_K by (simp add: frame_none_iff)
  have "v = IMAGE_VALID" if "v \<noteq> IMAGE_INVALID" using that by (cases v) auto
  then show ?thesis
    using res snd_K False frame_none_any st1 m
    by (cases "v = IMAGE_INVALID") (auto simp: same_service_def frame_none_iff)
qed

lemma update_process_safe:
  assumes run: "ota_update_image_process F B T (ota_get_update_seq st) st = Some (r, st')"
    and ready: "ota_ready B st" and T: "transport_ok ok dsize mem T"
    and ok: "ok (IMG_BL_FLASH (iop (o_img st))) (o_fs st)" "ok (update_flash st) (o_fs st)"
    and fits: "unat (update_addr st) + unat (update_size B st) \<le> dsize (update_flash st) (o_fs st)"
  shows "same_service st st' \<and>
     store_frame ok dsize mem (update_flash st) (unat (update_addr st)) (unat (update_size B st))
       (o_fs st) (o_fs st') \<and>
     (r = OTA_STATUS_OK \<longrightarrow> intact_chain IMAGE_CHECK_NORMAL (iop (o_img st)) (ota_get_update_seq st)
        (\<lambda>f. mem f (o_fs st')) (IMG_BL_FLASH (iop (o_img st))) (IMG_BL_ADDR (iop (o_img st))))"
    (is "?post r st'")
proof -
  let ?p = "iop (o_img st)" and ?sq = "ota_get_update_seq st" and ?fl = "update_flash st"
    and ?a = "update_addr st" and ?n = "update_size B st"
  let ?fr = "store_frame ok dsize mem ?fl (unat ?a) (unat ?n)"
  have finish: "?post r st'" if "check_download F ?sq ret left st1 = Some (r, st')" "same_service st st1"
    "?fr (o_fs st) (o_fs st1)" for ret left st1
  proof -
    have img: "o_img st1 = o_img st" using that(2) by (simp add: same_service_def)
    have ok1: "ok (IMG_BL_FLASH (iop (o_img st1))) (o_fs st1)"
      "ok (ucast (iop_flash (iop (o_img st1)) ! unat ?sq)) (o_fs st1)"
      using ok that(3) by (simp_all add: img store_frame_ok update_flash_def)
    note c = check_download_safe [OF that(1) ok1]
    have "?fr (o_fs st) (o_fs st')" using that(3) c by (blast intro: frame_then_none)
    then show ?thesis using c that(2) img same_service_trans by (auto simp: same_service_def)
  qed
  obtain l where N: "notify OTA_UPGRADE_START 0 (Some 0) st = Some (st\<lparr>cb_log := l\<rparr>)" using notify_Some by blast
  obtain e s1 where E: "if_flash_erase F ?fl ?a ?n (o_fs st) = Some (e, s1)" "?fr (o_fs st) s1"
    using erase_law [OF ok(2) fits] by blast
  obtain q s2 where M: "if_malloc F 2048 s1 = (q, s2)" by force
  note ml = malloc_law [OF M, of ?fl]
  have f2: "?fr (o_fs st) s2" using E(2) ml by (blast intro: frame_then_none)
  note start = ota_readyD(1,2,3) [OF ready] N E(1) M
  consider "e \<noteq> 0" | "e = 0" "q = None" | b where "e = 0" "q = Some b" by (cases q) auto
  then show ?thesis
  proof cases
    case 1
    then have "(r, st') = (OTA_STATUS_ERROR, st\<lparr>cb_log := l, o_fs := s1\<rparr>)"
      using run start by (simp add: ota_update_image_process_def on_fs_def update_flash_def update_size_def)
    then show ?thesis using E(2) by (simp add: same_service_def)
  next
    case 2
    then have "(r, st') = (OTA_STATUS_ERROR, st\<lparr>cb_log := l, o_fs := s2\<rparr>)"
      using run start by (simp add: ota_update_image_process_def on_fs_def update_flash_def update_size_def)
    then show ?thesis using f2 by (simp add: same_service_def)
  next
    case (3 b)
    let ?st2 = "st\<lparr>cb_log := l, o_fs := s2\<rparr>"
    define rest where "rest i st2 =
      (if i \<noteq> OTA_STATUS_OK then check_download F ?sq OTA_STATUS_ERROR ?n st2 else
         let st = default_skip B ?p (st2\<lparr>op_get_size := 0\<rparr>) in do {
           (ok, st) \<leftarrow> skip_loop T (ota_skip_size st) st;
           if \<not> ok then check_download F ?sq OTA_STATUS_ERROR ?n st else do {
             (o1, st) \<leftarrow> on_fs (if_hal_open F ?fl 5000) st;
             if o1 \<noteq> 0 then check_download F ?sq OTA_STATUS_ERROR ?n st else do {
               (ret, left, st) \<leftarrow> download_loop F B ?p T ?fl ?a ?n st;
               (_, st) \<leftarrow> on_fs (if_hal_close F ?fl) st;
               check_download F ?sq ret left st
             }
           }
         })" for i st2
    have "Option.bind (g_init T ?st2) (\<lambda>(i, st). rest i st) = Some (r, st')"
      using run start 3
      unfolding rest_def update_flash_def update_size_def ota_update_image_process_def Let_def
      by (simp add: on_fs_Some)
    then obtain i st3 where I: "g_init T ?st2 = Some (i, st3)" "rest i st3 = Some (r, st')"
      by (auto simp: bind_Some_iff)
    have "same_service ?st2 st3" "store_frame ok dsize mem 0 0 0 s2 (o_fs st3)"
      using T I(1) unfolding transport_ok_def by fastforce+
    then have s3: "same_service st st3" "?fr (o_fs st) (o_fs st3)"
      using f2 by (auto simp: same_service_def intro: frame_then_none)
    show ?thesis
    proof (cases "i = OTA_STATUS_OK")
      case False
      then show ?thesis using I(2) s3 by (intro finish) (auto simp: rest_def)
    next
      case True
      define st4 where "st4 = default_skip B ?p (st3\<lparr>op_get_size := 0\<rparr>)"
      have s4: "same_service st st4" "o_fs st4 = o_fs st3"
        using s3(1) by (simp_all add: st4_def default_skip_def same_service_def)
      obtain k st5 where K: "skip_loop T (ota_skip_size st4) st4 = Some (k, st5)"
        using I(2) True by (auto simp: rest_def bind_Some_iff simp flip: st4_def)
      have s5: "same_service st st5" "?fr (o_fs st) (o_fs st5)"
        using skip_loop_safe [OF K T] s4 s3 by (auto simp: same_service_def intro: frame_then_none)
      have ok5: "ok ?fl (o_fs st5)" using s5(2) ok(2) by (rule store_frame_ok)
      show ?thesis
      proof (cases k)
        case False
        then show ?thesis
          using I(2) True K s5 by (intro finish) (auto simp: rest_def simp flip: st4_def)
      next
        case k: True
        obtain o1 s6 where O: "if_hal_open F ?fl 5000 (o_fs st5) = Some (o1, s6)"
          "store_frame ok dsize mem ?fl 0 0 (o_fs st5) s6" using open_law [OF ok5] by blast
        have f6: "?fr (o_fs st) s6" using s5(2) O(2) by (rule frame_then_none)
        show ?thesis
        proof (cases "o1 = 0")
          case False
          then have "check_download F ?sq OTA_STATUS_ERROR ?n (st5\<lparr>o_fs := s6\<rparr>) = Some (r, st')"
            using I(2) True K k O(1) by (auto simp: rest_def on_fs_def simp flip: st4_def)
          then show ?thesis by (rule finish) (use s5(1) f6 in \<open>simp_all add: same_service_def\<close>)
        next
          case o1: True
          let ?st6 = "st5\<lparr>o_fs := s6\<rparr>"
          obtain ret left st7 where D: "download_loop F B ?p T ?fl ?a ?n ?st6 = Some (ret, left, st7)"
            using I(2) True K k O(1) o1 by (auto simp: rest_def on_fs_def bind_Some_iff simp flip: st4_def)
          have ok6: "ok ?fl (o_fs ?st6)" "unat ?a + unat ?n \<le> dsize ?fl (o_fs ?st6)"
            using f6 ok(2) fits by (simp_all add: store_frame_ok store_frame_dsize)
          have "same_service ?st6 st7" "?fr s6 (o_fs st7)"
            using download_loop_safe [OF D refl T ok6 ota_readyD(4) [OF ready]] by auto
          then have s7: "same_service st st7" "?fr (o_fs st) (o_fs st7)"
            using s5(1) f6 by (auto simp: same_service_def intro: store_frame_trans)
          obtain c s8 where X: "if_hal_close F ?fl (o_fs st7) = Some (c, s8)"
            "store_frame ok dsize mem ?fl 0 0 (o_fs st7) s8"
            using close_law store_frame_ok [OF s7(2) ok(2)] by blast
          have "check_download F ?sq ret left (st7\<lparr>o_fs := s8\<rparr>) = Some (r, st')"
            using I(2) True K k O(1) o1 D X(1) by (auto simp: rest_def on_fs_def simp flip: st4_def)
          then show ?thesis
            by (rule finish) (use s7 X(2) in \<open>auto simp: same_service_def intro: frame_then_none\<close>)
        qed
      qed
    qed
  qed
qed

lemma update_image_safe:
  assumes run: "ota_update_image F B T st = Some (r, st')"
    and ready: "ota_ready B st" and T: "transport_ok ok dsize mem T"
    and ok: "ok (IMG_BL_FLASH (iop (o_img st))) (o_fs st)" "ok (update_flash st) (o_fs st)"
    and fits: "unat (update_addr st) + unat (update_size B st) \<le> dsize (update_flash st) (o_fs st)"
  shows "same_service st st' \<and>
     store_frame ok dsize mem (update_flash st) (unat (update_addr st)) (unat (update_size B st))
       (o_fs st) (o_fs st') \<and>
     (r = OTA_STATUS_OK \<longrightarrow> intact_chain IMAGE_CHECK_NORMAL (iop (o_img st)) (ota_get_update_seq st)
        (\<lambda>f. mem f (o_fs st')) (IMG_BL_FLASH (iop (o_img st))) (IMG_BL_ADDR (iop (o_img st))))"
proof -
  have "ota_get_update_seq st < 2" using ready by (simp add: ota_ready_def)
  then obtain ret st1 where P: "ota_update_image_process F B T (ota_get_update_seq st) st = Some (ret, st1)"
    and rest: "(if ret \<noteq> OTA_STATUS_OK then Option.bind (ota_iop st1) (\<lambda>p.
        Option.bind (notify OTA_UPGRADE_FAIL (op_get_size st1 - ota_skip_size st1) (progress B p st1) st1)
          (\<lambda>st. Some (ret, st))) else Some (ret, st1)) = Some (r, st')"
    using run by (auto simp: ota_update_image_def bind_Some_iff)
  note safe = update_process_safe [OF P ready T ok fits]
  have r1: "ota_ready B st1" using same_service_ready safe ready by blast
  show ?thesis
  proof (cases "ret = OTA_STATUS_OK")
    case True
    then show ?thesis using rest safe by simp
  next
    case False
    obtain l where "notify OTA_UPGRADE_FAIL (op_get_size st1 - ota_skip_size st1) (progress B (iop (o_img st1)) st1) st1
        = Some (st1\<lparr>cb_log := l\<rparr>)" by (rule notify_progress [OF ota_readyD(4) [OF r1]])
    then have "r = ret" "st' = st1\<lparr>cb_log := l\<rparr>" using rest False ota_readyD(1) [OF r1] by simp_all
    then show ?thesis using safe False by (simp add: same_service_def)
  qed
qed

end

section \<open>The file and HTTP transports\<close>

text \<open>The file system and the HTTP client leave the flash that holds the images alone.\<close>

definition net_ok ::
  "(u32 \<Rightarrow> 's \<Rightarrow> bool) \<Rightarrow> (u32 \<Rightarrow> 's \<Rightarrow> nat) \<Rightarrow> (u32 \<Rightarrow> 's \<Rightarrow> content) \<Rightarrow> 's ota_net \<Rightarrow> bool" where
  "net_ok ok dsize mem N \<longleftrightarrow>
     (\<forall>u s r s'. f_open N u s = (r, s') \<longrightarrow> store_frame ok dsize mem 0 0 0 s s') \<and>
     (\<forall>n s r bs s'. f_read N n s = (r, bs, s') \<longrightarrow> store_frame ok dsize mem 0 0 0 s s' \<and> length bs \<le> unat n) \<and>
     (\<forall>s. store_frame ok dsize mem 0 0 0 s (f_close N s)) \<and>
     (\<forall>u n s r bs s'. HTTPC_get N u n s = (r, bs, s') \<longrightarrow>
        store_frame ok dsize mem 0 0 0 s s' \<and> length bs \<le> unat n)"

context flash_store
begin

lemma file_get_safe:
  assumes "net_ok ok dsize mem N" "ota_update_file_get N n st = Some (r, data, eof, st')"
  shows "same_service st st' \<and> op_get_size st' = op_get_size st \<and> ota_skip_size st' = ota_skip_size st \<and>
     store_frame ok dsize mem 0 0 0 (o_fs st) (o_fs st') \<and> length data \<le> unat n"
proof -
  obtain res bs s where R: "f_read N n (o_fs st) = (res, bs, s)" by (cases "f_read N n (o_fs st)")
  then have f: "store_frame ok dsize mem 0 0 0 (o_fs st) s" "length bs \<le> unat n"
    "store_frame ok dsize mem 0 0 0 s (f_close N s)" using assms(1) unfolding net_ok_def by blast+
  show ?thesis
    using assms(2) R f store_frame_trans [OF f(1) f(3)]
    by (auto simp: ota_update_file_get_def Let_def same_service_def split: if_splits)
qed

lemma http_get_safe:
  assumes "net_ok ok dsize mem N" "ota_update_http_get N n st = Some (r, data, eof, st')"
  shows "same_service st st' \<and> op_get_size st' = op_get_size st \<and> ota_skip_size st' = ota_skip_size st \<and>
     store_frame ok dsize mem 0 0 0 (o_fs st) (o_fs st') \<and> length data \<le> unat n"
proof -
  obtain res bs s where R: "HTTPC_get N (http_uri st) n (o_fs st) = (res, bs, s)"
    by (cases "HTTPC_get N (http_uri st) n (o_fs st)")
  then have f: "store_frame ok dsize mem 0 0 0 (o_fs st) s" "length bs \<le> unat n"
    using assms(1) unfolding net_ok_def by blast+
  show ?thesis
    using assms(2) R f by (auto simp: ota_update_http_get_def Let_def same_service_def split: if_splits)
qed

lemma malloc_keep: "if_malloc F k s = (p, s') \<Longrightarrow> store_frame ok dsize mem 0 0 0 s s'"
  using malloc_law by blast

lemma file_init_safe:
  assumes "net_ok ok dsize mem N" "ota_update_file_init F N url st = Some (r, st')"
  shows "same_service st st' \<and> store_frame ok dsize mem 0 0 0 (o_fs st) (o_fs st')"
proof -
  obtain b s1 where M: "if_malloc F 568 (o_fs st) = (b, s1)" by force
  have o: "f_open N u s = (res, s') \<Longrightarrow> store_frame ok dsize mem 0 0 0 s s'" for u s res s'
    using assms(1) unfolding net_ok_def by blast
  show ?thesis
    using assms(2) M malloc_keep [OF M]
    by (auto simp: ota_update_file_init_def same_service_def split: if_splits prod.splits
        dest!: o intro: store_frame_trans)
qed

lemma http_init_safe:
  assumes "ota_update_http_init F url st = Some (r, st')"
  shows "same_service st st' \<and> store_frame ok dsize mem 0 0 0 (o_fs st) (o_fs st')"
proof -
  obtain b s1 where M: "if_malloc F 1024 (o_fs st) = (b, s1)" by force
  show ?thesis
    using assms M malloc_keep [OF M]
    by (auto simp: ota_update_http_init_def same_service_def split: if_splits prod.splits)
qed

lemma file_transport_ok: "net_ok ok dsize mem N \<Longrightarrow> transport_ok ok dsize mem (file_transport F N url)"
  using file_get_safe file_init_safe unfolding transport_ok_def file_transport_def
  by (simp only: ota_transport.simps) blast

lemma http_transport_ok: "net_ok ok dsize mem N \<Longrightarrow> transport_ok ok dsize mem (http_transport F N url)"
  using http_get_safe http_init_safe unfolding transport_ok_def http_transport_def
  by (simp only: ota_transport.simps) blast

lemma get_image_safe:
  assumes run: "ota_get_image F B N proto (Some url) st = Some (r, st')"
    and ready: "ota_ready B (snd (ota_init B st))" and N: "net_ok ok dsize mem N"
    and ok: "ok (IMG_BL_FLASH (iop (o_img st))) (o_fs st)" "ok (update_flash (snd (ota_init B st))) (o_fs st)"
    and fits: "unat (update_addr (snd (ota_init B st))) + unat (update_size B st)
                 \<le> dsize (update_flash (snd (ota_init B st))) (o_fs st)"
  shows "store_frame ok dsize mem (update_flash (snd (ota_init B st))) (unat (update_addr (snd (ota_init B st))))
       (unat (update_size B st)) (o_fs st) (o_fs st') \<and> o_img st' = o_img st \<and>
     (r = OTA_STATUS_OK \<longrightarrow> intact_chain IMAGE_CHECK_NORMAL (iop (o_img st))
        (ota_get_update_seq (snd (ota_init B st)))
        (\<lambda>f. mem f (o_fs st')) (IMG_BL_FLASH (iop (o_img st))) (IMG_BL_ADDR (iop (o_img st))))"
proof -
  define st0 where "st0 = snd (ota_init B st)"
  have same: "o_img st0 = o_img st" "o_fs st0 = o_fs st" "update_size B st0 = update_size B st"
    by (simp_all add: st0_def ota_init_def update_size_def)
  obtain T where T: "ota_update_image F B T st0 = Some (r, st')" "transport_ok ok dsize mem T"
    using run file_transport_ok [OF N, of url] http_transport_ok [OF N, of url]
    by (cases proto) (auto simp: ota_get_image_def st0_def split: prod.splits)
  have "same_service st0 st' \<and>
     store_frame ok dsize mem (update_flash st0) (unat (update_addr st0)) (unat (update_size B st0))
       (o_fs st0) (o_fs st') \<and>
     (r = OTA_STATUS_OK \<longrightarrow> intact_chain IMAGE_CHECK_NORMAL (iop (o_img st0)) (ota_get_update_seq st0)
        (\<lambda>f. mem f (o_fs st')) (IMG_BL_FLASH (iop (o_img st0))) (IMG_BL_ADDR (iop (o_img st0))))"
    by (rule update_image_safe [OF T(1) _ T(2)])
      (use ready ok fits same in \<open>simp_all flip: st0_def\<close>)
  then show ?thesis using same by (simp add: same_service_def flip: st0_def)
qed

end

end
