(* ===== verification/Fdcm_Reliable.thy ===== *)
theory Fdcm_Reliable
  imports Fdcm_Spec
begin

text \<open>
  The chunk store on a reliable flash: reading, appending, the first write and the erase of
  an area all report success.  Together with the laws of \<open>Fdcm_Spec\<close>, which say what a
  reported success means, this is the full functional behaviour.
\<close>

text \<open>An area as \<open>rom_fdcm_open\<close> accepts it, with room for a chunk of the given size.\<close>

definition fdcm_usable :: "fdcm_handle \<Rightarrow> nat \<Rightarrow> u16 \<Rightarrow> bool" where
  "fdcm_usable hdl n ds \<longleftrightarrow> fdcm_area hdl n \<and> 4096 dvd unat (fh_addr hdl) \<and> 4096 dvd unat (fh_size hdl) \<and>
     ds \<noteq> 0 \<and> unat ds + 1032 \<le> unat (fh_size hdl)"

context reliable_store
begin

lemma fdcm_rewrite_sure:
  assumes ok: "ok (fh_flash hdl) s" and use: "fdcm_usable hdl (dsize (fh_flash hdl) s) ds"
    and data: "unat ds \<le> length data"
  shows "\<exists>s'. fdcm_rewrite F hdl data ds s = Some (ucast ds, s')"
proof -
  let ?fl = "fh_flash hdl" and ?a = "fh_addr hdl" and ?n = "fh_size hdl"
  let ?bs = "fdcm_bitmap_size ?n ds"
  let ?h = "bytes_of_fdcm_header \<lparr>id_code = FDCM_ID_CODE, bitmap_size = ?bs, data_size = ds\<rparr>"
  note bs = bitmap_size_le_nat [of ?n ds]
  have u: "4096 dvd unat ?a" "4096 dvd unat ?n" "unat ?a + unat ?n \<le> dsize ?fl s" "ds \<noteq> 0"
    "unat ds + 1032 \<le> unat ?n" "unat ?a + unat ?n < 4294967296"
    using use dsize_bound [of ?fl s] by (auto simp: fdcm_usable_def fdcm_area_def)
  have left: "unat (?n - 8 - ucast ?bs) = unat ?n - 8 - unat ?bs"
  proof -
    have "unat (?n - 8) = unat ?n - 8" using unat_sub [of 8 ?n] u by (simp add: word_le_nat_alt)
    then show ?thesis by (subst unat_sub) (use u bs in \<open>simp_all add: word_le_nat_alt\<close>)
  qed
  have room: "\<not> (ucast ds :: u32) > ?n - 8 - ucast ?bs"
    using left u bs by (simp add: word_less_nat_alt not_less)
  have a1: "unat (?a + 8) = unat ?a + 8" using unat_add_const [of ?a 8] u by simp
  have a2: "unat (?a + 8 + ucast ?bs) = unat ?a + 8 + unat ?bs"
    by (subst unat_add_const) (use u bs a1 in simp_all)
  have ds0: "(ucast ds :: u32) \<noteq> 0" using u(4) by (metis unat_ucast_u16_u32 unat_eq_zero)
  obtain s1 where E: "if_flash_erase F ?fl ?a ?n s = Some (0, s1)" "store_frame ok dsize mem ?fl (unat ?a) (unat ?n) s s1"
    using erase_sure [OF ok u(1,2,3)] by metis
  obtain s2 where W2: "if_flash_write F ?fl ?a ?h 8 s1 = Some (8, s2)" "store_frame ok dsize mem ?fl (unat ?a) 8 s1 s2"
    using write_sure [OF store_frame_ok [OF E(2) ok], of 8 ?h ?a] u store_frame_dsize [OF E(2), of ?fl] by auto
  obtain s3 where W3: "if_flash_write F ?fl (?a + 8) [0xFE] 1 s2 = Some (1, s3)"
      "store_frame ok dsize mem ?fl (unat ?a + 8) 1 s2 s3"
    using write_sure [OF store_frame_ok [OF W2(2)], of ?fl 1 "[0xFE]" "?a + 8"] store_frame_ok [OF E(2) ok] a1 u
      store_frame_dsize [OF E(2), of ?fl] store_frame_dsize [OF W2(2), of ?fl] by auto
  have ok3: "ok ?fl s3" "dsize ?fl s3 = dsize ?fl s"
    using ok E(2) W2(2) W3(2) by (simp_all add: store_frame_def)
  obtain s4 where W4: "if_flash_write F ?fl (?a + 8 + ucast ?bs) data (ucast ds) s3 = Some (ucast ds, s4)"
    using write_sure [OF ok3(1) _ ds0, of data "?a + 8 + ucast ?bs"] a2 data u bs ok3(2) by auto
  show ?thesis
    using room E(1) W2(1) W3(1) W4 by (simp add: fdcm_rewrite_def Let_def)
qed

lemma fdcm_write_sure:
  assumes ok: "ok (fh_flash hdl) s" and use: "fdcm_usable hdl (dsize (fh_flash hdl) s) ds"
    and data: "unat ds \<le> length data"
    and h: "h = fdcm_header_of_bytes (content_read (mem (fh_flash hdl) s) (unat (fh_addr hdl)) 8)"
    and small: "header_invalid h ds (fh_size hdl) \<or> unat (bitmap_size h) \<le> 1024"
  shows "\<exists>s'. rom_fdcm_write F (Some hdl) (Some data) ds s = Some (ucast ds, s')"
proof -
  let ?fl = "fh_flash hdl" and ?a = "fh_addr hdl" and ?n = "fh_size hdl"
  have u: "4096 \<le> unat ?n" "unat ?a + unat ?n \<le> dsize ?fl s" "ds \<noteq> 0"
    "unat ds + 1032 \<le> unat ?n" "unat ?a + unat ?n < 4294967296"
    using use dsize_bound [of ?fl s] by (auto simp: fdcm_usable_def fdcm_area_def)
  obtain s1 where R: "if_flash_read F ?fl ?a (replicate 8 0) 8 s =
      Some (8, content_read (mem ?fl s) (unat ?a) 8, s1)" "store_frame ok dsize mem ?fl 0 0 s s1"
    using read_sure [OF ok, of 8 "replicate 8 0" ?a] u by auto
  have st1: "ok ?fl s1" "dsize ?fl s1 = dsize ?fl s" "mem ?fl s1 = mem ?fl s"
    using R(2) ok by (simp_all add: store_frame_def)
  show ?thesis
  proof (cases "header_invalid h ds ?n")
    case True
    then show ?thesis
      using R(1) fdcm_rewrite_sure [OF st1(1), of ds data] use data st1(2)
      by (simp add: rom_fdcm_write_def flip: h)
  next
    case False
    with small have bs: "unat (bitmap_size h) \<le> 1024" by simp
    define bs where "bs = bitmap_size h"
    have bs': "unat bs \<le> 1024" "bs \<noteq> 0" "8 + unat bs < unat ?n"
      using header_valid_size [OF False bs] bs by (simp_all add: bs_def)
    have left: "unat (?n - 8 - ucast bs) = unat ?n - 8 - unat bs"
    proof -
      have "unat (?n - 8) = unat ?n - 8" using unat_sub [of 8 ?n] u by (simp add: word_le_nat_alt)
      then show ?thesis by (subst unat_sub) (use u bs' in \<open>simp_all add: word_le_nat_alt\<close>)
    qed
    have fits: "\<not> (ucast ds :: u32) > ?n - 8 - ucast bs"
      using left u bs' by (simp add: word_less_nat_alt not_less)
    obtain b s2 where M: "if_malloc F (unat bs) s1 = (Some b, s2)" "length b = unat bs"
        "store_frame ok dsize mem ?fl 0 0 s1 s2"
      using malloc_sure [OF st1(1)] by blast
    have st2: "ok ?fl s2" "dsize ?fl s2 = dsize ?fl s" "mem ?fl s2 = mem ?fl s"
      using M(3) st1 by (simp_all add: store_frame_def)
    have a1: "unat (?a + 8) = unat ?a + 8" using unat_add_const [of ?a 8] u by simp
    have bs0: "(ucast bs :: u32) \<noteq> 0" using bs'(2) by (metis unat_ucast_u16_u32 unat_eq_zero)
    have ds0: "(ucast ds :: u32) \<noteq> 0" using u(3) by (metis unat_ucast_u16_u32 unat_eq_zero)
    obtain s3 where B: "if_flash_read F ?fl (?a + 8) b (ucast bs) s2 =
        Some (ucast bs, content_read (mem ?fl s2) (unat ?a + 8) (unat bs), s3)"
        "store_frame ok dsize mem ?fl 0 0 s2 s3"
      using read_sure [OF st2(1) _ bs0, of b "?a + 8"] M(2) a1 u bs' st2(2) by auto
    have st3: "ok ?fl s3" "dsize ?fl s3 = dsize ?fl s" using B(2) st2 by (simp_all add: store_frame_def)
    define bm where "bm = content_read (mem ?fl s2) (unat ?a + 8) (unat bs)"
    define k where "k = fdcm_bit_count (take (unat bs) bm)"
    show ?thesis
    proof (cases "k \<ge> 8 * ucast bs \<or> 8 + ucast bs + ucast ds * (k + 1) > ?n")
      case True
      then show ?thesis
        using R(1) False fits M(1) B(1) fdcm_rewrite_sure [OF st3(1), of ds data] use data st3(2)
        by (simp add: rom_fdcm_write_def Let_def flip: h bs_def bm_def k_def)
    next
      case room: False
      have k: "unat k < 8 * unat bs"
        using room unat_mult_no_wrap [of 8 "ucast bs :: u32"] bs' by (simp add: word_le_nat_alt not_le)
      then have k1: "unat (k + 1) = unat k + 1" "unat (k + 1) \<le> 8193" "unat k \<le> 8193"
        using unat_Suc_u32 [of k] bs' by simp_all
      have slot: "8 + unat bs + (unat ds * unat k + unat ds) \<le> unat ?n"
        using room slot_offset(2) [OF bs'(1) k1(2), of ds] k1(1) by (simp add: word_le_nat_alt not_less)
      have idx: "unat (?a + 8 + k div 8) = unat ?a + 8 + unat k div 8"
        using unat_add_const [of "?a + 8" "k div 8"] a1 u k bs' slot by (simp add: unat_div)
      let ?b = "bm ! unat (k div 8) AND NOT (push_bit (unat (k mod 8)) 1)"
      obtain s4 where W: "if_flash_write F ?fl (?a + 8 + k div 8) [?b] 1 s3 = Some (1, s4)"
          "store_frame ok dsize mem ?fl (unat (?a + 8 + k div 8)) 1 s3 s4"
      proof -
        have "unat k div 8 < unat bs" using k by (simp add: less_mult_imp_div_less)
        then have "unat (?a + 8 + k div 8) + 1 \<le> dsize ?fl s3"
          using slot u(2) unfolding idx st3(2) by linarith
        then show thesis using write_sure [OF st3(1), of 1 "[?b]" "?a + 8 + k div 8"] that by auto
      qed
      have st4: "ok ?fl s4" "dsize ?fl s4 = dsize ?fl s" using W(2) st3 by (simp_all add: store_frame_def)
      have pos: "unat (?a + 8 + ucast bs + ucast ds * k) = unat ?a + (8 + unat bs + unat ds * unat k)"
        using slot_offset(2) [OF bs'(1) k1(3), of ds] u slot
          unat_add_const [of ?a "8 + ucast bs + ucast ds * k"] by (simp add: add.assoc)
      obtain s5 where D: "if_flash_write F ?fl (?a + 8 + ucast bs + ucast ds * k) data (ucast ds) s4 =
          Some (ucast ds, s5)"
        using write_sure [OF st4(1) _ ds0, of data "?a + 8 + ucast bs + ucast ds * k"] data pos st4(2) u slot
        by auto
      show ?thesis
        using R(1) False fits M(1) B(1) room W(1) D
        by (simp add: rom_fdcm_write_def Let_def flip: h bs_def bm_def k_def)
    qed
  qed
qed

lemma fdcm_read_sure:
  assumes ok: "ok (fh_flash hdl) s" and area: "fdcm_area hdl (dsize (fh_flash hdl) s)"
    and data: "unat ds \<le> length buf"
    and holds: "fdcm_holds (mem (fh_flash hdl) s) (unat (fh_addr hdl)) (unat (fh_size hdl)) bs ds recs"
  shows "\<exists>s'. rom_fdcm_read F (Some hdl) (Some buf) ds s =
     Some (ucast ds, Some (last recs @ drop (unat ds) buf), s') \<and>
     store_frame ok dsize mem (fh_flash hdl) 0 0 s s'"
proof -
  let ?fl = "fh_flash hdl" and ?a = "fh_addr hdl" and ?n = "fh_size hdl" and ?k = "length recs"
  have u: "4096 \<le> unat ?n" "unat ?a + unat ?n \<le> dsize ?fl s" "unat ?a + unat ?n < 4294967296"
    using area dsize_bound [of ?fl s] by (auto simp: fdcm_area_def)
  define h where "h = fdcm_header_of_bytes (content_read (mem ?fl s) (unat ?a) 8)"
  note hh = holds_header [OF holds h_def]
  note H = holds [unfolded fdcm_holds_def slot_base_def]
  have mk: "unat ds * (?k - 1) + unat ds = unat ds * ?k" using H by (cases ?k) simp_all
  obtain s1 where R: "if_flash_read F ?fl ?a (replicate 8 0) 8 s =
      Some (8, content_read (mem ?fl s) (unat ?a) 8, s1)" "store_frame ok dsize mem ?fl 0 0 s s1"
    using read_sure [OF ok, of 8 "replicate 8 0" ?a] u by auto
  have st1: "ok ?fl s1" using R(2) ok by (simp_all add: store_frame_def)
  obtain b s2 where M: "if_malloc F (unat bs) s1 = (Some b, s2)" "length b = unat bs"
      "store_frame ok dsize mem ?fl 0 0 s1 s2"
    using malloc_sure [OF st1] by blast
  have f2: "store_frame ok dsize mem ?fl 0 0 s s2" using R(2) M(3) by (rule store_frame_trans)
  have st2: "ok ?fl s2" "dsize ?fl s2 = dsize ?fl s" "mem ?fl s2 = mem ?fl s"
    using f2 ok by (simp_all add: store_frame_def)
  have a1: "unat (?a + 8) = unat ?a + 8" using unat_add_const [of ?a 8] u by simp
  have bs0: "(ucast bs :: u32) \<noteq> 0" using H by (metis unat_ucast_u16_u32 unat_eq_zero)
  have ds0: "(ucast ds :: u32) \<noteq> 0" using H by (metis unat_ucast_u16_u32 unat_eq_zero)
  have end1: "unat ?a + 8 + unat bs \<le> dsize ?fl s" using H u(2) by linarith
  obtain s3 where B: "if_flash_read F ?fl (?a + 8) b (ucast bs) s2 =
      Some (ucast bs, content_read (mem ?fl s2) (unat ?a + 8) (unat bs), s3)"
      "store_frame ok dsize mem ?fl 0 0 s2 s3"
    using read_sure [OF st2(1) _ bs0, of b "?a + 8"] M(2) a1 end1 st2(2) by auto
  have f3: "store_frame ok dsize mem ?fl 0 0 s s3" using f2 B(2) by (rule store_frame_trans)
  have st3: "ok ?fl s3" "dsize ?fl s3 = dsize ?fl s" "mem ?fl s3 = mem ?fl s"
    using f3 ok by (simp_all add: store_frame_def)
  define k where "k = fdcm_bit_count (content_read (mem ?fl s) (unat ?a + 8) (unat bs))"
  have k: "unat k = ?k" using hh(4) by (simp add: k_def)
  have pos: "0 < ?k" "?k \<le> 8192" using H hh(3) by auto
  have k1: "unat (k - 1) = ?k - 1" using unat_sub [of 1 k] k pos by (simp add: word_le_nat_alt)
  let ?a2 = "?a + 8 + (ucast bs + ucast ds * (k - 1))"
  have "unat (8 + ucast bs + ucast ds * (k - 1)) = 8 + unat bs + unat ds * (?k - 1)"
    using slot_offset(2) [OF hh(3), of "k - 1" ds] k1 pos by simp
  moreover have "?a2 = ?a + (8 + ucast bs + ucast ds * (k - 1))" by (simp add: add.assoc)
  ultimately have a2: "unat ?a2 = unat ?a + (8 + unat bs + unat ds * (?k - 1))"
    using H mk u unat_add_const [of ?a "8 + ucast bs + ucast ds * (k - 1)"] by (simp add: add.assoc)
  have end2: "unat ?a2 + unat ds \<le> dsize ?fl s3" unfolding a2 st3(2) using H mk u(2) by linarith
  obtain s4 where D: "if_flash_read F ?fl ?a2 buf (ucast ds) s3 =
      Some (ucast ds, content_read (mem ?fl s3) (unat ?a2) (unat ds) @ drop (unat ds) buf, s4)"
      "store_frame ok dsize mem ?fl 0 0 s3 s4"
    using read_sure [OF st3(1) _ ds0, of buf ?a2] data end2 by auto
  have "content_read (mem ?fl s) (unat ?a2) (unat ds) = recs ! (?k - 1)"
    unfolding a2 using H pos by (simp add: add.assoc)
  also have "\<dots> = last recs" using H by (simp add: last_conv_nth)
  finally have cr: "content_read (mem ?fl s3) (unat ?a2) (unat ds) = last recs"
    using st3(3) by simp
  have "rom_fdcm_read F (Some hdl) (Some buf) ds s =
      Some (ucast ds, Some (last recs @ drop (unat ds) buf), s4)"
    using R(1) hh(1,2) M(1) B(1) D(1) cr st2(3)
    by (simp add: rom_fdcm_read_def Let_def flip: h_def k_def)
  then show ?thesis using store_frame_trans [OF f3 D(2)] by blast
qed

lemma fdcm_open_sure:
  assumes "ok fl s" "4096 dvd unat a" "4096 dvd unat n" "n \<noteq> 0"
  shows "\<exists>s'. rom_fdcm_open F fl a n s = Some (Some \<lparr>fh_flash = fl, fh_addr = a, fh_size = n\<rparr>, s') \<and>
    store_frame ok dsize mem fl 0 0 s s'"
proof -
  obtain r where r: "if_flash_get_erase_block F fl a n s = Some r"
    using block_law [OF assms(1), of a n] by blast
  have "\<not> r < 0" using block_succeeds [OF assms r] by simp
  moreover obtain b s' where "if_malloc F 12 s = (Some b, s')" "store_frame ok dsize mem fl 0 0 s s'"
    using malloc_sure [OF assms(1)] by blast
  ultimately show ?thesis using r by (simp add: rom_fdcm_open_def)
qed

text \<open>Appending to a history and starting one, with the contents they leave.\<close>

lemma fdcm_append_sure:
  assumes ok: "ok (fh_flash hdl) s" and use: "fdcm_usable hdl (dsize (fh_flash hdl) s) ds"
    and data: "length x = unat ds"
    and holds: "fdcm_holds (mem (fh_flash hdl) s) (unat (fh_addr hdl)) (unat (fh_size hdl)) bs ds recs"
  shows "\<exists>s'. rom_fdcm_write F (Some hdl) (Some x) ds s = Some (ucast ds, s') \<and>
     store_frame ok dsize mem (fh_flash hdl) (unat (fh_addr hdl)) (unat (fh_size hdl)) s s' \<and>
     (if length recs < 8 * unat bs \<and>
         slot_base (unat bs) + unat ds * (length recs + 1) \<le> unat (fh_size hdl)
      then fdcm_holds (mem (fh_flash hdl) s') (unat (fh_addr hdl)) (unat (fh_size hdl)) bs ds (recs @ [x])
      else fdcm_bitmap_size (fh_size hdl) ds \<noteq> 0 \<longrightarrow>
        fdcm_holds (mem (fh_flash hdl) s') (unat (fh_addr hdl)) (unat (fh_size hdl))
          (fdcm_bitmap_size (fh_size hdl) ds) ds [x])"
proof -
  have area: "fdcm_area hdl (dsize (fh_flash hdl) s)" and "ds \<noteq> 0" using use by (simp_all add: fdcm_usable_def)
  then have ds0: "(ucast ds :: u32) \<noteq> 0" by (metis unat_ucast_u16_u32 unat_eq_zero)
  note hh = holds_header [OF holds refl]
  have "\<exists>s'. rom_fdcm_write F (Some hdl) (Some x) ds s = Some (ucast ds, s')"
    by (rule fdcm_write_sure [OF ok use _ refl]) (use data hh(1,3) in simp_all)
  then obtain s1 where run: "rom_fdcm_write F (Some hdl) (Some x) ds s = Some (ucast ds, s1)" ..
  show ?thesis
    using fdcm_append_law [OF ok area data holds] ds0 by (simp only: run) auto
qed

lemma fdcm_first_write_sure:
  assumes ok: "ok (fh_flash hdl) s" and use: "fdcm_usable hdl (dsize (fh_flash hdl) s) ds"
    and data: "length x = unat ds" and bms: "fdcm_bitmap_size (fh_size hdl) ds \<noteq> 0"
    and fresh: "header_invalid (fdcm_header_of_bytes
                  (content_read (mem (fh_flash hdl) s) (unat (fh_addr hdl)) 8)) ds (fh_size hdl)"
  shows "\<exists>s'. rom_fdcm_write F (Some hdl) (Some x) ds s = Some (ucast ds, s') \<and>
     store_frame ok dsize mem (fh_flash hdl) (unat (fh_addr hdl)) (unat (fh_size hdl)) s s' \<and>
     fdcm_holds (mem (fh_flash hdl) s') (unat (fh_addr hdl)) (unat (fh_size hdl))
                  (fdcm_bitmap_size (fh_size hdl) ds) ds [x]"
proof -
  have area: "fdcm_area hdl (dsize (fh_flash hdl) s)" and "ds \<noteq> 0" using use by (simp_all add: fdcm_usable_def)
  then have ds0: "(ucast ds :: u32) \<noteq> 0" by (metis unat_ucast_u16_u32 unat_eq_zero)
  have "\<exists>s'. rom_fdcm_write F (Some hdl) (Some x) ds s = Some (ucast ds, s')"
    by (rule fdcm_write_sure [OF ok use _ refl]) (use data fresh in simp_all)
  then obtain s1 where run: "rom_fdcm_write F (Some hdl) (Some x) ds s = Some (ucast ds, s1)" ..
  show ?thesis
    using fdcm_first_write_law [OF ok area data bms fresh] ds0 by (simp only: run) auto
qed

end

section \<open>A history of writes\<close>

text \<open>A client that writes one chunk after the other and stops when one is not stored.\<close>

fun fdcm_write_all ::
  "'s flash_if \<Rightarrow> fdcm_handle \<Rightarrow> u16 \<Rightarrow> u8 list list \<Rightarrow> 's \<Rightarrow> (bool \<times> 's) option" where
  "fdcm_write_all F hdl ds [] s = Some (True, s)"
| "fdcm_write_all F hdl ds (x # xs) s = do {
     (r, s) \<leftarrow> rom_fdcm_write F (Some hdl) (Some x) ds s;
     if r \<noteq> ucast ds then Some (False, s) else fdcm_write_all F hdl ds xs s
   }"

text \<open>An area the store can be used on: it has no usable header yet, or it holds a history.\<close>

definition fdcm_ready :: "content \<Rightarrow> nat \<Rightarrow> u32 \<Rightarrow> u16 \<Rightarrow> bool" where
  "fdcm_ready m a sz ds \<longleftrightarrow> header_invalid (fdcm_header_of_bytes (content_read m a 8)) ds sz \<or>
     (\<exists>bs recs. fdcm_holds m a (unat sz) bs ds recs)"

text \<open>The latest chunk of the area is \<open>x\<close>.\<close>

definition fdcm_latest :: "content \<Rightarrow> nat \<Rightarrow> u32 \<Rightarrow> u16 \<Rightarrow> u8 list \<Rightarrow> bool" where
  "fdcm_latest m a sz ds x \<longleftrightarrow> (\<exists>bs recs. fdcm_holds m a (unat sz) bs ds recs \<and> last recs = x)"

lemma latest_ready: "fdcm_latest m a sz ds x \<Longrightarrow> fdcm_ready m a sz ds"
  by (auto simp: fdcm_latest_def fdcm_ready_def)

context reliable_store
begin

lemma fdcm_write_latest:
  assumes ok: "ok (fh_flash hdl) s" and use: "fdcm_usable hdl (dsize (fh_flash hdl) s) ds"
    and sz: "unat (fh_size hdl) \<le> 524288" and data: "length x = unat ds"
    and ready: "fdcm_ready (mem (fh_flash hdl) s) (unat (fh_addr hdl)) (fh_size hdl) ds"
  shows "\<exists>s'. rom_fdcm_write F (Some hdl) (Some x) ds s = Some (ucast ds, s') \<and>
     store_frame ok dsize mem (fh_flash hdl) (unat (fh_addr hdl)) (unat (fh_size hdl)) s s' \<and>
     fdcm_latest (mem (fh_flash hdl) s') (unat (fh_addr hdl)) (fh_size hdl) ds x"
proof -
  have "ds \<noteq> 0" "9 \<le> unat (fh_size hdl)" using use by (auto simp: fdcm_usable_def)
  then have bms: "fdcm_bitmap_size (fh_size hdl) ds \<noteq> 0" using sz by (intro bitmap_size_nonzero)
  from ready [unfolded fdcm_ready_def] show ?thesis
  proof (elim disjE exE)
    assume "header_invalid (fdcm_header_of_bytes (content_read (mem (fh_flash hdl) s) (unat (fh_addr hdl)) 8)) ds (fh_size hdl)"
    from fdcm_first_write_sure [OF ok use data bms this] show ?thesis
      unfolding fdcm_latest_def by (metis last.simps)
  next
    fix bs recs
    assume "fdcm_holds (mem (fh_flash hdl) s) (unat (fh_addr hdl)) (unat (fh_size hdl)) bs ds recs"
    from fdcm_append_sure [OF ok use data this] bms show ?thesis
      unfolding fdcm_latest_def by (metis last.simps last_snoc)
  qed
qed

lemma fdcm_read_latest:
  assumes ok: "ok (fh_flash hdl) s" and use: "fdcm_usable hdl (dsize (fh_flash hdl) s) ds"
    and data: "length buf = unat ds"
    and latest: "fdcm_latest (mem (fh_flash hdl) s) (unat (fh_addr hdl)) (fh_size hdl) ds x"
  shows "\<exists>s'. rom_fdcm_read F (Some hdl) (Some buf) ds s = Some (ucast ds, Some x, s') \<and>
     store_frame ok dsize mem (fh_flash hdl) 0 0 s s'"
proof -
  have area: "fdcm_area hdl (dsize (fh_flash hdl) s)" using use by (simp add: fdcm_usable_def)
  obtain bs recs where H: "fdcm_holds (mem (fh_flash hdl) s) (unat (fh_addr hdl)) (unat (fh_size hdl)) bs ds recs"
    "last recs = x" using latest by (auto simp: fdcm_latest_def)
  from fdcm_read_sure [OF ok area _ H(1), of buf] data H(2) show ?thesis by simp
qed

lemma fdcm_write_all_latest:
  assumes "ok (fh_flash hdl) s" "fdcm_usable hdl (dsize (fh_flash hdl) s) ds"
    and "unat (fh_size hdl) \<le> 524288" "\<forall>x \<in> set xs. length x = unat ds" "xs \<noteq> []"
    and "fdcm_ready (mem (fh_flash hdl) s) (unat (fh_addr hdl)) (fh_size hdl) ds"
  shows "\<exists>s'. fdcm_write_all F hdl ds xs s = Some (True, s') \<and>
     store_frame ok dsize mem (fh_flash hdl) (unat (fh_addr hdl)) (unat (fh_size hdl)) s s' \<and>
     fdcm_latest (mem (fh_flash hdl) s') (unat (fh_addr hdl)) (fh_size hdl) ds (last xs)"
  using assms
proof (induction xs arbitrary: s)
  case Nil
  then show ?case by simp
next
  case (Cons x xs)
  have len: "length x = unat ds" using Cons.prems(4) by simp
  obtain s1 where W: "rom_fdcm_write F (Some hdl) (Some x) ds s = Some (ucast ds, s1)"
    "store_frame ok dsize mem (fh_flash hdl) (unat (fh_addr hdl)) (unat (fh_size hdl)) s s1"
    "fdcm_latest (mem (fh_flash hdl) s1) (unat (fh_addr hdl)) (fh_size hdl) ds x"
    using fdcm_write_latest [OF Cons.prems(1-3) len Cons.prems(6)] by blast
  show ?case
  proof (cases "xs = []")
    case True
    then show ?thesis using W by simp
  next
    case False
    have st: "ok (fh_flash hdl) s1" "dsize (fh_flash hdl) s1 = dsize (fh_flash hdl) s"
      using W(2) Cons.prems(1) by (simp_all add: store_frame_def)
    have "\<exists>s'. fdcm_write_all F hdl ds xs s1 = Some (True, s') \<and>
       store_frame ok dsize mem (fh_flash hdl) (unat (fh_addr hdl)) (unat (fh_size hdl)) s1 s' \<and>
       fdcm_latest (mem (fh_flash hdl) s') (unat (fh_addr hdl)) (fh_size hdl) ds (last xs)"
      by (rule Cons.IH) (use Cons.prems st False latest_ready [OF W(3)] in auto)
    then show ?thesis using W(1) False store_frame_trans [OF W(2)] by auto
  qed
qed

lemma fdcm_history:
  assumes ok: "ok (fh_flash hdl) s" and use: "fdcm_usable hdl (dsize (fh_flash hdl) s) ds"
    and sz: "unat (fh_size hdl) \<le> 524288" and len: "\<forall>x \<in> set xs. length x = unat ds" and ne: "xs \<noteq> []"
    and ready: "fdcm_ready (mem (fh_flash hdl) s) (unat (fh_addr hdl)) (fh_size hdl) ds"
    and buf: "length buf = unat ds"
  shows "\<exists>s1 s2. fdcm_write_all F hdl ds xs s = Some (True, s1) \<and>
     rom_fdcm_read F (Some hdl) (Some buf) ds s1 = Some (ucast ds, Some (last xs), s2) \<and>
     store_frame ok dsize mem (fh_flash hdl) (unat (fh_addr hdl)) (unat (fh_size hdl)) s s2"
proof -
  obtain s1 where W: "fdcm_write_all F hdl ds xs s = Some (True, s1)"
    "store_frame ok dsize mem (fh_flash hdl) (unat (fh_addr hdl)) (unat (fh_size hdl)) s s1"
    "fdcm_latest (mem (fh_flash hdl) s1) (unat (fh_addr hdl)) (fh_size hdl) ds (last xs)"
    using fdcm_write_all_latest [OF ok use sz len ne ready] by blast
  have st: "ok (fh_flash hdl) s1" "fdcm_usable hdl (dsize (fh_flash hdl) s1) ds"
    using W(2) ok use by (simp_all add: store_frame_def)
  from fdcm_read_latest [OF st buf W(3)] W(1) show ?thesis
    using store_frame_trans [OF W(2) store_frame_none] by blast
qed

end

end
