(* ===== verification/Image_Cfg_Reliable.thy ===== *)
theory Image_Cfg_Reliable
  imports Image_Cfg_Spec Fdcm_Reliable
begin

text \<open>
  The boot configuration on a reliable flash: setting it succeeds, and reading it back, also
  at the next start, returns what was set.
\<close>

text \<open>The configuration area of a layout: whole erase blocks inside its device.\<close>

definition cfg_area_fits :: "image_ota_param \<Rightarrow> nat \<Rightarrow> bool" where
  "cfg_area_fits p n \<longleftrightarrow> ota_size p \<noteq> 0 \<and> 4096 dvd unat (ota_addr p) \<and> 4096 dvd unat (ota_size p) \<and>
     unat (ota_addr p) + unat (ota_size p) \<le> n \<and> unat (ota_size p) \<le> 524288"

lemma cfg_area_big: "cfg_area_fits p n \<Longrightarrow> 4096 \<le> unat (ota_size p)"
  by (auto simp: cfg_area_fits_def unat_eq_zero intro!: dvd_imp_le simp flip: unat_gt_0)

lemma cfg_area_addr: "cfg_area_fits p n \<Longrightarrow> ota_addr p \<noteq> IMAGE_INVALID_ADDR"
proof
  assume "cfg_area_fits p n" "ota_addr p = IMAGE_INVALID_ADDR"
  then have "4096 dvd unat (0xFFFFFFFF :: u32)" by (simp add: cfg_area_fits_def)
  then show False by (simp add: dvd_eq_mod_eq_0)
qed

lemma cfg_area_usable:
  assumes "cfg_area_fits p n"
  shows "fdcm_usable \<lparr>fh_flash = fl, fh_addr = ota_addr p, fh_size = ota_size p\<rparr> n 4"
  using assms cfg_area_big [OF assms] by (simp add: fdcm_usable_def fdcm_area_def cfg_area_fits_def)

context reliable_store
begin

lemma cfg_write_sure:
  assumes ok: "ok (fh_flash hdl) s" and use: "fdcm_usable hdl (dsize (fh_flash hdl) s) 4"
    and sz: "unat (fh_size hdl) \<le> 524288" and raw: "length raw = 4"
    and ready: "cfg_area_ready (mem (fh_flash hdl) s) (unat (fh_addr hdl)) (fh_size hdl)"
  shows "\<exists>s'. rom_fdcm_write F (Some hdl) (Some raw) 4 s = Some (4, s')"
proof -
  have data: "unat (4 :: u16) \<le> length raw" using raw by simp
  from ready consider
      "header_invalid (fdcm_header_of_bytes (content_read (mem (fh_flash hdl) s) (unat (fh_addr hdl)) 8)) 4 (fh_size hdl)"
    | bs recs where "fdcm_holds (mem (fh_flash hdl) s) (unat (fh_addr hdl)) (unat (fh_size hdl)) bs 4 recs"
    unfolding cfg_area_ready_def by blast
  then show ?thesis
  proof cases
    case 1
    then show ?thesis using fdcm_write_sure [OF ok use data refl] by simp
  next
    case 2
    then show ?thesis
      using fdcm_write_sure [OF ok use data refl] holds_header(1,3) [OF 2 refl] by simp
  qed
qed

lemma set_cfg_sure:
  assumes ok: "ok (ucast (ota_flash (iop img))) s"
    and fits: "cfg_area_fits (iop img) (dsize (ucast (ota_flash (iop img))) s)"
    and ready: "cfg_area_ready (mem (ucast (ota_flash (iop img))) s)
                  (unat (ota_addr (iop img))) (ota_size (iop img))"
    and sq: "sq < 2"
  shows "\<exists>s'. image_set_cfg F img (Some \<lparr>cfg_seq = sq, cfg_state = IMAGE_STATE_VERIFIED\<rparr>) s = Some (0, s') \<and>
     store_frame ok dsize mem (ucast (ota_flash (iop img))) (unat (ota_addr (iop img)))
       (unat (ota_size (iop img))) s s' \<and>
     cfg_stored (mem (ucast (ota_flash (iop img))) s') (iop img) (raw_of_seq sq)"
proof -
  let ?p = "iop img"
  let ?fl = "ucast (ota_flash ?p) :: u32"
  let ?hdl = "\<lparr>fh_flash = ?fl, fh_addr = ota_addr ?p, fh_size = ota_size ?p\<rparr>"
  let ?raw = "bytes_of_raw_cfg (raw_of_seq sq)"
  note fit = fits [unfolded cfg_area_fits_def]
  obtain s1 where O: "rom_fdcm_open F ?fl (ota_addr ?p) (ota_size ?p) s = Some (Some ?hdl, s1)"
    "store_frame ok dsize mem ?fl 0 0 s s1"
    using fdcm_open_sure [OF ok, of "ota_addr ?p" "ota_size ?p"] fit by blast
  have st1: "ok ?fl s1" "dsize ?fl s1 = dsize ?fl s" "mem ?fl s1 = mem ?fl s"
    using O(2) ok by (simp_all add: store_frame_def)
  have use1: "fdcm_usable ?hdl (dsize (fh_flash ?hdl) s1) 4" using cfg_area_usable [OF fits] st1(2) by simp
  have area1: "fdcm_area ?hdl (dsize (fh_flash ?hdl) s1)" using use1 by (simp add: fdcm_usable_def)
  have ready1: "cfg_area_ready (mem (fh_flash ?hdl) s1) (unat (fh_addr ?hdl)) (fh_size ?hdl)"
    using ready st1(3) by simp
  have ok1: "ok (fh_flash ?hdl) s1" and sz: "unat (fh_size ?hdl) \<le> 524288" using st1(1) fit by simp_all
  obtain s2 where W: "rom_fdcm_write F (Some ?hdl) (Some ?raw) 4 s1 = Some (4, s2)"
    using cfg_write_sure [OF ok1 use1 sz length_raw_cfg ready1] by blast
  then obtain bs recs where H: "last recs = ?raw"
    "fdcm_holds (mem ?fl s2) (unat (ota_addr ?p)) (unat (ota_size ?p)) bs 4 recs"
    and f2: "store_frame ok dsize mem ?fl (unat (ota_addr ?p)) (unat (ota_size ?p)) s1 s2"
    using cfg_write_law [OF ok1 area1 sz length_raw_cfg ready1, of "raw_of_seq sq"] by auto
  have st2: "ok (fh_flash ?hdl) s2" "fdcm_area ?hdl (dsize (fh_flash ?hdl) s2)"
    using f2 st1 area1 by (simp_all add: store_frame_def)
  obtain s3 where R: "rom_fdcm_read F (Some ?hdl) (Some (replicate 4 0)) 4 s2 =
      Some (4, Some (last recs), s3)" "store_frame ok dsize mem ?fl 0 0 s2 s3"
    using fdcm_read_sure [OF st2, of 4 "replicate 4 0" bs recs] H(2) by auto
  have tries: "raw_cfg_tries 2 F (Some ?hdl) ?raw (replicate 4 0) s1 = Some (0, s3)"
    using W R(1) H(1) by (simp add: numeral_2_eq_2)
  have at: "at s_image_raw_seq sq = Some (s_image_raw_seq ! unat sq)"
    using sq by (simp add: at_def s_image_raw_seq_def word_less_nat_alt)
  have "\<not> 2 \<le> sq" using sq by simp
  with at have run: "image_set_cfg F img (Some \<lparr>cfg_seq = sq, cfg_state = IMAGE_STATE_VERIFIED\<rparr>) s = Some (0, s3)"
    using O(1) tries fit cfg_area_addr [OF fits]
    by (simp add: image_set_cfg_def image_set_raw_cfg_def raw_of_seq_def del: raw_cfg_tries.simps)
  have m3: "mem ?fl s3 = mem ?fl s2" by (rule store_frame_mem_none [OF R(2)])
  have "store_frame ok dsize mem ?fl (unat (ota_addr ?p)) (unat (ota_size ?p)) s s3"
    by (rule store_frame_trans [OF store_frame_none [OF O(2)] store_frame_trans [OF f2 store_frame_none [OF R(2)]]])
  moreover have "cfg_stored (mem ?fl s3) ?p (raw_of_seq sq)" using H m3 by (auto simp: cfg_stored_def)
  ultimately show ?thesis using run by blast
qed

lemma get_cfg_sure:
  assumes ok: "ok (ucast (ota_flash (iop img))) s"
    and fits: "cfg_area_fits (iop img) (dsize (ucast (ota_flash (iop img))) s)"
    and stored: "cfg_stored (mem (ucast (ota_flash (iop img))) s) (iop img) (raw_of_seq sq)" and sq: "sq < 2"
  shows "\<exists>s'. image_get_cfg F img (Some c) s =
      Some (0, Some \<lparr>cfg_seq = sq, cfg_state = IMAGE_STATE_VERIFIED\<rparr>, s') \<and>
     store_frame ok dsize mem (ucast (ota_flash (iop img))) 0 0 s s'"
proof -
  let ?p = "iop img"
  let ?fl = "ucast (ota_flash ?p) :: u32"
  let ?hdl = "\<lparr>fh_flash = ?fl, fh_addr = ota_addr ?p, fh_size = ota_size ?p\<rparr>"
  note fit = fits [unfolded cfg_area_fits_def]
  obtain bs recs where H: "fdcm_holds (mem ?fl s) (unat (ota_addr ?p)) (unat (ota_size ?p)) bs 4 recs"
    "last recs = bytes_of_raw_cfg (raw_of_seq sq)" using stored by (auto simp: cfg_stored_def)
  obtain s1 where O: "rom_fdcm_open F ?fl (ota_addr ?p) (ota_size ?p) s = Some (Some ?hdl, s1)"
    "store_frame ok dsize mem ?fl 0 0 s s1"
    using fdcm_open_sure [OF ok, of "ota_addr ?p" "ota_size ?p"] fit by blast
  have st1: "ok ?fl s1" "dsize ?fl s1 = dsize ?fl s" "mem ?fl s1 = mem ?fl s"
    using O(2) ok by (simp_all add: store_frame_def)
  have area1: "fdcm_area ?hdl (dsize (fh_flash ?hdl) s1)"
    using cfg_area_usable [OF fits] st1(2) by (simp add: fdcm_usable_def)
  obtain s2 where R: "rom_fdcm_read F (Some ?hdl) (Some (replicate 4 0)) 4 s1 =
      Some (4, Some (last recs), s2)" "store_frame ok dsize mem ?fl 0 0 s1 s2"
    using fdcm_read_sure [of ?hdl s1 4 "replicate 4 0" bs recs] st1 area1 H(1) by auto
  have dec: "raw_cfg_of_bytes (bytes_of_raw_cfg (raw_of_seq sq)) = raw_of_seq sq"
    using raw_cfg_roundtrip [of _ "[]"] by simp
  have st: "raw_state (raw_of_seq sq) = IMAGE_RAW_STATE_VERIFIED" by (simp add: raw_of_seq_def)
  have "image_get_cfg F img (Some c) s = Some (0, Some \<lparr>cfg_seq = sq, cfg_state = IMAGE_STATE_VERIFIED\<rparr>, s2)"
    using O(1) R(1) H(2) dec st raw_seq_index_roundtrip [OF sq] fit cfg_area_addr [OF fits]
    by (simp add: image_get_cfg_def image_get_raw_cfg_def)
  then show ?thesis using store_frame_trans [OF O(2) R(2)] by blast
qed

lemma init_running_seq_sure:
  assumes ok: "ok (ucast (ota_flash (iop img))) s"
    and fits: "cfg_area_fits (iop img) (dsize (ucast (ota_flash (iop img))) s)"
    and stored: "cfg_stored (mem (ucast (ota_flash (iop img))) s) (iop img) (raw_of_seq sq)" and sq: "sq < 2"
  shows "\<exists>s'. image_init_running_seq F img s = Some (sq, s') \<and>
     store_frame ok dsize mem (ucast (ota_flash (iop img))) 0 0 s s'"
  using get_cfg_sure [OF assms, of "\<lparr>cfg_seq = 0, cfg_state = IMAGE_STATE_UNVERIFIED\<rparr>"] cfg_area_addr [OF fits]
  by (auto simp: image_init_running_seq_def)

lemma cfg_round_trip:
  assumes ok: "ok (ucast (ota_flash (iop img))) s"
    and fits: "cfg_area_fits (iop img) (dsize (ucast (ota_flash (iop img))) s)"
    and ready: "cfg_area_ready (mem (ucast (ota_flash (iop img))) s)
                  (unat (ota_addr (iop img))) (ota_size (iop img))"
    and sq: "sq < 2"
  shows "\<exists>s1. image_set_cfg F img (Some \<lparr>cfg_seq = sq, cfg_state = IMAGE_STATE_VERIFIED\<rparr>) s = Some (0, s1) \<and>
     store_frame ok dsize mem (ucast (ota_flash (iop img))) (unat (ota_addr (iop img)))
       (unat (ota_size (iop img))) s s1 \<and>
     (\<exists>s2. image_get_cfg F img (Some c) s1 =
         Some (0, Some \<lparr>cfg_seq = sq, cfg_state = IMAGE_STATE_VERIFIED\<rparr>, s2)) \<and>
     (\<exists>s2. image_init_running_seq F img s1 = Some (sq, s2))"
proof -
  obtain s1 where S: "image_set_cfg F img (Some \<lparr>cfg_seq = sq, cfg_state = IMAGE_STATE_VERIFIED\<rparr>) s = Some (0, s1)"
    "store_frame ok dsize mem (ucast (ota_flash (iop img))) (unat (ota_addr (iop img)))
       (unat (ota_size (iop img))) s s1"
    "cfg_stored (mem (ucast (ota_flash (iop img))) s1) (iop img) (raw_of_seq sq)"
    using set_cfg_sure [OF ok fits ready sq] by blast
  have "ok (ucast (ota_flash (iop img))) s1" "cfg_area_fits (iop img) (dsize (ucast (ota_flash (iop img))) s1)"
    using S(2) ok fits by (simp_all add: store_frame_def)
  note st = this S(3) sq
  show ?thesis using S(1,2) get_cfg_sure [OF st, of c] init_running_seq_sure [OF st] by blast
qed

end

end
