(* ===== verification/Image_Reliable.thy ===== *)
theory Image_Reliable
  imports Image_Spec Image_Cfg_Reliable
begin

text \<open>
  The section check on a reliable flash: an image whose sections all lie in the device and
  are intact is reported valid.
\<close>

text \<open>Every section of the chain lies in its device and is intact.\<close>

inductive sound_chain ::
  "image_check_type \<Rightarrow> image_ota_param \<Rightarrow> u8 \<Rightarrow> (u32 \<Rightarrow> content) \<Rightarrow> (u32 \<Rightarrow> nat) \<Rightarrow> u32 \<Rightarrow> u32 \<Rightarrow> bool"
  for ct p sq M D where
  sound_last: "unat a + 64 + unat (sh_data_size (header_at (M fl) a)) \<le> D fl \<Longrightarrow>
     section_intact ct (M fl) a IMAGE_INVALID_ADDR \<Longrightarrow> sound_chain ct p sq M D fl a"
| sound_more: "unat a + 64 + unat (sh_data_size (header_at (M fl) a)) \<le> D fl \<Longrightarrow>
     section_intact ct (M fl) a nx \<Longrightarrow> nx \<noteq> IMAGE_INVALID_ADDR \<Longrightarrow>
     sound_chain ct p sq M D (ucast (iop_flash p ! unat sq)) (IMG_SEC_ADDR p sq nx) \<Longrightarrow>
     sound_chain ct p sq M D fl a"

lemma sound_chain_intact: "sound_chain ct p sq M D fl a \<Longrightarrow> intact_chain ct p sq M fl a"
  by (induction rule: sound_chain.induct) (auto intro: intact_chain.intros)

lemma sound_chain_finite:
  assumes "sound_chain ct p sq M D fl a" "\<forall>f. D f < 4294967296"
  shows "finite_chain ct p sq M fl a"
  using assms(1)
proof (induction rule: sound_chain.induct)
  case (sound_last a fl)
  then have "unat a + 64 < 4294967296" "next_section ct (header_at (M fl) a) = IMAGE_INVALID_ADDR"
    using assms(2) [rule_format, of fl] by (linarith, simp add: section_intact_def)
  then show ?case by (rule chain_end)
next
  case (sound_more a fl nx)
  then have "unat a + 64 < 4294967296" "nx = next_section ct (header_at (M fl) a)"
    using assms(2) [rule_format, of fl] by (linarith, simp add: section_intact_def)
  then show ?case using sound_more.IH chain_next [where M = M and fl = fl and a = a and ct = ct and p = p and sq = sq] by simp
qed

context reliable_store
begin

lemma section_sum_sure:
  assumes "ok fl s" "unat blen \<le> length buf" "blen \<noteq> 0" "unat a + unat sz \<le> dsize fl s"
  shows "\<exists>c buf' s'. section_sum F fl a buf blen sz chk s = Some (Some c, buf', s')"
  using assms
proof (induction "unat sz" arbitrary: a sz chk buf s rule: less_induct)
  case less
  note ok = less.prems(1) and len = less.prems(2) and b0 = less.prems(3) and fit = less.prems(4)
  show ?case
  proof (cases "sz > 0")
    case False
    then show ?thesis by (subst section_sum.simps) simp
  next
    case True
    define n where "n = (if sz \<ge> blen then blen else sz)"
    have n: "n \<noteq> 0" "unat n \<le> unat sz" "unat n \<le> length buf"
      using True b0 len by (auto simp: n_def word_le_nat_alt)
    have fitn: "unat a + unat n \<le> dsize fl s" using fit n(2) by linarith
    obtain s1 where R: "if_flash_read F fl a buf n s =
        Some (n, content_read (mem fl s) (unat a) (unat n) @ drop (unat n) buf, s1)"
        "store_frame ok dsize mem fl 0 0 s s1"
      using read_sure [OF ok n(3,1) fitn] by blast
    let ?b = "content_read (mem fl s) (unat a) (unat n) @ drop (unat n) buf"
    have st: "ok fl s1" "dsize fl s1 = dsize fl s" using R(2) ok by (simp_all add: store_frame_def)
    have an: "unat (a + n) = unat a + unat n"
      using fitn dsize_bound [of fl s] by (intro unat_add_no_wrap) simp
    have sn: "unat (sz - n) = unat sz - unat n" using n(2) by (intro unat_sub) (simp add: word_le_nat_alt)
    have len': "unat blen \<le> length ?b" using len n(3) by simp
    have lt: "unat (sz - n) < unat sz" using n(1,2) sn unat_gt_0 [of n] by linarith
    have fit': "unat (a + n) + unat (sz - n) \<le> dsize fl s1" using fit an sn n(2) st(2) by simp
    have step: "section_sum F fl a buf blen sz chk s =
        section_sum F fl (a + n) ?b blen (sz - n) (chk + rom_image_checksum16 ?b n) s1"
      using True R(1) by (subst section_sum.simps) (auto simp: n_def)
    show ?thesis
      unfolding step by (rule less.hyps [OF lt st(1) len' b0 fit'])
  qed
qed

lemma check_section_at_sure:
  assumes ok: "ok fl s" and buf: "length buf = 1024"
    and fits: "unat a + 64 + unat (sh_data_size (header_at (mem fl s) a)) \<le> dsize fl s"
    and intact: "section_intact ct (mem fl s) a nx"
  shows "\<exists>buf' s'. image_check_section_at F fl a buf 1024 ct s = Some (Some nx, buf', s')"
proof -
  let ?xs = "content_read (mem fl s) (unat a) 64"
  have lt: "unat a + 64 < 4294967296" using fits dsize_bound [of fl s] by linarith
  obtain s1 where R: "if_flash_read F fl a buf 64 s = Some (64, ?xs @ drop 64 buf, s1)"
      "store_frame ok dsize mem fl 0 0 s s1"
    using read_sure [OF ok, of 64 buf a] buf fits by auto
  have st: "ok fl s1" "dsize fl s1 = dsize fl s" "mem fl s1 = mem fl s"
    using R(2) ok by (simp_all add: store_frame_def)
  let ?b = "?xs @ drop 64 buf" and ?h = "header_at (mem fl s) a"
  have h: "section_header_of_bytes ?b = ?h" by (simp add: header_at_def header_append)
  have a64: "unat (a + 64) = unat a + 64" using unat_add_const [of a 64] lt by simp
  have fit1: "unat (a + 64) + unat (sh_data_size ?h) \<le> dsize fl s1" using fits a64 st(2) by simp
  have lb: "unat (1024 :: u32) \<le> length ?b" using buf by simp
  obtain c b2 s2 where S: "section_sum F fl (a + 64) ?b 1024 (sh_data_size ?h) (data_chksum ?h) s1 = Some (Some c, b2, s2)"
    using section_sum_sure [OF st(1) lb _ fit1, of "data_chksum ?h"] by auto
  have lt2: "unat (a + 64) + unat (sh_data_size ?h) < 4294967296" using fit1 dsize_bound [of fl s1] by linarith
  then have "c = data_chksum ?h + sum16 (content_read (mem fl s) (unat a + 64) (unat (sh_data_size ?h)))"
    using section_sum_law [OF st(1) lb, of "a + 64" "sh_data_size ?h" "data_chksum ?h" ] S a64 st(3) by auto
  then have c: "c = 0xFFFF" using intact by (simp add: section_intact_def)
  have "image_check_header (Some ?b) = IMAGE_VALID"
    using intact by (simp add: check_header_iff section_intact_def header_at_def)
  then show ?thesis
    using R(1) S c h intact by (simp add: image_check_section_at_def section_intact_def)
qed

lemma check_chain_sure:
  assumes "sound_chain ct p sq (\<lambda>f. mem f s) (\<lambda>f. dsize f s) fl a"
    and "ok fl s" "ok (ucast (iop_flash p ! unat sq)) s" "length buf = 1024" "unat sq < length (iop_flash p)"
  shows "\<exists>s'. check_chain F p sq fl a buf ct s = Some (IMAGE_VALID, s')"
proof -
  have *: "sound_chain ct p sq M D fl a \<Longrightarrow> (\<forall>f. mem f s = M f \<and> dsize f s = D f) \<Longrightarrow> ok fl s \<Longrightarrow>
      ok (ucast (iop_flash p ! unat sq)) s \<Longrightarrow> length buf = 1024 \<Longrightarrow>
      \<exists>s'. check_chain F p sq fl a buf ct s = Some (IMAGE_VALID, s')" for M D fl a buf s
  proof (induction arbitrary: s buf rule: sound_chain.induct)
    case (sound_last a fl)
    then show ?case
      using check_section_at_sure [of fl s buf a ct IMAGE_INVALID_ADDR]
      by (subst check_chain.simps) auto
  next
    case (sound_more a fl nx)
    obtain b s1 where C: "image_check_section_at F fl a buf 1024 ct s = Some (Some nx, b, s1)"
      using check_section_at_sure [of fl s buf a ct nx] sound_more by auto
    then have f: "store_frame ok dsize mem fl 0 0 s s1" "length b = 1024"
      using check_section_at_law [of fl s buf a ct] sound_more.prems by auto
    have "\<exists>s'. check_chain F p sq (ucast (iop_flash p ! unat sq)) (IMG_SEC_ADDR p sq nx) b ct s1 = Some (IMAGE_VALID, s')"
      using f sound_more.prems by (intro sound_more.IH) (simp_all add: frame_none_iff)
    then show ?case
      using C assms(5) sound_more.hyps(3) by (subst check_chain.simps) (simp add: at_def)
  qed
  show ?thesis by (rule * [OF assms(1) _ assms(2-4)]) simp
qed

lemma check_all_sure:
  assumes "sound_chain ct (iop img) sq (\<lambda>f. mem f s) (\<lambda>f. dsize f s) (IMG_BL_FLASH (iop img)) (IMG_BL_ADDR (iop img))"
    and "ok (IMG_BL_FLASH (iop img)) s" "ok (ucast (iop_flash (iop img) ! unat sq)) s"
    and "unat sq < length (iop_flash (iop img))"
  shows "\<exists>s'. image_check_all F sq ct img s = Some (IMAGE_VALID, s') \<and> store_frame ok dsize mem fl 0 0 s s'"
proof -
  obtain b s1 where M: "if_malloc F 1024 s = (Some b, s1)" "length b = 1024"
      "store_frame ok dsize mem (IMG_BL_FLASH (iop img)) 0 0 s s1"
    using malloc_sure [OF assms(2)] by blast
  have "\<exists>s'. check_chain F (iop img) sq (IMG_BL_FLASH (iop img)) (IMG_BL_ADDR (iop img)) b ct s1 = Some (IMAGE_VALID, s')"
    by (rule check_chain_sure) (use assms M in \<open>simp_all add: frame_none_iff\<close>)
  then obtain s2 where "image_check_all F sq ct img s = Some (IMAGE_VALID, s2)"
    using M(1) by (auto simp: image_check_all_def)
  then show ?thesis using check_all_sound [OF _ assms(2,3)] by blast
qed

text \<open>
  A section that is intact and names itself as the next one: the check never returns.
\<close>

lemma check_chain_diverges:
  assumes at: "ok fl s" and buf: "length buf = 1024"
    and fits: "unat a + 64 + unat (sh_data_size (header_at (mem fl s) a)) \<le> dsize fl s"
    and intact: "section_intact ct (mem fl s) a nx" and nx: "nx \<noteq> IMAGE_INVALID_ADDR"
    and self: "ucast (iop_flash p ! unat sq) = fl" "IMG_SEC_ADDR p sq nx = a"
  shows "check_chain F p sq fl a buf ct s = None"
proof -
  have *: False
    if "check_chain G p' sq' fl' a' b ct' t = Some y" "G = F" "p' = p" "sq' = sq" "fl' = fl" "a' = a" "ct' = ct"
      "ok fl t" "length b = 1024" "mem fl t = mem fl s" "dsize fl t = dsize fl s"
    for G p' sq' fl' a' b ct' t y
    using that(2-)
  proof (induction rule: check_chain.raw_induct [OF _ that(1), consumes 0, case_names step])
    case (step chk G p' sq' fl' a' b ct' t y)
    note IH = step(1) and run = step(2) and eqs = step.prems(1-6)
    obtain b1 t1 where C: "image_check_section_at F fl a b 1024 ct t = Some (Some nx, b1, t1)"
      using check_section_at_sure [of fl t b a ct nx] step.prems fits intact by auto
    then have C2: "store_frame ok dsize mem fl 0 0 t t1" "length b1 = 1024"
      using check_section_at_law [of fl t b a ct] step.prems by auto
    have "chk F p sq fl a b1 ct t1 = Some y"
      using run C nx self unfolding eqs by (auto simp: at_def split: if_splits)
    from IH [OF this refl refl refl refl refl refl] show False
      using C2 step.prems by (simp add: frame_none_iff)
  qed
  have "\<not> (\<exists>y. check_chain F p sq fl a buf ct s = Some y)"
    using * [OF _ refl refl refl refl refl refl at buf refl refl] by blast
  then show ?thesis by (cases "check_chain F p sq fl a buf ct s") blast+
qed

end

end
