(* ===== verification/Ota_Reliable.thy ===== *)
theory Ota_Reliable
  imports Ota_Download_Spec Image_Reliable
begin

text \<open>
  The OTA service on a reliable flash.  A pushed image that fits its slot is stored, and
  finishing the push succeeds exactly when the image names no digest or the right one.
\<close>

section \<open>Pushing\<close>

context reliable_store
begin

lemma push_start_sure:
  assumes ready: "ota_ready B st" and ok: "ok (update_flash st) (o_fs st)"
    and fits: "unat (update_addr st) + unat (update_size B st) \<le> dsize (update_flash st) (o_fs st)"
    and al: "4096 dvd unat (update_addr st)" "4096 dvd unat (update_size B st)"
  shows "\<exists>st'. ota_push_start F B st = Some (OTA_STATUS_OK, st')"
proof -
  let ?p = "iop (o_img st)"
  define st1 where "st1 = default_skip B ?p st"
  have d: "o_fs st1 = o_fs st" by (simp add: st1_def default_skip_def)
  obtain l where l: "notify OTA_UPGRADE_START 0 (Some 0) st1 = Some (st1\<lparr>cb_log := l\<rparr>)"
    using notify_Some by blast
  obtain s1 where E: "if_flash_erase F (update_flash st) (update_addr st) (update_size B st) (o_fs st) = Some (0, s1)"
    using erase_sure [OF ok al fits] by blast
  have "ota_push_start F B st = Some (OTA_STATUS_OK, st1\<lparr>cb_log := l, o_fs := s1\<rparr>)"
    using ota_readyD [OF ready] l E d
    by (simp add: ota_push_start_def on_fs_def update_flash_def update_size_def flip: st1_def)
  then show ?thesis by blast
qed

lemma push_data_sure:
  assumes ready: "ota_ready B st" and ok: "ok (update_flash st) (o_fs st)"
    and fits: "unat (update_addr st) + unat (update_size B st) \<le> dsize (update_flash st) (o_fs st)"
    and skip: "unat (ota_skip_size st) + unat (update_size B st) < 4294967296"
    and len: "length data < 4294967296"
    and inv: "push_inv B (mem (update_flash st) (o_fs st)) st bs"
    and room: "length bs + length data \<le> unat (ota_skip_size st) + unat (update_size B st)"
    and run: "ota_push_data F B data st = Some (r, st')"
  shows "r = OTA_STATUS_OK"
proof -
  let ?p = "iop (o_img st)" and ?fl = "update_flash st" and ?a = "update_addr st" and ?n = "update_size B st"
  define g k d where "g = op_get_size st" and "k = ota_skip_size st" and "d = (of_nat (length data) :: u32)"
  have ud: "unat d = length data" using len by (simp add: d_def unat_of_nat)
  have G: "unat g = length bs" using inv by (simp_all add: push_inv_def g_def)
  have gk: "unat g \<le> unat k + unat ?n" using G room by (simp add: k_def)
  note rd = ota_readyD [OF ready]
  have out: "push_out B ?p status remain st1 = Some (status', st2) \<Longrightarrow> status' = status" for status status' remain st1 st2
    by (auto simp: push_out_def bind_Some_iff)
  define sk where "sk = (if g < k then k - g else 0)"
  define g' where "g' = g + sk"
  note pr = push_room [of k ?n g g', OF skip [folded k_def] gk g'_def [unfolded sk_def]]
  have usk: "unat sk = unat k - length bs"
    using G by (auto simp: sk_def word_less_nat_alt unat_sub order.strict_implies_order)
  show ?thesis
  proof (cases "data = [] \<or> length bs + length data \<le> unat k")
    case True
    have "d = 0 \<or> g < k \<and> k - g \<ge> d"
    proof (cases "data = []")
      case False
      then have "0 < length data" by simp
      then have "unat g < unat k" using True False G by linarith
      then have lt: "g < k" by (simp add: word_less_nat_alt)
      then have "unat (k - g) = unat k - unat g" by (intro unat_sub) simp
      moreover have "length data \<le> unat k - length bs" using True False by linarith
      ultimately show ?thesis using G ud lt by (simp add: word_le_nat_alt)
    qed (simp add: d_def)
    then have "\<exists>st1. ota_push_data F B data st = push_out B ?p OTA_STATUS_OK 0 st1"
    proof
      assume "d = 0"
      then show ?thesis by (auto simp: ota_push_data_def rd(1) simp flip: d_def)
    next
      assume "g < k \<and> k - g \<ge> d"
      then have "ota_push_data F B data st = (if d = 0 then push_out B ?p OTA_STATUS_OK 0 st
          else push_out B ?p OTA_STATUS_OK 0 (st\<lparr>op_get_size := g + d\<rparr>))"
        by (simp add: ota_push_data_def rd(1) flip: g_def k_def d_def)
      then show ?thesis by (cases "d = 0") auto
    qed
    then show ?thesis using run out by metis
  next
    case False
    then have more: "unat k < length bs + length data" and ne: "data \<noteq> []" by simp_all
    have "\<not> (g < k \<and> k - g \<ge> d)"
      using usk more ud G by (auto simp: sk_def word_less_nat_alt word_le_nat_alt split: if_splits)
    moreover have "d \<noteq> 0" using ud ne by auto
    ultimately have pass: "ota_push_data F B data st =
      (if d - sk > ?n + k - g' then push_out B ?p OTA_STATUS_ERROR (?n + k - g') (st\<lparr>op_get_size := g'\<rparr>)
       else do {
         (ret, st2) \<leftarrow> on_fs (if_flash_write F ?fl (?a + g' - k) (drop (unat sk) data) (d - sk))
                        (st\<lparr>op_get_size := g'\<rparr>);
         push_out B ?p (if ret \<noteq> d - sk then OTA_STATUS_ERROR else OTA_STATUS_OK) (?n + k - g')
           (st2\<lparr>op_get_size := op_get_size st2 + ret\<rparr>)
       })"
      using rd by (cases "g < k") (simp_all add: ota_push_data_def Let_def update_flash_def update_size_def
          sk_def g'_def g_def k_def d_def)
    have w: "unat (d - sk) = length data - (unat k - length bs)"
      using more usk ud by (subst unat_sub) (simp_all add: word_le_nat_alt)
    have "\<not> unat ?n + unat k - max (length bs) (unat k) < length data - (unat k - length bs)"
      using more room by (simp add: k_def)
    then have le: "\<not> d - sk > ?n + k - g'" using w by (simp add: word_less_nat_alt pr G)
    have off: "unat (g' - k) = length bs - unat k"
      using pr(1) G by (subst unat_sub) (auto simp: word_le_nat_alt max_def)
    have "0 < length data" using ne by simp
    then have "0 < unat (d - sk)" using w more by linarith
    then have nz: "d - sk \<noteq> 0" by (simp add: unat_gt_0)
    have "unat (?a + (g' - k)) = unat ?a + unat (g' - k)"
      by (rule unat_add_const) (use fits dsize_bound [of ?fl "o_fs st"] off room more in \<open>simp add: k_def\<close>)
    moreover have e: "?a + g' - k = ?a + (g' - k)" by simp
    ultimately have "unat (?a + g' - k) = unat ?a + (length bs - unat k)" using off by (simp only: e)
    then have "unat (?a + g' - k) + unat (d - sk) \<le> dsize ?fl (o_fs st)"
      using w fits room more unfolding k_def by linarith
    moreover have "unat (d - sk) \<le> length (drop (unat sk) data)" using w usk by simp
    ultimately obtain s1 where "if_flash_write F ?fl (?a + g' - k) (drop (unat sk) data) (d - sk) (o_fs st) = Some (d - sk, s1)"
      using write_sure [OF ok _ nz] by metis
    then show ?thesis using run pass le out by (auto simp: on_fs_def)
  qed
qed

lemma push_chunks_sure:
  assumes "ota_ready B st" "ok (update_flash st) (o_fs st)"
    and "unat (update_addr st) + unat (update_size B st) \<le> dsize (update_flash st) (o_fs st)"
    and "unat (ota_skip_size st) + unat (update_size B st) < 4294967296"
    and "push_inv B (mem (update_flash st) (o_fs st)) st bs"
    and "length bs + length (concat cs) \<le> unat (ota_skip_size st) + unat (update_size B st)"
  shows "\<exists>st'. push_chunks F B cs st = Some (OTA_STATUS_OK, st')"
  using assms
proof (induction cs arbitrary: st bs)
  case Nil
  then show ?case by simp
next
  case (Cons c cs)
  have c: "length c < 4294967296" "length bs + length c \<le> unat (ota_skip_size st) + unat (update_size B st)"
    using Cons.prems(4,6) by simp_all
  obtain r st1 where P: "ota_push_data F B c st = Some (r, st1)" "same_service st st1"
    "ota_skip_size st1 = ota_skip_size st"
    "store_frame ok dsize mem (update_flash st) (unat (update_addr st)) (unat (update_size B st)) (o_fs st) (o_fs st1)"
    "r = OTA_STATUS_OK \<longrightarrow> push_inv B (mem (update_flash st) (o_fs st1)) st1 (bs @ c)"
    using push_data_law [OF Cons.prems(1-4) c(1) Cons.prems(5)] by blast
  have r: "r = OTA_STATUS_OK" by (rule push_data_sure [OF Cons.prems(1-4) c(1) Cons.prems(5) c(2) P(1)])
  note eq = same_service_ready [OF P(2), of B]
  have "\<exists>st'. push_chunks F B cs st1 = Some (OTA_STATUS_OK, st')"
    by (rule Cons.IH [of st1 "bs @ c"])
      (use Cons.prems P r eq in \<open>auto simp: store_frame_ok store_frame_dsize\<close>)
  then show ?case using P(1) r by simp
qed

text \<open>A whole session: the start, then every chunk.\<close>

lemma push_session_sure:
  assumes ready: "ota_ready B st" and ok: "ok (update_flash st) (o_fs st)" and g0: "op_get_size st = 0"
    and fits: "unat (update_addr st) + unat (update_size B st) \<le> dsize (update_flash st) (o_fs st)"
    and al: "4096 dvd unat (update_addr st)" "4096 dvd unat (update_size B st)"
    and k: "k = unat (ota_skip_size (default_skip B (iop (o_img st)) st))"
    and skip: "k + unat (update_size B st) < 4294967296"
    and len: "length (concat chunks) \<le> k + unat (update_size B st)"
  shows "\<exists>st1 st2. ota_push_start F B st = Some (OTA_STATUS_OK, st1) \<and>
     push_chunks F B chunks st1 = Some (OTA_STATUS_OK, st2) \<and>
     unat (op_get_size st2) = length (concat chunks) \<and>
     content_read (mem (update_flash st) (o_fs st2)) (unat (update_addr st))
       (length (concat chunks) - k) = drop k (concat chunks) \<and>
     erased (mem (update_flash st) (o_fs st2))
       (unat (update_addr st) + (length (concat chunks) - k))
       (unat (update_size B st) - (length (concat chunks) - k)) \<and>
     store_frame ok dsize mem (update_flash st)
       (unat (update_addr st)) (unat (update_size B st)) (o_fs st) (o_fs st2)"
proof -
  obtain st1 where P: "ota_push_start F B st = Some (OTA_STATUS_OK, st1)"
    using push_start_sure [OF ready ok fits al] by blast
  then have L: "same_service st st1" "op_get_size st1 = 0" "unat (ota_skip_size st1) = k"
     "store_frame ok dsize mem (update_flash st) (unat (update_addr st)) (unat (update_size B st)) (o_fs st) (o_fs st1)"
     "erased (mem (update_flash st) (o_fs st1)) (unat (update_addr st)) (unat (update_size B st))"
    using push_start_law [OF ready ok fits] g0 k by auto
  note eq = same_service_ready [OF L(1), of B]
  have ok1: "ok (update_flash st) (o_fs st1)" "dsize (update_flash st) (o_fs st1) = dsize (update_flash st) (o_fs st)"
    using L(4) ok by (simp_all add: store_frame_def)
  have inv: "push_inv B (mem (update_flash st1) (o_fs st1)) st1 []"
    using L(2,5) eq by (simp add: push_inv_def)
  have r1: "ota_ready B st1" "ok (update_flash st1) (o_fs st1)"
    "unat (update_addr st1) + unat (update_size B st1) \<le> dsize (update_flash st1) (o_fs st1)"
    "unat (ota_skip_size st1) + unat (update_size B st1) < 4294967296"
    using ready ok1 fits skip eq L(3) by simp_all
  have tot: "length [] + length (concat chunks) \<le> unat (ota_skip_size st1) + unat (update_size B st1)"
    using len eq L(3) by simp
  obtain st2 where Q: "push_chunks F B chunks st1 = Some (OTA_STATUS_OK, st2)"
    using push_chunks_sure [OF r1 inv tot] by blast
  have "\<forall>c \<in> set chunks. length c < 4294967296"
  proof
    fix c assume "c \<in> set chunks"
    then have "length c \<le> length (concat chunks)"
      by (simp add: length_concat member_le_sum_list)
    then show "length c < 4294967296" using len skip by linarith
  qed
  from push_chunks_law [OF r1 this inv] Q
  have R: "same_service st1 st2" "ota_skip_size st2 = ota_skip_size st1"
     "store_frame ok dsize mem (update_flash st) (unat (update_addr st)) (unat (update_size B st)) (o_fs st1) (o_fs st2)"
     "push_inv B (mem (update_flash st) (o_fs st2)) st2 (concat chunks)"
    using eq by auto
  note eq2 = same_service_ready [OF R(1), of B]
  show ?thesis
    using P Q R(2,4) store_frame_trans [OF L(4) R(3)] eq eq2 L(3)
    by (auto simp: push_inv_def slot_holds_def)
qed

end

section \<open>Verifying\<close>

text \<open>A crypto engine that always works and computes the digest function of the algorithm.\<close>

definition engine_runs ::
  "'h crypto \<Rightarrow> (ota_verify \<Rightarrow> 'h \<Rightarrow> u8 list) \<Rightarrow> (ota_verify \<Rightarrow> u8 list \<Rightarrow> u8 list) \<Rightarrow> bool" where
  "engine_runs C absorbed H \<longleftrightarrow> (\<forall>alg. engine_ok C alg (absorbed alg) (H alg) \<and>
     (\<forall>n. fst (HAL_Hash_Init C alg n) = HAL_OK) \<and> (\<forall>h xs. fst (HAL_Hash_Append C alg h xs) = HAL_OK) \<and>
     (\<forall>h. fst (HAL_Hash_Finish C alg h) = HAL_OK))"

lemma engine_runsD:
  assumes "engine_runs C absorbed H"
  shows "engine_ok C alg (absorbed alg) (H alg)"
    and "HAL_Hash_Init C alg n = (e, h) \<Longrightarrow> e = HAL_OK"
    and "HAL_Hash_Append C alg h xs = (e, h') \<Longrightarrow> e = HAL_OK"
    and "HAL_Hash_Finish C alg h = (e, d) \<Longrightarrow> e = HAL_OK"
  using assms unfolding engine_runs_def by (metis fst_conv)+

text \<open>The digest of the pushed image, without its verify data, is the expected one.\<close>

definition digest_matches ::
  "content \<Rightarrow> 's ota \<Rightarrow> (ota_verify \<Rightarrow> u8 list \<Rightarrow> u8 list) \<Rightarrow> ota_verify \<Rightarrow> u8 list \<Rightarrow> bool" where
  "digest_matches m st H alg expected \<longleftrightarrow>
     take (digest_size alg) expected = take (digest_size alg)
       (H alg (content_read m (unat (update_addr st)) (unat (verified_size st))))"

text \<open>What \<open>ota_verify_image\<close> must accept: no algorithm, or a known one with the right digest.\<close>

definition accepts_image ::
  "content \<Rightarrow> 's ota \<Rightarrow> (ota_verify \<Rightarrow> u8 list \<Rightarrow> u8 list) \<Rightarrow> ota_verify option \<Rightarrow> u8 list option \<Rightarrow> bool" where
  "accepts_image m st H v expected \<longleftrightarrow> (case v of None \<Rightarrow> False
     | Some alg \<Rightarrow> alg = OTA_VERIFY_NONE \<or> (case expected of None \<Rightarrow> False | Some d \<Rightarrow> digest_matches m st H alg d))"

text \<open>The verified part of the slot lies in its device.\<close>

definition verified_fits :: "nat \<Rightarrow> 's ota \<Rightarrow> bool" where
  "verified_fits n st \<longleftrightarrow> unat (update_addr st) + unat (verified_size st) \<le> n"

context reliable_store
begin

lemma append_loop_sure:
  assumes eng: "engine_runs C absorbed H"
    and "ok fl s" "length buf = 2048" "unat a + unat left \<le> dsize fl s"
  shows "\<exists>h' s'. append_loop F C alg fl a left buf h s = Some (0, h', s')"
  using assms(2-)
proof (induction "unat left" arbitrary: left a buf h s rule: less_induct)
  case less
  show ?case
  proof (cases "left = 0")
    case True
    then show ?thesis by (subst append_loop.simps) simp
  next
    case False
    define n where "n = (if left > 2048 then 2048 else left :: u32)"
    have n: "n \<noteq> 0" "unat n \<le> unat left" "unat n \<le> 2048" "0 < unat n"
      using False by (auto simp: n_def word_less_nat_alt unat_gt_0 not_less split: if_splits)
    have pos: "0 < left" using False by (simp add: word_neq_0_conv)
    have nb: "unat n \<le> length buf" using n less.prems by simp
    have fit: "unat a + unat n \<le> dsize fl s" using n less.prems by linarith
    obtain s1 where R: "if_hal_read F fl a buf n s =
        Some (0, content_read (mem fl s) (unat a) (unat n) @ drop (unat n) buf, s1)"
        "store_frame ok dsize mem fl 0 0 s s1"
      using hal_read_sure [OF less.prems(1) nb n(1) fit] by blast
    let ?b = "content_read (mem fl s) (unat a) (unat n) @ drop (unat n) buf"
    obtain h1 where A: "HAL_Hash_Append C alg h (take (unat n) ?b) = (0, h1)"
      using engine_runsD(3) [OF eng] by (metis surj_pair)
    have eq: "append_loop F C alg fl a left buf h s = append_loop F C alg fl (a + n) (left - n) ?b h1 s1"
      using R(1) A pos by (subst append_loop.simps) (simp flip: n_def)
    have sub: "unat (left - n) = unat left - unat n"
      by (rule unat_sub) (use n in \<open>simp add: word_le_nat_alt\<close>)
    then have smaller: "unat (left - n) < unat left" using n by simp
    have an: "unat (a + n) = unat a + unat n"
      by (rule unat_add_const) (use fit dsize_bound [of fl s] in linarith)
    have st1: "ok fl s1" "dsize fl s1 = dsize fl s" using R(2) less.prems(1) by (simp_all add: store_frame_def)
    show ?thesis
      unfolding eq by (rule less.hyps [OF smaller st1(1)]) (use nb less.prems an sub n st1 in auto)
  qed
qed

lemma verify_digest_sure:
  assumes ready: "ota_ready B st" and build: "\<not> BOOTLOADER B" and ok: "ok (update_flash st) (o_fs st)"
    and vlen: "digest_size alg \<le> length expected" and eng: "engine_runs C absorbed H"
    and fits: "verified_fits (dsize (update_flash st) (o_fs st)) st"
  shows "\<exists>s'. ota_verify_image_digest F B C alg (ota_get_update_seq st) expected st =
      Some (if digest_matches (mem (update_flash st) (o_fs st)) st H alg expected
            then OTA_STATUS_OK else OTA_STATUS_ERROR, st\<lparr>o_fs := s'\<rparr>) \<and>
     store_frame ok dsize mem 0 0 0 (o_fs st) s'"
proof -
  let ?fl = "update_flash st"
  obtain h where I: "HAL_Hash_Init C alg (op_get_size st) = (0, h)"
    using engine_runsD(2) [OF eng] by (metis surj_pair)
  obtain s1 where O: "if_hal_open F ?fl 5000 (o_fs st) = Some (0, s1)" "store_frame ok dsize mem ?fl 0 0 (o_fs st) s1"
    using open_sure [OF ok] by blast
  have ok1: "ok ?fl s1" using O(2) ok by (simp add: frame_none_iff)
  obtain b s2 where M: "if_malloc F 2048 s1 = (Some b, s2)" "length b = 2048" "store_frame ok dsize mem ?fl 0 0 s1 s2"
    using malloc_sure [OF ok1] by blast
  have f2: "store_frame ok dsize mem ?fl 0 0 (o_fs st) s2" using O(2) M(3) by (rule store_frame_trans)
  have st2: "ok ?fl s2" "dsize ?fl s2 = dsize ?fl (o_fs st)" using f2 ok by (simp_all add: frame_none_iff)
  have fit2: "unat (update_addr st) + unat (verified_size st) \<le> dsize ?fl s2"
    using fits st2(2) by (simp add: verified_fits_def)
  obtain h' s3 where L: "append_loop F C alg ?fl (update_addr st) (verified_size st) b h s2 = Some (0, h', s3)"
    using append_loop_sure [OF eng st2(1) M(2) fit2] by blast
  then have "store_frame ok dsize mem ?fl 0 0 s2 s3"
    using append_loop_law [OF st2(1) M(2), of C alg "update_addr st" "verified_size st" h] by auto
  then have "ok ?fl s3" using st2(1) by (simp add: frame_none_iff)
  then obtain c s4 where X: "if_hal_close F ?fl s3 = Some (c, s4)" using close_law by blast
  have proc: "ota_verify_image_append_process F C alg ?fl (update_addr st) (verified_size st) h (o_fs st) =
      Some (OTA_STATUS_OK, h', s4)"
    using O(1) M(1) L X by (simp add: ota_verify_image_append_process_def)
  have lt: "unat (update_addr st) + unat (verified_size st) < 4294967296"
    using fit2 dsize_bound [of ?fl s2] by linarith
  have P: "store_frame ok dsize mem ?fl 0 0 (o_fs st) s4"
    "absorbed alg h' = absorbed alg h @ content_read (mem ?fl (o_fs st)) (unat (update_addr st)) (unat (verified_size st))"
    using append_process_law [OF ok, of C alg "update_addr st" "verified_size st" h "absorbed alg" "H alg"]
      proc engine_runsD(1) [OF eng] lt by auto
  obtain d where D: "HAL_Hash_Finish C alg h' = (0, d)" using engine_runsD(4) [OF eng] by (metis surj_pair)
  have "absorbed alg h = []" "d = H alg (absorbed alg h')"
    using engine_runsD(1) [OF eng, of alg] I D by (auto simp: engine_ok_def)
  then have d: "d = H alg (content_read (mem ?fl (o_fs st)) (unat (update_addr st)) (unat (verified_size st)))"
    using P(2) by simp
  have "ota_verify_image_append F B C alg (ota_get_update_seq st) h st = Some (OTA_STATUS_OK, h', st\<lparr>o_fs := s4\<rparr>)"
    using proc ota_readyD(1) [OF ready] build
    by (simp add: ota_verify_image_append_def verified_size_def update_flash_def update_addr_def on_fs_def)
  then have "ota_verify_image_digest F B C alg (ota_get_update_seq st) expected st =
      Some (if digest_matches (mem ?fl (o_fs st)) st H alg expected then OTA_STATUS_OK else OTA_STATUS_ERROR,
            st\<lparr>o_fs := s4\<rparr>)"
    using I D vlen d by (simp add: ota_verify_image_digest_def digest_matches_def)
  then show ?thesis using frame_none_any [OF P(1)] by blast
qed

lemma verify_image_sure:
  assumes ready: "ota_ready B st" and build: "\<not> BOOTLOADER B" "\<not> POLICY_COMPRESSION B"
    and ok: "ok (update_flash st) (o_fs st)" and size: "op_get_size st \<noteq> 0"
    and boot: "boot_area_ok ok dsize mem (iop (o_img st)) (o_fs st)"
      "cfg_area_fits (iop (o_img st)) (dsize (ucast (ota_flash (iop (o_img st)))) (o_fs st))"
    and vlen: "\<forall>alg d. v = Some alg \<and> expected = Some d \<longrightarrow> digest_size alg \<le> length d"
    and given: "v = Some OTA_VERIFY_NONE \<or> expected \<noteq> None" and eng: "engine_runs C absorbed H"
    and fits: "v \<noteq> Some OTA_VERIFY_NONE \<longrightarrow> verified_fits (dsize (update_flash st) (o_fs st)) st"
  shows "\<exists>st'. ota_verify_image F B C v expected st =
      Some (if accepts_image (mem (update_flash st) (o_fs st)) st H v expected
            then OTA_STATUS_OK else OTA_STATUS_ERROR, st') \<and> same_service st st' \<and>
     (\<not> accepts_image (mem (update_flash st) (o_fs st)) st H v expected \<longrightarrow>
        store_frame ok dsize mem 0 0 0 (o_fs st) (o_fs st'))"
    (is "\<exists>st'. ?run = Some (if ?acc then _ else _, st') \<and> _ \<and> _")
proof -
  let ?p = "iop (o_img st)" and ?sq = "ota_get_update_seq st"
  have seq: "verify_seq B st = Some ?sq" "\<not> 2 \<le> ?sq" "?sq < 2"
    using build ready by (simp_all add: verify_seq_def ota_ready_def not_le)
  show ?thesis
  proof (cases v)
    case None
    then have "?run = Some (OTA_STATUS_ERROR, st)" using given seq size by (auto simp: ota_verify_image_def)
    then show ?thesis using None by (simp add: accepts_image_def same_service_def)
  next
    case (Some alg)
    let ?check = "if alg = OTA_VERIFY_NONE then Some (ota_verify_image_none ?sq expected, st)
       else ota_verify_image_digest F B C alg ?sq (the expected) st"
    obtain s1 where K: "?check = Some (if ?acc then OTA_STATUS_OK else OTA_STATUS_ERROR, st\<lparr>o_fs := s1\<rparr>)"
      "store_frame ok dsize mem 0 0 0 (o_fs st) s1"
    proof (cases "alg = OTA_VERIFY_NONE")
      case True
      then have "?check = Some (if ?acc then OTA_STATUS_OK else OTA_STATUS_ERROR, st\<lparr>o_fs := o_fs st\<rparr>)"
        using Some by (simp add: ota_verify_image_none_def accepts_image_def)
      then show ?thesis using that [of "o_fs st"] by simp
    next
      case False
      then obtain d where d: "expected = Some d" using given Some by auto
      have vl: "digest_size alg \<le> length d" using vlen Some d by blast
      have fit: "verified_fits (dsize (update_flash st) (o_fs st)) st" using fits Some False by simp
      show ?thesis
        using verify_digest_sure [OF ready build(1) ok vl eng fit] that False Some d
        by (auto simp: accepts_image_def)
    qed
    show ?thesis
    proof (cases ?acc)
      case False
      obtain l where l: "verify_failed B (st\<lparr>o_fs := s1\<rparr>) = Some (OTA_STATUS_ERROR, st\<lparr>o_fs := s1, cb_log := l\<rparr>)"
        using verify_failed_law [of B "st\<lparr>o_fs := s1\<rparr>"] ready by auto
      have "?run = verify_failed B (st\<lparr>o_fs := s1\<rparr>)"
        using Some given K(1) False seq size by (auto simp: ota_verify_image_def)
      then show ?thesis using l K(2) False by (simp add: same_service_def)
    next
      case True
      have boot1: "boot_area_ok ok dsize mem ?p s1" by (rule boot_area_frame [OF K(2) boot(1)])
      have fits1: "cfg_area_fits ?p (dsize (ucast (ota_flash ?p)) s1)"
        using boot(2) K(2) by (simp add: frame_none_iff)
      let ?cfg = "\<lparr>cfg_seq = ?sq, cfg_state = IMAGE_STATE_VERIFIED\<rparr>"
      obtain s2 where S: "image_set_cfg F (o_img st) (Some ?cfg) s1 = Some (0, s2)"
        using set_cfg_sure [of "o_img st" s1 ?sq] boot1 fits1 seq(3) unfolding boot_area_ok_def by blast
      obtain l where "notify OTA_UPGRADE_SUCCESS (reported_size B (st\<lparr>o_fs := s2\<rparr>)) (Some 100) (st\<lparr>o_fs := s2\<rparr>)
          = Some (st\<lparr>o_fs := s2, cb_log := l\<rparr>)" using notify_Some by blast
      then have "?run = Some (OTA_STATUS_OK, st\<lparr>o_fs := s2, cb_log := l\<rparr>)"
        using Some given K(1) True seq S build size by (auto simp: ota_verify_image_def on_fs_def)
      then show ?thesis using True by (simp add: same_service_def)
    qed
  qed
qed

section \<open>The verify data behind the image\<close>

lemma pos_walk_sure:
  assumes "sound_chain IMAGE_CHECK_OTA p sq (\<lambda>f. mem f s) (\<lambda>f. dsize f s) fl a"
    and "ok fl s" "ok (ucast (iop_flash p ! unat sq)) s" "length sh = 64"
    and "image_end p sq (\<lambda>f. mem f s) fl a e"
  shows "\<exists>fl' s'. pos_walk F p sq fl a sh s = Some (e, fl', s')"
proof -
  have *: "sound_chain IMAGE_CHECK_OTA p sq M D fl a \<Longrightarrow> (\<forall>f. mem f s = M f \<and> dsize f s = D f) \<Longrightarrow> ok fl s \<Longrightarrow>
      ok (ucast (iop_flash p ! unat sq)) s \<Longrightarrow> length sh = 64 \<Longrightarrow> image_end p sq M fl a e \<Longrightarrow>
      \<exists>fl' s'. pos_walk F p sq fl a sh s = Some (e, fl', s')"
    for M D fl a sh s
  proof (induction arbitrary: s sh rule: sound_chain.induct)
    case (sound_last a fl)
    have fit: "unat a + unat (64 :: u32) \<le> dsize fl s" using sound_last by simp
    obtain s1 where R: "if_hal_read F fl a sh 64 s = Some (0, content_read (M fl) (unat a) 64 @ [], s1)"
      using hal_read_sure [OF sound_last(4) _ _ fit, of sh] sound_last.prems by auto
    have nx: "next_section IMAGE_CHECK_OTA (header_at (M fl) a) = IMAGE_INVALID_ADDR"
      using sound_last by (simp add: section_intact_def)
    have e: "e = a + 64 + sh_data_size (header_at (M fl) a)"
      using sound_last.prems(5) nx by (cases rule: image_end.cases) auto
    have "image_check_header (Some (content_read (M fl) (unat a) 64 @ [])) = IMAGE_VALID"
      using sound_last(2) by (subst check_header_iff) (simp_all add: section_intact_def header_at_def)
    then have "pos_walk F p sq fl a sh s = Some (e, fl, s1)"
      unfolding pos_walk.simps [of F p sq fl a sh s] using R nx e by (simp add: header_at_def)
    then show ?case by blast
  next
    case (sound_more a fl nx)
    let ?fl2 = "ucast (iop_flash p ! unat sq) :: u32"
    have fit: "unat a + unat (64 :: u32) \<le> dsize fl s" using sound_more by simp
    obtain s1 where R: "if_hal_read F fl a sh 64 s = Some (0, content_read (M fl) (unat a) 64 @ [], s1)"
      "store_frame ok dsize mem fl 0 0 s s1"
      using hal_read_sure [OF sound_more.prems(2) _ _ fit, of sh] sound_more.prems by auto
    have nx: "nx = next_section IMAGE_CHECK_OTA (header_at (M fl) a)"
      using sound_more.hyps(2) by (simp add: section_intact_def)
    have e: "image_end p sq M ?fl2 (IMG_SEC_ADDR p sq nx) e"
      using sound_more.prems(5) nx sound_more.hyps(3) by (cases rule: image_end.cases) auto
    have h: "image_check_header (Some (content_read (M fl) (unat a) 64 @ [])) = IMAGE_VALID"
      using sound_more.hyps(2) by (subst check_header_iff) (simp_all add: section_intact_def header_at_def)
    have "pos_walk F p sq fl a sh s = pos_walk F p sq ?fl2 (IMG_SEC_ADDR p sq nx) (content_read (M fl) (unat a) 64) s1"
      unfolding pos_walk.simps [of F p sq fl a sh s] using R(1) h nx sound_more.hyps(3) by (simp add: header_at_def)
    moreover have "\<exists>fl' s'. pos_walk F p sq ?fl2 (IMG_SEC_ADDR p sq nx) (content_read (M fl) (unat a) 64) s1 = Some (e, fl', s')"
      using R(2) sound_more.prems e by (intro sound_more.IH) (simp_all add: frame_none_iff)
    ultimately show ?case by simp
  qed
  show ?thesis by (rule * [OF assms(1) _ assms(2-5)]) simp
qed

lemma get_verify_data_sure:
  assumes ready: "ota_ready B st" and build: "\<not> BOOTLOADER B" and size: "op_get_size st \<noteq> 0"
    and ok: "ok (IMG_BL_FLASH (iop (o_img st))) (o_fs st)" "ok (update_flash st) (o_fs st)"
    and sound: "sound_chain IMAGE_CHECK_OTA (iop (o_img st)) (ota_get_update_seq st) (\<lambda>f. mem f (o_fs st))
                (\<lambda>f. dsize f (o_fs st)) (IMG_BL_FLASH (iop (o_img st))) (IMG_BL_ADDR (iop (o_img st)))"
    and pos: "image_end (iop (o_img st)) (ota_get_update_seq st) (\<lambda>f. mem f (o_fs st))
                (IMG_BL_FLASH (iop (o_img st))) (IMG_BL_ADDR (iop (o_img st))) pos"
    and pos0: "pos \<noteq> 0" and fit: "unat pos + 44 \<le> dsize (update_flash st) (o_fs st)" and len: "length data = 44"
    and d: "d = content_read (mem (update_flash st) (o_fs st)) (unat pos) 44"
  shows "\<exists>s'. ota_get_verify_data F B data st =
      Some (if ov_magic (verify_data_of_bytes d) = OTA_VERIFY_MAGIC then OTA_STATUS_OK else OTA_STATUS_ERROR,
            d, st\<lparr>o_fs := s'\<rparr>) \<and> store_frame ok dsize mem 0 0 0 (o_fs st) s'"
proof -
  let ?p = "iop (o_img st)" and ?sq = "ota_get_update_seq st" and ?fl = "update_flash st"
  have seq: "verify_seq B st = Some ?sq" "\<not> 2 \<le> ?sq"
    using build ready by (simp_all add: verify_seq_def ota_ready_def not_le)
  have fin: "finite_chain IMAGE_CHECK_OTA ?p ?sq (\<lambda>f. mem f (o_fs st)) (IMG_BL_FLASH ?p) (IMG_BL_ADDR ?p)"
    using sound_chain_finite [OF sound] dsize_bound by blast
  obtain s0 where O0: "if_hal_open F (IMG_BL_FLASH ?p) 5000 (o_fs st) = Some (0, s0)"
      "store_frame ok dsize mem (IMG_BL_FLASH ?p) 0 0 (o_fs st) s0" using open_sure [OF ok(1)] by blast
  have eqs: "(\<lambda>f. mem f s0) = (\<lambda>f. mem f (o_fs st))" "(\<lambda>f. dsize f s0) = (\<lambda>f. dsize f (o_fs st))"
    "\<And>f. ok f (o_fs st) \<Longrightarrow> ok f s0" using O0(2) by (simp_all add: frame_none_iff)
  obtain fl' s1' where W: "pos_walk F ?p ?sq (IMG_BL_FLASH ?p) (IMG_BL_ADDR ?p) (replicate 64 0) s0 = Some (pos, fl', s1')"
    using pos_walk_sure [of ?p ?sq s0 "IMG_BL_FLASH ?p" "IMG_BL_ADDR ?p" "replicate 64 0" pos]
      sound pos ok eqs by (auto simp: update_flash_def)
  obtain r s1 where P: "ota_get_verify_data_pos F ?sq st = Some (r, st\<lparr>o_fs := s1\<rparr>)"
    "store_frame ok dsize mem 0 0 0 (o_fs st) s1"
    using verify_pos_law [OF ready ok fin] by blast
  have r: "r = pos"
    using P(1) O0(1) W seq ota_readyD(1) [OF ready]
    by (auto simp: ota_get_verify_data_pos_def on_fs_def bind_Some_iff)
  have st1: "ok ?fl s1" "mem ?fl s1 = mem ?fl (o_fs st)" "dsize ?fl s1 = dsize ?fl (o_fs st)"
    using P(2) ok by (simp_all add: frame_none_iff)
  obtain s2 where O: "if_hal_open F ?fl 5000 s1 = Some (0, s2)" "store_frame ok dsize mem ?fl 0 0 s1 s2"
    using open_sure [OF st1(1)] by blast
  have st2: "ok ?fl s2" "mem ?fl s2 = mem ?fl (o_fs st)" "dsize ?fl s2 = dsize ?fl (o_fs st)"
    using O(2) st1 by (simp_all add: frame_none_iff)
  have fit2: "unat pos + unat (44 :: u32) \<le> dsize ?fl s2" using fit st2(3) by simp
  obtain s3 where R: "if_hal_read F ?fl pos data 44 s2 = Some (0, d, s3)" "store_frame ok dsize mem ?fl 0 0 s2 s3"
    using hal_read_sure [OF st2(1) _ _ fit2, of data] len d st2(2) by auto
  have "ok ?fl s3" using R(2) st2(1) by (simp add: frame_none_iff)
  then obtain c s4 where X: "if_hal_close F ?fl s3 = Some (c, s4)" "store_frame ok dsize mem ?fl 0 0 s3 s4"
    using close_law by blast
  have f4: "store_frame ok dsize mem 0 0 0 (o_fs st) s4"
    using P(2) O(2) R(2) X(2) by (simp add: frame_none_iff)
  have "ota_get_verify_data F B data st =
      Some (if ov_magic (verify_data_of_bytes d) = OTA_VERIFY_MAGIC then OTA_STATUS_OK else OTA_STATUS_ERROR,
            d, st\<lparr>o_fs := s4\<rparr>)"
    using seq ota_readyD(1) [OF ready] P(1) r pos0 O(1) R(1) X(1) size
    by (simp add: ota_get_verify_data_def on_fs_def update_flash_def)
  then show ?thesis using f4 by blast
qed

end

section \<open>Finishing a push\<close>

text \<open>
  The condition for switching to a pushed image: there are no verify data behind it, or they
  name no algorithm, or the digest they hold is that of the image.
\<close>

definition image_accepted ::
  "content \<Rightarrow> 's ota \<Rightarrow> (ota_verify \<Rightarrow> u8 list \<Rightarrow> u8 list) \<Rightarrow> u32 \<Rightarrow> bool" where
  "image_accepted m st H pos \<longleftrightarrow>
     (let vd = verify_data_of_bytes (content_read m (unat pos) 44)
      in ov_magic vd = OTA_VERIFY_MAGIC \<longrightarrow>
         accepts_image m st H (verify_of_code (ov_type vd)) (Some (ov_data vd)))"

lemma accepts_upd [simp]:
  "accepts_image m (st\<lparr>o_fs := s\<rparr>) H v d = accepts_image m st H v d"
  "accepts_image m (st\<lparr>cb_log := l\<rparr>) H v d = accepts_image m st H v d"
  "verified_fits n (st\<lparr>o_fs := s\<rparr>) = verified_fits n st"
  "verified_fits n (st\<lparr>cb_log := l\<rparr>) = verified_fits n st"
  by (simp_all add: accepts_image_def digest_matches_def verified_fits_def verified_size_def update_addr_def
      split: option.splits)

context reliable_store
begin

lemma push_finish_sure:
  assumes ready: "ota_ready B st" and build: "\<not> BOOTLOADER B" "\<not> POLICY_COMPRESSION B"
    and size: "op_get_size st \<noteq> 0"
    and ok: "ok (IMG_BL_FLASH (iop (o_img st))) (o_fs st)" "ok (update_flash st) (o_fs st)"
    and boot: "boot_area_ok ok dsize mem (iop (o_img st)) (o_fs st)"
      "cfg_area_fits (iop (o_img st)) (dsize (ucast (ota_flash (iop (o_img st)))) (o_fs st))"
    and sound: "sound_chain IMAGE_CHECK_NORMAL (iop (o_img st)) (ota_get_update_seq st) (\<lambda>f. mem f (o_fs st))
                (\<lambda>f. dsize f (o_fs st)) (IMG_BL_FLASH (iop (o_img st))) (IMG_BL_ADDR (iop (o_img st)))"
      "sound_chain IMAGE_CHECK_OTA (iop (o_img st)) (ota_get_update_seq st) (\<lambda>f. mem f (o_fs st))
                (\<lambda>f. dsize f (o_fs st)) (IMG_BL_FLASH (iop (o_img st))) (IMG_BL_ADDR (iop (o_img st)))"
    and pos: "image_end (iop (o_img st)) (ota_get_update_seq st) (\<lambda>f. mem f (o_fs st))
                (IMG_BL_FLASH (iop (o_img st))) (IMG_BL_ADDR (iop (o_img st))) pos"
    and pos0: "pos \<noteq> 0" and fit: "unat pos + 44 \<le> dsize (update_flash st) (o_fs st)"
    and eng: "engine_runs C absorbed H"
    and fits: "verified_fits (dsize (update_flash st) (o_fs st)) st"
    and acc: "acc = image_accepted (mem (update_flash st) (o_fs st)) st H pos"
  shows "\<exists>st'. ota_push_finish F B C st = Some (if acc then OTA_STATUS_OK else OTA_STATUS_ERROR, st') \<and>
     same_service st st' \<and>
     store_frame ok dsize mem (ucast (ota_flash (iop (o_img st)))) (unat (ota_addr (iop (o_img st))))
       (unat (ota_size (iop (o_img st)))) (o_fs st) (o_fs st') \<and>
     (if acc then cfg_stored (mem (ucast (ota_flash (iop (o_img st)))) (o_fs st')) (iop (o_img st))
          (raw_of_seq (ota_get_update_seq st))
      else store_frame ok dsize mem 0 0 0 (o_fs st) (o_fs st'))"
proof -
  let ?p = "iop (o_img st)" and ?sq = "ota_get_update_seq st" and ?fl = "update_flash st"
  let ?keep = "store_frame ok dsize mem 0 0 0"
  let ?d = "content_read (mem ?fl (o_fs st)) (unat pos) 44"
  have sqlt: "unat ?sq < length (iop_flash ?p)" using ready by (simp add: ota_ready_def word_less_nat_alt)
  note rd = ota_readyD(1) [OF ready]
  obtain s1 where K: "image_check_sections F ?sq (o_img st) (o_fs st) = Some (IMAGE_VALID, s1)" "?keep (o_fs st) s1"
    using check_all_sure [OF sound(1) ok(1) ok(2) [unfolded update_flash_def] sqlt] frame_none_any
    unfolding image_check_sections_def by blast
  obtain l where N: "notify OTA_UPGRADE_UPDATING (op_get_size st - ota_skip_size st) (Some 90) (st\<lparr>o_fs := s1\<rparr>)
      = Some (st\<lparr>o_fs := s1, cb_log := l\<rparr>)" using notify_Some by blast
  let ?st1 = "st\<lparr>o_fs := s1, cb_log := l\<rparr>"
  have eq1: "(\<lambda>f. mem f s1) = (\<lambda>f. mem f (o_fs st))" "(\<lambda>f. dsize f s1) = (\<lambda>f. dsize f (o_fs st))"
    "\<And>f. ok f (o_fs st) \<Longrightarrow> ok f s1" "mem ?fl s1 = mem ?fl (o_fs st)" "dsize ?fl s1 = dsize ?fl (o_fs st)"
    using K(2) by (simp_all add: frame_none_iff)
  have proj: "iop (o_img ?st1) = ?p" "ota_get_update_seq ?st1 = ?sq" "o_fs ?st1 = s1" "update_flash ?st1 = ?fl"
    "op_get_size ?st1 = op_get_size st" by simp_all
  have r1: "ota_ready B ?st1" using ready by simp
  let ?g = "if ov_magic (verify_data_of_bytes ?d) = OTA_VERIFY_MAGIC then OTA_STATUS_OK else OTA_STATUS_ERROR"
  obtain s2 where G: "ota_get_verify_data F B (replicate 44 0) ?st1 = Some (?g, ?d, ?st1\<lparr>o_fs := s2\<rparr>)" "?keep s1 s2"
    using get_verify_data_sure [OF r1 build(1), unfolded proj eq1(1,2,4,5), OF size eq1(3) [OF ok(1)] eq1(3) [OF ok(2)]
        sound(2) pos pos0 fit _ refl, of "replicate 44 0"] by auto
  let ?st2 = "?st1\<lparr>o_fs := s2\<rparr>"
  have f2: "?keep (o_fs st) s2" using K(2) G(2) by (rule store_frame_trans)
  define w vv where "w = (if ?g \<noteq> OTA_STATUS_OK then Some OTA_VERIFY_NONE
      else verify_of_code (ov_type (verify_data_of_bytes ?d)))"
    and "vv = (if ?g \<noteq> OTA_STATUS_OK then None else Some (ov_data (verify_data_of_bytes ?d)))"
  have vl: "\<forall>alg x. w = Some alg \<and> vv = Some x \<longrightarrow> digest_size alg \<le> length x"
    using digest_field [of ?d] digest_size_le by (auto simp: vv_def split: if_splits)
  have gv: "w = Some OTA_VERIFY_NONE \<or> vv \<noteq> None" by (simp add: w_def vv_def)
  have eq2: "ok ?fl s2" "boot_area_ok ok dsize mem ?p s2" "mem ?fl s2 = mem ?fl (o_fs st)"
    "dsize ?fl s2 = dsize ?fl (o_fs st)" "dsize (ucast (ota_flash ?p)) s2 = dsize (ucast (ota_flash ?p)) (o_fs st)"
    using f2 ok boot_area_frame [OF f2 boot(1)] by (simp_all add: frame_none_iff)
  have acc2: "accepts_image (mem ?fl (o_fs st)) st H w vv = acc"
    unfolding acc image_accepted_def w_def vv_def by (simp add: Let_def accepts_image_def)
  have proj2: "iop (o_img ?st2) = ?p" "ota_get_update_seq ?st2 = ?sq" "o_fs ?st2 = s2" "update_flash ?st2 = ?fl"
    "op_get_size ?st2 = op_get_size st" by simp_all
  have r2: "ota_ready B ?st2" using ready by simp
  obtain st3 where V: "ota_verify_image F B C w vv ?st2 = Some (if acc then OTA_STATUS_OK else OTA_STATUS_ERROR, st3)"
    "same_service ?st2 st3" "\<not> acc \<longrightarrow> ?keep s2 (o_fs st3)"
    using verify_image_sure [where v = w and expected = vv and absorbed = absorbed and H = H and C = C,
        OF r2 build, unfolded proj2 eq2(3-5) accepts_upd acc2, OF eq2(1) size eq2(2) boot(2) vl gv eng] fits by blast
  have V2: "store_frame ok dsize mem (ucast (ota_flash ?p)) (unat (ota_addr ?p)) (unat (ota_size ?p)) s2 (o_fs st3)"
    "acc \<longrightarrow> cfg_stored (mem (ucast (ota_flash ?p)) (o_fs st3)) ?p (raw_of_seq ?sq)"
    using verify_image_law [where v = w and expected = vv and C = C,
        OF r2 build, unfolded proj2, OF eq2(1,2) vl] V(1) by auto
  have svc: "same_service st st3" using V(2) by (simp add: same_service_def)
  then have "ota_ready B st3" "iop (o_img st3) = ?p"
    using ready same_service_ready [OF svc] by (auto simp: same_service_def)
  then obtain l3 where P: "push_result B ?p (if acc then OTA_STATUS_OK else OTA_STATUS_ERROR) st3 =
      Some (if acc then OTA_STATUS_OK else OTA_STATUS_ERROR, st3\<lparr>cb_log := l3\<rparr>)"
    using push_result_law [of B st3 "if acc then OTA_STATUS_OK else OTA_STATUS_ERROR"] by auto
  have "ota_push_finish F B C st = Some (if acc then OTA_STATUS_OK else OTA_STATUS_ERROR, st3\<lparr>cb_log := l3\<rparr>)"
    using rd K(1) N G(1) V(1) P
    by (cases "ov_magic (verify_data_of_bytes ?d) = OTA_VERIFY_MAGIC")
      (simp_all add: ota_push_finish_def on_fs_def w_def vv_def)
  moreover have "same_service st (st3\<lparr>cb_log := l3\<rparr>)" using svc by (simp add: same_service_def)
  moreover have "store_frame ok dsize mem (ucast (ota_flash ?p)) (unat (ota_addr ?p)) (unat (ota_size ?p))
      (o_fs st) (o_fs st3)"
    using store_frame_none [OF f2] V2(1) by (rule store_frame_trans)
  moreover have "\<not> acc \<longrightarrow> ?keep (o_fs st) (o_fs st3)" using V(3) store_frame_trans [OF f2] by blast
  ultimately show ?thesis
    using V2(2) by (intro exI [of _ "st3\<lparr>cb_log := l3\<rparr>"]) simp
qed

end

end
