(* ===== verification/Sim_Chip.thy ===== *)
theory Sim_Chip
  imports Ota_Download_Spec
begin

text \<open>
  A chip that works as documented, for instances of the theorems: its state is its memory
  array, every command completes at once.  A hardware layer with one such device of 2 MB, and
  an update service on it that runs the first image: bootloader of 32 KB at 0, two slots of
  64 KB at 0x8000 and 0x100000, the boot configuration in the block at 0xFF000.
\<close>

definition sim_ops :: "content chip_ops" where
  "sim_ops = \<lparr>drv_open = (\<lambda>c. c), drv_close = (\<lambda>c. c), writeEnable = (\<lambda>c. c),
     pageProgram = (\<lambda>m a bs c. (0, nor_program c (unat a) bs)),
     chip_read = (\<lambda>m a n c. (0, content_read c (unat a) (unat n), c)),
     chip_erase = (\<lambda>m a c. (0, nor_erase c (unat a) (unat m))),
     isBusy = (\<lambda>c. (0, c))\<rparr>"

definition sim_hal :: "content \<Rightarrow> content hal" where
  "sim_hal m = \<lparr>flashNodeHead = [(0, \<lparr>dev_chip = m, cfg_mSize = 0x200000, cfg_mEraseSizeSupport = 0x19000,
     dev_rmode = 0, dev_wmode = 0, dev_usercnt = 0, xip_opt_read = False\<rparr>)],
     mutex_rets = [], malloc_rets = [], alive_cnt = 0\<rparr>"

definition blank :: content where
  "blank = (\<lambda>_. 0xFF)"

abbreviation (input) sim_if :: "content hal flash_if" where
  "sim_if \<equiv> rom_flash_if sim_ops False"

abbreviation (input) sim_cells :: "content \<Rightarrow> content" where
  "sim_cells \<equiv> (\<lambda>c. c)"

lemma sim_nor_chip: "nor_chip sim_ops sim_cells cap supp"
proof -
  have now: "\<exists>k < 500000. \<exists>c'. idle_after sim_ops k c c' \<and> c' = c" for c
    by (rule exI [of _ 0]) (simp add: sim_ops_def)
  show ?thesis
    unfolding nor_chip_def chip_switches_def chip_programs_def chip_erases_def chip_reads_def completes_def
    using now by (auto simp: sim_ops_def)
qed

lemma getFlashDev_sim:
  "getFlashDev fl (sim_hal m) = (if fl = 0 then Some \<lparr>dev_chip = m, cfg_mSize = 0x200000,
     cfg_mEraseSizeSupport = 0x19000, dev_rmode = 0, dev_wmode = 0, dev_usercnt = 0, xip_opt_read = False\<rparr> else None)"
  by (simp add: getFlashDev_def sim_hal_def)

lemma sim_dev [simp]:
  "dev_size 0 (sim_hal m) = 0x200000" "dev_supp 0 (sim_hal m) = 0x19000" "dev_mem sim_cells 0 (sim_hal m) = m"
  by (simp_all add: dev_size_def dev_supp_def dev_mem_def getFlashDev_sim)

lemma sim_dev_ok [simp]: "dev_ok sim_ops sim_cells 0 (sim_hal m)"
  by (simp add: dev_ok_def getFlashDev_sim sim_nor_chip)

lemma sim_rom_ok [simp]: "rom_ok sim_ops sim_cells 0 (sim_hal m)"
  by (simp add: rom_ok_def erase_modes_ok_def)

definition sim_iop :: image_ota_param where
  "sim_iop = \<lparr>ota_flash = 0, ota_size = 0x1000, ota_addr = 0xFF000, img_max_size = 64, img_xz_max_size = 64,
     bl_size = 0x8000, running_seq = 0, iop_flash = [0, 0], iop_addr = [0x8000, 0x100000]\<rparr>"

definition sim_img :: image_priv where
  "sim_img = \<lparr>iop = sim_iop, sec_num = [0, 0], sec_addr = [None, None]\<rparr>"

definition sim_build :: ota_build where
  "sim_build = \<lparr>POLICY_PINGPONG = True, POLICY_COMPRESSION = False, BOOTLOADER = False\<rparr>"

definition sim_ota :: "u32 \<Rightarrow> content \<Rightarrow> content hal ota" where
  "sim_ota skip m = \<lparr>op_iop = True, op_get_size = 0, ota_cb = True, ota_skip_size = skip, cb_log = [],
     fs_param = False, http_param = False, http_uri = [], o_img = sim_img, o_fs = sim_hal m\<rparr>"

lemma sim_ota_simps [simp]:
  "o_fs (sim_ota k m) = sim_hal m" "o_img (sim_ota k m) = sim_img" "iop sim_img = sim_iop"
  "op_iop (sim_ota k m)" "op_get_size (sim_ota k m) = 0" "ota_skip_size (sim_ota k m) = k"
  by (simp_all add: sim_ota_def sim_img_def)

lemma sim_seq [simp]: "ota_get_update_seq (sim_ota k m) = 1"
  by (simp add: ota_get_update_seq_def ota_iop_def sim_iop_def IMAGE_AREA_SIZE_def ota_update_seq_policy_def)

lemma sim_update [simp]:
  "update_flash (sim_ota k m) = 0" "update_addr (sim_ota k m) = 0x100000"
  "update_size sim_build (sim_ota k m) = 0x10000"
  by (simp_all add: update_flash_def update_addr_def update_size_def slot_size_def sim_build_def sim_iop_def
      IMAGE_AREA_SIZE_def)

lemma sim_ready [simp]: "ota_ready sim_build (sim_ota k m)"
  by (simp add: ota_ready_def sim_iop_def)

lemma sim_bl [simp]: "IMG_BL_FLASH sim_iop = 0" "IMG_BL_ADDR sim_iop = 0"
  by (simp_all add: IMG_BL_FLASH_def IMG_BL_ADDR_def sim_iop_def)

lemma blank_read: "content_read blank a n = replicate n 0xFF"
  by (rule nth_equalityI) (auto simp: blank_def)

lemma blank_erased [simp]: "erased blank a n"
  by (simp add: erased_def blank_def)

text \<open>A blank flash holds no chain: its first header ends it.\<close>

lemma blank_next: "next_section ct (header_at blank a) = IMAGE_INVALID_ADDR"
proof -
  have "section_header_of_bytes (replicate 64 0xFF) =
      \<lparr>magic_number = 0xFFFFFFFF, version = 0xFFFFFFFF, header_chksum = 0xFFFF, data_chksum = 0xFFFF,
       sh_data_size = 0xFFFFFFFF, load_addr = 0xFFFFFFFF, entry = 0xFFFFFFFF, body_len = 0xFFFFFFFF,
       attribute = 0xFFFFFFFF, next_addr = 0xFFFFFFFF, sh_id = 0xFFFFFFFF, sh_priv = replicate 6 0xFFFFFFFF\<rparr>"
    by code_simp
  then show ?thesis
    by (simp add: header_at_def blank_read next_section_def)
qed

lemma blank_finite: "unat a + 64 < 4294967296 \<Longrightarrow> finite_chain ct p sq (\<lambda>f. blank) fl a"
  by (rule chain_end) (simp_all add: blank_next)

lemma blank_cfg_ready: "9 \<le> unat sz \<Longrightarrow> cfg_area_ready blank a sz"
  unfolding cfg_area_ready_def by (intro disjI1 erased_header_invalid [of _ _ 8]) simp_all

end
