(* ===== verification/Flash_Overwrite_Spec.thy ===== *)
theory Flash_Overwrite_Spec
  imports Flash_Reliable
begin

text \<open>
  The two composed operations of the driver on healthy hardware: \<open>HAL_Flash_Overwrite\<close>
  replaces exactly the given range, whatever was there before, and \<open>HAL_Flash_Check\<close>
  classifies the data against the contents.
\<close>

section \<open>Overwriting\<close>

text \<open>A device of whole blocks of 4 KB that can be erased one by one.\<close>

definition block_device :: "u32 \<Rightarrow> 'c hal \<Rightarrow> bool" where
  "block_device fl s \<longleftrightarrow> 4096 dvd dev_size fl s \<and> dev_size fl s \<le> 0x7FFFFFFF"

lemma block_of:
  assumes "unat (a :: u32) < D" "4096 dvd D"
  shows "unat (a AND NOT 4095) = unat a div 4096 * 4096" "unat (a AND NOT 4095) \<le> unat a"
    "unat a < unat (a AND NOT 4095) + 4096" "unat (a AND NOT 4095) + 4096 \<le> D"
proof -
  show e: "unat (a AND NOT 4095) = unat a div 4096 * 4096" using and_not_mask_eq [of 12 a] by simp
  show "unat (a AND NOT 4095) \<le> unat a" "unat a < unat (a AND NOT 4095) + 4096"
    unfolding e using mult_div_mod_eq [of 4096 "unat a"] by simp_all
  obtain k where k: "D = 4096 * k" using assms(2) by (elim dvdE)
  have "unat a div 4096 < k" using assms(1) by (simp add: k less_mult_imp_div_less mult.commute)
  then show "unat (a AND NOT 4095) + 4096 \<le> D" unfolding e k by simp
qed

lemma MemoryOf_block:
  assumes "dev_ok ops cells fl s" "FLASH_ERASE_4KB AND dev_supp fl s \<noteq> 0"
  shows "rom_HAL_Flash_MemoryOf fl FLASH_ERASE_4KB a start s = Some (HAL_OK, a AND NOT 4095)"
  using assms by (auto simp: rom_HAL_Flash_MemoryOf_def elim!: dev_ok_cases)

lemma hal_erase_sure:
  assumes good: "rom_good ops cells fl s" and a: "4096 dvd unat a" "unat a + 4096 \<le> dev_size fl s"
  obtains s' where "rom_HAL_Flash_Erase ops fl FLASH_ERASE_4KB a 1 s = Some (HAL_OK, s')"
    "store_frame (rom_good ops cells) dev_size (dev_mem cells) fl (unat a) 4096 s s'"
    "dev_mem cells fl s' = nor_erase (dev_mem cells fl s) (unat a) 4096"
proof -
  have g: "dev_ok ops cells fl s" "4096 AND dev_supp fl s \<noteq> 0" "chip_prompt ops" "env_quiet s"
    using good by (simp_all add: rom_good_def rom_ok_def erase_modes_ok_def)
  obtain r s' where E: "rom_HAL_Flash_Erase ops fl 4096 a 1 s = Some (r, s')" "dev_frame cells fl (unat a) 4096 s s'"
    "r = HAL_OK \<longrightarrow> dev_mem cells fl s' = nor_erase (dev_mem cells fl s) (unat a) 4096"
    using Erase_spec [OF g(1) _ g(2), of a 1] a by auto
  have "r = HAL_OK" using Erase_succeeds [OF g(3) _ _ _ _ E(1)] a by simp
  moreover have "env_quiet s'" by (rule Erase_quiet [OF g(4) E(1)])
  ultimately show thesis
    using that E good_frame [OF store_frame_of_dev [OF E(2)]] by blast
qed

lemma sint_small: "unat (x :: u32) \<le> 0x7FFFFFFF \<Longrightarrow> sint x = int (unat x)"
proof -
  assume "unat x \<le> 0x7FFFFFFF"
  then have "int (unat x) < 2147483648" by linarith
  moreover have "(2 :: int) ^ 31 = 2147483648" by simp
  ultimately have "int (unat x) < 2 ^ 31" by metis
  then have "signed_take_bit 31 (int (unat x)) = int (unat x)"
    by (intro signed_take_bit_int_eq_self order_trans [of "- (2 ^ 31)" 0 "int (unat x)"]) simp_all
  then show "sint x = int (unat x)" unfolding sint_uint by simp
qed

text \<open>Replacing the middle of a block that was read from the contents.\<close>

lemma place_block:
  assumes "sa \<le> a" "a + length xs \<le> sa + n"
  shows "place sa (take (a - sa) (content_read m sa n) @ xs @ drop (a - sa + length xs) (content_read m sa n)) m
    = place a xs m"
    (is "place sa ?b m = _")
proof
  fix x
  have len: "length ?b = n" using assms by simp
  obtain j where a: "a = sa + j" using assms(1) le_Suc_ex by blast
  show "place sa ?b m x = place a xs m x"
  proof (cases "sa \<le> x \<and> x < sa + n")
    case True
    then obtain i where x: "x = sa + i" "i < n" using le_Suc_ex by (metis nat_add_left_cancel_less)
    then show ?thesis
      unfolding place_apply len using assms by (auto simp: a nth_append)
  qed (use assms in \<open>auto simp: place_apply\<close>)
qed

lemma overwrite_loop_sure:
  assumes good: "rom_good ops cells fl s" and dev: "block_device fl s"
    and fit: "unat paddr + unat left \<le> dev_size fl s" and len: "ptr + unat left = length data"
    and buf: "length buf = 4096" and ret: "left = 0 \<longrightarrow> ret = HAL_OK"
  shows "\<exists>s'. overwrite_loop ops flag fl data ptr paddr left saddr buf ret s = Some (HAL_OK, s') \<and>
     store_frame (rom_good ops cells) dev_size (dev_mem cells) fl 0 (dev_size fl s) s s' \<and>
     dev_mem cells fl s' = place (unat paddr) (drop ptr data) (dev_mem cells fl s)"
  using assms
proof (induction "unat left" arbitrary: ptr paddr left saddr buf ret s rule: less_induct)
  case less
  let ?m = "dev_mem cells fl s" and ?D = "dev_size fl s"
  show ?case
  proof (cases "left = 0")
    case True
    then show ?thesis using less.prems(4,6) by (subst overwrite_loop.simps) simp
  next
    case False
    then have pos: "0 < unat left" by (simp add: unat_gt_0)
    have small: "unat left \<le> 0x7FFFFFFF" using less.prems(2,3) by (simp add: block_device_def)
    have sgn: "0 <s left"
    proof -
      have "0 < int (unat left)" using pos by (simp only: of_nat_0_less_iff)
      then show ?thesis unfolding word_sless_alt sint_small [OF small] by simp
    qed
    define sa where "sa = paddr AND NOT 4095"
    have lt: "unat paddr < ?D" using pos less.prems(3) by linarith
    note blk = block_of [OF lt less.prems(2) [unfolded block_device_def, THEN conjunct1], folded sa_def]
    have g: "dev_ok ops cells fl s" "FLASH_ERASE_4KB AND dev_supp fl s \<noteq> 0"
      using less.prems(1) by (simp_all add: rom_good_def rom_ok_def erase_modes_ok_def)
    have mo: "rom_HAL_Flash_MemoryOf fl 4096 paddr saddr s = Some (HAL_OK, sa)"
      unfolding sa_def by (rule MemoryOf_block [OF g])
    have fit1: "unat sa + unat (4096 :: u32) \<le> ?D" using blk(4) by simp
    obtain s1 where R: "rom_HAL_Flash_Read ops fl sa buf 4096 s = Some (0, content_read ?m (unat sa) 4096, s1)"
        "store_frame (rom_good ops cells) dev_size (dev_mem cells) fl 0 0 s s1"
      using good.hal_read_sure [OF less.prems(1) _ _ fit1, of buf flag] less.prems(5) by auto
    have st1: "rom_good ops cells fl s1" "dev_size fl s1 = ?D" "dev_mem cells fl s1 = ?m"
      using R(2) less.prems(1) by (simp_all add: store_frame_def)
    have al: "4096 dvd unat sa" unfolding blk(1) by simp
    obtain s2 where E: "rom_HAL_Flash_Erase ops fl 4096 sa 1 s1 = Some (0, s2)"
        "store_frame (rom_good ops cells) dev_size (dev_mem cells) fl (unat sa) 4096 s1 s2"
        "dev_mem cells fl s2 = nor_erase ?m (unat sa) 4096"
      using hal_erase_sure [OF st1(1) al] blk(4) st1(2,3) by auto
    have st2: "rom_good ops cells fl s2" "dev_size fl s2 = ?D"
      using E(2) st1 by (simp_all add: store_frame_def)
    define off where "off = paddr - sa"
    define pp where "pp = min left (4096 - off)"
    have uoff: "unat off = unat paddr - unat sa" "unat off < 4096"
      using blk(2,3) by (simp_all add: off_def unat_diff_le)
    have "unat (4096 - off) = 4096 - unat off"
      using uoff(2) unat_diff_le [of off 4096] by simp
    then have upp: "unat pp = min (unat left) (4096 - unat off)"
      by (simp add: pp_def min_def word_le_nat_alt)
    have pp: "0 < unat pp" "unat pp \<le> unat left" "unat off + unat pp \<le> 4096"
      using upp pos uoff(2) by auto
    define xs where "xs = take (unat pp) (drop ptr data)"
    have lxs: "length xs = unat pp" using less.prems(4) pp(2) by (simp add: xs_def)
    define b where "b = take (unat off) (content_read ?m (unat sa) 4096) @ xs
        @ drop (unat off + unat pp) (content_read ?m (unat sa) 4096)"
    have lb: "length b = 4096" using lxs pp(3) by (simp add: b_def)
    have fit2: "unat sa + unat (4096 :: u32) \<le> dev_size fl s2" using blk(4) st2(2) by simp
    obtain s3 where W: "rom_HAL_Flash_Write ops flag fl sa b 4096 s2 = Some (0, s3)"
        "store_frame (rom_good ops cells) dev_size (dev_mem cells) fl (unat sa) 4096 s2 s3"
        "dev_mem cells fl s3 = nor_program (dev_mem cells fl s2) (unat sa) b"
      using good.hal_write_sure [OF st2(1) _ _ fit2, of b flag] lb by auto
    have bound: "unat sa + 4096 \<le> 0 + ?D" using blk(4) by simp
    have f3: "store_frame (rom_good ops cells) dev_size (dev_mem cells) fl 0 ?D s s3"
      by (rule store_frame_trans [OF store_frame_none [OF R(2)] store_frame_trans [OF
            store_frame_mono [OF E(2) _ bound] store_frame_mono [OF W(2) _ bound]]]) simp_all
    have st3: "rom_good ops cells fl s3" "dev_size fl s3 = ?D"
      using f3 less.prems(1) by (simp_all add: store_frame_def)
    have ap: "unat sa \<le> unat paddr" "unat paddr + length xs \<le> unat sa + 4096"
      using blk(2) pp(3) uoff(1) lxs by simp_all
    have "dev_mem cells fl s3 = place (unat sa) b ?m"
      unfolding W(3) E(3) using program_erased_range [of ?m "unat sa" b] lb by simp
    also have "\<dots> = place (unat paddr) xs ?m"
      unfolding b_def uoff(1) lxs [symmetric] by (rule place_block [OF ap])
    finally have m3: "dev_mem cells fl s3 = place (unat paddr) xs ?m" .
    have step: "overwrite_loop ops flag fl data ptr paddr left saddr buf ret s =
        overwrite_loop ops flag fl data (ptr + unat pp) (paddr + pp) (left - pp) sa b 0 s3"
      unfolding overwrite_loop.simps [of ops flag fl data ptr paddr left saddr buf ret s]
      using sgn mo R(1) E(1) W(1) pp(2,3) less.prems(4)
      by (simp add: Let_def flip: off_def pp_def xs_def b_def)
    have sub: "unat (left - pp) = unat left - unat pp"
      using pp(2) by (simp add: unat_diff_le)
    have adv: "unat (paddr + pp) = unat paddr + unat pp"
      using less.prems(2,3) pp(2) by (intro unat_add_no_wrap) (simp add: block_device_def)
    have "\<exists>s'. overwrite_loop ops flag fl data (ptr + unat pp) (paddr + pp) (left - pp) sa b 0 s3 = Some (HAL_OK, s') \<and>
       store_frame (rom_good ops cells) dev_size (dev_mem cells) fl 0 (dev_size fl s3) s3 s' \<and>
       dev_mem cells fl s' = place (unat (paddr + pp)) (drop (ptr + unat pp) data) (dev_mem cells fl s3)"
      by (rule less.hyps) (use st3 less.prems sub adv pp lb in \<open>auto simp: block_device_def\<close>)
    moreover have "place (unat (paddr + pp)) (drop (ptr + unat pp) data) (place (unat paddr) xs ?m)
        = place (unat paddr) (drop ptr data) ?m"
    proof -
      have "xs @ drop (ptr + unat pp) data = drop ptr data"
        using append_take_drop_id [of "unat pp" "drop ptr data"] by (simp add: xs_def add.commute)
      then show ?thesis using place_append [of "unat paddr" xs "drop (ptr + unat pp) data" ?m] adv lxs by simp
    qed
    ultimately show ?thesis
      unfolding step m3 st3(2) using store_frame_trans [OF f3] by auto
  qed
qed

lemma Overwrite_replaces:
  assumes good: "rom_good ops cells fl s" and dev: "block_device fl s"
    and fit: "unat a + unat n \<le> dev_size fl s" and n: "n \<noteq> 0" and len: "length data = unat n"
  shows "\<exists>s'. HAL_Flash_Overwrite ops flag fl a data n s = Some (HAL_OK, s') \<and>
     store_frame (rom_good ops cells) dev_size (dev_mem cells) fl 0 (dev_size fl s) s s' \<and>
     dev_mem cells fl s' = place (unat a) data (dev_mem cells fl s)"
proof -
  have g: "dev_ok ops cells fl s" "4096 AND dev_supp fl s \<noteq> 0" "env_quiet s"
    using good by (simp_all add: rom_good_def rom_ok_def erase_modes_ok_def)
  obtain d where d: "getFlashDev fl s = Some d" "dev_supp fl s = cfg_mEraseSizeSupport d"
    using g(1) by (auto elim: dev_ok_cases)
  have "HAL_Flash_Overwrite ops flag fl a data n s =
      overwrite_loop ops flag fl data 0 a n 0 (replicate 4096 0) HAL_ERROR s"
    using d g(2,3) by (simp add: HAL_Flash_Overwrite_def quiet_malloc and.commute)
  then show ?thesis
    using overwrite_loop_sure [OF good dev fit, of 0 data "replicate 4096 0" HAL_ERROR flag 0] len n by simp
qed

section \<open>Comparing\<close>

text \<open>
  What \<open>HAL_Flash_Check\<close> computes: 2 when some byte of the flash has a set bit that the data
  clear, 0 when data and contents agree, and 1 otherwise.
\<close>

definition check_verdict :: "u8 list \<Rightarrow> u8 list \<Rightarrow> int" where
  "check_verdict ds fs =
     (if list_ex (\<lambda>(d, f). NOT d AND f \<noteq> 0) (zip ds fs) then 2 else if ds = fs then 0 else 1)"

lemma check_bits: "(d XOR f) AND f = NOT d AND (f :: u8)"
  by (rule bit_eqI) (auto simp: bit_simps)

lemma xor_is_zero: "d XOR f = 0 \<longleftrightarrow> d = (f :: u8)"
  by (metis xor.assoc xor.left_neutral xor_self_eq xor.commute)

lemma check_verdict_Cons:
  "check_verdict (d # ds) (f # fs) =
     (if NOT d AND f \<noteq> 0 then 2
      else if check_verdict ds fs = 2 then 2
      else if d = f then check_verdict ds fs else 1)"
  by (simp add: check_verdict_def)

lemma check_verdict_values: "check_verdict ds fs \<in> {0, 1, 2}"
  by (simp add: check_verdict_def)

lemma check_refill:
  assumes "rom_good ops cells fl s" "unat paddr + 128 \<le> dev_size fl s" "pos \<le> 128" "length buf = 128"
    "\<forall>i < 128 - pos. buf ! (pos + i) = dev_mem cells fl s (unat paddr + i)"
  obtains buf' pos' s' where "(if pos = 128
      then do { (_, buf, s) \<leftarrow> rom_HAL_Flash_Read ops fl paddr buf 128 s; Some (buf, 0, s) }
      else Some (buf, pos, s)) = Some (buf', pos', s')"
    "pos' < 128" "length buf' = 128"
    "\<forall>i < 128 - pos'. buf' ! (pos' + i) = dev_mem cells fl s (unat paddr + i)"
    "store_frame (rom_good ops cells) dev_size (dev_mem cells) fl 0 0 s s'"
proof (cases "pos = 128")
  case True
  obtain s' where "rom_HAL_Flash_Read ops fl paddr buf 128 s =
      Some (0, content_read (dev_mem cells fl s) (unat paddr) 128, s')"
    "store_frame (rom_good ops cells) dev_size (dev_mem cells) fl 0 0 s s'"
    using good.hal_read_sure [OF assms(1), of 128 buf paddr False] assms(2,4) by auto
  then show thesis using True
    by (intro that [of "content_read (dev_mem cells fl s) (unat paddr) 128" 0 s']) simp_all
next
  case False
  then show thesis using assms(3-5) by (intro that [of buf pos s]) auto
qed

lemma check_loop_sure:
  assumes "rom_good ops cells fl s" "unat paddr + length ds + 127 \<le> dev_size fl s" "dev_size fl s < 2 ^ 32"
    "pos \<le> 128" "length buf = 128"
    "\<forall>i < 128 - pos. buf ! (pos + i) = dev_mem cells fl s (unat paddr + i)"
    "ret = 0 \<or> ret = 1"
  shows "\<exists>s'. check_loop ops fl ds paddr pos buf ret s =
       Some (if check_verdict ds (content_read (dev_mem cells fl s) (unat paddr) (length ds)) = 0 then ret
             else check_verdict ds (content_read (dev_mem cells fl s) (unat paddr) (length ds)), s') \<and>
     store_frame (rom_good ops cells) dev_size (dev_mem cells) fl 0 0 s s'"
  using assms
proof (induction ds arbitrary: paddr pos buf ret s)
  case Nil
  then show ?case by (simp add: check_verdict_def)
next
  case (Cons d ds)
  let ?m = "dev_mem cells fl s"
  let ?f = "?m (unat paddr)" and ?fs = "content_read ?m (unat paddr + 1) (length ds)"
  have room: "unat paddr + 128 \<le> dev_size fl s" using Cons.prems(2) by simp
  obtain b p s1 where R: "(if pos = 128
      then do { (_, buf, s) \<leftarrow> rom_HAL_Flash_Read ops fl paddr buf 128 s; Some (buf, 0, s) }
      else Some (buf, pos, s)) = Some (b, p, s1)"
    and b: "p < 128" "length b = 128" "\<forall>i < 128 - p. b ! (p + i) = ?m (unat paddr + i)"
    and fr: "store_frame (rom_good ops cells) dev_size (dev_mem cells) fl 0 0 s s1"
    by (rule check_refill [OF Cons.prems(1) room Cons.prems(4-6)])
  have f: "b ! p = ?f" using b(3) [rule_format, of 0] b(1) by simp
  have read: "content_read ?m (unat paddr) (length (d # ds)) = ?f # ?fs"
    using content_read_add [of ?m "unat paddr" 1 "length ds"] by (simp add: content_read_def)
  have adv: "unat (paddr + 1) = unat paddr + 1"
    using Cons.prems(2,3) unat_add_no_wrap [of paddr 1] by simp
  have st1: "rom_good ops cells fl s1" "dev_size fl s1 = dev_size fl s" "dev_mem cells fl s1 = ?m"
    using fr Cons.prems(1) by (simp_all add: store_frame_def)
  have rest: "\<exists>s'. check_loop ops fl ds (paddr + 1) (p + 1) b r s1 =
       Some (if check_verdict ds ?fs = 0 then r else check_verdict ds ?fs, s') \<and>
     store_frame (rom_good ops cells) dev_size (dev_mem cells) fl 0 0 s s'" if "r = 0 \<or> r = 1" for r
  proof -
    have buf1: "\<forall>i < 128 - (p + 1). b ! (p + 1 + i) = ?m (unat paddr + 1 + i)"
    proof (intro allI impI)
      fix i assume "i < 128 - (p + 1)"
      then show "b ! (p + 1 + i) = ?m (unat paddr + 1 + i)" using b(3) [rule_format, of "Suc i"] by simp
    qed
    have "\<exists>s'. check_loop ops fl ds (paddr + 1) (p + 1) b r s1 =
       Some (if check_verdict ds ?fs = 0 then r else check_verdict ds ?fs, s') \<and>
     store_frame (rom_good ops cells) dev_size (dev_mem cells) fl 0 0 s1 s'"
      by (rule Cons.IH [OF st1(1), of "paddr + 1" "p + 1" b r, unfolded st1 adv, OF _ _ _ _ buf1])
        (use Cons.prems(2,3) b(1,2) that in simp_all)
    then show ?thesis using store_frame_trans [OF fr] by blast
  qed
  have step: "check_loop ops fl (d # ds) paddr pos buf ret s =
     (if d = ?f then check_loop ops fl ds (paddr + 1) (p + 1) b ret s1
      else if NOT d AND ?f \<noteq> 0 then Some (2, s1)
      else check_loop ops fl ds (paddr + 1) (p + 1) b 1 s1)"
    unfolding check_loop.simps R by (simp add: f check_bits xor_is_zero Let_def)
  have self: "NOT (x :: u8) AND x = 0" for x by (simp add: and.commute)
  define v where "v = check_verdict ds ?fs"
  have v: "v = 0 \<or> v = 1 \<or> v = 2" using check_verdict_values [of ds ?fs] by (simp add: v_def)
  note rest = rest [folded v_def]
  consider (same) "d = ?f" | (set) "d \<noteq> ?f" "NOT d AND ?f \<noteq> 0" | (clear) "d \<noteq> ?f" "NOT d AND ?f = 0" by blast
  then show ?case
  proof cases
    case same
    then have "NOT d AND ?f = 0" using self by simp
    then show ?thesis
      unfolding step read check_verdict_Cons v_def [symmetric] using rest [OF Cons.prems(7)] same v by auto
  next
    case set
    then show ?thesis unfolding step read check_verdict_Cons using fr by simp
  next
    case clear
    then show ?thesis
      unfolding step read check_verdict_Cons v_def [symmetric] using rest [of 1] v by auto
  qed
qed

lemma Check_verdict:
  assumes good: "rom_good ops cells fl s" and fit: "unat a + unat n + 127 \<le> dev_size fl s"
    and len: "length data = unat n"
  shows "\<exists>s'. HAL_Flash_Check ops fl a data n s =
       Some (check_verdict data (content_read (dev_mem cells fl s) (unat a) (unat n)), s') \<and>
     store_frame (rom_good ops cells) dev_size (dev_mem cells) fl 0 0 s s'"
proof -
  have "env_quiet s" using good by (simp add: rom_good_def)
  then have "HAL_Flash_Check ops fl a data n s = check_loop ops fl data a 128 (replicate 128 0) 0 s"
    using len by (simp add: HAL_Flash_Check_def quiet_malloc)
  moreover have "dev_size fl s < 2 ^ 32" using good.dsize_bound [of fl s] by simp
  ultimately show ?thesis
    using check_loop_sure [OF good, of a data 128 "replicate 128 0" 0] fit len by (auto split: if_splits)
qed

end
