(* ===== verification/Sim_Image.thy ===== *)
theory Sim_Image
  imports Ota_Reliable Sim_Chip Flash_Overwrite_Spec
begin

text \<open>
  A concrete update for instances of the theorems: a bootloader header at the start of the
  simulated device whose chain leads to one section of four bytes in the second slot, followed
  by verify data with a digest; and a toy digest engine.
\<close>

definition boot_bytes :: "u8 list" where
  "boot_bytes =
    [65, 87, 73, 72, 2, 0, 0, 0, 54, 192, 255, 255, 0, 0, 0, 0, 0, 16, 32, 0, 0, 16, 32, 0, 0, 0, 0, 0,
     1, 0, 0, 0, 0, 128, 0, 0, 0, 90, 255, 165, 0, 0, 0, 0, 0, 0, 0, 0, 0, 0, 0, 0, 0, 0, 0, 0, 0, 0, 0,
     0, 255, 255, 255, 255]"

definition app_bytes :: "u8 list" where
  "app_bytes =
    [65, 87, 73, 72, 2, 0, 0, 0, 52, 70, 251, 249, 4, 0, 0, 0, 0, 16, 32, 0, 0, 16, 32, 0, 4, 0, 0, 0,
     1, 0, 0, 0, 255, 255, 255, 255, 1, 90, 254, 165, 0, 0, 0, 0, 0, 0, 0, 0, 0, 0, 0, 0, 0, 0, 0, 0, 0,
     0, 0, 0, 255, 255, 255, 255, 1, 2, 3, 4]"

definition verify_bytes :: "u8 list" where
  "verify_bytes =
    [255, 170, 85, 0, 32, 0, 0, 0, 1, 0, 0, 0, 2, 0, 0, 0, 0, 0, 0, 0, 0, 0, 0, 0, 0, 0, 0, 0, 0, 0, 0,
     0, 0, 0, 0, 0, 0, 0, 0, 0, 0, 0, 0, 0]"

section \<open>The flash content\<close>

definition sim_flash :: content where
  "sim_flash = place 0 boot_bytes (place 0x100000 (app_bytes @ verify_bytes) blank)"

lemma sim_lengths [simp]: "length boot_bytes = 64" "length app_bytes = 68" "length verify_bytes = 44"
  by code_simp+

lemma sim_flash_reads:
  "content_read sim_flash 0 64 = boot_bytes"
  "content_read sim_flash 64 0 = []"
  "content_read sim_flash 0x100000 64 = take 64 app_bytes"
  "content_read sim_flash 0x100040 4 = drop 64 app_bytes"
  "content_read sim_flash 0x100000 68 = app_bytes"
  "content_read sim_flash 0x100044 44 = verify_bytes"
  by (simp_all add: sim_flash_def place_read_in place_read_out)

lemma sim_flash_erased: "erased sim_flash 0xFF000 0x1000"
  by (simp add: erased_def sim_flash_def place_def blank_def)

lemma boot_header:
  "section_header_of_bytes boot_bytes =
     \<lparr>magic_number = 0x48495741, version = 2, header_chksum = 0xc036, data_chksum = 0xFFFF, sh_data_size = 0,
      load_addr = 0x201000, entry = 0x201000, body_len = 0, attribute = 1, next_addr = 0x8000,
      sh_id = 0xA5FF5A00, sh_priv = [0, 0, 0, 0, 0, 0xFFFFFFFF]\<rparr>"
  by code_simp

lemma app_header:
  "section_header_of_bytes (take 64 app_bytes) =
     \<lparr>magic_number = 0x48495741, version = 2, header_chksum = 0x4634, data_chksum = 0xf9fb, sh_data_size = 4,
      load_addr = 0x201000, entry = 0x201000, body_len = 4, attribute = 1, next_addr = 0xFFFFFFFF,
      sh_id = 0xA5FE5A01, sh_priv = [0, 0, 0, 0, 0, 0xFFFFFFFF]\<rparr>"
  by code_simp

lemma sim_sums:
  "sum16 boot_bytes = 0xFFFF" "sum16 (take 64 app_bytes) = 0xFFFF" "0xf9fb + sum16 (drop 64 app_bytes) = 0xFFFF"
  by code_simp+

lemma sim_headers:
  "header_at sim_flash 0 = section_header_of_bytes boot_bytes"
  "header_at sim_flash 0x100000 = section_header_of_bytes (take 64 app_bytes)"
  by (simp_all add: header_at_def sim_flash_reads)

lemma sim_section_boot: "section_intact ct sim_flash 0 0x8000"
  by (simp add: section_intact_def sim_headers boot_header sim_flash_reads sim_sums next_section_def)

lemma sim_section_app: "section_intact ct sim_flash 0x100000 0xFFFFFFFF"
  using sim_sums(3)
  by (simp add: section_intact_def sim_headers app_header sim_flash_reads sim_sums next_section_def)

lemma sim_sec_addr: "IMG_SEC_ADDR sim_iop 1 0x8000 = 0x100000" "ucast (iop_flash sim_iop ! Suc 0) = (0 :: u32)"
  by (simp_all add: IMG_SEC_ADDR_def sim_iop_def)

lemma sim_sound:
  assumes "M 0 = sim_flash" "D 0 = 0x200000"
  shows "sound_chain ct sim_iop 1 M D 0 0"
proof (rule sound_more)
  show "sound_chain ct sim_iop 1 M D (ucast (iop_flash sim_iop ! unat 1)) (IMG_SEC_ADDR sim_iop 1 0x8000)"
    by (simp add: sim_sec_addr)
      (rule sound_last; simp add: assms sim_section_app sim_headers app_header)
qed (simp_all add: assms sim_section_boot sim_headers boot_header)

lemma sim_image_end:
  assumes "M 0 = sim_flash"
  shows "image_end sim_iop 1 M 0 0 0x100044"
proof -
  have nx: "next_section IMAGE_CHECK_OTA (header_at (M 0) 0) = 0x8000"
    "next_section IMAGE_CHECK_OTA (header_at (M 0) 0x100000) = IMAGE_INVALID_ADDR"
    by (simp_all add: assms sim_headers boot_header app_header next_section_def)
  have "image_end sim_iop 1 M 0 0x100000 (0x100000 + 64 + sh_data_size (header_at (M 0) 0x100000))"
    by (rule end_here [of M 0 "0x100000"]) (rule nx)
  then have "image_end sim_iop 1 M 0 0x100000 0x100044"
    by (simp add: assms sim_headers app_header)
  then show ?thesis
    using end_later [of M 0 0 sim_iop 1 "0x100044"] nx sim_sec_addr by simp
qed

section \<open>A toy digest engine\<close>

definition toy_digest :: "u8 list \<Rightarrow> u8 list" where
  "toy_digest xs = sum_list xs # replicate 31 0"

definition toy_crypto :: "u8 list crypto" where
  "toy_crypto = \<lparr>HAL_Hash_Init = (\<lambda>alg n. (0, [])), HAL_Hash_Append = (\<lambda>alg h xs. (0, h @ xs)),
     HAL_Hash_Finish = (\<lambda>alg h. (0, toy_digest h))\<rparr>"

lemma toy_runs: "engine_runs toy_crypto (\<lambda>alg h. h) (\<lambda>alg. toy_digest)"
  by (simp add: engine_runs_def engine_ok_def toy_crypto_def)

lemma toy_app: "take 4 (ov_data (verify_data_of_bytes verify_bytes)) = take 4 (toy_digest app_bytes)"
  by code_simp

lemma verify_fields:
  "ov_magic (verify_data_of_bytes verify_bytes) = OTA_VERIFY_MAGIC" "ov_type (verify_data_of_bytes verify_bytes) = 1"
  by code_simp+

section \<open>A healthy device and a finished push\<close>

lemma sim_prompt: "chip_prompt sim_ops"
  unfolding chip_prompt_def answers_def
  by (auto simp: sim_ops_def intro!: exI [of _ 0])

lemma sim_good [simp]: "rom_good sim_ops sim_cells 0 (sim_hal m)"
  by (simp add: rom_good_def sim_prompt env_quiet_def sim_hal_def [of m] flip: sim_rom_ok [of m])
    (simp flip: sim_hal_def)

definition pushed_ota :: "content hal ota" where
  "pushed_ota = (sim_ota 0x8000 sim_flash)\<lparr>op_get_size := 0x8070\<rparr>"

lemma pushed_simps [simp]:
  "o_fs pushed_ota = sim_hal sim_flash" "o_img pushed_ota = sim_img" "op_get_size pushed_ota = 0x8070"
  "ota_ready sim_build pushed_ota" "ota_get_update_seq pushed_ota = 1" "update_flash pushed_ota = 0"
  "ota_skip_size pushed_ota = 0x8000"
  by (simp_all add: pushed_ota_def update_flash_def sim_iop_def)

lemma sim_build_simps [simp]: "\<not> BOOTLOADER sim_build" "\<not> POLICY_COMPRESSION sim_build"
  by (simp_all add: sim_build_def)

lemma sim_verified [simp]:
  "verified_size pushed_ota = 68" "update_addr pushed_ota = 0x100000"
  by (simp_all add: verified_size_def update_addr_def sim_iop_def)

lemma sim_accepted: "image_accepted sim_flash pushed_ota (\<lambda>alg. toy_digest) 0x100044"
  using toy_app
  by (simp add: image_accepted_def sim_flash_reads verify_fields verify_of_code_def accepts_image_def
      digest_matches_def digest_size_def)

lemma sim_area [simp]:
  "ota_flash sim_iop = 0" "ota_addr sim_iop = 0xFF000" "ota_size sim_iop = 0x1000"
  "running_seq sim_iop = 0" "length (iop_flash sim_iop) = 2" "length (iop_addr sim_iop) = 2"
  by (simp_all add: sim_iop_def)

lemma sim_cfg_fits [simp]: "cfg_area_fits sim_iop 0x200000"
  by (simp add: cfg_area_fits_def)

lemma sim_flash_cfg_ready: "cfg_area_ready sim_flash 0xFF000 0x1000"
  unfolding cfg_area_ready_def by (intro disjI1 erased_header_invalid [OF sim_flash_erased]) simp

lemma sim_boot_area [simp]:
  "boot_area_ok (rom_good sim_ops sim_cells) dev_size (dev_mem sim_cells) sim_iop (sim_hal sim_flash)"
  "boot_area_ok (rom_good sim_ops sim_cells) dev_size (dev_mem sim_cells) sim_iop (sim_hal blank)"
  using sim_flash_cfg_ready blank_cfg_ready [of "0x1000" "0xFF000"] by (simp_all add: boot_area_ok_def)

lemma sim_boot_area_faulty [simp]:
  "boot_area_ok (rom_ok sim_ops sim_cells) dev_size (dev_mem sim_cells) sim_iop (sim_hal sim_flash)"
  "boot_area_ok (rom_ok sim_ops sim_cells) dev_size (dev_mem sim_cells) sim_iop (sim_hal blank)"
  using sim_boot_area by (simp_all add: boot_area_ok_def)

lemma sim_sound_chain:
  "sound_chain ct sim_iop 1 (\<lambda>f. dev_mem sim_cells f (sim_hal sim_flash)) (\<lambda>f. dev_size f (sim_hal sim_flash)) 0 0"
  by (rule sim_sound) simp_all

lemma sim_finite_chain: "finite_chain ct sim_iop 1 (\<lambda>f. dev_mem sim_cells f (sim_hal sim_flash)) 0 0"
  using sound_chain_finite [OF sim_sound_chain] dev_size_bound by blast

lemma sim_end: "image_end sim_iop 1 (\<lambda>f. dev_mem sim_cells f (sim_hal sim_flash)) 0 0 0x100044"
  by (rule sim_image_end) simp

lemma sim_verified_fits [simp]: "verified_fits 0x200000 pushed_ota"
  by (simp add: verified_fits_def)

lemma sim_default_skip [simp]: "0 \<le> sint k \<Longrightarrow> default_skip sim_build sim_iop (sim_ota k m) = sim_ota k m"
  by (simp add: default_skip_def)

lemma sim_iop_flash: "iop_flash sim_iop = [0, 0]"
  by (simp add: sim_iop_def)

text \<open>A section at the start of the second slot that names itself as the next one.\<close>

definition loop_flash :: content where
  "loop_flash = place 0x100000 boot_bytes blank"

lemma loop_header: "header_at loop_flash 0x100000 = section_header_of_bytes boot_bytes"
  by (simp add: header_at_def loop_flash_def place_read_in)

lemma loop_intact: "section_intact ct loop_flash 0x100000 0x8000"
  by (simp add: section_intact_def loop_header boot_header next_section_def sim_sums)
    (simp add: loop_flash_def place_read_in sim_sums)

text \<open>A network and file system without any source.\<close>

definition dead_net :: "content hal ota_net" where
  "dead_net = \<lparr>f_open = (\<lambda>u s. (1, s)), f_read = (\<lambda>n s. (1, [], s)), f_close = (\<lambda>s. s),
     HTTPC_get = (\<lambda>u n s. (1, [], s))\<rparr>"

lemma sim_init: "ota_init sim_build (sim_ota k m) = (OTA_STATUS_OK, sim_ota k m)"
  by (simp add: ota_init_def sim_build_def sim_ota_def)

lemma dead_run:
  "\<exists>r st'. ota_get_image (rom_flash_if sim_ops False) sim_build dead_net OTA_PROTOCOL_FILE
      (Some ''file://a'') (sim_ota 0 blank) = Some (r, st')"
proof -
  let ?F = "rom_flash_if sim_ops False" and ?st = "sim_ota 0 blank"
  let ?T = "file_transport ?F dead_net ''file://a''"
  obtain l where n: "notify OTA_UPGRADE_START 0 (Some 0) ?st = Some (?st\<lparr>cb_log := l\<rparr>)"
    using notify_Some by blast
  obtain s1 where E: "rom_flash_erase sim_ops 0 0x100000 0x10000 (sim_hal blank) = Some (0, s1)"
    "store_frame (rom_good sim_ops sim_cells) dev_size (dev_mem sim_cells) 0 0x100000 0x10000 (sim_hal blank) s1"
    using good.erase_sure [of sim_ops sim_cells 0 "sim_hal blank" "0x100000" "0x10000" False] by auto
  have "rom_good sim_ops sim_cells 0 s1" using E(2) by (simp add: store_frame_def)
  then have m: "hal_malloc k s1 = (Some (replicate k 0), s1)" for k
    by (simp add: rom_good_def quiet_malloc)
  define st1 where "st1 = ?st\<lparr>cb_log := l, o_fs := s1\<rparr>"
  have at: "at (iop_flash sim_iop) 1 = Some 0" "at (iop_addr sim_iop) 1 = Some 0x100000"
    by (simp_all add: at_def sim_iop_def)
  have size: "slot_size sim_build sim_iop = 0x10000"
    using sim_update(3) [of 0 blank] by (simp add: update_size_def)
  have "\<exists>st2. ota_update_file_init ?F dead_net ''file://a'' st1 = Some (OTA_STATUS_ERROR, st2) \<and>
      ota_iop st2 = Some sim_iop"
    by (simp add: ota_update_file_init_def st1_def sim_ota_def m dead_net_def ota_iop_def sim_img_def)
  then obtain st2 where i: "g_init ?T st1 = Some (OTA_STATUS_ERROR, st2)" "ota_iop st2 = Some sim_iop"
    by (auto simp: file_transport_def)
  have iop: "ota_iop ?st = Some sim_iop" by (simp add: ota_iop_def)
  have p: "ota_update_image_process ?F sim_build ?T 1 ?st = check_download ?F 1 OTA_STATUS_ERROR 0x10000 st2"
    using n E(1) i m
    by (simp add: ota_update_image_process_def iop at size on_fs_def flip: st1_def)
      (simp add: st1_def)
  have c: "check_download ?F 1 OTA_STATUS_ERROR 0x10000 st2 = Some (OTA_STATUS_ERROR, st2)"
    by (simp add: check_download_def)
  obtain q where q: "progress sim_build sim_iop st2 = Some q"
    by (simp add: progress_def udiv_def size)
  obtain l2 where n2: "notify OTA_UPGRADE_FAIL (op_get_size st2 - ota_skip_size st2) (Some q) st2 = Some (st2\<lparr>cb_log := l2\<rparr>)"
    using notify_Some by blast
  show ?thesis
    by (simp add: ota_get_image_def sim_init ota_update_image_def p c i(2) q n2)
qed

lemma sim_check:
  "\<exists>s'. image_check_sections (rom_flash_if sim_ops False) 1 sim_img (sim_hal sim_flash) = Some (IMAGE_VALID, s')"
  using good.check_all_sure [of IMAGE_CHECK_NORMAL sim_img 1 sim_cells "sim_hal sim_flash" sim_ops False]
  by (simp add: sim_sound_chain sim_iop_flash image_check_sections_def) blast

section \<open>A store area\<close>

definition sim_hdl :: fdcm_handle where
  "sim_hdl = \<lparr>fh_flash = 0, fh_addr = 0x100000, fh_size = 0x1000\<rparr>"

lemma sim_hdl_sel [simp]: "fh_flash sim_hdl = 0" "fh_addr sim_hdl = 0x100000" "fh_size sim_hdl = 0x1000"
  by (simp_all add: sim_hdl_def)

lemma sim_hdl_usable: "fdcm_usable sim_hdl 0x200000 2"
  by (simp add: fdcm_usable_def fdcm_area_def sim_hdl_def)

lemma sim_hdl_invalid: "header_invalid (fdcm_header_of_bytes (content_read blank 0x100000 8)) ds sz"
  by (rule erased_header_invalid [of _ _ 8]) simp_all

lemma sim_hdl_ready: "fdcm_ready blank 0x100000 0x1000 2"
  using sim_hdl_invalid by (simp add: fdcm_ready_def)

lemma sim_first_chunk:
  "\<exists>s. rom_good sim_ops sim_cells 0 s \<and> dev_size 0 s = 0x200000 \<and>
     fdcm_holds (dev_mem sim_cells 0 s) 0x100000 0x1000 (fdcm_bitmap_size 0x1000 2) 2 [[1, 2]]"
proof -
  have "\<exists>s'. rom_fdcm_write (rom_flash_if sim_ops False) (Some sim_hdl) (Some [1, 2]) 2 (sim_hal blank) = Some (ucast (2 :: u16), s') \<and>
     store_frame (rom_good sim_ops sim_cells) dev_size (dev_mem sim_cells) (fh_flash sim_hdl)
       (unat (fh_addr sim_hdl)) (unat (fh_size sim_hdl)) (sim_hal blank) s' \<and>
     fdcm_holds (dev_mem sim_cells (fh_flash sim_hdl) s') (unat (fh_addr sim_hdl)) (unat (fh_size sim_hdl))
       (fdcm_bitmap_size (fh_size sim_hdl) 2) 2 [[1, 2]]"
    by (rule good.fdcm_first_write_sure)
      (use sim_hdl_usable sim_hdl_invalid bitmap_size_nonzero [of 2 "0x1000"] in simp_all)
  then obtain s' where s': "store_frame (rom_good sim_ops sim_cells) dev_size (dev_mem sim_cells) 0 0x100000 0x1000 (sim_hal blank) s'"
    "fdcm_holds (dev_mem sim_cells 0 s') 0x100000 0x1000 (fdcm_bitmap_size 0x1000 2) 2 [[1, 2]]"
    by auto
  show ?thesis
    using s' store_frame_ok [OF s'(1), of 0] store_frame_dsize [OF s'(1), of 0] by (intro exI [of _ s']) simp
qed

text \<open>The same chip, but never ready again.\<close>

definition busy_ops :: "content chip_ops" where
  "busy_ops = sim_ops\<lparr>isBusy := (\<lambda>c. (1, c))\<rparr>"

lemma busy_sel [simp]:
  "drv_open busy_ops = (\<lambda>c. c)" "drv_close busy_ops = (\<lambda>c. c)" "writeEnable busy_ops = (\<lambda>c. c)"
  "pageProgram busy_ops = (\<lambda>m a bs c. (0, nor_program c (unat a) bs))" "isBusy busy_ops = (\<lambda>c. (1, c))"
  by (simp_all add: busy_ops_def sim_ops_def)

lemma put_sim:
  "putFlashDev 0 (the (getFlashDev 0 (sim_hal m))\<lparr>dev_chip := c\<rparr>) (sim_hal m) = sim_hal c"
  by (simp add: getFlashDev_sim putFlashDev_def) (simp add: sim_hal_def)

lemma sim_dev_sel:
  "getFlashDev 0 (sim_hal m) = Some (the (getFlashDev 0 (sim_hal m)))"
  "cfg_mSize (the (getFlashDev 0 (sim_hal m))) = 0x200000" "dev_chip (the (getFlashDev 0 (sim_hal m))) = m"
  "alive_cnt (sim_hal m) = 0"
  by (simp_all add: getFlashDev_sim) (simp add: sim_hal_def)

lemma sim_verdict: "check_verdict [0, 0xFF] (content_read blank 16 2) = 2"
  unfolding blank_read by code_simp

end
