(* ===== verification/Flash_Fault_Spec.thy ===== *)
theory Flash_Fault_Spec
  imports Flash_Reliable
begin

text \<open>
  Where the driver's status does not say what happened: a chunk of a write that times out is
  passed over, so the status is the one of the last chunk; and the range test adds address and
  size in 32 bits, so a range that wraps around passes it.
\<close>

section \<open>A chunk that is lost\<close>

lemma write_loop_shift:
  "write_loop ops w False data a i (k + ptr) left ret c n = write_loop ops w False (drop k data) a j ptr left ret c n"
proof (induction "unat left" arbitrary: a i j ptr left ret c n rule: less_induct)
  case less
  show ?case
  proof (cases "left > 0")
    case False
    then show ?thesis by (simp add: write_loop.simps)
  next
    case True
    have src: "(if False then take (unat pp) (drop (unat j) xs) else take (unat pp) (drop p xs))
        = take (unat pp) (drop p xs)" for pp j p and xs :: "u8 list" by simp
    have rest: "write_loop ops w False data (a + chunk_size left a) (i + chunk_size left a)
          (k + ptr + unat (chunk_size left a)) (left - chunk_size left a) r c n
        = write_loop ops w False (drop k data) (a + chunk_size left a) (j + chunk_size left a)
          (ptr + unat (chunk_size left a)) (left - chunk_size left a) r c n" for r c n
      using less [OF sub_chunk_less [OF True, of a], of "a + chunk_size left a" "i + chunk_size left a"
          "ptr + unat (chunk_size left a)" r c n "j + chunk_size left a"] by (simp add: add.assoc)
    show ?thesis
      unfolding write_loop_chunk [OF True refl refl refl] rest if_False src
      by (simp add: add.commute)
  qed
qed

lemma write_loop_ret:
  "left > 0 \<Longrightarrow> write_loop ops w flag data a i ptr left r c n = write_loop ops w flag data a i ptr left r' c n"
  unfolding write_loop_chunk [OF _ refl refl refl] ..

lemma put_assoc_twice: "put_assoc k v (put_assoc k w xs) = put_assoc k v xs"
  by (induction k w xs rule: put_assoc.induct) auto

lemma Write_skips_chunk:
  assumes dev: "getFlashDev fl s = Some d" and fit: "addr + sz \<le> cfg_mSize d" and len: "unat sz \<le> length data"
    and pp: "pp = chunk_size sz addr" "pp < sz"
    and rc: "rc = pageProgram ops (dev_wmode d) addr (take (unat pp) data)
               (writeEnable ops (drv_open ops (dev_chip d)))" "\<not> fst rc < 0"
    and wait: "HAL_Flash_WaitCompl ops 5000 (snd rc) (alive_cnt s) = Some (r, c2, n2)"
  shows "rom_HAL_Flash_Write ops False fl addr data sz s =
    rom_HAL_Flash_Write ops False fl (addr + pp) (drop (unat pp) data) (sz - pp)
      ((putFlashDev fl (d\<lparr>dev_chip := drv_close ops c2\<rparr>) s)\<lparr>alive_cnt := n2\<rparr>)"
    (is "_ = rom_HAL_Flash_Write ops False fl _ _ _ ?s1")
proof -
  have "sz > 0" using pp(2) word_zero_le [of pp] by (rule order_le_less_trans [rotated])
  then have sz: "sz > 0" "sz \<noteq> 0" by simp_all
  have rest: "sz - pp > 0" "sz - pp \<noteq> 0" using pp(2) by (simp_all add: word_gt_0)
  have dev1: "getFlashDev fl ?s1 = Some (d\<lparr>dev_chip := drv_close ops c2\<rparr>)"
    using dev by (simp add: getFlashDev_def putFlashDev_def map_of_put_assoc)
  have "unat (sz - pp) = unat sz - unat pp" using pp(2) by (intro unat_sub) simp
  then have len1: "\<not> length (drop (unat pp) data) < unat (sz - pp)" using len by simp
  have "write_loop ops (dev_wmode d) False data addr 0 0 sz HAL_ERROR (dev_chip d) (alive_cnt s) =
      write_loop ops (dev_wmode d) False data (addr + pp) (0 + pp) (0 + unat pp) (sz - pp) r (drv_close ops c2) n2"
    using rc(2) wait unfolding write_loop_chunk [OF sz(1) pp(1) refl refl] rc(1) by simp
  also have "\<dots> = write_loop ops (dev_wmode d) False data (addr + pp) pp (unat pp + 0) (sz - pp) HAL_ERROR
      (drv_close ops c2) n2"
    using write_loop_ret [OF rest(1)] by simp
  also have "\<dots> = write_loop ops (dev_wmode d) False (drop (unat pp) data) (addr + pp) 0 0 (sz - pp) HAL_ERROR
      (drv_close ops c2) n2"
    by (rule write_loop_shift)
  finally have loop: "write_loop ops (dev_wmode d) False data addr 0 0 sz HAL_ERROR (dev_chip d) (alive_cnt s) = \<dots>" .
  have range: "(cfg_mSize d < addr + sz) = False" using fit by simp
  have sum: "addr + pp + (sz - pp) = addr + sz" by simp
  have size1: "cfg_mSize (d\<lparr>dev_chip := drv_close ops c2\<rparr>) = cfg_mSize d" by simp
  show ?thesis
    unfolding rom_HAL_Flash_Write_def dev dev1 option.case sum size1 range using loop len len1 sz(2) rest(2)
    by (simp add: putFlashDev_def put_assoc_twice)
qed

text \<open>A chip that never becomes idle makes every wait time out.\<close>

lemma wait_loop_busy:
  assumes "\<forall>c. 0 < fst (isBusy ops c)"
  shows "\<exists>c' n'. wait_loop ops (of_nat (10 * Suc m)) w c n = Some (HAL_TIMEOUT, c', n')"
proof (induction m arbitrary: w c n)
  case 0
  show ?case using assms by (subst wait_loop.simps) (auto simp: algebra_simps)
next
  case (Suc m)
  have left: "(of_nat (10 * Suc (Suc m)) :: u32) - 10 = of_nat (10 * Suc m)"
    by (simp add: algebra_simps)
  show ?case
    using Suc.IH assms by (subst wait_loop.simps) (simp del: mult_Suc_right of_nat_mult add: left)
qed

lemma WaitCompl_busy:
  "\<forall>c. 0 < fst (isBusy ops c) \<Longrightarrow> \<exists>c' n'. HAL_Flash_WaitCompl ops 5000 c n = Some (HAL_TIMEOUT, c', n')"
  unfolding HAL_Flash_WaitCompl_def WaitCompl_budget by (rule wait_loop_busy)

section \<open>A range that wraps around\<close>

lemma prompt_read:
  assumes "chip_prompt ops"
  obtains bs c' where "chip_read ops m a n c = (0, bs, c')"
proof -
  have "fst (chip_read ops m a n c) = 0" using assms by (simp add: chip_prompt_def)
  then show thesis using that by (metis prod.collapse)
qed

lemma Read_wrapped_range:
  assumes "getFlashDev fl s = Some d" "chip_prompt ops" "n \<noteq> 0" "unat n \<le> length buf"
    and "2 ^ 32 \<le> unat a + unat n" "unat a + unat n - 2 ^ 32 \<le> unat (cfg_mSize d)"
  shows "\<exists>b s'. rom_HAL_Flash_Read ops fl a buf n s = Some (HAL_OK, b, s')"
proof -
  have "unat (a + n) = (unat a + unat n) mod 2 ^ 32" by (simp add: unat_word_ariths)
  also have "\<dots> = unat a + unat n - 2 ^ 32"
  proof -
    have "unat a + unat n < 4294967296 + 4294967296" using unat_u32_bound [of a] unat_u32_bound [of n] by linarith
    then have "unat a + unat n - 2 ^ 32 < 2 ^ 32" by simp
    then show ?thesis unfolding le_mod_geq [OF assms(5)] by (rule mod_less)
  qed
  finally have "\<not> cfg_mSize d < a + n" using assms(6) by (simp add: not_less word_le_nat_alt)
  moreover obtain bs1 c1 where "chip_read ops (dev_rmode d) a n (dev_chip d) = (0, bs1, c1)"
    by (rule prompt_read [OF assms(2)])
  moreover obtain bs2 c2 where "chip_read ops (dev_rmode d) a n (drv_open ops (dev_chip d)) = (0, bs2, c2)"
    by (rule prompt_read [OF assms(2)])
  ultimately show ?thesis
    using assms(1,3,4) by (simp add: rom_HAL_Flash_Read_def)
qed

end
