(* ===== verification/Sys_List.thy ===== *)
theory Sys_List
  imports XR_Prelude
begin

text \<open>
  The intrusive doubly linked circular lists of \<open>include/sys/list.h\<close>, over an explicit store
  of \<open>next\<close> and \<open>prev\<close> pointers, and their abstraction to lists of nodes.  The operations are
  total pointer updates, so they also say what happens to a list that is misused.
\<close>

section \<open>Operations\<close>

record 'a links =
  lnext :: "'a \<Rightarrow> 'a"
  lprev :: "'a \<Rightarrow> 'a"

definition INIT_LIST_HEAD :: "'a \<Rightarrow> 'a links \<Rightarrow> 'a links" where
  "INIT_LIST_HEAD h L = L\<lparr>lnext := (lnext L)(h := h), lprev := (lprev L)(h := h)\<rparr>"

text \<open>The four assignments of \<open>__list_add\<close>, in order.\<close>

definition list_add_between :: "'a \<Rightarrow> 'a \<Rightarrow> 'a \<Rightarrow> 'a links \<Rightarrow> 'a links" where
  "list_add_between new prev nxt L =
     (let L = L\<lparr>lprev := (lprev L)(nxt := new)\<rparr>;
          L = L\<lparr>lnext := (lnext L)(new := nxt)\<rparr>;
          L = L\<lparr>lprev := (lprev L)(new := prev)\<rparr>
      in L\<lparr>lnext := (lnext L)(prev := new)\<rparr>)"

definition list_add :: "'a \<Rightarrow> 'a \<Rightarrow> 'a links \<Rightarrow> 'a links" where
  "list_add new h L = list_add_between new h (lnext L h) L"

definition list_add_tail :: "'a \<Rightarrow> 'a \<Rightarrow> 'a links \<Rightarrow> 'a links" where
  "list_add_tail new h L = list_add_between new (lprev L h) h L"

definition list_unlink :: "'a \<Rightarrow> 'a \<Rightarrow> 'a links \<Rightarrow> 'a links" where
  "list_unlink prev nxt L =
     (let L = L\<lparr>lprev := (lprev L)(nxt := prev)\<rparr> in L\<lparr>lnext := (lnext L)(prev := nxt)\<rparr>)"

definition list_del :: "'a \<Rightarrow> 'a links \<Rightarrow> 'a links" where
  "list_del e L =
     (let L = list_unlink (lprev L e) (lnext L e) L;
          L = L\<lparr>lnext := (lnext L)(e := e)\<rparr>
      in L\<lparr>lprev := (lprev L)(e := e)\<rparr>)"

definition list_empty :: "'a \<Rightarrow> 'a links \<Rightarrow> bool" where
  "list_empty h L \<longleftrightarrow> lnext L h = h"

definition list_first_entry_or_null :: "'a \<Rightarrow> 'a links \<Rightarrow> 'a option" where
  "list_first_entry_or_null h L = (if list_empty h L then None else Some (lnext L h))"

section \<open>Abstraction\<close>

text \<open>
  A segment: following \<open>next\<close> from \<open>a\<close> passes through \<open>xs\<close> and arrives at \<open>b\<close>, and the \<open>prev\<close>
  pointers lead back.
\<close>

fun dll_seg :: "'a links \<Rightarrow> 'a \<Rightarrow> 'a list \<Rightarrow> 'a \<Rightarrow> bool" where
  "dll_seg L a [] b \<longleftrightarrow> lnext L a = b \<and> lprev L b = a"
| "dll_seg L a (x # xs) b \<longleftrightarrow> lnext L a = x \<and> lprev L x = a \<and> dll_seg L x xs b"

definition dlist :: "'a links \<Rightarrow> 'a \<Rightarrow> 'a list \<Rightarrow> bool" where
  "dlist L h xs \<longleftrightarrow> dll_seg L h xs h \<and> distinct (h # xs)"

lemma dll_seg_append: "dll_seg L a (xs @ y # ys) b \<longleftrightarrow> dll_seg L a xs y \<and> dll_seg L y ys b"
  by (induction xs arbitrary: a) auto

lemma dll_seg_cong:
  assumes "\<And>x. x \<in> set (a # xs) \<Longrightarrow> lnext L' x = lnext L x" "\<And>x. x \<in> set (xs @ [b]) \<Longrightarrow> lprev L' x = lprev L x"
  shows "dll_seg L' a xs b \<longleftrightarrow> dll_seg L a xs b"
  using assms by (induction xs arbitrary: a) auto

lemma dll_seg_last: "dll_seg L a xs b \<Longrightarrow> lprev L b = last (a # xs)"
  by (induction xs arbitrary: a) auto

lemma dll_seg_first: "dll_seg L a xs b \<Longrightarrow> lnext L a = hd (xs @ [b])"
  by (cases xs) auto

text \<open>A segment determines its nodes, as long as they are distinct from its end.\<close>

lemma dll_seg_unique:
  "dll_seg L a xs b \<Longrightarrow> dll_seg L a ys b \<Longrightarrow> b \<notin> set xs \<Longrightarrow> b \<notin> set ys \<Longrightarrow> xs = ys"
proof (induction xs arbitrary: a ys)
  case Nil
  then show ?case by (cases ys) auto
next
  case (Cons x xs)
  then show ?case by (cases ys) auto
qed

lemma dlist_unique: "dlist L h xs \<Longrightarrow> dlist L h ys \<Longrightarrow> xs = ys"
  by (auto simp: dlist_def intro: dll_seg_unique)

lemma dlist_nil [simp]: "dlist L h [] \<longleftrightarrow> lnext L h = h \<and> lprev L h = h"
  by (simp add: dlist_def)

lemma dlist_empty: "dlist L h xs \<Longrightarrow> list_empty h L \<longleftrightarrow> xs = []"
  by (cases xs) (auto simp: dlist_def list_empty_def)

lemma dlist_first: "dlist L h xs \<Longrightarrow> list_first_entry_or_null h L = (case xs of [] \<Rightarrow> None | x # _ \<Rightarrow> Some x)"
  by (cases xs) (auto simp: dlist_def list_empty_def list_first_entry_or_null_def)

text \<open>The nodes an operation touches.\<close>

lemma add_between_sel:
  "lnext (list_add_between new p n L) = (lnext L)(new := n, p := new)"
  "lprev (list_add_between new p n L) = (lprev L)(n := new, new := p)"
  by (simp_all add: list_add_between_def Let_def)

lemma del_sel:
  "lnext (list_del e L) = (lnext L)(lprev L e := lnext L e, e := e)"
  "lprev (list_del e L) = (lprev L)(lnext L e := lprev L e, e := e)"
  by (simp_all add: list_del_def list_unlink_def Let_def)

lemma init_sel:
  "lnext (INIT_LIST_HEAD h L) = (lnext L)(h := h)" "lprev (INIT_LIST_HEAD h L) = (lprev L)(h := h)"
  by (simp_all add: INIT_LIST_HEAD_def)

lemma dll_seg_insert:
  assumes seg: "dll_seg L a (xs @ ys) b" and new: "new \<notin> set (a # xs @ ys @ [b])"
    and dist: "distinct (a # xs @ ys)" "b \<notin> set (xs @ ys)"
  shows "dll_seg (list_add_between new (last (a # xs)) (hd (ys @ [b])) L) a (xs @ new # ys) b"
  using assms
proof (induction xs arbitrary: a)
  case Nil
  let ?L = "list_add_between new a (hd (ys @ [b])) L"
  have "dll_seg ?L new ys b"
  proof (cases ys)
    case (Cons y zs)
    then have "dll_seg ?L y zs b = dll_seg L y zs b"
      using Nil.prems by (intro dll_seg_cong) (auto simp: add_between_sel)
    then show ?thesis using Nil.prems Cons by (auto simp: add_between_sel)
  qed (use Nil.prems in \<open>auto simp: add_between_sel\<close>)
  then show ?case using Nil.prems by (auto simp: add_between_sel)
next
  case (Cons x xs)
  let ?n = "hd (ys @ [b])"
  let ?L = "list_add_between new (last (x # xs)) ?n L"
  have "dll_seg ?L x (xs @ new # ys) b"
    using Cons.IH [of x] Cons.prems by simp
  moreover have "lnext ?L a = x"
    using Cons.prems last_in_set [of "x # xs"] by (auto simp: add_between_sel simp del: last.simps)
  moreover have "lprev ?L x = a"
    using Cons.prems by (cases ys) (auto simp: add_between_sel)
  ultimately show ?case by simp
qed

lemma dlist_insert:
  assumes "dlist L h (xs @ ys)" "new \<notin> set (h # xs @ ys)"
  shows "dlist (list_add_between new (last (h # xs)) (hd (ys @ [h])) L) h (xs @ new # ys)"
proof -
  have "dll_seg (list_add_between new (last (h # xs)) (hd (ys @ [h])) L) h (xs @ new # ys) h"
    using assms by (intro dll_seg_insert) (auto simp: dlist_def)
  then show ?thesis using assms by (auto simp: dlist_def)
qed

lemma dlist_add:
  assumes "dlist L h xs" "new \<notin> set (h # xs)"
  shows "dlist (list_add new h L) h (new # xs)"
  using dlist_insert [of L h "[]" xs new] assms dll_seg_first [of L h xs h]
  by (simp add: list_add_def dlist_def)

lemma dlist_add_tail:
  assumes "dlist L h xs" "new \<notin> set (h # xs)"
  shows "dlist (list_add_tail new h L) h (xs @ [new])"
  using dlist_insert [of L h xs "[]" new] assms dll_seg_last [of L h xs h]
  by (simp add: list_add_tail_def dlist_def)

lemma dlist_del:
  assumes "dlist L h (xs @ e # ys)"
  shows "dlist (list_del e L) h (xs @ ys)"
proof -
  have seg: "dll_seg L h xs e" "dll_seg L e ys h" and dist: "distinct (h # xs @ e # ys)"
    using assms by (auto simp: dlist_def dll_seg_append)
  have p: "lprev L e = last (h # xs)" and n: "lnext L e = hd (ys @ [h])"
    using dll_seg_last [OF seg(1)] dll_seg_first [OF seg(2)] by simp_all
  have del: "dll_seg L a xs e \<Longrightarrow> lprev L e = last (a # xs) \<Longrightarrow> distinct (a # xs @ e # ys) \<Longrightarrow> h \<notin> set (xs @ e # ys) \<Longrightarrow>
      dll_seg (list_del e L) a (xs @ ys) h" for a
  proof (induction xs arbitrary: a)
    case Nil
    show ?case
    proof (cases ys)
      case (Cons y zs)
      have "dll_seg (list_del e L) y zs h = dll_seg L y zs h"
        using Nil.prems seg(2) n Cons by (intro dll_seg_cong) (auto simp: del_sel)
      then show ?thesis using Nil.prems seg(2) n Cons by (auto simp: del_sel)
    qed (use Nil.prems seg(2) n in \<open>auto simp: del_sel\<close>)
  next
    case (Cons x xs)
    have "dll_seg (list_del e L) x (xs @ ys) h"
      using Cons.IH [of x] Cons.prems by simp
    moreover have "lnext (list_del e L) a = x"
    proof -
      have "lprev L e = last (x # xs)" using Cons.prems(2) by simp
      then have "lprev L e \<in> set (x # xs)" using last_in_set [of "x # xs"] by simp
      then have "a \<noteq> lprev L e" using Cons.prems(3) by auto
      then show ?thesis using Cons.prems(1,3) by (simp add: del_sel)
    qed
    moreover have "lprev (list_del e L) x = a"
      using Cons.prems n by (cases ys) (auto simp: del_sel)
    ultimately show ?case by simp
  qed
  show ?thesis
    using del [OF seg(1) p] dist by (auto simp: dlist_def)
qed

text \<open>An unlinked node points to itself; a node that does so is in no other node's list.\<close>

definition unlinked :: "'a links \<Rightarrow> 'a \<Rightarrow> bool" where
  "unlinked L e \<longleftrightarrow> lnext L e = e \<and> lprev L e = e"

lemma unlinked_del [simp]: "unlinked (list_del e L) e"
  by (simp add: unlinked_def del_sel)

lemma unlinked_init [simp]: "unlinked (INIT_LIST_HEAD e L) e"
  by (simp add: unlinked_def init_sel)

lemma del_unlinked: "unlinked L e \<Longrightarrow> list_del e L = L"
  by (simp add: unlinked_def list_del_def list_unlink_def Let_def fun_upd_idem)

lemma seg_not_unlinked:
  assumes "dll_seg L a xs b" "e \<in> set xs" "distinct (a # xs)" "b \<notin> set xs"
  shows "lnext L e \<noteq> e"
proof -
  obtain us vs where xs: "xs = us @ e # vs" using assms(2) by (auto simp: in_set_conv_decomp)
  then have "lnext L e = hd (vs @ [b])" using assms(1) dll_seg_first [of L e vs b] by (simp add: dll_seg_append)
  then show ?thesis using assms(3,4) xs by (cases vs) auto
qed

lemma dlist_not_unlinked: "dlist L h xs \<Longrightarrow> e \<in> set xs \<Longrightarrow> \<not> unlinked L e \<and> \<not> list_empty e L"
  using seg_not_unlinked [of L h xs h e] by (auto simp: dlist_def unlinked_def list_empty_def)

text \<open>What happens elsewhere.\<close>

lemma unlinked_add_tail:
  "dlist L h xs \<Longrightarrow> e \<noteq> new \<Longrightarrow> e \<notin> set (h # xs) \<Longrightarrow> unlinked (list_add_tail new h L) e \<longleftrightarrow> unlinked L e"
  using dll_seg_last [of L h xs h] last_in_set [of "h # xs"]
  by (auto simp: unlinked_def list_add_tail_def add_between_sel dlist_def simp del: last.simps)

lemma unlinked_del_other:
  assumes "dlist L h (xs @ x # ys)" "e \<notin> set (h # xs @ x # ys)"
  shows "unlinked (list_del x L) e \<longleftrightarrow> unlinked L e"
proof -
  have seg: "dll_seg L h xs x" "dll_seg L x ys h"
    using assms(1) by (auto simp: dlist_def dll_seg_append)
  have "lprev L x \<in> set (h # xs)" "lnext L x \<in> set (ys @ [h])"
    using dll_seg_last [OF seg(1)] dll_seg_first [OF seg(2)] last_in_set [of "h # xs"] hd_in_set [of "ys @ [h]"]
    by (auto simp del: last.simps)
  then show ?thesis using assms(2) by (auto simp: unlinked_def del_sel)
qed

end
