(* ===== verification/Sys_Container.thy ===== *)
theory Sys_Container
  imports Sys_List
begin

text \<open>
  The sorted list of \<open>sys_ctrl/container.c\<close>: a fixed number of nodes in a pool, a list of
  nodes in use, a binary semaphore that counts pending items.  The node taken from the pool is
  linked into the list without being unlinked from the pool, and a popped node goes back to the
  list; the model keeps the pointers, so it shows what becomes of the items.
\<close>

section \<open>State\<close>

datatype sl_addr = SL_head | SL_pool | SL_node nat

record sorted_list =
  sl_links :: "sl_addr links"
  sl_arg :: "nat \<Rightarrow> u32"
  sl_sem :: bool
  sl_size :: u32

text \<open>
  Taking the pool buffer apart: the loop counts an \<open>int\<close> down.  Creation gets a flag for each
  resource the system may refuse; the last result counts how often \<open>impl\<close> has been freed.
\<close>

fun pool_fill :: "nat \<Rightarrow> sl_addr links \<Rightarrow> sl_addr links" where
  "pool_fill 0 L = L"
| "pool_fill (Suc i) L = pool_fill i (list_add_tail (SL_node i) SL_pool (INIT_LIST_HEAD (SL_node i) L))"

definition sorted_list_init ::
  "u32 \<Rightarrow> sl_addr links \<Rightarrow> bool \<Rightarrow> bool \<Rightarrow> bool \<Rightarrow> int \<times> sorted_list \<times> nat" where
  "sorted_list_init n L sem_ok lock_ok vec_ok =
     (let L1 = INIT_LIST_HEAD SL_pool (INIT_LIST_HEAD SL_head L);
          s = \<lparr>sl_links = L1, sl_arg = (\<lambda>_. 0), sl_sem = False, sl_size = n\<rparr>
      in if sem_ok \<and> lock_ok \<and> vec_ok then (0, s\<lparr>sl_links := pool_fill (nat (sint n)) L1\<rparr>, 0)
         else (- 1, s, 1))"

definition sorted_list_create ::
  "u32 \<Rightarrow> sl_addr links \<Rightarrow> bool \<Rightarrow> bool \<Rightarrow> bool \<Rightarrow> bool \<Rightarrow> sorted_list option \<times> nat" where
  "sorted_list_create n L impl_ok sem_ok lock_ok vec_ok =
     (if \<not> impl_ok then (None, 0) else
        let (r, s, frees) = sorted_list_init n L sem_ok lock_ok vec_ok
        in if r \<noteq> 0 then (None, frees + 1) else (Some s, frees))"

section \<open>Pushing\<close>

text \<open>
  The search for the place of \<open>arg\<close>; \<open>cmp\<close> is the comparison, \<open>None\<close> when it is undefined.
  The result is \<open>&tmp->node\<close> after the loop.  The loop does not end on a list that does not
  lead back to its head.
\<close>

definition node_arg :: "sorted_list \<Rightarrow> sl_addr \<Rightarrow> u32 option" where
  "node_arg s a = (case a of SL_node i \<Rightarrow> Some (sl_arg s i) | _ \<Rightarrow> None)"

partial_function (option) find_place ::
  "(u32 \<Rightarrow> u32 \<Rightarrow> int option) \<Rightarrow> u32 \<Rightarrow> sorted_list \<Rightarrow> sl_addr \<Rightarrow> sl_addr option" where
  "find_place cmp arg s tmp =
     (if tmp = SL_head then Some SL_head else do {
        old \<leftarrow> node_arg s tmp;
        c \<leftarrow> cmp arg old;
        if c \<ge> 0 then Some (lprev (sl_links s) tmp) else find_place cmp arg s (lnext (sl_links s) tmp)
      })"

definition push_node ::
  "(u32 \<Rightarrow> u32 \<Rightarrow> int option) \<Rightarrow> u32 \<Rightarrow> nat \<Rightarrow> sorted_list \<Rightarrow> (int \<times> sorted_list) option" where
  "push_node cmp arg i s =
     (let s = s\<lparr>sl_arg := (sl_arg s)(i := arg)\<rparr> in do {
        p \<leftarrow> find_place cmp arg s (lnext (sl_links s) SL_head);
        Some (0, s\<lparr>sl_links := list_add (SL_node i) p (sl_links s), sl_sem := True\<rparr>)
      })"

text \<open>
  \<open>others t\<close> is what the other threads do while the caller sleeps with \<open>t\<close> milliseconds left.
\<close>

function sorted_list_push ::
  "(u32 \<Rightarrow> sorted_list \<Rightarrow> sorted_list) \<Rightarrow> (u32 \<Rightarrow> u32 \<Rightarrow> int option) \<Rightarrow> u32 \<Rightarrow> u32 \<Rightarrow> sorted_list
     \<Rightarrow> (int \<times> sorted_list) option" where
  "sorted_list_push others cmp arg timeout s =
     (case list_first_entry_or_null SL_pool (sl_links s) of
        None \<Rightarrow> if timeout \<le> 3 then Some (- 1, others timeout s)
                else sorted_list_push others cmp arg (timeout - 3) (others timeout s)
      | Some (SL_node i) \<Rightarrow> push_node cmp arg i s
      | Some _ \<Rightarrow> None)"
  by pat_completeness auto
termination
  by (relation "measure (\<lambda>(others, cmp, arg, timeout, s). unat timeout)")
    (auto simp: unat_sub word_le_nat_alt not_le)

declare sorted_list_push.simps [simp del]

section \<open>Popping\<close>

definition sorted_list_pop ::
  "(sorted_list \<Rightarrow> sorted_list) \<Rightarrow> sorted_list \<Rightarrow> (int \<times> u32 option \<times> sorted_list) option" where
  "sorted_list_pop others s =
     (let s = (if sl_sem s then s else others s) in
      if \<not> sl_sem s then Some (- 1, None, s) else
        let s = s\<lparr>sl_sem := False\<rparr> in
        case list_first_entry_or_null SL_head (sl_links s) of
          None \<Rightarrow> Some (- 2, None, s)
        | Some a \<Rightarrow> do {
            v \<leftarrow> node_arg s a;
            Some (0, Some v, s\<lparr>sl_links := list_add_tail a SL_head (list_del a (sl_links s))\<rparr>)
          })"

section \<open>The pool\<close>

lemma pool_fill_pool:
  "dlist L SL_pool xs \<Longrightarrow> set xs \<subseteq> SL_node ` {n..} \<Longrightarrow>
   dlist (pool_fill n L) SL_pool (xs @ map SL_node (rev [0..<n]))"
proof (induction n L arbitrary: xs rule: pool_fill.induct)
  case (2 i L)
  have fresh: "SL_node i \<notin> set (SL_pool # xs)" using "2.prems"(2) by auto
  have "dlist (INIT_LIST_HEAD (SL_node i) L) SL_pool xs"
    using "2.prems"(1) fresh unfolding dlist_def by (subst dll_seg_cong) (auto simp: init_sel)
  then have "dlist (list_add_tail (SL_node i) SL_pool (INIT_LIST_HEAD (SL_node i) L)) SL_pool (xs @ [SL_node i])"
    using fresh by (rule dlist_add_tail)
  moreover have "set (xs @ [SL_node i]) \<subseteq> SL_node ` {i..}" using "2.prems"(2) by auto
  ultimately show ?case using "2.IH" by fastforce
qed simp

lemma pool_fill_head:
  "lnext L SL_head = SL_head \<Longrightarrow> lprev L SL_head = SL_head \<Longrightarrow> lprev L SL_pool \<noteq> SL_head \<Longrightarrow>
   lnext (pool_fill n L) SL_head = SL_head \<and> lprev (pool_fill n L) SL_head = SL_head"
  by (induction n L rule: pool_fill.induct) (simp_all add: list_add_tail_def add_between_sel init_sel)

section \<open>The mailbox\<close>

text \<open>
  What the pointers look like: \<open>fresh_box k\<close> before the first push, \<open>mail_box k\<close> afterwards, with
  \<open>k\<close> the first node of the pool.
\<close>

definition fresh_box :: "nat \<Rightarrow> sorted_list \<Rightarrow> bool" where
  "fresh_box k s \<longleftrightarrow> lnext (sl_links s) SL_pool = SL_node k \<and>
     lnext (sl_links s) SL_head = SL_head \<and> lprev (sl_links s) SL_head = SL_head \<and> \<not> sl_sem s"

definition mail_box :: "nat \<Rightarrow> sorted_list \<Rightarrow> bool" where
  "mail_box k s \<longleftrightarrow> lnext (sl_links s) SL_pool = SL_node k \<and>
     lnext (sl_links s) SL_head = SL_node k \<and> lprev (sl_links s) SL_head = SL_node k \<and>
     (lnext (sl_links s) (SL_node k), lprev (sl_links s) (SL_node k)) \<in>
       {(SL_head, SL_head), (SL_node k, SL_head), (SL_node k, SL_node k)}"

lemma create_fresh:
  assumes "0 < sint n" "sorted_list_create n L True True True True = (Some s, f)"
  shows "fresh_box (nat (sint n) - 1) s"
proof -
  obtain m where m: "nat (sint n) = Suc m" using assms(1) by (metis Suc_pred zero_less_nat_eq)
  let ?L1 = "INIT_LIST_HEAD SL_pool (INIT_LIST_HEAD SL_head L)"
  have s: "sl_links s = pool_fill (Suc m) ?L1" "\<not> sl_sem s"
    using assms(2) by (auto simp: sorted_list_create_def sorted_list_init_def Let_def m simp del: pool_fill.simps)
  have "dlist (pool_fill (Suc m) ?L1) SL_pool ([] @ map SL_node (rev [0..<Suc m]))"
    by (rule pool_fill_pool) (simp_all add: init_sel)
  then have "lnext (pool_fill (Suc m) ?L1) SL_pool = SL_node m"
    by (simp add: dlist_def del: pool_fill.simps)
  moreover have "lnext (pool_fill (Suc m) ?L1) SL_head = SL_head \<and> lprev (pool_fill (Suc m) ?L1) SL_head = SL_head"
    by (rule pool_fill_head) (simp_all add: init_sel)
  ultimately show ?thesis using m s by (simp add: fresh_box_def)
qed

text \<open>
  A push finds its own node at the head of the list, already holding the new argument, so what
  it compares is the argument with itself.
\<close>

lemma push_mails:
  assumes box: "fresh_box k s \<or> mail_box k s" and cmp: "cmp arg arg = Some c" "c \<ge> 0"
  obtains s' where "sorted_list_push others cmp arg t s = Some (0, s')" "mail_box k s'" "sl_sem s'"
    "sl_arg s' k = arg"
proof -
  let ?s = "s\<lparr>sl_arg := (sl_arg s)(k := arg)\<rparr>"
  have "sorted_list_push others cmp arg t s = push_node cmp arg k s"
    using box by (subst sorted_list_push.simps)
      (auto simp: list_first_entry_or_null_def list_empty_def fresh_box_def mail_box_def)
  moreover have "\<exists>s'. push_node cmp arg k s = Some (0, s') \<and> mail_box k s' \<and> sl_sem s' \<and> sl_arg s' k = arg"
    using box
  proof
    assume fresh: "fresh_box k s"
    then have "find_place cmp arg ?s (lnext (sl_links ?s) SL_head) = Some SL_head"
      by (subst find_place.simps) (simp add: fresh_box_def)
    then show ?thesis
      using fresh by (simp add: push_node_def Let_def fresh_box_def mail_box_def list_add_def add_between_sel)
  next
    assume mail: "mail_box k s"
    then have "find_place cmp arg ?s (lnext (sl_links ?s) SL_head) = Some (lprev (sl_links s) (SL_node k))"
      using cmp by (subst find_place.simps) (simp add: mail_box_def node_arg_def)
    then show ?thesis
      using mail by (auto simp: push_node_def Let_def mail_box_def list_add_def add_between_sel)
  qed
  ultimately show thesis using that by auto
qed

lemma pop_mails:
  assumes "mail_box k s" "sl_sem s"
  obtains s' where "sorted_list_pop others s = Some (0, Some (sl_arg s k), s')" "mail_box k s'" "\<not> sl_sem s'"
    "sl_arg s' = sl_arg s"
proof -
  have "list_first_entry_or_null SL_head (sl_links s) = Some (SL_node k)"
    using assms(1) by (simp add: mail_box_def list_first_entry_or_null_def list_empty_def)
  moreover have "mail_box k (s\<lparr>sl_sem := False,
      sl_links := list_add_tail (SL_node k) SL_head (list_del (SL_node k) (sl_links s))\<rparr>)"
    using assms(1) by (auto simp: mail_box_def list_add_tail_def add_between_sel del_sel)
  ultimately show thesis
    using that assms(2) by (simp add: sorted_list_pop_def Let_def node_arg_def)
qed

lemma pop_waits:
  "\<not> sl_sem s \<Longrightarrow> \<not> sl_sem (others s) \<Longrightarrow> sorted_list_pop others s = Some (- 1, None, others s)"
  by (simp add: sorted_list_pop_def Let_def)

text \<open>Items pushed one after the other, with nobody popping in between.\<close>

fun push_all ::
  "(u32 \<Rightarrow> u32 \<Rightarrow> int option) \<Rightarrow> u32 \<Rightarrow> u32 list \<Rightarrow> sorted_list \<Rightarrow> sorted_list option" where
  "push_all cmp t [] s = Some s"
| "push_all cmp t (x # xs) s = do {
     (r, s) \<leftarrow> sorted_list_push (\<lambda>_ s. s) cmp x t s;
     if r \<noteq> 0 then None else push_all cmp t xs s
   }"

lemma push_all_mails:
  assumes "fresh_box k s \<or> mail_box k s" "\<forall>x \<in> set xs. \<exists>c \<ge> 0. cmp x x = Some c" "xs \<noteq> []"
  obtains s' where "push_all cmp t xs s = Some s'" "mail_box k s'" "sl_sem s'" "sl_arg s' k = last xs"
proof -
  have "\<exists>s'. push_all cmp t xs s = Some s' \<and> mail_box k s' \<and> sl_sem s' \<and> sl_arg s' k = last xs"
    using assms
  proof (induction xs arbitrary: s)
    case (Cons x xs)
    obtain c where c: "cmp x x = Some c" "c \<ge> 0" using Cons.prems(2) by auto
    obtain s1 where s1: "sorted_list_push (\<lambda>_ s. s) cmp x t s = Some (0, s1)" "mail_box k s1" "sl_sem s1"
      "sl_arg s1 k = x" by (rule push_mails [where cmp = cmp and arg = x and c = c, OF Cons.prems(1) c])
    show ?case
    proof (cases "xs = []")
      case True
      then show ?thesis using s1 by simp
    next
      case False
      then show ?thesis using Cons.IH [of s1] Cons.prems(2) s1 by simp
    qed
  qed simp
  then show thesis using that by blast
qed

lemma push_all_then_pop:
  assumes "0 < sint n" "sorted_list_create n L True True True True = (Some s, f)"
    and "\<forall>x \<in> set xs. \<exists>c \<ge> 0. cmp x x = Some c" "xs \<noteq> []"
  shows "\<exists>s1 s2. push_all cmp t xs s = Some s1 \<and> sorted_list_pop (\<lambda>s. s) s1 = Some (0, Some (last xs), s2) \<and>
     sorted_list_pop (\<lambda>s. s) s2 = Some (- 1, None, s2)"
proof -
  have "fresh_box (nat (sint n) - 1) s" by (rule create_fresh [OF assms(1,2)])
  then obtain s1 where s1: "push_all cmp t xs s = Some s1" "mail_box (nat (sint n) - 1) s1" "sl_sem s1"
      "sl_arg s1 (nat (sint n) - 1) = last xs" using push_all_mails [where cmp = cmp and xs = xs, OF _ assms(3,4)] by blast
  obtain s2 where "sorted_list_pop (\<lambda>s. s) s1 = Some (0, Some (sl_arg s1 (nat (sint n) - 1)), s2)" "\<not> sl_sem s2"
    by (rule pop_mails [OF s1(2,3)])
  then show ?thesis using s1 pop_waits [of s2 "\<lambda>s. s"] by auto
qed

text \<open>A list created with room for nothing makes every push wait out its timeout.\<close>

lemma push_empty_pool:
  assumes "\<forall>t s. list_empty SL_pool (sl_links s) \<longrightarrow> list_empty SL_pool (sl_links (others t s))"
    and "list_empty SL_pool (sl_links s)"
  shows "\<exists>s'. sorted_list_push others cmp arg t s = Some (- 1, s')"
  using assms
proof (induction others cmp arg t s rule: sorted_list_push.induct)
  case (1 others cmp arg timeout s)
  have none: "list_first_entry_or_null SL_pool (sl_links s) = None"
    using "1.prems"(2) by (simp add: list_first_entry_or_null_def)
  show ?case
    using "1.IH" [OF none] "1.prems" none by (subst sorted_list_push.simps) auto
qed

end
