(* ===== verification/Sys_Event.thy ===== *)
theory Sys_Event
  imports Sys_Container
begin

text \<open>
  The event queues of \<open>sys_ctrl/event_queue.c\<close>: the priority queue over the sorted list, with
  the messages it allocates, and the plain queue over a queue of the operating system, which is
  a parameter.  Their common interface is the locale \<open>event_channel\<close>.
\<close>

section \<open>Messages\<close>

text \<open>
  \<open>struct event_msg\<close>; function pointers are numbers, \<open>None\<close> is NULL.  \<open>em_extra\<close> is what a longer
  message carries behind it; a queue copies \<open>msg_size\<close> bytes, the whole of it.
\<close>

record event_msg =
  em_execute :: "nat option"
  em_destruct :: "nat option"
  em_event :: u32
  em_data :: u32
  em_extra :: "u32 list"

section \<open>The priority queue\<close>

text \<open>The messages live in memory blocks; a freed block has no contents.\<close>

record prio_event_queue =
  pq_container :: sorted_list
  pq_mem :: "u32 \<Rightarrow> event_msg option"

definition complare_event_msg :: "(u32 \<Rightarrow> event_msg option) \<Rightarrow> u32 \<Rightarrow> u32 \<Rightarrow> int option" where
  "complare_event_msg mem newArg oldArg = do {
     newMsg \<leftarrow> mem newArg;
     oldMsg \<leftarrow> mem oldArg;
     Some (if em_event newMsg < em_event oldMsg then 1 else 0)
   }"

text \<open>\<open>block\<close> is what \<open>malloc\<close> returns.\<close>

definition prio_event_send ::
  "u32 option \<Rightarrow> (u32 \<Rightarrow> sorted_list \<Rightarrow> sorted_list) \<Rightarrow> event_msg \<Rightarrow> u32 \<Rightarrow> prio_event_queue
     \<Rightarrow> (int \<times> prio_event_queue) option" where
  "prio_event_send block others msg wait_ms q = (case block of None \<Rightarrow> Some (- 1, q)
     | Some a \<Rightarrow>
        let mem = (pq_mem q)(a := Some msg) in do {
          (ret, c) \<leftarrow> sorted_list_push others (complare_event_msg mem) a wait_ms (pq_container q);
          if ret \<noteq> 0 then Some (- 2, \<lparr>pq_container = c, pq_mem = mem(a := None)\<rparr>)
          else Some (0, \<lparr>pq_container = c, pq_mem = mem\<rparr>)
        })"

definition prio_event_recv ::
  "(sorted_list \<Rightarrow> sorted_list) \<Rightarrow> prio_event_queue \<Rightarrow> (int \<times> event_msg option \<times> prio_event_queue) option" where
  "prio_event_recv others q = do {
     (ret, a, c) \<leftarrow> sorted_list_pop others (pq_container q);
     if ret \<noteq> 0 then Some (- 2, None, q\<lparr>pq_container := c\<rparr>) else do {
       a \<leftarrow> a;
       msg \<leftarrow> pq_mem q a;
       Some (0, Some msg, \<lparr>pq_container = c, pq_mem = (pq_mem q)(a := None)\<rparr>)
     }
   }"

definition prio_event_queue_create ::
  "u32 \<Rightarrow> sl_addr links \<Rightarrow> bool \<Rightarrow> bool \<Rightarrow> bool \<Rightarrow> bool \<Rightarrow> bool \<Rightarrow> prio_event_queue option" where
  "prio_event_queue_create queue_len L mem_ok impl_ok sem_ok lock_ok vec_ok =
     (if \<not> mem_ok then None else
      map_option (\<lambda>c. \<lparr>pq_container = c, pq_mem = (\<lambda>_. None)\<rparr>)
        (fst (sorted_list_create queue_len L impl_ok sem_ok lock_ok vec_ok)))"

section \<open>The plain queue\<close>

text \<open>
  The operating system's queue: sending and receiving with a timeout, successful or not.  What
  the code relies on is that it is a bounded first-in first-out buffer: with room a send
  appends, with items a receive takes the first; otherwise (nobody else acting in time) they
  fail and change nothing.
\<close>

record 'q os_queue_ops =
  os_send :: "event_msg \<Rightarrow> u32 \<Rightarrow> 'q \<Rightarrow> bool \<times> 'q"
  os_recv :: "u32 \<Rightarrow> 'q \<Rightarrow> event_msg option \<times> 'q"

definition fifo_queue :: "'q os_queue_ops \<Rightarrow> nat \<Rightarrow> ('q \<Rightarrow> event_msg list) \<Rightarrow> bool" where
  "fifo_queue ops cap items \<longleftrightarrow>
     (\<forall>m t q. fst (os_send ops m t q) = (length (items q) < cap) \<and>
        items (snd (os_send ops m t q)) = (if length (items q) < cap then items q @ [m] else items q)) \<and>
     (\<forall>t q. fst (os_recv ops t q) = (case items q of [] \<Rightarrow> None | m # _ \<Rightarrow> Some m) \<and>
        items (snd (os_recv ops t q)) = tl (items q))"

definition normal_event_send :: "'q os_queue_ops \<Rightarrow> event_msg \<Rightarrow> u32 \<Rightarrow> 'q \<Rightarrow> int \<times> 'q" where
  "normal_event_send ops msg wait_ms q =
     (let (ok, q) = os_send ops msg wait_ms q in (if ok then 0 else - 1, q))"

definition normal_event_recv :: "'q os_queue_ops \<Rightarrow> u32 \<Rightarrow> 'q \<Rightarrow> int \<times> event_msg option \<times> 'q" where
  "normal_event_recv ops wait_ms q =
     (let (m, q) = os_recv ops wait_ms q in (if m = None then - 1 else 0, m, q))"

section \<open>What a client of a queue relies on\<close>

locale event_channel =
  fixes send :: "event_msg \<Rightarrow> u32 \<Rightarrow> 'q \<Rightarrow> int \<times> 'q"
    and recv :: "u32 \<Rightarrow> 'q \<Rightarrow> int \<times> event_msg option \<times> 'q"
    and items :: "'q \<Rightarrow> event_msg list"
    and cap :: nat
    and sound :: bool
  assumes send_law: "sound \<Longrightarrow> length (items q) < cap \<Longrightarrow>
      fst (send m t q) = 0 \<and> items (snd (send m t q)) = items q @ [m]"
    and send_full: "sound \<Longrightarrow> \<not> length (items q) < cap \<Longrightarrow>
      fst (send m t q) \<noteq> 0 \<and> items (snd (send m t q)) = items q"
    and recv_law: "sound \<Longrightarrow> items q = m # ms \<Longrightarrow>
      \<exists>q'. recv t q = (0, Some m, q') \<and> items q' = ms"
    and recv_empty: "sound \<Longrightarrow> items q = [] \<Longrightarrow> \<exists>r m q'. recv t q = (r, m, q') \<and> r \<noteq> 0 \<and> items q' = []"
begin

text \<open>Sending a batch.\<close>

lemma send_all:
  assumes "sound" "length (items q) + length ms \<le> cap"
  shows "items (fold (\<lambda>m q. snd (send m t q)) ms q) = items q @ ms"
  using assms(2)
proof (induction ms arbitrary: q)
  case (Cons m ms)
  have "items (snd (send m t q)) = items q @ [m]" using send_law [OF assms(1)] Cons.prems by simp
  then show ?case using Cons by simp
qed simp

end

interpretation normal: event_channel "normal_event_send ops" "normal_event_recv ops" items cap "fifo_queue ops cap items"
  for ops :: "'q os_queue_ops" and items :: "'q \<Rightarrow> event_msg list" and cap :: nat
proof (unfold_locales, goal_cases)
  case (1 q m t)
  then show ?case by (auto simp: fifo_queue_def normal_event_send_def split: prod.splits) (metis fst_conv snd_conv)+
next
  case (2 q m t)
  then show ?case by (auto simp: fifo_queue_def normal_event_send_def split: prod.splits) (metis fst_conv snd_conv)+
next
  case (3 q m ms t)
  then have "fst (os_recv ops t q) = Some m" "items (snd (os_recv ops t q)) = ms" by (simp_all add: fifo_queue_def)
  then show ?case by (cases "os_recv ops t q") (simp add: normal_event_recv_def)
next
  case (4 q t)
  then have "fst (os_recv ops t q) = None" "items (snd (os_recv ops t q)) = []" by (simp_all add: fifo_queue_def)
  then show ?case by (cases "os_recv ops t q") (simp add: normal_event_recv_def)
qed

section \<open>The priority queue delivers the last message only\<close>

fun prio_send_all :: "(u32 \<times> event_msg) list \<Rightarrow> u32 \<Rightarrow> prio_event_queue \<Rightarrow> prio_event_queue option" where
  "prio_send_all [] t q = Some q"
| "prio_send_all ((a, m) # ms) t q = do {
     (r, q) \<leftarrow> prio_event_send (Some a) (\<lambda>_ s. s) m t q;
     if r \<noteq> 0 then None else prio_send_all ms t q
   }"

lemma prio_send_box:
  assumes "fresh_box k (pq_container q) \<or> mail_box k (pq_container q)"
  obtains q' where "prio_event_send (Some a) others m t q = Some (0, q')" "mail_box k (pq_container q')"
    "sl_sem (pq_container q')" "sl_arg (pq_container q') k = a" "pq_mem q' = (pq_mem q)(a := Some m)"
proof -
  let ?mem = "(pq_mem q)(a := Some m)"
  have c: "complare_event_msg ?mem a a = Some 0" by (simp add: complare_event_msg_def)
  obtain s' where "sorted_list_push others (complare_event_msg ?mem) a t (pq_container q) = Some (0, s')"
    "mail_box k s'" "sl_sem s'" "sl_arg s' k = a"
    by (rule push_mails [where cmp = "complare_event_msg ?mem" and arg = a and c = 0, OF assms c]) simp
  then show thesis using that [of "\<lparr>pq_container = s', pq_mem = ?mem\<rparr>"] by (simp add: prio_event_send_def Let_def)
qed

lemma prio_send_all_box:
  assumes "fresh_box k (pq_container q) \<or> mail_box k (pq_container q)" "ms \<noteq> []" "distinct (map fst ms)"
  shows "\<exists>q'. prio_send_all ms t q = Some q' \<and> mail_box k (pq_container q') \<and> sl_sem (pq_container q') \<and>
     sl_arg (pq_container q') k = fst (last ms) \<and>
     pq_mem q' = pq_mem q ++ map_of ms"
  using assms
proof (induction ms arbitrary: q)
  case (Cons am ms)
  obtain a m where am: "am = (a, m)" by (cases am)
  obtain q1 where q1: "prio_event_send (Some a) (\<lambda>_ s. s) m t q = Some (0, q1)" "mail_box k (pq_container q1)"
    "sl_sem (pq_container q1)" "sl_arg (pq_container q1) k = a" "pq_mem q1 = (pq_mem q)(a := Some m)"
    by (rule prio_send_box [OF Cons.prems(1)])
  show ?case
  proof (cases "ms = []")
    case True
    then show ?thesis using q1 am by (simp add: map_add_def fun_eq_iff)
  next
    case False
    have "\<exists>q'. prio_send_all ms t q1 = Some q' \<and> mail_box k (pq_container q') \<and> sl_sem (pq_container q') \<and>
        sl_arg (pq_container q') k = fst (last ms) \<and>
        pq_mem q' = pq_mem q1 ++ map_of ms"
      by (rule Cons.IH) (use Cons.prems(3) am q1(2) False in simp_all)
    moreover have "pq_mem q1 ++ map_of ms = pq_mem q ++ map_of (am # ms)"
      using Cons.prems(3) am q1(5) map_of_eq_None_iff [of ms a] by (auto simp: map_add_def fun_eq_iff split: option.splits)
    ultimately show ?thesis using q1(1) am False by (auto simp del: map_of.simps)
  qed
qed simp

lemma prio_queue_keeps_last:
  assumes "0 < sint n" "prio_event_queue_create n L True True True True True = Some q"
    and "ms \<noteq> []" "distinct (map fst ms)"
  shows "\<exists>q1 q2. prio_send_all ms t q = Some q1 \<and>
     prio_event_recv (\<lambda>s. s) q1 = Some (0, Some (snd (last ms)), q2) \<and>
     prio_event_recv (\<lambda>s. s) q2 = Some (- 2, None, q2) \<and>
     (\<forall>(a, m) \<in> set (butlast ms). pq_mem q2 a = Some m)"
proof -
  have create: "sorted_list_create n L True True True True = (Some (pq_container q), 0)" "pq_mem q = (\<lambda>_. None)"
    using assms(2) by (auto simp: prio_event_queue_create_def sorted_list_create_def sorted_list_init_def Let_def)
  define k where "k = nat (sint n) - 1"
  have "fresh_box k (pq_container q)" unfolding k_def by (rule create_fresh [OF assms(1) create(1)])
  then obtain q1 where q1: "prio_send_all ms t q = Some q1" "mail_box k (pq_container q1)" "sl_sem (pq_container q1)"
    "sl_arg (pq_container q1) k = fst (last ms)" "pq_mem q1 = map_of ms"
    using prio_send_all_box [of k q ms t] assms(3,4) create(2) by auto
  have at: "map_of ms a = Some m" if "(a, m) \<in> set ms" for a m
    using that assms(4) by simp
  have last: "map_of ms (fst (last ms)) = Some (snd (last ms))"
    using at assms(3) by simp
  obtain c where c: "sorted_list_pop (\<lambda>s. s) (pq_container q1) = Some (0, Some (fst (last ms)), c)" "\<not> sl_sem c"
    using pop_mails [OF q1(2,3), of "\<lambda>s. s"] q1(4) by auto
  let ?q2 = "\<lparr>pq_container = c, pq_mem = (pq_mem q1)(fst (last ms) := None)\<rparr>"
  have "prio_event_recv (\<lambda>s. s) q1 = Some (0, Some (snd (last ms)), ?q2)"
    using c(1) q1(5) last by (simp add: prio_event_recv_def)
  moreover have "prio_event_recv (\<lambda>s. s) ?q2 = Some (- 2, None, ?q2)"
    using pop_waits [of c "\<lambda>s. s"] c(2) by (simp add: prio_event_recv_def)
  moreover have "pq_mem ?q2 a = Some m" if "(a, m) \<in> set (butlast ms)" for a m
  proof -
    have split: "ms = butlast ms @ [last ms]" using assms(3) by simp
    have "distinct (map fst (butlast ms) @ [fst (last ms)])" using assms(4) by (subst (asm) split) simp
    then have "fst (last ms) \<notin> fst ` set (butlast ms)" by simp
    then have "a \<noteq> fst (last ms)" using that by (metis fst_conv image_eqI)
    then show ?thesis using q1(5) at [OF in_set_butlastD [OF that]] by simp
  qed
  ultimately show ?thesis using q1(1) by blast
qed

end
