(* ===== verification/Sys_Publisher.thy ===== *)
theory Sys_Publisher
  imports Sys_List
begin

text \<open>
  Observers and publishers of \<open>sys_ctrl/observer.c\<close> and \<open>sys_ctrl/publisher.c\<close>: the list of
  attached observers, and the notification that triggers the matching ones in order and lets
  their callbacks attach and detach observers while it runs.  The recursive lock of the
  publisher makes each operation atomic for the other threads.
\<close>

section \<open>State\<close>

datatype observer_state =
  OBSERVER_ILDE | OBSERVER_ATTACHED | OBSERVER_ATTACHED_ONCE | OBSERVER_DETACHED | OBSERVER_WORKING

datatype publisher_state = PUBLISHER_IDLE | PUBLISHER_WORKING

datatype pub_addr = PUB_head | OBS nat

record observer_base =
  ob_event :: u32
  ob_state :: observer_state
  ob_arg :: u32

text \<open>\<open>pb_user\<close> is the state outside the publisher that the callbacks work on.\<close>

record 'u publisher_base =
  pb_links :: "pub_addr links"
  pb_obs :: "nat \<Rightarrow> observer_base"
  pb_state :: publisher_state
  pb_user :: 'u

abbreviation (input) st_of :: "'u publisher_base \<Rightarrow> nat \<Rightarrow> observer_state" where
  "st_of p x \<equiv> ob_state (pb_obs p x)"

definition set_state :: "nat \<Rightarrow> observer_state \<Rightarrow> 'u publisher_base \<Rightarrow> 'u publisher_base" where
  "set_state x st p = p\<lparr>pb_obs := (pb_obs p)(x := (pb_obs p x)\<lparr>ob_state := st\<rparr>)\<rparr>"

section \<open>Observers\<close>

text \<open>
  \<open>observer_create\<close> and its kind clear the memory and call the initialisation; the observer is
  then idle and linked to itself.  Initialising an observer leaves its state alone.
\<close>

definition observer_init :: "nat \<Rightarrow> u32 \<Rightarrow> u32 \<Rightarrow> 'u publisher_base \<Rightarrow> int \<times> 'u publisher_base" where
  "observer_init x event arg p =
     (0, p\<lparr>pb_obs := (pb_obs p)(x := (pb_obs p x)\<lparr>ob_event := event, ob_arg := arg\<rparr>),
           pb_links := INIT_LIST_HEAD (OBS x) (pb_links p)\<rparr>)"

definition observer_create :: "nat option \<Rightarrow> u32 \<Rightarrow> u32 \<Rightarrow> 'u publisher_base \<Rightarrow> nat option \<times> 'u publisher_base" where
  "observer_create mem event arg p = (case mem of None \<Rightarrow> (None, p) | Some x \<Rightarrow>
     (let p = p\<lparr>pb_obs := (pb_obs p)(x := \<lparr>ob_event = 0, ob_state = OBSERVER_ILDE, ob_arg = 0\<rparr>)\<rparr>
      in (Some x, snd (observer_init x event arg p))))"

text \<open>Whether the memory is given back.\<close>

definition observer_destroy :: "nat option \<Rightarrow> 'u publisher_base \<Rightarrow> int \<times> bool" where
  "observer_destroy base p = (case base of None \<Rightarrow> (- 1, False)
     | Some x \<Rightarrow> if st_of p x \<noteq> OBSERVER_ILDE then (- 1, False) else (0, True))"

section \<open>Attaching and detaching\<close>

definition pub_attach :: "nat \<Rightarrow> bool \<Rightarrow> 'u publisher_base \<Rightarrow> int \<times> 'u publisher_base" where
  "pub_attach x once p =
     (let attach_state = (if once then OBSERVER_ATTACHED_ONCE else OBSERVER_ATTACHED) in
      if st_of p x = OBSERVER_DETACHED then (0, set_state x attach_state p)
      else if list_empty (OBS x) (pb_links p)
      then (0, set_state x attach_state (p\<lparr>pb_links := list_add_tail (OBS x) PUB_head (pb_links p)\<rparr>))
      else (- 1, p))"

definition attach_once :: "nat \<Rightarrow> 'u publisher_base \<Rightarrow> int \<times> 'u publisher_base" where
  "attach_once x p = pub_attach x True p"

definition attach :: "nat \<Rightarrow> 'u publisher_base \<Rightarrow> int \<times> 'u publisher_base" where
  "attach x p = pub_attach x False p"

definition detach :: "nat \<Rightarrow> 'u publisher_base \<Rightarrow> int \<times> 'u publisher_base" where
  "detach x p = (0,
     if pb_state p = PUBLISHER_IDLE
     then set_state x OBSERVER_ILDE (p\<lparr>pb_links := list_del (OBS x) (pb_links p)\<rparr>)
     else set_state x OBSERVER_DETACHED p)"

section \<open>Notification\<close>

text \<open>
  \<open>trig\<close> runs the callback of an observer; it may change the user's state and call the operations
  above.  The comparison is the publisher's \<open>compare\<close>.  The measured times only go to a log.
\<close>

partial_function (option) notify_loop ::
  "(nat \<Rightarrow> u32 \<Rightarrow> u32 \<Rightarrow> 'u publisher_base \<Rightarrow> 'u publisher_base option) \<Rightarrow> (u32 \<Rightarrow> u32 \<Rightarrow> int) \<Rightarrow> u32 \<Rightarrow> u32
     \<Rightarrow> pub_addr \<Rightarrow> int \<Rightarrow> 'u publisher_base \<Rightarrow> (int \<times> 'u publisher_base) option" where
  "notify_loop trig cmp event arg itor cnt p =
     (case itor of PUB_head \<Rightarrow> Some (cnt, p) | OBS x \<Rightarrow>
        if cmp event (ob_event (pb_obs p x)) = 0 \<and>
           (st_of p x = OBSERVER_ATTACHED \<or> st_of p x = OBSERVER_ATTACHED_ONCE)
        then do {
          p \<leftarrow> trig x event arg p;
          let p = (if st_of p x = OBSERVER_ATTACHED_ONCE then set_state x OBSERVER_DETACHED p else p);
          notify_loop trig cmp event arg (lnext (pb_links p) itor) (cnt + 1) p
        }
        else notify_loop trig cmp event arg (lnext (pb_links p) itor) cnt p)"

partial_function (option) sweep_loop ::
  "pub_addr \<Rightarrow> pub_addr \<Rightarrow> 'u publisher_base \<Rightarrow> 'u publisher_base option" where
  "sweep_loop itor safe p =
     (case itor of PUB_head \<Rightarrow> Some p | OBS x \<Rightarrow>
        let p = (if st_of p x = OBSERVER_DETACHED
                 then set_state x OBSERVER_ILDE (p\<lparr>pb_links := list_del itor (pb_links p)\<rparr>) else p)
        in sweep_loop safe (lnext (pb_links p) safe) p)"

definition pub_notify ::
  "(nat \<Rightarrow> u32 \<Rightarrow> u32 \<Rightarrow> 'u publisher_base \<Rightarrow> 'u publisher_base option) \<Rightarrow> (u32 \<Rightarrow> u32 \<Rightarrow> int) \<Rightarrow> u32 \<Rightarrow> u32
     \<Rightarrow> 'u publisher_base \<Rightarrow> (int \<times> 'u publisher_base) option" where
  "pub_notify trig cmp event arg p = do {
     let p = p\<lparr>pb_state := PUBLISHER_WORKING\<rparr>;
     (cnt, p) \<leftarrow> notify_loop trig cmp event arg (lnext (pb_links p) PUB_head) 0 p;
     let first = lnext (pb_links p) PUB_head;
     p \<leftarrow> sweep_loop first (lnext (pb_links p) first) p;
     Some (cnt, p\<lparr>pb_state := PUBLISHER_IDLE\<rparr>)
   }"

text \<open>The comparison a factory starts with.\<close>

definition notice_all :: "u32 \<Rightarrow> u32 \<Rightarrow> int" where
  "notice_all newEvent obsEvent = 0"

definition publisher_init :: "'u \<Rightarrow> (nat \<Rightarrow> observer_base) \<Rightarrow> pub_addr links \<Rightarrow> 'u publisher_base" where
  "publisher_init u obs L = \<lparr>pb_links = INIT_LIST_HEAD PUB_head L, pb_obs = obs, pb_state = PUBLISHER_IDLE, pb_user = u\<rparr>"

end
