(* ===== verification/Sys_Ctrl.thy ===== *)
theory Sys_Ctrl
  imports Sys_Event Sys_Publisher
begin

text \<open>
  The looper of \<open>sys_ctrl/looper.c\<close> and the system event service of \<open>sys_ctrl/sys_ctrl.c\<close> in its
  default build (plain queue, no separate handler thread): events go through the queue to the
  looper thread, which runs the handler of the message, notifies the observers and destroys the
  message.
\<close>

section \<open>Events\<close>

abbreviation (input) ALL_SUBTYPE :: u16 where "ALL_SUBTYPE \<equiv> 0xFFFF"
abbreviation (input) CTRL_MSG_TYPE_HANDLER :: u16 where "CTRL_MSG_TYPE_HANDLER \<equiv> 7"

definition EVENT_TYPE :: "u32 \<Rightarrow> u16" where
  "EVENT_TYPE event = ucast (drop_bit 16 event)"

definition EVENT_SUBTYPE :: "u32 \<Rightarrow> u16" where
  "EVENT_SUBTYPE event = ucast (event AND 0xFFFF)"

definition MK_EVENT :: "u16 \<Rightarrow> u16 \<Rightarrow> u32" where
  "MK_EVENT type subtype = push_bit 16 (ucast type) OR (ucast subtype AND 0xFFFF)"

definition CMP_EVENT_TYPE :: "u32 \<Rightarrow> u32 \<Rightarrow> u32" where
  "CMP_EVENT_TYPE e1 e2 = (e1 XOR e2) AND 0xFFFF0000"

definition sys_compare :: "u32 \<Rightarrow> u32 \<Rightarrow> int" where
  "sys_compare newEvent obsEvent =
     (if CMP_EVENT_TYPE newEvent obsEvent = 0 \<and> (EVENT_SUBTYPE obsEvent = ALL_SUBTYPE \<or> newEvent = obsEvent)
      then 0 else - 1)"

section \<open>The looper\<close>

text \<open>
  \<open>call f m w\<close> runs the function with number \<open>f\<close> on the message; the \<open>extend\<close> function says with
  its first result whether it wants to be called again.
\<close>

partial_function (option) extend_loop ::
  "(event_msg \<Rightarrow> 'w \<Rightarrow> (bool \<times> event_msg \<times> 'w) option) \<Rightarrow> event_msg \<Rightarrow> 'w \<Rightarrow> (event_msg \<times> 'w) option" where
  "extend_loop ext m w = do {
     (more, m, w) \<leftarrow> ext m w;
     if more then extend_loop ext m w else Some (m, w)
   }"

definition run_opt ::
  "(nat \<Rightarrow> event_msg \<Rightarrow> 'w \<Rightarrow> (event_msg \<times> 'w) option) \<Rightarrow> nat option \<Rightarrow> event_msg \<Rightarrow> 'w \<Rightarrow> (event_msg \<times> 'w) option" where
  "run_opt call f m w = (case f of None \<Rightarrow> Some (m, w) | Some f \<Rightarrow> call f m w)"

text \<open>One round of \<open>main_looper\<close>.\<close>

definition looper_round ::
  "('w \<Rightarrow> int \<times> event_msg option \<times> 'w) \<Rightarrow> (nat \<Rightarrow> event_msg \<Rightarrow> 'w \<Rightarrow> (event_msg \<times> 'w) option)
     \<Rightarrow> (event_msg \<Rightarrow> 'w \<Rightarrow> (bool \<times> event_msg \<times> 'w) option) option \<Rightarrow> 'w \<Rightarrow> 'w option" where
  "looper_round recv call ext w =
     (let (ret, msg, w) = recv w in
      if ret \<noteq> 0 then Some w else do {
        m \<leftarrow> msg;
        (m, w) \<leftarrow> run_opt call (em_execute m) m w;
        (m, w) \<leftarrow> (case ext of None \<Rightarrow> Some (m, w) | Some e \<Rightarrow> extend_loop e m w);
        (m, w) \<leftarrow> run_opt call (em_destruct m) m w;
        Some w
      })"

section \<open>The service\<close>

text \<open>
  The globals, the semaphores by address, and the memory the message destructor has freed.
\<close>

record ('q, 'u) sys_world =
  g_sys_queue :: "'q option"
  g_sys_publisher :: "'u publisher_base option"
  sw_sems :: "u32 \<Rightarrow> nat option"
  sw_freed :: "u32 list"

text \<open>
  Creation: \<open>queue\<close> is the outcome of creating the queue, \<open>factory\<close> tells whether the factory came
  about (it is used without a test), \<open>pub\<close> is the publisher it makes.
\<close>

definition sys_ctrl_create ::
  "'q option \<Rightarrow> bool \<Rightarrow> 'u publisher_base option \<Rightarrow> ('q, 'u) sys_world \<Rightarrow> (int \<times> ('q, 'u) sys_world) option" where
  "sys_ctrl_create queue factory pub w =
     (let w = (if g_sys_queue w = None then w\<lparr>g_sys_queue := queue\<rparr> else w) in
      if g_sys_queue w = None then Some (- 1, w)
      else if g_sys_publisher w = None then
        (if \<not> factory then None
         else let w = w\<lparr>g_sys_publisher := pub\<rparr> in
              Some (if g_sys_publisher w = None then - 1 else 0, w))
      else Some (0, w))"

definition on_publisher ::
  "('u publisher_base \<Rightarrow> int \<times> 'u publisher_base) \<Rightarrow> ('q, 'u) sys_world \<Rightarrow> int \<times> ('q, 'u) sys_world" where
  "on_publisher f w = (case g_sys_publisher w of None \<Rightarrow> (- 1, w)
     | Some p \<Rightarrow> (let (r, p) = f p in (r, w\<lparr>g_sys_publisher := Some p\<rparr>)))"

definition sys_ctrl_touch :: "nat \<Rightarrow> ('q, 'u) sys_world \<Rightarrow> int \<times> ('q, 'u) sys_world" where
  "sys_ctrl_touch obs w = on_publisher (attach_once obs) w"

definition sys_ctrl_attach :: "nat \<Rightarrow> ('q, 'u) sys_world \<Rightarrow> int \<times> ('q, 'u) sys_world" where
  "sys_ctrl_attach obs w = on_publisher (attach obs) w"

definition sys_ctrl_detach :: "nat \<Rightarrow> ('q, 'u) sys_world \<Rightarrow> int \<times> ('q, 'u) sys_world" where
  "sys_ctrl_detach obs w = on_publisher (detach obs) w"

text \<open>The destructors the service itself uses; other numbers are the user's functions.\<close>

abbreviation (input) FN_freeMsgData :: nat where "FN_freeMsgData \<equiv> 0"
abbreviation (input) FN_sys_handler_finish :: nat where "FN_sys_handler_finish \<equiv> 1"

definition freeMsgData :: "event_msg \<Rightarrow> ('q, 'u) sys_world \<Rightarrow> (event_msg \<times> ('q, 'u) sys_world) option" where
  "freeMsgData m w = Some (m, w\<lparr>sw_freed := sw_freed w @ [em_data m]\<rparr>)"

text \<open>Releasing a semaphore of limit one; releasing one that does not exist is undefined.\<close>

definition sys_handler_finish :: "event_msg \<Rightarrow> ('q, 'u) sys_world \<Rightarrow> (event_msg \<times> ('q, 'u) sys_world) option" where
  "sys_handler_finish m w = (case em_extra m of [] \<Rightarrow> None | s # _ \<Rightarrow>
     (case sw_sems w s of None \<Rightarrow> None | Some n \<Rightarrow> Some (m, w\<lparr>sw_sems := (sw_sems w)(s := Some 1)\<rparr>)))"

definition sys_call ::
  "(nat \<Rightarrow> event_msg \<Rightarrow> ('q, 'u) sys_world \<Rightarrow> (event_msg \<times> ('q, 'u) sys_world) option) \<Rightarrow> nat \<Rightarrow> event_msg
     \<Rightarrow> ('q, 'u) sys_world \<Rightarrow> (event_msg \<times> ('q, 'u) sys_world) option" where
  "sys_call user f m w = (if f = FN_freeMsgData then freeMsgData m w
     else if f = FN_sys_handler_finish then sys_handler_finish m w else user f m w)"

definition queue_send ::
  "'q os_queue_ops \<Rightarrow> event_msg \<Rightarrow> u32 \<Rightarrow> ('q, 'u) sys_world \<Rightarrow> int \<times> ('q, 'u) sys_world" where
  "queue_send ops msg wait_ms w = (case g_sys_queue w of None \<Rightarrow> (- 1, w)
     | Some q \<Rightarrow> (let (r, q) = normal_event_send ops msg wait_ms q in (r, w\<lparr>g_sys_queue := Some q\<rparr>)))"

definition event_send ::
  "'q os_queue_ops \<Rightarrow> u16 \<Rightarrow> u16 \<Rightarrow> u32 \<Rightarrow> nat option \<Rightarrow> u32 \<Rightarrow> ('q, 'u) sys_world \<Rightarrow> int \<times> ('q, 'u) sys_world" where
  "event_send ops type subtype data destruct wait_ms w =
     queue_send ops \<lparr>em_execute = None, em_destruct = destruct, em_event = MK_EVENT type subtype,
       em_data = data, em_extra = [0]\<rparr> wait_ms w"

definition sys_event_send ::
  "'q os_queue_ops \<Rightarrow> u16 \<Rightarrow> u16 \<Rightarrow> u32 \<Rightarrow> u32 \<Rightarrow> ('q, 'u) sys_world \<Rightarrow> int \<times> ('q, 'u) sys_world" where
  "sys_event_send ops type subtype data wait_ms w = event_send ops type subtype data None wait_ms w"

definition sys_event_send_with_free ::
  "'q os_queue_ops \<Rightarrow> u16 \<Rightarrow> u16 \<Rightarrow> u32 \<Rightarrow> u32 \<Rightarrow> ('q, 'u) sys_world \<Rightarrow> int \<times> ('q, 'u) sys_world" where
  "sys_event_send_with_free ops type subtype data wait_ms w =
     event_send ops type subtype data (Some FN_freeMsgData) wait_ms w"

definition sys_event_send_with_destruct ::
  "'q os_queue_ops \<Rightarrow> u16 \<Rightarrow> u16 \<Rightarrow> u32 \<Rightarrow> nat option \<Rightarrow> u32 \<Rightarrow> ('q, 'u) sys_world \<Rightarrow> int \<times> ('q, 'u) sys_world" where
  "sys_event_send_with_destruct ops type subtype data destruct wait_ms w =
     event_send ops type subtype data destruct wait_ms w"

definition sys_event_handler_send ::
  "'q os_queue_ops \<Rightarrow> u16 \<Rightarrow> u16 \<Rightarrow> u32 \<Rightarrow> nat option \<Rightarrow> u32 \<Rightarrow> ('q, 'u) sys_world \<Rightarrow> int \<times> ('q, 'u) sys_world" where
  "sys_event_handler_send ops type subtype data exec wait_ms w =
     queue_send ops \<lparr>em_execute = exec, em_destruct = None, em_event = MK_EVENT type subtype,
       em_data = data, em_extra = [0]\<rparr> wait_ms w"

text \<open>
  \<open>sem\<close> is the address of the semaphore on the caller's stack, \<open>others\<close> what the other threads do
  while the caller waits for ever; a wait that nobody ends has no result.
\<close>

definition sys_event_handler_send_wait_finish ::
  "'q os_queue_ops \<Rightarrow> u32 \<Rightarrow> (('q, 'u) sys_world \<Rightarrow> ('q, 'u) sys_world option) \<Rightarrow> u16 \<Rightarrow> u16 \<Rightarrow> u32 \<Rightarrow> nat option \<Rightarrow> u32
     \<Rightarrow> ('q, 'u) sys_world \<Rightarrow> (int \<times> ('q, 'u) sys_world) option" where
  "sys_event_handler_send_wait_finish ops sem others type subtype data exec wait_ms w =
     (if g_sys_queue w = None then Some (- 1, w) else
        let w = w\<lparr>sw_sems := (sw_sems w)(sem := Some 0)\<rparr>;
            (ret, w) = queue_send ops \<lparr>em_execute = exec, em_destruct = Some FN_sys_handler_finish,
              em_event = MK_EVENT type subtype, em_data = data, em_extra = [sem]\<rparr> wait_ms w
        in if ret \<noteq> 0 then Some (ret, w\<lparr>sw_sems := (sw_sems w)(sem := None)\<rparr>)
           else do {
             w \<leftarrow> others w;
             n \<leftarrow> sw_sems w sem;
             if n = 0 then None else Some (ret, w\<lparr>sw_sems := (sw_sems w)(sem := None)\<rparr>)
           })"

definition sys_handler_send ::
  "'q os_queue_ops \<Rightarrow> nat option \<Rightarrow> u32 \<Rightarrow> u32 \<Rightarrow> ('q, 'u) sys_world \<Rightarrow> int \<times> ('q, 'u) sys_world" where
  "sys_handler_send ops exec data wait_ms w =
     sys_event_handler_send ops CTRL_MSG_TYPE_HANDLER ALL_SUBTYPE data exec wait_ms w"

definition sys_handler_send_wait_finish ::
  "'q os_queue_ops \<Rightarrow> u32 \<Rightarrow> (('q, 'u) sys_world \<Rightarrow> ('q, 'u) sys_world option) \<Rightarrow> nat option \<Rightarrow> u32 \<Rightarrow> u32
     \<Rightarrow> ('q, 'u) sys_world \<Rightarrow> (int \<times> ('q, 'u) sys_world) option" where
  "sys_handler_send_wait_finish ops sem others exec data wait_ms w =
     sys_event_handler_send_wait_finish ops sem others CTRL_MSG_TYPE_HANDLER ALL_SUBTYPE data exec wait_ms w"

section \<open>The looper thread of the service\<close>

text \<open>\<open>publisher_main\<close> always answers NULL, so the extension runs once per message.\<close>

definition publisher_main ::
  "(nat \<Rightarrow> u32 \<Rightarrow> u32 \<Rightarrow> 'u publisher_base \<Rightarrow> 'u publisher_base option) \<Rightarrow> event_msg \<Rightarrow> ('q, 'u) sys_world
     \<Rightarrow> (bool \<times> event_msg \<times> ('q, 'u) sys_world) option" where
  "publisher_main trig m w = do {
     p \<leftarrow> g_sys_publisher w;
     (cnt, p) \<leftarrow> pub_notify trig sys_compare (em_event m) (em_data m) p;
     Some (False, m, w\<lparr>g_sys_publisher := Some p\<rparr>)
   }"

definition queue_recv ::
  "'q os_queue_ops \<Rightarrow> ('q, 'u) sys_world \<Rightarrow> int \<times> event_msg option \<times> ('q, 'u) sys_world" where
  "queue_recv ops w = (case g_sys_queue w of None \<Rightarrow> (- 1, None, w)
     | Some q \<Rightarrow> (let (r, m, q) = normal_event_recv ops 0xFFFFFFFF q in (r, m, w\<lparr>g_sys_queue := Some q\<rparr>)))"

definition sys_round ::
  "'q os_queue_ops \<Rightarrow> (nat \<Rightarrow> event_msg \<Rightarrow> ('q, 'u) sys_world \<Rightarrow> (event_msg \<times> ('q, 'u) sys_world) option)
     \<Rightarrow> (nat \<Rightarrow> u32 \<Rightarrow> u32 \<Rightarrow> 'u publisher_base \<Rightarrow> 'u publisher_base option) \<Rightarrow> ('q, 'u) sys_world \<Rightarrow> ('q, 'u) sys_world option" where
  "sys_round ops user trig w = looper_round (queue_recv ops) (sys_call user) (Some (publisher_main trig)) w"

fun sys_rounds ::
  "nat \<Rightarrow> 'q os_queue_ops \<Rightarrow> (nat \<Rightarrow> event_msg \<Rightarrow> ('q, 'u) sys_world \<Rightarrow> (event_msg \<times> ('q, 'u) sys_world) option)
     \<Rightarrow> (nat \<Rightarrow> u32 \<Rightarrow> u32 \<Rightarrow> 'u publisher_base \<Rightarrow> 'u publisher_base option) \<Rightarrow> ('q, 'u) sys_world \<Rightarrow> ('q, 'u) sys_world option" where
  "sys_rounds 0 ops user trig w = Some w"
| "sys_rounds (Suc n) ops user trig w = do { w \<leftarrow> sys_round ops user trig w; sys_rounds n ops user trig w }"

end
