(* ===== verification/Sys_Publisher_Spec.thy ===== *)
theory Sys_Publisher_Spec
  imports Sys_Publisher
begin

text \<open>
  The publisher's list of observers as a sequence: what attaching, detaching and notifying do to
  it, that a notification triggers every matching observer once and in order, and that it ends
  and restores the invariant whatever disciplined callbacks do.
\<close>

section \<open>The invariant\<close>

text \<open>
  \<open>pub_ok xs p\<close>: the list holds the observers \<open>xs\<close> in this order; they are attached, or marked for
  removal while a notification runs; all others are idle and unlinked.
\<close>

definition attached_state :: "observer_state \<Rightarrow> bool" where
  "attached_state st \<longleftrightarrow> st = OBSERVER_ATTACHED \<or> st = OBSERVER_ATTACHED_ONCE"

definition pub_ok :: "nat list \<Rightarrow> 'u publisher_base \<Rightarrow> bool" where
  "pub_ok xs p \<longleftrightarrow> dlist (pb_links p) PUB_head (map OBS xs) \<and>
     (\<forall>x. x \<notin> set xs \<longrightarrow> unlinked (pb_links p) (OBS x) \<and> st_of p x = OBSERVER_ILDE) \<and>
     (\<forall>x \<in> set xs. attached_state (st_of p x) \<or> pb_state p = PUBLISHER_WORKING \<and> st_of p x = OBSERVER_DETACHED)"

lemma set_state_sel [simp]:
  "pb_links (set_state x st p) = pb_links p" "pb_state (set_state x st p) = pb_state p"
  "pb_user (set_state x st p) = pb_user p" "st_of (set_state x st p) y = (if y = x then st else st_of p y)"
  "ob_event (pb_obs (set_state x st p) y) = ob_event (pb_obs p y)"
  by (auto simp: set_state_def)

lemma attached_state_simps [simp]:
  "attached_state OBSERVER_ATTACHED" "attached_state OBSERVER_ATTACHED_ONCE"
  "\<not> attached_state OBSERVER_DETACHED" "\<not> attached_state OBSERVER_ILDE" "\<not> attached_state OBSERVER_WORKING"
  by (simp_all add: attached_state_def)

lemma pub_ok_distinct: "pub_ok xs p \<Longrightarrow> distinct xs"
  by (auto simp: pub_ok_def dlist_def distinct_map)

lemma pub_ok_empty: "pub_ok xs p \<Longrightarrow> list_empty (OBS x) (pb_links p) \<longleftrightarrow> x \<notin> set xs"
  using dlist_not_unlinked [of "pb_links p" PUB_head "map OBS xs" "OBS x"]
  by (auto simp: pub_ok_def unlinked_def list_empty_def)

section \<open>Attaching and detaching\<close>

lemma attach_new:
  assumes "pub_ok xs p" "x \<notin> set xs"
  shows "fst (pub_attach x once p) = 0 \<and> pub_ok (xs @ [x]) (snd (pub_attach x once p)) \<and>
     snd (pub_attach x once p) = set_state x (if once then OBSERVER_ATTACHED_ONCE else OBSERVER_ATTACHED)
       (p\<lparr>pb_links := list_add_tail (OBS x) PUB_head (pb_links p)\<rparr>)"
proof -
  have d: "dlist (pb_links p) PUB_head (map OBS xs)" and st: "st_of p x = OBSERVER_ILDE"
    using assms by (auto simp: pub_ok_def)
  have run: "pub_attach x once p = (0, set_state x (if once then OBSERVER_ATTACHED_ONCE else OBSERVER_ATTACHED)
       (p\<lparr>pb_links := list_add_tail (OBS x) PUB_head (pb_links p)\<rparr>))"
    using st pub_ok_empty [OF assms(1), of x] assms(2) by (simp add: pub_attach_def Let_def)
  have "dlist (list_add_tail (OBS x) PUB_head (pb_links p)) PUB_head (map OBS (xs @ [x]))"
    using dlist_add_tail [OF d, of "OBS x"] assms(2) by auto
  moreover have "unlinked (list_add_tail (OBS x) PUB_head (pb_links p)) (OBS y)" if "y \<notin> set (xs @ [x])" for y
    using unlinked_add_tail [OF d, of "OBS y" "OBS x"] that assms(1) by (auto simp: pub_ok_def)
  ultimately show ?thesis
    using assms unfolding run by (auto simp: pub_ok_def)
qed

lemmas attach_new_ok = attach_new [THEN conjunct2, THEN conjunct1]
lemmas attach_new_eq = attach_new [THEN conjunct2, THEN conjunct2]

lemma attach_again:
  assumes "pub_ok xs p" "x \<in> set xs"
  shows "pub_attach x once p =
     (if st_of p x = OBSERVER_DETACHED
      then (0, set_state x (if once then OBSERVER_ATTACHED_ONCE else OBSERVER_ATTACHED) p) else (- 1, p))"
  using pub_ok_empty [OF assms(1), of x] assms(2) by (simp add: pub_attach_def Let_def)

lemma pub_ok_mark:
  assumes "pub_ok xs p" "x \<in> set xs"
    and "attached_state st \<or> pb_state p = PUBLISHER_WORKING \<and> st = OBSERVER_DETACHED"
  shows "pub_ok xs (set_state x st p)"
  using assms by (simp add: pub_ok_def)

lemma attach_ok:
  assumes "pub_ok xs p"
  shows "pub_ok (if x \<in> set xs then xs else xs @ [x]) (snd (pub_attach x once p))"
proof (cases "x \<in> set xs")
  case True
  then show ?thesis
    using assms pub_ok_mark [OF assms True] by (simp add: attach_again [OF assms True])
next
  case False
  moreover have "pub_ok (xs @ [x]) (snd (pub_attach x once p))" using attach_new [OF assms False, of once] by blast
  ultimately show ?thesis by simp
qed

lemma detach_idle:
  assumes "pub_ok xs p" "pb_state p = PUBLISHER_IDLE"
  shows "pub_ok (removeAll x xs) (snd (detach x p))"
proof (cases "x \<in> set xs")
  case True
  then obtain us vs where xs: "xs = us @ x # vs" "x \<notin> set us" using split_list_first [OF True] by blast
  have d: "dlist (pb_links p) PUB_head (map OBS us @ OBS x # map OBS vs)"
    using assms(1) xs by (simp add: pub_ok_def)
  have vs: "x \<notin> set vs" using pub_ok_distinct [OF assms(1)] xs by simp
  have "dlist (list_del (OBS x) (pb_links p)) PUB_head (map OBS (removeAll x xs))"
    using dlist_del [OF d] xs vs by (simp add: removeAll_id)
  moreover have "unlinked (list_del (OBS x) (pb_links p)) (OBS y)" if "y \<notin> set (removeAll x xs)" for y
  proof (cases "y = x")
    case False
    then have "OBS y \<notin> set (PUB_head # map OBS us @ OBS x # map OBS vs)" using that xs by auto
    then show ?thesis using unlinked_del_other [OF d] assms(1) that False by (simp add: pub_ok_def)
  qed simp
  moreover have "st_of p y = OBSERVER_ILDE" if "y \<notin> set xs" for y
    using that assms(1) by (simp add: pub_ok_def)
  moreover have "attached_state (st_of p y)" if "y \<in> set xs" for y
    using that assms by (auto simp: pub_ok_def)
  ultimately show ?thesis
    unfolding pub_ok_def detach_def using assms(2) by simp
next
  case False
  then have "list_del (OBS x) (pb_links p) = pb_links p"
    using assms(1) by (simp add: pub_ok_def del_unlinked)
  then show ?thesis using False assms by (auto simp: pub_ok_def detach_def)
qed

lemma detach_working:
  assumes "pub_ok xs p" "pb_state p = PUBLISHER_WORKING" "x \<in> set xs"
  shows "pub_ok xs (snd (detach x p))"
  using pub_ok_mark [OF assms(1,3)] assms(2) by (simp add: detach_def)

section \<open>The walk of a notification\<close>

text \<open>
  What a disciplined callback may do while the notification runs: change the user's state, attach
  observers from \<open>U\<close>, detach observers that are in the list.
\<close>

inductive pub_calls :: "nat set \<Rightarrow> 'u publisher_base \<Rightarrow> 'u publisher_base \<Rightarrow> bool" for U where
  no_call: "pub_calls U p p"
| user_call: "pub_calls U p q \<Longrightarrow> pub_calls U p (q\<lparr>pb_user := u\<rparr>)"
| attach_call: "pub_calls U p q \<Longrightarrow> x \<in> U \<Longrightarrow> pub_calls U p (snd (pub_attach x once q))"
| detach_call: "pub_calls U p q \<Longrightarrow> \<not> list_empty (OBS x) (pb_links q) \<Longrightarrow> pub_calls U p (snd (detach x q))"

lemma attach_sel [simp]:
  "pb_state (snd (pub_attach x once p)) = pb_state p"
  by (simp add: pub_attach_def Let_def)

lemma detach_sel [simp]:
  "pb_state (snd (detach x p)) = pb_state p"
  by (simp add: detach_def)

lemma pub_ok_user [simp]: "pub_ok xs (p\<lparr>pb_user := u\<rparr>) = pub_ok xs p"
  by (simp add: pub_ok_def)

text \<open>While the notification runs the list only grows, at its end.\<close>

lemma calls_ok:
  assumes "pub_calls U p q" "pub_ok xs p" "pb_state p = PUBLISHER_WORKING"
  shows "\<exists>new. pub_ok (xs @ new) q \<and> set new \<subseteq> U \<and> pb_state q = PUBLISHER_WORKING"
  using assms
proof (induction rule: pub_calls.induct)
  case (no_call p)
  then show ?case by (intro exI [of _ "[]"]) simp
next
  case (user_call p q u)
  then show ?case by fastforce
next
  case (attach_call p q x once)
  then obtain new where new: "pub_ok (xs @ new) q" "set new \<subseteq> U" "pb_state q = PUBLISHER_WORKING" by blast
  have "pub_ok (xs @ (if x \<in> set (xs @ new) then new else new @ [x])) (snd (pub_attach x once q))"
    using attach_ok [OF new(1), of x once] by (auto split: if_splits)
  then show ?case using new attach_call.hyps(2)
    by (intro exI [of _ "if x \<in> set (xs @ new) then new else new @ [x]"]) auto
next
  case (detach_call p q x)
  then obtain new where new: "pub_ok (xs @ new) q" "set new \<subseteq> U" "pb_state q = PUBLISHER_WORKING" by blast
  have "x \<in> set (xs @ new)" using detach_call.hyps(2) pub_ok_empty [OF new(1)] by blast
  then have "pub_ok (xs @ new) (snd (detach x q))" using new by (intro detach_working)
  then show ?case using new by (intro exI [of _ new]) simp
qed

lemma pub_ok_next:
  assumes "pub_ok (xs @ x # ys) p"
  shows "lnext (pb_links p) (OBS x) = (case ys of [] \<Rightarrow> PUB_head | y # _ \<Rightarrow> OBS y)"
proof -
  have "dll_seg (pb_links p) (OBS x) (map OBS ys) PUB_head"
    using assms by (auto simp: pub_ok_def dlist_def dll_seg_append)
  then show ?thesis using dll_seg_first by (cases ys) fastforce+
qed

lemma pub_ok_start:
  assumes "pub_ok xs p"
  shows "lnext (pb_links p) PUB_head = (case xs of [] \<Rightarrow> PUB_head | y # _ \<Rightarrow> OBS y)"
  using assms dll_seg_first [of "pb_links p" PUB_head "map OBS xs" PUB_head]
  by (cases xs) (auto simp: pub_ok_def dlist_def)

definition disciplined ::
  "nat set \<Rightarrow> (nat \<Rightarrow> u32 \<Rightarrow> u32 \<Rightarrow> 'u publisher_base \<Rightarrow> 'u publisher_base option) \<Rightarrow> bool" where
  "disciplined U trig \<longleftrightarrow> (\<forall>x e a p. \<exists>q. trig x e a p = Some q \<and> pub_calls U p q)"

lemma notify_loop_returns:
  assumes disc: "disciplined U trig" and fin: "finite U"
    and ok: "pub_ok (xs @ ys) p" "set (xs @ ys) \<subseteq> U" "pb_state p = PUBLISHER_WORKING"
  shows "\<exists>c q zs. notify_loop trig cmp e a (case ys of [] \<Rightarrow> PUB_head | y # _ \<Rightarrow> OBS y) cnt p = Some (c, q) \<and>
     pub_ok zs q \<and> set zs \<subseteq> U \<and> pb_state q = PUBLISHER_WORKING \<and> cnt \<le> c \<and> c \<le> cnt + int (card U - length xs)"
  using ok
proof (induction "card U - length xs" arbitrary: xs ys cnt p rule: less_induct)
  case less
  show ?case
  proof (cases ys)
    case Nil
    then show ?thesis using less.prems by (subst notify_loop.simps) auto
  next
    case (Cons x zs)
    have room: "length xs < card U"
    proof -
      have "length (xs @ ys) \<le> card U"
        using less.prems(2) fin pub_ok_distinct [OF less.prems(1)] by (metis card_mono distinct_card)
      then show ?thesis using Cons by simp
    qed
    have step: "\<exists>c q zs'. notify_loop trig cmp e a (lnext (pb_links p') (OBS x)) d p' = Some (c, q) \<and>
        pub_ok zs' q \<and> set zs' \<subseteq> U \<and> pb_state q = PUBLISHER_WORKING \<and> d \<le> c \<and> c \<le> d + int (card U - length xs - 1)"
      if p': "pub_ok (xs @ x # ws) p'" "set (xs @ x # ws) \<subseteq> U" "pb_state p' = PUBLISHER_WORKING" for p' d ws
      using less.hyps [of "xs @ [x]" ws p' d] p' room by (simp add: pub_ok_next [OF p'(1)])
    show ?thesis
    proof (cases "cmp e (ob_event (pb_obs p x)) = 0 \<and> attached_state (st_of p x)")
      case True
      obtain q where q: "trig x e a p = Some q" "pub_calls U p q" using disc unfolding disciplined_def by blast
      obtain new where new: "pub_ok ((xs @ ys) @ new) q" "set new \<subseteq> U" "pb_state q = PUBLISHER_WORKING"
        using calls_ok [OF q(2) less.prems(1,3)] by blast
      let ?q = "if st_of q x = OBSERVER_ATTACHED_ONCE then set_state x OBSERVER_DETACHED q else q"
      have "pub_ok (xs @ x # (zs @ new)) ?q"
        using new pub_ok_mark [OF new(1), of x OBSERVER_DETACHED] Cons by auto
      moreover have "set (xs @ x # (zs @ new)) \<subseteq> U" "pb_state ?q = PUBLISHER_WORKING"
        using new(2,3) less.prems(2) Cons by auto
      ultimately obtain c r zs' where r: "notify_loop trig cmp e a (lnext (pb_links ?q) (OBS x)) (cnt + 1) ?q = Some (c, r)"
        "pub_ok zs' r" "set zs' \<subseteq> U" "pb_state r = PUBLISHER_WORKING" "cnt + 1 \<le> c"
        "c \<le> cnt + 1 + int (card U - length xs - 1)" using step by blast
      have "notify_loop trig cmp e a (OBS x) cnt p = Some (c, r)"
        using True q(1) r(1) by (subst notify_loop.simps) (simp add: attached_state_def Let_def)
      moreover have "cnt \<le> c" "c \<le> cnt + int (card U - length xs)" using r(5,6) room by linarith+
      ultimately show ?thesis using r(2-4) Cons by auto
    next
      case False
      obtain c r zs' where r: "notify_loop trig cmp e a (lnext (pb_links p) (OBS x)) cnt p = Some (c, r)"
        "pub_ok zs' r" "set zs' \<subseteq> U" "pb_state r = PUBLISHER_WORKING" "cnt \<le> c"
        "c \<le> cnt + int (card U - length xs - 1)" using step [of zs p cnt] less.prems Cons by auto
      have "notify_loop trig cmp e a (OBS x) cnt p = Some (c, r)"
        using False r(1) by (subst notify_loop.simps) (auto simp: attached_state_def)
      moreover have "c \<le> cnt + int (card U - length xs)" using r(6) by linarith
      ultimately show ?thesis using r(2-5) Cons by auto
    qed
  qed
qed

section \<open>Removing what was detached\<close>

definition start_of :: "nat list \<Rightarrow> pub_addr" where
  "start_of xs = (case xs of [] \<Rightarrow> PUB_head | x # _ \<Rightarrow> OBS x)"

lemma start_of_simps [simp]: "start_of [] = PUB_head" "start_of (x # xs) = OBS x"
  by (simp_all add: start_of_def)

lemmas pub_next = pub_ok_next [folded start_of_def]
lemmas pub_start = pub_ok_start [folded start_of_def]

lemma pub_ok_remove:
  assumes "pub_ok (us @ x # vs) p"
  shows "pub_ok (us @ vs) (set_state x OBSERVER_ILDE (p\<lparr>pb_links := list_del (OBS x) (pb_links p)\<rparr>))"
proof -
  have d: "dlist (pb_links p) PUB_head (map OBS us @ OBS x # map OBS vs)" and dist: "distinct (us @ x # vs)"
    using assms pub_ok_distinct [OF assms] by (simp_all add: pub_ok_def)
  have "unlinked (list_del (OBS x) (pb_links p)) (OBS y)" if "y \<notin> set (us @ vs)" for y
  proof (cases "y = x")
    case False
    then have "OBS y \<notin> set (PUB_head # map OBS us @ OBS x # map OBS vs)" using that by auto
    then show ?thesis using unlinked_del_other [OF d] assms that False by (simp add: pub_ok_def)
  qed simp
  moreover have "dlist (list_del (OBS x) (pb_links p)) PUB_head (map OBS (us @ vs))"
    using dlist_del [OF d] by simp
  ultimately show ?thesis
    using assms dist unfolding pub_ok_def by auto
qed

lemma sweep_loop_spec:
  assumes "pub_ok (us @ vs) p" "\<forall>x \<in> set us. attached_state (st_of p x)" "vs \<noteq> [] \<longrightarrow> safe = start_of (tl vs)"
  shows "\<exists>q. sweep_loop (start_of vs) safe p = Some q \<and>
     pub_ok (us @ filter (\<lambda>x. attached_state (st_of p x)) vs) q \<and>
     (\<forall>x \<in> set (us @ filter (\<lambda>x. attached_state (st_of p x)) vs). attached_state (st_of q x)) \<and>
     pb_state q = pb_state p \<and> pb_user q = pb_user p \<and>
     (\<forall>x. ob_event (pb_obs q x) = ob_event (pb_obs p x) \<and>
        st_of q x = (if x \<in> set vs \<and> st_of p x = OBSERVER_DETACHED then OBSERVER_ILDE else st_of p x))"
  using assms
proof (induction vs arbitrary: us safe p)
  case Nil
  then show ?case by (subst sweep_loop.simps) simp
next
  case (Cons x vs)
  have dist: "x \<notin> set us" "x \<notin> set vs" using pub_ok_distinct [OF Cons.prems(1)] by simp_all
  have run: "sweep_loop (start_of (x # vs)) safe p =
     (let p = (if st_of p x = OBSERVER_DETACHED
               then set_state x OBSERVER_ILDE (p\<lparr>pb_links := list_del (OBS x) (pb_links p)\<rparr>) else p)
      in sweep_loop (start_of vs) (lnext (pb_links p) (start_of vs)) p)"
    using Cons.prems(3) by (subst sweep_loop.simps) (simp add: Let_def)
  show ?case
  proof (cases "st_of p x = OBSERVER_DETACHED")
    case True
    let ?p = "set_state x OBSERVER_ILDE (p\<lparr>pb_links := list_del (OBS x) (pb_links p)\<rparr>)"
    have ok: "pub_ok (us @ vs) ?p" by (rule pub_ok_remove [OF Cons.prems(1)])
    have nxt: "vs \<noteq> [] \<longrightarrow> lnext (pb_links ?p) (start_of vs) = start_of (tl vs)"
      using pub_next [of us "hd vs" "tl vs" ?p] ok by (cases vs) auto
    have us: "\<forall>y \<in> set us. attached_state (st_of ?p y)" using Cons.prems(2) dist by auto
    have same: "filter (\<lambda>x. attached_state (st_of ?p x)) vs = filter (\<lambda>x. attached_state (st_of p x)) vs"
      using dist by (intro filter_cong) auto
    obtain q where q: "sweep_loop (start_of vs) (lnext (pb_links ?p) (start_of vs)) ?p = Some q"
      "pub_ok (us @ filter (\<lambda>x. attached_state (st_of p x)) vs) q"
      "\<forall>x \<in> set (us @ filter (\<lambda>x. attached_state (st_of p x)) vs). attached_state (st_of q x)"
      "pb_state q = pb_state ?p" "pb_user q = pb_user ?p"
      "\<forall>y. ob_event (pb_obs q y) = ob_event (pb_obs ?p y) \<and>
        st_of q y = (if y \<in> set vs \<and> st_of ?p y = OBSERVER_DETACHED then OBSERVER_ILDE else st_of ?p y)"
      using Cons.IH [OF ok us nxt, unfolded same] by blast
    have "st_of q y = (if y \<in> set (x # vs) \<and> st_of p y = OBSERVER_DETACHED then OBSERVER_ILDE else st_of p y)" for y
      using q(6) True dist(2) by (cases "y = x") simp_all
    moreover have "\<not> attached_state (st_of p x)" using True by simp
    ultimately show ?thesis
      unfolding run using True q by (simp add: Let_def)
  next
    case False
    then have att: "attached_state (st_of p x)" using Cons.prems(1) by (auto simp: pub_ok_def)
    have ok: "pub_ok ((us @ [x]) @ vs) p" using Cons.prems(1) by simp
    have nxt: "vs \<noteq> [] \<longrightarrow> lnext (pb_links p) (start_of vs) = start_of (tl vs)"
      using pub_next [of "us @ [x]" "hd vs" "tl vs" p] Cons.prems(1) by (cases vs) auto
    have us: "\<forall>y \<in> set (us @ [x]). attached_state (st_of p y)" using Cons.prems(2) att by auto
    show ?thesis
      unfolding run using Cons.IH [OF ok us nxt] False att by (auto simp: Let_def)
  qed
qed

section \<open>Notifications\<close>

lemma pub_ok_working: "pub_ok xs p \<Longrightarrow> pub_ok xs (p\<lparr>pb_state := PUBLISHER_WORKING\<rparr>)"
  by (auto simp: pub_ok_def)

lemma pub_ok_idle:
  "pub_ok xs p \<Longrightarrow> \<forall>x \<in> set xs. attached_state (st_of p x) \<Longrightarrow> pub_ok xs (p\<lparr>pb_state := PUBLISHER_IDLE\<rparr>)"
  by (auto simp: pub_ok_def)

text \<open>The part after the walk, for a list with marks.\<close>

lemma notify_tail:
  assumes "notify_loop trig cmp e a (lnext (pb_links p) PUB_head) 0 (p\<lparr>pb_state := PUBLISHER_WORKING\<rparr>) = Some (c, q)"
    and "pub_ok zs q"
  shows "\<exists>r. pub_notify trig cmp e a p = Some (c, r) \<and> pub_ok (filter (\<lambda>x. attached_state (st_of q x)) zs) r \<and>
     pb_state r = PUBLISHER_IDLE \<and> pb_user r = pb_user q \<and>
     (\<forall>x. ob_event (pb_obs r x) = ob_event (pb_obs q x) \<and>
        st_of r x = (if x \<in> set zs \<and> st_of q x = OBSERVER_DETACHED then OBSERVER_ILDE else st_of q x))"
proof -
  have start: "lnext (pb_links q) PUB_head = start_of zs" by (rule pub_start [OF assms(2)])
  have nxt: "zs \<noteq> [] \<longrightarrow> lnext (pb_links q) (start_of zs) = start_of (tl zs)"
    using pub_next [of "[]" "hd zs" "tl zs" q] assms(2) by (cases zs) auto
  obtain r where r: "sweep_loop (start_of zs) (lnext (pb_links q) (start_of zs)) q = Some r"
    "pub_ok (filter (\<lambda>x. attached_state (st_of q x)) zs) r"
    "\<forall>x \<in> set (filter (\<lambda>x. attached_state (st_of q x)) zs). attached_state (st_of r x)"
    "pb_user r = pb_user q"
    "\<forall>x. ob_event (pb_obs r x) = ob_event (pb_obs q x) \<and>
        st_of r x = (if x \<in> set zs \<and> st_of q x = OBSERVER_DETACHED then OBSERVER_ILDE else st_of q x)"
    using sweep_loop_spec [of "[]" zs q, OF _ _ nxt] assms(2) by auto
  have "pub_notify trig cmp e a p = Some (c, r\<lparr>pb_state := PUBLISHER_IDLE\<rparr>)"
    using assms(1) r(1) start by (simp add: pub_notify_def Let_def)
  then show ?thesis using pub_ok_idle [OF r(2,3)] r(4,5) by auto
qed

text \<open>Whatever disciplined callbacks do, a notification returns and restores the invariant.\<close>

lemma notify_returns:
  assumes "disciplined U trig" "finite U" "pub_ok xs p" "set xs \<subseteq> U"
  shows "\<exists>c q zs. pub_notify trig cmp e a p = Some (c, q) \<and> pub_ok zs q \<and> set zs \<subseteq> U \<and> pb_state q = PUBLISHER_IDLE \<and>
     0 \<le> c \<and> c \<le> int (card U)"
proof -
  let ?p = "p\<lparr>pb_state := PUBLISHER_WORKING\<rparr>"
  have ok: "pub_ok ([] @ xs) ?p" using pub_ok_working [OF assms(3)] by simp
  obtain c q zs where w: "notify_loop trig cmp e a (start_of xs) 0 ?p = Some (c, q)" "pub_ok zs q" "set zs \<subseteq> U"
    "0 \<le> c" "c \<le> int (card U)"
    using notify_loop_returns [OF assms(1,2) ok, of cmp e a 0] assms(4) by (auto simp: start_of_def)
  have "lnext (pb_links p) PUB_head = start_of xs" by (rule pub_start [OF assms(3)])
  then obtain r where "pub_notify trig cmp e a p = Some (c, r)" "pub_ok (filter (\<lambda>x. attached_state (st_of q x)) zs) r"
    "pb_state r = PUBLISHER_IDLE" using notify_tail [of trig cmp e a p c q zs] w by auto
  then show ?thesis using w by (intro exI [of _ c] exI [of _ r] exI [of _ "filter (\<lambda>x. attached_state (st_of q x)) zs"]) auto
qed

text \<open>
  Callbacks that leave the publisher alone: every matching observer is triggered once, in the
  order of attachment, and those attached for one time are gone afterwards.
\<close>

definition quiet_trig ::
  "(nat \<Rightarrow> u32 \<Rightarrow> u32 \<Rightarrow> 'u \<Rightarrow> 'u) \<Rightarrow> nat \<Rightarrow> u32 \<Rightarrow> u32 \<Rightarrow> 'u publisher_base \<Rightarrow> 'u publisher_base option" where
  "quiet_trig f x e a p = Some (p\<lparr>pb_user := f x e a (pb_user p)\<rparr>)"

definition matching :: "(u32 \<Rightarrow> u32 \<Rightarrow> int) \<Rightarrow> u32 \<Rightarrow> 'u publisher_base \<Rightarrow> nat list \<Rightarrow> nat list" where
  "matching cmp e p xs = filter (\<lambda>x. cmp e (ob_event (pb_obs p x)) = 0) xs"

lemma notify_loop_quiet:
  assumes "pub_ok (xs @ ys) p" "pb_state p = PUBLISHER_WORKING" "\<forall>x \<in> set ys. attached_state (st_of p x)"
  shows "\<exists>q. notify_loop (quiet_trig f) cmp e a (start_of ys) cnt p = Some (cnt + int (length (matching cmp e p ys)), q) \<and>
     pub_ok (xs @ ys) q \<and> pb_user q = fold (\<lambda>x. f x e a) (matching cmp e p ys) (pb_user p) \<and>
     (\<forall>x. ob_event (pb_obs q x) = ob_event (pb_obs p x) \<and>
        st_of q x = (if x \<in> set (matching cmp e p ys) \<and> st_of p x = OBSERVER_ATTACHED_ONCE
                     then OBSERVER_DETACHED else st_of p x))"
  using assms
proof (induction ys arbitrary: xs cnt p)
  case Nil
  then show ?case by (subst notify_loop.simps) (simp add: matching_def)
next
  case (Cons x ys)
  have dist: "x \<notin> set ys" using pub_ok_distinct [OF Cons.prems(1)] by simp
  have att: "attached_state (st_of p x)" using Cons.prems(3) by simp
  let ?m = "cmp e (ob_event (pb_obs p x)) = 0"
  let ?q = "if ?m then p\<lparr>pb_user := f x e a (pb_user p)\<rparr> else p"
  let ?p = "if ?m \<and> st_of p x = OBSERVER_ATTACHED_ONCE then set_state x OBSERVER_DETACHED ?q else ?q"
  have ok: "pub_ok ((xs @ [x]) @ ys) ?p"
    using Cons.prems(1,2) pub_ok_mark [of "xs @ x # ys" "p\<lparr>pb_user := f x e a (pb_user p)\<rparr>" x OBSERVER_DETACHED]
    by simp
  have nxt: "lnext (pb_links p) (OBS x) = start_of ys"
    by (rule pub_next [OF Cons.prems(1)])
  have run: "notify_loop (quiet_trig f) cmp e a (start_of (x # ys)) cnt p =
      notify_loop (quiet_trig f) cmp e a (start_of ys) (cnt + (if ?m then 1 else 0)) ?p"
    using att nxt by (subst notify_loop.simps) (simp add: quiet_trig_def Let_def attached_state_def)
  have sub: "matching cmp e ?p ys = matching cmp e p ys"
    by (simp add: matching_def)
  have st: "st_of ?p y = (if ?m \<and> y = x \<and> st_of p x = OBSERVER_ATTACHED_ONCE then OBSERVER_DETACHED else st_of p y)" for y
    by simp
  have w: "pb_state ?p = PUBLISHER_WORKING" "\<forall>y \<in> set ys. attached_state (st_of ?p y)"
    using Cons.prems(2,3) dist by auto
  obtain q where q: "notify_loop (quiet_trig f) cmp e a (start_of ys) (cnt + (if ?m then 1 else 0)) ?p =
      Some (cnt + (if ?m then 1 else 0) + int (length (matching cmp e p ys)), q)"
    "pub_ok ((xs @ [x]) @ ys) q" "pb_user q = fold (\<lambda>x. f x e a) (matching cmp e p ys) (pb_user ?p)"
    "\<forall>y. ob_event (pb_obs q y) = ob_event (pb_obs ?p y) \<and>
        st_of q y = (if y \<in> set (matching cmp e p ys) \<and> st_of ?p y = OBSERVER_ATTACHED_ONCE
                     then OBSERVER_DETACHED else st_of ?p y)"
    using Cons.IH [OF ok w, of "cnt + (if ?m then 1 else 0)", unfolded sub] by blast
  have "x \<notin> set (matching cmp e p ys)" using dist by (simp add: matching_def)
  then have "st_of q y = (if y \<in> set (matching cmp e p (x # ys)) \<and> st_of p y = OBSERVER_ATTACHED_ONCE
                     then OBSERVER_DETACHED else st_of p y)" for y
    using q(4) by (cases "y = x") (simp_all add: matching_def)
  moreover have "ob_event (pb_obs q y) = ob_event (pb_obs p y)" for y using q(4) by simp
  moreover have "pb_user q = fold (\<lambda>x. f x e a) (matching cmp e p (x # ys)) (pb_user p)"
    using q(3) by (simp add: matching_def)
  ultimately show ?case
    unfolding run q(1) using q(2) by (simp add: matching_def)
qed

lemma notify_quiet:
  assumes ok: "pub_ok xs p" and idle: "pb_state p = PUBLISHER_IDLE" and m: "m = matching cmp e p xs"
  shows "\<exists>q. pub_notify (quiet_trig f) cmp e a p = Some (int (length m), q) \<and>
     pub_ok (filter (\<lambda>x. \<not> (x \<in> set m \<and> st_of p x = OBSERVER_ATTACHED_ONCE)) xs) q \<and>
     pb_state q = PUBLISHER_IDLE \<and> pb_user q = fold (\<lambda>x. f x e a) m (pb_user p) \<and>
     (\<forall>x. st_of q x = (if x \<in> set m \<and> st_of p x = OBSERVER_ATTACHED_ONCE then OBSERVER_ILDE else st_of p x)) \<and>
     (\<forall>x. ob_event (pb_obs q x) = ob_event (pb_obs p x))"
proof -
  let ?p = "p\<lparr>pb_state := PUBLISHER_WORKING\<rparr>"
  have att: "\<forall>x \<in> set xs. attached_state (st_of p x)" using ok idle by (auto simp: pub_ok_def)
  have m': "matching cmp e ?p xs = m" using m by (simp add: matching_def)
  have ok': "pub_ok ([] @ xs) ?p" using pub_ok_working [OF ok] by simp
  obtain q where q: "notify_loop (quiet_trig f) cmp e a (start_of xs) 0 ?p = Some (int (length m), q)" "pub_ok xs q"
    "pb_user q = fold (\<lambda>x. f x e a) m (pb_user p)"
    "\<forall>x. st_of q x = (if x \<in> set m \<and> st_of p x = OBSERVER_ATTACHED_ONCE then OBSERVER_DETACHED else st_of p x)"
    "\<forall>x. ob_event (pb_obs q x) = ob_event (pb_obs p x)"
    using notify_loop_quiet [OF ok', of f cmp e a 0, unfolded m'] att by auto
  have "lnext (pb_links p) PUB_head = start_of xs" by (rule pub_start [OF ok])
  then obtain r where r: "pub_notify (quiet_trig f) cmp e a p = Some (int (length m), r)"
    "pub_ok (filter (\<lambda>x. attached_state (st_of q x)) xs) r" "pb_state r = PUBLISHER_IDLE" "pb_user r = pb_user q"
    "\<forall>x. st_of r x = (if x \<in> set xs \<and> st_of q x = OBSERVER_DETACHED then OBSERVER_ILDE else st_of q x)"
    "\<forall>x. ob_event (pb_obs r x) = ob_event (pb_obs q x)"
    using notify_tail [of "quiet_trig f" cmp e a p "int (length m)" q xs] q(1,2) by auto
  have "filter (\<lambda>x. attached_state (st_of q x)) xs = filter (\<lambda>x. \<not> (x \<in> set m \<and> st_of p x = OBSERVER_ATTACHED_ONCE)) xs"
    using att q(4) by (intro filter_cong) auto
  moreover have "st_of r x = (if x \<in> set m \<and> st_of p x = OBSERVER_ATTACHED_ONCE then OBSERVER_ILDE else st_of p x)" for x
  proof -
    have "st_of p x = OBSERVER_DETACHED \<Longrightarrow> x \<notin> set xs" using att by auto
    moreover have "x \<in> set m \<Longrightarrow> x \<in> set xs" by (simp add: m matching_def)
    ultimately show ?thesis using q(4) r(5) by auto
  qed
  ultimately show ?thesis using r q(3,5) by auto
qed

section \<open>A detach too many\<close>

text \<open>
  A callback that detaches an observer which is not attached marks it all the same; attaching it
  then only clears the mark, reports success, and links nothing.
\<close>

lemma ghost_attach:
  assumes "pub_ok xs p" "x \<notin> set xs" "pb_state p = PUBLISHER_WORKING"
  shows "fst (pub_attach x once (snd (detach x p))) = 0 \<and>
     pb_links (snd (pub_attach x once (snd (detach x p)))) = pb_links p \<and>
     attached_state (st_of (snd (pub_attach x once (snd (detach x p)))) x)"
  using assms(3) by (simp add: detach_def pub_attach_def Let_def)

lemma publisher_init_ok: "pub_ok [] (publisher_init u (\<lambda>x. \<lparr>ob_event = ev x, ob_state = OBSERVER_ILDE, ob_arg = 0\<rparr>) \<lparr>lnext = \<lambda>x. x, lprev = \<lambda>x. x\<rparr>)"
  by (simp add: pub_ok_def publisher_init_def init_sel unlinked_def)

text \<open>
  Detaching an observer that is not attached, from inside a callback, marks it all the same; a
  later attach then reports success and leaves the list as it is.
\<close>

lemma detached_stranger_is_never_linked:
  assumes "pb_state p = PUBLISHER_WORKING"
  shows "fst (attach x (snd (detach x p))) = 0"
    and "pb_links (snd (attach x (snd (detach x p)))) = pb_links p"
    and "ob_state (pb_obs (snd (attach x (snd (detach x p)))) x) = OBSERVER_ATTACHED"
  using assms by (simp_all add: attach_def detach_def pub_attach_def Let_def set_state_def)

end
