(* ===== verification/Sys_Ctrl_Spec.thy ===== *)
theory Sys_Ctrl_Spec
  imports Sys_Ctrl Sys_Publisher_Spec
begin

text \<open>
  The event service as a whole: the encoding of events, delivery of every event to every
  matching observer in the order of sending, and the handshake of a handler that is waited for.
\<close>

section \<open>Events\<close>

lemma event_type [simp]: "EVENT_TYPE (MK_EVENT t s) = t"
  by (rule bit_word_eqI) (auto simp: EVENT_TYPE_def MK_EVENT_def bit_simps)

lemma mask16: "(0xFFFF :: u32) = mask 16"
  by (simp add: mask_eq_exp_minus_1)

lemma event_subtype [simp]: "EVENT_SUBTYPE (MK_EVENT t s) = s"
  unfolding EVENT_SUBTYPE_def MK_EVENT_def mask16 by (rule bit_word_eqI) (auto simp: bit_simps)

lemma event_inject [simp]: "MK_EVENT t s = MK_EVENT t' s' \<longleftrightarrow> t = t' \<and> s = s'"
  by (metis event_type event_subtype)

lemma event_split: "MK_EVENT (EVENT_TYPE e) (EVENT_SUBTYPE e) = e"
  unfolding EVENT_TYPE_def EVENT_SUBTYPE_def MK_EVENT_def mask16
  by (rule bit_word_eqI) (auto simp: bit_simps)

lemma upper_mask: "(0xFFFF0000 :: u32) = push_bit 16 (mask 16)"
  by (simp add: mask_eq_exp_minus_1 push_bit_eq_mult)

lemma xor_zero_iff: "x XOR y = 0 \<longleftrightarrow> x = (y :: u16)"
  by (metis xor.assoc xor.left_neutral xor_self_eq xor.commute)

lemma cmp_event_type: "CMP_EVENT_TYPE e1 e2 = 0 \<longleftrightarrow> EVENT_TYPE e1 = EVENT_TYPE e2"
proof -
  have "CMP_EVENT_TYPE e1 e2 = push_bit 16 (ucast (EVENT_TYPE e1 XOR EVENT_TYPE e2))"
    unfolding CMP_EVENT_TYPE_def EVENT_TYPE_def upper_mask by (rule bit_word_eqI) (auto simp: bit_simps)
  moreover have "push_bit 16 (ucast (x :: u16) :: u32) = 0 \<longleftrightarrow> x = 0" for x
  proof -
    have "drop_bit 16 (push_bit 16 (ucast x :: u32)) = ucast x"
      by (rule bit_word_eqI) (auto simp: bit_simps dest: bit_imp_le_length)
    moreover have "(ucast x :: u32) = 0 \<longleftrightarrow> x = 0"
      by (simp add: unat_eq_zero [symmetric] del: unat_eq_zero)
    ultimately show ?thesis by (metis drop_bit_of_0 push_bit_of_0)
  qed
  ultimately show ?thesis by (simp add: xor_zero_iff)
qed

lemma sys_compare_iff:
  "sys_compare (MK_EVENT t s) (MK_EVENT t' s') = 0 \<longleftrightarrow> t = t' \<and> (s' = 0xFFFF \<or> s = s')"
  by (auto simp: sys_compare_def cmp_event_type)

section \<open>Delivery\<close>

definition plain_msg :: "u16 \<times> u16 \<times> u32 \<Rightarrow> event_msg" where
  "plain_msg e = (case e of (t, s, d) \<Rightarrow>
     \<lparr>em_execute = None, em_destruct = None, em_event = MK_EVENT t s, em_data = d, em_extra = [0]\<rparr>)"

text \<open>Sending a batch of events; the results and the state behind it.\<close>

fun send_events ::
  "'q os_queue_ops \<Rightarrow> u32 \<Rightarrow> (u16 \<times> u16 \<times> u32) list \<Rightarrow> ('q, 'u) sys_world \<Rightarrow> int list \<times> ('q, 'u) sys_world" where
  "send_events ops wait_ms [] w = ([], w)"
| "send_events ops wait_ms ((t, s, d) # es) w =
     (let (r, w) = sys_event_send ops t s d wait_ms w; (rs, w) = send_events ops wait_ms es w in (r # rs, w))"

lemma send_events_queue:
  assumes "fifo_queue ops cap items" "g_sys_queue w = Some q" "length (items q) + length es \<le> cap"
  shows "\<exists>q'. send_events ops wait_ms es w = (replicate (length es) 0, w\<lparr>g_sys_queue := Some q'\<rparr>) \<and>
     items q' = items q @ map plain_msg es"
  using assms(2,3)
proof (induction es arbitrary: w q)
  case Nil
  then show ?case by (intro exI [of _ q]) simp
next
  case (Cons e es)
  obtain t s d where e: "e = (t, s, d)" by (cases e)
  obtain r q1 where send: "normal_event_send ops (plain_msg e) wait_ms q = (r, q1)" by fastforce
  have "length (items q) < cap" using Cons.prems(2) by simp
  then have q1: "r = 0" "items q1 = items q @ [plain_msg e]"
    using normal.send_law [OF assms(1), of q "plain_msg e" wait_ms] send by simp_all
  obtain q' where q': "send_events ops wait_ms es (w\<lparr>g_sys_queue := Some q1\<rparr>) =
      (replicate (length es) 0, (w\<lparr>g_sys_queue := Some q1\<rparr>)\<lparr>g_sys_queue := Some q'\<rparr>)"
    "items q' = items q1 @ map plain_msg es"
    using Cons.IH [of "w\<lparr>g_sys_queue := Some q1\<rparr>" q1] Cons.prems(2) q1(2) by auto
  have "sys_event_send ops t s d wait_ms w = (0, w\<lparr>g_sys_queue := Some q1\<rparr>)"
    using send q1(1) Cons.prems(1) e
    by (simp add: sys_event_send_def event_send_def queue_send_def plain_msg_def)
  then show ?case using q' q1(2) e by (intro exI [of _ q']) simp
qed

text \<open>What the observers see of a batch: each event in turn, each matching observer in turn.\<close>

definition deliver ::
  "(nat \<Rightarrow> u32 \<Rightarrow> u32 \<Rightarrow> 'u \<Rightarrow> 'u) \<Rightarrow> (nat \<Rightarrow> u32) \<Rightarrow> nat list \<Rightarrow> u16 \<times> u16 \<times> u32 \<Rightarrow> 'u \<Rightarrow> 'u" where
  "deliver f ev xs e = (case e of (t, s, d) \<Rightarrow>
     fold (\<lambda>x. f x (MK_EVENT t s) d) (filter (\<lambda>x. sys_compare (MK_EVENT t s) (ev x) = 0) xs))"

text \<open>\<open>serving xs p\<close>: between notifications, with \<open>xs\<close> attached for good.\<close>

definition serving :: "nat list \<Rightarrow> 'u publisher_base \<Rightarrow> bool" where
  "serving xs p \<longleftrightarrow> pub_ok xs p \<and> pb_state p = PUBLISHER_IDLE \<and> (\<forall>x \<in> set xs. st_of p x = OBSERVER_ATTACHED)"

lemma notify_serving:
  assumes "serving xs p"
  obtains c p' where "pub_notify (quiet_trig f) cmp e a p = Some (c, p')" "serving xs p'"
    "\<forall>x. ob_event (pb_obs p' x) = ob_event (pb_obs p x)"
    "pb_user p' = fold (\<lambda>x. f x e a) (matching cmp e p xs) (pb_user p)"
proof -
  have p: "pub_ok xs p" "pb_state p = PUBLISHER_IDLE" "\<forall>x \<in> set xs. st_of p x = OBSERVER_ATTACHED"
    using assms by (simp_all add: serving_def)
  obtain p' where r: "pub_notify (quiet_trig f) cmp e a p = Some (int (length (matching cmp e p xs)), p')"
    "pub_ok (filter (\<lambda>x. \<not> (x \<in> set (matching cmp e p xs) \<and> st_of p x = OBSERVER_ATTACHED_ONCE)) xs) p'"
    "pb_state p' = PUBLISHER_IDLE" "pb_user p' = fold (\<lambda>x. f x e a) (matching cmp e p xs) (pb_user p)"
    "\<forall>x. st_of p' x = (if x \<in> set (matching cmp e p xs) \<and> st_of p x = OBSERVER_ATTACHED_ONCE
       then OBSERVER_ILDE else st_of p x)"
    "\<forall>x. ob_event (pb_obs p' x) = ob_event (pb_obs p x)"
    using notify_quiet [OF p(1,2) refl, of f cmp e a] by blast
  have "filter (\<lambda>x. \<not> (x \<in> set (matching cmp e p xs) \<and> st_of p x = OBSERVER_ATTACHED_ONCE)) xs = xs"
    using p(3) by (intro filter_True) simp
  then have "serving xs p'" using r p(3) by (simp add: serving_def)
  then show thesis using that r by blast
qed

lemma round_plain:
  assumes fifo: "fifo_queue ops cap items" and q: "g_sys_queue w = Some q" "items q = plain_msg e # ms"
    and pub: "g_sys_publisher w = Some p" "serving xs p"
  shows "\<exists>q' p'. sys_round ops user (quiet_trig f) w = Some (w\<lparr>g_sys_queue := Some q', g_sys_publisher := Some p'\<rparr>) \<and>
     items q' = ms \<and> serving xs p' \<and> (\<forall>x. ob_event (pb_obs p' x) = ob_event (pb_obs p x)) \<and>
     pb_user p' = deliver f (\<lambda>x. ob_event (pb_obs p x)) xs e (pb_user p)"
proof -
  obtain t s d where e: "e = (t, s, d)" by (cases e)
  obtain q' where recv: "normal_event_recv ops 0xFFFFFFFF q = (0, Some (plain_msg e), q')" "items q' = ms"
    using normal.recv_law [OF fifo q(2)] by blast
  obtain c p' where n: "pub_notify (quiet_trig f) sys_compare (MK_EVENT t s) d p = Some (c, p')" "serving xs p'"
    "\<forall>x. ob_event (pb_obs p' x) = ob_event (pb_obs p x)"
    "pb_user p' = fold (\<lambda>x. f x (MK_EVENT t s) d) (matching sys_compare (MK_EVENT t s) p xs) (pb_user p)"
    by (rule notify_serving [OF pub(2)])
  have "queue_recv ops w = (0, Some (plain_msg e), w\<lparr>g_sys_queue := Some q'\<rparr>)"
    using q(1) recv(1) by (simp add: queue_recv_def)
  moreover have "extend_loop (publisher_main (quiet_trig f)) (plain_msg e) (w\<lparr>g_sys_queue := Some q'\<rparr>) =
      Some (plain_msg e, w\<lparr>g_sys_queue := Some q', g_sys_publisher := Some p'\<rparr>)"
    using pub(1) n(1) e by (subst extend_loop.simps) (simp add: publisher_main_def plain_msg_def)
  ultimately have "sys_round ops user (quiet_trig f) w = Some (w\<lparr>g_sys_queue := Some q', g_sys_publisher := Some p'\<rparr>)"
    by (simp add: sys_round_def looper_round_def run_opt_def plain_msg_def e)
  moreover have "pb_user p' = deliver f (\<lambda>x. ob_event (pb_obs p x)) xs e (pb_user p)"
    using n(4) e by (simp add: deliver_def matching_def)
  ultimately show ?thesis using recv(2) n(2,3) by blast
qed

lemma rounds_plain:
  assumes fifo: "fifo_queue ops cap items" and q: "g_sys_queue w = Some q" "items q = map plain_msg es"
    and pub: "g_sys_publisher w = Some p" "serving xs p"
  shows "\<exists>w' q' p'. sys_rounds (length es) ops user (quiet_trig f) w = Some w' \<and>
     g_sys_queue w' = Some q' \<and> items q' = [] \<and> g_sys_publisher w' = Some p' \<and> serving xs p' \<and>
     pb_user p' = fold (deliver f (\<lambda>x. ob_event (pb_obs p x)) xs) es (pb_user p)"
  using q pub
proof (induction es arbitrary: w q p)
  case Nil
  then show ?case by simp
next
  case (Cons e es)
  obtain q1 p1 where r: "sys_round ops user (quiet_trig f) w = Some (w\<lparr>g_sys_queue := Some q1, g_sys_publisher := Some p1\<rparr>)"
    "items q1 = map plain_msg es" "serving xs p1" "\<forall>x. ob_event (pb_obs p1 x) = ob_event (pb_obs p x)"
    "pb_user p1 = deliver f (\<lambda>x. ob_event (pb_obs p x)) xs e (pb_user p)"
    using round_plain [OF fifo Cons.prems(1) _ Cons.prems(3,4), of e "map plain_msg es" user f] Cons.prems(2) by auto
  let ?w = "w\<lparr>g_sys_queue := Some q1, g_sys_publisher := Some p1\<rparr>"
  obtain w' q' p' where "sys_rounds (length es) ops user (quiet_trig f) ?w = Some w'" "g_sys_queue w' = Some q'"
    "items q' = []" "g_sys_publisher w' = Some p'" "serving xs p'"
    "pb_user p' = fold (deliver f (\<lambda>x. ob_event (pb_obs p x)) xs) es (pb_user p1)"
    using Cons.IH [of ?w q1 p1] r(2-4) by auto
  then show ?case using r(1,5) by auto
qed

lemma events_delivered:
  assumes fifo: "fifo_queue ops cap items" and q: "g_sys_queue w = Some q" "items q = []"
    and pub: "g_sys_publisher w = Some p" "serving xs p" and room: "length es \<le> cap"
  shows "\<exists>w1 w2 q' p'. send_events ops wait_ms es w = (replicate (length es) 0, w1) \<and>
     sys_rounds (length es) ops user (quiet_trig f) w1 = Some w2 \<and>
     g_sys_queue w2 = Some q' \<and> items q' = [] \<and> g_sys_publisher w2 = Some p' \<and> serving xs p' \<and>
     pb_user p' = fold (deliver f (\<lambda>x. ob_event (pb_obs p x)) xs) es (pb_user p)"
proof -
  obtain q1 where s: "send_events ops wait_ms es w = (replicate (length es) 0, w\<lparr>g_sys_queue := Some q1\<rparr>)"
    "items q1 = map plain_msg es" using send_events_queue [OF fifo q(1), of es wait_ms] q(2) room by auto
  have "\<exists>w' q' p'. sys_rounds (length es) ops user (quiet_trig f) (w\<lparr>g_sys_queue := Some q1\<rparr>) = Some w' \<and>
     g_sys_queue w' = Some q' \<and> items q' = [] \<and> g_sys_publisher w' = Some p' \<and> serving xs p' \<and>
     pb_user p' = fold (deliver f (\<lambda>x. ob_event (pb_obs p x)) xs) es (pb_user p)"
    by (rule rounds_plain [OF fifo _ s(2) _ pub(2)]) (simp_all add: pub(1))
  then show ?thesis using s(1) by blast
qed

section \<open>Waiting for a handler\<close>

text \<open>
  A handler that is waited for runs once, in the looper thread; then the observers are notified,
  the semaphore is released and the caller returns.
\<close>

lemma wait_finish_returns:
  assumes fifo: "fifo_queue ops cap items" "0 < cap" and q: "g_sys_queue w = Some q" "items q = []"
    and pub: "g_sys_publisher w = Some p" "serving xs p"
    and exec: "2 \<le> g" "\<And>m w. user g m w = Some (m, run m w)" "\<And>m w. sw_sems (run m w) = sw_sems w"
      "\<And>m w. g_sys_publisher (run m w) = g_sys_publisher w" "\<And>m w. g_sys_queue (run m w) = g_sys_queue w"
  shows "\<exists>w' q'. sys_event_handler_send_wait_finish ops sem (sys_round ops user (quiet_trig f)) t s d (Some g) wait_ms w = Some (0, w') \<and>
     sw_sems w' sem = None \<and> g_sys_queue w' = Some q' \<and> items q' = []"
proof -
  let ?m = "\<lparr>em_execute = Some g, em_destruct = Some FN_sys_handler_finish, em_event = MK_EVENT t s,
       em_data = d, em_extra = [sem]\<rparr>"
  let ?w0 = "w\<lparr>sw_sems := (sw_sems w)(sem := Some 0)\<rparr>"
  obtain r q1 where send: "normal_event_send ops ?m wait_ms q = (r, q1)" by fastforce
  then have q1: "r = 0" "items q1 = [?m]" using normal.send_law [OF fifo(1), of q ?m wait_ms] q(2) fifo(2) by simp_all
  let ?w1 = "?w0\<lparr>g_sys_queue := Some q1\<rparr>"
  obtain q2 where recv: "normal_event_recv ops 0xFFFFFFFF q1 = (0, Some ?m, q2)" "items q2 = []"
    using normal.recv_law [OF fifo(1) q1(2)] by blast
  let ?w2 = "run ?m (?w1\<lparr>g_sys_queue := Some q2\<rparr>)"
  obtain c p' where n: "pub_notify (quiet_trig f) sys_compare (MK_EVENT t s) d p = Some (c, p')"
    using notify_serving [OF pub(2)] by blast
  have main: "extend_loop (publisher_main (quiet_trig f)) ?m ?w2 = Some (?m, ?w2\<lparr>g_sys_publisher := Some p'\<rparr>)"
    using pub(1) n exec(4) by (subst extend_loop.simps) (simp add: publisher_main_def)
  let ?w3 = "?w2\<lparr>g_sys_publisher := Some p', sw_sems := (sw_sems ?w2)(sem := Some 1)\<rparr>"
  have "sys_round ops user (quiet_trig f) ?w1 = Some ?w3"
    using recv(1) main exec(1,2,3)
    by (simp add: sys_round_def looper_round_def queue_recv_def run_opt_def sys_call_def sys_handler_finish_def)
  then show ?thesis
    using send q1(1) q(1) recv(2) exec(5)
    by (simp add: sys_event_handler_send_wait_finish_def queue_send_def Let_def)
qed

end
