(* ===== verification/Sys_Sim.thy ===== *)
theory Sys_Sim
  imports Sys_Ctrl_Spec
begin

text \<open>
  Instances for the event service: a system queue that is a list, and a publisher with two
  observers whose callbacks write what they saw to a log.
\<close>

definition list_queue_ops :: "nat \<Rightarrow> event_msg list os_queue_ops" where
  "list_queue_ops cap = \<lparr>
     os_send = (\<lambda>m t q. if length q < cap then (True, q @ [m]) else (False, q)),
     os_recv = (\<lambda>t q. (case q of [] \<Rightarrow> (None, []) | m # ms \<Rightarrow> (Some m, ms)))\<rparr>"

lemma list_queue_fifo: "fifo_queue (list_queue_ops cap) cap (\<lambda>q. q)"
  by (auto simp: fifo_queue_def list_queue_ops_def split: list.splits)

definition log_trig :: "nat \<Rightarrow> u32 \<Rightarrow> u32 \<Rightarrow> (nat \<times> u32 \<times> u32) list \<Rightarrow> (nat \<times> u32 \<times> u32) list" where
  "log_trig x e a u = u @ [(x, e, a)]"

definition two_events :: "nat \<Rightarrow> u32" where
  "two_events x = (if x = 0 then MK_EVENT 1 0xFFFF else MK_EVENT 1 2)"

definition self_links :: "'a links" where
  "self_links = \<lparr>lnext = (\<lambda>x. x), lprev = (\<lambda>x. x)\<rparr>"

definition bare_pub :: "(nat \<times> u32 \<times> u32) list publisher_base" where
  "bare_pub = publisher_init [] (\<lambda>x. \<lparr>ob_event = two_events x, ob_state = OBSERVER_ILDE, ob_arg = 0\<rparr>) self_links"

definition two_pub :: "(nat \<times> u32 \<times> u32) list publisher_base" where
  "two_pub = snd (attach 1 (snd (attach 0 bare_pub)))"

lemma bare_ok: "pub_ok [] bare_pub"
  unfolding bare_pub_def self_links_def by (rule publisher_init_ok)

lemma one_ok: "pub_ok [0] (snd (attach 0 bare_pub))"
  using attach_new_ok [OF bare_ok, of 0 False] by (simp add: attach_def)

lemma two_ok: "pub_ok [0, 1] two_pub"
  using attach_new_ok [OF one_ok, of 1 False] by (simp add: two_pub_def attach_def)

lemma attach_fields:
  assumes "pub_ok xs p" "x \<notin> set xs"
  shows "ob_event (pb_obs (snd (attach x p)) y) = ob_event (pb_obs p y)"
    "st_of (snd (attach x p)) y = (if y = x then OBSERVER_ATTACHED else st_of p y)"
    "pb_user (snd (attach x p)) = pb_user p" "pb_state (snd (attach x p)) = pb_state p"
  by (simp_all add: attach_def attach_new_eq [OF assms])

lemma bare_sel [simp]:
  "ob_event (pb_obs bare_pub x) = two_events x" "pb_user bare_pub = []" "pb_state bare_pub = PUBLISHER_IDLE"
  by (simp_all add: bare_pub_def publisher_init_def)

lemmas two_fields = attach_fields [OF one_ok, of 1] attach_fields [OF bare_ok, of 0]

lemma two_serving: "serving [0, 1] two_pub"
  using two_ok two_fields by (simp add: serving_def two_pub_def)

lemma two_sel [simp]:
  "ob_event (pb_obs two_pub x) = two_events x" "pb_user two_pub = []" "pb_state two_pub = PUBLISHER_IDLE"
  using two_fields by (simp_all add: two_pub_def)

definition two_world :: "(event_msg list, (nat \<times> u32 \<times> u32) list) sys_world" where
  "two_world = \<lparr>g_sys_queue = Some [], g_sys_publisher = Some two_pub, sw_sems = (\<lambda>_. None), sw_freed = []\<rparr>"

lemma two_world_sel [simp]:
  "g_sys_queue two_world = Some []" "g_sys_publisher two_world = Some two_pub"
  by (simp_all add: two_world_def)

text \<open>A callback that detaches its own observer, and a trigger function that is disciplined.\<close>

definition leave_trig :: "nat \<Rightarrow> u32 \<Rightarrow> u32 \<Rightarrow> 'u publisher_base \<Rightarrow> 'u publisher_base option" where
  "leave_trig x e a p = Some (if list_empty (OBS x) (pb_links p) then p else snd (detach x p))"

lemma leave_disciplined: "disciplined U leave_trig"
  unfolding disciplined_def leave_trig_def by (auto intro: pub_calls.intros)

end
