(* ===== verification/Sys_Build.thy ===== *)
theory Sys_Build
  imports Sys_Ctrl
begin

text \<open>
  How the event service comes about: the queue, the publisher and the looper with their
  factories, over an explicit store of allocated objects in which every request may be refused.
  Using an object that does not exist, freeing one twice or reading an uninitialised variable
  has the value \<open>None\<close>.
\<close>

section \<open>Objects\<close>

text \<open>Addresses are numbers, NULL is \<open>None\<close>; functions are named by numbers.\<close>

record looper_base =
  lp_queue :: "nat option"
  lp_extend :: "nat option"
  lp_thd :: "nat option"
  lp_arg :: "nat option"
  lp_msg :: "nat option"

record looper_factory =
  lf_looper :: nat
  lf_prio :: u32
  lf_stack :: u32

record publisher_obj =
  po_looper :: "nat option"
  po_lock :: "nat option"
  po_compare :: nat

record publisher_factory =
  pf_publisher :: nat
  pf_queue :: "nat option"
  pf_prio :: u32
  pf_stack :: u32
  pf_size :: u32

record normal_event_queue =
  nq_queue :: "nat option"

record list_impl =
  li_sem :: "nat option"
  li_lock :: "nat option"
  li_poolBuf :: "nat option"

record prio_impl =
  pi_container :: "nat option"
  pi_msg_size :: u32

datatype sys_obj =
    O_bytes (bytes_of: u32)
  | O_semaphore
  | O_mutex
  | O_os_queue u32 u32
  | O_thread nat u32 u32
  | O_queue normal_event_queue
  | O_list list_impl
  | O_prio prio_impl
  | O_looper looper_base
  | O_looper_factory looper_factory
  | O_publisher publisher_obj
  | O_publisher_factory publisher_factory

text \<open>
  The store; the \<open>k\<close>-th request is granted if \<open>rs_grants k\<close>, and the object gets the address \<open>k\<close>.
\<close>

record sys_store =
  rs_grants :: "nat \<Rightarrow> bool"
  rs_asked :: nat
  rs_live :: "nat \<Rightarrow> sys_obj option"

definition ask :: "sys_obj \<Rightarrow> sys_store \<Rightarrow> nat option \<times> sys_store" where
  "ask ob h = (let k = rs_asked h; h = h\<lparr>rs_asked := k + 1\<rparr> in
     if rs_grants h k then (Some k, h\<lparr>rs_live := (rs_live h)(k \<mapsto> ob)\<rparr>) else (None, h))"

definition put :: "nat \<Rightarrow> sys_obj \<Rightarrow> sys_store \<Rightarrow> sys_store" where
  "put a ob h = h\<lparr>rs_live := (rs_live h)(a \<mapsto> ob)\<rparr>"

definition release :: "nat option \<Rightarrow> sys_store \<Rightarrow> sys_store option" where
  "release a h = do { a \<leftarrow> a; ob \<leftarrow> rs_live h a; Some (h\<lparr>rs_live := (rs_live h)(a := None)\<rparr>) }"

text \<open>\<open>free\<close> guarded by a test for NULL.\<close>

definition release_if :: "nat option \<Rightarrow> sys_store \<Rightarrow> sys_store option" where
  "release_if a h = (if a \<noteq> None then release a h else Some h)"

definition looper_at :: "nat option \<Rightarrow> sys_store \<Rightarrow> looper_base option" where
  "looper_at a h = do { a \<leftarrow> a; ob \<leftarrow> rs_live h a; case ob of O_looper l \<Rightarrow> Some l | _ \<Rightarrow> None }"

definition looper_factory_at :: "nat option \<Rightarrow> sys_store \<Rightarrow> looper_factory option" where
  "looper_factory_at a h = do { a \<leftarrow> a; ob \<leftarrow> rs_live h a; case ob of O_looper_factory l \<Rightarrow> Some l | _ \<Rightarrow> None }"

definition publisher_at :: "nat option \<Rightarrow> sys_store \<Rightarrow> publisher_obj option" where
  "publisher_at a h = do { a \<leftarrow> a; ob \<leftarrow> rs_live h a; case ob of O_publisher l \<Rightarrow> Some l | _ \<Rightarrow> None }"

definition publisher_factory_at :: "nat option \<Rightarrow> sys_store \<Rightarrow> publisher_factory option" where
  "publisher_factory_at a h = do { a \<leftarrow> a; ob \<leftarrow> rs_live h a; case ob of O_publisher_factory l \<Rightarrow> Some l | _ \<Rightarrow> None }"

lemmas store_at = looper_at_def looper_factory_at_def publisher_at_def publisher_factory_at_def

section \<open>Queues\<close>

definition normal_event_queue_create :: "u32 \<Rightarrow> u32 \<Rightarrow> sys_store \<Rightarrow> (nat option \<times> sys_store) option" where
  "normal_event_queue_create queue_len msg_size h =
     (let (impl, h) = ask (O_queue \<lparr>nq_queue = None\<rparr>) h in
      case impl of None \<Rightarrow> Some (None, h) | Some a \<Rightarrow>
        let (q, h) = ask (O_os_queue queue_len msg_size) h in
        case q of None \<Rightarrow> do { h \<leftarrow> release_if impl h; Some (None, h) }
        | Some k \<Rightarrow> Some (impl, put a (O_queue \<lparr>nq_queue = q\<rparr>) h))"

text \<open>\<open>deleted\<close> is the outcome of \<open>OS_QueueDelete\<close>.\<close>

definition normal_event_queue_deinit :: "bool \<Rightarrow> nat \<Rightarrow> sys_store \<Rightarrow> (int \<times> sys_store) option" where
  "normal_event_queue_deinit deleted a h = do {
     ob \<leftarrow> rs_live h a;
     case ob of
       O_queue q \<Rightarrow>
         if \<not> deleted then Some (- 1, h)
         else do {
           h \<leftarrow> release (nq_queue q) h;
           h \<leftarrow> release (Some a) h;
           Some (0, h)
         }
     | _ \<Rightarrow> None
   }"

text \<open>The resources of the sorted list; what its pointers look like is in \<open>Sys_Container\<close>.\<close>

definition sorted_list_acquire :: "u32 \<Rightarrow> nat \<Rightarrow> sys_store \<Rightarrow> (int \<times> sys_store) option" where
  "sorted_list_acquire n a h =
     (let (sem, h) = ask O_semaphore h;
          (lock, h) = (if sem = None then (None, h) else ask O_mutex h);
          (vec, h) = (if lock = None then (None, h) else ask (O_bytes (12 * n)) h)
      in if vec \<noteq> None
         then Some (0, put a (O_list \<lparr>li_sem = sem, li_lock = lock, li_poolBuf = vec\<rparr>) h)
         else do {
           h \<leftarrow> release_if sem h;
           h \<leftarrow> release_if lock h;
           h \<leftarrow> release (Some a) h;
           Some (- 1, h)
         })"

definition sorted_list_build :: "u32 \<Rightarrow> sys_store \<Rightarrow> (nat option \<times> sys_store) option" where
  "sorted_list_build n h =
     (let (impl, h) = ask (O_list \<lparr>li_sem = None, li_lock = None, li_poolBuf = None\<rparr>) h in
      case impl of None \<Rightarrow> Some (None, h) | Some a \<Rightarrow> do {
        (ret, h) \<leftarrow> sorted_list_acquire n a h;
        if ret \<noteq> 0 then do { h \<leftarrow> release impl h; Some (None, h) } else Some (impl, h)
      })"

definition sorted_list_deinit :: "nat \<Rightarrow> sys_store \<Rightarrow> (int \<times> sys_store) option" where
  "sorted_list_deinit a h = do {
     ob \<leftarrow> rs_live h a;
     case ob of
       O_list l \<Rightarrow> do {
         h \<leftarrow> release (li_sem l) h;
         h \<leftarrow> release (li_lock l) h;
         h \<leftarrow> release_if (li_poolBuf l) h;
         h \<leftarrow> release (Some a) h;
         Some (0, h)
       }
     | _ \<Rightarrow> None
   }"

definition sorted_list_control :: "nat \<Rightarrow> u32 \<Rightarrow> u32 \<Rightarrow> int" where
  "sorted_list_control a cmd arg = - 1"

definition prio_event_queue_build :: "u32 \<Rightarrow> u32 \<Rightarrow> sys_store \<Rightarrow> (nat option \<times> sys_store) option" where
  "prio_event_queue_build queue_len msg_size h =
     (let (impl, h) = ask (O_prio \<lparr>pi_container = None, pi_msg_size = 0\<rparr>) h in
      case impl of None \<Rightarrow> Some (None, h) | Some a \<Rightarrow> do {
        (c, h) \<leftarrow> sorted_list_build queue_len h;
        if c = None then do { h \<leftarrow> release impl h; Some (None, h) }
        else Some (impl, put a (O_prio \<lparr>pi_container = c, pi_msg_size = msg_size\<rparr>) h)
      })"

definition prio_event_queue_deinit :: "nat \<Rightarrow> sys_store \<Rightarrow> (int \<times> sys_store) option" where
  "prio_event_queue_deinit a h = do {
     ob \<leftarrow> rs_live h a;
     case ob of
       O_prio p \<Rightarrow> do {
         c \<leftarrow> pi_container p;
         (ret, h) \<leftarrow> sorted_list_deinit c h;
         if ret = 0 then do { h \<leftarrow> release (Some a) h; Some (ret, h) } else Some (ret, h)
       }
     | _ \<Rightarrow> None
   }"

section \<open>Loopers\<close>

abbreviation (input) sizeof_event_msg :: u32 where "sizeof_event_msg \<equiv> 16"
abbreviation (input) sizeof_sys_ctrl_msg :: u32 where "sizeof_sys_ctrl_msg \<equiv> 20"

text \<open>\<open>normal\<close> is \<open>OS_PRIORITY_NORMAL\<close>.  A thread object names the looper it serves.\<close>

definition looper_create :: "u32 \<Rightarrow> nat option \<Rightarrow> sys_store \<Rightarrow> (nat option \<times> sys_store) option" where
  "looper_create normal queue h =
     (let (base, h) = ask (O_looper \<lparr>lp_queue = queue, lp_extend = None, lp_thd = None, lp_arg = None, lp_msg = None\<rparr>) h in
      case base of None \<Rightarrow> Some (None, h) | Some a \<Rightarrow>
        let (msg, h) = ask (O_bytes sizeof_event_msg) h;
            l = \<lparr>lp_queue = queue, lp_extend = None, lp_thd = None, lp_arg = None, lp_msg = msg\<rparr>;
            h = put a (O_looper l) h;
            (thd, h) = ask (O_thread a normal (2 * 1024)) h
        in if thd = None then do { h \<leftarrow> release base h; Some (None, h) }
           else Some (base, put a (O_looper (l\<lparr>lp_thd := thd\<rparr>)) h))"

definition looper_factory_create :: "u32 \<Rightarrow> nat option \<Rightarrow> sys_store \<Rightarrow> (nat option \<times> sys_store) option" where
  "looper_factory_create normal queue h =
     (let (base, h) = ask (O_looper \<lparr>lp_queue = None, lp_extend = None, lp_thd = None, lp_arg = None, lp_msg = None\<rparr>) h in
      case base of None \<Rightarrow> Some (None, h) | Some a \<Rightarrow>
        let (ctor, h) = ask (O_looper_factory \<lparr>lf_looper = a, lf_prio = normal, lf_stack = 2 * 1024\<rparr>) h in
        if ctor = None then do { h \<leftarrow> release base h; Some (None, h) }
        else Some (ctor, put a (O_looper \<lparr>lp_queue = queue, lp_extend = None, lp_thd = None, lp_arg = None, lp_msg = None\<rparr>) h))"

definition looper_set_thread_param :: "nat option \<Rightarrow> u32 \<Rightarrow> u32 \<Rightarrow> sys_store \<Rightarrow> (nat option \<times> sys_store) option" where
  "looper_set_thread_param ctor prio stack h = do {
     f \<leftarrow> looper_factory_at ctor h;
     a \<leftarrow> ctor;
     Some (ctor, put a (O_looper_factory (f\<lparr>lf_prio := prio, lf_stack := stack\<rparr>)) h)
   }"

definition looper_set_msg_size :: "nat option \<Rightarrow> u32 \<Rightarrow> sys_store \<Rightarrow> (nat option \<times> sys_store) option" where
  "looper_set_msg_size ctor sz h = do {
     f \<leftarrow> looper_factory_at ctor h;
     l \<leftarrow> looper_at (Some (lf_looper f)) h;
     h \<leftarrow> release_if (lp_msg l) h;
     let (msg, h) = ask (O_bytes sz) h;
     Some (ctor, put (lf_looper f) (O_looper (l\<lparr>lp_msg := msg\<rparr>)) h)
   }"

definition looper_set_extend_function ::
  "nat option \<Rightarrow> nat option \<Rightarrow> nat option \<Rightarrow> sys_store \<Rightarrow> (nat option \<times> sys_store) option" where
  "looper_set_extend_function ctor ext arg h = do {
     f \<leftarrow> looper_factory_at ctor h;
     l \<leftarrow> looper_at (Some (lf_looper f)) h;
     Some (ctor, put (lf_looper f) (O_looper (l\<lparr>lp_extend := ext, lp_arg := arg\<rparr>)) h)
   }"

definition create_looper :: "nat option \<Rightarrow> sys_store \<Rightarrow> (nat option \<times> sys_store) option" where
  "create_looper ctor h = do {
     f \<leftarrow> looper_factory_at ctor h;
     let a = lf_looper f;
     h \<leftarrow> release ctor h;
     l \<leftarrow> looper_at (Some a) h;
     let (msg, h) = (if lp_msg l = None then ask (O_bytes sizeof_event_msg) h else (lp_msg l, h));
     let h = put a (O_looper (l\<lparr>lp_msg := msg\<rparr>)) h;
     let (thd, h) = ask (O_thread a (lf_prio f) (lf_stack f)) h;
     if thd = None then do {
       h \<leftarrow> release_if msg h;
       h \<leftarrow> release (Some a) h;
       Some (None, h)
     }
     else Some (Some a, put a (O_looper (l\<lparr>lp_msg := msg, lp_thd := thd\<rparr>)) h)
   }"

section \<open>Publishers\<close>

abbreviation (input) FN_notice_all :: nat where "FN_notice_all \<equiv> 0"
abbreviation (input) FN_compare :: nat where "FN_compare \<equiv> 1"
abbreviation (input) FN_publisher_main :: nat where "FN_publisher_main \<equiv> 0"

text \<open>The simple way; the factory of the looper is used without a test.\<close>

definition publisher_create :: "u32 \<Rightarrow> nat option \<Rightarrow> nat \<Rightarrow> u32 \<Rightarrow> u32 \<Rightarrow> sys_store \<Rightarrow> (nat option \<times> sys_store) option" where
  "publisher_create normal queue cmp prio stack h =
     (let (base, h) = ask (O_publisher \<lparr>po_looper = None, po_lock = None, po_compare = FN_notice_all\<rparr>) h in
      case base of None \<Rightarrow> Some (None, h) | Some a \<Rightarrow>
        let (lock, h) = ask O_mutex h in
        if lock = None then do { h \<leftarrow> release base h; Some (None, h) }
        else do {
          let p = \<lparr>po_looper = None, po_lock = lock, po_compare = cmp\<rparr>;
          let h = put a (O_publisher p) h;
          (ctor, h) \<leftarrow> looper_factory_create normal queue h;
          (ctor, h) \<leftarrow> looper_set_thread_param ctor prio stack h;
          (ctor, h) \<leftarrow> looper_set_extend_function ctor (Some FN_publisher_main) base h;
          (looper, h) \<leftarrow> create_looper ctor h;
          let h = put a (O_publisher (p\<lparr>po_looper := looper\<rparr>)) h;
          if looper = None then do { h \<leftarrow> release lock h; h \<leftarrow> release base h; Some (None, h) }
          else Some (base, h)
        })"

text \<open>When the second allocation fails, the error branch reads \<open>ret\<close> before it is set.\<close>

definition publisher_factory_create :: "u32 \<Rightarrow> nat option \<Rightarrow> sys_store \<Rightarrow> (nat option \<times> sys_store) option" where
  "publisher_factory_create normal queue h =
     (let (base, h) = ask (O_publisher \<lparr>po_looper = None, po_lock = None, po_compare = FN_notice_all\<rparr>) h in
      case base of None \<Rightarrow> Some (None, h) | Some a \<Rightarrow>
        let (ctor, h) = ask (O_publisher_factory \<lparr>pf_publisher = a, pf_queue = queue, pf_prio = normal,
              pf_stack = 2 * 1024, pf_size = sizeof_event_msg\<rparr>) h in
        if ctor = None then None
        else let (lock, h) = ask O_mutex h in
             if lock = None then do { h \<leftarrow> release ctor h; h \<leftarrow> release base h; Some (None, h) }
             else Some (ctor, put a (O_publisher \<lparr>po_looper = None, po_lock = lock, po_compare = FN_notice_all\<rparr>) h))"

definition set_compare :: "nat option \<Rightarrow> nat \<Rightarrow> sys_store \<Rightarrow> (nat option \<times> sys_store) option" where
  "set_compare ctor cmp h = do {
     f \<leftarrow> publisher_factory_at ctor h;
     p \<leftarrow> publisher_at (Some (pf_publisher f)) h;
     Some (ctor, put (pf_publisher f) (O_publisher (p\<lparr>po_compare := cmp\<rparr>)) h)
   }"

definition set_thread_param :: "nat option \<Rightarrow> u32 \<Rightarrow> u32 \<Rightarrow> sys_store \<Rightarrow> (nat option \<times> sys_store) option" where
  "set_thread_param ctor prio stack h = do {
     f \<leftarrow> publisher_factory_at ctor h;
     a \<leftarrow> ctor;
     Some (ctor, put a (O_publisher_factory (f\<lparr>pf_prio := prio, pf_stack := stack\<rparr>)) h)
   }"

definition set_msg_size :: "nat option \<Rightarrow> u32 \<Rightarrow> sys_store \<Rightarrow> (nat option \<times> sys_store) option" where
  "set_msg_size ctor sz h = do {
     f \<leftarrow> publisher_factory_at ctor h;
     a \<leftarrow> ctor;
     Some (ctor, put a (O_publisher_factory (f\<lparr>pf_size := sz\<rparr>)) h)
   }"

definition create_publisher :: "u32 \<Rightarrow> nat option \<Rightarrow> sys_store \<Rightarrow> (nat option \<times> sys_store) option" where
  "create_publisher normal ctor h = do {
     f \<leftarrow> publisher_factory_at ctor h;
     let a = pf_publisher f;
     h \<leftarrow> release ctor h;
     (ctor, h) \<leftarrow> looper_factory_create normal (pf_queue f) h;
     (ctor, h) \<leftarrow> looper_set_thread_param ctor (pf_prio f) (pf_stack f) h;
     (ctor, h) \<leftarrow> looper_set_msg_size ctor (pf_size f) h;
     (ctor, h) \<leftarrow> looper_set_extend_function ctor (Some FN_publisher_main) (Some a) h;
     (looper, h) \<leftarrow> create_looper ctor h;
     p \<leftarrow> publisher_at (Some a) h;
     let h = put a (O_publisher (p\<lparr>po_looper := looper\<rparr>)) h;
     if looper = None then do {
       h \<leftarrow> release (po_lock p) h;
       h \<leftarrow> release (Some a) h;
       Some (None, h)
     }
     else Some (Some a, h)
   }"

section \<open>The service\<close>

record sys_globals =
  sg_queue :: "nat option"
  sg_publisher :: "nat option"

text \<open>\<open>PRJCONF_SYS_CTRL_QUEUE_LEN\<close>, \<open>_PRIO\<close> and \<open>_STACK_SIZE\<close> are the project's choice.\<close>

definition sys_ctrl_build ::
  "u32 \<Rightarrow> u32 \<Rightarrow> u32 \<Rightarrow> u32 \<Rightarrow> sys_globals \<Rightarrow> sys_store \<Rightarrow> (int \<times> sys_globals \<times> sys_store) option" where
  "sys_ctrl_build queue_len prio stack normal g h = do {
     (g, h) \<leftarrow> (if sg_queue g = None then do {
                  (q, h) \<leftarrow> normal_event_queue_create queue_len sizeof_sys_ctrl_msg h;
                  Some (g\<lparr>sg_queue := q\<rparr>, h)
                } else Some (g, h));
     if sg_queue g = None then Some (- 1, g, h) else do {
       (g, h) \<leftarrow> (if sg_publisher g = None then do {
                    (ctor, h) \<leftarrow> publisher_factory_create normal (sg_queue g) h;
                    (ctor, h) \<leftarrow> set_thread_param ctor prio stack h;
                    (ctor, h) \<leftarrow> set_compare ctor FN_compare h;
                    (ctor, h) \<leftarrow> set_msg_size ctor sizeof_sys_ctrl_msg h;
                    (p, h) \<leftarrow> create_publisher normal ctor h;
                    Some (g\<lparr>sg_publisher := p\<rparr>, h)
                  } else Some (g, h));
       Some (if sg_publisher g = None then - 1 else 0, g, h)
     }
   }"

end
