(* ===== verification/Sys_Build_Spec.thy ===== *)
theory Sys_Build_Spec
  imports Sys_Build
begin

text \<open>
  What the construction of the event service leaves behind, for every way the system may refuse
  the requests.
\<close>

section \<open>The store\<close>

lemma ask_sel [simp]:
  "rs_grants h (rs_asked h) \<Longrightarrow> ask ob h = (Some (rs_asked h), h\<lparr>rs_asked := rs_asked h + 1, rs_live := (rs_live h)(rs_asked h \<mapsto> ob)\<rparr>)"
  "\<not> rs_grants h (rs_asked h) \<Longrightarrow> ask ob h = (None, h\<lparr>rs_asked := rs_asked h + 1\<rparr>)"
  by (simp_all add: ask_def Let_def)

lemmas build_steps = normal_event_queue_create_def publisher_factory_create_def set_thread_param_def
  set_compare_def set_msg_size_def create_publisher_def looper_factory_create_def looper_set_thread_param_def
  looper_set_msg_size_def looper_set_extend_function_def create_looper_def release_def release_if_def put_def
  store_at Let_def

definition no_service :: sys_globals where
  "no_service = \<lparr>sg_queue = None, sg_publisher = None\<rparr>"

text \<open>The queue and the publisher after their construction from the requests \<open>n\<close>, \<open>n + 1\<close>, \<open>...\<close>\<close>

definition queue_objects :: "nat \<Rightarrow> u32 \<Rightarrow> (nat \<rightharpoonup> sys_obj)" where
  "queue_objects n len = [n \<mapsto> O_queue \<lparr>nq_queue = Some (n + 1)\<rparr>, n + 1 \<mapsto> O_os_queue len sizeof_sys_ctrl_msg]"

definition publisher_objects :: "nat \<Rightarrow> nat \<Rightarrow> u32 \<Rightarrow> u32 \<Rightarrow> (nat \<rightharpoonup> sys_obj)" where
  "publisher_objects q m prio stack =
     [m \<mapsto> O_publisher \<lparr>po_looper = Some (m + 3), po_lock = Some (m + 2), po_compare = FN_compare\<rparr>,
      m + 2 \<mapsto> O_mutex,
      m + 3 \<mapsto> O_looper \<lparr>lp_queue = Some q, lp_extend = Some FN_publisher_main, lp_thd = Some (m + 6), lp_arg = Some m, lp_msg = Some (m + 5)\<rparr>,
      m + 5 \<mapsto> O_bytes sizeof_sys_ctrl_msg,
      m + 6 \<mapsto> O_thread (m + 3) prio stack]"

definition fresh_store :: "sys_store \<Rightarrow> bool" where
  "fresh_store h \<longleftrightarrow> (\<forall>k \<ge> rs_asked h. rs_live h k = None)"

lemma queue_created:
  assumes "fresh_store h" "n = rs_asked h" "rs_grants h n" "rs_grants h (n + 1)"
  shows "normal_event_queue_create len sizeof_sys_ctrl_msg h =
     Some (Some n, h\<lparr>rs_asked := n + 2, rs_live := rs_live h ++ queue_objects n len\<rparr>)"
  using assms by (simp add: build_steps queue_objects_def fun_eq_iff map_add_def)

text \<open>The first requests of a run, one by one.\<close>

lemma all_upto_7: "(\<forall>i < 7 :: nat. P i) \<longleftrightarrow> P 0 \<and> P 1 \<and> P 2 \<and> P 3 \<and> P 4 \<and> P 5 \<and> P 6"
  by (simp add: eval_nat_numeral All_less_Suc) blast

lemma all_upto_5: "(\<forall>i < 5 :: nat. P i) \<longleftrightarrow> P 0 \<and> P 1 \<and> P 2 \<and> P 3 \<and> P 4"
  by (simp add: eval_nat_numeral All_less_Suc) blast

lemma below_5: "(k :: nat) < 5 \<longleftrightarrow> k = 0 \<or> k = 1 \<or> k = 2 \<or> k = 3 \<or> k = 4"
  by auto

lemmas build_unfold = sys_ctrl_build_def build_steps fresh_store_def numeral_eq_Suc

lemma publisher_created:
  assumes "fresh_store h" "m = rs_asked h" "\<forall>i < 7. rs_grants h (m + i)" "sg_queue g = Some q" "sg_publisher g = None"
  shows "sys_ctrl_build len prio stack normal g h =
     Some (0, g\<lparr>sg_publisher := Some m\<rparr>,
           h\<lparr>rs_asked := m + 7, rs_live := rs_live h ++ publisher_objects q m prio stack\<rparr>)"
  using assms(1,2,4,5) assms(3)[unfolded all_upto_7]
  by (cases h) (simp add: build_unfold publisher_objects_def fun_eq_iff)

text \<open>A refusal among the first five requests, the first of them the \<open>k\<close>-th.\<close>

lemma publisher_refused:
  assumes "m = rs_asked h" "\<forall>i < k. rs_grants h (m + i)" "k < 5" "\<not> rs_grants h (m + k)"
    and "sg_queue g = Some q" "sg_publisher g = None"
  shows "sys_ctrl_build len prio stack normal g h = None"
  using assms(3)[unfolded below_5]
  by (elim disjE)
    (use assms(1,2,4-6) in \<open>simp_all add: build_unfold All_less_Suc\<close>)

text \<open>The thread is refused: everything but the queue is given back.\<close>

lemma thread_refused:
  assumes "fresh_store h" "m = rs_asked h" "\<forall>i < 5. rs_grants h (m + i)" "rs_grants h (m + 5)" "\<not> rs_grants h (m + 6)"
    and "sg_queue g = Some q" "sg_publisher g = None"
  shows "sys_ctrl_build len prio stack normal g h = Some (- 1, g, h\<lparr>rs_asked := m + 7\<rparr>)"
  using assms(1,2,4-7) assms(3)[unfolded all_upto_5] by (simp add: build_unfold fun_eq_iff)

text \<open>The message buffer is refused, a second and smaller one is granted.\<close>

lemma buffer_refused:
  assumes "fresh_store h" "m = rs_asked h" "\<forall>i < 5. rs_grants h (m + i)" "\<not> rs_grants h (m + 5)" "rs_grants h (m + 6)"
    and "rs_grants h (m + 7)" "sg_queue g = Some q" "sg_publisher g = None"
  shows "\<exists>h' l. sys_ctrl_build len prio stack normal g h = Some (0, g\<lparr>sg_publisher := Some m\<rparr>, h') \<and>
     looper_at (Some (m + 3)) h' = Some l \<and> lp_queue l = Some q \<and> lp_thd l = Some (m + 7) \<and>
     lp_msg l = Some (m + 6) \<and> rs_live h' (m + 6) = Some (O_bytes sizeof_event_msg)"
  using assms(1,2,4-8) assms(3)[unfolded all_upto_5] by (simp add: build_unfold)

lemma refused_creation:
  assumes "fresh_store h" "m = rs_asked h" "sg_queue g = Some q" "sg_publisher g = None"
    and "\<forall>i < k. rs_grants h (m + i)" "\<not> rs_grants h (m + k)"
  shows "k < 5 \<Longrightarrow> sys_ctrl_build len prio stack normal g h = None"
    and "k = 6 \<Longrightarrow> sys_ctrl_build len prio stack normal g h = Some (- 1, g, h\<lparr>rs_asked := m + 7\<rparr>)"
    and "k = 5 \<Longrightarrow> rs_grants h (m + 6) \<Longrightarrow> rs_grants h (m + 7) \<Longrightarrow>
      \<exists>h' l. sys_ctrl_build len prio stack normal g h = Some (0, g\<lparr>sg_publisher := Some m\<rparr>, h') \<and>
         looper_at (Some (m + 3)) h' = Some l \<and> lp_queue l = Some q \<and> lp_msg l = Some (m + 6) \<and>
         rs_live h' (m + 6) = Some (O_bytes sizeof_event_msg)"
proof -
  show "sys_ctrl_build len prio stack normal g h = None" if "k < 5"
    using publisher_refused [OF assms(2,5) that assms(6,3,4)] .
  show "sys_ctrl_build len prio stack normal g h = Some (- 1, g, h\<lparr>rs_asked := m + 7\<rparr>)" if "k = 6"
  proof (rule thread_refused [OF assms(1,2) _ _ _ assms(3,4)])
    show "\<forall>i < 5. rs_grants h (m + i)" "rs_grants h (m + 5)" "\<not> rs_grants h (m + 6)"
      using assms(5,6) that by simp_all
  qed
  show "\<exists>h' l. sys_ctrl_build len prio stack normal g h = Some (0, g\<lparr>sg_publisher := Some m\<rparr>, h') \<and>
         looper_at (Some (m + 3)) h' = Some l \<and> lp_queue l = Some q \<and> lp_msg l = Some (m + 6) \<and>
         rs_live h' (m + 6) = Some (O_bytes sizeof_event_msg)" if "k = 5" "rs_grants h (m + 6)" "rs_grants h (m + 7)"
    using buffer_refused [OF assms(1,2) _ _ that(2,3) assms(3,4)] assms(5,6) that(1) by blast
qed

text \<open>The whole creation, every request granted.\<close>

lemma full_creation:
  assumes "fresh_store h" "n = rs_asked h" "\<forall>i < 9. rs_grants h (n + i)"
  shows "sys_ctrl_build len prio stack normal no_service h =
     Some (0, \<lparr>sg_queue = Some n, sg_publisher = Some (n + 2)\<rparr>,
       h\<lparr>rs_asked := n + 9, rs_live := rs_live h ++ queue_objects n len ++ publisher_objects n (n + 2) prio stack\<rparr>)"
proof -
  let ?h = "h\<lparr>rs_asked := n + 2, rs_live := rs_live h ++ queue_objects n len\<rparr>"
  let ?g = "\<lparr>sg_queue = Some n, sg_publisher = None\<rparr>"
  have q: "normal_event_queue_create len sizeof_sys_ctrl_msg h = Some (Some n, ?h)"
    using queue_created [OF assms(1,2)] assms(3)[rule_format, of 0] assms(3)[rule_format, of 1] by simp
  have fresh: "fresh_store ?h" using assms(1,2) by (simp add: fresh_store_def queue_objects_def map_add_def)
  have grants: "\<forall>i < 7. rs_grants ?h (n + 2 + i)"
  proof safe
    fix i :: nat assume "i < 7"
    then show "rs_grants ?h (n + 2 + i)" using assms(3)[rule_format, of "2 + i"] by (simp add: add.assoc)
  qed
  have "sys_ctrl_build len prio stack normal no_service h = sys_ctrl_build len prio stack normal ?g ?h"
    using q by (simp add: sys_ctrl_build_def no_service_def)
  also have "... = Some (0, ?g\<lparr>sg_publisher := Some (n + 2)\<rparr>,
       ?h\<lparr>rs_asked := n + 2 + 7, rs_live := rs_live ?h ++ publisher_objects n (n + 2) prio stack\<rparr>)"
    by (rule publisher_created [OF fresh _ grants]) simp_all
  finally show ?thesis by simp
qed

text \<open>A store with nothing in it.\<close>

definition empty_store :: "(nat \<Rightarrow> bool) \<Rightarrow> sys_store" where
  "empty_store grants = \<lparr>rs_grants = grants, rs_asked = 0, rs_live = Map.empty\<rparr>"

lemma empty_store_sel [simp]:
  "rs_grants (empty_store gr) = gr" "rs_asked (empty_store gr) = 0" "rs_live (empty_store gr) = Map.empty"
  "fresh_store (empty_store gr)"
  by (simp_all add: empty_store_def fresh_store_def)

section \<open>Queues\<close>

lemma plain_queue_round_trip:
  assumes "fresh_store h" "n = rs_asked h" "rs_grants h n" "rs_grants h (n + 1)"
  shows "\<exists>h1. normal_event_queue_create len sz h = Some (Some n, h1) \<and>
     normal_event_queue_deinit True n h1 = Some (0, h\<lparr>rs_asked := n + 2\<rparr>)"
  using assms by (auto simp: build_steps normal_event_queue_deinit_def fresh_store_def fun_eq_iff)

lemma prio_queue_round_trip:
  assumes "fresh_store h" "n = rs_asked h" "\<forall>i < 5. rs_grants h (n + i)"
  shows "\<exists>h1. prio_event_queue_build len sz h = Some (Some n, h1) \<and>
     prio_event_queue_deinit n h1 = Some (0, h\<lparr>rs_asked := n + 5\<rparr>)"
  using assms(1,2) assms(3)[unfolded all_upto_5]
  by (simp add: build_steps prio_event_queue_build_def sorted_list_build_def sorted_list_acquire_def
      prio_event_queue_deinit_def sorted_list_deinit_def fresh_store_def fun_eq_iff numeral_eq_Suc)

text \<open>One of the three resources of the list is refused.\<close>

lemma prio_queue_refused:
  assumes "n = rs_asked h" "rs_grants h n" "rs_grants h (n + 1)"
    and "\<not> (rs_grants h (n + 2) \<and> rs_grants h (n + 3) \<and> rs_grants h (n + 4))"
  shows "prio_event_queue_build len sz h = None"
  using assms
  by (cases "rs_grants h (n + 2)"; cases "rs_grants h (n + 3)")
    (simp_all add: build_steps prio_event_queue_build_def sorted_list_build_def sorted_list_acquire_def numeral_eq_Suc)

section \<open>The creation of the service\<close>

text \<open>
  \<open>sys_ctrl_create\<close> of \<open>Sys_Ctrl\<close> takes the outcomes of the constructors as arguments; the
  construction in the store runs through the same states with the same results.
\<close>

definition same_globals :: "sys_globals \<Rightarrow> ('q, 'u) sys_world \<Rightarrow> bool" where
  "same_globals g w \<longleftrightarrow> (sg_queue g = None) = (g_sys_queue w = None) \<and> (sg_publisher g = None) = (g_sys_publisher w = None)"

lemma build_refines_create:
  assumes "sys_ctrl_build len prio stack normal g h = Some (r, g', h')" "same_globals g w"
  shows "\<exists>w'. sys_ctrl_create (if sg_queue g' = None then None else Some q) True
       (if sg_publisher g' = None then None else Some p) w = Some (r, w') \<and> same_globals g' w'"
  using assms
  by (cases "sg_queue g"; cases "sg_publisher g")
    (auto simp: sys_ctrl_build_def sys_ctrl_create_def same_globals_def Let_def split: bind_splits if_splits)

end
