(* ===== verification/Sys_Observer.thy ===== *)
theory Sys_Observer
  imports Sys_Ctrl_Spec
begin

text \<open>
  The kinds of observers of \<open>sys_ctrl/observer.c\<close>: one that releases a waiting thread, one that
  calls a function, one that starts a thread; and their triggers, plugged into the notification
  of the publisher.
\<close>

section \<open>State\<close>

text \<open>\<open>None\<close> is a semaphore that could not be created; a binary semaphore is up or down.\<close>

record event_observer =
  eo_sem :: "bool option"

record callback_observer =
  co_cb :: nat

text \<open>\<open>th_thd\<close> says whether the handle of the thread is valid.\<close>

record thread_observer =
  th_thd :: bool
  th_run :: nat
  th_exception :: "nat option"
  th_stack :: u32
  th_prio :: u32
  th_event :: u32
  th_arg :: u32

datatype observer_impl =
  Event_observer event_observer | Callback_observer callback_observer | Thread_observer thread_observer

text \<open>The memory of the observers and the rest of the world, on which the user's functions work.\<close>

record 'v obs_world =
  ow_impl :: "nat \<Rightarrow> observer_impl"
  ow_user :: 'v

type_synonym 'v obs_pub = "'v obs_world publisher_base"

definition set_impl :: "nat \<Rightarrow> observer_impl \<Rightarrow> 'v obs_pub \<Rightarrow> 'v obs_pub" where
  "set_impl x i p = p\<lparr>pb_user := (pb_user p)\<lparr>ow_impl := (ow_impl (pb_user p))(x := i)\<rparr>\<rparr>"

abbreviation (input) impl_of :: "'v obs_pub \<Rightarrow> nat \<Rightarrow> observer_impl" where
  "impl_of p x \<equiv> ow_impl (pb_user p) x"

text \<open>
  The user's functions: callbacks and the bodies of threads on event, data and the observer's
  argument, exceptions on the status; \<open>spawn\<close> is the status of creating a thread.
\<close>

record 'v observer_user =
  ou_call :: "nat \<Rightarrow> u32 \<Rightarrow> u32 \<Rightarrow> u32 \<Rightarrow> 'v obs_pub \<Rightarrow> 'v obs_pub option"
  ou_exception :: "nat \<Rightarrow> int \<Rightarrow> 'v obs_pub \<Rightarrow> 'v obs_pub option"
  ou_spawn :: "nat \<Rightarrow> 'v obs_pub \<Rightarrow> int"

section \<open>Event observers\<close>

text \<open>Releasing a semaphore that does not exist is undefined.\<close>

definition event_trigger :: "nat \<Rightarrow> u32 \<Rightarrow> u32 \<Rightarrow> 'v obs_pub \<Rightarrow> 'v obs_pub option" where
  "event_trigger x event arg p = (case impl_of p x of
     Event_observer i \<Rightarrow> (case eo_sem i of None \<Rightarrow> None | Some up \<Rightarrow> Some (set_impl x (Event_observer (i\<lparr>eo_sem := Some True\<rparr>)) p))
   | _ \<Rightarrow> None)"

definition event_observer_init :: "bool \<Rightarrow> nat \<Rightarrow> u32 \<Rightarrow> 'v obs_pub \<Rightarrow> int \<times> 'v obs_pub" where
  "event_observer_init sem_ok x event p =
     (let p = p\<lparr>pb_obs := (pb_obs p)(x := (pb_obs p x)\<lparr>ob_event := event\<rparr>),
                pb_links := INIT_LIST_HEAD (OBS x) (pb_links p)\<rparr>
      in (if sem_ok then 0 else - 1, set_impl x (Event_observer \<lparr>eo_sem = (if sem_ok then Some False else None)\<rparr>) p))"

text \<open>The memory is cleared; the status of the initialisation is dropped.\<close>

definition clear_observer :: "nat \<Rightarrow> 'v obs_pub \<Rightarrow> 'v obs_pub" where
  "clear_observer x p = p\<lparr>pb_obs := (pb_obs p)(x := \<lparr>ob_event = 0, ob_state = OBSERVER_ILDE, ob_arg = 0\<rparr>)\<rparr>"

definition event_observer_create :: "bool \<Rightarrow> nat option \<Rightarrow> u32 \<Rightarrow> 'v obs_pub \<Rightarrow> nat option \<times> 'v obs_pub" where
  "event_observer_create sem_ok mem event p = (case mem of None \<Rightarrow> (None, p)
     | Some x \<Rightarrow> (Some x, snd (event_observer_init sem_ok x event (clear_observer x p))))"

text \<open>Waiting without a timeout left: 0 when the semaphore is up, which takes it down.\<close>

definition event_wait :: "nat \<Rightarrow> 'v obs_pub \<Rightarrow> (int \<times> 'v obs_pub) option" where
  "event_wait x p = (case impl_of p x of
     Event_observer i \<Rightarrow> (case eo_sem i of None \<Rightarrow> None
       | Some up \<Rightarrow> if up then Some (0, set_impl x (Event_observer (i\<lparr>eo_sem := Some False\<rparr>)) p) else Some (- 4, p))
   | _ \<Rightarrow> None)"

section \<open>Callback observers\<close>

definition trigger_callback :: "'v observer_user \<Rightarrow> nat \<Rightarrow> u32 \<Rightarrow> u32 \<Rightarrow> 'v obs_pub \<Rightarrow> 'v obs_pub option" where
  "trigger_callback user x event arg p = (case impl_of p x of
     Callback_observer i \<Rightarrow> ou_call user (co_cb i) event arg (ob_arg (pb_obs p x)) p
   | _ \<Rightarrow> None)"

definition callback_observer_init :: "nat \<Rightarrow> u32 \<Rightarrow> nat \<Rightarrow> u32 \<Rightarrow> 'v obs_pub \<Rightarrow> int \<times> 'v obs_pub" where
  "callback_observer_init x event cb arg p =
     (let p = p\<lparr>pb_obs := (pb_obs p)(x := (pb_obs p x)\<lparr>ob_event := event, ob_arg := arg\<rparr>),
                pb_links := INIT_LIST_HEAD (OBS x) (pb_links p)\<rparr>
      in (0, set_impl x (Callback_observer \<lparr>co_cb = cb\<rparr>) p))"

definition callback_observer_create :: "nat option \<Rightarrow> u32 \<Rightarrow> nat \<Rightarrow> u32 \<Rightarrow> 'v obs_pub \<Rightarrow> nat option \<times> 'v obs_pub" where
  "callback_observer_create mem event cb arg p = (case mem of None \<Rightarrow> (None, p)
     | Some x \<Rightarrow> (Some x, snd (callback_observer_init x event cb arg (clear_observer x p))))"

definition sys_callback_observer_create ::
  "nat option \<Rightarrow> u16 \<Rightarrow> u16 \<Rightarrow> nat \<Rightarrow> u32 \<Rightarrow> 'v obs_pub \<Rightarrow> nat option \<times> 'v obs_pub" where
  "sys_callback_observer_create mem type subtype cb arg p = callback_observer_create mem (MK_EVENT type subtype) cb arg p"

section \<open>Thread observers\<close>

text \<open>The body of the thread reads event and data when it runs, then the thread deletes itself.\<close>

definition wrap_thread :: "'v observer_user \<Rightarrow> nat \<Rightarrow> 'v obs_pub \<Rightarrow> 'v obs_pub option" where
  "wrap_thread user x p = (case impl_of p x of
     Thread_observer i \<Rightarrow> do {
       p \<leftarrow> ou_call user (th_run i) (th_event i) (th_arg i) (ob_arg (pb_obs p x)) p;
       case impl_of p x of
         Thread_observer i \<Rightarrow> Some (set_impl x (Thread_observer (i\<lparr>th_thd := False\<rparr>)) p)
       | _ \<Rightarrow> None
     }
   | _ \<Rightarrow> None)"

definition trigger_thread :: "'v observer_user \<Rightarrow> nat \<Rightarrow> u32 \<Rightarrow> u32 \<Rightarrow> 'v obs_pub \<Rightarrow> 'v obs_pub option" where
  "trigger_thread user x event arg p = (case impl_of p x of
     Thread_observer i \<Rightarrow>
       let i = i\<lparr>th_event := event, th_arg := arg\<rparr>; p = set_impl x (Thread_observer i) p in
       if th_thd i then Some p
       else let ret = ou_spawn user x p in
            if ret = 0 then Some (set_impl x (Thread_observer (i\<lparr>th_thd := True\<rparr>)) p)
            else (case th_exception i of None \<Rightarrow> Some p | Some f \<Rightarrow> ou_exception user f ret p)
   | _ \<Rightarrow> None)"

definition thread_observer_throw :: "nat \<Rightarrow> nat option \<Rightarrow> 'v obs_pub \<Rightarrow> 'v obs_pub option" where
  "thread_observer_throw x f p = (case impl_of p x of
     Thread_observer i \<Rightarrow> Some (set_impl x (Thread_observer (i\<lparr>th_exception := f\<rparr>)) p)
   | _ \<Rightarrow> None)"

text \<open>The memory was cleared before, so there is no thread and no exception.\<close>

definition thread_observer_init :: "nat \<Rightarrow> u32 \<Rightarrow> nat \<Rightarrow> u32 \<Rightarrow> u32 \<Rightarrow> u32 \<Rightarrow> 'v obs_pub \<Rightarrow> int \<times> 'v obs_pub" where
  "thread_observer_init x event run arg stackSize prio p =
     (let p = p\<lparr>pb_obs := (pb_obs p)(x := (pb_obs p x)\<lparr>ob_event := event, ob_arg := arg\<rparr>),
                pb_links := INIT_LIST_HEAD (OBS x) (pb_links p)\<rparr>
      in (0, set_impl x (Thread_observer \<lparr>th_thd = False, th_run = run, th_exception = None, th_stack = stackSize,
               th_prio = prio, th_event = 0, th_arg = 0\<rparr>) p))"

definition thread_observer_create ::
  "nat option \<Rightarrow> u32 \<Rightarrow> nat \<Rightarrow> u32 \<Rightarrow> u32 \<Rightarrow> u32 \<Rightarrow> 'v obs_pub \<Rightarrow> nat option \<times> 'v obs_pub" where
  "thread_observer_create mem event run arg stackSize prio p = (case mem of None \<Rightarrow> (None, p)
     | Some x \<Rightarrow> (Some x, snd (thread_observer_init x event run arg stackSize prio (clear_observer x p))))"

section \<open>The trigger of an observer\<close>

definition trigger :: "'v observer_user \<Rightarrow> nat \<Rightarrow> u32 \<Rightarrow> u32 \<Rightarrow> 'v obs_pub \<Rightarrow> 'v obs_pub option" where
  "trigger user x event arg p = (case impl_of p x of
     Event_observer i \<Rightarrow> event_trigger x event arg p
   | Callback_observer i \<Rightarrow> trigger_callback user x event arg p
   | Thread_observer i \<Rightarrow> trigger_thread user x event arg p)"

section \<open>Events that come faster than they are taken\<close>

fun trigger_all :: "'v observer_user \<Rightarrow> nat \<Rightarrow> (u32 \<times> u32) list \<Rightarrow> 'v obs_pub \<Rightarrow> 'v obs_pub option" where
  "trigger_all user x [] p = Some p"
| "trigger_all user x ((e, a) # es) p = do { p \<leftarrow> trigger user x e a p; trigger_all user x es p }"

lemma set_impl_sel [simp]:
  "impl_of (set_impl x i p) x = i" "y \<noteq> x \<Longrightarrow> impl_of (set_impl x i p) y = impl_of p y"
  "pb_obs (set_impl x i p) = pb_obs p" "pb_links (set_impl x i p) = pb_links p" "pb_state (set_impl x i p) = pb_state p"
  "ow_user (pb_user (set_impl x i p)) = ow_user (pb_user p)" "set_impl x i (set_impl x j p) = set_impl x i p"
  by (simp_all add: set_impl_def)

lemma set_impl_same: "impl_of p x = i \<Longrightarrow> set_impl x i p = p"
  by (auto simp: set_impl_def)

text \<open>The semaphore of an event observer is up once, however many events came.\<close>

lemma event_triggers:
  assumes "impl_of p x = Event_observer i" "eo_sem i = Some up" "es \<noteq> []"
  shows "trigger_all user x es p = Some (set_impl x (Event_observer (i\<lparr>eo_sem := Some True\<rparr>)) p)"
  using assms
proof (induction es arbitrary: p i up)
  case (Cons ea es)
  obtain e a where ea: "ea = (e, a)" by fastforce
  let ?p = "set_impl x (Event_observer (i\<lparr>eo_sem := Some True\<rparr>)) p"
  have step: "trigger user x e a p = Some ?p" using Cons.prems(1,2) by (simp add: trigger_def event_trigger_def)
  show ?case
  proof (cases "es = []")
    case False
    then show ?thesis using Cons.IH [of ?p "i\<lparr>eo_sem := Some True\<rparr>" True] step ea by simp
  qed (simp add: ea step)
qed simp

text \<open>A thread that has not run yet finds the last event only.\<close>

lemma thread_triggers:
  assumes "impl_of p x = Thread_observer i" "\<forall>p. ou_spawn user x p = 0" "es \<noteq> []"
  shows "trigger_all user x es p =
     Some (set_impl x (Thread_observer (i\<lparr>th_thd := True, th_event := fst (last es), th_arg := snd (last es)\<rparr>)) p)"
  using assms(1,3)
proof (induction es arbitrary: p i)
  case (Cons ea es)
  obtain e a where ea: "ea = (e, a)" by fastforce
  let ?i = "i\<lparr>th_thd := True, th_event := e, th_arg := a\<rparr>"
  let ?p = "set_impl x (Thread_observer ?i) p"
  have step: "trigger user x e a p = Some ?p"
    using Cons.prems(1) assms(2) by (cases i; cases "th_thd i") (simp_all add: trigger_def trigger_thread_def Let_def)
  show ?case
  proof (cases "es = []")
    case False
    then show ?thesis using Cons.IH [of ?p ?i] step ea by simp
  qed (simp add: ea step)
qed simp

lemma event_observer_created:
  "\<exists>p. event_observer_create True (Some x) e p0 = (Some x, p) \<and> impl_of p x = Event_observer \<lparr>eo_sem = Some False\<rparr> \<and>
     ob_event (pb_obs p x) = e \<and> ob_state (pb_obs p x) = OBSERVER_ILDE"
  by (simp add: event_observer_create_def event_observer_init_def clear_observer_def Let_def set_impl_def)

lemma thread_observer_created:
  "\<exists>p. thread_observer_create (Some x) e run arg stack prio p0 = (Some x, p) \<and>
     impl_of p x = Thread_observer \<lparr>th_thd = False, th_run = run, th_exception = None, th_stack = stack,
       th_prio = prio, th_event = 0, th_arg = 0\<rparr> \<and>
     pb_obs p x = \<lparr>ob_event = e, ob_state = OBSERVER_ILDE, ob_arg = arg\<rparr>"
  by (simp add: thread_observer_create_def thread_observer_init_def clear_observer_def Let_def set_impl_def)

text \<open>A concrete world: user functions that do nothing and a publisher without observers.\<close>

definition no_user :: "unit observer_user" where
  "no_user = \<lparr>ou_call = (\<lambda>f e a x p. Some p), ou_exception = (\<lambda>f r p. Some p), ou_spawn = (\<lambda>x p. 0)\<rparr>"

definition idle_world :: "unit obs_pub" where
  "idle_world = publisher_init \<lparr>ow_impl = (\<lambda>_. Callback_observer \<lparr>co_cb = 0\<rparr>), ow_user = ()\<rparr>
     (\<lambda>_. \<lparr>ob_event = 0, ob_state = OBSERVER_ILDE, ob_arg = 0\<rparr>) \<lparr>lnext = (\<lambda>x. x), lprev = (\<lambda>x. x)\<rparr>"

end
