(* ===== verification/Pm_Wakelock.thy ===== *)
theory Pm_Wakelock
  imports Sys_List
begin

text \<open>
  The wake locks of \<open>src/pm/wakelock.c\<close>: the list of locks, the one-shot timer that is armed for
  the last one to expire, and the flag that tells the power manager whether it may suspend.
  \<open>__pm_wake_lock\<close>, which enters a lock into the list, is in a binary library and a parameter.
\<close>

section \<open>State\<close>

datatype wl_addr = WL_head | WL nat

record wakelock =
  wl_expires :: u32
  wl_ref :: u16

text \<open>
  \<open>pm_timer\<close> is the period the timer was last armed with, \<open>pm_sem\<close> the count of
  \<open>wakelocks_wait\<close>.
\<close>

record pm_wakelocks =
  pm_links :: "wl_addr links"
  pm_locks :: "nat \<Rightarrow> wakelock"
  pm_wl_null :: bool
  pm_wl_touch :: bool
  pm_timer_arg :: "nat option"
  pm_timer_expires :: u32
  pm_timer :: "u32 option"
  pm_sem :: nat

datatype pm_wakelock_t = PM_WKL_WAIT_FOREVER | PM_WKL_WAIT_TIMEOUT

abbreviation (input) OS_WAIT_FOREVER :: u32 where "OS_WAIT_FOREVER \<equiv> 0xFFFFFFFF"

section \<open>Time\<close>

definition OS_TimeAfter :: "u32 \<Rightarrow> u32 \<Rightarrow> bool" where
  "OS_TimeAfter a b \<longleftrightarrow> sint (b - a) < 0"

definition OS_TimeBefore :: "u32 \<Rightarrow> u32 \<Rightarrow> bool" where
  "OS_TimeBefore a b \<longleftrightarrow> OS_TimeAfter b a"

definition OS_TimeAfterEqual :: "u32 \<Rightarrow> u32 \<Rightarrow> bool" where
  "OS_TimeAfterEqual a b \<longleftrightarrow> sint (a - b) \<ge> 0"

section \<open>The update\<close>

text \<open>
  The walk over the list: a lock with references ends it, expired ones are unlinked, of the
  others the last to expire is remembered.  The first result says whether the walk ended at a
  lock with references; then come \<open>wl\<close>, \<open>expires\<close> and \<open>wl_max\<close>.
\<close>

partial_function (option) update_loop ::
  "u32 \<Rightarrow> wl_addr \<Rightarrow> wl_addr \<Rightarrow> nat option \<Rightarrow> u32 \<Rightarrow> nat option \<Rightarrow> pm_wakelocks
     \<Rightarrow> (bool \<times> nat option \<times> u32 \<times> nat option \<times> pm_wakelocks) option" where
  "update_loop now pos n wl expires wl_max s =
     (case pos of WL_head \<Rightarrow> Some (False, wl, expires, wl_max, s) | WL x \<Rightarrow>
        if wl_ref (pm_locks s x) \<noteq> 0 then Some (True, Some x, expires, wl_max, s)
        else if OS_TimeAfterEqual now (wl_expires (pm_locks s x)) then
          let s = s\<lparr>pm_links := list_del pos (pm_links s)\<rparr>
          in update_loop now n (lnext (pm_links s) n) (Some x) expires wl_max s
        else if expires = OS_WAIT_FOREVER \<or> OS_TimeBefore expires (wl_expires (pm_locks s x)) then
          update_loop now n (lnext (pm_links s) n) (Some x) (wl_expires (pm_locks s x)) (Some x) s
        else update_loop now n (lnext (pm_links s) n) (Some x) expires wl_max s)"

text \<open>Waiting for the semaphore without blocking and releasing it.\<close>

definition sem_poke :: "pm_wakelocks \<Rightarrow> pm_wakelocks" where
  "sem_poke s = s\<lparr>pm_sem := pm_sem s - 1 + 1\<rparr>"

text \<open>\<open>now\<close> is the time at entry, \<open>later\<close> the time after interrupts are off, when it stands still.\<close>

definition wakelock_update :: "u32 \<Rightarrow> u32 \<Rightarrow> pm_wakelocks \<Rightarrow> (nat \<times> pm_wakelocks) option" where
  "wakelock_update now later s = do {
     let pos = lnext (pm_links s) WL_head;
     (held, wl, expires, wl_max, s) \<leftarrow> update_loop now pos (lnext (pm_links s) pos) None OS_WAIT_FOREVER None s;
     if held then Some (2, s\<lparr>pm_wl_null := False\<rparr>)
     else if wl = None \<or> expires = OS_WAIT_FOREVER then Some (0, sem_poke (s\<lparr>pm_wl_null := True\<rparr>))
     else if OS_TimeAfter expires later then
       Some (1, s\<lparr>pm_timer_arg := wl_max, pm_timer_expires := expires, pm_wl_null := False,
                  pm_timer := Some (expires - later)\<rparr>)
     else Some (0, s)
   }"

section \<open>Operations\<close>

text \<open>The callback of the timer.  A missing argument is dereferenced by the log in debug builds only.\<close>

definition wakelock_timer_cb :: "u32 \<Rightarrow> u32 \<Rightarrow> pm_wakelocks \<Rightarrow> pm_wakelocks option" where
  "wakelock_timer_cb now later s = do {
     let s = (case pm_timer_arg s of None \<Rightarrow> s
                | Some x \<Rightarrow> if wl_ref (pm_locks s x) = 0
                            then s\<lparr>pm_links := list_del (WL x) (pm_links s)\<rparr> else s);
     (r, s) \<leftarrow> wakelock_update now later s;
     Some s
   }"

text \<open>The search of \<open>_pm_wake_unlock\<close>: the last lock looked at, \<open>None\<close> for an empty list.\<close>

partial_function (option) unlock_search :: "nat \<Rightarrow> wl_addr \<Rightarrow> nat option \<Rightarrow> pm_wakelocks \<Rightarrow> nat option option" where
  "unlock_search x pos found s =
     (case pos of WL_head \<Rightarrow> Some found
      | WL y \<Rightarrow> if y = x then Some (Some y) else unlock_search x (lnext (pm_links s) pos) (Some y) s)"

abbreviation (input) EINVAL :: int where "EINVAL \<equiv> 22"

definition pm_wake_unlock_type ::
  "u32 \<Rightarrow> u32 \<Rightarrow> nat option \<Rightarrow> pm_wakelock_t \<Rightarrow> pm_wakelocks \<Rightarrow> (int \<times> pm_wakelocks) option" where
  "pm_wake_unlock_type now later wl ty s = (case wl of None \<Rightarrow> Some (- EINVAL, s) | Some x \<Rightarrow> do {
     found \<leftarrow> unlock_search x (lnext (pm_links s) WL_head) None s;
     let ref = wl_ref (pm_locks s x);
     let s = (if found = None then s
              else if ty = PM_WKL_WAIT_TIMEOUT \<and> ref = 0 then s\<lparr>pm_links := list_del (WL x) (pm_links s)\<rparr>
              else if ty = PM_WKL_WAIT_FOREVER \<and> ref \<noteq> 0
              then s\<lparr>pm_locks := (pm_locks s)(x := (pm_locks s x)\<lparr>wl_ref := ref - 1\<rparr>)\<rparr>
              else s);
     (r, s) \<leftarrow> wakelock_update now later s;
     Some (0, s)
   })"

definition pm_wake_unlock :: "u32 \<Rightarrow> u32 \<Rightarrow> nat option \<Rightarrow> pm_wakelocks \<Rightarrow> (int \<times> pm_wakelocks) option" where
  "pm_wake_unlock now later wl s = pm_wake_unlock_type now later wl PM_WKL_WAIT_FOREVER s"

text \<open>\<open>lock\<close> stands for \<open>__pm_wake_lock\<close>.\<close>

definition pm_wake_lock ::
  "(nat option \<Rightarrow> pm_wakelock_t \<Rightarrow> u32 \<Rightarrow> pm_wakelocks \<Rightarrow> int \<times> pm_wakelocks) \<Rightarrow> u32 \<Rightarrow> u32 \<Rightarrow> nat option
     \<Rightarrow> pm_wakelocks \<Rightarrow> (int \<times> pm_wakelocks) option" where
  "pm_wake_lock lock now later wl s = do {
     let (ret, s) = lock wl PM_WKL_WAIT_FOREVER 0 s;
     (r, s) \<leftarrow> wakelock_update now later s;
     Some (ret, s)
   }"

definition pm_wake_lock_timeout ::
  "(nat option \<Rightarrow> pm_wakelock_t \<Rightarrow> u32 \<Rightarrow> pm_wakelocks \<Rightarrow> int \<times> pm_wakelocks) \<Rightarrow> u32 \<Rightarrow> u32 \<Rightarrow> nat option \<Rightarrow> u32
     \<Rightarrow> pm_wakelocks \<Rightarrow> (int \<times> pm_wakelocks) option" where
  "pm_wake_lock_timeout lock now later wl timeout_ms s =
     (if timeout_ms = 0 then pm_wake_unlock_type now later wl PM_WKL_WAIT_TIMEOUT s else do {
        let (ret, s) = lock wl PM_WKL_WAIT_TIMEOUT timeout_ms s;
        (r, s) \<leftarrow> wakelock_update now later s;
        Some (ret, s)
      })"

definition pm_wakelocks_touch :: "pm_wakelocks \<Rightarrow> pm_wakelocks" where
  "pm_wakelocks_touch s = sem_poke (s\<lparr>pm_wl_touch := True\<rparr>)"

definition pm_wakelocks_is_touched :: "pm_wakelocks \<Rightarrow> bool" where
  "pm_wakelocks_is_touched s = pm_wl_touch s"

definition pm_wakelocks_is_active :: "pm_wakelocks \<Rightarrow> bool" where
  "pm_wakelocks_is_active s \<longleftrightarrow> \<not> pm_wl_null s \<or> pm_wl_touch s"

text \<open>The semaphore without count and the timer, not running.\<close>

definition pm_wakelocks_init :: "pm_wakelocks \<Rightarrow> pm_wakelocks" where
  "pm_wakelocks_init s = s\<lparr>pm_sem := 0, pm_timer := None\<rparr>"

section \<open>Waiting\<close>

datatype os_status = OS_OK | OS_FAIL | OS_E_TIMEOUT

text \<open>
  \<open>env\<close> lists what the others do during the successive waits, each changing the state and
  telling whether the semaphore came in time.  With nobody left to end a wait, it never returns.
\<close>

fun pm_wakelocks_wait_loop ::
  "(pm_wakelocks \<Rightarrow> bool \<times> pm_wakelocks) list \<Rightarrow> os_status \<Rightarrow> pm_wakelocks \<Rightarrow> (os_status \<times> pm_wakelocks) option" where
  "pm_wakelocks_wait_loop env ret s =
     (if pm_wl_null s then Some (ret, s)
      else case env of [] \<Rightarrow> None | e # env \<Rightarrow>
        let (ok, s) = e s in
        if pm_wl_touch s then Some (OS_FAIL, s\<lparr>pm_wl_touch := False\<rparr>)
        else if \<not> ok then Some (OS_E_TIMEOUT, s)
        else pm_wakelocks_wait_loop env OS_OK s)"

definition pm_wakelocks_wait ::
  "(pm_wakelocks \<Rightarrow> bool \<times> pm_wakelocks) list \<Rightarrow> pm_wakelocks \<Rightarrow> (os_status \<times> pm_wakelocks) option" where
  "pm_wakelocks_wait env s = pm_wakelocks_wait_loop env OS_OK s"

declare pm_wakelocks_wait_loop.simps [simp del]

end
