(* ===== verification/Pm_Wakelock_Spec.thy ===== *)
theory Pm_Wakelock_Spec
  imports Pm_Wakelock
begin

text \<open>
  The meaning of the wake lock flag: it is clear exactly while some lock is held or has not
  expired, and the timer is armed for the last one to expire.
\<close>

section \<open>The list of locks\<close>

definition wl_ok :: "nat list \<Rightarrow> pm_wakelocks \<Rightarrow> bool" where
  "wl_ok xs s \<longleftrightarrow> dlist (pm_links s) WL_head (map WL xs)"

definition wl_start :: "nat list \<Rightarrow> wl_addr" where
  "wl_start xs = (case xs of [] \<Rightarrow> WL_head | x # _ \<Rightarrow> WL x)"

lemma wl_start_simps [simp]: "wl_start [] = WL_head" "wl_start (x # xs) = WL x"
  by (simp_all add: wl_start_def)

lemma wl_ok_distinct: "wl_ok xs s \<Longrightarrow> distinct xs"
  by (simp add: wl_ok_def dlist_def distinct_map)

lemma wl_first: "wl_ok xs s \<Longrightarrow> lnext (pm_links s) WL_head = wl_start xs"
  using dll_seg_first [of "pm_links s" WL_head "map WL xs" WL_head]
  by (cases xs) (auto simp: wl_ok_def dlist_def)

lemma wl_next:
  assumes "wl_ok (us @ x # vs) s"
  shows "lnext (pm_links s) (WL x) = wl_start vs"
proof -
  have "dll_seg (pm_links s) (WL x) (map WL vs) WL_head"
    using assms by (simp add: wl_ok_def dlist_def dll_seg_append)
  then show ?thesis using dll_seg_first by (cases vs) fastforce+
qed

lemma wl_ok_del: "wl_ok (us @ x # vs) s \<Longrightarrow> wl_ok (us @ vs) (s\<lparr>pm_links := list_del (WL x) (pm_links s)\<rparr>)"
  using dlist_del [of "pm_links s" WL_head "map WL us" "WL x" "map WL vs"] by (simp add: wl_ok_def)

lemma wl_ok_cong: "pm_links t = pm_links s \<Longrightarrow> wl_ok xs t = wl_ok xs s"
  by (simp add: wl_ok_def)

section \<open>The walk\<close>

definition wl_held :: "pm_wakelocks \<Rightarrow> nat \<Rightarrow> bool" where
  "wl_held s x \<longleftrightarrow> wl_ref (pm_locks s x) \<noteq> 0"

text \<open>What keeps the system awake at a time.\<close>

definition wl_live :: "u32 \<Rightarrow> pm_wakelocks \<Rightarrow> nat \<Rightarrow> bool" where
  "wl_live now s x \<longleftrightarrow> wl_held s x \<or> \<not> OS_TimeAfterEqual now (wl_expires (pm_locks s x))"

definition pick_last :: "pm_wakelocks \<Rightarrow> nat \<Rightarrow> u32 \<times> nat option \<Rightarrow> u32 \<times> nat option" where
  "pick_last s x em = (if fst em = OS_WAIT_FOREVER \<or> OS_TimeBefore (fst em) (wl_expires (pm_locks s x))
     then (wl_expires (pm_locks s x), Some x) else em)"

text \<open>The walk only touches the links.\<close>

definition same_but_links :: "pm_wakelocks \<Rightarrow> pm_wakelocks \<Rightarrow> bool" where
  "same_but_links s t \<longleftrightarrow> t = s\<lparr>pm_links := pm_links t\<rparr>"

lemma same_but_links_refl [simp]: "same_but_links s s"
  by (simp add: same_but_links_def)

lemma same_but_links_upd: "same_but_links (s\<lparr>pm_links := L\<rparr>) t \<Longrightarrow> same_but_links s t"
  by (simp add: same_but_links_def)

lemma same_but_links_sel:
  assumes "same_but_links s t"
  shows "pm_locks t = pm_locks s" "pm_wl_null t = pm_wl_null s" "pm_wl_touch t = pm_wl_touch s" "pm_sem t = pm_sem s"
    "pm_timer t = pm_timer s" "pm_timer_arg t = pm_timer_arg s"
  using assms by (simp_all add: same_but_links_def) (metis pm_wakelocks.select_convs pm_wakelocks.surjective pm_wakelocks.update_convs(1))+

lemma live_upd [simp]:
  "wl_held (s\<lparr>pm_links := L\<rparr>) = wl_held s" "wl_live now (s\<lparr>pm_links := L\<rparr>) = wl_live now s"
  "pick_last (s\<lparr>pm_links := L\<rparr>) = pick_last s"
  by (simp_all add: wl_held_def wl_live_def pick_last_def fun_eq_iff)

lemma update_loop_free:
  assumes "wl_ok (us @ vs) s" "vs \<noteq> [] \<longrightarrow> n = wl_start (tl vs)" "\<forall>x \<in> set vs. \<not> wl_held s x"
  shows "\<exists>t. update_loop now (wl_start vs) n w e m s =
       Some (False, if vs = [] then w else Some (last vs), fst (fold (pick_last s) (filter (wl_live now s) vs) (e, m)),
             snd (fold (pick_last s) (filter (wl_live now s) vs) (e, m)), t) \<and>
     wl_ok (us @ filter (wl_live now s) vs) t \<and> same_but_links s t"
  using assms
proof (induction vs arbitrary: us n w e m s)
  case Nil
  then show ?case by (subst update_loop.simps) simp
next
  case (Cons x vs)
  have n: "n = wl_start vs" and free: "wl_ref (pm_locks s x) = 0" "\<forall>y \<in> set vs. \<not> wl_held s y"
    using Cons.prems(2,3) by (simp_all add: wl_held_def)
  show ?case
  proof (cases "OS_TimeAfterEqual now (wl_expires (pm_locks s x))")
    case True
    let ?s = "s\<lparr>pm_links := list_del (WL x) (pm_links s)\<rparr>"
    have ok: "wl_ok (us @ vs) ?s" by (rule wl_ok_del [OF Cons.prems(1)])
    have nxt: "vs \<noteq> [] \<longrightarrow> lnext (pm_links ?s) n = wl_start (tl vs)"
      using wl_next [of us "hd vs" "tl vs" ?s] ok n by (cases vs) auto
    have run: "update_loop now (wl_start (x # vs)) n w e m s =
        update_loop now (wl_start vs) (lnext (pm_links ?s) n) (Some x) e m ?s"
      using True free(1) n by (subst update_loop.simps) (simp add: Let_def)
    have "\<not> wl_live now s x" using True free(1) by (simp add: wl_live_def wl_held_def)
    then show ?thesis
      unfolding run using Cons.IH [OF ok nxt, of "Some x" e m] free(2) same_but_links_upd by fastforce
  next
    case False
    let ?em = "pick_last s x (e, m)"
    have ok: "wl_ok ((us @ [x]) @ vs) s" using Cons.prems(1) by simp
    have nxt: "vs \<noteq> [] \<longrightarrow> lnext (pm_links s) n = wl_start (tl vs)"
      using wl_next [of "us @ [x]" "hd vs" "tl vs" s] ok n by (cases vs) auto
    have run: "update_loop now (wl_start (x # vs)) n w e m s =
        update_loop now (wl_start vs) (lnext (pm_links s) n) (Some x) (fst ?em) (snd ?em) s"
      using False free(1) n by (subst update_loop.simps) (simp add: pick_last_def)
    have live: "wl_live now s x" using False by (simp add: wl_live_def)
    show ?thesis
      unfolding run using Cons.IH [OF ok nxt free(2), of "Some x" "fst ?em" "snd ?em"] live by (auto simp: if_distrib)
  qed
qed

text \<open>A held lock ends the walk; the live locks stay in the list.\<close>

lemma update_loop_held:
  assumes "wl_ok (us @ vs) s" "vs \<noteq> [] \<longrightarrow> n = wl_start (tl vs)" "\<exists>x \<in> set vs. wl_held s x"
  shows "\<exists>w' e' m' t ys. update_loop now (wl_start vs) n w e m s = Some (True, w', e', m', t) \<and>
     wl_ok (us @ ys) t \<and> set ys \<subseteq> set vs \<and> (\<forall>x \<in> set vs. wl_live now s x \<longrightarrow> x \<in> set ys) \<and> same_but_links s t"
  using assms
proof (induction vs arbitrary: us n w e m s)
  case (Cons x vs)
  have n: "n = wl_start vs" using Cons.prems(2) by simp
  show ?case
  proof (cases "wl_held s x")
    case True
    then have "update_loop now (wl_start (x # vs)) n w e m s = Some (True, Some x, e, m, s)"
      by (subst update_loop.simps) (simp add: wl_held_def)
    then show ?thesis using Cons.prems(1) by (intro exI [of _ "x # vs"] exI) auto
  next
    case free: False
    then have held: "\<exists>y \<in> set vs. wl_held s y" using Cons.prems(3) by auto
    show ?thesis
    proof (cases "OS_TimeAfterEqual now (wl_expires (pm_locks s x))")
      case True
      let ?s = "s\<lparr>pm_links := list_del (WL x) (pm_links s)\<rparr>"
      have ok: "wl_ok (us @ vs) ?s" by (rule wl_ok_del [OF Cons.prems(1)])
      have nxt: "vs \<noteq> [] \<longrightarrow> lnext (pm_links ?s) n = wl_start (tl vs)"
        using wl_next [of us "hd vs" "tl vs" ?s] ok n by (cases vs) auto
      have run: "update_loop now (wl_start (x # vs)) n w e m s =
          update_loop now (wl_start vs) (lnext (pm_links ?s) n) (Some x) e m ?s"
        using True free n by (subst update_loop.simps) (simp add: Let_def wl_held_def)
      have "\<not> wl_live now s x" using True free by (simp add: wl_live_def)
      then have dead: "\<not> wl_live now s x" .
      obtain w' e' m' t ys where r: "update_loop now (wl_start (x # vs)) n w e m s = Some (True, w', e', m', t)"
        "wl_ok (us @ ys) t" "set ys \<subseteq> set vs" "\<forall>y \<in> set vs. wl_live now s y \<longrightarrow> y \<in> set ys" "same_but_links ?s t"
        unfolding run using Cons.IH [OF ok nxt, unfolded live_upd, OF held, of "Some x" e m] by blast
      show ?thesis
        by (rule exI [of _ w'], rule exI [of _ e'], rule exI [of _ m'], rule exI [of _ t], rule exI [of _ ys])
          (use r dead same_but_links_upd [OF r(5)] in auto)
    next
      case False
      let ?em = "pick_last s x (e, m)"
      have ok: "wl_ok ((us @ [x]) @ vs) s" using Cons.prems(1) by simp
      have nxt: "vs \<noteq> [] \<longrightarrow> lnext (pm_links s) n = wl_start (tl vs)"
        using wl_next [of "us @ [x]" "hd vs" "tl vs" s] ok n by (cases vs) auto
      have run: "update_loop now (wl_start (x # vs)) n w e m s =
          update_loop now (wl_start vs) (lnext (pm_links s) n) (Some x) (fst ?em) (snd ?em) s"
        using False free n by (subst update_loop.simps) (simp add: pick_last_def wl_held_def)
      obtain w' e' m' t ys where r: "update_loop now (wl_start (x # vs)) n w e m s = Some (True, w', e', m', t)"
        "wl_ok ((us @ [x]) @ ys) t" "set ys \<subseteq> set vs" "\<forall>y \<in> set vs. wl_live now s y \<longrightarrow> y \<in> set ys" "same_but_links s t"
        unfolding run using Cons.IH [OF ok nxt held, of "Some x" "fst ?em" "snd ?em"] by blast
      show ?thesis
        by (rule exI [of _ w'], rule exI [of _ e'], rule exI [of _ m'], rule exI [of _ t], rule exI [of _ "x # ys"])
          (use r in auto)
    qed
  qed
qed simp


section \<open>The last lock to expire\<close>

text \<open>A live lock that is not held expires within half the range of the clock.\<close>

definition wl_left :: "u32 \<Rightarrow> pm_wakelocks \<Rightarrow> nat \<Rightarrow> u32" where
  "wl_left now s x = wl_expires (pm_locks s x) - now"

lemma sint_u32: "sint (d :: u32) = (if uint d < 2147483648 then uint d else uint d - 4294967296)"
proof -
  have lt: "uint d < 4294967296" using uint_lt2p [of d] by simp
  have "bit (uint d) 31 \<longleftrightarrow> 2147483648 \<le> uint d"
  proof (cases "2147483648 \<le> uint d")
    case True
    then have "uint d div 2147483648 = 1" using lt by (simp add: div_pos_geq div_pos_pos_trivial)
    then show ?thesis using True by (simp add: bit_iff_odd)
  qed (simp add: bit_iff_odd div_pos_pos_trivial)
  moreover have "take_bit 32 (uint d) = uint d" using lt by (simp add: take_bit_int_eq_self_iff)
  ultimately show ?thesis
    by (simp add: sint_uint signed_take_bit_eq_take_bit_minus)
qed

lemma uint_diff_u32: "uint (a - b :: u32) = (if uint b \<le> uint a then uint a - uint b else uint a - uint b + 4294967296)"
  using uint_sub_if' [of a b] by simp

lemma uint_zero_u32: "(d :: u32) = 0 \<longleftrightarrow> uint d = 0"
  by (simp add: word_uint_eq_iff)

lemma after_equal_iff:
  "OS_TimeAfterEqual now e \<longleftrightarrow> e - now = 0 \<or> 2147483648 < uint (e - now)"
proof -
  have "0 \<le> n \<Longrightarrow> n < 4294967296 \<Longrightarrow> 0 \<le> i \<Longrightarrow> i < 4294967296 \<Longrightarrow>
      (0 \<le> (if (if i \<le> n then n - i else n - i + 4294967296) < 2147483648 then (if i \<le> n then n - i else n - i + 4294967296)
             else (if i \<le> n then n - i else n - i + 4294967296) - 4294967296))
      = ((if n \<le> i then i - n else i - n + 4294967296) = 0 \<or> 2147483648 < (if n \<le> i then i - n else i - n + 4294967296))"
    for n i :: int by presburger
  then show ?thesis
    using uint_lt2p [of now] uint_lt2p [of e] uint_ge_0 [of now] uint_ge_0 [of e]
    unfolding OS_TimeAfterEqual_def sint_u32 uint_diff_u32 uint_zero_u32 by simp
qed

lemma before_iff:
  assumes "uint (a - now :: u32) \<le> 2147483648" "uint (b - now) \<le> 2147483648" "a - now \<noteq> 0" "b - now \<noteq> 0"
  shows "OS_TimeBefore a b \<longleftrightarrow> a - now < b - now"
proof -
  have "0 < i \<Longrightarrow> i \<le> 2147483648 \<Longrightarrow> 0 < j \<Longrightarrow> j \<le> 2147483648 \<Longrightarrow>
      ((if (if j \<le> i then i - j else i - j + 4294967296) < 2147483648 then (if j \<le> i then i - j else i - j + 4294967296)
        else (if j \<le> i then i - j else i - j + 4294967296) - 4294967296) < 0) = (i < j)"
    for i j :: int by presburger
  moreover have "uint (a - now) > 0" "uint (b - now) > 0"
    using assms(3,4) uint_ge_0 [of "a - now"] uint_ge_0 [of "b - now"] unfolding uint_zero_u32 by linarith+
  moreover have "a - b = (a - now) - (b - now)" by simp
  ultimately show ?thesis
    using assms(1,2) unfolding OS_TimeBefore_def OS_TimeAfter_def sint_u32 word_less_def
    by (simp only: uint_diff_u32 [of "a - now" "b - now"])
qed

text \<open>An expiry in the half of the clock ahead of now, other than the sentinel.\<close>

definition ahead :: "u32 \<Rightarrow> u32 \<Rightarrow> bool" where
  "ahead now e \<longleftrightarrow> \<not> OS_TimeAfterEqual now e \<and> e \<noteq> OS_WAIT_FOREVER"

lemma ahead_before: "ahead now a \<Longrightarrow> ahead now b \<Longrightarrow> OS_TimeBefore a b \<longleftrightarrow> a - now < b - now"
  by (rule before_iff) (auto simp: ahead_def after_equal_iff)

lemma ahead_after: "ahead now e \<Longrightarrow> OS_TimeAfter e now"
  by (simp add: ahead_def OS_TimeAfterEqual_def OS_TimeAfter_def)

lemma pick_fold:
  assumes "ahead now e" "\<forall>x \<in> set xs. ahead now (wl_expires (pm_locks s x))"
  shows "ahead now (fst (fold (pick_last s) xs (e, m))) \<and>
     fst (fold (pick_last s) xs (e, m)) - now = fold max (map (wl_left now s) xs) (e - now)"
  using assms
proof (induction xs arbitrary: e m)
  case (Cons x xs)
  let ?x = "wl_expires (pm_locks s x)"
  let ?e = "if OS_TimeBefore e ?x then ?x else e"
  have "e \<noteq> OS_WAIT_FOREVER" using Cons.prems(1) by (simp add: ahead_def)
  then have step: "pick_last s x (e, m) = (?e, if OS_TimeBefore e ?x then Some x else m)"
    by (simp add: pick_last_def)
  have "ahead now ?e" "?e - now = max (wl_left now s x) (e - now)"
    using Cons.prems ahead_before [of now e ?x] by (auto simp: wl_left_def max_def)
  then show ?case using Cons.IH [of ?e] Cons.prems(2) step by simp
qed simp

lemma pick_all:
  assumes "\<forall>x \<in> set xs. ahead now (wl_expires (pm_locks s x))" "xs \<noteq> []"
  shows "ahead now (fst (fold (pick_last s) xs (OS_WAIT_FOREVER, None))) \<and>
     fst (fold (pick_last s) xs (OS_WAIT_FOREVER, None)) - now = Max (wl_left now s ` set xs)"
proof -
  obtain x ys where xs: "xs = x # ys" using assms(2) by (cases xs) auto
  have "pick_last s x (OS_WAIT_FOREVER, None) = (wl_expires (pm_locks s x), Some x)"
    by (simp add: pick_last_def)
  moreover have "Max (wl_left now s ` set xs) = fold max (map (wl_left now s) ys) (wl_left now s x)"
    using Max.set_eq_fold [of "wl_left now s x" "map (wl_left now s) ys"] xs by simp
  ultimately show ?thesis
    using pick_fold [of now "wl_expires (pm_locks s x)" ys s "Some x"] assms(1) xs by (simp add: wl_left_def)
qed

section \<open>The update\<close>

text \<open>No lock expires at the sentinel.\<close>

definition wl_proper :: "nat list \<Rightarrow> pm_wakelocks \<Rightarrow> bool" where
  "wl_proper xs s \<longleftrightarrow> (\<forall>x \<in> set xs. wl_expires (pm_locks s x) \<noteq> OS_WAIT_FOREVER)"

lemma wakelock_update_spec:
  assumes ok: "wl_ok xs s" and proper: "wl_proper xs s"
  shows "\<exists>r t ys. wakelock_update now now s = Some (r, t) \<and> wl_ok ys t \<and> set ys \<subseteq> set xs \<and>
     (\<forall>x \<in> set xs. wl_live now s x \<longrightarrow> x \<in> set ys) \<and> pm_locks t = pm_locks s \<and> pm_wl_touch t = pm_wl_touch s \<and>
     (pm_wl_null t \<longleftrightarrow> (\<forall>x \<in> set xs. \<not> wl_live now s x)) \<and>
     ((\<forall>x \<in> set xs. \<not> wl_held s x) \<and> (\<exists>x \<in> set xs. wl_live now s x) \<longrightarrow>
        pm_timer t = Some (Max (wl_left now s ` {x \<in> set xs. wl_live now s x})))"
proof (cases "\<exists>x \<in> set xs. wl_held s x")
  case True
  have start: "lnext (pm_links s) WL_head = wl_start xs" by (rule wl_first [OF ok])
  have nxt: "xs \<noteq> [] \<longrightarrow> lnext (pm_links s) (wl_start xs) = wl_start (tl xs)"
    using wl_next [of "[]" "hd xs" "tl xs" s] ok by (cases xs) auto
  obtain w' e' m' t ys where r:
    "update_loop now (wl_start xs) (lnext (pm_links s) (wl_start xs)) None OS_WAIT_FOREVER None s = Some (True, w', e', m', t)"
    "wl_ok ys t" "set ys \<subseteq> set xs" "\<forall>x \<in> set xs. wl_live now s x \<longrightarrow> x \<in> set ys" "same_but_links s t"
    using update_loop_held [of "[]" xs s _ now None OS_WAIT_FOREVER None, OF _ nxt True] ok by auto
  have "wakelock_update now now s = Some (2, t\<lparr>pm_wl_null := False\<rparr>)"
    using r(1) start by (simp add: wakelock_update_def Let_def)
  moreover have "wl_ok ys (t\<lparr>pm_wl_null := False\<rparr>)" using r(2) by (simp add: wl_ok_def)
  moreover have "\<exists>x \<in> set xs. wl_live now s x" using True by (auto simp: wl_live_def)
  ultimately show ?thesis using r(3,4) same_but_links_sel [OF r(5)] True by auto
next
  case False
  let ?live = "filter (wl_live now s) xs"
  let ?em = "fold (pick_last s) ?live (OS_WAIT_FOREVER, None)"
  have start: "lnext (pm_links s) WL_head = wl_start xs" by (rule wl_first [OF ok])
  have nxt: "xs \<noteq> [] \<longrightarrow> lnext (pm_links s) (wl_start xs) = wl_start (tl xs)"
    using wl_next [of "[]" "hd xs" "tl xs" s] ok by (cases xs) auto
  obtain t where r: "update_loop now (wl_start xs) (lnext (pm_links s) (wl_start xs)) None OS_WAIT_FOREVER None s =
      Some (False, if xs = [] then None else Some (last xs), fst ?em, snd ?em, t)"
    "wl_ok ?live t" "same_but_links s t"
    using update_loop_free [of "[]" xs s _ now None OS_WAIT_FOREVER None, OF _ nxt] ok False by auto
  note sel = same_but_links_sel [OF r(3)]
  show ?thesis
  proof (cases "?live = []")
    case True
    then have "wakelock_update now now s = Some (0, sem_poke (t\<lparr>pm_wl_null := True\<rparr>))"
      using r(1) start by (simp add: wakelock_update_def Let_def)
    moreover have "wl_ok [] (sem_poke (t\<lparr>pm_wl_null := True\<rparr>))" using r(2) True by (simp add: wl_ok_def sem_poke_def)
    moreover have "\<forall>x \<in> set xs. \<not> wl_live now s x" using True by (simp add: filter_empty_conv)
    ultimately show ?thesis using sel by (auto simp: sem_poke_def)
  next
    case some: False
    have "\<forall>x \<in> set ?live. ahead now (wl_expires (pm_locks s x))"
      using False proper by (auto simp: wl_live_def ahead_def wl_proper_def)
    then have pick: "ahead now (fst ?em)" "fst ?em - now = Max (wl_left now s ` set ?live)"
      using pick_all some by blast+
    let ?t = "t\<lparr>pm_timer_arg := snd ?em, pm_timer_expires := fst ?em, pm_wl_null := False, pm_timer := Some (fst ?em - now)\<rparr>"
    have xs: "xs \<noteq> []" using some by auto
    have "fst ?em \<noteq> OS_WAIT_FOREVER" using pick(1) by (simp add: ahead_def)
    then have "wakelock_update now now s = Some (1, ?t)"
      using r(1) start xs ahead_after [OF pick(1)] by (simp add: wakelock_update_def Let_def)
    moreover have "wl_ok ?live ?t" using r(2) by (simp add: wl_ok_def)
    moreover have "\<exists>x \<in> set xs. wl_live now s x" using some by (simp add: filter_empty_conv)
    ultimately show ?thesis using sel pick(2) False by auto
  qed
qed

section \<open>Locking and unlocking\<close>

lemma unlock_search_finds:
  assumes "wl_ok (us @ vs) s" "x \<in> set vs"
  shows "unlock_search x (wl_start vs) w s = Some (Some x)"
  using assms
proof (induction vs arbitrary: us w)
  case (Cons y vs)
  have nxt: "lnext (pm_links s) (WL y) = wl_start vs" by (rule wl_next [OF Cons.prems(1)])
  show ?case
    using Cons.IH [of "us @ [y]"] Cons.prems nxt by (subst unlock_search.simps) auto
qed simp

text \<open>
  What entering a lock in FOREVER mode does, as documented in \<open>pm.h\<close>: the lock is in the list,
  once, with one reference more.
\<close>

definition lock_entered :: "nat \<Rightarrow> nat list \<Rightarrow> pm_wakelocks \<Rightarrow> pm_wakelocks \<Rightarrow> bool" where
  "lock_entered x xs s t \<longleftrightarrow> wl_ok (if x \<in> set xs then xs else xs @ [x]) t \<and> pm_wl_touch t = pm_wl_touch s \<and>
     pm_locks t = (pm_locks s)(x := (pm_locks s x)\<lparr>wl_ref := wl_ref (pm_locks s x) + 1\<rparr>)"

lemma lock_unlock:
  assumes lock: "lock (Some x) PM_WKL_WAIT_FOREVER 0 s = (0, t)" "lock_entered x xs s t"
    and room: "wl_ref (pm_locks s x) + 1 \<noteq> 0" and proper: "wl_proper (x # xs) s"
  shows "\<exists>s1 s2 ys. pm_wake_lock lock t1 t1 (Some x) s = Some (0, s1) \<and> pm_wakelocks_is_active s1 \<and>
     wl_ok ys s1 \<and> x \<in> set ys \<and> set ys \<subseteq> insert x (set xs) \<and>
     pm_wake_unlock t2 t2 (Some x) s1 = Some (0, s2) \<and> pm_locks s2 = pm_locks s \<and>
     (pm_wakelocks_is_active s2 \<longleftrightarrow> pm_wl_touch s \<or> (\<exists>y \<in> set ys. wl_live t2 s y))"
proof -
  let ?xs = "if x \<in> set xs then xs else xs @ [x]"
  have t: "wl_ok ?xs t" "pm_locks t = (pm_locks s)(x := (pm_locks s x)\<lparr>wl_ref := wl_ref (pm_locks s x) + 1\<rparr>)"
    "pm_wl_touch t = pm_wl_touch s" using lock(2) by (simp_all add: lock_entered_def)
  have x: "x \<in> set ?xs" "wl_held t x" using room t(2) by (simp_all add: wl_held_def)
  have "wl_proper ?xs t" using proper t(2) by (auto simp: wl_proper_def)
  then obtain r s1 ys where u1: "wakelock_update t1 t1 t = Some (r, s1)" "wl_ok ys s1" "set ys \<subseteq> set ?xs"
    "\<forall>y \<in> set ?xs. wl_live t1 t y \<longrightarrow> y \<in> set ys" "pm_locks s1 = pm_locks t" "pm_wl_touch s1 = pm_wl_touch t"
    "pm_wl_null s1 \<longleftrightarrow> (\<forall>y \<in> set ?xs. \<not> wl_live t1 t y)"
    using wakelock_update_spec [OF t(1), of t1] by blast
  have live: "wl_live t1 t x" using x(2) by (simp add: wl_live_def)
  then have ys: "x \<in> set ys" and act: "\<not> pm_wl_null s1" using u1(4,7) x(1) by blast+
  have lk: "pm_wake_lock lock t1 t1 (Some x) s = Some (0, s1)" using lock(1) u1(1) by (simp add: pm_wake_lock_def)
  let ?s1 = "s1\<lparr>pm_locks := pm_locks s\<rparr>"
  have found: "unlock_search x (lnext (pm_links s1) WL_head) None s1 = Some (Some x)"
    using unlock_search_finds [of "[]" ys s1 x None] u1(2) ys wl_first [OF u1(2)] by simp
  have undone: "(pm_locks s1)(x := (pm_locks s1 x)\<lparr>wl_ref := wl_ref (pm_locks s1 x) - 1\<rparr>) = pm_locks s"
    using u1(5) t(2) by (simp add: fun_eq_iff)
  have "wl_ok ys ?s1" using u1(2) by (simp add: wl_ok_def)
  moreover have "wl_proper ys ?s1" using proper u1(3) by (auto simp: wl_proper_def split: if_splits)
  ultimately obtain r' s2 where u2: "wakelock_update t2 t2 ?s1 = Some (r', s2)" "pm_locks s2 = pm_locks s"
    "pm_wl_touch s2 = pm_wl_touch s1" "pm_wl_null s2 \<longleftrightarrow> (\<forall>y \<in> set ys. \<not> wl_live t2 ?s1 y)"
    using wakelock_update_spec [of ys ?s1 t2] by auto
  have "pm_wake_unlock t2 t2 (Some x) s1 = Some (0, s2)"
    using found undone u2(1) u1(5) x(2) by (simp add: pm_wake_unlock_def pm_wake_unlock_type_def Let_def wl_held_def)
  moreover have "wl_live t2 ?s1 y = wl_live t2 s y" for y by (simp add: wl_live_def wl_held_def)
  ultimately show ?thesis
    using lk act u1(2,3,6) ys u2(2-4) t(3) by (intro exI [of _ s1] exI [of _ s2] exI [of _ ys]) (auto simp: pm_wakelocks_is_active_def split: if_splits)
qed

section \<open>A concrete list\<close>

definition one_lock :: "u16 \<Rightarrow> u32 \<Rightarrow> pm_wakelocks" where
  "one_lock ref expires = \<lparr>pm_links = list_add_tail (WL 0) WL_head \<lparr>lnext = (\<lambda>x. x), lprev = (\<lambda>x. x)\<rparr>,
     pm_locks = (\<lambda>_. \<lparr>wl_expires = expires, wl_ref = ref\<rparr>), pm_wl_null = True, pm_wl_touch = False,
     pm_timer_arg = None, pm_timer_expires = 0, pm_timer = None, pm_sem = 0\<rparr>"

lemma one_lock_ok: "wl_ok [0] (one_lock ref e)"
  using dlist_add_tail [of "\<lparr>lnext = (\<lambda>x. x), lprev = (\<lambda>x. x)\<rparr>" WL_head "[]" "WL 0"]
  by (simp add: wl_ok_def one_lock_def)

text \<open>Entering a lock that is in the list already.\<close>

definition enter_again :: "nat option \<Rightarrow> pm_wakelock_t \<Rightarrow> u32 \<Rightarrow> pm_wakelocks \<Rightarrow> int \<times> pm_wakelocks" where
  "enter_again wl ty t s = (case wl of None \<Rightarrow> (- EINVAL, s) | Some x \<Rightarrow>
     (0, s\<lparr>pm_locks := (pm_locks s)(x := (pm_locks s x)\<lparr>wl_ref := wl_ref (pm_locks s x) + 1\<rparr>)\<rparr>))"

lemma enter_again_entered:
  "wl_ok xs s \<Longrightarrow> x \<in> set xs \<Longrightarrow> enter_again (Some x) PM_WKL_WAIT_FOREVER 0 s = (0, snd (enter_again (Some x) PM_WKL_WAIT_FOREVER 0 s)) \<and>
   lock_entered x xs s (snd (enter_again (Some x) PM_WKL_WAIT_FOREVER 0 s))"
  by (simp add: enter_again_def lock_entered_def wl_ok_def)

end
