(* ===== verification/Console.thy ===== *)
theory Console
  imports XR_Prelude
begin

text \<open>
  The serial console of \<open>src/console/console.c\<close>: the receive interrupt assembles command lines
  in two buffers, the console task executes them.  The configuration is the one of the source:
  echo on, new line mode 1, empty commands passed on.
\<close>

section \<open>State\<close>

datatype console_state = CONSOLE_STATE_STOP | CONSOLE_STATE_START | CONSOLE_STATE_TERMINATE

abbreviation (input) CONSOLE_CMD_LINE_MAX_LEN :: nat where "CONSOLE_CMD_LINE_MAX_LEN \<equiv> 256"
abbreviation (input) CONSOLE_CMD_LINE_BUF_NUM :: nat where "CONSOLE_CMD_LINE_BUF_NUM \<equiv> 2"
abbreviation (input) CONSOLE_INVALID_BUF_IDX :: nat where "CONSOLE_INVALID_BUF_IDX \<equiv> 2"

text \<open>
  \<open>g_console_buf\<close> is one array that holds both buffers, one after the other.  \<open>cn_rx_data\<close> is
  \<open>g_console_rx_data\<close>, \<open>cn_uart\<close> the data the UART has received and \<open>cn_tx\<close> what it has sent.
  \<open>cn_lines\<close> is a history of the command lines handed to the task; the code has no such variable.
\<close>

record console_priv =
  cn_state :: console_state
  cn_free :: "bool list"
  cn_ready :: "bool list"
  cn_last :: nat
  cn_rx_idx :: nat
  cn_rx_cnt :: nat
  cn_buf :: "u8 list"
  cn_sem :: nat
  cn_rx_data :: "u8 option"
  cn_uart :: "u8 list"
  cn_tx :: "u8 list"
  cn_rx_enabled :: bool
  cn_lines :: "u8 list list"

section \<open>Buffers\<close>

fun console_get_valid_buf_idx :: "nat \<Rightarrow> bool list \<Rightarrow> nat \<Rightarrow> nat \<times> bool list" where
  "console_get_valid_buf_idx 0 bitmap idx = (CONSOLE_INVALID_BUF_IDX, bitmap)"
| "console_get_valid_buf_idx (Suc loop) bitmap idx =
     (let idx = (idx + 1) mod CONSOLE_CMD_LINE_BUF_NUM in
      if bitmap ! idx then (idx, bitmap[idx := False]) else console_get_valid_buf_idx loop bitmap idx)"

text \<open>The string in a buffer: up to the terminating zero.\<close>

definition cmd_buf :: "nat \<Rightarrow> console_priv \<Rightarrow> u8 list" where
  "cmd_buf idx c = takeWhile (\<lambda>d. d \<noteq> 0) (drop (idx * CONSOLE_CMD_LINE_MAX_LEN) (cn_buf c))"

text \<open>\<open>*rx_buf = d\<close> with \<open>rx_buf\<close> at an offset in the current buffer.\<close>

definition put_rx_buf :: "nat \<Rightarrow> u8 \<Rightarrow> console_priv \<Rightarrow> console_priv option" where
  "put_rx_buf off d c =
     (let i = cn_rx_idx c * CONSOLE_CMD_LINE_MAX_LEN + off in
      if i < length (cn_buf c) then Some (c\<lparr>cn_buf := (cn_buf c)[i := d]\<rparr>) else None)"

definition console_rx_cmdline :: "console_priv \<Rightarrow> console_priv" where
  "console_rx_cmdline c =
     (let c = c\<lparr>cn_ready := (cn_ready c)[cn_rx_idx c := True], cn_lines := cn_lines c @ [cmd_buf (cn_rx_idx c) c]\<rparr>;
          (idx, free) = console_get_valid_buf_idx CONSOLE_CMD_LINE_BUF_NUM (cn_free c) (cn_rx_idx c)
      in c\<lparr>cn_free := free, cn_rx_idx := idx, cn_rx_cnt := 0, cn_sem := cn_sem c + 1\<rparr>)"

section \<open>The receive interrupt\<close>

definition echo :: "u8 list \<Rightarrow> console_priv \<Rightarrow> console_priv" where
  "echo ds c = c\<lparr>cn_tx := cn_tx c @ ds\<rparr>"

text \<open>\<open>console_is_rx_ready\<close> and \<open>console_get_rx_data\<close> in one.\<close>

definition console_get_rx_data :: "console_priv \<Rightarrow> (u8 \<times> console_priv) option" where
  "console_get_rx_data c = (case cn_rx_data c of
     Some d \<Rightarrow> Some (d, c\<lparr>cn_rx_data := None\<rparr>)
   | None \<Rightarrow> (case cn_uart c of [] \<Rightarrow> None | d # ds \<Rightarrow> Some (d, c\<lparr>cn_uart := ds\<rparr>)))"

abbreviation (input) CH_BS :: u8 where "CH_BS \<equiv> 0x08"
abbreviation (input) CH_LF :: u8 where "CH_LF \<equiv> 0x0A"
abbreviation (input) CH_CR :: u8 where "CH_CR \<equiv> 0x0D"
abbreviation (input) CH_DEL :: u8 where "CH_DEL \<equiv> 0x7F"

definition isprint :: "u8 \<Rightarrow> bool" where
  "isprint d \<longleftrightarrow> 0x20 \<le> d \<and> d \<le> 0x7E"

text \<open>After a carriage return: a line feed is skipped, anything else is kept for a restart.\<close>

definition after_cr :: "console_priv \<Rightarrow> bool \<times> console_priv" where
  "after_cr c = (case cn_uart c of [] \<Rightarrow> (False, c)
     | e # es \<Rightarrow> if e = CH_LF then (False, c\<lparr>cn_uart := es\<rparr>) else (True, c\<lparr>cn_uart := es, cn_rx_data := Some e\<rparr>))"

definition unread :: "console_priv \<Rightarrow> nat" where
  "unread c = length (cn_uart c) + (if cn_rx_data c = None then 0 else 1)"

lemma unread_get: "console_get_rx_data c = Some (d, c') \<Longrightarrow> unread c = Suc (unread c')"
  by (auto simp: console_get_rx_data_def unread_def split: option.splits list.splits)

lemma unread_upd [simp]:
  "unread (if P then echo ds c else c) = unread c"
  "unread (c\<lparr>cn_rx_cnt := n\<rparr>) = unread c" "unread (c\<lparr>cn_buf := b\<rparr>) = unread c" "unread (echo ds c) = unread c"
  by (auto simp: unread_def echo_def split: if_splits)

lemma unread_put: "put_rx_buf off d c = Some c' \<Longrightarrow> unread c' = unread c"
  by (auto simp: unread_def put_rx_buf_def Let_def split: if_splits)

text \<open>
  The loop over the received data: \<open>off\<close> is the position of \<open>rx_buf\<close> in the buffer, \<open>cnt\<close> the count.
  The first result is the outcome: \<open>None\<close> when the data have run out, otherwise a line is complete
  and the flag tells whether to restart.
\<close>

function rx_chars :: "nat \<Rightarrow> nat \<Rightarrow> console_priv \<Rightarrow> (bool option \<times> console_priv) option" where
  "rx_chars off cnt c =
     (if cnt \<ge> CONSOLE_CMD_LINE_MAX_LEN then rx_chars 0 0 (c\<lparr>cn_rx_cnt := 0\<rparr>) else
      case console_get_rx_data c of
        None \<Rightarrow> Some (None, c\<lparr>cn_rx_cnt := cnt\<rparr>)
      | Some (d, c) \<Rightarrow>
          if d = CH_BS \<or> d = CH_DEL then
            (if cnt = 0 then rx_chars off cnt c else rx_chars off (cnt - 1) (echo [CH_BS, 0x20, CH_BS] c))
          else let c = (if d \<noteq> CH_LF \<and> d \<noteq> CH_CR then echo [d] c else c) in
          if d = CH_LF \<or> d = CH_CR then
            let (restart, c) = (if d = CH_CR then after_cr c else (False, c)) in do {
              c \<leftarrow> put_rx_buf off 0 c;
              Some (Some restart, console_rx_cmdline (echo [CH_CR, CH_LF] c))
            }
          else if isprint d then
            (case put_rx_buf off d c of None \<Rightarrow> None | Some c \<Rightarrow> rx_chars (off + 1) (cnt + 1) c)
          else rx_chars 0 0 (c\<lparr>cn_rx_cnt := 0\<rparr>))"
  by pat_completeness auto
termination
  by (relation "measure (\<lambda>(off, cnt, c). 2 * unread c + (if cnt \<ge> 256 then 1 else 0))")
    (auto dest!: unread_get unread_put)

declare rx_chars.simps [simp del]

partial_function (option) console_rx_callback :: "console_priv \<Rightarrow> console_priv option" where
  "console_rx_callback c =
     (if cn_rx_idx c \<noteq> CONSOLE_INVALID_BUF_IDX then do {
        (line, c) \<leftarrow> rx_chars (cn_rx_cnt c) (cn_rx_cnt c) c;
        if line = Some True then console_rx_callback c else Some c
      }
      else Some (c\<lparr>cn_uart := [], cn_rx_data := None\<rparr>))"

section \<open>The console task\<close>

text \<open>
  One turn of the task is split where it can be interrupted: taking a command, executing it
  outside this model, and giving its buffer back.
\<close>

definition task_take :: "console_priv \<Rightarrow> nat \<times> console_priv" where
  "task_take c =
     (let (idx, ready) = console_get_valid_buf_idx CONSOLE_CMD_LINE_BUF_NUM (cn_ready c) (cn_last c)
      in (idx, c\<lparr>cn_ready := ready\<rparr>))"

definition task_done :: "nat \<Rightarrow> console_priv \<Rightarrow> console_priv" where
  "task_done idx c =
     (let c = c\<lparr>cn_last := idx\<rparr> in
      if cn_rx_idx c = CONSOLE_INVALID_BUF_IDX then c\<lparr>cn_rx_idx := idx, cn_rx_cnt := 0\<rparr>
      else c\<lparr>cn_free := (cn_free c)[idx := True]\<rparr>)"

section \<open>Control\<close>

text \<open>\<open>sem_ok\<close> and \<open>thread_ok\<close> are the outcomes of the two creations.\<close>

definition console_start :: "bool \<Rightarrow> bool \<Rightarrow> console_priv \<Rightarrow> int \<times> console_priv" where
  "console_start sem_ok thread_ok c =
     (if cn_state c \<noteq> CONSOLE_STATE_STOP then (- 1, c) else
        let c = c\<lparr>cn_state := CONSOLE_STATE_STOP, cn_free := [False, True], cn_ready := [False, False],
                  cn_last := CONSOLE_CMD_LINE_BUF_NUM - 1, cn_rx_idx := 0, cn_rx_cnt := 0, cn_sem := 0\<rparr> in
        if \<not> sem_ok then (- 1, c) else if \<not> thread_ok then (- 1, c)
        else (0, c\<lparr>cn_rx_enabled := True, cn_state := CONSOLE_STATE_START\<rparr>))"

text \<open>Up to the point where \<open>console_stop\<close> waits for the task, and after it.\<close>

definition console_stop_request :: "console_priv \<Rightarrow> console_priv" where
  "console_stop_request c = c\<lparr>cn_rx_enabled := False, cn_state := CONSOLE_STATE_TERMINATE, cn_sem := cn_sem c + 1\<rparr>"

definition console_stop_finish :: "console_priv \<Rightarrow> console_priv" where
  "console_stop_finish c = c\<lparr>cn_sem := 0, cn_state := CONSOLE_STATE_STOP\<rparr>"

definition console_disable :: "console_priv \<Rightarrow> console_priv" where
  "console_disable c = (if cn_state c = CONSOLE_STATE_START then c\<lparr>cn_rx_enabled := False\<rparr> else c)"

definition console_enable :: "console_priv \<Rightarrow> console_priv" where
  "console_enable c = (if cn_state c = CONSOLE_STATE_START then c\<lparr>cn_rx_enabled := True\<rparr> else c)"

text \<open>Both parties together; \<open>T_exec idx\<close> while the command in buffer \<open>idx\<close> is executed.\<close>

datatype console_task = T_wait | T_exec nat | T_exit

record console_sys =
  sy_console :: console_priv
  sy_task :: console_task
  sy_executed :: "u8 list list"

inductive console_step :: "console_sys \<Rightarrow> console_sys \<Rightarrow> bool" where
  arrive: "console_step s (s\<lparr>sy_console := (sy_console s)\<lparr>cn_uart := cn_uart (sy_console s) @ [d]\<rparr>\<rparr>)"
| interrupt: "cn_rx_enabled (sy_console s) \<Longrightarrow> console_rx_callback (sy_console s) = Some c \<Longrightarrow>
    console_step s (s\<lparr>sy_console := c\<rparr>)"
| take: "sy_task s = T_wait \<Longrightarrow> cn_sem (sy_console s) > 0 \<Longrightarrow> cn_state (sy_console s) = CONSOLE_STATE_START \<Longrightarrow>
    task_take ((sy_console s)\<lparr>cn_sem := cn_sem (sy_console s) - 1\<rparr>) = (idx, c) \<Longrightarrow> idx \<noteq> CONSOLE_INVALID_BUF_IDX \<Longrightarrow>
    console_step s (s\<lparr>sy_console := c, sy_task := T_exec idx, sy_executed := sy_executed s @ [cmd_buf idx c]\<rparr>)"
| take_none: "sy_task s = T_wait \<Longrightarrow> cn_sem (sy_console s) > 0 \<Longrightarrow> cn_state (sy_console s) = CONSOLE_STATE_START \<Longrightarrow>
    task_take ((sy_console s)\<lparr>cn_sem := cn_sem (sy_console s) - 1\<rparr>) = (idx, c) \<Longrightarrow> idx = CONSOLE_INVALID_BUF_IDX \<Longrightarrow>
    console_step s (s\<lparr>sy_console := c\<rparr>)"
| finish: "sy_task s = T_exec idx \<Longrightarrow>
    console_step s (s\<lparr>sy_console := task_done idx (sy_console s), sy_task := T_wait\<rparr>)"
| leave: "sy_task s = T_wait \<Longrightarrow> cn_sem (sy_console s) > 0 \<Longrightarrow> cn_state (sy_console s) \<noteq> CONSOLE_STATE_START \<Longrightarrow>
    console_step s (s\<lparr>sy_console := (sy_console s)\<lparr>cn_sem := cn_sem (sy_console s) - 1\<rparr>, sy_task := T_exit\<rparr>)"
| disable: "console_step s (s\<lparr>sy_console := console_disable (sy_console s)\<rparr>)"
| enable: "console_step s (s\<lparr>sy_console := console_enable (sy_console s)\<rparr>)"

end
