(* ===== verification/Console_Spec.thy ===== *)
theory Console_Spec
  imports Console
begin

text \<open>
  The interrupt and the task of the console together: the two buffers are each in one place at
  any time, and the task executes the command lines in the order in which they were received.
\<close>

section \<open>Regions of the array\<close>

definition region :: "nat \<Rightarrow> console_priv \<Rightarrow> u8 list" where
  "region i c = take 256 (drop (i * 256) (cn_buf c))"

definition terminated :: "nat \<Rightarrow> console_priv \<Rightarrow> bool" where
  "terminated i c \<longleftrightarrow> 0 \<in> set (region i c)"

lemma cmd_buf_region: "terminated i c \<Longrightarrow> cmd_buf i c = takeWhile (\<lambda>d. d \<noteq> 0) (region i c)"
proof -
  assume "terminated i c"
  then have "takeWhile (\<lambda>d. d \<noteq> 0) (region i c @ drop 256 (drop (i * 256) (cn_buf c))) = takeWhile (\<lambda>d. d \<noteq> 0) (region i c)"
    by (intro takeWhile_append1 [of 0]) (simp_all add: terminated_def)
  then show ?thesis unfolding cmd_buf_def region_def append_take_drop_id .
qed

lemma region_nth: "length (cn_buf c) = 512 \<Longrightarrow> i < 2 \<Longrightarrow> k < 256 \<Longrightarrow> region i c ! k = cn_buf c ! (i * 256 + k)"
  by (simp add: region_def)

lemma region_length: "length (cn_buf c) = 512 \<Longrightarrow> i < 2 \<Longrightarrow> length (region i c) = 256"
  by (simp add: region_def)

lemma region_update:
  assumes "length (cn_buf c) = 512" "off < 256" "j < 2" "i < 2"
  shows "region i (c\<lparr>cn_buf := (cn_buf c)[j * 256 + off := d]\<rparr>) = (if i = j then (region i c)[off := d] else region i c)"
proof (rule nth_equalityI)
  let ?c = "c\<lparr>cn_buf := (cn_buf c)[j * 256 + off := d]\<rparr>"
  have len: "length (region i ?c) = 256" by (rule region_length) (use assms in simp_all)
  have len': "length (region i c) = 256" by (rule region_length [OF assms(1,4)])
  show "length (region i ?c) = length (if i = j then (region i c)[off := d] else region i c)"
    by (simp only: len len' length_list_update split: if_split) simp
  fix k assume "k < length (region i ?c)"
  then have k: "k < 256" by (simp only: len)
  have r: "region i c ! k = cn_buf c ! (i * 256 + k)" by (rule region_nth [OF assms(1,4) k])
  have upd: "(region i c)[off := d] ! k = (if off = k then d else region i c ! k)"
    by (rule nth_list_update) (simp only: len' assms(2))
  have "region i ?c ! k = (cn_buf c)[j * 256 + off := d] ! (i * 256 + k)"
    using region_nth [of ?c i k, OF _ assms(4) k] assms(1) by simp
  also have "... = (if i = j \<and> off = k then d else cn_buf c ! (i * 256 + k))"
  proof (cases "i = j \<and> off = k")
    case True
    then show ?thesis using assms by (simp add: nth_list_update)
  next
    case False
    moreover have "(j * 256 + off) div 256 = j" "(j * 256 + off) mod 256 = off" "(i * 256 + k) div 256 = i" "(i * 256 + k) mod 256 = k"
      using k assms(2) by simp_all
    ultimately have "j * 256 + off \<noteq> i * 256 + k" by metis
    from nth_list_update_neq [OF this, of "cn_buf c" d] False show ?thesis by (simp only: if_False)
  qed
  also have "... = (if i = j then (region i c)[off := d] else region i c) ! k"
    using upd r by auto
  finally show "region i ?c ! k = (if i = j then (region i c)[off := d] else region i c) ! k" .
qed

section \<open>What the interrupt may touch\<close>

text \<open>The characters not yet looked at.\<close>

definition incoming :: "console_priv \<Rightarrow> u8 list" where
  "incoming c = (case cn_rx_data c of None \<Rightarrow> [] | Some d \<Rightarrow> [d]) @ cn_uart c"

definition no_rubout :: "console_priv \<Rightarrow> bool" where
  "no_rubout c \<longleftrightarrow> CH_BS \<notin> set (incoming c) \<and> CH_DEL \<notin> set (incoming c)"

definition rx_frame :: "console_priv \<Rightarrow> console_priv \<Rightarrow> bool" where
  "rx_frame c c' \<longleftrightarrow> cn_state c' = cn_state c \<and> cn_free c' = cn_free c \<and> cn_ready c' = cn_ready c \<and> cn_last c' = cn_last c \<and>
     cn_rx_idx c' = cn_rx_idx c \<and> cn_sem c' = cn_sem c \<and> cn_lines c' = cn_lines c \<and> cn_rx_enabled c' = cn_rx_enabled c \<and>
     length (cn_buf c') = length (cn_buf c) \<and> (\<forall>i < 2. i \<noteq> cn_rx_idx c \<longrightarrow> region i c' = region i c) \<and>
     set (incoming c') \<subseteq> set (incoming c)"

lemma rx_frame_refl [simp]: "rx_frame c c"
  by (simp add: rx_frame_def)

lemma rx_frame_trans: "rx_frame a b \<Longrightarrow> rx_frame b c \<Longrightarrow> rx_frame a c"
  by (auto simp: rx_frame_def)

lemma rx_frame_simple [simp]:
  "rx_frame c (c\<lparr>cn_rx_cnt := n\<rparr>)" "rx_frame c (echo ds c)" "rx_frame c (if P then echo ds c else c)"
  by (auto simp: rx_frame_def echo_def region_def incoming_def)

lemma rx_frame_get: "console_get_rx_data c = Some (d, c') \<Longrightarrow> rx_frame c c' \<and> d \<in> set (incoming c) \<and> incoming c = d # incoming c'"
  by (auto simp: console_get_rx_data_def rx_frame_def region_def incoming_def split: option.splits list.splits)

lemma incoming_upd [simp]:
  "incoming (c\<lparr>cn_rx_cnt := n\<rparr>) = incoming c" "incoming (echo ds c) = incoming c"
  by (simp_all add: incoming_def echo_def)

lemma rx_frame_put:
  assumes "length (cn_buf c) = 512" "off < 256" "cn_rx_idx c < 2"
  shows "\<exists>c'. put_rx_buf off d c = Some c' \<and> rx_frame c c' \<and> cn_uart c' = cn_uart c \<and> cn_rx_data c' = cn_rx_data c \<and>
     region (cn_rx_idx c) c' = (region (cn_rx_idx c) c)[off := d]"
proof -
  let ?c = "c\<lparr>cn_buf := (cn_buf c)[cn_rx_idx c * 256 + off := d]\<rparr>"
  have "put_rx_buf off d c = Some ?c" using assms by (simp add: put_rx_buf_def Let_def)
  moreover have "rx_frame c ?c" using region_update [OF assms, of _ d] by (auto simp: rx_frame_def incoming_def)
  moreover have "region (cn_rx_idx c) ?c = (region (cn_rx_idx c) c)[off := d]"
    using region_update [OF assms assms(3), of d] by simp
  ultimately show ?thesis by auto
qed

lemma after_cr_frame:
  assumes "cn_rx_data c = None" "after_cr c = (b, c')"
  shows "rx_frame c c' \<and> unread c' \<le> unread c \<and> cn_buf c' = cn_buf c"
  using assms by (auto simp: after_cr_def rx_frame_def unread_def region_def incoming_def split: list.splits if_splits)

lemma get_none_pushed: "console_get_rx_data c = Some (d, c') \<Longrightarrow> cn_rx_data c' = None"
  by (auto simp: console_get_rx_data_def split: option.splits list.splits)

text \<open>The outcome of the loop: data used up, or a terminated line handed over.\<close>

definition rx_post :: "console_priv \<Rightarrow> (bool option \<times> console_priv) option \<Rightarrow> bool" where
  "rx_post c res \<longleftrightarrow> (\<exists>r c'. res = Some (r, c') \<and>
     (r = None \<longrightarrow> rx_frame c c' \<and> cn_rx_cnt c' < 256) \<and>
     (r \<noteq> None \<longrightarrow> (\<exists>c1. rx_frame c c1 \<and> terminated (cn_rx_idx c) c1 \<and> unread c1 < unread c \<and> c' = console_rx_cmdline c1)))"

lemma rx_post_frame: "rx_frame c d \<Longrightarrow> unread d \<le> unread c \<Longrightarrow> rx_post d res \<Longrightarrow> rx_post c res"
  unfolding rx_post_def by (metis (no_types, lifting) le_trans less_le_trans rx_frame_trans rx_frame_def)

definition rx_able :: "console_priv \<Rightarrow> bool" where
  "rx_able c \<longleftrightarrow> length (cn_buf c) = 512 \<and> cn_rx_idx c < 2 \<and> no_rubout c"

lemma rx_able_frame: "rx_frame c d \<Longrightarrow> rx_able c \<Longrightarrow> rx_able d"
  by (auto simp: rx_able_def rx_frame_def no_rubout_def)

lemma rx_line_post:
  assumes "rx_able c" "cnt < 256" "cn_rx_data c = None" "rx_frame c0 c" "unread c0 = Suc (unread c)"
  shows "rx_post c0 (let (restart, c) = (if d = CH_CR then after_cr c else (False, c)) in do {
              c \<leftarrow> put_rx_buf cnt 0 c;
              Some (Some restart, console_rx_cmdline (echo [CH_CR, CH_LF] c))
            })"
proof -
  obtain b c1 where c1: "(if d = CH_CR then after_cr c else (False, c)) = (b, c1)" by fastforce
  have f1: "rx_frame c c1" "unread c1 \<le> unread c" using c1 after_cr_frame [OF assms(3)] by (auto split: if_splits)
  have able: "rx_able c1" by (rule rx_able_frame [OF f1(1) assms(1)])
  then obtain c2 where c2: "put_rx_buf cnt 0 c1 = Some c2" "rx_frame c1 c2" "region (cn_rx_idx c1) c2 = (region (cn_rx_idx c1) c1)[cnt := 0]"
    "unread c2 = unread c1"
    using rx_frame_put [of c1 cnt 0] assms(2) unread_put by (auto simp: rx_able_def)
  let ?c3 = "echo [CH_CR, CH_LF] c2"
  have idx: "cn_rx_idx c1 = cn_rx_idx c0" using f1(1) assms(4) by (simp add: rx_frame_def)
  have "length (region (cn_rx_idx c1) c1) = 256" using able by (auto simp: rx_able_def region_def)
  then have "0 \<in> set ((region (cn_rx_idx c1) c1)[cnt := 0])" using assms(2) by (intro set_update_memI) simp
  then have "terminated (cn_rx_idx c0) ?c3"
    using c2(3) idx by (simp add: terminated_def region_def echo_def)
  moreover have "rx_frame c0 ?c3"
    by (rule rx_frame_trans [OF assms(4)], rule rx_frame_trans [OF f1(1)], rule rx_frame_trans [OF c2(2)]) simp
  moreover have "unread ?c3 < unread c0" using c2(4) f1(2) assms(5) by simp
  ultimately show ?thesis
    unfolding rx_post_def c1 using c2(1) by (intro exI [of _ "Some b"] exI [of _ "console_rx_cmdline ?c3"]) auto
qed

lemma rx_chars_post: "rx_able c \<Longrightarrow> cnt \<le> 256 \<Longrightarrow> rx_post c (rx_chars cnt cnt c)"
proof (induction "2 * unread c + (if cnt \<ge> 256 then 1 else 0)" arbitrary: cnt c rule: less_induct)
  case less
  show ?case
  proof (cases "256 \<le> cnt")
    case True
    let ?c = "c\<lparr>cn_rx_cnt := 0\<rparr>"
    have "rx_post ?c (rx_chars 0 0 ?c)"
      using less.hyps [of ?c 0] less.prems True by (simp add: rx_able_def no_rubout_def)
    then show ?thesis using True rx_post_frame [of c ?c] by (simp add: rx_chars.simps [of cnt])
  next
    case False
    show ?thesis
    proof (cases "console_get_rx_data c")
      case None
      then show ?thesis using False by (simp add: rx_chars.simps [of cnt] rx_post_def)
    next
      case (Some dc)
      obtain d c1 where dc: "dc = (d, c1)" by fastforce
      have get: "rx_frame c c1" "d \<in> set (incoming c)" "unread c = Suc (unread c1)" "cn_rx_data c1 = None"
        using Some dc rx_frame_get unread_get get_none_pushed by blast+
      have d: "d \<noteq> CH_BS" "d \<noteq> CH_DEL" using get(2) less.prems(1) by (auto simp: rx_able_def no_rubout_def)
      let ?c2 = "if d \<noteq> CH_LF \<and> d \<noteq> CH_CR then echo [d] c1 else c1"
      have c2: "rx_frame c ?c2" "unread ?c2 = unread c1" using rx_frame_trans [OF get(1)] by simp_all
      have able: "rx_able ?c2" by (rule rx_able_frame [OF c2(1) less.prems(1)])
      consider "d = CH_LF \<or> d = CH_CR" | "\<not> (d = CH_LF \<or> d = CH_CR)" "isprint d" | "\<not> (d = CH_LF \<or> d = CH_CR)" "\<not> isprint d"
        by blast
      then show ?thesis
      proof cases
        case 1
        then have "rx_able c1" using able by auto
        from rx_line_post [OF this _ get(4,1,3), of cnt d] False Some dc d 1 show ?thesis
          by (simp add: rx_chars.simps [of cnt cnt c] Let_def cong: if_cong) (elim disjE; simp)
      next
        case 2
        obtain c3 where c3: "put_rx_buf cnt d ?c2 = Some c3" "rx_frame ?c2 c3" "unread c3 = unread ?c2"
          using rx_frame_put [of ?c2 cnt d] able False unread_put [of cnt d ?c2] unfolding rx_able_def not_le by metis
        have "rx_post c3 (rx_chars (cnt + 1) (cnt + 1) c3)"
          using less.hyps [of c3 "cnt + 1"] rx_able_frame [OF c3(2) able] c3(3) c2(2) get(3) False by simp
        then have "rx_post c (rx_chars (cnt + 1) (cnt + 1) c3)"
          using rx_post_frame [of c c3] rx_frame_trans [OF c2(1) c3(2)] c3(3) c2(2) get(3) by simp
        then show ?thesis using Some dc d 2 c3(1) False by (simp add: rx_chars.simps [of cnt cnt c])
      next
        case 3
        let ?c3 = "?c2\<lparr>cn_rx_cnt := 0\<rparr>"
        have f: "rx_frame ?c2 ?c3" by simp
        have "rx_post ?c3 (rx_chars 0 0 ?c3)"
          using less.hyps [of ?c3 0] rx_able_frame [OF f able] c2(2) get(3) False by simp
        then have "rx_post c (rx_chars 0 0 ?c3)"
          using rx_post_frame [of c ?c3] rx_frame_trans [OF c2(1) f] c2(2) get(3) by simp
        then show ?thesis using Some dc d 3 False by (simp add: rx_chars.simps [of cnt cnt c])
      qed
    qed
  qed
qed

section \<open>Where the buffers are\<close>

definition bits :: "nat set \<Rightarrow> bool list" where
  "bits S = [0 \<in> S, 1 \<in> S]"

text \<open>
  \<open>l\<close> is the buffer of the last command executed, \<open>pend\<close> the buffers that wait, in order.  The
  remaining buffer is being filled, or free.
\<close>

definition layout :: "nat list \<Rightarrow> console_task \<Rightarrow> console_priv \<Rightarrow> bool" where
  "layout pend t c \<longleftrightarrow> (let l = cn_last c in l < 2 \<and> cn_ready c = bits (set pend) \<and> (case t of
      T_wait \<Rightarrow> (pend = [] \<and> cn_rx_idx c = 1 - l \<and> cn_free c = bits {l}) \<or>
                (pend = [1 - l] \<and> cn_rx_idx c = l \<and> cn_free c = bits {}) \<or>
                (pend = [1 - l, l] \<and> cn_rx_idx c = 2 \<and> cn_free c = bits {})
    | T_exec e \<Rightarrow> e = 1 - l \<and> cn_free c = bits {} \<and>
                ((pend = [] \<and> cn_rx_idx c = l) \<or> (pend = [l] \<and> cn_rx_idx c = 2))
    | T_exit \<Rightarrow> False))"

definition console_inv :: "u8 list list \<Rightarrow> console_task \<Rightarrow> console_priv \<Rightarrow> bool" where
  "console_inv ex t c \<longleftrightarrow> cn_state c = CONSOLE_STATE_START \<and> length (cn_buf c) = 512 \<and> cn_rx_cnt c < 256 \<and>
     (\<exists>pend. layout pend t c \<and> cn_sem c = length pend \<and> (\<forall>i \<in> set pend. terminated i c) \<and>
        cn_lines c = ex @ map (\<lambda>i. cmd_buf i c) pend)"

lemma layout_rx: "layout pend t c \<Longrightarrow> cn_rx_idx c \<le> 2 \<and> cn_rx_idx c \<notin> set pend \<and> set pend \<subseteq> {0, 1}"
proof -
  assume lay: "layout pend t c"
  then have "cn_last c = 0 \<or> cn_last c = 1" by (auto simp: layout_def Let_def)
  then show ?thesis using lay by (cases t) (auto simp: layout_def Let_def)
qed

lemma layout_frame: "rx_frame c c' \<Longrightarrow> layout pend t c = layout pend t c'"
  by (cases t) (auto simp: rx_frame_def layout_def Let_def)

lemma pending_frame:
  assumes "rx_frame c c'" "layout pend t c" "\<forall>i \<in> set pend. terminated i c"
  shows "(\<forall>i \<in> set pend. terminated i c') \<and> map (\<lambda>i. cmd_buf i c') pend = map (\<lambda>i. cmd_buf i c) pend"
proof -
  have "i < 2 \<and> i \<noteq> cn_rx_idx c" if "i \<in> set pend" for i using layout_rx [OF assms(2)] that by auto
  then have same: "region i c' = region i c" if "i \<in> set pend" for i using assms(1) that by (simp add: rx_frame_def)
  then have trm: "terminated i c'" if "i \<in> set pend" for i using assms(3) that by (simp add: terminated_def)
  moreover have "cmd_buf i c' = cmd_buf i c" if "i \<in> set pend" for i
    using cmd_buf_region [OF trm [OF that]] cmd_buf_region [of i c] assms(3) same that by simp
  ultimately show ?thesis by simp
qed

lemma inv_frame:
  assumes "console_inv ex t c" "rx_frame c c'" "cn_rx_cnt c' < 256"
  shows "console_inv ex t c'"
proof -
  obtain pend where p: "layout pend t c" "cn_sem c = length pend" "\<forall>i \<in> set pend. terminated i c"
    "cn_lines c = ex @ map (\<lambda>i. cmd_buf i c) pend" using assms(1) by (auto simp: console_inv_def)
  show ?thesis
    unfolding console_inv_def using pending_frame [OF assms(2) p(1,3)] layout_frame [OF assms(2), of pend t] p assms
    by (intro conjI exI [of _ pend]) (auto simp: console_inv_def rx_frame_def)
qed

text \<open>A complete line: its buffer joins the waiting ones, another one is taken for reception.\<close>

lemma rx_cmdline_layout:
  assumes "layout pend t c" "cn_rx_idx c < 2"
  shows "layout (pend @ [cn_rx_idx c]) t (console_rx_cmdline c)"
proof -
  have l: "cn_last c = 0 \<or> cn_last c = 1" using assms(1) by (auto simp: layout_def Let_def)
  then show ?thesis using assms
    by (cases t) (auto simp: layout_def console_rx_cmdline_def Let_def bits_def numeral_2_eq_2)
qed

lemma rx_cmdline_inv:
  assumes "console_inv ex t c" "rx_frame c c1" "terminated (cn_rx_idx c) c1" "cn_rx_idx c < 2"
  shows "console_inv ex t (console_rx_cmdline c1)"
proof -
  let ?i = "cn_rx_idx c1"
  obtain pend where p: "layout pend t c" "cn_sem c = length pend" "\<forall>i \<in> set pend. terminated i c"
    "cn_lines c = ex @ map (\<lambda>i. cmd_buf i c) pend" "cn_state c = CONSOLE_STATE_START" "length (cn_buf c) = 512"
    using assms(1) by (auto simp: console_inv_def)
  have f: "cn_sem c1 = cn_sem c" "cn_lines c1 = cn_lines c" "?i = cn_rx_idx c" "cn_state c1 = cn_state c"
    "length (cn_buf c1) = length (cn_buf c)" using assms(2) by (simp_all add: rx_frame_def)
  have lay: "layout (pend @ [?i]) t (console_rx_cmdline c1)"
    using rx_cmdline_layout [of pend t c1] layout_frame [OF assms(2), of pend t] p(1) assms(4) f(3) by simp
  have sel: "cn_sem (console_rx_cmdline c1) = cn_sem c1 + 1" "cn_state (console_rx_cmdline c1) = cn_state c1"
    "cn_buf (console_rx_cmdline c1) = cn_buf c1" "cn_rx_cnt (console_rx_cmdline c1) = 0"
    "cn_lines (console_rx_cmdline c1) = cn_lines c1 @ [cmd_buf ?i c1]"
    by (simp_all add: console_rx_cmdline_def Let_def cmd_buf_def split: prod.split)
  then have cmd: "cmd_buf j (console_rx_cmdline c1) = cmd_buf j c1" "terminated j (console_rx_cmdline c1) = terminated j c1" for j
    by (simp_all add: cmd_buf_def terminated_def region_def)
  show ?thesis
    unfolding console_inv_def using lay sel cmd pending_frame [OF assms(2) p(1,3)] p f assms(3)
    by (intro conjI exI [of _ "pend @ [?i]"]) auto
qed

section \<open>The interrupt\<close>

lemma interrupt_inv:
  assumes "console_inv ex t c" "no_rubout c"
  shows "\<exists>c'. console_rx_callback c = Some c' \<and> console_inv ex t c' \<and> no_rubout c' \<and>
     (\<exists>ls. cn_lines c' = cn_lines c @ ls)"
  using assms
proof (induction "unread c" arbitrary: c rule: less_induct)
  case less
  have buf: "length (cn_buf c) = 512" "cn_rx_cnt c < 256" using less.prems(1) by (simp_all add: console_inv_def)
  have "cn_rx_idx c \<le> 2" using less.prems(1) layout_rx by (auto simp: console_inv_def)
  then consider "cn_rx_idx c = 2" | "cn_rx_idx c < 2" by linarith
  then show ?case
  proof cases
    case 1
    let ?c = "c\<lparr>cn_uart := [], cn_rx_data := None\<rparr>"
    have "rx_frame c ?c" by (simp add: rx_frame_def region_def incoming_def)
    then show ?thesis
      using inv_frame [OF less.prems(1)] buf(2) 1 by (simp add: console_rx_callback.simps [of c] no_rubout_def incoming_def)
  next
    case 2
    have "rx_post c (rx_chars (cn_rx_cnt c) (cn_rx_cnt c) c)"
      using rx_chars_post buf 2 less.prems(2) by (simp add: rx_able_def)
    then obtain r c' where run: "rx_chars (cn_rx_cnt c) (cn_rx_cnt c) c = Some (r, c')"
      and none: "r = None \<Longrightarrow> rx_frame c c' \<and> cn_rx_cnt c' < 256"
      and some: "r \<noteq> None \<Longrightarrow> \<exists>c1. rx_frame c c1 \<and> terminated (cn_rx_idx c) c1 \<and> unread c1 < unread c \<and> c' = console_rx_cmdline c1"
      by (auto simp: rx_post_def)
    have step: "console_rx_callback c = (if r = Some True then console_rx_callback c' else Some c')"
      using run 2 by (simp add: console_rx_callback.simps [of c])
    show ?thesis
    proof (cases "r = None")
      case True
      then show ?thesis
        using step none inv_frame [OF less.prems(1)] less.prems(2) by (auto simp: no_rubout_def rx_frame_def)
    next
      case False
      then obtain c1 where c1: "rx_frame c c1" "terminated (cn_rx_idx c) c1" "unread c1 < unread c" "c' = console_rx_cmdline c1"
        using some by blast
      have inv: "console_inv ex t c'" using rx_cmdline_inv [OF less.prems(1) c1(1,2) 2] c1(4) by simp
      have sel: "cn_rx_data c' = cn_rx_data c1" "cn_uart c' = cn_uart c1" "\<exists>l. cn_lines c' = cn_lines c @ [l]"
        using c1(1) by (simp_all add: c1(4) console_rx_cmdline_def Let_def rx_frame_def split: prod.split)
      have rub: "no_rubout c'" using less.prems(2) c1(1) sel by (auto simp: no_rubout_def rx_frame_def incoming_def)
      have "unread c' < unread c" using c1(3) sel by (simp add: unread_def)
      then obtain c2 where "console_rx_callback c' = Some c2" "console_inv ex t c2" "no_rubout c2" "\<exists>ls. cn_lines c2 = cn_lines c' @ ls"
        using less.hyps [OF _ inv rub] by blast
      then show ?thesis using step inv rub sel(3) by (cases "r = Some True") auto
    qed
  qed
qed

section \<open>The task\<close>

lemma take_inv:
  assumes "console_inv ex T_wait c" "cn_sem c > 0" "task_take (c\<lparr>cn_sem := cn_sem c - 1\<rparr>) = (idx, c')"
  shows "idx < 2 \<and> console_inv (ex @ [cmd_buf idx c']) (T_exec idx) c' \<and> cn_lines c' = cn_lines c"
proof -
  obtain pend where p: "layout pend T_wait c" "cn_sem c = length pend" "\<forall>i \<in> set pend. terminated i c"
    "cn_lines c = ex @ map (\<lambda>i. cmd_buf i c) pend" using assms(1) by (auto simp: console_inv_def)
  obtain ps where ps: "pend = (1 - cn_last c) # ps" "cn_last c = 0 \<or> cn_last c = 1"
    using p(1,2) assms(2) by (auto simp: layout_def Let_def less_2_cases_iff)
  have c': "idx = 1 - cn_last c" "c' = c\<lparr>cn_sem := cn_sem c - 1, cn_ready := (cn_ready c)[idx := False]\<rparr>"
    using assms(3) p(1) ps by (auto simp: task_take_def layout_def Let_def bits_def numeral_2_eq_2)
  have lay: "layout ps (T_exec idx) c'"
    using p(1) ps by (auto simp: layout_def Let_def c' bits_def)
  have cmd: "cmd_buf j c' = cmd_buf j c" "terminated j c' = terminated j c" for j
    by (simp_all add: c'(2) cmd_buf_def terminated_def region_def)
  show ?thesis
    using lay cmd p ps c' assms(1) by (auto simp: console_inv_def intro!: exI [of _ ps])
qed

lemma finish_inv:
  assumes "console_inv ex (T_exec idx) c"
  shows "console_inv ex T_wait (task_done idx c) \<and> cn_lines (task_done idx c) = cn_lines c"
proof -
  obtain pend where p: "layout pend (T_exec idx) c" "cn_sem c = length pend" "\<forall>i \<in> set pend. terminated i c"
    "cn_lines c = ex @ map (\<lambda>i. cmd_buf i c) pend" using assms(1) by (auto simp: console_inv_def)
  have "cn_last c = 0 \<or> cn_last c = 1" using p(1) by (auto simp: layout_def Let_def)
  then have lay: "layout pend T_wait (task_done idx c)"
    using p(1) by (auto simp: layout_def Let_def task_done_def bits_def)
  have sel: "cn_sem (task_done idx c) = cn_sem c" "cn_buf (task_done idx c) = cn_buf c" "cn_lines (task_done idx c) = cn_lines c"
    "cn_state (task_done idx c) = cn_state c" "cn_rx_cnt (task_done idx c) \<le> cn_rx_cnt c"
    by (simp_all add: task_done_def Let_def)
  have cmd: "cmd_buf j (task_done idx c) = cmd_buf j c" "terminated j (task_done idx c) = terminated j c" for j
    by (simp_all add: sel(2) cmd_buf_def terminated_def region_def)
  show ?thesis
    using lay cmd p sel assms(1) by (auto simp: console_inv_def intro!: exI [of _ pend])
qed

end
