(* ===== verification/Console_Lines.thy ===== *)
theory Console_Lines
  imports Console_Spec
begin

text \<open>
  Runs of the console: order of execution, the lines that typed characters make, and what a
  rubout does to the buffer.
\<close>

section \<open>Runs\<close>

text \<open>The system after a successful start; the interrupt's look-ahead character is left from before.\<close>

definition console_started :: "console_sys \<Rightarrow> bool" where
  "console_started s \<longleftrightarrow> (\<exists>c. console_start True True c = (0, sy_console s) \<and> length (cn_buf c) = 512 \<and> cn_lines c = []) \<and>
     sy_task s = T_wait \<and> sy_executed s = [] \<and> no_rubout (sy_console s)"

inductive console_run :: "console_sys \<Rightarrow> console_sys \<Rightarrow> bool" for s where
  start: "console_run s s"
| step: "console_run s t \<Longrightarrow> console_step t u \<Longrightarrow> no_rubout (sy_console u) \<Longrightarrow> console_run s u"

definition sys_inv :: "console_sys \<Rightarrow> bool" where
  "sys_inv s \<longleftrightarrow> console_inv (sy_executed s) (sy_task s) (sy_console s) \<and> no_rubout (sy_console s)"

lemma started_inv:
  assumes "console_started s"
  shows "sys_inv s"
proof -
  obtain c where c: "console_start True True c = (0, sy_console s)" "length (cn_buf c) = 512" "cn_lines c = []"
    using assms by (auto simp: console_started_def)
  have "sy_console s = snd (console_start True True c)" "cn_state c = CONSOLE_STATE_STOP"
    using c(1) by (auto simp: console_start_def split: if_splits)
  then show ?thesis
    using c(2,3) assms by (simp add: console_started_def sys_inv_def console_inv_def layout_def console_start_def bits_def)
qed

lemma inv_irrelevant:
  assumes "console_inv ex t c"
  shows "console_inv ex t (c\<lparr>cn_uart := u\<rparr>)" "console_inv ex t (c\<lparr>cn_rx_enabled := b\<rparr>)"
  using assms by (auto simp: console_inv_def layout_def terminated_def region_def cmd_buf_def Let_def cong: console_task.case_cong)

lemma step_inv:
  assumes "console_step s t" "sys_inv s" "no_rubout (sy_console t)"
  shows "sys_inv t"
  using assms
proof (cases rule: console_step.cases)
  case (take idx c)
  then show ?thesis using take_inv assms by (fastforce simp: sys_inv_def)
next
  case (take_none idx c)
  then show ?thesis using take_inv assms by (fastforce simp: sys_inv_def)
next
  case (finish idx)
  then show ?thesis using finish_inv assms by (simp add: sys_inv_def)
next
  case (interrupt c)
  then show ?thesis using interrupt_inv assms by (fastforce simp: sys_inv_def)
next
  case leave
  then show ?thesis using assms by (simp add: sys_inv_def console_inv_def)
qed (use assms inv_irrelevant in \<open>auto simp: sys_inv_def console_disable_def console_enable_def\<close>)

lemma run_inv: "console_run s t \<Longrightarrow> console_started s \<Longrightarrow> sys_inv t"
  by (induction rule: console_run.induct) (auto intro: started_inv step_inv)

lemma inv_order:
  assumes "sys_inv s"
  shows "\<exists>rest. cn_lines (sy_console s) = sy_executed s @ rest \<and> length rest = cn_sem (sy_console s) \<and> length rest \<le> 2 \<and>
     (\<exists>c. console_rx_callback (sy_console s) = Some c) \<and>
     (cn_rx_idx (sy_console s) = 2 \<longrightarrow> rest \<noteq> [])"
proof -
  let ?c = "sy_console s"
  obtain pend where p: "layout pend (sy_task s) ?c" "cn_sem ?c = length pend"
    "cn_lines ?c = sy_executed s @ map (\<lambda>i. cmd_buf i ?c) pend"
    using assms by (auto simp: sys_inv_def console_inv_def)
  have "length pend \<le> 2 \<and> (cn_rx_idx ?c = 2 \<longrightarrow> pend \<noteq> [])"
    using p(1) by (cases "sy_task s") (auto simp: layout_def Let_def)
  moreover have "\<exists>c. console_rx_callback ?c = Some c" using interrupt_inv assms by (fastforce simp: sys_inv_def)
  ultimately show ?thesis using p(2,3) by (intro exI [of _ "map (\<lambda>i. cmd_buf i ?c) pend"]) simp
qed

section \<open>Typed lines\<close>

text \<open>The characters \<open>p\<close> of a line have been received so far.\<close>

definition typing :: "u8 list \<Rightarrow> console_priv \<Rightarrow> bool" where
  "typing p c \<longleftrightarrow> length (cn_buf c) = 512 \<and> cn_rx_idx c < 2 \<and> cn_rx_data c = None \<and> (\<forall>d \<in> set p. isprint d) \<and>
     length p < 256 \<and> take (length p) (region (cn_rx_idx c) c) = p"

lemma isprint_plain: "isprint d \<Longrightarrow> d \<noteq> CH_BS \<and> d \<noteq> CH_DEL \<and> d \<noteq> CH_LF \<and> d \<noteq> CH_CR \<and> d \<noteq> 0"
  by (auto simp: isprint_def)

lemma rx_print:
  assumes "typing p c" "cn_uart c = s @ rest" "\<forall>d \<in> set s. isprint d" "length p + length s < 256"
    and "k \<le> length p"
  shows "\<exists>e. rx_chars (length p) k c = rx_chars (length (p @ s)) (k + length s) e \<and> typing (p @ s) e \<and>
     cn_uart e = rest \<and> cn_tx e = cn_tx c @ s \<and> cn_lines e = cn_lines c \<and> cn_rx_idx e = cn_rx_idx c"
  using assms
proof (induction s arbitrary: p k c)
  case (Cons d s)
  have d: "isprint d" and plain: "d \<noteq> CH_BS" "d \<noteq> CH_DEL" "d \<noteq> CH_LF" "d \<noteq> CH_CR"
    using Cons.prems(3) isprint_plain by auto
  let ?c = "echo [d] (c\<lparr>cn_uart := s @ rest\<rparr>)"
  have c: "length (cn_buf ?c) = 512" "cn_rx_idx ?c < 2" "cn_rx_data ?c = None" "region i ?c = region i c" "cn_rx_idx ?c = cn_rx_idx c"
    "cn_uart ?c = s @ rest" "cn_tx ?c = cn_tx c @ [d]" "cn_lines ?c = cn_lines c" for i
    using Cons.prems(1) by (simp_all add: typing_def echo_def region_def)
  have get: "console_get_rx_data c = Some (d, c\<lparr>cn_uart := s @ rest\<rparr>)"
    using Cons.prems(1,2) by (simp add: console_get_rx_data_def typing_def)
  obtain c1 where c1: "put_rx_buf (length p) d ?c = Some c1" "rx_frame ?c c1" "cn_uart c1 = s @ rest" "cn_rx_data c1 = None"
    "region (cn_rx_idx c) c1 = (region (cn_rx_idx c) c)[length p := d]"
    using rx_frame_put [OF c(1) _ c(2), of "length p" d] Cons.prems(1) c(3-6) by (auto simp: typing_def)
  have tx: "cn_tx c1 = cn_tx ?c" using c1(1) by (auto simp: put_rx_buf_def Let_def split: if_splits)
  have idx: "cn_rx_idx c1 = cn_rx_idx c" "cn_lines c1 = cn_lines c" "length (cn_buf c1) = 512"
    using c1(2) c by (simp_all add: rx_frame_def)
  have run: "rx_chars (length p) k c = rx_chars (length (p @ [d])) (k + 1) c1"
    using get plain d c1(1) Cons.prems(4,5) by (simp add: rx_chars.simps [of "length p" k c])
  have len: "length (region (cn_rx_idx c) c) = 256"
    using Cons.prems(1) region_length by (simp add: typing_def)
  have "take (length p) (region (cn_rx_idx c) c) = p" "length p < 256" using Cons.prems(1) by (simp_all add: typing_def)
  then have "take (Suc (length p)) (region (cn_rx_idx c) c1) = p @ [d]"
    using c1(5) len by (simp add: take_Suc_conv_app_nth)
  then have ty: "typing (p @ [d]) c1"
    using Cons.prems idx c1(4) by (simp add: typing_def)
  obtain e where "rx_chars (length (p @ [d])) (k + 1) c1 = rx_chars (length ((p @ [d]) @ s)) (k + 1 + length s) e"
    "typing ((p @ [d]) @ s) e" "cn_uart e = rest" "cn_tx e = cn_tx c1 @ s" "cn_lines e = cn_lines c1" "cn_rx_idx e = cn_rx_idx c1"
    using Cons.IH [OF ty c1(3), of "k + 1"] Cons.prems(3-5) by auto
  then show ?case using run tx c(7) idx by (intro exI [of _ e]) simp
qed auto

lemma typing_count: "typing p c \<Longrightarrow> cn_rx_cnt c = length p \<Longrightarrow>
    console_rx_callback c = Option.bind (rx_chars (length p) (length p) c)
      (\<lambda>(line, c). if line = Some True then console_rx_callback c else Some c)"
  by (simp add: console_rx_callback.simps [of c] typing_def)

text \<open>Part of a line: it is kept.\<close>

lemma typed_part:
  assumes "typing p c" "cn_rx_cnt c = length p" "cn_uart c = s" "\<forall>d \<in> set s. isprint d" "length p + length s < 256"
  shows "\<exists>e. console_rx_callback c = Some e \<and> typing (p @ s) e \<and> cn_rx_cnt e = length (p @ s) \<and> cn_uart e = [] \<and>
     cn_tx e = cn_tx c @ s \<and> cn_lines e = cn_lines c"
proof -
  obtain e where e: "rx_chars (length p) (length p) c = rx_chars (length (p @ s)) (length (p @ s)) e" "typing (p @ s) e"
    "cn_uart e = []" "cn_tx e = cn_tx c @ s" "cn_lines e = cn_lines c"
    using rx_print [OF assms(1), of s "[]" "length p"] assms(3-5) by auto
  have "rx_chars (length (p @ s)) (length (p @ s)) e = Some (None, e\<lparr>cn_rx_cnt := length (p @ s)\<rparr>)"
    using e(2,3) assms(5) by (simp add: rx_chars.simps [of _ _ e] console_get_rx_data_def typing_def)
  then show ?thesis
    using typing_count [OF assms(1,2)] e assms(5) by (simp add: typing_def region_def min_def split: if_splits)
qed

text \<open>The end of a line: the whole line is handed over, whatever the count.\<close>

lemma rx_line_end:
  assumes "typing q e" "cn_uart e = CH_LF # rest" "k \<le> length q"
  shows "\<exists>f. rx_chars (length q) k e = Some (Some False, f) \<and> cn_lines f = cn_lines e @ [q] \<and> cn_uart f = rest \<and>
     cn_tx f = cn_tx e @ [CH_CR, CH_LF] \<and> cn_rx_cnt f = 0"
proof -
  let ?n = "length q" let ?e = "e\<lparr>cn_uart := rest\<rparr>"
  have ty: "length (cn_buf ?e) = 512" "cn_rx_idx ?e < 2" "?n < 256" using assms(1) by (simp_all add: typing_def)
  have get: "console_get_rx_data e = Some (CH_LF, ?e)" using assms(1,2) by (simp add: console_get_rx_data_def typing_def)
  obtain f where f: "put_rx_buf ?n 0 ?e = Some f" "rx_frame ?e f" "cn_uart f = rest"
    "region (cn_rx_idx e) f = (region (cn_rx_idx e) e)[?n := 0]"
    using rx_frame_put [OF ty(1,3,2), of 0] by (auto simp: region_def)
  have tx: "cn_tx f = cn_tx e" using f(1) by (auto simp: put_rx_buf_def Let_def split: if_splits)
  have sel: "cn_rx_idx f = cn_rx_idx e" "cn_lines f = cn_lines e" using f(2) by (simp_all add: rx_frame_def)
  let ?g = "console_rx_cmdline (echo [CH_CR, CH_LF] f)"
  have run: "rx_chars ?n k e = Some (Some False, ?g)"
    using get f(1) assms(3) ty(3) by (subst rx_chars.simps) simp
  have len: "length (region (cn_rx_idx e) e) = 256" using ty region_length by simp
  have "take ?n (region (cn_rx_idx e) e) = q" using assms(1) by (simp add: typing_def)
  then have r: "region (cn_rx_idx e) f = q @ 0 # drop (Suc ?n) (region (cn_rx_idx e) e)"
    using f(4) len ty(3) by (simp add: upd_conv_take_nth_drop)
  have "takeWhile (\<lambda>d. d \<noteq> 0) (q @ 0 # zs) = q" for zs
    using assms(1) isprint_plain by (subst takeWhile_append2) (auto simp: typing_def)
  moreover have "terminated (cn_rx_idx e) f" unfolding terminated_def using r by simp
  ultimately have "cmd_buf (cn_rx_idx e) f = q" using cmd_buf_region r by simp
  then have "cn_lines ?g = cn_lines e @ [q]"
    using sel by (simp add: console_rx_cmdline_def Let_def echo_def cmd_buf_def split: prod.split)
  moreover have "cn_uart ?g = rest" "cn_tx ?g = cn_tx e @ [CH_CR, CH_LF]" "cn_rx_cnt ?g = 0"
    using f(3) tx by (simp_all add: console_rx_cmdline_def Let_def echo_def split: prod.split)
  ultimately show ?thesis using run by simp
qed

lemma typed_line:
  assumes "typing p c" "cn_rx_cnt c = length p" "cn_uart c = s @ CH_LF # rest" "\<forall>d \<in> set s. isprint d"
    and "length p + length s < 256"
  shows "\<exists>e. console_rx_callback c = Some e \<and> cn_lines e = cn_lines c @ [p @ s] \<and> cn_uart e = rest \<and>
     cn_tx e = cn_tx c @ s @ [CH_CR, CH_LF] \<and> cn_rx_cnt e = 0"
proof -
  obtain e where "rx_chars (length p) (length p) c = rx_chars (length (p @ s)) (length p + length s) e" "typing (p @ s) e"
    "cn_uart e = CH_LF # rest" "cn_tx e = cn_tx c @ s" "cn_lines e = cn_lines c"
    using rx_print [OF assms(1,3,4,5)] by blast
  then show ?thesis using rx_line_end [of "p @ s" e rest "length p + length s"] typing_count [OF assms(1,2)] by auto
qed

text \<open>The data arrive in pieces, with an interrupt after each.\<close>

primrec receive :: "u8 list list \<Rightarrow> console_priv \<Rightarrow> console_priv option" where
  "receive [] c = Some c"
| "receive (s # ss) c = Option.bind (console_rx_callback (c\<lparr>cn_uart := cn_uart c @ s\<rparr>)) (receive ss)"

lemma typing_uart: "typing p (c\<lparr>cn_uart := u\<rparr>) = typing p c"
  by (simp add: typing_def region_def)

lemma typed_in_pieces:
  assumes "typing p c" "cn_rx_cnt c = length p" "cn_uart c = []" "\<forall>d \<in> set (concat ss @ s). isprint d"
    and "length p + length (concat ss @ s) < 256"
  shows "\<exists>e. receive (ss @ [s @ [CH_LF]]) c = Some e \<and> cn_lines e = cn_lines c @ [p @ concat ss @ s] \<and> cn_uart e = [] \<and>
     cn_tx e = cn_tx c @ concat ss @ s @ [CH_CR, CH_LF] \<and> cn_rx_cnt e = 0"
  using assms
proof (induction ss arbitrary: p c)
  case Nil
  then show ?case using typed_line [of p "c\<lparr>cn_uart := s @ [CH_LF]\<rparr>" s "[]"] by (auto simp: typing_uart)
next
  case (Cons t ss)
  obtain e where e: "console_rx_callback (c\<lparr>cn_uart := t\<rparr>) = Some e" "typing (p @ t) e" "cn_rx_cnt e = length (p @ t)"
    "cn_uart e = []" "cn_tx e = cn_tx c @ t" "cn_lines e = cn_lines c"
    using typed_part [of p "c\<lparr>cn_uart := t\<rparr>" t] Cons.prems by (auto simp: typing_uart)
  then show ?case using Cons.IH [OF e(2,3,4)] Cons.prems by simp
qed

section \<open>Rubouts\<close>

text \<open>
  A rubout lowers the count and leaves the position alone: as long as the data come in one
  interrupt, every pair of a character and a rubout moves the position on by one.
\<close>

lemma rx_rubout:
  assumes "typing q c" "cn_uart c = CH_BS # rest" "0 < k" "k \<le> length q"
  shows "\<exists>e. rx_chars (length q) k c = rx_chars (length q) (k - 1) e \<and> typing q e \<and> cn_uart e = rest \<and>
     cn_tx e = cn_tx c @ [CH_BS, 0x20, CH_BS] \<and> cn_lines e = cn_lines c"
  using assms by (subst rx_chars.simps) (auto simp: typing_def console_get_rx_data_def echo_def region_def)

text \<open>The character rubbed out stays in the line, although the terminal no longer shows it.\<close>

lemma rubout_keeps_character:
  assumes "typing q c" "cn_rx_cnt c = length q" "cn_uart c = p @ d # CH_BS # s @ CH_LF # rest"
    and "\<forall>x \<in> set (p @ d # s). isprint x" "length q + length (p @ d # s) < 256"
  shows "\<exists>e. console_rx_callback c = Some e \<and> cn_lines e = cn_lines c @ [q @ p @ d # s] \<and>
     cn_tx e = cn_tx c @ p @ [d] @ [CH_BS, 0x20, CH_BS] @ s @ [CH_CR, CH_LF]"
proof -
  let ?q = "q @ p @ [d]"
  obtain e where e: "rx_chars (length q) (length q) c = rx_chars (length ?q) (length ?q) e" "typing ?q e"
    "cn_uart e = CH_BS # s @ CH_LF # rest" "cn_tx e = cn_tx c @ p @ [d]" "cn_lines e = cn_lines c"
    using rx_print [OF assms(1), of "p @ [d]" "CH_BS # s @ CH_LF # rest" "length q"] assms(3-5) by auto
  obtain f where f: "rx_chars (length ?q) (length ?q) e = rx_chars (length ?q) (length ?q - 1) f" "typing ?q f"
    "cn_uart f = s @ CH_LF # rest" "cn_tx f = cn_tx e @ [CH_BS, 0x20, CH_BS]" "cn_lines f = cn_lines e"
    using rx_rubout [OF e(2,3), of "length ?q"] by auto
  obtain g where g: "rx_chars (length ?q) (length ?q - 1) f = rx_chars (length (?q @ s)) (length ?q - 1 + length s) g"
    "typing (?q @ s) g" "cn_uart g = CH_LF # rest" "cn_tx g = cn_tx f @ s" "cn_lines g = cn_lines f"
    using rx_print [OF f(2,3), of "length ?q - 1"] assms(4,5) by auto
  show ?thesis
    using rx_line_end [OF g(2,3), of "length ?q - 1 + length s"] typing_count [OF assms(1,2)] e f g by auto
qed

lemma rubout_pair:
  assumes "length (cn_buf c) = 512" "cn_rx_idx c * 256 + off < 512" "cn_rx_data c = None" "cn_uart c = d # CH_BS # rest" "isprint d"
  shows "\<exists>e. rx_chars off 0 c = rx_chars (off + 1) 0 e \<and> length (cn_buf e) = 512 \<and> cn_rx_idx e = cn_rx_idx c \<and>
     cn_rx_data e = None \<and> cn_uart e = rest"
proof -
  have plain: "d \<noteq> CH_BS" "d \<noteq> CH_DEL" "d \<noteq> CH_LF" "d \<noteq> CH_CR" using assms(5) isprint_plain by auto
  let ?c = "echo [d] (c\<lparr>cn_uart := CH_BS # rest\<rparr>)"
  let ?e = "?c\<lparr>cn_buf := (cn_buf c)[cn_rx_idx c * 256 + off := d]\<rparr>"
  have "rx_chars off 0 c = rx_chars (off + 1) 1 ?e"
    using assms plain by (simp add: rx_chars.simps [of off 0 c] console_get_rx_data_def put_rx_buf_def echo_def)
  also have "... = rx_chars (off + 1) 0 (echo [CH_BS, 0x20, CH_BS] (?e\<lparr>cn_uart := rest\<rparr>))"
    using assms(3) by (subst rx_chars.simps) (simp add: console_get_rx_data_def echo_def)
  finally show ?thesis using assms by (intro exI) (auto simp: echo_def)
qed

lemma rubout_run:
  assumes "length (cn_buf c) = 512" "cn_rx_idx c * 256 + off + n \<le> 512" "cn_rx_data c = None" "isprint d"
    and "cn_uart c = concat (replicate n [d, CH_BS]) @ rest"
  shows "\<exists>e. rx_chars off 0 c = rx_chars (off + n) 0 e \<and> length (cn_buf e) = 512 \<and> cn_rx_idx e = cn_rx_idx c \<and>
     cn_rx_data e = None \<and> cn_uart e = rest"
  using assms
proof (induction n arbitrary: off c)
  case (Suc n)
  obtain e where e: "rx_chars off 0 c = rx_chars (off + 1) 0 e" "length (cn_buf e) = 512" "cn_rx_idx e = cn_rx_idx c"
    "cn_rx_data e = None" "cn_uart e = concat (replicate n [d, CH_BS]) @ rest"
    using rubout_pair [OF Suc.prems(1) _ Suc.prems(3) _ Suc.prems(4), of off "concat (replicate n [d, CH_BS]) @ rest"] Suc.prems(2,5)
    by auto
  then show ?case using Suc.IH [OF e(2) _ e(4) Suc.prems(4) e(5), of "off + 1"] Suc.prems(2) by auto
qed auto

lemma rubout_overflow:
  assumes "length (cn_buf c) = 512" "cn_rx_idx c = 1" "cn_rx_cnt c = 0" "cn_rx_data c = None" "isprint d"
    and "cn_uart c = concat (replicate 256 [d, CH_BS]) @ d # rest"
  shows "console_rx_callback c = None"
proof -
  obtain e where e: "rx_chars 0 0 c = rx_chars (0 + 256) 0 e" "length (cn_buf e) = 512" "cn_rx_idx e = cn_rx_idx c"
    "cn_rx_data e = None" "cn_uart e = d # rest"
    using rubout_run [OF assms(1) _ assms(4,5,6), of 0] assms(2) by auto
  have "rx_chars 256 0 e = None"
    using e(2-5) assms(2,5) isprint_plain [OF assms(5)]
    by (simp add: rx_chars.simps [of 256 0 e] console_get_rx_data_def put_rx_buf_def echo_def)
  then show ?thesis using e(1) assms(2,3) by (simp add: console_rx_callback.simps [of c])
qed

end
