(* ===== verification/Sysinfo.thy ===== *)
theory Sysinfo
  imports Fdcm Image
begin

text \<open>
  The settings of a device, \<open>project/common/framework/sysinfo.c\<close>, and the application's data of
  \<open>user_data.c\<close>: a structure in memory that is saved to and loaded from its own area of the
  record store.  The layout of the structure is the compiler's and a parameter (\<open>'a layout\<close>),
  as are the values that the hardware supplies.  The configuration is the default one (network,
  saving to flash, station, check of overlaps).
\<close>

section \<open>Settings\<close>

record sysinfo_wlan_sta_param =
  sta_ssid :: "u8 list"
  sta_ssid_len :: u8
  sta_psk :: "u8 list"

record sysinfo_wlan_ap_param =
  ap_ssid :: "u8 list"
  ap_ssid_len :: u8
  ap_psk :: "u8 list"
  ap_channel :: u8

record sysinfo_netif_param =
  ip_addr :: u32
  net_mask :: u32
  gateway :: u32

record sysinfo =
  si_version :: u32
  sta_use_dhcp :: "1 word"
  mac_addr :: "u8 list"
  wlan_mode :: u8
  wlan_sta_param :: sysinfo_wlan_sta_param
  wlan_ap_param :: sysinfo_wlan_ap_param
  netif_sta_param :: sysinfo_netif_param
  netif_ap_param :: sysinfo_netif_param

abbreviation (input) WLAN_MODE_STA :: u8 where "WLAN_MODE_STA \<equiv> 0"

text \<open>The bytes of a structure, how they are read, and its size.\<close>

record 'a layout =
  enc :: "'a \<Rightarrow> u8 list"
  dec :: "u8 list \<Rightarrow> 'a"
  lsize :: u16

text \<open>
  What the code relies on, for the values \<open>W\<close> of the type (arrays of their lengths): a structure
  survives being copied byte by byte, and any bytes make a structure.
\<close>

definition layout_ok :: "('a \<Rightarrow> bool) \<Rightarrow> 'a layout \<Rightarrow> bool" where
  "layout_ok W L \<longleftrightarrow> (\<forall>x. W x \<longrightarrow> dec L (enc L x) = x \<and> length (enc L x) = unat (lsize L)) \<and>
     (\<forall>bs. length bs = unat (lsize L) \<longrightarrow> W (dec L bs))"

definition sysinfo_wf :: "sysinfo \<Rightarrow> bool" where
  "sysinfo_wf x \<longleftrightarrow> length (mac_addr x) = 6 \<and>
     length (sta_ssid (wlan_sta_param x)) = 32 \<and> length (sta_psk (wlan_sta_param x)) = 65 \<and>
     length (ap_ssid (wlan_ap_param x)) = 32 \<and> length (ap_psk (wlan_ap_param x)) = 65"

text \<open>
  \<open>PRJCONF_MAC_ADDR_SOURCE\<close> and the place of the settings; \<open>efuse_mac\<close> and \<open>chipid\<close> are what
  \<open>efpg_read\<close> delivers for the two fields.
\<close>

record sysinfo_conf =
  mac_source :: u32
  conf_flash :: u32
  conf_addr :: u32
  conf_size :: u32
  pingpong :: bool
  efuse_mac :: "u8 list option"
  chipid :: "u8 list"

abbreviation (input) SYSINFO_MAC_ADDR_CODE :: u32 where "SYSINFO_MAC_ADDR_CODE \<equiv> 0"
abbreviation (input) SYSINFO_MAC_ADDR_EFUSE :: u32 where "SYSINFO_MAC_ADDR_EFUSE \<equiv> 1"
abbreviation (input) SYSINFO_MAC_ADDR_CHIPID :: u32 where "SYSINFO_MAC_ADDR_CHIPID \<equiv> 2"
abbreviation (input) SYSINFO_MAC_ADDR_FLASH :: u32 where "SYSINFO_MAC_ADDR_FLASH \<equiv> 3"

text \<open>\<open>g_sysinfo\<close> and \<open>g_fdcm_hdl\<close>; \<open>hdl_freed\<close> says that the handle's memory has been freed.\<close>

record sysinfo_priv =
  g_sysinfo :: sysinfo
  g_fdcm_hdl :: "fdcm_handle option"
  hdl_freed :: bool

text \<open>A call of the store through a freed handle is undefined.\<close>

definition use_hdl :: "fdcm_handle option \<Rightarrow> bool \<Rightarrow> fdcm_handle option option" where
  "use_hdl h freed = (if freed then None else Some h)"

section \<open>The MAC address\<close>

definition m_sysinfo_mac_addr :: "u8 list" where
  "m_sysinfo_mac_addr = [0x00, 0x80, 0xE1, 0x29, 0xE8, 0xD1]"

text \<open>\<open>rand\<close> are the six bytes the random number generator delivers.\<close>

definition sysinfo_gen_mac_random :: "u8 list \<Rightarrow> u8 list" where
  "sysinfo_gen_mac_random rand = rand[0 := rand ! 0 AND 0xFC]"

definition sysinfo_gen_mac_by_chipid :: "u8 list \<Rightarrow> u8 list" where
  "sysinfo_gen_mac_by_chipid cid =
     (let mac = map (\<lambda>i. cid ! i XOR cid ! (i + 6) XOR cid ! (i + 12)) [0..<2] @
                map (\<lambda>i. cid ! i XOR cid ! (i + 6) XOR cid ! (i + 10)) [2..<6]
      in mac[0 := mac ! 0 AND 0xFC])"

definition sysinfo_init_mac_addr ::
  "'s flash_if \<Rightarrow> sysinfo layout \<Rightarrow> sysinfo_conf \<Rightarrow> u8 list \<Rightarrow> sysinfo_priv \<Rightarrow> 's \<Rightarrow> (sysinfo_priv \<times> 's) option" where
  "sysinfo_init_mac_addr F L conf rand p s =
     (let set_mac = (\<lambda>mac. p\<lparr>g_sysinfo := (g_sysinfo p)\<lparr>mac_addr := mac\<rparr>\<rparr>);
          random_mac_addr = set_mac (sysinfo_gen_mac_random rand)
      in if mac_source conf = SYSINFO_MAC_ADDR_CODE then Some (set_mac m_sysinfo_mac_addr, s)
         else if mac_source conf = SYSINFO_MAC_ADDR_EFUSE then
           (case efuse_mac conf of None \<Rightarrow> Some (random_mac_addr, s) | Some mac \<Rightarrow> Some (set_mac mac, s))
         else if mac_source conf = SYSINFO_MAC_ADDR_CHIPID then
           (let mac = sysinfo_gen_mac_by_chipid (chipid conf) in
            if \<exists>d \<in> set mac. d \<noteq> 0 then Some (set_mac mac, s) else Some (random_mac_addr, s))
         else if mac_source conf = SYSINFO_MAC_ADDR_FLASH then
           (case if_malloc F (unat (lsize L)) s of
              (None, s) \<Rightarrow> Some (random_mac_addr, s)
            | (Some info, s) \<Rightarrow> do {
                h \<leftarrow> use_hdl (g_fdcm_hdl p) (hdl_freed p);
                (r, info, s) \<leftarrow> rom_fdcm_read F h (Some info) (lsize L) s;
                if r \<noteq> ucast (lsize L) then Some (random_mac_addr, s)
                else Some (set_mac (mac_addr (dec L (the info))), s)
              })
         else Some (random_mac_addr, s))"

section \<open>Saving and loading\<close>

definition sysinfo_save ::
  "'s flash_if \<Rightarrow> sysinfo layout \<Rightarrow> sysinfo_priv \<Rightarrow> 's \<Rightarrow> (int \<times> 's) option" where
  "sysinfo_save F L p s =
     (if g_fdcm_hdl p = None then Some (- 1, s) else do {
        h \<leftarrow> use_hdl (g_fdcm_hdl p) (hdl_freed p);
        (w, s) \<leftarrow> rom_fdcm_write F h (Some (enc L (g_sysinfo p))) (lsize L) s;
        Some (if w \<noteq> ucast (lsize L) then - 1 else 0, s)
      })"

text \<open>The read goes straight into \<open>g_sysinfo\<close>, also when it fails half way.\<close>

definition sysinfo_load ::
  "'s flash_if \<Rightarrow> sysinfo layout \<Rightarrow> sysinfo_priv \<Rightarrow> 's \<Rightarrow> (int \<times> sysinfo_priv \<times> 's) option" where
  "sysinfo_load F L p s =
     (if g_fdcm_hdl p = None then Some (- 1, p, s) else do {
        h \<leftarrow> use_hdl (g_fdcm_hdl p) (hdl_freed p);
        (r, b, s) \<leftarrow> rom_fdcm_read F h (Some (enc L (g_sysinfo p))) (lsize L) s;
        Some (if r \<noteq> ucast (lsize L) then - 1 else 0, p\<lparr>g_sysinfo := dec L (the b)\<rparr>, s)
      })"

text \<open>\<open>IP4_ADDR\<close> on the little-endian core: the first number is the lowest byte.\<close>

definition IP4_ADDR :: "u32 \<Rightarrow> u32 \<Rightarrow> u32 \<Rightarrow> u32 \<Rightarrow> u32" where
  "IP4_ADDR a b c d =
     push_bit 24 (d AND 0xFF) OR push_bit 16 (c AND 0xFF) OR push_bit 8 (b AND 0xFF) OR (a AND 0xFF)"

definition sysinfo_zero :: sysinfo where
  "sysinfo_zero = \<lparr>si_version = 0, sta_use_dhcp = 0, mac_addr = replicate 6 0, wlan_mode = 0,
     wlan_sta_param = \<lparr>sta_ssid = replicate 32 0, sta_ssid_len = 0, sta_psk = replicate 65 0\<rparr>,
     wlan_ap_param = \<lparr>ap_ssid = replicate 32 0, ap_ssid_len = 0, ap_psk = replicate 65 0, ap_channel = 0\<rparr>,
     netif_sta_param = \<lparr>ip_addr = 0, net_mask = 0, gateway = 0\<rparr>,
     netif_ap_param = \<lparr>ip_addr = 0, net_mask = 0, gateway = 0\<rparr>\<rparr>"

definition sysinfo_default ::
  "'s flash_if \<Rightarrow> sysinfo layout \<Rightarrow> sysinfo_conf \<Rightarrow> u8 list \<Rightarrow> sysinfo_priv \<Rightarrow> 's \<Rightarrow> (int \<times> sysinfo_priv \<times> 's) option" where
  "sysinfo_default F L conf rand p s =
     (if g_fdcm_hdl p = None then Some (- 1, p, s) else do {
        (p, s) \<leftarrow> sysinfo_init_mac_addr F L conf rand (p\<lparr>g_sysinfo := sysinfo_zero\<rparr>) s;
        let p = p\<lparr>g_sysinfo := (g_sysinfo p)\<lparr>wlan_mode := WLAN_MODE_STA, sta_use_dhcp := 1,
                netif_ap_param := \<lparr>ip_addr = IP4_ADDR 192 168 51 1, net_mask = IP4_ADDR 255 255 255 0,
                                   gateway = IP4_ADDR 192 168 51 1\<rparr>\<rparr>\<rparr> in do {
          (_, s) \<leftarrow> sysinfo_save F L p s;
          Some (0, p, s)
        }
      })"

section \<open>Start\<close>

definition sysinfo_init_value ::
  "'s flash_if \<Rightarrow> sysinfo layout \<Rightarrow> sysinfo_conf \<Rightarrow> u8 list \<Rightarrow> sysinfo_priv \<Rightarrow> 's \<Rightarrow> (sysinfo_priv \<times> 's) option" where
  "sysinfo_init_value F L conf rand p s = do {
     (r, p, s) \<leftarrow> sysinfo_load F L p s;
     if r \<noteq> 0 then do {
       (_, p, s) \<leftarrow> sysinfo_default F L conf rand p s;
       Some (p, s)
     }
     else if mac_source conf \<noteq> SYSINFO_MAC_ADDR_FLASH then sysinfo_init_mac_addr F L conf rand p s
     else Some (p, s)
   }"

definition IMAGE_AREA_SIZE :: "u16 \<Rightarrow> u32" where
  "IMAGE_AREA_SIZE n = ucast n * 1024"

text \<open>The end of the area of image \<open>i\<close>, by the policy of the update.\<close>

definition image_end :: "bool \<Rightarrow> image_ota_param \<Rightarrow> nat \<Rightarrow> u32" where
  "image_end pp p i =
     (if i = 0 \<or> pp then iop_addr p ! i + IMAGE_AREA_SIZE (img_max_size p)
      else iop_addr p ! i + IMAGE_AREA_SIZE (img_xz_max_size p))"

text \<open>The loop over the images and the test of the update's area.\<close>

definition area_overlaps :: "bool \<Rightarrow> image_ota_param \<Rightarrow> u32 \<Rightarrow> bool" where
  "area_overlaps pp ip addr \<longleftrightarrow>
     list_ex (\<lambda>i. addr \<ge> iop_addr ip ! i \<and> addr < image_end pp ip i) [0..<unat IMAGE_SEQ_NUM] \<or>
     addr \<ge> ota_addr ip \<and> addr < ota_addr ip + ota_size ip"

definition sysinfo_init ::
  "'s flash_if \<Rightarrow> sysinfo layout \<Rightarrow> sysinfo_conf \<Rightarrow> image_ota_param \<Rightarrow> u8 list \<Rightarrow> sysinfo_priv \<Rightarrow> 's
     \<Rightarrow> (int \<times> sysinfo_priv \<times> 's) option" where
  "sysinfo_init F L conf ip rand p s =
     (if area_overlaps (pingpong conf) ip (conf_addr conf) then Some (- 1, p, s) else do {
        (h, s) \<leftarrow> rom_fdcm_open F (conf_flash conf) (conf_addr conf) (conf_size conf) s;
        let p = p\<lparr>g_fdcm_hdl := h, hdl_freed := False\<rparr> in
        if h = None then Some (- 1, p, s) else do {
          (p, s) \<leftarrow> sysinfo_init_value F L conf rand p s;
          Some (0, p, s)
        }
      })"

text \<open>\<open>fdcm_close\<close> frees the handle; the pointer keeps its value.\<close>

definition sysinfo_deinit :: "sysinfo_priv \<Rightarrow> sysinfo_priv option" where
  "sysinfo_deinit p =
     (if g_fdcm_hdl p \<noteq> None \<and> hdl_freed p then None else Some (p\<lparr>hdl_freed := (g_fdcm_hdl p \<noteq> None)\<rparr>))"

definition sysinfo_get :: "sysinfo_priv \<Rightarrow> sysinfo option" where
  "sysinfo_get p = (if g_fdcm_hdl p = None then None else Some (g_sysinfo p))"

section \<open>Application data\<close>

record user_data =
  example :: u32

definition user_data_layout :: "user_data layout" where
  "user_data_layout = \<lparr>enc = \<lambda>u. bytes_of_u32 (example u), dec = \<lambda>bs. \<lparr>example = u32_of_bytes bs\<rparr>, lsize = 4\<rparr>"

datatype crypto_call = HAL_FlashCrypto_Init | FlashCryptoRequest u32 u32 | FlashCryptoRelease "8 word"

text \<open>
  \<open>ud_channel\<close> is \<open>user_data_crypto_channel\<close>, an \<open>int8_t\<close> with the initial value \<open>0xff\<close>;
  \<open>ud_calls\<close> records the calls of the flash crypto engine.
\<close>

record user_data_priv =
  g_user_data :: user_data
  g_user_data_fdcm_hdl :: "fdcm_handle option"
  ud_hdl_freed :: bool
  ud_channel :: "8 word"
  ud_calls :: "crypto_call list"

definition user_data_start :: user_data_priv where
  "user_data_start = \<lparr>g_user_data = \<lparr>example = 0\<rparr>, g_user_data_fdcm_hdl = None, ud_hdl_freed = False,
     ud_channel = 0xFF, ud_calls = []\<rparr>"

text \<open>
  The comparison of the channel is on \<open>int\<close>s.  \<open>chan\<close> is the channel the engine grants, negative
  when it has none.
\<close>

definition user_data_init ::
  "'s flash_if \<Rightarrow> sysinfo_conf \<Rightarrow> image_ota_param \<Rightarrow> 8 word \<Rightarrow> user_data_priv \<Rightarrow> 's \<Rightarrow> (int \<times> user_data_priv \<times> 's) option" where
  "user_data_init F conf ip chan p s =
     (if area_overlaps (pingpong conf) ip (conf_addr conf) then Some (- 1, p, s) else do {
        (h, s) \<leftarrow> rom_fdcm_open F (conf_flash conf) (conf_addr conf) (conf_size conf) s;
        let p = p\<lparr>g_user_data_fdcm_hdl := h, ud_hdl_freed := False\<rparr> in
        if h = None then Some (- 1, p, s)
        else if sint (ud_channel p) = 0xFF then
          (let p = p\<lparr>ud_calls := ud_calls p @ [HAL_FlashCrypto_Init,
                       FlashCryptoRequest (conf_addr conf) (conf_addr conf + conf_size conf - 1)],
                     ud_channel := chan\<rparr>
           in if sint (ud_channel p) < 0 then Some (- 1, p\<lparr>ud_channel := 0xFF, ud_hdl_freed := True\<rparr>, s)
              else Some (0, p, s))
        else Some (0, p, s)
      })"

definition user_data_deinit :: "user_data_priv \<Rightarrow> user_data_priv option" where
  "user_data_deinit p =
     (if g_user_data_fdcm_hdl p \<noteq> None \<and> ud_hdl_freed p then None
      else let p = p\<lparr>ud_hdl_freed := (g_user_data_fdcm_hdl p \<noteq> None)\<rparr> in
        Some (if sint (ud_channel p) \<noteq> 0xFF then p\<lparr>ud_calls := ud_calls p @ [FlashCryptoRelease (ud_channel p)]\<rparr> else p))"

definition user_data_save :: "'s flash_if \<Rightarrow> user_data_priv \<Rightarrow> 's \<Rightarrow> (int \<times> 's) option" where
  "user_data_save F p s =
     (if g_user_data_fdcm_hdl p = None then Some (- 1, s) else do {
        h \<leftarrow> use_hdl (g_user_data_fdcm_hdl p) (ud_hdl_freed p);
        (w, s) \<leftarrow> rom_fdcm_write F h (Some (enc user_data_layout (g_user_data p))) 4 s;
        Some (if w \<noteq> 4 then - 1 else 0, s)
      })"

definition user_data_load :: "'s flash_if \<Rightarrow> user_data_priv \<Rightarrow> 's \<Rightarrow> (int \<times> user_data_priv \<times> 's) option" where
  "user_data_load F p s =
     (if g_user_data_fdcm_hdl p = None then Some (- 1, p, s) else do {
        h \<leftarrow> use_hdl (g_user_data_fdcm_hdl p) (ud_hdl_freed p);
        (r, b, s) \<leftarrow> rom_fdcm_read F h (Some (enc user_data_layout (g_user_data p))) 4 s;
        Some (if r \<noteq> 4 then - 1 else 0, p\<lparr>g_user_data := dec user_data_layout (the b)\<rparr>, s)
      })"

definition user_data_get :: "user_data_priv \<Rightarrow> user_data option" where
  "user_data_get p = (if g_user_data_fdcm_hdl p = None then None else Some (g_user_data p))"

end
