(* ===== verification/Sysinfo_Spec.thy ===== *)
theory Sysinfo_Spec
  imports Sysinfo Fdcm_Reliable
begin

text \<open>
  What the settings promise on healthy hardware, over the interface of the store: what was
  saved last comes back at the next start, and a first start leaves the defaults behind.
\<close>

section \<open>The address\<close>

text \<open>The MAC address of a source other than the flash.\<close>

definition mac_of :: "sysinfo_conf \<Rightarrow> u8 list \<Rightarrow> u8 list" where
  "mac_of conf rand =
     (if mac_source conf = SYSINFO_MAC_ADDR_CODE then m_sysinfo_mac_addr
      else case (if mac_source conf = SYSINFO_MAC_ADDR_EFUSE then efuse_mac conf
                 else if mac_source conf = SYSINFO_MAC_ADDR_CHIPID \<and> (\<exists>d \<in> set (sysinfo_gen_mac_by_chipid (chipid conf)). d \<noteq> 0)
                 then Some (sysinfo_gen_mac_by_chipid (chipid conf)) else None)
           of Some mac \<Rightarrow> mac | None \<Rightarrow> sysinfo_gen_mac_random rand)"

abbreviation (input) with_mac :: "u8 list \<Rightarrow> sysinfo_priv \<Rightarrow> sysinfo_priv" where
  "with_mac m p \<equiv> p\<lparr>g_sysinfo := (g_sysinfo p)\<lparr>mac_addr := m\<rparr>\<rparr>"

lemma init_mac_other:
  assumes "mac_source conf \<noteq> SYSINFO_MAC_ADDR_FLASH"
  shows "sysinfo_init_mac_addr F L conf rand p s = Some (with_mac (mac_of conf rand) p, s)"
  using assms by (auto simp: sysinfo_init_mac_addr_def mac_of_def Let_def split: option.splits)

text \<open>Whatever the source, the two low bits of the first byte are clear unless the address is given.\<close>

lemma random_mac_unicast: "length rand = 6 \<Longrightarrow> sysinfo_gen_mac_random rand ! 0 AND 3 = 0"
proof -
  assume "length rand = 6"
  then have "sysinfo_gen_mac_random rand ! 0 AND 3 = rand ! 0 AND (0xFC AND 3)"
    by (simp add: sysinfo_gen_mac_random_def and.assoc)
  then show ?thesis by simp
qed

section \<open>Settings in the area\<close>

definition conf_hdl :: "sysinfo_conf \<Rightarrow> fdcm_handle" where
  "conf_hdl conf = \<lparr>fh_flash = conf_flash conf, fh_addr = conf_addr conf, fh_size = conf_size conf\<rparr>"

lemma conf_hdl_sel [simp]:
  "fh_flash (conf_hdl conf) = conf_flash conf" "fh_addr (conf_hdl conf) = conf_addr conf"
  "fh_size (conf_hdl conf) = conf_size conf"
  by (simp_all add: conf_hdl_def)

text \<open>The place is usable for a structure of this layout.\<close>

definition conf_fits :: "sysinfo_conf \<Rightarrow> sysinfo layout \<Rightarrow> nat \<Rightarrow> bool" where
  "conf_fits conf L n \<longleftrightarrow> layout_ok sysinfo_wf L \<and> fdcm_usable (conf_hdl conf) n (lsize L) \<and> unat (conf_size conf) \<le> 524288"

definition area_holds :: "sysinfo_conf \<Rightarrow> 'a layout \<Rightarrow> 'a \<Rightarrow> content \<Rightarrow> bool" where
  "area_holds conf L x m \<longleftrightarrow> fdcm_latest m (unat (conf_addr conf)) (conf_size conf) (lsize L) (enc L x)"

text \<open>An area that no store has used yet.\<close>

definition area_fresh :: "sysinfo_conf \<Rightarrow> 'a layout \<Rightarrow> content \<Rightarrow> bool" where
  "area_fresh conf L m \<longleftrightarrow>
     header_invalid (fdcm_header_of_bytes (content_read m (unat (conf_addr conf)) 8)) (lsize L) (conf_size conf)"

definition opened :: "sysinfo_conf \<Rightarrow> sysinfo_priv \<Rightarrow> bool" where
  "opened conf p \<longleftrightarrow> g_fdcm_hdl p = Some (conf_hdl conf) \<and> \<not> hdl_freed p"

lemma layout_ok_dec [simp]: "layout_ok sysinfo_wf L \<Longrightarrow> sysinfo_wf x \<Longrightarrow> dec L (enc L x) = x"
  and layout_ok_len [simp]: "layout_ok sysinfo_wf L \<Longrightarrow> sysinfo_wf x \<Longrightarrow> length (enc L x) = unat (lsize L)"
  and layout_ok_wf: "layout_ok sysinfo_wf L \<Longrightarrow> length bs = unat (lsize L) \<Longrightarrow> sysinfo_wf (dec L bs)"
  by (simp_all add: layout_ok_def)

lemma ucast_u16_u32_0: "(ucast (x :: u16) :: u32) = 0 \<longleftrightarrow> x = 0"
  by (metis unat_ucast_u16_u32 unat_eq_zero)

text \<open>What the defaults are, with the address \<open>mac\<close>.\<close>

definition default_settings :: "u8 list \<Rightarrow> sysinfo" where
  "default_settings mac = sysinfo_zero\<lparr>mac_addr := mac, wlan_mode := WLAN_MODE_STA, sta_use_dhcp := 1,
     netif_ap_param := \<lparr>ip_addr = IP4_ADDR 192 168 51 1, net_mask = IP4_ADDR 255 255 255 0, gateway = IP4_ADDR 192 168 51 1\<rparr>\<rparr>"

lemma default_wf: "length mac = 6 \<Longrightarrow> sysinfo_wf (default_settings mac)"
  by (simp add: default_settings_def sysinfo_zero_def sysinfo_wf_def)

section \<open>Whatever fails\<close>

context flash_store
begin

lemma fdcm_read_total:
  assumes ok: "ok (fh_flash h) s" and data: "unat ds \<le> length buf"
  shows "\<exists>r b s'. rom_fdcm_read F (Some h) (Some buf) ds s = Some (r, Some b, s') \<and> length b = length buf \<and>
     (r = ucast ds \<or> r = 0) \<and> store_frame ok dsize mem (fh_flash h) 0 0 s s'"
proof -
  let ?fl = "fh_flash h" let ?keep = "store_frame ok dsize mem ?fl 0 0"
  obtain r1 hb s1 where R: "if_flash_read F ?fl (fh_addr h) (replicate 8 0) 8 s = Some (r1, hb, s1)" "?keep s s1"
    using read_law [OF ok, of 8 "replicate 8 0" "fh_addr h"] by auto
  let ?h = "fdcm_header_of_bytes hb" let ?bs = "bitmap_size ?h"
  show ?thesis
  proof (cases "r1 \<noteq> 8 \<or> header_invalid ?h ds (fh_size h)")
    case True
    then show ?thesis using R by (auto simp: rom_fdcm_read_def Let_def)
  next
    case False
    obtain m s2 where M: "if_malloc F (unat ?bs) s1 = (m, s2)" by fastforce
    have f2: "?keep s s2" by (rule store_frame_trans [OF R(2) conjunct1 [OF malloc_law [OF M]]])
    show ?thesis
    proof (cases m)
      case None
      then show ?thesis using False R(1) M f2 by (auto simp: rom_fdcm_read_def Let_def)
    next
      case (Some bm)
      have len: "unat (ucast ?bs :: u32) \<le> length bm" using malloc_law [OF M] Some by simp
      obtain r3 bm3 s3 where B: "if_flash_read F ?fl (fh_addr h + 8) bm (ucast ?bs) s2 = Some (r3, bm3, s3)" "?keep s2 s3"
        using read_law [OF store_frame_ok [OF f2 ok] len, of "fh_addr h + 8"] by blast
      have f3: "?keep s s3" by (rule store_frame_trans [OF f2 B(2)])
      let ?a = "fh_addr h + 8 + (ucast ?bs + ucast ds * (fdcm_bit_count (take (unat ?bs) bm3) - 1))"
      have lds: "unat (ucast ds :: u32) \<le> length buf" using data by simp
      obtain r4 b s4 where D: "if_flash_read F ?fl ?a buf (ucast ds) s3 = Some (r4, b, s4)" "?keep s3 s4"
        "r4 = ucast ds \<or> r4 = 0" "length b = length buf"
        using read_law [OF store_frame_ok [OF f3 ok] lds, of ?a] by blast
      show ?thesis
        using False R(1) M Some B(1) D f3 store_frame_trans [OF f3 D(2)]
        by (cases "r3 = ucast ?bs") (simp_all add: rom_fdcm_read_def Let_def)
    qed
  qed
qed

text \<open>Loading always returns and leaves settings of the right shape, whatever the area holds.\<close>

lemma load_returns:
  assumes "ok (conf_flash conf) s" "layout_ok sysinfo_wf L" "opened conf p" "sysinfo_wf (g_sysinfo p)"
  shows "\<exists>r q s'. sysinfo_load F L p s = Some (r, q, s') \<and> (r = 0 \<or> r = - 1) \<and> sysinfo_wf (g_sysinfo q) \<and>
     opened conf q \<and> store_frame ok dsize mem (conf_flash conf) 0 0 s s'"
proof -
  have len: "length (enc L (g_sysinfo p)) = unat (lsize L)" using assms(2,4) by simp
  obtain r b s' where "rom_fdcm_read F (Some (conf_hdl conf)) (Some (enc L (g_sysinfo p))) (lsize L) s = Some (r, Some b, s')"
    "length b = unat (lsize L)" "store_frame ok dsize mem (conf_flash conf) 0 0 s s'"
    using fdcm_read_total [of "conf_hdl conf" s "lsize L" "enc L (g_sysinfo p)"] assms(1) len by auto
  then show ?thesis using assms(2,3) layout_ok_wf [OF assms(2), of b]
    by (auto simp: sysinfo_load_def opened_def use_hdl_def)
qed

end

section \<open>Healthy hardware\<close>

context reliable_store
begin

abbreviation (input) clean :: "u32 \<Rightarrow> 's \<Rightarrow> 's \<Rightarrow> bool" where
  "clean fl \<equiv> store_frame ok dsize mem fl 0 0"

lemma load_sure:
  assumes "ok (conf_flash conf) s" "conf_fits conf L (dsize (conf_flash conf) s)" "opened conf p"
    and "area_holds conf L x (mem (conf_flash conf) s)" "sysinfo_wf x" "sysinfo_wf (g_sysinfo p)"
  shows "\<exists>s'. sysinfo_load F L p s = Some (0, p\<lparr>g_sysinfo := x\<rparr>, s') \<and> clean (conf_flash conf) s s'"
proof -
  have len: "length (enc L (g_sysinfo p)) = unat (lsize L)" and dec: "dec L (enc L x) = x"
    using assms(2,5,6) by (simp_all add: conf_fits_def)
  obtain s' where "rom_fdcm_read F (Some (conf_hdl conf)) (Some (enc L (g_sysinfo p))) (lsize L) s =
      Some (ucast (lsize L), Some (enc L x), s')" "clean (conf_flash conf) s s'"
    using fdcm_read_latest [of "conf_hdl conf" s "lsize L", OF _ _ len] assms by (auto simp: conf_fits_def area_holds_def)
  then show ?thesis using assms(3) dec by (simp add: sysinfo_load_def opened_def use_hdl_def)
qed

lemma save_sure:
  assumes "ok (conf_flash conf) s" "conf_fits conf L (dsize (conf_flash conf) s)" "opened conf p"
    and "fdcm_ready (mem (conf_flash conf) s) (unat (conf_addr conf)) (conf_size conf) (lsize L)" "sysinfo_wf (g_sysinfo p)"
  shows "\<exists>s'. sysinfo_save F L p s = Some (0, s') \<and>
     store_frame ok dsize mem (conf_flash conf) (unat (conf_addr conf)) (unat (conf_size conf)) s s' \<and>
     area_holds conf L (g_sysinfo p) (mem (conf_flash conf) s')"
proof -
  have len: "length (enc L (g_sysinfo p)) = unat (lsize L)" using assms(2,5) by (simp add: conf_fits_def)
  obtain s' where "rom_fdcm_write F (Some (conf_hdl conf)) (Some (enc L (g_sysinfo p))) (lsize L) s = Some (ucast (lsize L), s')"
    "store_frame ok dsize mem (conf_flash conf) (unat (conf_addr conf)) (unat (conf_size conf)) s s'"
    "area_holds conf L (g_sysinfo p) (mem (conf_flash conf) s')"
    using fdcm_write_latest [of "conf_hdl conf" s "lsize L", OF _ _ _ len] assms by (auto simp: conf_fits_def area_holds_def)
  then show ?thesis using assms(3) by (simp add: sysinfo_save_def opened_def use_hdl_def)
qed

lemma open_sure:
  assumes "ok (conf_flash conf) s" "conf_fits conf L (dsize (conf_flash conf) s)"
  shows "\<exists>s'. rom_fdcm_open F (conf_flash conf) (conf_addr conf) (conf_size conf) s = Some (Some (conf_hdl conf), s') \<and>
     clean (conf_flash conf) s s'"
proof -
  have "4096 dvd unat (conf_addr conf)" "4096 dvd unat (conf_size conf)" "conf_size conf \<noteq> 0"
    using assms(2) by (auto simp: conf_fits_def fdcm_usable_def)
  then show ?thesis using fdcm_open_sure [OF assms(1)] by (simp add: conf_hdl_def)
qed

text \<open>A start with saved settings.\<close>

lemma init_with_settings:
  assumes ok: "ok (conf_flash conf) s" and fits: "conf_fits conf L (dsize (conf_flash conf) s)"
    and holds: "area_holds conf L x (mem (conf_flash conf) s)" and free: "\<not> area_overlaps (pingpong conf) ip (conf_addr conf)"
    and wf: "sysinfo_wf x" "sysinfo_wf (g_sysinfo p)"
  shows "\<exists>q s'. sysinfo_init F L conf ip rand p s = Some (0, q, s') \<and> opened conf q \<and> clean (conf_flash conf) s s' \<and>
     g_sysinfo q = (if mac_source conf = SYSINFO_MAC_ADDR_FLASH then x else x\<lparr>mac_addr := mac_of conf rand\<rparr>)"
proof -
  let ?p = "p\<lparr>g_fdcm_hdl := Some (conf_hdl conf), hdl_freed := False\<rparr>"
  obtain s1 where s1: "rom_fdcm_open F (conf_flash conf) (conf_addr conf) (conf_size conf) s = Some (Some (conf_hdl conf), s1)"
    "clean (conf_flash conf) s s1"
    using open_sure [OF ok fits] by blast
  have "ok (conf_flash conf) s1" "dsize (conf_flash conf) s1 = dsize (conf_flash conf) s" "mem (conf_flash conf) s1 = mem (conf_flash conf) s"
    using store_frame_ok [OF s1(2) ok] store_frame_dsize [OF s1(2)] store_frame_mem_none [OF s1(2)] by simp_all
  then obtain s2 where s2: "sysinfo_load F L ?p s1 = Some (0, ?p\<lparr>g_sysinfo := x\<rparr>, s2)" "clean (conf_flash conf) s1 s2"
    using load_sure [of conf s1 L ?p x] fits holds wf by (auto simp: opened_def)
  show ?thesis
    using s1 s2 free store_frame_trans [OF s1(2) s2(2)]
    by (auto simp: sysinfo_init_def sysinfo_init_value_def init_mac_other opened_def)
qed

lemma read_fresh:
  assumes "ok (conf_flash conf) s" "conf_fits conf L (dsize (conf_flash conf) s)"
    and "area_fresh conf L (mem (conf_flash conf) s)"
  shows "\<exists>s'. rom_fdcm_read F (Some (conf_hdl conf)) (Some buf) (lsize L) s = Some (0, Some buf, s') \<and>
     clean (conf_flash conf) s s' \<and> lsize L \<noteq> 0"
proof -
  have u: "unat (conf_addr conf) + 8 \<le> dsize (conf_flash conf) s" "lsize L \<noteq> 0"
    using assms(2) by (auto simp: conf_fits_def fdcm_usable_def fdcm_area_def)
  obtain s1 where "if_flash_read F (conf_flash conf) (conf_addr conf) (replicate 8 0) 8 s =
      Some (8, content_read (mem (conf_flash conf) s) (unat (conf_addr conf)) 8, s1)" "clean (conf_flash conf) s s1"
    using read_sure [OF assms(1), of 8 "replicate 8 0" "conf_addr conf"] u by auto
  then show ?thesis using assms(3) u(2) by (simp add: rom_fdcm_read_def area_fresh_def)
qed

lemma init_mac_fresh:
  assumes "ok (conf_flash conf) s" "conf_fits conf L (dsize (conf_flash conf) s)" "opened conf p"
    and "area_fresh conf L (mem (conf_flash conf) s)"
  shows "\<exists>s'. sysinfo_init_mac_addr F L conf rand p s = Some (with_mac (mac_of conf rand) p, s') \<and> clean (conf_flash conf) s s'"
proof (cases "mac_source conf = SYSINFO_MAC_ADDR_FLASH")
  case True
  obtain b s1 where m: "if_malloc F (unat (lsize L)) s = (Some b, s1)" "clean (conf_flash conf) s s1"
    using malloc_sure [OF assms(1)] by blast
  have "ok (conf_flash conf) s1" "dsize (conf_flash conf) s1 = dsize (conf_flash conf) s" "mem (conf_flash conf) s1 = mem (conf_flash conf) s"
    using store_frame_ok [OF m(2) assms(1)] store_frame_dsize [OF m(2)] store_frame_mem_none [OF m(2)] by simp_all
  then obtain s2 where s2: "rom_fdcm_read F (Some (conf_hdl conf)) (Some b) (lsize L) s1 = Some (0, Some b, s2)"
    "clean (conf_flash conf) s1 s2" "lsize L \<noteq> 0"
    using read_fresh [of conf s1 L b] assms(2,4) by auto
  then show ?thesis
    using True m(1) assms(3) store_frame_trans [OF m(2) s2(2)] ucast_u16_u32_0 [of "lsize L"]
    by (auto simp: sysinfo_init_mac_addr_def use_hdl_def opened_def mac_of_def)
next
  case False
  then show ?thesis unfolding init_mac_other [OF False] by (intro exI conjI) (rule refl, rule store_frame_refl)
qed

lemma ready_if_fresh: "area_fresh conf L m \<Longrightarrow> fdcm_ready m (unat (conf_addr conf)) (conf_size conf) (lsize L)"
  by (simp add: area_fresh_def fdcm_ready_def)

text \<open>The first start.\<close>

lemma init_first:
  assumes ok: "ok (conf_flash conf) s" and fits: "conf_fits conf L (dsize (conf_flash conf) s)"
    and fresh: "area_fresh conf L (mem (conf_flash conf) s)" and free: "\<not> area_overlaps (pingpong conf) ip (conf_addr conf)"
    and wf: "sysinfo_wf (g_sysinfo p)" "length (mac_of conf rand) = 6"
  shows "\<exists>q s'. sysinfo_init F L conf ip rand p s = Some (0, q, s') \<and> opened conf q \<and>
     g_sysinfo q = default_settings (mac_of conf rand) \<and> area_holds conf L (g_sysinfo q) (mem (conf_flash conf) s') \<and>
     store_frame ok dsize mem (conf_flash conf) (unat (conf_addr conf)) (unat (conf_size conf)) s s'"
proof -
  let ?fl = "conf_flash conf"
  let ?p = "p\<lparr>g_fdcm_hdl := Some (conf_hdl conf), hdl_freed := False\<rparr>"
  let ?z = "?p\<lparr>g_sysinfo := sysinfo_zero\<rparr>"
  let ?q = "?p\<lparr>g_sysinfo := default_settings (mac_of conf rand)\<rparr>"
  obtain s1 where s1: "rom_fdcm_open F ?fl (conf_addr conf) (conf_size conf) s = Some (Some (conf_hdl conf), s1)" "clean ?fl s s1"
    using open_sure [OF ok fits] by blast
  have m1: "ok ?fl s1" "dsize ?fl s1 = dsize ?fl s" "mem ?fl s1 = mem ?fl s"
    using store_frame_ok [OF s1(2) ok] store_frame_dsize [OF s1(2)] store_frame_mem_none [OF s1(2)] by simp_all
  obtain s2 where s2: "rom_fdcm_read F (Some (conf_hdl conf)) (Some (enc L (g_sysinfo p))) (lsize L) s1 =
      Some (0, Some (enc L (g_sysinfo p)), s2)" "clean ?fl s1 s2" and nz: "lsize L \<noteq> 0"
    using read_fresh [of conf s1 L "enc L (g_sysinfo p)"] m1 fits fresh by auto
  have f2: "clean ?fl s s2" by (rule store_frame_trans [OF s1(2) s2(2)])
  have m2: "ok ?fl s2" "dsize ?fl s2 = dsize ?fl s" "mem ?fl s2 = mem ?fl s"
    using store_frame_ok [OF f2 ok] store_frame_dsize [OF f2] store_frame_mem_none [OF f2] by simp_all
  have load: "sysinfo_load F L ?p s1 = Some (- 1, ?p, s2)"
    using s2(1) nz fits wf(1) ucast_u16_u32_0 [of "lsize L"] by (simp add: sysinfo_load_def use_hdl_def conf_fits_def)
  obtain s3 where s3: "sysinfo_init_mac_addr F L conf rand ?z s2 = Some (with_mac (mac_of conf rand) ?z, s3)" "clean ?fl s2 s3"
    using init_mac_fresh [of conf s2 L ?z] m2 fits fresh by (auto simp: opened_def)
  have f3: "clean ?fl s s3" by (rule store_frame_trans [OF f2 s3(2)])
  have m3: "ok ?fl s3" "dsize ?fl s3 = dsize ?fl s" "mem ?fl s3 = mem ?fl s"
    using store_frame_ok [OF f3 ok] store_frame_dsize [OF f3] store_frame_mem_none [OF f3] by simp_all
  obtain s4 where s4: "sysinfo_save F L ?q s3 = Some (0, s4)"
    "store_frame ok dsize mem ?fl (unat (conf_addr conf)) (unat (conf_size conf)) s3 s4"
    "area_holds conf L (g_sysinfo ?q) (mem ?fl s4)"
    using save_sure [of conf s3 L ?q] m3 fits fresh ready_if_fresh default_wf [OF wf(2)] by (auto simp: opened_def)
  have q: "with_mac (mac_of conf rand) ?z\<lparr>g_sysinfo := (g_sysinfo (with_mac (mac_of conf rand) ?z))\<lparr>wlan_mode := WLAN_MODE_STA,
      sta_use_dhcp := 1, netif_ap_param := \<lparr>ip_addr = IP4_ADDR 192 168 51 1, net_mask = IP4_ADDR 255 255 255 0,
      gateway = IP4_ADDR 192 168 51 1\<rparr>\<rparr>\<rparr> = ?q"
    by (simp add: default_settings_def)
  have "sysinfo_default F L conf rand ?p s2 = Some (0, ?q, s4)"
    using s3(1) s4(1) q by (simp add: sysinfo_default_def Let_def)
  then have "sysinfo_init F L conf ip rand p s = Some (0, ?q, s4)"
    using s1(1) load free by (simp add: sysinfo_init_def sysinfo_init_value_def)
  then show ?thesis
    using s4 store_frame_trans [OF store_frame_none [OF f3] s4(2)] by (auto simp: opened_def)
qed

text \<open>Saving, and starting again with whatever is in memory.\<close>

lemma save_and_restart:
  assumes ok: "ok (conf_flash conf) s" and fits: "conf_fits conf L (dsize (conf_flash conf) s)" and open_: "opened conf p"
    and ready: "fdcm_ready (mem (conf_flash conf) s) (unat (conf_addr conf)) (conf_size conf) (lsize L)"
    and free: "\<not> area_overlaps (pingpong conf) ip (conf_addr conf)"
    and wf: "sysinfo_wf (g_sysinfo p)" "sysinfo_wf (g_sysinfo p')"
  shows "\<exists>s1 q s2. sysinfo_save F L p s = Some (0, s1) \<and> sysinfo_init F L conf ip rand p' s1 = Some (0, q, s2) \<and>
     g_sysinfo q = (if mac_source conf = SYSINFO_MAC_ADDR_FLASH then g_sysinfo p else (g_sysinfo p)\<lparr>mac_addr := mac_of conf rand\<rparr>) \<and>
     store_frame ok dsize mem (conf_flash conf) (unat (conf_addr conf)) (unat (conf_size conf)) s s2"
proof -
  let ?fl = "conf_flash conf"
  obtain s1 where s1: "sysinfo_save F L p s = Some (0, s1)"
    "store_frame ok dsize mem ?fl (unat (conf_addr conf)) (unat (conf_size conf)) s s1"
    "area_holds conf L (g_sysinfo p) (mem ?fl s1)"
    using save_sure [OF ok fits open_ ready wf(1)] by blast
  have m1: "ok ?fl s1" "dsize ?fl s1 = dsize ?fl s"
    using store_frame_ok [OF s1(2) ok] store_frame_dsize [OF s1(2)] by simp_all
  obtain q s2 where "sysinfo_init F L conf ip rand p' s1 = Some (0, q, s2)" "clean ?fl s1 s2"
    "g_sysinfo q = (if mac_source conf = SYSINFO_MAC_ADDR_FLASH then g_sysinfo p else (g_sysinfo p)\<lparr>mac_addr := mac_of conf rand\<rparr>)"
    using init_with_settings [of conf s1 L "g_sysinfo p" ip p' rand] m1 fits s1(3) free wf by auto
  then show ?thesis using s1(1) store_frame_trans [OF s1(2) store_frame_none] by blast
qed

end

section \<open>Application data\<close>

text \<open>The channel is an \<open>int8_t\<close>, which is never 255: no channel is ever asked for.\<close>

lemma sint_u8_not_255: "sint (c :: 8 word) \<noteq> 0xFF"
  using sint_lt [of c] by simp

lemma user_data_never_encrypted:
  assumes "user_data_init F conf ip chan p s = Some (r, q, s')"
  shows "ud_calls q = ud_calls p \<and> ud_channel q = ud_channel p"
  using assms sint_u8_not_255 [of "ud_channel p"]
  by (auto simp: user_data_init_def bind_Some_iff Let_def split: if_splits)

lemma user_data_not_freed:
  assumes "user_data_init F conf ip chan p s = Some (r, q, s')" "\<not> ud_hdl_freed p"
  shows "\<not> ud_hdl_freed q"
  using assms sint_u8_not_255 [of "ud_channel p"]
  by (auto simp: user_data_init_def bind_Some_iff Let_def split: if_splits)

section \<open>The test of overlaps\<close>

text \<open>The size plays no part: an area that begins below the images passes, however far it reaches.\<close>

lemma area_below_images_passes:
  assumes "addr < iop_addr ip ! 0" "addr < iop_addr ip ! 1" "addr < ota_addr ip"
  shows "\<not> area_overlaps pp ip addr"
  using assms by (simp add: area_overlaps_def upt_rec not_le)

end
