(* ===== verification/Sysinfo_Sim.thy ===== *)
theory Sysinfo_Sim
  imports Sysinfo_Spec Sim_Image
begin

text \<open>A layout without padding, and a place on the simulated chip.\<close>

definition netif_bytes :: "sysinfo_netif_param \<Rightarrow> u8 list" where
  "netif_bytes n = bytes_of_u32 (ip_addr n) @ bytes_of_u32 (net_mask n) @ bytes_of_u32 (gateway n)"

definition netif_of :: "u8 list \<Rightarrow> sysinfo_netif_param" where
  "netif_of bs = \<lparr>ip_addr = u32_of_bytes bs, net_mask = u32_of_bytes (drop 4 bs), gateway = u32_of_bytes (drop 8 bs)\<rparr>"

lemma netif_round: "netif_of (netif_bytes n @ bs) = n" and netif_len [simp]: "length (netif_bytes n) = 12"
  by (simp_all add: netif_of_def netif_bytes_def)

definition cut :: "nat \<Rightarrow> u8 list \<Rightarrow> u8 list \<times> u8 list" where
  "cut n bs = (take n bs, drop n bs)"

lemma cut_append: "length xs = n \<Longrightarrow> cut n (xs @ ys) = (xs, ys)"
  by (simp add: cut_def)

lemma cut_all: "length xs = n \<Longrightarrow> cut n xs = (xs, [])"
  by (simp add: cut_def)

definition sta_bytes :: "sysinfo_wlan_sta_param \<Rightarrow> u8 list" where
  "sta_bytes w = sta_ssid w @ sta_psk w @ [sta_ssid_len w]"

definition sta_of :: "u8 list \<Rightarrow> sysinfo_wlan_sta_param" where
  "sta_of bs = \<lparr>sta_ssid = take 32 bs, sta_ssid_len = bs ! 97, sta_psk = take 65 (drop 32 bs)\<rparr>"

definition ap_bytes :: "sysinfo_wlan_ap_param \<Rightarrow> u8 list" where
  "ap_bytes w = ap_ssid w @ ap_psk w @ [ap_ssid_len w, ap_channel w]"

definition ap_of :: "u8 list \<Rightarrow> sysinfo_wlan_ap_param" where
  "ap_of bs = \<lparr>ap_ssid = take 32 bs, ap_ssid_len = bs ! 97, ap_psk = take 65 (drop 32 bs), ap_channel = bs ! 98\<rparr>"

lemma sta_round:
  assumes "length (sta_ssid w) = 32" "length (sta_psk w) = 65"
  shows "sta_of (sta_bytes w) = w" "length (sta_bytes w) = 98"
  using assms by (simp_all add: sta_of_def sta_bytes_def nth_append)

lemma ap_round:
  assumes "length (ap_ssid w) = 32" "length (ap_psk w) = 65"
  shows "ap_of (ap_bytes w) = w" "length (ap_bytes w) = 99"
  using assms by (simp_all add: ap_of_def ap_bytes_def nth_append)

text \<open>The fields with their lengths.\<close>

definition sim_enc :: "sysinfo \<Rightarrow> u8 list" where
  "sim_enc x = bytes_of_u32 (si_version x) @ [ucast (sta_use_dhcp x), wlan_mode x] @ mac_addr x @
     sta_bytes (wlan_sta_param x) @ ap_bytes (wlan_ap_param x) @ netif_bytes (netif_sta_param x) @ netif_bytes (netif_ap_param x)"

definition sim_dec :: "u8 list \<Rightarrow> sysinfo" where
  "sim_dec bs =
     (let (v, bs) = cut 4 bs; (d, bs) = cut 2 bs; (m, bs) = cut 6 bs; (s, bs) = cut 98 bs; (a, bs) = cut 99 bs; (n, bs) = cut 12 bs
      in \<lparr>si_version = u32_of_bytes v, sta_use_dhcp = ucast (d ! 0), mac_addr = m, wlan_mode = d ! 1,
          wlan_sta_param = sta_of s, wlan_ap_param = ap_of a, netif_sta_param = netif_of n, netif_ap_param = netif_of bs\<rparr>)"

definition sim_layout :: "sysinfo layout" where
  "sim_layout = \<lparr>enc = sim_enc, dec = sim_dec, lsize = 233\<rparr>"

lemma bit_round: "ucast (ucast (b :: 1 word) :: u8) = b"
  by (rule ucast_up_ucast_id) (simp add: is_up)

lemma sim_layout_size [simp]: "lsize sim_layout = 233"
  by (simp add: sim_layout_def)

lemma sim_layout_ok: "layout_ok sysinfo_wf sim_layout"
proof -
  have "sim_dec (sim_enc x) = x \<and> length (sim_enc x) = 233" if "sysinfo_wf x" for x
  proof -
    have len: "length (mac_addr x) = 6" "length (sta_bytes (wlan_sta_param x)) = 98" "length (ap_bytes (wlan_ap_param x)) = 99"
      and round: "sta_of (sta_bytes (wlan_sta_param x)) = wlan_sta_param x" "ap_of (ap_bytes (wlan_ap_param x)) = wlan_ap_param x"
      using that sta_round ap_round by (simp_all add: sysinfo_wf_def)
    have net: "netif_of (netif_bytes n) = n" for n using netif_round [of n "[]"] by simp
    have ver: "u32_of_bytes (bytes_of_u32 v) = v" for v using u32_bytes_roundtrip [of v "[]"] by simp
    have "sim_dec (sim_enc x) = \<lparr>si_version = si_version x, sta_use_dhcp = sta_use_dhcp x, mac_addr = mac_addr x, wlan_mode = wlan_mode x,
        wlan_sta_param = wlan_sta_param x, wlan_ap_param = wlan_ap_param x, netif_sta_param = netif_sta_param x,
        netif_ap_param = netif_ap_param x\<rparr>"
      unfolding sim_dec_def sim_enc_def
      by (simp add: cut_append len round net ver bit_round del: append.simps)
    then show ?thesis using len by (simp add: sim_enc_def)
  qed
  moreover have "sysinfo_wf (sim_dec bs)" if "length bs = 233" for bs
    using that by (simp add: sim_dec_def sysinfo_wf_def cut_def sta_of_def ap_of_def)
  ultimately show ?thesis by (simp add: layout_ok_def sim_layout_def)
qed

text \<open>The place of the store used elsewhere, addresses from the chip's identity.\<close>

definition sim_conf :: "u32 \<Rightarrow> sysinfo_conf" where
  "sim_conf src = \<lparr>mac_source = src, conf_flash = 0, conf_addr = 0x100000, conf_size = 0x1000, pingpong = True,
     efuse_mac = None, chipid = [1, 2, 3, 4, 5, 6, 7, 8, 9, 10, 11, 12, 13, 14, 15, 16]\<rparr>"

lemma sim_conf_sel [simp]: "conf_flash (sim_conf src) = 0" "conf_addr (sim_conf src) = 0x100000"
  "conf_size (sim_conf src) = 0x1000" "mac_source (sim_conf src) = src" "pingpong (sim_conf src)"
  by (simp_all add: sim_conf_def)

lemma sim_conf_fits: "conf_fits (sim_conf src) sim_layout 0x200000"
  by (simp add: conf_fits_def sim_layout_ok fdcm_usable_def fdcm_area_def conf_hdl_def)

lemma sim_conf_fresh: "area_fresh (sim_conf src) sim_layout blank"
  using sim_hdl_invalid by (simp add: area_fresh_def)

text \<open>The images lie above.\<close>

definition high_iop :: image_ota_param where
  "high_iop = (iop image_priv_zero)\<lparr>iop_addr := [0x110000, 0x150000], img_max_size := 128, ota_addr := 0x190000, ota_size := 0x1000\<rparr>"

lemma high_iop_free: "\<not> area_overlaps True high_iop 0x100000"
  by (rule area_below_images_passes) (simp_all add: high_iop_def)

definition zero_info :: sysinfo_priv where
  "zero_info = \<lparr>g_sysinfo = sysinfo_zero, g_fdcm_hdl = None, hdl_freed = False\<rparr>"

lemma zero_info_wf [simp]: "sysinfo_wf (g_sysinfo zero_info)"
  by (simp add: zero_info_def sysinfo_wf_def sysinfo_zero_def)

lemma zero_info_open: "\<not> hdl_freed zero_info"
  by (simp add: zero_info_def)

end
