(* ===== verification/Fuse_Iface.thy ===== *)
theory Fuse_Iface
  imports XR_Prelude
begin

text \<open>
  The interface between the eFuse driver and the fields kept in the array: the two functions as
  a record over the driver's state, and their contract on single bits as the locale
  \<open>fuse_store\<close>.
\<close>

record 's fuse_if =
  fi_read :: "u32 \<Rightarrow> u32 \<Rightarrow> u8 list \<Rightarrow> 's \<Rightarrow> (int \<times> u8 list \<times> 's) option"
  fi_write :: "u32 \<Rightarrow> u32 \<Rightarrow> u8 list \<Rightarrow> 's \<Rightarrow> (int \<times> u8 list \<times> 's) option"

definition buf_bit :: "u8 list \<Rightarrow> nat \<Rightarrow> bool" where
  "buf_bit d k = bit (d ! (k div 8)) (k mod 8)"

text \<open>
  \<open>R\<close> are the bits a programming asks for: no fuse is ever cleared, no other is set; \<open>sure\<close>
  when the ones asked for are set, which worn or defective fuses need not be.
\<close>

definition burns :: "bool \<Rightarrow> (nat \<Rightarrow> bool) \<Rightarrow> (nat \<Rightarrow> bool) \<Rightarrow> (nat \<Rightarrow> bool) \<Rightarrow> bool" where
  "burns sure R f f' \<longleftrightarrow> (\<forall>k. (f k \<longrightarrow> f' k) \<and> (f' k \<longrightarrow> f k \<or> R k) \<and> (sure \<and> R k \<longrightarrow> f' k))"

lemma burns_trans: "burns sure P c d \<Longrightarrow> burns sure Q d e \<Longrightarrow> (\<And>k. R k \<longleftrightarrow> P k \<or> Q k) \<Longrightarrow> burns sure R c e"
  by (simp add: burns_def) blast

text \<open>The bits from \<open>a\<close> on as bytes, the lowest bit first, with the rest of the last byte zero.\<close>

definition fuse_byte :: "(nat \<Rightarrow> bool) \<Rightarrow> nat \<Rightarrow> nat \<Rightarrow> nat \<Rightarrow> u8" where
  "fuse_byte f a n i = horner_sum of_bool 2 (map (\<lambda>j. 8 * i + j < n \<and> f (a + 8 * i + j)) [0..<8])"

definition fuse_bytes :: "(nat \<Rightarrow> bool) \<Rightarrow> nat \<Rightarrow> nat \<Rightarrow> u8 list" where
  "fuse_bytes f a n = map (fuse_byte f a n) [0..<(n + 7) div 8]"

lemma length_fuse_bytes [simp]: "length (fuse_bytes f a n) = (n + 7) div 8"
  by (simp add: fuse_bytes_def)

lemma fuse_byte_bit: "j < 8 \<Longrightarrow> bit (fuse_byte f a n i) j = (8 * i + j < n \<and> f (a + 8 * i + j))"
  unfolding fuse_byte_def by (subst bit_horner_sum_bit_word_iff) simp

lemma fuse_bytes_bit: "k < 8 * ((n + 7) div 8) \<Longrightarrow> buf_bit (fuse_bytes f a n) k = (k < n \<and> f (a + k))"
  by (simp add: buf_bit_def fuse_bytes_def fuse_byte_bit less_mult_imp_div_less mult.commute add.assoc)

text \<open>A buffer is determined by its bits.\<close>

lemma buf_eqI:
  assumes "length d = length e" "\<And>k. k < 8 * length d \<Longrightarrow> buf_bit d k = buf_bit e k"
  shows "d = e"
proof (rule nth_equalityI)
  show "length d = length e" by (rule assms(1))
  fix i assume i: "i < length d"
  show "d ! i = e ! i"
  proof (rule bit_word_eqI)
    fix j assume "j < LENGTH(8)"
    then have "8 * i + j < 8 * length d" "(8 * i + j) div 8 = i" "(8 * i + j) mod 8 = j" using i by simp_all
    then show "bit (d ! i) j = bit (e ! i) j" using assms(2) [of "8 * i + j"] by (simp add: buf_bit_def)
  qed
qed

lemma fuse_bytes_cong: "(\<And>k. k < n \<Longrightarrow> f (a + k) = g (a + k)) \<Longrightarrow> fuse_bytes f a n = fuse_bytes g a n"
  by (rule buf_eqI) (simp_all add: fuse_bytes_bit cong: conj_cong)

locale fuse_store =
  fixes F :: "'s fuse_if"
    and idle :: "'s \<Rightarrow> bool"
    and fuses :: "'s \<Rightarrow> nat \<Rightarrow> bool"
    and sure :: bool
  assumes read_law: "idle s \<Longrightarrow> n \<noteq> 0 \<Longrightarrow> unat a + unat n \<le> 1024 \<Longrightarrow> (unat n + 7) div 8 \<le> length d \<Longrightarrow>
      \<exists>s'. fi_read F a n d s = Some (HAL_OK, fuse_bytes (fuses s) (unat a) (unat n) @ drop ((unat n + 7) div 8) d, s') \<and>
        idle s' \<and> fuses s' = fuses s"
    and write_law: "idle s \<Longrightarrow> n \<noteq> 0 \<Longrightarrow> unat a + unat n \<le> 1024 \<Longrightarrow> (unat n - 1) div 8 < length d \<Longrightarrow>
      \<exists>d' s'. fi_write F a n d s = Some (HAL_OK, d', s') \<and> idle s' \<and> length d' = length d \<and>
        (\<forall>k. k div 8 < length d \<longrightarrow> buf_bit d' k = (buf_bit d k \<and> (k div 8 = (unat n - 1) div 8 \<longrightarrow> k < unat n))) \<and>
        burns sure (\<lambda>k. unat a \<le> k \<and> k < unat a + unat n \<and> buf_bit d (k - unat a)) (fuses s) (fuses s')"

end
