(* ===== verification/Efpg_Fuse.thy ===== *)
theory Efpg_Fuse
  imports Fuse_Iface
begin

text \<open>
  The fields of the eFuse array, \<open>src/efpg/efpg_efuse.c\<close>, for the chip of this SDK
  (\<open>CONFIG_CHIP_ARCH_VER == 3\<close>), over the two functions of the driver it calls.  A field is read
  and written by number; writing reads back what it wrote.  The boot hash has room to correct two
  bits, calibration values and addresses have a flag that says that they are there.
  \<open>HAL_EFUSE_Write\<close> changes the buffer it is given, so buffers are passed through.
\<close>

section \<open>Constants\<close>

datatype efpg_field_t = EFPG_FIELD_HOSC | EFPG_FIELD_BOOT | EFPG_FIELD_MAC_WLAN | EFPG_FIELD_DCXO | EFPG_FIELD_POUT_WLAN
  | EFPG_FIELD_CHIPID | EFPG_FIELD_UA | EFPG_FIELD_POUT_BT | EFPG_FIELD_MAC_BT | EFPG_FIELD_SECRETKEY
  | EFPG_FIELD_SECURESWD | EFPG_FIELD_ALL | EFPG_FIELD_NUM

abbreviation (input) EFPG_ACK_OK :: u16 where "EFPG_ACK_OK \<equiv> 200"
abbreviation (input) EFPG_ACK_CS_ERR :: u16 where "EFPG_ACK_CS_ERR \<equiv> 400"
abbreviation (input) EFPG_ACK_MD_ERR :: u16 where "EFPG_ACK_MD_ERR \<equiv> 401"
abbreviation (input) EFPG_ACK_PARSE_ERR :: u16 where "EFPG_ACK_PARSE_ERR \<equiv> 402"
abbreviation (input) EFPG_ACK_RW_ERR :: u16 where "EFPG_ACK_RW_ERR \<equiv> 403"
abbreviation (input) EFPG_ACK_DI_ERR :: u16 where "EFPG_ACK_DI_ERR \<equiv> 404"
abbreviation (input) EFPG_ACK_NODATA_ERR :: u16 where "EFPG_ACK_NODATA_ERR \<equiv> 405"

text \<open>The result of an operation that fills or sends a buffer.\<close>

type_synonym 's ack_res = "(u16 \<times> u8 list \<times> 's) option"

text \<open>A read, or a write that is read back into \<open>buf\<close>; the flag says whether all went well.\<close>

definition read_back ::
  "'s fuse_if \<Rightarrow> u32 \<Rightarrow> u32 \<Rightarrow> u8 list \<Rightarrow> u8 list \<Rightarrow> 's \<Rightarrow> (bool \<times> u8 list \<times> u8 list \<times> 's) option" where
  "read_back F a n data buf s = do {
     (r, data, s) \<leftarrow> fi_write F a n data s;
     if r \<noteq> HAL_OK then Some (False, data, buf, s) else do {
       (r, buf, s) \<leftarrow> fi_read F a n buf s;
       Some (r = HAL_OK, data, buf, s)
     }
   }"

section \<open>Regions with a flag\<close>

record efpg_region_info =
  flag_start :: u16
  flag_bits :: u16
  data_start :: u16
  data_bits :: u16
  buf_len :: nat

function low_ones :: "u8 \<Rightarrow> u8" where
  "low_ones flag = (if flag AND 1 \<noteq> 0 then low_ones (drop_bit 1 flag) + 1 else 0)"
  by pat_completeness auto
termination
proof (relation "measure unat")
  fix flag :: u8 assume "flag AND 1 \<noteq> 0"
  then have "flag \<noteq> 0" by auto
  then show "(drop_bit 1 flag, flag) \<in> measure unat" by (simp add: unat_div drop_bit_eq_div unat_gt_0)
qed simp

declare low_ones.simps [simp del]

text \<open>Where the data of slot \<open>idx\<close> begin; computed on 32 bits.\<close>

definition slot_start :: "efpg_region_info \<Rightarrow> u32 \<Rightarrow> u32" where
  "slot_start info idx = ucast (data_start info) + idx * ucast (data_bits info)"

definition efpg_read_region :: "'s fuse_if \<Rightarrow> efpg_region_info \<Rightarrow> u8 list \<Rightarrow> 's \<Rightarrow> 's ack_res" where
  "efpg_read_region F info data s = do {
     (r, fl, s) \<leftarrow> fi_read F (ucast (flag_start info)) (ucast (flag_bits info)) [0] s;
     if r \<noteq> HAL_OK then Some (EFPG_ACK_RW_ERR, data, s) else
       let flag = hd fl AND mask (unat (flag_bits info)) in
       if flag = 0 \<or> flag > mask (unat (flag_bits info)) then Some (EFPG_ACK_NODATA_ERR, data, s) else do {
         (r, data, s) \<leftarrow> fi_read F (slot_start info (ucast (low_ones flag) - 1)) (ucast (data_bits info)) data s;
         Some (if r \<noteq> HAL_OK then EFPG_ACK_RW_ERR else EFPG_ACK_OK, data, s)
       }
   }"

text \<open>Marking slot \<open>idx\<close> as used.\<close>

definition write_flag :: "'s fuse_if \<Rightarrow> efpg_region_info \<Rightarrow> u8 \<Rightarrow> 's \<Rightarrow> (bool \<times> 's) option" where
  "write_flag F info idx s = do {
     (good, w, buf, s) \<leftarrow> read_back F (ucast (flag_start info)) (ucast (flag_bits info)) [push_bit (unat idx) 1]
                          (replicate (buf_len info) 0) s;
     Some (good \<and> hd w = (hd buf AND hd w), s)
   }"

text \<open>Old data that the new data keep: only then the slot is tried.\<close>

definition keeps_bits :: "u8 list \<Rightarrow> u8 list \<Rightarrow> bool" where
  "keeps_bits buf data \<longleftrightarrow> list_all2 (\<lambda>b d. (b XOR d) AND b = 0) buf (take (length buf) data)"

text \<open>One slot: \<open>Some True\<close> as the first result when the data are in.\<close>

definition try_slot ::
  "'s fuse_if \<Rightarrow> efpg_region_info \<Rightarrow> u8 \<Rightarrow> u8 list \<Rightarrow> 's \<Rightarrow> (bool \<times> u8 list \<times> 's) option" where
  "try_slot F info idx data s =
     (let start_bit = slot_start info (ucast idx); n = unat (data_bits info) in do {
        (r, buf, s) \<leftarrow> fi_read F start_bit (ucast (data_bits info)) (replicate (buf_len info) 0) s;
        if r \<noteq> HAL_OK then Some (False, data, s) else
          let i = buf_len info - 1;
              buf = (if n mod 8 \<noteq> 0 then buf[i := buf ! i AND mask (n mod 8)] else buf) in
          if \<not> keeps_bits buf data then Some (False, data, s) else do {
            (good, data, buf, s) \<leftarrow> read_back F start_bit (ucast (data_bits info)) data (replicate (buf_len info) 0) s;
            Some (good \<and> take (buf_len info) data = buf, data, s)
          }
      })"

partial_function (option) region_loop :: "'s fuse_if \<Rightarrow> efpg_region_info \<Rightarrow> u8 \<Rightarrow> u8 list \<Rightarrow> 's \<Rightarrow> 's ack_res" where
  "region_loop F info idx data s =
     (if ucast idx < flag_bits info then do {
        (done, data, s) \<leftarrow> try_slot F info idx data s;
        if done then Some (EFPG_ACK_OK, data, s) else
          let idx = idx + 1 in
          if (ucast idx :: u16) > flag_bits info - 1 then Some (EFPG_ACK_DI_ERR, data, s) else do {
            (good, s) \<leftarrow> write_flag F info idx s;
            if \<not> good then Some (EFPG_ACK_RW_ERR, data, s) else region_loop F info idx data s
          }
      }
      else Some (EFPG_ACK_NODATA_ERR, data, s))"

definition efpg_write_region :: "'s fuse_if \<Rightarrow> efpg_region_info \<Rightarrow> u8 list \<Rightarrow> 's \<Rightarrow> 's ack_res" where
  "efpg_write_region F info data s = do {
     (r, fl, s) \<leftarrow> fi_read F (ucast (flag_start info)) (ucast (flag_bits info)) [0] s;
     if r \<noteq> HAL_OK then Some (EFPG_ACK_RW_ERR, data, s) else
       let flag = hd fl AND mask (unat (flag_bits info)) in
       if flag = 0 then do {
         (good, s) \<leftarrow> write_flag F info 0 s;
         if \<not> good then Some (EFPG_ACK_RW_ERR, data, s) else region_loop F info 0 data s
       }
       else region_loop F info (low_ones flag - 1) data s
   }"

section \<open>Calibration values and addresses\<close>

definition dcxo_region :: efpg_region_info where
  "dcxo_region = \<lparr>flag_start = 763, flag_bits = 1, data_start = 764, data_bits = 8, buf_len = 1\<rparr>"

datatype efpg_pout_cal_mode = EFPG_POUT_WLAN | EFPG_POUT_BT

definition pout_region :: "efpg_pout_cal_mode \<Rightarrow> efpg_region_info" where
  "pout_region mode = (case mode of
     EFPG_POUT_WLAN \<Rightarrow> \<lparr>flag_start = 772, flag_bits = 1, data_start = 773, data_bits = 21, buf_len = 3\<rparr>
   | EFPG_POUT_BT \<Rightarrow> \<lparr>flag_start = 794, flag_bits = 1, data_start = 795, data_bits = 21, buf_len = 3\<rparr>)"

datatype efpg_mac_mode = EFPG_MAC_WLAN | EFPG_MAC_BT

definition mac_region :: efpg_region_info where
  "mac_region = \<lparr>flag_start = 714, flag_bits = 1, data_start = 715, data_bits = 48, buf_len = 6\<rparr>"

definition first_mac_region :: efpg_region_info where
  "first_mac_region = \<lparr>flag_start = 665, flag_bits = 1, data_start = 666, data_bits = 48, buf_len = 6\<rparr>"

definition efpg_read_efuse_ver :: "'s fuse_if \<Rightarrow> 's \<Rightarrow> 's ack_res" where
  "efpg_read_efuse_ver F s = do {
     (r, d, s) \<leftarrow> fi_read F 0 4 [0] s;
     Some (if r \<noteq> HAL_OK then EFPG_ACK_RW_ERR else EFPG_ACK_OK, d, s)
   }"

definition read_first_wlan_mac :: "'s fuse_if \<Rightarrow> u8 list \<Rightarrow> 's \<Rightarrow> 's ack_res" where
  "read_first_wlan_mac F data s = do {
     (r, ver, s) \<leftarrow> efpg_read_efuse_ver F s;
     if r \<noteq> EFPG_ACK_OK then Some (EFPG_ACK_RW_ERR, data, s) else do {
       (r, data, s) \<leftarrow> efpg_read_region F first_mac_region data s;
       if r \<noteq> EFPG_ACK_OK then Some (r, data, s)
       else Some (EFPG_ACK_OK, if hd ver < 2 then rev (take 6 data) @ drop 6 data else data, s)
     }
   }"

definition write_first_wlan_mac :: "'s fuse_if \<Rightarrow> u8 list \<Rightarrow> 's \<Rightarrow> 's ack_res" where
  "write_first_wlan_mac F data s = do {
     (r, ver, s) \<leftarrow> efpg_read_efuse_ver F s;
     if r \<noteq> EFPG_ACK_OK then Some (EFPG_ACK_RW_ERR, data, s)
     else if hd ver < 2 then do {
       (r, _, s) \<leftarrow> efpg_write_region F first_mac_region (rev (take 6 data)) s;
       Some (r, data, s)
     }
     else efpg_write_region F first_mac_region data s
   }"

text \<open>\<open>EFPG_MAC_WLAN_ADDR_NUM\<close> is 0: there is no second WLAN address.\<close>

definition efpg_read_mac :: "'s fuse_if \<Rightarrow> efpg_mac_mode \<Rightarrow> u8 list \<Rightarrow> 's \<Rightarrow> 's ack_res" where
  "efpg_read_mac F mode data s = (case mode of
     EFPG_MAC_WLAN \<Rightarrow> read_first_wlan_mac F data s
   | EFPG_MAC_BT \<Rightarrow> efpg_read_region F mac_region data s)"

definition efpg_write_mac :: "'s fuse_if \<Rightarrow> efpg_mac_mode \<Rightarrow> u8 list \<Rightarrow> 's \<Rightarrow> 's ack_res" where
  "efpg_write_mac F mode data s = (case mode of
     EFPG_MAC_WLAN \<Rightarrow> do {
       (r, data, s) \<leftarrow> write_first_wlan_mac F data s;
       if r = EFPG_ACK_OK then Some (EFPG_ACK_OK, data, s) else Some (EFPG_ACK_NODATA_ERR, data, s)
     }
   | EFPG_MAC_BT \<Rightarrow> efpg_write_region F mac_region data s)"

section \<open>Plain fields\<close>

text \<open>Start and number of bits, and the bytes of the buffer that are compared.\<close>

definition read_plain :: "'s fuse_if \<Rightarrow> u32 \<Rightarrow> u32 \<Rightarrow> u8 list \<Rightarrow> 's \<Rightarrow> 's ack_res" where
  "read_plain F a n data s = do {
     (r, data, s) \<leftarrow> fi_read F a n data s;
     Some (if r \<noteq> HAL_OK then EFPG_ACK_RW_ERR else EFPG_ACK_OK, data, s)
   }"

definition write_plain :: "'s fuse_if \<Rightarrow> u32 \<Rightarrow> u32 \<Rightarrow> nat \<Rightarrow> u8 list \<Rightarrow> 's \<Rightarrow> 's ack_res" where
  "write_plain F a n len data s = do {
     (good, data, buf, s) \<leftarrow> read_back F a n data (replicate len 0) s;
     Some (if \<not> good then EFPG_ACK_RW_ERR else if take len data \<noteq> buf then EFPG_ACK_DI_ERR else EFPG_ACK_OK, data, s)
   }"

definition efpg_read_hosc :: "'s fuse_if \<Rightarrow> u8 list \<Rightarrow> 's \<Rightarrow> 's ack_res" where
  "efpg_read_hosc F = read_plain F 385 4"

definition efpg_write_hosc :: "'s fuse_if \<Rightarrow> u8 list \<Rightarrow> 's \<Rightarrow> 's ack_res" where
  "efpg_write_hosc F = write_plain F 385 4 1"

definition efpg_read_chipid :: "'s fuse_if \<Rightarrow> u8 list \<Rightarrow> 's \<Rightarrow> 's ack_res" where
  "efpg_read_chipid F = read_plain F 128 128"

definition efpg_write_chipid :: "'s fuse_if \<Rightarrow> u8 list \<Rightarrow> 's \<Rightarrow> 's ack_res" where
  "efpg_write_chipid F = write_plain F 128 128 16"

definition efpg_read_secretkey :: "'s fuse_if \<Rightarrow> u8 list \<Rightarrow> 's \<Rightarrow> 's ack_res" where
  "efpg_read_secretkey F = read_plain F 256 128"

definition efpg_write_secretkey :: "'s fuse_if \<Rightarrow> u8 list \<Rightarrow> 's \<Rightarrow> 's ack_res" where
  "efpg_write_secretkey F = write_plain F 256 128 16"

definition efpg_read_secure_swd :: "'s fuse_if \<Rightarrow> u8 list \<Rightarrow> 's \<Rightarrow> 's ack_res" where
  "efpg_read_secure_swd F = read_plain F 384 1"

definition efpg_write_secure_swd :: "'s fuse_if \<Rightarrow> u8 list \<Rightarrow> 's \<Rightarrow> 's ack_res" where
  "efpg_write_secure_swd F = write_plain F 384 1 1"

definition efpg_read_all_field :: "'s fuse_if \<Rightarrow> u16 \<Rightarrow> u16 \<Rightarrow> u8 list \<Rightarrow> 's \<Rightarrow> 's ack_res" where
  "efpg_read_all_field F start num = read_plain F (ucast start) (ucast num)"

text \<open>The user area is what the other fields leave of the 1024 bits.\<close>

abbreviation (input) EFPG_USER_AREA_START :: u32 where "EFPG_USER_AREA_START \<equiv> 816"
abbreviation (input) EFPG_USER_AREA_NUM :: u16 where "EFPG_USER_AREA_NUM \<equiv> 208"

definition user_area_bad :: "u16 \<Rightarrow> u16 \<Rightarrow> bool" where
  "user_area_bad start num \<longleftrightarrow> start \<ge> EFPG_USER_AREA_NUM \<or> num = 0 \<or> num > EFPG_USER_AREA_NUM \<or>
     unat start + unat num > unat EFPG_USER_AREA_NUM"

definition efpg_read_user_area :: "'s fuse_if \<Rightarrow> u16 \<Rightarrow> u16 \<Rightarrow> u8 list \<Rightarrow> 's \<Rightarrow> 's ack_res" where
  "efpg_read_user_area F start num data s =
     (if user_area_bad start num then Some (EFPG_ACK_RW_ERR, data, s)
      else read_plain F (ucast start + EFPG_USER_AREA_START) (ucast num) data s)"

definition efpg_write_user_area :: "'s fuse_if \<Rightarrow> u16 \<Rightarrow> u16 \<Rightarrow> u8 list \<Rightarrow> 's \<Rightarrow> 's ack_res" where
  "efpg_write_user_area F start num data s =
     (if user_area_bad start num then Some (EFPG_ACK_RW_ERR, data, s) else do {
        (r, data, s) \<leftarrow> fi_write F (ucast start + EFPG_USER_AREA_START) (ucast num) data s;
        Some (if r \<noteq> HAL_OK then EFPG_ACK_RW_ERR else EFPG_ACK_OK, data, s)
      })"

section \<open>The boot hash\<close>

text \<open>
  The comparison of the hash: \<open>err_cnt\<close>, \<open>err_1st_no\<close> and \<open>err_2nd_no\<close> of up to two bits that
  differ, \<open>None\<close> when there are more.
\<close>

type_synonym hash_err = "u8 \<times> u8 \<times> u8"

fun hash_cmp_bits :: "u8 \<Rightarrow> u8 \<Rightarrow> nat \<Rightarrow> nat list \<Rightarrow> hash_err \<Rightarrow> hash_err option" where
  "hash_cmp_bits d b byte_cnt [] err = Some err"
| "hash_cmp_bits d b byte_cnt (bit_cnt # bits) (err_cnt, err_1st_no, err_2nd_no) =
     (let no = push_bit 3 (of_nat byte_cnt) + of_nat bit_cnt in
      if d AND push_bit bit_cnt 1 = b AND push_bit bit_cnt 1 then
        hash_cmp_bits d b byte_cnt bits (err_cnt, err_1st_no, err_2nd_no)
      else if err_cnt = 0 then hash_cmp_bits d b byte_cnt bits (1, no, err_2nd_no)
      else if err_cnt = 1 then hash_cmp_bits d b byte_cnt bits (2, err_1st_no, no)
      else None)"

fun hash_cmp_bytes :: "u8 list \<Rightarrow> u8 list \<Rightarrow> nat list \<Rightarrow> hash_err \<Rightarrow> hash_err option" where
  "hash_cmp_bytes data buf [] err = Some err"
| "hash_cmp_bytes data buf (byte_cnt # bytes) err =
     (if data ! byte_cnt = buf ! byte_cnt then hash_cmp_bytes data buf bytes err
      else Option.bind (hash_cmp_bits (data ! byte_cnt) (buf ! byte_cnt) byte_cnt [0..<8] err) (hash_cmp_bytes data buf bytes))"

definition efpg_boot_hash_cmp :: "u8 list \<Rightarrow> u8 list \<Rightarrow> hash_err option" where
  "efpg_boot_hash_cmp data buf =
     (if take 32 data = take 32 buf then Some (0, 0, 0) else hash_cmp_bytes data buf [0..<32] (0, 0, 0))"

text \<open>A bit number as the place of a bit in the hash.\<close>

definition flip_no :: "u8 \<Rightarrow> u8 list \<Rightarrow> u8 list" where
  "flip_no tmp data = (let i = unat (drop_bit 3 tmp) in data[i := data ! i XOR push_bit (unat (tmp AND 7)) 1])"

definition efpg_read_boot :: "'s fuse_if \<Rightarrow> u8 list \<Rightarrow> 's \<Rightarrow> 's ack_res" where
  "efpg_read_boot F data s = do {
     (r, tmp, s) \<leftarrow> fi_read F 389 2 [0] s;
     if r \<noteq> HAL_OK then Some (EFPG_ACK_RW_ERR, data, s)
     else if hd tmp = 0 then Some (EFPG_ACK_NODATA_ERR, data, s) else do {
       (r, data, s) \<leftarrow> fi_read F 409 256 data s;
       if r \<noteq> HAL_OK then Some (EFPG_ACK_RW_ERR, data, s) else do {
         (r, tmp, s) \<leftarrow> fi_read F 391 1 tmp s;
         if r \<noteq> HAL_OK then Some (EFPG_ACK_RW_ERR, data, s)
         else if hd tmp = 0 then Some (EFPG_ACK_OK, data, s) else do {
           (r, tmp, s) \<leftarrow> fi_read F 392 8 tmp s;
           if r \<noteq> HAL_OK then Some (EFPG_ACK_RW_ERR, data, s) else
             let data = flip_no (hd tmp) data in do {
             (r, tmp, s) \<leftarrow> fi_read F 400 1 tmp s;
             if r \<noteq> HAL_OK then Some (EFPG_ACK_RW_ERR, data, s)
             else if hd tmp = 0 then Some (EFPG_ACK_OK, data, s) else do {
               (r, tmp, s) \<leftarrow> fi_read F 401 8 tmp s;
               if r \<noteq> HAL_OK then Some (EFPG_ACK_RW_ERR, data, s)
               else Some (EFPG_ACK_OK, flip_no (hd tmp) data, s)
             }
           }
         }
       }
     }
   }"

text \<open>
  One byte-sized item that is written and read back into the same variable; the code compares
  what comes back with \<open>v\<close>.
\<close>

definition put_byte :: "'s fuse_if \<Rightarrow> u32 \<Rightarrow> u32 \<Rightarrow> u8 \<Rightarrow> 's \<Rightarrow> (u16 \<times> 's) option" where
  "put_byte F a n v s = do {
     (good, w, tmp, s) \<leftarrow> read_back F a n [v] [v] s;
     Some (if \<not> good then EFPG_ACK_RW_ERR else if hd tmp \<noteq> hd w then EFPG_ACK_DI_ERR else EFPG_ACK_OK, s)
   }"

text \<open>The record of the bits that could not be set.\<close>

definition write_hash_errs :: "'s fuse_if \<Rightarrow> hash_err \<Rightarrow> 's \<Rightarrow> (u16 \<times> 's) option" where
  "write_hash_errs F err s = (case err of (err_cnt, err_1st_no, err_2nd_no) \<Rightarrow>
     if err_cnt > 0 then do {
       (ack, s) \<leftarrow> put_byte F 391 1 1 s;
       if ack \<noteq> EFPG_ACK_OK then Some (ack, s) else do {
         (ack, s) \<leftarrow> put_byte F 392 8 err_1st_no s;
         if ack \<noteq> EFPG_ACK_OK then Some (ack, s)
         else if err_cnt = 2 then do {
           (ack, s) \<leftarrow> put_byte F 400 1 1 s;
           if ack \<noteq> EFPG_ACK_OK then Some (ack, s) else put_byte F 401 8 err_2nd_no s
         }
         else Some (EFPG_ACK_OK, s)
       }
     }
     else Some (EFPG_ACK_OK, s))"

definition efpg_write_boot :: "'s fuse_if \<Rightarrow> u8 list \<Rightarrow> 's \<Rightarrow> 's ack_res" where
  "efpg_write_boot F data s = do {
     (good, data, buf, s) \<leftarrow> read_back F 409 256 data (replicate 32 0) s;
     if \<not> good then Some (EFPG_ACK_RW_ERR, data, s) else
     case efpg_boot_hash_cmp data buf of
       None \<Rightarrow> Some (EFPG_ACK_DI_ERR, data, s)
     | Some err \<Rightarrow> do {
         (ack, s) \<leftarrow> write_hash_errs F err s;
         if ack \<noteq> EFPG_ACK_OK then Some (ack, data, s) else do {
           (good, _, tmp, s) \<leftarrow> read_back F 389 2 [3] [3] s;
           Some (if \<not> good then EFPG_ACK_RW_ERR else if hd tmp = 0 then EFPG_ACK_DI_ERR else EFPG_ACK_OK, data, s)
         }
       }
   }"

section \<open>Fields by number\<close>

definition efpg_read_field :: "'s fuse_if \<Rightarrow> efpg_field_t \<Rightarrow> u8 list \<Rightarrow> u16 \<Rightarrow> u16 \<Rightarrow> 's \<Rightarrow> 's ack_res" where
  "efpg_read_field F fld data start_bit_addr bit_len s = (case fld of
     EFPG_FIELD_HOSC \<Rightarrow> efpg_read_hosc F data s
   | EFPG_FIELD_BOOT \<Rightarrow> efpg_read_boot F data s
   | EFPG_FIELD_DCXO \<Rightarrow> efpg_read_region F dcxo_region data s
   | EFPG_FIELD_POUT_WLAN \<Rightarrow> efpg_read_region F (pout_region EFPG_POUT_WLAN) data s
   | EFPG_FIELD_POUT_BT \<Rightarrow> efpg_read_region F (pout_region EFPG_POUT_BT) data s
   | EFPG_FIELD_MAC_WLAN \<Rightarrow> efpg_read_mac F EFPG_MAC_WLAN data s
   | EFPG_FIELD_MAC_BT \<Rightarrow> efpg_read_mac F EFPG_MAC_BT data s
   | EFPG_FIELD_CHIPID \<Rightarrow> efpg_read_chipid F data s
   | EFPG_FIELD_SECRETKEY \<Rightarrow> efpg_read_secretkey F data s
   | EFPG_FIELD_SECURESWD \<Rightarrow> efpg_read_secure_swd F data s
   | EFPG_FIELD_ALL \<Rightarrow> efpg_read_all_field F start_bit_addr bit_len data s
   | EFPG_FIELD_UA \<Rightarrow> efpg_read_user_area F start_bit_addr bit_len data s
   | EFPG_FIELD_NUM \<Rightarrow> Some (EFPG_ACK_RW_ERR, data, s))"

definition efpg_write_field :: "'s fuse_if \<Rightarrow> efpg_field_t \<Rightarrow> u8 list \<Rightarrow> u16 \<Rightarrow> u16 \<Rightarrow> 's \<Rightarrow> 's ack_res" where
  "efpg_write_field F fld data start_bit_addr bit_len s = (case fld of
     EFPG_FIELD_HOSC \<Rightarrow> efpg_write_hosc F data s
   | EFPG_FIELD_BOOT \<Rightarrow> efpg_write_boot F data s
   | EFPG_FIELD_DCXO \<Rightarrow> efpg_write_region F dcxo_region data s
   | EFPG_FIELD_POUT_WLAN \<Rightarrow> efpg_write_region F (pout_region EFPG_POUT_WLAN) data s
   | EFPG_FIELD_POUT_BT \<Rightarrow> efpg_write_region F (pout_region EFPG_POUT_BT) data s
   | EFPG_FIELD_MAC_WLAN \<Rightarrow> efpg_write_mac F EFPG_MAC_WLAN data s
   | EFPG_FIELD_MAC_BT \<Rightarrow> efpg_write_mac F EFPG_MAC_BT data s
   | EFPG_FIELD_CHIPID \<Rightarrow> efpg_write_chipid F data s
   | EFPG_FIELD_SECRETKEY \<Rightarrow> efpg_write_secretkey F data s
   | EFPG_FIELD_SECURESWD \<Rightarrow> efpg_write_secure_swd F data s
   | EFPG_FIELD_UA \<Rightarrow> efpg_write_user_area F start_bit_addr bit_len data s
   | EFPG_FIELD_ALL \<Rightarrow> Some (EFPG_ACK_RW_ERR, data, s)
   | EFPG_FIELD_NUM \<Rightarrow> Some (EFPG_ACK_RW_ERR, data, s))"

end
