(* ===== verification/Efpg.thy ===== *)
theory Efpg
  imports Efpg_Fuse
begin

text \<open>
  The programming protocol of the eFuses, \<open>src/efpg/efpg.c\<close> and \<open>efpg_frame.c\<close>: a task that
  receives command frames and data frames from the programming tool over a UART, answers them and
  reads or programs a field.  A data frame carries a digest keyed with the secret given to
  \<open>efpg_start\<close>.  The UART driver, the hash engine and the heap are a parameter; what the calls of
  the UART's receive function deliver is a list, so the task is a function of that list.
  A receive that writes behind the end of its buffer is \<open>None\<close>.
\<close>

section \<open>State\<close>

text \<open>
  \<open>env_malloc\<close> says whether an allocation succeeds; \<open>env_transmit\<close> gives the number of bytes
  sent; the hash functions give a HAL status, the last one the digest too.
\<close>

record 'u efpg_env =
  env_malloc :: "nat \<Rightarrow> 'u \<Rightarrow> bool \<times> 'u"
  env_transmit :: "u8 list \<Rightarrow> 'u \<Rightarrow> int \<times> 'u"
  HAL_SHA256_Init :: "'u \<Rightarrow> int \<times> 'u"
  HAL_SHA256_Append :: "u8 list \<Rightarrow> 'u \<Rightarrow> int \<times> 'u"
  HAL_SHA256_Finish :: "'u \<Rightarrow> int \<times> u8 list \<times> 'u"
  start_cb :: "('u \<Rightarrow> 'u) option"
  stop_cb :: "('u \<Rightarrow> 'u) option"

datatype efpg_op_t = EFPG_OP_READ | EFPG_OP_WRITE | EFPG_OP_EXIT | EFPG_OP_NUM

text \<open>What a frame's processing asks the task to do: \<open>efpg_state_t\<close>, as its integer.\<close>

abbreviation (input) EFPG_STATE_CONTINUE :: int where "EFPG_STATE_CONTINUE \<equiv> 0"
abbreviation (input) EFPG_STATE_RESET :: int where "EFPG_STATE_RESET \<equiv> 1"
abbreviation (input) EFPG_STATE_STOP :: int where "EFPG_STATE_STOP \<equiv> 2"

abbreviation (input) EFPG_CMD_FRAME_LEN :: u16 where "EFPG_CMD_FRAME_LEN \<equiv> 8"
abbreviation (input) EFPG_NORMAL_CMD :: u8 where "EFPG_NORMAL_CMD \<equiv> 0"
abbreviation (input) EFPG_EXT_CMD :: u8 where "EFPG_EXT_CMD \<equiv> 1"

record efpg_priv =
  key :: "u8 list"
  key_len :: u8
  is_cmd :: u8
  ext_cmd :: u8
  cmd_frame :: "u8 list"
  data_frame :: "u8 list"
  ext_cmd_frame :: "u8 list"
  expt_len :: u16
  recv_len :: u16
  protocol_version :: u16
  start_bit_addr :: u16
  bit_length :: u16
  ep_op :: efpg_op_t
  ep_field :: efpg_field_t

record ('u, 's) efpg_st =
  ep_priv :: efpg_priv
  ep_env :: 'u
  ep_fuse :: 's

section \<open>Checksum, digest and acknowledgement\<close>

definition efpg_checksum8 :: "u8 list \<Rightarrow> u8" where
  "efpg_checksum8 data = fold (\<lambda>d cs. cs + d) data 0"

text \<open>The digest of the command, the data and the key; \<open>None\<close> when the engine fails.\<close>

definition msg_dgst :: "'u efpg_env \<Rightarrow> efpg_priv \<Rightarrow> u8 list \<Rightarrow> 'u \<Rightarrow> u8 list option \<times> 'u" where
  "msg_dgst E p data u =
     (let (r, u) = HAL_SHA256_Init E u in if r \<noteq> HAL_OK then (None, u) else
      let (r, u) = HAL_SHA256_Append E (cmd_frame p) u in if r \<noteq> HAL_OK then (None, u) else
      let (r, u) = HAL_SHA256_Append E data u in if r \<noteq> HAL_OK then (None, u) else
      let (r, u) = HAL_SHA256_Append E (take (unat (key_len p)) (key p)) u in if r \<noteq> HAL_OK then (None, u) else
      let (r, d, u) = HAL_SHA256_Finish E u in if r \<noteq> HAL_OK then (None, u) else (Some (take 32 d), u))"

text \<open>The length of the data of a frame, before the digest.\<close>

definition body_len :: "u16 \<Rightarrow> nat" where
  "body_len n = unat n - 32"

definition efpg_check_msg_dgst :: "'u efpg_env \<Rightarrow> ('u, 's) efpg_st \<Rightarrow> (int \<times> ('u, 's) efpg_st) option" where
  "efpg_check_msg_dgst E st =
     (let p = ep_priv st; n = body_len (recv_len p) in
      if recv_len p < 32 \<or> length (data_frame p) < unat (recv_len p) then None else
      let (d, u) = msg_dgst E p (take n (data_frame p)) (ep_env st); st = st\<lparr>ep_env := u\<rparr> in
      Some (if d = Some (take 32 (drop n (data_frame p))) then 0 else -1, st))"

definition efpg_send_ack :: "'u efpg_env \<Rightarrow> u16 \<Rightarrow> ('u, 's) efpg_st \<Rightarrow> int \<times> ('u, 's) efpg_st" where
  "efpg_send_ack E status st =
     (let (ok, u) = env_malloc E 4 (ep_env st) in
      if \<not> ok then (-1, st\<lparr>ep_env := u\<rparr>) else
      let ack_frame = bytes_of_u16 status @ [0, 0];
          cs = 0xFF - efpg_checksum8 ack_frame;
          (send_len, u) = env_transmit E (ack_frame[3 := cs]) u in
      (if send_len \<noteq> 4 then -1 else 0, st\<lparr>ep_env := u\<rparr>))"

section \<open>Commands\<close>

text \<open>The fields a type code stands for, with the length of their data frame.\<close>

definition field_of_type :: "u16 \<Rightarrow> (efpg_field_t \<times> u16) option" where
  "field_of_type t =
     (if t = 0xFF00 then Some (EFPG_FIELD_HOSC, 33)
      else if t = 0xFE01 then Some (EFPG_FIELD_BOOT, 64)
      else if t = 0xFD02 then Some (EFPG_FIELD_DCXO, 33)
      else if t = 0xFC03 then Some (EFPG_FIELD_POUT_WLAN, 35)
      else if t = 0xFB04 then Some (EFPG_FIELD_MAC_WLAN, 38)
      else if t = 0xF807 then Some (EFPG_FIELD_POUT_BT, 35)
      else if t = 0xF708 then Some (EFPG_FIELD_MAC_BT, 38)
      else if t = 0xF609 then Some (EFPG_FIELD_SECRETKEY, 48)
      else if t = 0xF50A then Some (EFPG_FIELD_SECURESWD, 33)
      else if t = 0xF906 then Some (EFPG_FIELD_CHIPID, 48)
      else None)"

abbreviation (input) EFPG_TYPE_USER_AREA :: u16 where "EFPG_TYPE_USER_AREA \<equiv> 0xFA05"

text \<open>The type's branch: the length that the frame must announce, \<open>None\<close> for a refusal.\<close>

definition parse_type :: "u16 \<Rightarrow> u8 list \<Rightarrow> u16 \<Rightarrow> efpg_priv \<Rightarrow> u16 option \<times> efpg_priv" where
  "parse_type t frame len p =
     (if t = EFPG_TYPE_USER_AREA then
        if ext_cmd p = EFPG_NORMAL_CMD then
          if frame ! 6 \<noteq> EFPG_EXT_CMD then (None, p)
          else (Some len, p\<lparr>ext_cmd := EFPG_EXT_CMD, ep_field := EFPG_FIELD_UA, expt_len := 13\<rparr>)
        else
          let bits = u16_of_bytes (drop 10 frame);
              n = bits div 8 + 32 + (if bits mod 8 \<noteq> 0 then 1 else 0) in
          (Some n, p\<lparr>protocol_version := u16_of_bytes (drop 6 frame), start_bit_addr := u16_of_bytes (drop 8 frame),
                     bit_length := bits, ext_cmd := EFPG_NORMAL_CMD, ep_field := EFPG_FIELD_UA, expt_len := n\<rparr>)
      else case field_of_type t of
        None \<Rightarrow> (None, p)
      | Some (fld, n) \<Rightarrow> (Some len, p\<lparr>ep_field := fld, expt_len := n\<rparr>))"

definition efpg_parse_cmd :: "efpg_priv \<Rightarrow> int \<times> efpg_priv" where
  "efpg_parse_cmd p =
     (let frame = (if ext_cmd p = EFPG_EXT_CMD then ext_cmd_frame p else cmd_frame p);
          op_code = u16_of_bytes frame in
      if op_code = 0xFFFF then (0, p\<lparr>ep_op := EFPG_OP_EXIT\<rparr>)
      else if op_code \<noteq> 0x0FF0 \<and> op_code \<noteq> 0xF00F then (-1, p)
      else
        let p = p\<lparr>ep_op := if op_code = 0x0FF0 then EFPG_OP_READ else EFPG_OP_WRITE\<rparr> in
        case parse_type (u16_of_bytes (drop 2 frame)) frame (u16_of_bytes (drop 4 frame)) p of
          (None, p) \<Rightarrow> (-1, p)
        | (Some len, p) \<Rightarrow> (if len \<noteq> expt_len p then -1 else 0, p))"

definition efpg_ext_cmd_process :: "'u efpg_env \<Rightarrow> ('u, 's) efpg_st \<Rightarrow> int \<times> ('u, 's) efpg_st" where
  "efpg_ext_cmd_process E st =
     (let st = st\<lparr>ep_priv := (ep_priv st)\<lparr>is_cmd := 1, recv_len := 0\<rparr>\<rparr>;
          (r, st) = efpg_send_ack E EFPG_ACK_OK st in
      (if r < 0 then EFPG_STATE_RESET else EFPG_STATE_CONTINUE, st))"

text \<open>When the digest of the answer fails the code returns -1, which is no state of the enumeration.\<close>

definition efpg_read_process :: "'u efpg_env \<Rightarrow> 's fuse_if \<Rightarrow> ('u, 's) efpg_st \<Rightarrow> (int \<times> ('u, 's) efpg_st) option" where
  "efpg_read_process E F st =
     (let p = ep_priv st; n = body_len (expt_len p); (ok, u) = env_malloc E (unat (expt_len p)) (ep_env st) in
      if \<not> ok then Some (EFPG_STATE_RESET, st\<lparr>ep_env := u\<rparr>)
      else if expt_len p < 32 then None else do {
        (status, frame, s) \<leftarrow> efpg_read_field F (ep_field p) (replicate (unat (expt_len p)) 0)
                                (start_bit_addr p) (bit_length p) (ep_fuse st);
        let (d, u) = msg_dgst E p (take n frame) u;
            st = st\<lparr>ep_env := u, ep_fuse := s\<rparr>
        in case d of
             None \<Rightarrow> Some (-1, st)
           | Some d \<Rightarrow>
               if status \<noteq> EFPG_ACK_OK then Some (EFPG_STATE_RESET, snd (efpg_send_ack E status st))
               else
                 let (r, st) = efpg_send_ack E EFPG_ACK_OK st in
                 if r < 0 then Some (EFPG_STATE_RESET, st)
                 else Some (EFPG_STATE_RESET, st\<lparr>ep_env := snd (env_transmit E (take n frame @ d) (ep_env st))\<rparr>)
      })"

definition efpg_write_process :: "'u efpg_env \<Rightarrow> ('u, 's) efpg_st \<Rightarrow> int \<times> ('u, 's) efpg_st" where
  "efpg_write_process E st =
     (let st = st\<lparr>ep_priv := (ep_priv st)\<lparr>is_cmd := 0, recv_len := 0\<rparr>\<rparr>;
          (r, st) = efpg_send_ack E EFPG_ACK_OK st in
      (if r < 0 then EFPG_STATE_RESET else EFPG_STATE_CONTINUE, st))"

definition efpg_stop_process :: "'u efpg_env \<Rightarrow> ('u, 's) efpg_st \<Rightarrow> int \<times> ('u, 's) efpg_st" where
  "efpg_stop_process E st =
     (let (r, st) = efpg_send_ack E EFPG_ACK_OK st in (if r < 0 then EFPG_STATE_RESET else EFPG_STATE_STOP, st))"

section \<open>Frames\<close>

definition efpg_cmd_frame_process :: "'u efpg_env \<Rightarrow> 's fuse_if \<Rightarrow> ('u, 's) efpg_st \<Rightarrow> (int \<times> ('u, 's) efpg_st) option" where
  "efpg_cmd_frame_process E F st =
     (let p = ep_priv st; frame = (if ext_cmd p = EFPG_EXT_CMD then ext_cmd_frame p else cmd_frame p) in
      if efpg_checksum8 (take (unat (recv_len p)) frame) \<noteq> 0xFF then
        Some (EFPG_STATE_RESET, snd (efpg_send_ack E EFPG_ACK_CS_ERR st))
      else
        let (r, p) = efpg_parse_cmd p; st = st\<lparr>ep_priv := p\<rparr> in
        if r < 0 then Some (EFPG_STATE_RESET, snd (efpg_send_ack E EFPG_ACK_PARSE_ERR st))
        else if ext_cmd p = EFPG_EXT_CMD then Some (efpg_ext_cmd_process E st)
        else case ep_op p of
          EFPG_OP_READ \<Rightarrow> efpg_read_process E F st
        | EFPG_OP_WRITE \<Rightarrow> Some (efpg_write_process E st)
        | EFPG_OP_EXIT \<Rightarrow> Some (efpg_stop_process E st)
        | EFPG_OP_NUM \<Rightarrow> Some (EFPG_STATE_STOP, st))"

text \<open>The field is written out of the data frame's buffer, digest included.\<close>

definition efpg_data_frame_process :: "'u efpg_env \<Rightarrow> 's fuse_if \<Rightarrow> ('u, 's) efpg_st \<Rightarrow> (int \<times> ('u, 's) efpg_st) option" where
  "efpg_data_frame_process E F st = do {
     (r, st) \<leftarrow> efpg_check_msg_dgst E st;
     if r < 0 then Some (EFPG_STATE_RESET, snd (efpg_send_ack E EFPG_ACK_MD_ERR st)) else
     let p = ep_priv st in do {
       (status, data, s) \<leftarrow> efpg_write_field F (ep_field p) (data_frame p) (start_bit_addr p) (bit_length p) (ep_fuse st);
       Some (EFPG_STATE_RESET, snd (efpg_send_ack E status (st\<lparr>ep_priv := p\<lparr>data_frame := data\<rparr>, ep_fuse := s\<rparr>)))
     }
   }"

section \<open>The task\<close>

definition efpg_reset :: "efpg_priv \<Rightarrow> efpg_priv" where
  "efpg_reset p = p\<lparr>is_cmd := 1, ext_cmd := EFPG_NORMAL_CMD, expt_len := EFPG_CMD_FRAME_LEN, recv_len := 0,
     ep_op := EFPG_OP_NUM, ep_field := EFPG_FIELD_NUM, start_bit_addr := 0, bit_length := 0\<rparr>"

text \<open>Bytes into the start of a buffer.\<close>

definition fill_buf :: "u8 list \<Rightarrow> u8 list \<Rightarrow> u8 list option" where
  "fill_buf bs buf = (if length buf < length bs then None else Some (bs @ drop (length bs) buf))"

definition efpg_receive :: "u8 list \<Rightarrow> efpg_priv \<Rightarrow> efpg_priv option" where
  "efpg_receive bs p =
     (if is_cmd p \<noteq> 0 then
        if ext_cmd p = EFPG_EXT_CMD then do { b \<leftarrow> fill_buf bs (ext_cmd_frame p); Some (p\<lparr>ext_cmd_frame := b\<rparr>) }
        else do { b \<leftarrow> fill_buf bs (cmd_frame p); Some (p\<lparr>cmd_frame := b\<rparr>) }
      else do { b \<leftarrow> fill_buf bs (data_frame p); Some (p\<lparr>data_frame := b\<rparr>) })"

text \<open>
  One call of the receive function, \<open>None\<close> for its failure: of the bytes that arrive it takes
  at most as many as it is asked for, no byte is a timeout.  The flag says whether the task goes on.
\<close>

definition efpg_turn :: "'u efpg_env \<Rightarrow> 's fuse_if \<Rightarrow> u8 list option \<Rightarrow> ('u, 's) efpg_st \<Rightarrow> (bool \<times> ('u, 's) efpg_st) option" where
  "efpg_turn E F ev st =
     (case ev of
        None \<Rightarrow> Some (False, st)
      | Some bs \<Rightarrow>
          let bs = take (unat (expt_len (ep_priv st))) bs in
          if bs = [] then Some (True, st) else do {
            p \<leftarrow> efpg_receive bs (ep_priv st);
            if word_of_nat (length bs) \<noteq> expt_len p then Some (True, st\<lparr>ep_priv := efpg_reset p\<rparr>)
            else do {
              let st = st\<lparr>ep_priv := p\<lparr>recv_len := word_of_nat (length bs)\<rparr>\<rparr>;
              (state, st) \<leftarrow> (if is_cmd p \<noteq> 0 then efpg_cmd_frame_process E F st else efpg_data_frame_process E F st);
              if state = EFPG_STATE_CONTINUE then Some (True, st)
              else if state = EFPG_STATE_RESET then Some (True, st\<lparr>ep_priv := efpg_reset (ep_priv st)\<rparr>)
              else Some (False, st)
            }
          })"

definition call_cb :: "('u \<Rightarrow> 'u) option \<Rightarrow> ('u, 's) efpg_st \<Rightarrow> ('u, 's) efpg_st" where
  "call_cb cb st = (case cb of None \<Rightarrow> st | Some f \<Rightarrow> st\<lparr>ep_env := f (ep_env st)\<rparr>)"

text \<open>The task over what the receive calls deliver: still waiting for more, or ended.\<close>

fun efpg_loop :: "'u efpg_env \<Rightarrow> 's fuse_if \<Rightarrow> u8 list option list \<Rightarrow> ('u, 's) efpg_st \<Rightarrow> (bool \<times> ('u, 's) efpg_st) option" where
  "efpg_loop E F [] st = Some (True, st)"
| "efpg_loop E F (ev # evs) st = do {
     (go, st) \<leftarrow> efpg_turn E F ev st;
     if go then efpg_loop E F evs st else Some (False, call_cb (stop_cb E) st)
   }"

definition efpg_task :: "'u efpg_env \<Rightarrow> 's fuse_if \<Rightarrow> u8 list option list \<Rightarrow> ('u, 's) efpg_st \<Rightarrow> (bool \<times> ('u, 's) efpg_st) option" where
  "efpg_task E F evs st =
     (let st = call_cb (start_cb E) st in efpg_loop E F evs (st\<lparr>ep_priv := efpg_reset (ep_priv st)\<rparr>))"

text \<open>
  Starting: \<open>fresh\<close> is the block that the allocation delivers, \<open>None\<close> when it fails,
  \<open>thread\<close> whether the task can be created.  The second result is the block that the task owns,
  the third one that nobody owns any more.
\<close>

abbreviation (input) UART_NUM :: nat where "UART_NUM \<equiv> 3"

definition efpg_start ::
  "u8 list option \<Rightarrow> u8 \<Rightarrow> nat \<Rightarrow> efpg_priv option \<Rightarrow> bool \<Rightarrow> (int \<times> efpg_priv option \<times> efpg_priv option) option" where
  "efpg_start k n uart_id fresh thread =
     (case k of
        None \<Rightarrow> Some (-1, None, None)
      | Some k \<Rightarrow>
          if n = 0 \<or> n > 64 \<or> uart_id \<ge> UART_NUM then Some (-1, None, None)
          else case fresh of
            None \<Rightarrow> Some (-1, None, None)
          | Some p \<Rightarrow>
              if length k < unat n then None else
              let p = p\<lparr>key := take (unat n) k @ drop (unat n) (key p), key_len := n\<rparr> in
              if thread then Some (0, Some p, None) else Some (-1, None, Some p))"

section \<open>Reading from the application\<close>

definition read_for_app :: "'s fuse_if \<Rightarrow> efpg_field_t \<Rightarrow> u8 list option \<Rightarrow> u16 \<Rightarrow> u16 \<Rightarrow> 's \<Rightarrow> (int \<times> u8 list option \<times> 's) option" where
  "read_for_app F fld data start num s =
     (case data of
        None \<Rightarrow> Some (-1, None, s)
      | Some d \<Rightarrow> do {
          (ack, d, s) \<leftarrow> efpg_read_field F fld d start num s;
          Some (if ack \<noteq> EFPG_ACK_OK then -1 else 0, Some d, s)
        })"

definition efpg_read :: "'s fuse_if \<Rightarrow> efpg_field_t \<Rightarrow> u8 list option \<Rightarrow> 's \<Rightarrow> (int \<times> u8 list option \<times> 's) option" where
  "efpg_read F fld data = read_for_app F fld data 0 0"

text \<open>The two numbers are cut to 16 bits on the way.\<close>

definition efpg_read_ua :: "'s fuse_if \<Rightarrow> u32 \<Rightarrow> u32 \<Rightarrow> u8 list option \<Rightarrow> 's \<Rightarrow> (int \<times> u8 list option \<times> 's) option" where
  "efpg_read_ua F start num data = read_for_app F EFPG_FIELD_UA data (ucast start) (ucast num)"

definition efpg_read_all :: "'s fuse_if \<Rightarrow> u32 \<Rightarrow> u32 \<Rightarrow> u8 list option \<Rightarrow> 's \<Rightarrow> (int \<times> u8 list option \<times> 's) option" where
  "efpg_read_all F start num data = read_for_app F EFPG_FIELD_ALL data (ucast start) (ucast num)"

end
