(* ===== verification/Efuse.thy ===== *)
theory Efuse
  imports Fuse_Iface
begin

text \<open>
  The driver of the eFuses, \<open>src/driver/chip/hal_efuse.c\<close>: 1024 bits that can be set once, read
  and programmed in words of 32 bits.  The controller is a parameter: \<open>fuse_value\<close> is the
  register \<open>VALUE[index]\<close>, \<open>fuse_program\<close> a programming cycle and \<open>fuse_update\<close> the reload
  of the registers.
\<close>

section \<open>Controller and driver state\<close>

record 'e fuse_hw =
  fuse_value :: "'e \<Rightarrow> nat \<Rightarrow> u32"
  fuse_program :: "nat \<Rightarrow> u32 \<Rightarrow> 'e \<Rightarrow> 'e"
  fuse_update :: "'e \<Rightarrow> 'e"

datatype EFUSE_State = EFUSE_STATE_INVALID | EFUSE_STATE_READY | EFUSE_STATE_BUSY

text \<open>
  \<open>ef_clock\<close> is what \<open>HAL_GetHFClock\<close> returns, \<open>ef_mallocs\<close> the outcomes of the next allocations
  (they succeed when it is empty), \<open>ef_junk\<close> the bytes that lie behind a caller's buffer.
\<close>

record 'e efuse_hal =
  gEfuseState :: EFUSE_State
  ef_hw :: 'e
  ef_clock :: u32
  ef_mallocs :: "bool list"
  ef_junk :: "nat \<Rightarrow> u8"

abbreviation (input) HAL_EFUSE_BIT_NUM :: u32 where "HAL_EFUSE_BIT_NUM \<equiv> 1024"

definition HOSC_CLOCKS :: "u32 list" where
  "HOSC_CLOCKS = [24000000, 26000000, 32000000, 40000000]"

definition EFUSE_Init :: "'e efuse_hal \<Rightarrow> int" where
  "EFUSE_Init s = (if ef_clock s \<in> set HOSC_CLOCKS then HAL_OK else HAL_ERROR)"

definition HAL_EFUSE_UpdateAll :: "'e fuse_hw \<Rightarrow> 'e efuse_hal \<Rightarrow> 'e efuse_hal" where
  "HAL_EFUSE_UpdateAll hw s = s\<lparr>ef_hw := fuse_update hw (ef_hw s)\<rparr>"

text \<open>The range test that reading and writing share.\<close>

definition efuse_range_bad :: "u32 \<Rightarrow> u32 \<Rightarrow> bool" where
  "efuse_range_bad start_bit bit_num \<longleftrightarrow> start_bit \<ge> HAL_EFUSE_BIT_NUM \<or> bit_num = 0 \<or>
     bit_num > HAL_EFUSE_BIT_NUM \<or> start_bit + bit_num > HAL_EFUSE_BIT_NUM"

text \<open>Taking the driver: the state becomes busy, after the first initialisation.\<close>

definition efuse_take :: "'e efuse_hal \<Rightarrow> int \<times> 'e efuse_hal" where
  "efuse_take s = (case gEfuseState s of
     EFUSE_STATE_INVALID \<Rightarrow> (if EFUSE_Init s \<noteq> HAL_OK then (HAL_ERROR, s\<lparr>gEfuseState := EFUSE_STATE_INVALID\<rparr>)
                             else (HAL_OK, s\<lparr>gEfuseState := EFUSE_STATE_BUSY\<rparr>))
   | EFUSE_STATE_READY \<Rightarrow> (HAL_OK, s\<lparr>gEfuseState := EFUSE_STATE_BUSY\<rparr>)
   | EFUSE_STATE_BUSY \<Rightarrow> (HAL_BUSY, s))"

definition efuse_malloc :: "'e efuse_hal \<Rightarrow> bool \<times> 'e efuse_hal" where
  "efuse_malloc s = (case ef_mallocs s of [] \<Rightarrow> (True, s) | b # bs \<Rightarrow> (b, s\<lparr>ef_mallocs := bs\<rparr>))"

text \<open>\<open>(1 << (bit_num % 8 == 0 ? 8 : bit_num % 8)) - 1\<close>, applied to the last byte of a buffer.\<close>

definition last_mask :: "u32 \<Rightarrow> u8" where
  "last_mask bit_num = mask (if unat bit_num mod 8 = 0 then 8 else unat bit_num mod 8)"

definition mask_last :: "u32 \<Rightarrow> u8 list \<Rightarrow> u8 list" where
  "mask_last bit_num data = (let i = (unat bit_num - 1) div 8 in data[i := data ! i AND last_mask bit_num])"

section \<open>Reading\<close>

text \<open>
  The two statements that shift the words down.  A shift by 32 (\<open>word_shift = 0\<close>) is a shift by
  a register on this core and gives 0.
\<close>

fun shift_words :: "nat \<Rightarrow> u32 list \<Rightarrow> u32 list" where
  "shift_words sh [] = []"
| "shift_words sh [w] = [drop_bit sh w]"
| "shift_words sh (w # v # ws) = (drop_bit sh w OR push_bit (32 - sh) v) # shift_words sh (v # ws)"

definition HAL_EFUSE_Read ::
  "'e fuse_hw \<Rightarrow> u32 \<Rightarrow> u32 \<Rightarrow> u8 list \<Rightarrow> 'e efuse_hal \<Rightarrow> (int \<times> u8 list \<times> 'e efuse_hal) option" where
  "HAL_EFUSE_Read hw start_bit bit_num data s =
     (if efuse_range_bad start_bit bit_num then Some (HAL_ERROR, data, s) else
      let (r, s) = efuse_take s in
      if r \<noteq> HAL_OK then Some (r, data, s) else
      let start_word = start_bit div 32;
          word_shift = start_bit mod 32;
          word_cnt = (start_bit + bit_num) div 32 - start_word;
          word_cnt = (if (start_bit + bit_num) mod 32 \<noteq> 0 then word_cnt + 1 else word_cnt);
          (m, s) = efuse_malloc s;
          n = (unat bit_num + 7) div 8
      in if \<not> m \<or> length data < n then None else
         let sid = map (\<lambda>i. fuse_value hw (ef_hw s) (unat start_word + i)) [0..<unat word_cnt];
             bytes = mask_last bit_num (concat (map bytes_of_u32 (shift_words (unat word_shift) sid)))
         in Some (HAL_OK, take n bytes @ drop n data, s\<lparr>gEfuseState := EFUSE_STATE_READY\<rparr>))"

section \<open>Writing\<close>

text \<open>\<open>HAL_Memcpy\<close> of \<open>n\<close> bytes from an offset of the buffer, and of what lies behind it.\<close>

definition mem_at :: "u8 list \<Rightarrow> (nat \<Rightarrow> u8) \<Rightarrow> nat \<Rightarrow> u8" where
  "mem_at data junk k = (if k < length data then data ! k else junk (k - length data))"

definition memcpy_from :: "u8 list \<Rightarrow> (nat \<Rightarrow> u8) \<Rightarrow> nat \<Rightarrow> nat \<Rightarrow> u8 list" where
  "memcpy_from data junk off n = map (\<lambda>k. mem_at data junk (off + k)) [0..<n]"

definition u64_of_bytes :: "u8 list \<Rightarrow> 64 word" where
  "u64_of_bytes bs = ucast (u32_of_bytes bs) OR push_bit 32 (ucast (u32_of_bytes (drop 4 bs)))"

definition EFUSE_WriteData :: "'e fuse_hw \<Rightarrow> u32 \<Rightarrow> u32 \<Rightarrow> 'e \<Rightarrow> 'e" where
  "EFUSE_WriteData hw word_idx v e = fuse_program hw (unat (ucast word_idx :: u8)) v e"

function write_words ::
  "'e fuse_hw \<Rightarrow> u8 list \<Rightarrow> (nat \<Rightarrow> u8) \<Rightarrow> u32 \<Rightarrow> u32 \<Rightarrow> u32 \<Rightarrow> nat \<Rightarrow> 'e \<Rightarrow> 'e" where
  "write_words hw data junk bit_shift word_idx bit_cnt p_data e =
     (if bit_cnt > 0 then
        let buf = push_bit (unat bit_shift) (u64_of_bytes (memcpy_from data junk p_data 8));
            w = (ucast (drop_bit 32 buf) :: u32);
            w = (if bit_cnt < 32 then w AND mask (unat bit_cnt) else w);
            e = EFUSE_WriteData hw word_idx w e
        in write_words hw data junk bit_shift (word_idx + 1) (bit_cnt - (if bit_cnt \<le> 32 then bit_cnt else 32)) (p_data + 4) e
      else e)"
  by pat_completeness auto
termination
  by (relation "measure (\<lambda>(hw, data, junk, sh, i, c, p, e). unat c)")
    (auto simp: word_less_nat_alt unat_gt_0 unat_sub word_le_nat_alt not_le)

declare write_words.simps [simp del]

text \<open>Only the eFuse part; the detours over clocks and voltages are left out.\<close>

definition HAL_EFUSE_Write ::
  "'e fuse_hw \<Rightarrow> u32 \<Rightarrow> u32 \<Rightarrow> u8 list \<Rightarrow> 'e efuse_hal \<Rightarrow> (int \<times> u8 list \<times> 'e efuse_hal) option" where
  "HAL_EFUSE_Write hw start_bit bit_num data s =
     (if efuse_range_bad start_bit bit_num then Some (HAL_ERROR, data, s) else
      let (r, s) = efuse_take s in
      if r \<noteq> HAL_OK then Some (r, data, s) else
      if length data \<le> (unat bit_num - 1) div 8 then None else
      let bit_shift = start_bit AND 31;
          word_idx = drop_bit 5 start_bit;
          data = mask_last bit_num data;
          w = u32_of_bytes (memcpy_from data (ef_junk s) 0 4);
          w = (if bit_num < 32 then w AND mask (unat bit_num) else w);
          e = EFUSE_WriteData hw word_idx (push_bit (unat bit_shift) w) (ef_hw s);
          bit_cnt = bit_num - (if bit_num \<le> 32 - bit_shift then bit_num else 32 - bit_shift);
          e = write_words hw data (ef_junk s) bit_shift (word_idx + 1) bit_cnt 0 e
      in Some (HAL_OK, data, HAL_EFUSE_UpdateAll hw (s\<lparr>ef_hw := e, gEfuseState := EFUSE_STATE_READY\<rparr>)))"

end
