(* ===== verification/Efuse_Spec.thy ===== *)
theory Efuse_Spec
  imports Efuse
begin

text \<open>
  The driver as operations on single bits: reading copies a range of bits to the front of a
  buffer, writing sets the bits of a range that are set in the buffer.  The word arithmetic of
  the code is equivalent to it, whatever lies behind the caller's buffer.
\<close>

section \<open>Words and bytes\<close>

lemma div_bounds: "0 < (c::nat) \<Longrightarrow> c * (n div c) \<le> n \<and> n < c * (n div c) + c"
  using mod_less_divisor [of c n] mult_div_mod_eq [of c n] by linarith

lemma word_count: "(a + n + 31) div 32 - a div 32 = (a mod 32 + n + 31) div (32::nat)"
proof -
  have "a + n + 31 = (a mod 32 + n + 31) + 32 * (a div 32)" by simp
  then have "(a + n + 31) div 32 = (a mod 32 + n + 31) div 32 + a div 32" by (metis add.commute div_mult_self2 zero_neq_numeral)
  then show ?thesis by simp
qed

lemma byte_round_up: "(m + 31) div 32 = m div 32 + (if m mod 32 \<noteq> 0 then 1 else (0::nat))"
proof -
  have "(m + 31) div 32 = m div 32 + (m mod 32 + 31) div 32" using div_add1_eq [of m 31 32] by simp
  moreover have "(m mod 32 + 31) div 32 = (if m mod 32 \<noteq> 0 then 1 else 0)"
    using mod_less_divisor [of 32 m] by (simp add: le_div_geq)
  ultimately show ?thesis by simp
qed

lemma bytes_fit:
  fixes n x :: nat
  defines "q \<equiv> (x + n + 31) div 32"
  shows "(n + 7) div 8 \<le> 4 * q" "0 < n \<Longrightarrow> (n - 1) div 8 < 4 * q"
proof -
  have "n \<le> 32 * q" using div_bounds [of 32 "x + n + 31"] unfolding q_def by linarith
  then show "(n + 7) div 8 \<le> 4 * q" "0 < n \<Longrightarrow> (n - 1) div 8 < 4 * q"
    using div_bounds [of 8 "n + 7"] div_bounds [of 8 "n - 1"] by linarith+
qed

lemma last_byte: "0 < n \<Longrightarrow> (n + 7) div (8::nat) = Suc ((n - 1) div 8)"
  using div_add_self2 [of 8 "n - 1"] by simp

lemma next_word: "k < n \<Longrightarrow> \<not> k mod 32 + x < 32 \<Longrightarrow> Suc (k div 32) < (x + n + 31) div (32::nat)"
  using div_bounds [of 32 "x + n + 31"] mult_div_mod_eq [of 32 k] by linarith

lemma in_last_byte: "k < 8 * ((n + 7) div 8) \<Longrightarrow> \<not> k < n \<Longrightarrow> k div 8 = (n - 1) div (8::nat)"
proof -
  assume a: "k < 8 * ((n + 7) div 8)" "\<not> k < n"
  then have "0 < n" by (cases n) simp_all
  then have "k div 8 \<le> (n - 1) div 8" using a(1) last_byte [of n] div_bounds [of 8 k] by linarith
  moreover have "(n - 1) div 8 \<le> k div 8" using a(2) by (intro div_le_mono) simp
  ultimately show ?thesis by simp
qed

lemma word_split:
  fixes a k :: nat
  shows "k mod 32 + a mod 32 < 32 \<Longrightarrow> (a + k) div 32 = a div 32 + k div 32 \<and> (a + k) mod 32 = k mod 32 + a mod 32"
    and "\<not> k mod 32 + a mod 32 < 32 \<Longrightarrow> (a + k) div 32 = a div 32 + Suc (k div 32) \<and> (a + k) mod 32 = k mod 32 + a mod 32 - 32"
proof -
  have d: "(a + k) div 32 = a div 32 + k div 32 + (a mod 32 + k mod 32) div 32" by (rule div_add1_eq)
  have m: "(a + k) mod 32 = (a mod 32 + k mod 32) mod 32" by (simp add: mod_add_eq)
  show "(a + k) div 32 = a div 32 + k div 32 \<and> (a + k) mod 32 = k mod 32 + a mod 32" if "k mod 32 + a mod 32 < 32"
    using that d m by simp
  show "(a + k) div 32 = a div 32 + Suc (k div 32) \<and> (a + k) mod 32 = k mod 32 + a mod 32 - 32" if "\<not> k mod 32 + a mod 32 < 32"
  proof -
    have "a mod 32 + k mod 32 - 32 < 32" using mod_less_divisor [of 32 a] mod_less_divisor [of 32 k] by linarith
    then have "(a mod 32 + k mod 32) div 32 = 1" "(a mod 32 + k mod 32) mod 32 = a mod 32 + k mod 32 - 32"
      using that by (simp_all only: le_div_geq [of 32 "a mod 32 + k mod 32"] le_mod_geq [of 32 "a mod 32 + k mod 32"] not_less
          add.commute div_less mod_less)
    then show ?thesis unfolding d m by (simp add: add.commute)
  qed
qed

lemma range_after_word:
  fixes a W sh q k n :: nat
  assumes "a = 32 * W + sh" "sh < 32" "32 * q \<le> k" "k < 32 * q + 32" "q \<noteq> W"
  shows "a \<le> k \<and> k < a + n \<longleftrightarrow> 32 * (W + 1) \<le> k \<and> k < 32 * (W + 1) + (n - (32 - sh))"
  using assms by (cases q W rule: linorder_cases) auto

section \<open>Bits of fuses and of buffers\<close>

definition fuse_bit :: "(nat \<Rightarrow> u32) \<Rightarrow> nat \<Rightarrow> bool" where
  "fuse_bit cells k = bit (cells (k div 32)) (k mod 32)"

text \<open>What the driver relies on: the cells of the array and how the controller acts on them.\<close>

definition fuse_hw_ok :: "bool \<Rightarrow> 'e fuse_hw \<Rightarrow> ('e \<Rightarrow> nat \<Rightarrow> u32) \<Rightarrow> bool" where
  "fuse_hw_ok sure hw cells \<longleftrightarrow>
     (\<forall>i v e. burns sure (\<lambda>k. k div 32 = i \<and> bit v (k mod 32)) (fuse_bit (cells e)) (fuse_bit (cells (fuse_program hw i v e)))) \<and>
     (\<forall>e. cells (fuse_update hw e) = cells e \<and> fuse_value hw (fuse_update hw e) = cells e)"

section \<open>Reading\<close>

lemma length_shift_words [simp]: "length (shift_words sh ws) = length ws"
  by (induction sh ws rule: shift_words.induct) simp_all

lemma shift_words_bit:
  "i < length ws \<Longrightarrow> sh < 32 \<Longrightarrow> b < 32 \<Longrightarrow>
   bit (shift_words sh ws ! i) b =
     (if b + sh < 32 then bit (ws ! i) (b + sh) else Suc i < length ws \<and> bit (ws ! Suc i) (b + sh - 32))"
proof (induction sh ws arbitrary: i rule: shift_words.induct)
  case (2 sh w)
  then show ?case by (auto simp: bit_drop_bit_eq add.commute dest: bit_imp_le_length)
next
  case (3 sh w v ws)
  show ?case
  proof (cases i)
    case 0
    then show ?thesis using 3(3,4)
      by (auto simp: bit_or_iff bit_drop_bit_eq bit_push_bit_iff add.commute dest: bit_imp_le_length intro: arg_cong [of _ _ "bit v"])
  next
    case (Suc j)
    then show ?thesis using "3.IH" [of j] 3(2-4) by simp
  qed
qed simp

lemma bytes_of_words_bit:
  "k < 4 * length ws \<Longrightarrow> b < 8 \<Longrightarrow> bit (concat (map bytes_of_u32 ws) ! k) b = bit (ws ! (k div 4)) (8 * (k mod 4) + b)"
proof (induction ws arbitrary: k)
  case (Cons w ws)
  show ?case
  proof (cases "k < 4")
    case True
    then have "k = 0 \<or> k = 1 \<or> k = 2 \<or> k = 3" by linarith
    then show ?thesis using Cons.prems(2)
      by (auto simp: bytes_of_u32_def nth_append bit_ucast_iff bit_drop_bit_eq)
  next
    case False
    then have "k div 4 = Suc ((k - 4) div 4)" "k mod 4 = (k - 4) mod 4" by (simp_all add: le_div_geq le_mod_geq)
    then show ?thesis using False Cons.IH [of "k - 4"] Cons.prems by (simp add: nth_append)
  qed
qed simp

lemma words_buf_bit:
  assumes "k < 32 * length ws"
  shows "buf_bit (concat (map bytes_of_u32 ws)) k = bit (ws ! (k div 32)) (k mod 32)"
proof -
  have "k div 8 div 4 = k div 32" "8 * (k div 8 mod 4) + k mod 8 = k mod 32" "k div 8 < 4 * length ws"
    using assms mod_mult2_eq [of k 8 4] by (simp_all add: div_mult2_eq [of k 8 4, symmetric] less_mult_imp_div_less)
  then show ?thesis using bytes_of_words_bit [of "k div 8" ws "k mod 8"] by (simp add: buf_bit_def)
qed

lemma length_words_bytes [simp]: "length (concat (map bytes_of_u32 ws)) = 4 * length ws"
  by (induction ws) simp_all

lemma mask_last_bit:
  assumes "n \<noteq> 0" "(unat n - 1) div 8 < length d" "k div 8 < length d"
  shows "buf_bit (mask_last n d) k \<longleftrightarrow> buf_bit d k \<and> (k div 8 = (unat n - 1) div 8 \<longrightarrow> k < unat n)"
proof -
  have n: "0 < unat n" using assms(1) by (simp add: unat_gt_0)
  have "bit (last_mask n) (k mod 8) \<longleftrightarrow> k < unat n" if "k div 8 = (unat n - 1) div 8"
  proof -
    have "k mod 8 < (if unat n mod 8 = 0 then 8 else unat n mod 8) \<longleftrightarrow> k < unat n"
    proof -
      obtain i r where k: "k = 8 * i + r" "r < 8" "k div 8 = i" "k mod 8 = r" by (metis mod_less_divisor mult_div_mod_eq zero_less_numeral)
      obtain j t where u: "unat n - 1 = 8 * j + t" "t < 8" "(unat n - 1) div 8 = j" by (metis mod_less_divisor mult_div_mod_eq zero_less_numeral)
      then have "unat n = 8 * i + (t + 1)" using n that k(3) by linarith
      then show ?thesis using k u(2) by (cases "t = 7") simp_all
    qed
    moreover have "k mod 8 < 8" by simp
    ultimately show ?thesis by (simp add: last_mask_def bit_mask_iff)
  qed
  then show ?thesis using assms(2,3)
    by (auto simp: buf_bit_def mask_last_def Let_def nth_list_update bit_and_iff)
qed

lemma length_mask_last [simp]: "length (mask_last n d) = length d"
  by (simp add: mask_last_def Let_def)

lemma range_ok:
  assumes "\<not> efuse_range_bad a n"
  shows "unat a + unat n \<le> 1024" "n \<noteq> 0" "unat (a + n) = unat a + unat n"
proof -
  have b: "unat a < 1024" "unat n \<le> 1024" "n \<noteq> 0"
    using assms by (auto simp: efuse_range_bad_def word_le_nat_alt not_le not_less)
  then show s: "unat (a + n) = unat a + unat n" by (intro unat_add_no_wrap) simp
  have "unat (a + n) \<le> 1024" using assms by (auto simp: efuse_range_bad_def word_le_nat_alt not_le not_less)
  then show "unat a + unat n \<le> 1024" using s by simp
  show "n \<noteq> 0" by (rule b(3))
qed

text \<open>The driver is idle, or not yet initialised on a clock that it knows.\<close>

definition efuse_idle :: "'e efuse_hal \<Rightarrow> bool" where
  "efuse_idle s \<longleftrightarrow> (gEfuseState s = EFUSE_STATE_READY \<or> gEfuseState s = EFUSE_STATE_INVALID \<and> ef_clock s \<in> set HOSC_CLOCKS) \<and>
     ef_mallocs s = []"

lemma take_idle: "efuse_idle s \<Longrightarrow> efuse_take s = (HAL_OK, s\<lparr>gEfuseState := EFUSE_STATE_BUSY\<rparr>)"
  by (auto simp: efuse_idle_def efuse_take_def EFUSE_Init_def)

lemma efuse_read_bits:
  assumes idle: "efuse_idle s" and ok: "\<not> efuse_range_bad a n" and len: "(unat n + 7) div 8 \<le> length data"
  shows "\<exists>d. HAL_EFUSE_Read hw a n data s = Some (HAL_OK, d, s\<lparr>gEfuseState := EFUSE_STATE_READY\<rparr>) \<and>
     length d = length data \<and> drop ((unat n + 7) div 8) d = drop ((unat n + 7) div 8) data \<and>
     (\<forall>k < 8 * ((unat n + 7) div 8). buf_bit d k = (k < unat n \<and> fuse_bit (fuse_value hw (ef_hw s)) (unat a + k)))"
proof -
  let ?a = "unat a" and ?n = "unat n" let ?m = "(?n + 7) div 8"
  note r = range_ok [OF ok]
  have n: "0 < ?n" using r(2) by (simp add: unat_gt_0)
  let ?w = "(a + n) div 32 - a div 32"
  let ?cnt = "if (a + n) mod 32 \<noteq> 0 then ?w + 1 else ?w"
  have w: "unat ?w = (?a + ?n) div 32 - ?a div 32"
  proof -
    have "unat (a div 32) = ?a div 32" "unat ((a + n) div 32) = (?a + ?n) div 32" using r(3) by (simp_all add: unat_div)
    moreover have "?a div 32 \<le> (?a + ?n) div 32" by (simp add: div_le_mono)
    ultimately show ?thesis by (subst unat_sub) (simp_all add: word_le_nat_alt)
  qed
  have nz: "(a + n) mod 32 \<noteq> 0 \<longleftrightarrow> (?a + ?n) mod 32 \<noteq> 0"
  proof -
    have "unat ((a + n) mod 32) = (?a + ?n) mod 32" using r(3) by (simp add: unat_mod)
    then show ?thesis by (metis unat_eq_zero)
  qed
  have "unat (?w + 1) = unat ?w + 1" using w r(1) unat_add_no_wrap [of ?w 1] by simp
  moreover have "(?a + ?n + 31) div 32 = (?a + ?n) div 32 + (if (?a + ?n) mod 32 \<noteq> 0 then 1 else 0)"
    by (rule byte_round_up)
  moreover have "?a div 32 \<le> (?a + ?n) div 32" by (simp add: div_le_mono)
  ultimately have "unat ?cnt = (?a + ?n + 31) div 32 - ?a div 32"
    using w nz by (simp add: Suc_diff_le)
  then have cnt: "unat ?cnt = (?a mod 32 + ?n + 31) div 32" by (simp only: word_count)
  have sh: "unat (a mod 32) = ?a mod 32" "unat (a div 32) = ?a div 32" by (simp_all add: unat_mod unat_div)
  let ?sid = "map (\<lambda>i. fuse_value hw (ef_hw s) (?a div 32 + i)) [0..<unat ?cnt]"
  let ?bytes = "concat (map bytes_of_u32 (shift_words (?a mod 32) ?sid))"
  have m: "?m \<le> 4 * unat ?cnt" "(?n - 1) div 8 < 4 * unat ?cnt" "8 * ?m \<le> 32 * unat ?cnt"
    "(?n - 1) div 8 < ?m" using bytes_fit [of ?n "?a mod 32"] last_byte [OF n] cnt n by simp_all
  have bit: "buf_bit (mask_last n ?bytes) k = (k < ?n \<and> fuse_bit (fuse_value hw (ef_hw s)) (?a + k))" if k: "k < 8 * ?m" for k
  proof -
    have kb: "k < 32 * length (shift_words (?a mod 32) ?sid)" "k div 8 < 4 * unat ?cnt" using k m by auto
    have last: "k div 8 = (?n - 1) div 8 \<or> k < ?n" using k in_last_byte by blast
    have "buf_bit ?bytes k = fuse_bit (fuse_value hw (ef_hw s)) (?a + k)" if "k < ?n"
    proof -
      have i: "k div 32 < unat ?cnt" using kb by simp
      have b: "bit (shift_words (?a mod 32) ?sid ! (k div 32)) (k mod 32) =
          (if k mod 32 + ?a mod 32 < 32 then bit (?sid ! (k div 32)) (k mod 32 + ?a mod 32)
           else Suc (k div 32) < length ?sid \<and> bit (?sid ! Suc (k div 32)) (k mod 32 + ?a mod 32 - 32))"
        by (rule shift_words_bit) (use i in simp_all)
      have c: "Suc (k div 32) < unat ?cnt" if "\<not> k mod 32 + ?a mod 32 < 32"
        using next_word [OF \<open>k < ?n\<close> that] cnt by simp
      show ?thesis
      proof (cases "k mod 32 + ?a mod 32 < 32")
        case True
        then have "(?a + k) div 32 = ?a div 32 + k div 32" "(?a + k) mod 32 = k mod 32 + ?a mod 32" using word_split(1) by blast+
        then show ?thesis using True b i words_buf_bit [OF kb(1)] by (simp add: fuse_bit_def)
      next
        case False
        then have "(?a + k) div 32 = ?a div 32 + Suc (k div 32)" "(?a + k) mod 32 = k mod 32 + ?a mod 32 - 32" using word_split(2) by blast+
        then show ?thesis using False b c [OF False] words_buf_bit [OF kb(1)] by (simp add: fuse_bit_def)
      qed
    qed
    moreover have "buf_bit (mask_last n ?bytes) k \<longleftrightarrow> buf_bit ?bytes k \<and> (k div 8 = (?n - 1) div 8 \<longrightarrow> k < ?n)"
      by (rule mask_last_bit [OF r(2)]) (use m(2) kb(2) in simp_all)
    ultimately show ?thesis using last by blast
  qed
  let ?d = "take ?m (mask_last n ?bytes) @ drop ?m data"
  have "HAL_EFUSE_Read hw a n data s = Some (HAL_OK, ?d, s\<lparr>gEfuseState := EFUSE_STATE_READY\<rparr>)"
    using ok len idle unfolding HAL_EFUSE_Read_def take_idle [OF idle]
    by (simp add: efuse_malloc_def efuse_idle_def Let_def sh)
  moreover have "length ?d = length data" "drop ?m ?d = drop ?m data" using m(1) len by simp_all
  moreover have "buf_bit ?d k = buf_bit (mask_last n ?bytes) k" if "k < 8 * ?m" for k
  proof -
    have "k div 8 < ?m" using that by (simp add: less_mult_imp_div_less)
    then show ?thesis using m(1) by (simp add: buf_bit_def nth_append)
  qed
  ultimately show ?thesis using bit by (intro exI [of _ ?d]) simp
qed

section \<open>Writing\<close>

text \<open>Bits of the memory from the buffer on.\<close>

definition mem_bit :: "u8 list \<Rightarrow> (nat \<Rightarrow> u8) \<Rightarrow> nat \<Rightarrow> bool" where
  "mem_bit data junk k = bit (mem_at data junk (k div 8)) (k mod 8)"

lemma mem_bit_buf: "k div 8 < length data \<Longrightarrow> mem_bit data junk k = buf_bit data k"
  by (simp add: mem_bit_def buf_bit_def mem_at_def)

lemma u32_of_bytes_bit:
  assumes "b < 32" "4 \<le> length bs"
  shows "bit (u32_of_bytes bs) b = bit (bs ! (b div 8)) (b mod 8)"
proof -
  consider "b < 8" | "8 \<le> b" "b < 16" | "16 \<le> b" "b < 24" | "24 \<le> b" using assms by linarith
  then show ?thesis
    by cases (use assms(1) in \<open>auto simp: u32_of_bytes_def bit_or_iff bit_push_bit_iff bit_ucast_iff le_div_geq le_mod_geq
      numeral_2_eq_2 numeral_3_eq_3 dest: bit_imp_le_length\<close>)
qed

lemma memcpy_bit:
  assumes "b < 8 * n"
  shows "bit (memcpy_from data junk off n ! (b div 8)) (b mod 8) = mem_bit data junk (8 * off + b)"
  using assms by (simp add: memcpy_from_def mem_bit_def less_mult_imp_div_less mult.commute)

lemma memcpy_u32: "b < 32 \<Longrightarrow> bit (u32_of_bytes (memcpy_from data junk off 4)) b = mem_bit data junk (8 * off + b)"
  using u32_of_bytes_bit [of b "memcpy_from data junk off 4"] memcpy_bit [of b 4] by (simp add: memcpy_from_def)

lemma memcpy_drop: "drop 4 (memcpy_from data junk off 8) = memcpy_from data junk (off + 4) 4"
  by (rule nth_equalityI) (simp_all add: memcpy_from_def add.assoc)

lemma memcpy_take: "u32_of_bytes (memcpy_from data junk off 8) = u32_of_bytes (memcpy_from data junk off 4)"
  by (simp add: u32_of_bytes_def memcpy_from_def)

lemma memcpy_u64:
  assumes "b < 64"
  shows "bit (u64_of_bytes (memcpy_from data junk off 8)) b = mem_bit data junk (8 * off + b)"
proof (cases "b < 32")
  case True
  then show ?thesis
    by (simp add: u64_of_bytes_def bit_or_iff bit_push_bit_iff bit_ucast_iff memcpy_take memcpy_u32)
next
  case False
  then have "b - 32 < 32" "8 * (off + 4) + (b - 32) = 8 * off + b" using assms by simp_all
  then show ?thesis using False assms memcpy_u32 [of "b - 32" data junk "off + 4"]
    by (auto simp: u64_of_bytes_def bit_or_iff bit_push_bit_iff bit_ucast_iff memcpy_take memcpy_drop dest: bit_imp_le_length)
qed

text \<open>One word of the loop: what it asks for, with the bits of the range still to be written.\<close>

lemma loop_word_bit:
  fixes cnt :: u32
  assumes "sh < 32" "j < 32"
  shows "bit (let w = (ucast (drop_bit 32 (push_bit sh (u64_of_bytes (memcpy_from data junk off 8)))) :: u32)
      in if cnt < 32 then w AND mask (unat cnt) else w) j \<longleftrightarrow>
    (32 \<le> unat cnt \<or> j < unat cnt) \<and> mem_bit data junk (8 * off + (32 + j - sh))"
proof -
  have "bit (ucast (drop_bit 32 (push_bit sh (u64_of_bytes (memcpy_from data junk off 8)))) :: u32) j =
      mem_bit data junk (8 * off + (32 + j - sh))"
    using assms memcpy_u64 [of "32 + j - sh" data junk off] by (simp add: bit_ucast_iff bit_drop_bit_eq bit_push_bit_iff)
  then show ?thesis using assms(2)
    by (auto simp: Let_def bit_and_iff bit_mask_iff word_less_nat_alt not_less)
qed

lemma write_words_burns:
  assumes hw: "fuse_hw_ok sure hw cells" and sh: "unat bit_shift < 32"
    and pos: "32 * unat word_idx + unat bit_shift = start + 8 * off + 32" and fin: "32 * unat word_idx + unat bit_cnt \<le> 1024"
  shows "burns sure (\<lambda>k. 32 * unat word_idx \<le> k \<and> k < 32 * unat word_idx + unat bit_cnt \<and> mem_bit data junk (k - start))
     (fuse_bit (cells e)) (fuse_bit (cells (write_words hw data junk bit_shift word_idx bit_cnt off e)))"
  using pos fin
proof (induction "unat bit_cnt" arbitrary: word_idx bit_cnt off e rule: less_induct)
  case less
  let ?W = "unat word_idx" and ?n = "unat bit_cnt" and ?sh = "unat bit_shift"
  show ?case
  proof (cases "bit_cnt > 0")
    case False
    then have "write_words hw data junk bit_shift word_idx bit_cnt off e = e" by (subst write_words.simps) simp
    then show ?thesis using False by (auto simp: burns_def word_gt_0)
  next
    case True
    let ?w = "let w = (ucast (drop_bit 32 (push_bit ?sh (u64_of_bytes (memcpy_from data junk off 8)))) :: u32)
      in if bit_cnt < 32 then w AND mask ?n else w"
    let ?e = "EFUSE_WriteData hw word_idx ?w e" and ?cnt = "bit_cnt - (if bit_cnt \<le> 32 then bit_cnt else 32)"
    have n: "0 < ?n" using True by (simp add: word_gt_0 unat_gt_0)
    have W: "?W < 32" using less.prems(2) n by linarith
    have idx: "unat (ucast word_idx :: u8) = ?W" using W by (simp add: unsigned_ucast_eq take_bit_nat_eq_self)
    have W1: "unat (word_idx + 1) = ?W + 1" using W unat_add_no_wrap [of word_idx 1] by simp
    have cnt: "unat ?cnt = ?n - 32"
      by (auto simp: word_le_nat_alt unat_sub)
    have one: "burns sure (\<lambda>k. k div 32 = ?W \<and> bit ?w (k mod 32)) (fuse_bit (cells e)) (fuse_bit (cells ?e))"
      using hw by (simp add: fuse_hw_ok_def EFUSE_WriteData_def idx)
    have rest: "burns sure (\<lambda>k. 32 * unat (word_idx + 1) \<le> k \<and> k < 32 * unat (word_idx + 1) + unat ?cnt \<and> mem_bit data junk (k - start))
        (fuse_bit (cells ?e)) (fuse_bit (cells (write_words hw data junk bit_shift (word_idx + 1) ?cnt (off + 4) ?e)))"
    proof (rule less.hyps)
      show "unat ?cnt < unat bit_cnt" using cnt n by linarith
      show "32 * unat (word_idx + 1) + ?sh = start + 8 * (off + 4) + 32" unfolding W1 using less.prems(1) by simp
      show "32 * unat (word_idx + 1) + unat ?cnt \<le> 1024"
        using less.prems(2) W1 cnt W by linarith
    qed
    have "write_words hw data junk bit_shift word_idx bit_cnt off e = write_words hw data junk bit_shift (word_idx + 1) ?cnt (off + 4) ?e"
      using True by (subst write_words.simps) (simp add: Let_def)
    moreover have "(32 * ?W \<le> k \<and> k < 32 * ?W + ?n \<and> mem_bit data junk (k - start)) \<longleftrightarrow>
        (k div 32 = ?W \<and> bit ?w (k mod 32)) \<or>
        (32 * unat (word_idx + 1) \<le> k \<and> k < 32 * unat (word_idx + 1) + unat ?cnt \<and> mem_bit data junk (k - start))" for k
    proof -
      have db: "32 * (k div 32) \<le> k \<and> k < 32 * (k div 32) + 32" by (rule div_bounds) simp
      show ?thesis
      proof (cases "k div 32 = ?W")
        case True
        then have k: "k = 32 * ?W + k mod 32" by (metis mult_div_mod_eq)
        have "8 * off + (32 + k mod 32 - ?sh) = k - start" using less.prems(1) sh k by linarith
        then have "bit ?w (k mod 32) \<longleftrightarrow> (32 \<le> ?n \<or> k mod 32 < ?n) \<and> mem_bit data junk (k - start)"
          using loop_word_bit [OF sh, where j = "k mod 32" and cnt = bit_cnt and data = data and junk = junk and off = off] by simp
        moreover have "32 \<le> ?n \<or> k mod 32 < ?n \<longleftrightarrow> k < 32 * ?W + ?n" using k mod_less_divisor [of 32 k] by linarith
        ultimately show ?thesis using True db W1 by auto
      next
        case False
        then have "(32 * ?W \<le> k \<and> k < 32 * ?W + ?n) \<longleftrightarrow> (32 * (?W + 1) \<le> k \<and> k < 32 * (?W + 1) + (?n - 32))"
          using db by (cases "?W" "k div 32" rule: linorder_cases) auto
        then show ?thesis using False W1 cnt by auto
      qed
    qed
    ultimately show ?thesis using burns_trans [OF one rest] by simp
  qed
qed

text \<open>The write of the driver.\<close>

lemma efuse_write_bits:
  assumes idle: "efuse_idle s" and ok: "\<not> efuse_range_bad a n" and len: "(unat n - 1) div 8 < length data"
    and hw: "fuse_hw_ok sure hw cells"
  shows "\<exists>s'. HAL_EFUSE_Write hw a n data s = Some (HAL_OK, mask_last n data, s') \<and> efuse_idle s' \<and>
     fuse_value hw (ef_hw s') = cells (ef_hw s') \<and> ef_junk s' = ef_junk s \<and> gEfuseState s' = EFUSE_STATE_READY \<and>
     ef_clock s' = ef_clock s \<and>
     burns sure (\<lambda>k. unat a \<le> k \<and> k < unat a + unat n \<and> buf_bit data (k - unat a)) (fuse_bit (cells (ef_hw s))) (fuse_bit (cells (ef_hw s')))"
proof -
  let ?a = "unat a" and ?n = "unat n" let ?W = "?a div 32" and ?sh = "?a mod 32" and ?d = "mask_last n data"
  let ?w = "u32_of_bytes (memcpy_from ?d (ef_junk s) 0 4)"
  let ?v = "if n < 32 then ?w AND mask ?n else ?w"
  let ?e = "EFUSE_WriteData hw (drop_bit 5 a) (push_bit (unat (a AND 31)) ?v) (ef_hw s)"
  let ?cnt = "n - (if n \<le> 32 - (a AND 31) then n else 32 - (a AND 31))"
  let ?e2 = "write_words hw ?d (ef_junk s) (a AND 31) (drop_bit 5 a + 1) ?cnt 0 ?e"
  note r = range_ok [OF ok]
  have n: "0 < ?n" using r(2) by (simp add: unat_gt_0)
  have a: "?a = 32 * ?W + ?sh" "?sh < 32" "?W < 32" using r(1) n by simp_all
  have "a AND 31 = take_bit 5 a" by (simp add: take_bit_eq_mask mask_eq_exp_minus_1)
  then have sh: "unat (a AND 31) = ?sh" by (simp add: unsigned_take_bit_eq take_bit_eq_mod unat_mod)
  have W: "unat (drop_bit 5 a) = ?W" by (simp add: unat_drop_bit_eq drop_bit_eq_div unat_div)
  have W1: "unat (drop_bit 5 a + 1) = ?W + 1" using W a(3) unat_add_no_wrap [of "drop_bit 5 a" 1] by simp
  have idx: "unat (ucast (drop_bit 5 a) :: u8) = ?W" using W a(3) by (simp add: unsigned_ucast_eq take_bit_nat_eq_self)
  have "unat (32 - (a AND 31)) = 32 - ?sh"
    using sh a(2) by (subst unat_sub) (simp_all add: word_le_nat_alt)
  then have cnt: "unat ?cnt = ?n - (32 - ?sh)" by (auto simp: word_le_nat_alt unat_sub)
  have db: "mem_bit ?d (ef_junk s) m = buf_bit data m" if "m < ?n" for m
  proof -
    have "m div 8 \<le> (?n - 1) div 8" using that by (intro div_le_mono) simp
    then have "m div 8 < length data" using len by simp
    then show ?thesis using mem_bit_buf [of m ?d] mask_last_bit [OF r(2) len] that by simp
  qed
  have vbit: "bit (push_bit ?sh ?v) j \<longleftrightarrow> ?sh \<le> j \<and> (32 \<le> ?n \<or> j - ?sh < ?n) \<and> mem_bit ?d (ef_junk s) (j - ?sh)" if "j < 32" for j
    using that memcpy_u32 [of "j - ?sh" ?d "ef_junk s" 0]
    by (auto simp: bit_push_bit_iff bit_and_iff bit_mask_iff word_less_nat_alt not_less)
  have one: "burns sure (\<lambda>k. k div 32 = ?W \<and> bit (push_bit ?sh ?v) (k mod 32)) (fuse_bit (cells (ef_hw s))) (fuse_bit (cells ?e))"
    using hw by (simp add: fuse_hw_ok_def EFUSE_WriteData_def idx sh)
  have rest: "burns sure (\<lambda>k. 32 * unat (drop_bit 5 a + 1) \<le> k \<and> k < 32 * unat (drop_bit 5 a + 1) + unat ?cnt \<and>
      mem_bit ?d (ef_junk s) (k - ?a)) (fuse_bit (cells ?e)) (fuse_bit (cells ?e2))"
  proof (rule write_words_burns [OF hw])
    show "unat (a AND 31) < 32" using sh a(2) by simp
    show "32 * unat (drop_bit 5 a + 1) + unat (a AND 31) = ?a + 8 * 0 + 32" using W1 sh a(1) by simp
    show "32 * unat (drop_bit 5 a + 1) + unat ?cnt \<le> 1024" using W1 cnt r(1) a by linarith
  qed
  have "burns sure (\<lambda>k. ?a \<le> k \<and> k < ?a + ?n \<and> buf_bit data (k - ?a)) (fuse_bit (cells (ef_hw s))) (fuse_bit (cells ?e2))"
  proof (rule burns_trans [OF one rest])
    fix k :: nat
    have kd: "32 * (k div 32) \<le> k \<and> k < 32 * (k div 32) + 32" by (rule div_bounds) simp
    have d: "mem_bit ?d (ef_junk s) (k - ?a) = buf_bit data (k - ?a)" if "?a \<le> k" "k < ?a + ?n" using that db [of "k - ?a"] by simp
    show "(?a \<le> k \<and> k < ?a + ?n \<and> buf_bit data (k - ?a)) \<longleftrightarrow> (k div 32 = ?W \<and> bit (push_bit ?sh ?v) (k mod 32)) \<or>
        (32 * unat (drop_bit 5 a + 1) \<le> k \<and> k < 32 * unat (drop_bit 5 a + 1) + unat ?cnt \<and> mem_bit ?d (ef_junk s) (k - ?a))"
    proof (cases "k div 32 = ?W")
      case True
      then have k: "k = 32 * ?W + k mod 32" by (metis mult_div_mod_eq)
      have j: "k mod 32 < 32" by simp
      have "?sh \<le> k mod 32 \<longleftrightarrow> ?a \<le> k" "k mod 32 - ?sh = k - ?a" using k a(1) by linarith+
      moreover have "32 \<le> ?n \<or> k mod 32 - ?sh < ?n \<longleftrightarrow> k < ?a + ?n" if "?a \<le> k" using k a that j by linarith
      ultimately show ?thesis using True vbit [OF j] d W1 kd by auto
    next
      case False
      then have "?a \<le> k \<and> k < ?a + ?n \<longleftrightarrow> 32 * (?W + 1) \<le> k \<and> k < 32 * (?W + 1) + (?n - (32 - ?sh))"
        using kd by (intro range_after_word [OF a(1,2)]) auto
      then show ?thesis using False W1 cnt d by auto
    qed
  qed
  moreover have "HAL_EFUSE_Write hw a n data s =
      Some (HAL_OK, ?d, HAL_EFUSE_UpdateAll hw (s\<lparr>ef_hw := ?e2, gEfuseState := EFUSE_STATE_READY\<rparr>))"
    using ok len unfolding HAL_EFUSE_Write_def take_idle [OF idle] by (simp add: Let_def)
  ultimately show ?thesis
    using hw idle by (simp add: HAL_EFUSE_UpdateAll_def fuse_hw_ok_def efuse_idle_def)
qed

section \<open>The contract\<close>

definition hal_fuse_if :: "'e fuse_hw \<Rightarrow> 'e efuse_hal fuse_if" where
  "hal_fuse_if hw = \<lparr>fi_read = HAL_EFUSE_Read hw, fi_write = HAL_EFUSE_Write hw\<rparr>"

text \<open>The driver on a controller that follows its description, with the registers loaded.\<close>

definition hal_idle :: "bool \<Rightarrow> 'e fuse_hw \<Rightarrow> ('e \<Rightarrow> nat \<Rightarrow> u32) \<Rightarrow> 'e efuse_hal \<Rightarrow> bool" where
  "hal_idle sure hw cells s \<longleftrightarrow> fuse_hw_ok sure hw cells \<and> efuse_idle s \<and> fuse_value hw (ef_hw s) = cells (ef_hw s)"

definition hal_fuses :: "('e \<Rightarrow> nat \<Rightarrow> u32) \<Rightarrow> 'e efuse_hal \<Rightarrow> nat \<Rightarrow> bool" where
  "hal_fuses cells s = fuse_bit (cells (ef_hw s))"

lemma range_good: "n \<noteq> 0 \<Longrightarrow> unat a + unat n \<le> 1024 \<Longrightarrow> \<not> efuse_range_bad a n"
proof -
  assume a: "n \<noteq> 0" "unat a + unat n \<le> 1024"
  then have "0 < unat n" by (simp add: unat_gt_0)
  moreover have "unat (a + n) = unat a + unat n" using a(2) by (intro unat_add_no_wrap) simp
  ultimately have "n \<le> 1024" "a + n \<le> 1024" "a < 1024" using a by (simp_all add: word_le_nat_alt word_less_nat_alt)
  then show ?thesis using a(1) by (simp add: efuse_range_bad_def not_le not_less)
qed

lemma hal_read_bytes:
  assumes "hal_idle sure hw cells s" "n \<noteq> 0" "unat a + unat n \<le> 1024" "(unat n + 7) div 8 \<le> length d"
  shows "HAL_EFUSE_Read hw a n d s =
    Some (HAL_OK, fuse_bytes (hal_fuses cells s) (unat a) (unat n) @ drop ((unat n + 7) div 8) d, s\<lparr>gEfuseState := EFUSE_STATE_READY\<rparr>)"
proof -
  let ?m = "(unat n + 7) div 8"
  obtain e where e: "HAL_EFUSE_Read hw a n d s = Some (HAL_OK, e, s\<lparr>gEfuseState := EFUSE_STATE_READY\<rparr>)" "length e = length d"
    "drop ?m e = drop ?m d" "\<forall>k < 8 * ?m. buf_bit e k = (k < unat n \<and> fuse_bit (fuse_value hw (ef_hw s)) (unat a + k))"
    using efuse_read_bits [of s a n d hw] assms range_good [OF assms(2,3)] by (auto simp: hal_idle_def)
  have "take ?m e = fuse_bytes (hal_fuses cells s) (unat a) (unat n)"
  proof (rule buf_eqI)
    fix k assume "k < 8 * length (take ?m e)"
    then have k: "k < 8 * ?m" by simp
    have "buf_bit (take ?m e) k = buf_bit e k" using k by (simp add: buf_bit_def less_mult_imp_div_less mult.commute)
    then show "buf_bit (take ?m e) k = buf_bit (fuse_bytes (hal_fuses cells s) (unat a) (unat n)) k"
      using e(4) k assms(1) by (simp add: fuse_bytes_bit hal_fuses_def hal_idle_def)
  qed (use e(2) assms(4) in simp)
  then show ?thesis using e(1,3) by (metis append_take_drop_id)
qed

lemma hal_write_burns:
  assumes "hal_idle sure hw cells s" "n \<noteq> 0" "unat a + unat n \<le> 1024" "(unat n - 1) div 8 < length d"
  shows "\<exists>s'. HAL_EFUSE_Write hw a n d s = Some (HAL_OK, mask_last n d, s') \<and> hal_idle sure hw cells s' \<and>
     burns sure (\<lambda>k. unat a \<le> k \<and> k < unat a + unat n \<and> buf_bit d (k - unat a)) (hal_fuses cells s) (hal_fuses cells s')"
  using efuse_write_bits [of s a n d sure hw cells] assms range_good [OF assms(2,3)] by (auto simp: hal_idle_def hal_fuses_def)

interpretation hal: fuse_store "hal_fuse_if hw" "hal_idle sure hw cells" "hal_fuses cells" sure
  for hw :: "'e fuse_hw" and cells :: "'e \<Rightarrow> nat \<Rightarrow> u32" and sure :: bool
proof (unfold_locales, goal_cases)
  case (1 s n a d)
  show ?case
    using hal_read_bytes [OF 1] 1(1) by (auto simp: hal_fuse_if_def hal_idle_def hal_fuses_def efuse_idle_def)
next
  case (2 s n a d)
  from hal_write_burns [OF 2] obtain s' where "HAL_EFUSE_Write hw a n d s = Some (HAL_OK, mask_last n d, s')" "hal_idle sure hw cells s'"
    "burns sure (\<lambda>k. unat a \<le> k \<and> k < unat a + unat n \<and> buf_bit d (k - unat a)) (hal_fuses cells s) (hal_fuses cells s')"
    by blast
  then show ?case using mask_last_bit [OF 2(2,4)] by (simp add: hal_fuse_if_def)
qed

end
