(* ===== verification/Efpg_Fuse_Spec.thy ===== *)
theory Efpg_Fuse_Spec
  imports Efpg_Fuse Efuse_Spec
begin

text \<open>
  What writing a field does to the fuses, over the contract \<open>fuse_store\<close>, also with fuses that
  cannot be set: it stays in the field, and when it reports success the field reads back as it
  was written; the boot hash with up to two bits corrected.
\<close>

section \<open>Growth of the array\<close>

definition grows :: "nat set \<Rightarrow> (nat \<Rightarrow> bool) \<Rightarrow> (nat \<Rightarrow> bool) \<Rightarrow> bool" where
  "grows S f f' \<longleftrightarrow> (\<forall>k. (f k \<longrightarrow> f' k) \<and> (f' k \<longrightarrow> f k \<or> k \<in> S))"

lemma grows_refl [simp]: "grows S f f"
  by (simp add: grows_def)

lemma grows_trans: "grows S f g \<Longrightarrow> grows T g h \<Longrightarrow> grows (S \<union> T) f h"
  by (auto simp: grows_def)

lemma grows_join: "grows S f g \<Longrightarrow> grows S g h \<Longrightarrow> grows S f h"
  by (auto simp: grows_def)

lemma grows_mono: "grows S f g \<Longrightarrow> S \<subseteq> T \<Longrightarrow> grows T f g"
  by (auto simp: grows_def)

lemma grows_outside: "grows S f g \<Longrightarrow> k \<notin> S \<Longrightarrow> g k = f k"
  by (auto simp: grows_def)

lemma grows_bytes: "grows S f g \<Longrightarrow> S \<inter> {a..<a + n} = {} \<Longrightarrow> fuse_bytes g a n = fuse_bytes f a n"
  by (rule fuse_bytes_cong) (auto dest!: grows_outside)

text \<open>The data as they go in: the bits behind the last one are cleared.\<close>

definition cut_bits :: "nat \<Rightarrow> u8 list \<Rightarrow> u8 list \<Rightarrow> bool" where
  "cut_bits n d d' \<longleftrightarrow> length d' = length d \<and>
     (\<forall>k. k div 8 < length d \<longrightarrow> buf_bit d' k = (buf_bit d k \<and> (k div 8 = (n - 1) div 8 \<longrightarrow> k < n)))"

lemma cut_bits_full:
  assumes "cut_bits n d d'" "n mod 8 = 0" "0 < n"
  shows "d' = d"
proof (rule buf_eqI)
  show "length d' = length d" using assms(1) by (simp add: cut_bits_def)
  fix k assume "k < 8 * length d'"
  then have k: "k div 8 < length d" using assms(1) by (simp add: cut_bits_def less_mult_imp_div_less mult.commute)
  have "k < n" if "k div 8 = (n - 1) div 8"
  proof -
    obtain q where q: "n = 8 * q" using assms(2) by auto
    then have "(n - 1) div 8 = q - 1" using assms(3) by (cases q) simp_all
    then have "k div 8 < q" using that q assms(3) by simp
    then show ?thesis using q by (simp add: div_less_iff_less_mult mult.commute)
  qed
  then show "buf_bit d' k = buf_bit d k" using assms(1) k by (auto simp: cut_bits_def)
qed

lemma cut_bits_flag: "cut_bits (Suc 0) [1] w \<Longrightarrow> w = [1]"
proof -
  assume w: "cut_bits (Suc 0) [1] w"
  show "w = [1]"
  proof (rule buf_eqI)
    show "length w = length [1 :: u8]" using w by (simp add: cut_bits_def)
    fix k assume "k < 8 * length w"
    then show "buf_bit w k = buf_bit [1] k" using w by (auto simp: cut_bits_def buf_bit_def bit_1_iff)
  qed
qed

lemma fuse_bytes_one [simp]: "fuse_bytes f a (Suc 0) = [if f a then 1 else 0]"
proof -
  have "fuse_bytes f a 1 = [if f a then 1 else 0]"
  proof (rule buf_eqI)
    fix k assume "k < 8 * length (fuse_bytes f a 1)"
    then show "buf_bit (fuse_bytes f a 1) k = buf_bit [if f a then 1 else 0] k"
      using fuse_bytes_bit [of k 1 f a] by (cases "k = 0") (simp_all add: buf_bit_def bit_1_iff)
  qed simp
  then show ?thesis by simp
qed

context fuse_store
begin

lemma read_back_sure:
  assumes "idle s" "n \<noteq> 0" "unat a + unat n \<le> 1024" "(unat n - 1) div 8 < length data" "(unat n + 7) div 8 \<le> length buf"
  shows "\<exists>data' s'. read_back F a n data buf s =
      Some (True, data', fuse_bytes (fuses s') (unat a) (unat n) @ drop ((unat n + 7) div 8) buf, s') \<and> idle s' \<and>
    cut_bits (unat n) data data' \<and> grows {unat a..<unat a + unat n} (fuses s) (fuses s')"
proof -
  obtain d s1 where w: "fi_write F a n data s = Some (HAL_OK, d, s1)" "idle s1" "cut_bits (unat n) data d"
    "grows {unat a..<unat a + unat n} (fuses s) (fuses s1)"
    using write_law [OF assms(1-4)] by (auto simp: cut_bits_def burns_def grows_def)
  obtain s2 where "fi_read F a n buf s1 = Some (HAL_OK, fuse_bytes (fuses s1) (unat a) (unat n) @ drop ((unat n + 7) div 8) buf, s2)"
    "idle s2" "fuses s2 = fuses s1"
    using read_law [OF w(2) assms(2,3,5)] by blast
  then show ?thesis using w by (simp add: read_back_def)
qed

section \<open>Plain fields\<close>

lemma write_plain_sure:
  assumes "idle s" "n \<noteq> 0" "unat a + unat n \<le> 1024" "len = (unat n + 7) div 8" "len \<le> length data"
  shows "\<exists>ack d s'. write_plain F a n len data s = Some (ack, d, s') \<and> idle s' \<and> cut_bits (unat n) data d \<and>
     grows {unat a..<unat a + unat n} (fuses s) (fuses s') \<and>
     (ack = EFPG_ACK_OK \<longrightarrow> take len d = fuse_bytes (fuses s') (unat a) (unat n))"
proof -
  have "0 < unat n" using assms(2) by (simp add: unat_gt_0)
  then have "(unat n - 1) div 8 < len" using assms(4) div_add_self2 [of 8 "unat n - 1"] by simp
  then have l: "(unat n - 1) div 8 < length data" using assms(5) by simp
  obtain d s' where "read_back F a n data (replicate len 0) s = Some (True, d, fuse_bytes (fuses s') (unat a) (unat n), s')"
    "idle s'" "cut_bits (unat n) data d" "grows {unat a..<unat a + unat n} (fuses s) (fuses s')"
    using read_back_sure [OF assms(1-3) l, of "replicate len 0"] assms(4) by auto
  then show ?thesis by (simp add: write_plain_def)
qed

lemma read_plain_sure:
  assumes "idle s" "n \<noteq> 0" "unat a + unat n \<le> 1024" "(unat n + 7) div 8 \<le> length buf"
  shows "\<exists>s'. read_plain F a n buf s =
     Some (EFPG_ACK_OK, fuse_bytes (fuses s) (unat a) (unat n) @ drop ((unat n + 7) div 8) buf, s') \<and> idle s' \<and> fuses s' = fuses s"
  using read_law [OF assms] by (auto simp: read_plain_def)

end

section \<open>Regions with one slot\<close>

definition one_slot :: "efpg_region_info \<Rightarrow> bool" where
  "one_slot info \<longleftrightarrow> flag_bits info = 1 \<and> unat (data_start info) = unat (flag_start info) + 1 \<and> data_bits info \<noteq> 0 \<and>
     unat (data_start info) + unat (data_bits info) \<le> 1024 \<and> buf_len info = (unat (data_bits info) + 7) div 8"

lemma regions_one_slot: "one_slot dcxo_region" "one_slot (pout_region m)" "one_slot mac_region" "one_slot first_mac_region"
  by (simp_all add: one_slot_def dcxo_region_def pout_region_def mac_region_def first_mac_region_def split: efpg_pout_cal_mode.split)

lemma low_ones_1: "low_ones 1 = 1"
  by (simp add: low_ones.simps [of 1] low_ones.simps [of 0])

lemma mask_1_u8: "(mask (unat (1 :: u16)) :: u8) = 1"
  by (simp add: mask_eq_exp_minus_1)

abbreviation (input) region_range :: "efpg_region_info \<Rightarrow> nat set" where
  "region_range info \<equiv> {unat (flag_start info)..<unat (data_start info) + unat (data_bits info)}"

text \<open>What a region holds once it has been written.\<close>

definition region_holds :: "efpg_region_info \<Rightarrow> u8 list \<Rightarrow> (nat \<Rightarrow> bool) \<Rightarrow> bool" where
  "region_holds info d f \<longleftrightarrow> f (unat (flag_start info)) \<and>
     fuse_bytes f (unat (data_start info)) (unat (data_bits info)) = take (buf_len info) d"

context fuse_store
begin

lemma read_region_sure:
  assumes "idle s" "one_slot info" "buf_len info \<le> length buf" "region_holds info d (fuses s)"
  shows "\<exists>s'. efpg_read_region F info buf s = Some (EFPG_ACK_OK, take (buf_len info) d @ drop (buf_len info) buf, s') \<and>
     idle s' \<and> fuses s' = fuses s"
proof -
  have i: "flag_bits info = 1" "data_bits info \<noteq> 0" "unat (data_start info) + unat (data_bits info) \<le> 1024"
    "buf_len info = (unat (data_bits info) + 7) div 8" "unat (flag_start info) + 1 \<le> 1024"
    using assms(2) by (auto simp: one_slot_def)
  obtain s1 where r1: "fi_read F (ucast (flag_start info)) 1 [0] s = Some (HAL_OK, [1], s1)" "idle s1" "fuses s1 = fuses s"
    using read_law [OF assms(1), of 1 "ucast (flag_start info)" "[0]"] i(5) assms(4) by (auto simp: region_holds_def)
  have nz: "(ucast (data_bits info) :: u32) \<noteq> 0" using i(2) by (metis unat_ucast_u16_u32 unat_eq_zero)
  obtain s2 where r2: "fi_read F (ucast (data_start info)) (ucast (data_bits info)) buf s1 =
      Some (HAL_OK, take (buf_len info) d @ drop (buf_len info) buf, s2)" "idle s2" "fuses s2 = fuses s1"
    using read_law [OF r1(2) nz, of "ucast (data_start info)" buf] i(3,4) assms(3,4) r1(3) by (auto simp: region_holds_def)
  have "slot_start info (ucast (low_ones 1) - 1) = ucast (data_start info)"
    by (simp add: slot_start_def low_ones_1)
  then show ?thesis using r1 r2 i(1) by (simp add: efpg_read_region_def mask_1_u8)
qed

lemma write_flag_sure:
  assumes "idle s" "one_slot info"
  shows "\<exists>good s'. write_flag F info 0 s = Some (good, s') \<and> idle s' \<and>
     grows {unat (flag_start info)} (fuses s) (fuses s') \<and> (good \<longrightarrow> fuses s' (unat (flag_start info)))"
proof -
  have i: "flag_bits info = 1" "unat (flag_start info) + 1 \<le> 1024" "1 \<le> buf_len info"
    using assms(2) by (auto simp: one_slot_def unat_gt_0 Suc_le_eq div_greater_zero_iff simp flip: unat_gt_0)
  obtain w s' where r: "read_back F (ucast (flag_start info)) 1 [1] (replicate (buf_len info) 0) s =
      Some (True, w, fuse_bytes (fuses s') (unat (flag_start info)) 1 @ drop 1 (replicate (buf_len info) 0), s')" "idle s'"
    "cut_bits 1 [1] w" "grows {unat (flag_start info)..<unat (flag_start info) + 1} (fuses s) (fuses s')"
    using read_back_sure [OF assms(1), of 1 "ucast (flag_start info)" "[1]" "replicate (buf_len info) 0"] i(2,3) by auto
  have "w = [1]" using cut_bits_flag r(3) by simp
  then show ?thesis using r i(1) by (simp add: write_flag_def atLeastLessThanSuc split: if_splits)
qed

lemma try_slot_sure:
  assumes "idle s" "one_slot info" "buf_len info \<le> length data"
  shows "\<exists>done d s'. try_slot F info 0 data s = Some (done, d, s') \<and> idle s' \<and> length d = length data \<and>
     grows {unat (data_start info)..<unat (data_start info) + unat (data_bits info)} (fuses s) (fuses s') \<and>
     (done \<longrightarrow> cut_bits (unat (data_bits info)) data d \<and>
        fuse_bytes (fuses s') (unat (data_start info)) (unat (data_bits info)) = take (buf_len info) d)"
proof -
  let ?n = "unat (data_bits info)" let ?a = "unat (data_start info)" let ?L = "buf_len info"
  have i: "data_bits info \<noteq> 0" "?a + ?n \<le> 1024" "?L = (?n + 7) div 8" using assms(2) by (auto simp: one_slot_def)
  have nz: "(ucast (data_bits info) :: u32) \<noteq> 0" using i(1) by (metis unat_ucast_u16_u32 unat_eq_zero)
  have "0 < ?n" using i(1) by (simp add: unat_gt_0)
  then have l: "(?n - 1) div 8 < length data" using assms(3) i(3) div_add_self2 [of 8 "?n - 1"] by simp
  have start: "slot_start info (ucast (0 :: u8)) = ucast (data_start info)" by (simp add: slot_start_def)
  obtain s1 where r1: "fi_read F (ucast (data_start info)) (ucast (data_bits info)) (replicate ?L 0) s =
      Some (HAL_OK, fuse_bytes (fuses s) ?a ?n, s1)" "idle s1" "fuses s1 = fuses s"
    using read_law [OF assms(1) nz, of "ucast (data_start info)" "replicate ?L 0"] i(2,3) by auto
  obtain d s2 where r2: "read_back F (ucast (data_start info)) (ucast (data_bits info)) data (replicate ?L 0) s1 =
      Some (True, d, fuse_bytes (fuses s2) ?a ?n, s2)" "idle s2" "cut_bits ?n data d" "grows {?a..<?a + ?n} (fuses s1) (fuses s2)"
    using read_back_sure [OF r1(2) nz, of "ucast (data_start info)" data "replicate ?L 0"] i(2,3) l by auto
  have len: "length d = length data" using r2(3) by (simp add: cut_bits_def)
  let ?b = "if ?n mod 8 \<noteq> 0 then (fuse_bytes (fuses s) ?a ?n)[?L - 1 := fuse_bytes (fuses s) ?a ?n ! (?L - 1) AND mask (?n mod 8)]
      else fuse_bytes (fuses s) ?a ?n"
  show ?thesis
  proof (cases "keeps_bits ?b data")
    case True
    then have "try_slot F info 0 data s = Some (take ?L d = fuse_bytes (fuses s2) ?a ?n, d, s2)"
      unfolding try_slot_def start Let_def r1(1) by (simp add: r2(1) del: mult_eq_if)
    then show ?thesis using r2 r1(3) len by auto
  next
    case False
    then have "try_slot F info 0 data s = Some (False, data, s1)"
      unfolding try_slot_def start Let_def r1(1) by simp
    then show ?thesis using r1 by auto
  qed
qed

lemma write_region_sure:
  assumes "idle s" "one_slot info" "buf_len info \<le> length data"
  shows "\<exists>ack d s'. efpg_write_region F info data s = Some (ack, d, s') \<and> idle s' \<and> length d = length data \<and>
     grows (region_range info) (fuses s) (fuses s') \<and>
     (ack = EFPG_ACK_OK \<longrightarrow> cut_bits (unat (data_bits info)) data d \<and> region_holds info d (fuses s'))"
proof -
  let ?a = "unat (flag_start info)"
  have i: "flag_bits info = 1" "?a + 1 \<le> 1024" "unat (data_start info) = ?a + 1" using assms(2) by (auto simp: one_slot_def)
  have loop: "\<exists>ack d s'. region_loop F info 0 data t = Some (ack, d, s') \<and> idle s' \<and> length d = length data \<and>
      grows (region_range info) (fuses s) (fuses s') \<and>
      (ack = EFPG_ACK_OK \<longrightarrow> cut_bits (unat (data_bits info)) data d \<and> region_holds info d (fuses s'))"
    if t: "idle t" "grows {?a} (fuses s) (fuses t)" "fuses t ?a" for t
  proof -
    obtain dn d s' where s': "try_slot F info 0 data t = Some (dn, d, s')" "idle s'" "length d = length data"
      "grows {unat (data_start info)..<unat (data_start info) + unat (data_bits info)} (fuses t) (fuses s')"
      "dn \<longrightarrow> cut_bits (unat (data_bits info)) data d \<and>
        fuse_bytes (fuses s') (unat (data_start info)) (unat (data_bits info)) = take (buf_len info) d"
      using try_slot_sure [OF t(1) assms(2,3)] by blast
    have "grows (region_range info) (fuses s) (fuses s')"
      by (rule grows_mono [OF grows_trans [OF t(2) s'(4)]]) (use i(3) in auto)
    moreover have "fuses s' ?a" using t(3) s'(4) by (auto simp: grows_def)
    moreover have "region_loop F info 0 data t = Some (if dn then EFPG_ACK_OK else EFPG_ACK_DI_ERR, d, s')"
      using s'(1) i(1) by (simp add: region_loop.simps [of F info 0])
    ultimately show ?thesis using s' by (auto simp: region_holds_def)
  qed
  obtain s1 where r: "fi_read F (ucast (flag_start info)) 1 [0] s = Some (HAL_OK, [if fuses s ?a then 1 else 0], s1)"
    "idle s1" "fuses s1 = fuses s"
    using read_law [OF assms(1), of 1 "ucast (flag_start info)" "[0]"] i(2) by auto
  show ?thesis
  proof (cases "fuses s ?a")
    case True
    then have "efpg_write_region F info data s = region_loop F info 0 data s1"
      using r(1) i(1) by (simp add: efpg_write_region_def mask_1_u8 low_ones_1)
    then show ?thesis using loop [of s1] r True by simp
  next
    case False
    obtain good s2 where f: "write_flag F info 0 s1 = Some (good, s2)" "idle s2" "grows {?a} (fuses s1) (fuses s2)" "good \<longrightarrow> fuses s2 ?a"
      using write_flag_sure [OF r(2) assms(2)] by blast
    have e: "efpg_write_region F info data s = (if \<not> good then Some (EFPG_ACK_RW_ERR, data, s2) else region_loop F info 0 data s2)"
      using r(1) i(1) f(1) False by (simp add: efpg_write_region_def mask_1_u8)
    show ?thesis
    proof (cases good)
      case True
      then show ?thesis using e loop [of s2] f r(3) by simp
    next
      case nogood: False
      have "grows (region_range info) (fuses s) (fuses s2)"
        using grows_mono [OF f(3)] r(3) i(3) by auto
      then show ?thesis using e f(2) nogood by simp
    qed
  qed
qed

end

end
