(* ===== verification/Efpg_Field_Spec.thy ===== *)
theory Efpg_Field_Spec
  imports Efpg_Fuse_Spec
begin

text \<open>The boot hash with its corrections, and all fields together.\<close>

section \<open>Corrections of the hash\<close>

lemma flip_no_bit:
  assumes "unat t div 8 < length d" "k div 8 < length d"
  shows "buf_bit (flip_no t d) k \<longleftrightarrow> buf_bit d k \<noteq> (k = unat t)"
proof -
  have t: "unat (drop_bit 3 t) = unat t div 8" by (simp add: unat_drop_bit_eq drop_bit_eq_div unat_div)
  have "t AND 7 = take_bit 3 t" by (simp add: take_bit_eq_mask mask_eq_exp_minus_1)
  then have m: "unat (t AND 7) = unat t mod 8" by (simp add: unsigned_take_bit_eq take_bit_eq_mod unat_mod)
  have e: "k = unat t \<longleftrightarrow> k div 8 = unat t div 8 \<and> k mod 8 = unat t mod 8" by (metis mult_div_mod_eq)
  show ?thesis
    using assms by (auto simp: buf_bit_def flip_no_def Let_def t m nth_list_update bit_xor_iff bit_exp_iff e)
qed

lemma length_flip_no [simp]: "length (flip_no t d) = length d"
  by (simp add: flip_no_def Let_def)

lemma flip_no_append: "unat t div 8 < length d \<Longrightarrow> flip_no t (d @ e) = flip_no t d @ e"
  by (simp add: flip_no_def Let_def unat_drop_bit_eq drop_bit_eq_div unat_div nth_append list_update_append)

text \<open>What \<open>efpg_read_boot\<close> does with the record of errors.\<close>

definition correct :: "hash_err \<Rightarrow> u8 list \<Rightarrow> u8 list" where
  "correct err h = (case err of (cnt, n1, n2) \<Rightarrow>
     if cnt = 0 then h else if cnt = 1 then flip_no n1 h else flip_no n2 (flip_no n1 h))"

lemma length_correct [simp]: "length (correct err h) = length h"
  by (simp add: correct_def split: prod.split)

lemma u8_div_8: "unat (t :: u8) div 8 < 32"
  using unat_u8_bound [of t] by (simp add: less_mult_imp_div_less)

definition agree :: "u8 list \<Rightarrow> u8 list \<Rightarrow> nat set \<Rightarrow> hash_err \<Rightarrow> bool" where
  "agree d h P err \<longleftrightarrow> fst err \<in> {0, 1, 2} \<and>
     (\<forall>k < 256. buf_bit (correct err h) k = (if k \<in> P then buf_bit d k else buf_bit h k))"

text \<open>Recording one more bit that differs.\<close>

definition record_err :: "u8 \<Rightarrow> hash_err \<Rightarrow> hash_err option" where
  "record_err no err = (case err of (cnt, n1, n2) \<Rightarrow>
     if cnt = 0 then Some (1, no, n2) else if cnt = 1 then Some (2, n1, no) else None)"

lemma hash_cmp_bits_step:
  "hash_cmp_bits d b byte (j # js) err =
     (if d AND push_bit j 1 = b AND push_bit j 1 then hash_cmp_bits d b byte js err
      else Option.bind (record_err (push_bit 3 (of_nat byte) + of_nat j) err) (hash_cmp_bits d b byte js))"
  by (cases err) (simp add: record_err_def Let_def)

lemma record_err_correct:
  "record_err no err = Some err' \<Longrightarrow> fst err \<in> {0, 1, 2} \<Longrightarrow>
   correct err' h = flip_no no (correct err h) \<and> fst err' \<in> {0, 1, 2}"
  by (cases err) (auto simp: record_err_def correct_def split: if_splits)

lemma record_err_agree:
  assumes "record_err no err = Some err'" "agree d h P err" "length h = 32" "unat no \<notin> P"
    and "buf_bit d (unat no) \<noteq> buf_bit h (unat no)"
  shows "agree d h (insert (unat no) P) err'"
proof -
  have c: "correct err' h = flip_no no (correct err h)" "fst err' \<in> {0, 1, 2}"
    using record_err_correct [OF assms(1)] assms(2) by (auto simp: agree_def)
  have "buf_bit (correct err' h) k = (if k \<in> insert (unat no) P then buf_bit d k else buf_bit h k)" if k: "k < 256" for k
  proof -
    have "k div 8 < 32" using k by (simp add: less_mult_imp_div_less)
    then have "buf_bit (correct err' h) k \<longleftrightarrow> buf_bit (correct err h) k \<noteq> (k = unat no)"
      using flip_no_bit [of no "correct err h" k] u8_div_8 assms(3) c(1) by simp
    then show ?thesis using assms(2,4,5) k by (auto simp: agree_def)
  qed
  then show ?thesis using c(2) by (simp add: agree_def)
qed

lemma and_bit_eq:
  fixes d b :: u8
  assumes "j < 8"
  shows "(d AND push_bit j 1 = b AND push_bit j 1) \<longleftrightarrow> (bit d j \<longleftrightarrow> bit b j)"
proof
  assume "d AND push_bit j 1 = b AND push_bit j 1"
  then have "bit (d AND push_bit j 1) j = bit (b AND push_bit j 1) j" by simp
  then show "bit d j \<longleftrightarrow> bit b j" using assms by (simp add: bit_and_iff bit_exp_iff)
next
  assume a: "bit d j \<longleftrightarrow> bit b j"
  show "d AND push_bit j 1 = b AND push_bit j 1"
    by (rule bit_word_eqI) (use a in \<open>auto simp: bit_and_iff bit_exp_iff\<close>)
qed

lemma bit_number: "byte < 32 \<Longrightarrow> j < 8 \<Longrightarrow> unat (push_bit 3 (of_nat byte) + of_nat j :: u8) = 8 * byte + j"
  by (simp add: unat_word_ariths push_bit_eq_mult unat_of_nat)

lemma hash_cmp_bits_agree:
  assumes "hash_cmp_bits (d ! byte) (h ! byte) byte js err = Some err'" "agree d h P err" "length h = 32" "byte < 32"
    and "set js \<subseteq> {..<8}" "distinct js" "\<forall>j \<in> set js. 8 * byte + j \<notin> P"
  shows "agree d h (P \<union> (\<lambda>j. 8 * byte + j) ` set js) err'"
  using assms
proof (induction js arbitrary: err P)
  case (Cons j js)
  have j: "j < 8" and js: "set js \<subseteq> {..<8}" "distinct js" "j \<notin> set js" using Cons.prems(5,6) by auto
  have num: "(8 * byte + j) div 8 = byte" "(8 * byte + j) mod 8 = j" using j by simp_all
  have rest: "\<forall>i \<in> set js. 8 * byte + i \<notin> insert (8 * byte + j) P" using Cons.prems(7) js(3) by auto
  have set: "P \<union> (\<lambda>j. 8 * byte + j) ` set (j # js) = insert (8 * byte + j) P \<union> (\<lambda>j. 8 * byte + j) ` set js" by auto
  show ?case
  proof (cases "bit (d ! byte) j \<longleftrightarrow> bit (h ! byte) j")
    case True
    then have "hash_cmp_bits (d ! byte) (h ! byte) byte js err = Some err'"
      using Cons.prems(1) and_bit_eq [OF j] by (simp add: hash_cmp_bits_step)
    moreover have "agree d h (insert (8 * byte + j) P) err"
      using Cons.prems(2) True num by (auto simp: agree_def buf_bit_def)
    ultimately show ?thesis using Cons.IH [of err "insert (8 * byte + j) P"] Cons.prems(3,4) js(1,2) rest unfolding set by blast
  next
    case False
    let ?no = "push_bit 3 (of_nat byte) + of_nat j :: u8"
    obtain err1 where e: "record_err ?no err = Some err1" "hash_cmp_bits (d ! byte) (h ! byte) byte js err1 = Some err'"
      using Cons.prems(1) False and_bit_eq [OF j, of "d ! byte" "h ! byte"] by (auto simp: hash_cmp_bits_step bind_Some_iff)
    have "agree d h (insert (8 * byte + j) P) err1"
      using record_err_agree [OF e(1) Cons.prems(2,3)] bit_number [OF Cons.prems(4) j] Cons.prems(7) False num
      by (simp add: buf_bit_def)
    then show ?thesis using Cons.IH [of err1 "insert (8 * byte + j) P"] e(2) Cons.prems(3,4) js(1,2) rest unfolding set by blast
  qed
qed simp

lemma hash_cmp_bytes_agree:
  assumes "hash_cmp_bytes d h bs err = Some err'" "agree d h P err" "length h = 32" "set bs \<subseteq> {..<32}" "distinct bs"
    and "\<forall>k \<in> P. k div 8 \<notin> set bs"
  shows "agree d h (P \<union> {k. k div 8 \<in> set bs}) err'"
  using assms
proof (induction bs arbitrary: err P)
  case (Cons b bs)
  let ?Q = "P \<union> {k. k div 8 = b}"
  have b: "b < 32" and bs: "set bs \<subseteq> {..<32}" "distinct bs" "b \<notin> set bs" using Cons.prems(4,5) by auto
  have Q: "\<forall>k \<in> ?Q. k div 8 \<notin> set bs" using Cons.prems(6) bs(3) by auto
  have set: "P \<union> {k. k div 8 \<in> set (b # bs)} = ?Q \<union> {k. k div 8 \<in> set bs}" by auto
  obtain err1 where e: "agree d h ?Q err1" "hash_cmp_bytes d h bs err1 = Some err'"
  proof (cases "d ! b = h ! b")
    case True
    then have "agree d h ?Q err" using Cons.prems(2) by (auto simp: agree_def buf_bit_def)
    then show ?thesis using that [of err] Cons.prems(1) True by simp
  next
    case False
    then obtain err1 where e: "hash_cmp_bits (d ! b) (h ! b) b [0..<8] err = Some err1" "hash_cmp_bytes d h bs err1 = Some err'"
      using Cons.prems(1) by (auto simp: bind_Some_iff simp del: upt_rec_numeral)
    have "\<forall>j \<in> set [0..<8]. 8 * b + j \<notin> P"
    proof
      fix j :: nat assume "j \<in> set [0..<8]"
      then have "(8 * b + j) div 8 = b" by simp
      then show "8 * b + j \<notin> P" using Cons.prems(6) by fastforce
    qed
    then have "agree d h (P \<union> (\<lambda>j. 8 * b + j) ` set [0..<8]) err1"
      by (intro hash_cmp_bits_agree [OF e(1) Cons.prems(2,3) b]) auto
    moreover have "(\<lambda>j. 8 * b + j) ` set [0..<8] = {k. k div 8 = b}"
    proof (intro set_eqI iffI)
      fix k assume "k \<in> {k. k div 8 = b}"
      then have "k = 8 * b + k mod 8" "k mod 8 \<in> set [0..<8]" by (auto simp: mult_div_mod_eq [symmetric] simp del: mult_div_mod_eq)
      then show "k \<in> (\<lambda>j. 8 * b + j) ` set [0..<8]" by blast
    qed auto
    ultimately show ?thesis using that [of err1] e(2) by simp
  qed
  show ?case using Cons.IH [OF e(2,1) Cons.prems(3) bs(1,2) Q] unfolding set .
qed simp

lemma boot_hash_cmp_correct:
  assumes "efpg_boot_hash_cmp d h = Some err" "32 \<le> length d" "length h = 32"
  shows "correct err h = take 32 d \<and> fst err \<in> {0, 1, 2}"
proof (cases "take 32 d = h")
  case True
  then show ?thesis using assms by (auto simp: efpg_boot_hash_cmp_def correct_def)
next
  case False
  then have "hash_cmp_bytes d h [0..<32] (0, 0, 0) = Some err"
    using assms by (simp add: efpg_boot_hash_cmp_def del: upt_rec_numeral)
  moreover have "agree d h {} (0, 0, 0)" by (simp add: agree_def correct_def)
  ultimately have a: "agree d h ({} \<union> {k. k div 8 \<in> set [0..<32]}) err"
    by (rule hash_cmp_bytes_agree) (use assms(3) in auto)
  have "correct err h = take 32 d"
  proof (rule buf_eqI)
    fix k assume "k < 8 * length (correct err h)"
    then have k: "k < 256" "k div 8 \<in> set [0..<32]" "k div 8 < 32" using assms(3) by (simp_all add: less_mult_imp_div_less del: upt_rec_numeral)
    then show "buf_bit (correct err h) k = buf_bit (take 32 d) k" using a by (simp add: agree_def buf_bit_def del: upt_rec_numeral)
  qed (use assms in simp)
  then show ?thesis using a by (simp add: agree_def)
qed

section \<open>Writing and reading the hash\<close>

definition errs_recorded :: "hash_err \<Rightarrow> (nat \<Rightarrow> bool) \<Rightarrow> (nat \<Rightarrow> bool) \<Rightarrow> bool" where
  "errs_recorded err f f' = (case err of (cnt, n1, n2) \<Rightarrow>
     if cnt = 0 then f' 391 = f 391
     else f' 391 \<and> fuse_bytes f' 392 8 = [n1] \<and> (if cnt = 1 then f' 400 = f 400 else f' 400 \<and> fuse_bytes f' 401 8 = [n2]))"

text \<open>What reading delivers.\<close>

definition boot_value :: "(nat \<Rightarrow> bool) \<Rightarrow> u8 list" where
  "boot_value f = (let h = fuse_bytes f 409 256 in
     if \<not> f 391 then h else let h = flip_no (hd (fuse_bytes f 392 8)) h in
     if \<not> f 400 then h else flip_no (hd (fuse_bytes f 401 8)) h)"

lemma boot_value_recorded:
  assumes "errs_recorded err f f'" "\<not> f 391" "\<not> f 400" "fst err \<in> {0, 1, 2}"
  shows "boot_value f' = correct err (fuse_bytes f' 409 256)"
  using assms by (cases err) (auto simp: errs_recorded_def boot_value_def correct_def split: if_splits)

lemma fuse_bytes_two: "hd (fuse_bytes f a 2) = 0 \<longleftrightarrow> \<not> f a \<and> \<not> f (Suc a)"
proof -
  have "length (fuse_bytes f a 2) = 1" by simp
  then obtain b where b: "fuse_bytes f a 2 = [b]" by (metis One_nat_def length_0_conv length_Suc_conv)
  have "bit b k = (k < 2 \<and> f (a + k))" if "k < 8" for k
    using fuse_bytes_bit [of k 2 f a] that by (simp add: b buf_bit_def)
  then have "b = 0 \<longleftrightarrow> (\<forall>k < 8. \<not> (k < 2 \<and> f (a + k)))" by (auto simp: bit_eq_iff)
  also have "\<dots> \<longleftrightarrow> (\<forall>k < 2. \<not> f (a + k))" by auto
  also have "\<dots> \<longleftrightarrow> \<not> f a \<and> \<not> f (Suc a)" by (auto simp: numeral_2_eq_2 All_less_Suc)
  finally show ?thesis by (simp add: b)
qed

context fuse_store
begin

lemma put_byte_sure:
  assumes "idle s" "unat a + unat n \<le> 1024" "n = 1 \<and> v = 1 \<or> n = 8"
  shows "\<exists>ack s'. put_byte F a n v s = Some (ack, s') \<and> idle s' \<and> grows {unat a..<unat a + unat n} (fuses s) (fuses s') \<and>
     (ack = EFPG_ACK_OK \<longrightarrow> fuse_bytes (fuses s') (unat a) (unat n) = [v])"
proof -
  have n: "n \<noteq> 0" "(unat n - 1) div 8 < length [v]" "(unat n + 7) div 8 = 1" using assms(3) by auto
  obtain w s' where r: "read_back F a n [v] [v] s = Some (True, w, fuse_bytes (fuses s') (unat a) (unat n), s')"
    "idle s'" "cut_bits (unat n) [v] w" "grows {unat a..<unat a + unat n} (fuses s) (fuses s')"
    using read_back_sure [OF assms(1) n(1) assms(2) n(2), of "[v]"] n(3) by auto
  have "w = [v]" using r(3) assms(3) cut_bits_flag cut_bits_full [of 8 "[v]" w] by auto
  moreover obtain b where "fuse_bytes (fuses s') (unat a) (unat n) = [b]"
    using n(3) by (metis One_nat_def length_0_conv length_Suc_conv length_fuse_bytes)
  ultimately show ?thesis using r by (simp add: put_byte_def)
qed

lemma write_hash_errs_sure:
  assumes "idle s" "fst err \<in> {0, 1, 2}"
  shows "\<exists>ack s'. write_hash_errs F err s = Some (ack, s') \<and> idle s' \<and> grows {391..<409} (fuses s) (fuses s') \<and>
     (ack = EFPG_ACK_OK \<longrightarrow> errs_recorded err (fuses s) (fuses s'))"
proof -
  obtain cnt n1 n2 where err: "err = (cnt, n1, n2)" by (cases err)
  let ?S = "{391..<409} :: nat set"
  show ?thesis
  proof (cases "cnt = 0")
    case True
    then show ?thesis using assms(1) by (simp add: write_hash_errs_def err errs_recorded_def)
  next
    case cnt: False
    obtain a1 s1 where 1: "put_byte F 391 1 1 s = Some (a1, s1)" "idle s1" "grows {391..<392} (fuses s) (fuses s1)"
      "a1 = EFPG_ACK_OK \<longrightarrow> fuse_bytes (fuses s1) 391 1 = [1]"
      using put_byte_sure [OF assms(1), of 391 1 1] by auto
    have g1: "grows ?S (fuses s) (fuses s1)" by (rule grows_mono [OF 1(3)]) auto
    obtain a2 s2 where 2: "put_byte F 392 8 n1 s1 = Some (a2, s2)" "idle s2" "grows {392..<400} (fuses s1) (fuses s2)"
      "a2 = EFPG_ACK_OK \<longrightarrow> fuse_bytes (fuses s2) 392 8 = [n1]"
      using put_byte_sure [OF 1(2), of 392 8 n1] by auto
    have g2: "grows ?S (fuses s) (fuses s2)" by (rule grows_join [OF g1]) (rule grows_mono [OF 2(3)], auto)
    obtain a3 s3 where 3: "put_byte F 400 1 1 s2 = Some (a3, s3)" "idle s3" "grows {400..<401} (fuses s2) (fuses s3)"
      "a3 = EFPG_ACK_OK \<longrightarrow> fuse_bytes (fuses s3) 400 1 = [1]"
      using put_byte_sure [OF 2(2), of 400 1 1] by auto
    have g3: "grows ?S (fuses s) (fuses s3)" by (rule grows_join [OF g2]) (rule grows_mono [OF 3(3)], auto)
    obtain a4 s4 where 4: "put_byte F 401 8 n2 s3 = Some (a4, s4)" "idle s4" "grows {401..<409} (fuses s3) (fuses s4)"
      "a4 = EFPG_ACK_OK \<longrightarrow> fuse_bytes (fuses s4) 401 8 = [n2]"
      using put_byte_sure [OF 3(2), of 401 8 n2] by auto
    have g4: "grows ?S (fuses s) (fuses s4)" by (rule grows_join [OF g3]) (rule grows_mono [OF 4(3)], auto)
    consider "a1 \<noteq> EFPG_ACK_OK" | "a1 = EFPG_ACK_OK" "a2 \<noteq> EFPG_ACK_OK" | "a1 = EFPG_ACK_OK" "a2 = EFPG_ACK_OK" "cnt \<noteq> 2"
      | "a1 = EFPG_ACK_OK" "a2 = EFPG_ACK_OK" "cnt = 2" "a3 \<noteq> EFPG_ACK_OK"
      | "a1 = EFPG_ACK_OK" "a2 = EFPG_ACK_OK" "cnt = 2" "a3 = EFPG_ACK_OK" by blast
    then show ?thesis
    proof cases
      case 1
      then show ?thesis using \<open>put_byte F 391 1 1 s = Some (a1, s1)\<close> \<open>idle s1\<close> g1 cnt
        by (simp add: write_hash_errs_def err word_gt_0)
    next
      case c2: 2
      then show ?thesis using 1(1) 2(1,2) g2 cnt by (simp add: write_hash_errs_def err word_gt_0)
    next
      case c3: 3
      then have one: "cnt = 1" using assms(2) cnt by (auto simp: err)
      have "fuses s2 391" "fuses s2 400 = fuses s 400"
        using 1(3,4) 2(3) c3(1) grows_outside [OF 1(3), of 400] grows_outside [OF 2(3), of 391] grows_outside [OF 2(3), of 400]
        by (auto split: if_splits)
      then have "errs_recorded err (fuses s) (fuses s2)" using 2(4) c3(2) one by (simp add: errs_recorded_def err)
      then show ?thesis using 1(1) 2(1,2) c3 g2 cnt by (simp add: write_hash_errs_def err word_gt_0)
    next
      case c4: 4
      then show ?thesis using 1(1) 2(1) 3(1,2) g3 cnt by (simp add: write_hash_errs_def err word_gt_0)
    next
      case c5: 5
      have "fuses s4 391 = fuses s1 391" "fuses s4 400 = fuses s3 400"
        using grows_outside [OF 2(3), of 391] grows_outside [OF 3(3), of 391] grows_outside [OF 4(3), of 391] grows_outside [OF 4(3), of 400]
        by auto
      moreover have "fuse_bytes (fuses s4) 392 8 = fuse_bytes (fuses s2) 392 8"
        using grows_bytes [OF 3(3), of 392 8] grows_bytes [OF 4(3), of 392 8] by simp
      ultimately have "a4 = EFPG_ACK_OK \<longrightarrow> errs_recorded err (fuses s) (fuses s4)"
        using 1(4) 2(4) 3(4) 4(4) c5 by (auto simp: errs_recorded_def err split: if_splits)
      then show ?thesis using 1(1) 2(1) 3(1) 4(1,2) c5 g4 cnt by (simp add: write_hash_errs_def err word_gt_0)
    qed
  qed
qed

lemma write_boot_sure:
  assumes "idle s" "32 \<le> length data"
  shows "\<exists>ack s'. efpg_write_boot F data s = Some (ack, data, s') \<and> idle s' \<and> grows {389..<665} (fuses s) (fuses s') \<and>
     (ack = EFPG_ACK_OK \<and> \<not> fuses s 391 \<and> \<not> fuses s 400 \<longrightarrow>
        (fuses s' 389 \<or> fuses s' 390) \<and> boot_value (fuses s') = take 32 data)"
proof -
  let ?S = "{389..<665} :: nat set"
  obtain d s1 where 1: "read_back F 409 256 data (replicate 32 0) s = Some (True, d, fuse_bytes (fuses s1) 409 256, s1)" "idle s1"
    "cut_bits 256 data d" "grows {409..<665} (fuses s) (fuses s1)"
    using read_back_sure [OF assms(1), of 256 409 data "replicate 32 0"] assms(2) by auto
  have d: "d = data" using cut_bits_full [OF 1(3)] by simp
  let ?h = "fuse_bytes (fuses s1) 409 256"
  have g1: "grows ?S (fuses s) (fuses s1)" by (rule grows_mono [OF 1(4)]) auto
  show ?thesis
  proof (cases "efpg_boot_hash_cmp data ?h")
    case None
    then show ?thesis using 1(1,2) g1 d by (simp add: efpg_write_boot_def)
  next
    case (Some err)
    have c: "correct err ?h = take 32 data" "fst err \<in> {0, 1, 2}"
      using boot_hash_cmp_correct [OF Some assms(2)] by simp_all
    obtain a2 s2 where 2: "write_hash_errs F err s1 = Some (a2, s2)" "idle s2" "grows {391..<409} (fuses s1) (fuses s2)"
      "a2 = EFPG_ACK_OK \<longrightarrow> errs_recorded err (fuses s1) (fuses s2)"
      using write_hash_errs_sure [OF 1(2) c(2)] by blast
    have g2: "grows ?S (fuses s) (fuses s2)" by (rule grows_join [OF g1]) (rule grows_mono [OF 2(3)], auto)
    show ?thesis
    proof (cases "a2 = EFPG_ACK_OK")
      case False
      then show ?thesis using 1(1) 2(1,2) g2 d Some by (simp add: efpg_write_boot_def)
    next
      case True
      obtain w s3 where 3: "read_back F 389 2 [3] [3] s2 = Some (True, w, fuse_bytes (fuses s3) 389 2, s3)" "idle s3"
        "grows {389..<391} (fuses s2) (fuses s3)"
        using read_back_sure [OF 2(2), of 2 389 "[3]" "[3]"] by auto
      have g3: "grows ?S (fuses s) (fuses s3)" by (rule grows_join [OF g2]) (rule grows_mono [OF 3(3)], auto)
      have w: "efpg_write_boot F data s = Some (if hd (fuse_bytes (fuses s3) 389 2) = 0 then EFPG_ACK_DI_ERR else EFPG_ACK_OK, data, s3)"
        using 1(1) 2(1) 3(1) d Some True by (simp add: efpg_write_boot_def)
      have "boot_value (fuses s3) = take 32 data" if blank: "\<not> fuses s 391" "\<not> fuses s 400"
      proof -
        have "fuses s3 391 = fuses s2 391" "fuses s3 400 = fuses s2 400"
          using grows_outside [OF 3(3), of 391] grows_outside [OF 3(3), of 400] by simp_all
        then have "boot_value (fuses s3) = boot_value (fuses s2)"
          using grows_bytes [OF 3(3), of 409 256] grows_bytes [OF 3(3), of 392 8] grows_bytes [OF 3(3), of 401 8]
          by (simp add: boot_value_def Let_def)
        also have "\<dots> = correct err (fuse_bytes (fuses s2) 409 256)"
          using boot_value_recorded [of err "fuses s1" "fuses s2"] 2(4) True c(2) blank grows_outside [OF 1(4), of 391]
            grows_outside [OF 1(4), of 400] by simp
        also have "\<dots> = take 32 data" using grows_bytes [OF 2(3), of 409 256] c(1) by simp
        finally show ?thesis .
      qed
      then show ?thesis using w 3(2) g3 fuse_bytes_two [of "fuses s3" 389] by simp
    qed
  qed
qed

lemma read_byte:
  assumes "idle s" "n = 1 \<or> n = 2 \<or> n = 8" "unat a + unat n \<le> 1024"
  shows "\<exists>s'. fi_read F a n [x] s = Some (HAL_OK, [hd (fuse_bytes (fuses s) (unat a) (unat n))], s') \<and> idle s' \<and> fuses s' = fuses s"
proof -
  have n: "n \<noteq> 0" "(unat n + 7) div 8 = 1" using assms(2) by auto
  obtain b where "fuse_bytes (fuses s) (unat a) (unat n) = [b]"
    using n(2) by (metis One_nat_def length_0_conv length_Suc_conv length_fuse_bytes)
  then show ?thesis using read_law [OF assms(1) n(1) assms(3), of "[x]"] n(2) by auto
qed

lemma read_boot_sure:
  assumes "idle s" "32 \<le> length buf" "fuses s 389 \<or> fuses s 390"
  shows "\<exists>s'. efpg_read_boot F buf s = Some (EFPG_ACK_OK, boot_value (fuses s) @ drop 32 buf, s') \<and> idle s' \<and> fuses s' = fuses s"
proof -
  let ?f = "fuses s"
  obtain s1 where 1: "fi_read F 389 2 [0] s = Some (HAL_OK, [hd (fuse_bytes ?f 389 2)], s1)" "idle s1" "fuses s1 = ?f"
    using read_byte [OF assms(1), of 2 389 0] by auto
  have nz: "hd (fuse_bytes ?f 389 2) \<noteq> 0" using fuse_bytes_two [of ?f 389] assms(3) by simp
  let ?h = "fuse_bytes ?f 409 256"
  obtain s2 where 2: "fi_read F 409 256 buf s1 = Some (HAL_OK, ?h @ drop 32 buf, s2)" "idle s2" "fuses s2 = ?f"
    using read_law [OF 1(2), of 256 409 buf] assms(2) 1(3) by auto
  have b: "\<exists>s'. fi_read F a n [x] t = Some (HAL_OK, [hd (fuse_bytes ?f (unat a) (unat n))], s') \<and> idle s' \<and> fuses s' = ?f"
    if "idle t" "fuses t = ?f" "n = 1 \<or> n = 2 \<or> n = 8" "unat a + unat n \<le> 1024" for a n x t
    using read_byte [OF that(1,3,4)] that(2) by simp
  obtain s3 where 3: "fi_read F 391 1 [hd (fuse_bytes ?f 389 2)] s2 = Some (HAL_OK, [if ?f 391 then 1 else 0], s3)" "idle s3" "fuses s3 = ?f"
    using b [OF 2(2,3), of 1 391] by auto
  obtain s4 where 4: "fi_read F 392 8 [1] s3 = Some (HAL_OK, [hd (fuse_bytes ?f 392 8)], s4)" "idle s4" "fuses s4 = ?f"
    using b [OF 3(2,3), of 8 392] by auto
  obtain s5 where 5: "fi_read F 400 1 [hd (fuse_bytes ?f 392 8)] s4 = Some (HAL_OK, [if ?f 400 then 1 else 0], s5)" "idle s5" "fuses s5 = ?f"
    using b [OF 4(2,3), of 1 400] by auto
  obtain s6 where 6: "fi_read F 401 8 [1] s5 = Some (HAL_OK, [hd (fuse_bytes ?f 401 8)], s6)" "idle s6" "fuses s6 = ?f"
    using b [OF 5(2,3), of 8 401] by auto
  have flip: "flip_no t (x @ drop 32 buf) = flip_no t x @ drop 32 buf" if "length x = 32" for t x
    using flip_no_append [of t x] u8_div_8 that by simp
  consider "\<not> ?f 391" | "?f 391" "\<not> ?f 400" | "?f 391" "?f 400" by blast
  then show ?thesis
  proof cases
    case c1: 1
    then show ?thesis using 1(1) nz 2(1) 3 by (simp add: efpg_read_boot_def boot_value_def)
  next
    case c2: 2
    then show ?thesis using 1(1) nz 2(1) 3(1) 4(1) 5 by (simp add: efpg_read_boot_def boot_value_def flip)
  next
    case c3: 3
    then show ?thesis using 1(1) nz 2(1) 3(1) 4(1) 5(1) 6 by (simp add: efpg_read_boot_def boot_value_def flip)
  qed
qed

end

section \<open>All fields\<close>

text \<open>The bits of a field.\<close>

definition field_bits :: "efpg_field_t \<Rightarrow> u16 \<Rightarrow> u16 \<Rightarrow> nat set" where
  "field_bits fld start num = (case fld of
     EFPG_FIELD_HOSC \<Rightarrow> {385..<389}
   | EFPG_FIELD_BOOT \<Rightarrow> {389..<665}
   | EFPG_FIELD_MAC_WLAN \<Rightarrow> {665..<714}
   | EFPG_FIELD_MAC_BT \<Rightarrow> {714..<763}
   | EFPG_FIELD_DCXO \<Rightarrow> {763..<772}
   | EFPG_FIELD_POUT_WLAN \<Rightarrow> {772..<794}
   | EFPG_FIELD_POUT_BT \<Rightarrow> {794..<816}
   | EFPG_FIELD_CHIPID \<Rightarrow> {128..<256}
   | EFPG_FIELD_SECRETKEY \<Rightarrow> {256..<384}
   | EFPG_FIELD_SECURESWD \<Rightarrow> {384}
   | EFPG_FIELD_UA \<Rightarrow> (if user_area_bad start num then {} else {816 + unat start..<816 + unat start + unat num})
   | EFPG_FIELD_ALL \<Rightarrow> {} | EFPG_FIELD_NUM \<Rightarrow> {})"

text \<open>The bytes of a field's value.\<close>

definition field_len :: "efpg_field_t \<Rightarrow> u16 \<Rightarrow> nat" where
  "field_len fld num = (case fld of
     EFPG_FIELD_HOSC \<Rightarrow> 1 | EFPG_FIELD_BOOT \<Rightarrow> 32 | EFPG_FIELD_MAC_WLAN \<Rightarrow> 6 | EFPG_FIELD_MAC_BT \<Rightarrow> 6 | EFPG_FIELD_DCXO \<Rightarrow> 1
   | EFPG_FIELD_POUT_WLAN \<Rightarrow> 3 | EFPG_FIELD_POUT_BT \<Rightarrow> 3 | EFPG_FIELD_CHIPID \<Rightarrow> 16 | EFPG_FIELD_SECRETKEY \<Rightarrow> 16
   | EFPG_FIELD_SECURESWD \<Rightarrow> 1 | EFPG_FIELD_UA \<Rightarrow> (unat num + 7) div 8 | EFPG_FIELD_ALL \<Rightarrow> 0 | EFPG_FIELD_NUM \<Rightarrow> 0)"

text \<open>The fields whose writing is verified by the code.\<close>

definition verified_field :: "efpg_field_t \<Rightarrow> bool" where
  "verified_field fld \<longleftrightarrow> fld \<notin> {EFPG_FIELD_UA, EFPG_FIELD_ALL, EFPG_FIELD_NUM}"

definition field_width :: "efpg_field_t \<Rightarrow> nat" where
  "field_width fld = (case fld of
     EFPG_FIELD_HOSC \<Rightarrow> 4 | EFPG_FIELD_BOOT \<Rightarrow> 256 | EFPG_FIELD_MAC_WLAN \<Rightarrow> 48 | EFPG_FIELD_MAC_BT \<Rightarrow> 48 | EFPG_FIELD_DCXO \<Rightarrow> 8
   | EFPG_FIELD_POUT_WLAN \<Rightarrow> 21 | EFPG_FIELD_POUT_BT \<Rightarrow> 21 | EFPG_FIELD_CHIPID \<Rightarrow> 128 | EFPG_FIELD_SECRETKEY \<Rightarrow> 128
   | EFPG_FIELD_SECURESWD \<Rightarrow> 1 | EFPG_FIELD_UA \<Rightarrow> 0 | EFPG_FIELD_ALL \<Rightarrow> 0 | EFPG_FIELD_NUM \<Rightarrow> 0)"

lemma cut_bits_refl_full:
  assumes "n mod 8 = 0" "0 < n" "n \<le> 8 * length d"
  shows "cut_bits n d d"
proof -
  have "k < n" if "k div 8 = (n - 1) div 8" for k
  proof -
    obtain q where q: "n = 8 * q" using assms(1) by auto
    then have "(n - 1) div 8 = q - 1" using assms(2) by (cases q) simp_all
    then have "k div 8 < q" using that q assms(2) by simp
    then show ?thesis using q by (simp add: div_less_iff_less_mult mult.commute)
  qed
  then show ?thesis by (auto simp: cut_bits_def)
qed

lemma swd_bits: "{384..<385 :: nat} = {384}"
  by auto

context fuse_store
begin

text \<open>
  The field's value has been read back: \<open>d\<close> is what every later reading delivers.
\<close>

definition reads_back :: "efpg_field_t \<Rightarrow> u8 list \<Rightarrow> 's \<Rightarrow> bool" where
  "reads_back fld d s \<longleftrightarrow> (\<forall>buf a b. field_len fld 0 \<le> length buf \<longrightarrow>
     (\<exists>s'. efpg_read_field F fld buf a b s = Some (EFPG_ACK_OK, take (field_len fld 0) d @ drop (field_len fld 0) buf, s')))"

definition write_post :: "efpg_field_t \<Rightarrow> u8 list \<Rightarrow> nat set \<Rightarrow> 's \<Rightarrow> 's ack_res \<Rightarrow> bool" where
  "write_post fld data S s res \<longleftrightarrow> (\<exists>ack d s'. res = Some (ack, d, s') \<and> idle s' \<and> length d = length data \<and>
     grows S (fuses s) (fuses s') \<and>
     (ack = EFPG_ACK_OK \<and> verified_field fld \<and> (fld = EFPG_FIELD_BOOT \<longrightarrow> \<not> fuses s 391 \<and> \<not> fuses s 400) \<longrightarrow>
        cut_bits (field_width fld) data d \<and> reads_back fld d s'))"

lemma plain_post:
  assumes "idle s" "n \<noteq> 0" "unat a + unat n \<le> 1024" "len = (unat n + 7) div 8" "len \<le> length data"
    and fld: "field_len fld 0 = len" "field_width fld = unat n"
    and "efpg_read_field F fld = (\<lambda>buf x y. read_plain F a n buf)"
  shows "write_post fld data {unat a..<unat a + unat n} s (write_plain F a n len data s)"
proof -
  obtain ack d s' where w: "write_plain F a n len data s = Some (ack, d, s')" "idle s'" "cut_bits (unat n) data d"
    "grows {unat a..<unat a + unat n} (fuses s) (fuses s')"
    "ack = EFPG_ACK_OK \<longrightarrow> take len d = fuse_bytes (fuses s') (unat a) (unat n)"
    using write_plain_sure [OF assms(1-5)] by blast
  have "reads_back fld d s'" if "ack = EFPG_ACK_OK"
    unfolding reads_back_def assms(8) fld using read_plain_sure [OF w(2) assms(2,3)] w(5) that assms(4) by fastforce
  then show ?thesis using w fld by (auto simp: write_post_def cut_bits_def)
qed

lemma region_post:
  assumes "idle s" "one_slot info" "buf_len info \<le> length data"
    and fld: "field_len fld 0 = buf_len info" "field_width fld = unat (data_bits info)"
    and "efpg_read_field F fld = (\<lambda>buf x y. efpg_read_region F info buf)"
  shows "write_post fld data (region_range info) s (efpg_write_region F info data s)"
proof -
  obtain ack d s' where w: "efpg_write_region F info data s = Some (ack, d, s')" "idle s'" "length d = length data"
    "grows (region_range info) (fuses s) (fuses s')"
    "ack = EFPG_ACK_OK \<longrightarrow> cut_bits (unat (data_bits info)) data d \<and> region_holds info d (fuses s')"
    using write_region_sure [OF assms(1-3)] by blast
  have "reads_back fld d s'" if "ack = EFPG_ACK_OK"
    unfolding reads_back_def assms(6) fld using read_region_sure [OF w(2) assms(2)] w(5) that by blast
  then show ?thesis using w fld by (auto simp: write_post_def)
qed

lemma version_sure:
  assumes "idle s"
  shows "\<exists>s'. efpg_read_efuse_ver F s = Some (EFPG_ACK_OK, fuse_bytes (fuses s) 0 4, s') \<and> idle s' \<and> fuses s' = fuses s"
  using read_law [OF assms, of 4 0 "[0]"] by (auto simp: efpg_read_efuse_ver_def)

lemma wlan_mac_post:
  assumes "idle s" "6 \<le> length data"
  shows "write_post EFPG_FIELD_MAC_WLAN data {665..<714} s (efpg_write_mac F EFPG_MAC_WLAN data s)"
proof -
  let ?i = first_mac_region
  have i: "buf_len ?i = 6" "unat (data_bits ?i) = 48" "unat (flag_start ?i) = 665" "unat (data_start ?i) = 666"
    by (simp_all add: first_mac_region_def)
  let ?old = "hd (fuse_bytes (fuses s) 0 4) < 2"
  let ?in = "if ?old then rev (take 6 data) else data"
  obtain s1 where 1: "efpg_read_efuse_ver F s = Some (EFPG_ACK_OK, fuse_bytes (fuses s) 0 4, s1)" "idle s1" "fuses s1 = fuses s"
    using version_sure [OF assms(1)] by blast
  obtain ack d s2 where 2: "efpg_write_region F ?i ?in s1 = Some (ack, d, s2)" "idle s2" "length d = length ?in"
    "grows {665..<714} (fuses s) (fuses s2)" "ack = EFPG_ACK_OK \<longrightarrow> cut_bits 48 ?in d \<and> region_holds ?i d (fuses s2)"
  proof -
    have L: "buf_len ?i \<le> length ?in" using assms(2) i(1) by simp
    obtain ack d s2 where "efpg_write_region F ?i ?in s1 = Some (ack, d, s2)" "idle s2" "length d = length ?in"
      "grows (region_range ?i) (fuses s1) (fuses s2)"
      "ack = EFPG_ACK_OK \<longrightarrow> cut_bits (unat (data_bits ?i)) ?in d \<and> region_holds ?i d (fuses s2)"
      using write_region_sure [OF 1(2) regions_one_slot(4) L] by blast
    then show ?thesis using that by (simp add: i 1(3))
  qed
  have dd: "d = ?in" if "ack = EFPG_ACK_OK" using 2(5) that cut_bits_full [of 48 ?in d] by simp
  have w: "efpg_write_mac F EFPG_MAC_WLAN data s =
      Some (if ack = EFPG_ACK_OK then EFPG_ACK_OK else EFPG_ACK_NODATA_ERR, if ?old then data else d, s2)"
    using 1(1) 2(1) by (auto simp: efpg_write_mac_def write_first_wlan_mac_def)
  have "reads_back EFPG_FIELD_MAC_WLAN data s2" if ok: "ack = EFPG_ACK_OK"
  proof -
    have "\<exists>s'. efpg_read_field F EFPG_FIELD_MAC_WLAN buf a b s2 = Some (EFPG_ACK_OK, take 6 data @ drop 6 buf, s')"
      if buf: "6 \<le> length buf" for buf a b
    proof -
      have ver: "fuse_bytes (fuses s2) 0 4 = fuse_bytes (fuses s) 0 4" using grows_bytes [OF 2(4), of 0 4] by simp
      obtain s3 where 3: "efpg_read_efuse_ver F s2 = Some (EFPG_ACK_OK, fuse_bytes (fuses s) 0 4, s3)" "idle s3" "fuses s3 = fuses s2"
        using version_sure [OF 2(2)] ver by auto
      obtain s4 where "efpg_read_region F ?i buf s3 = Some (EFPG_ACK_OK, take 6 ?in @ drop 6 buf, s4)"
        using read_region_sure [OF 3(2) regions_one_slot(4), of buf ?in] 2(5) dd ok i(1) buf 3(3) by auto
      then show ?thesis
        using 3(1) assms(2) by (auto simp: efpg_read_field_def efpg_read_mac_def read_first_wlan_mac_def)
    qed
    then show ?thesis by (simp add: reads_back_def field_len_def)
  qed
  moreover have "cut_bits 48 data data" using cut_bits_refl_full [of 48 data] assms(2) by simp
  ultimately show ?thesis
    using w 2 dd by (cases ?old) (auto simp: write_post_def field_width_def cut_bits_def)
qed

lemma boot_post:
  assumes "idle s" "32 \<le> length data"
  shows "write_post EFPG_FIELD_BOOT data {389..<665} s (efpg_write_boot F data s)"
proof -
  obtain ack s' where w: "efpg_write_boot F data s = Some (ack, data, s')" "idle s'" "grows {389..<665} (fuses s) (fuses s')"
    "ack = EFPG_ACK_OK \<and> \<not> fuses s 391 \<and> \<not> fuses s 400 \<longrightarrow>
        (fuses s' 389 \<or> fuses s' 390) \<and> boot_value (fuses s') = take 32 data"
    using write_boot_sure [OF assms] by blast
  have "reads_back EFPG_FIELD_BOOT data s'" if "ack = EFPG_ACK_OK" "\<not> fuses s 391" "\<not> fuses s 400"
    using read_boot_sure [OF w(2)] w(4) that by (fastforce simp: reads_back_def field_len_def efpg_read_field_def)
  moreover have "cut_bits 256 data data" using cut_bits_refl_full [of 256 data] assms(2) by simp
  ultimately show ?thesis using w by (auto simp: write_post_def field_width_def)
qed

lemma user_area_post:
  assumes "idle s" "(unat num + 7) div 8 \<le> length data"
  shows "write_post EFPG_FIELD_UA data (field_bits EFPG_FIELD_UA start num) s (efpg_write_user_area F start num data s)"
proof (cases "user_area_bad start num")
  case True
  then show ?thesis using assms(1) by (simp add: write_post_def efpg_write_user_area_def verified_field_def)
next
  case False
  have r: "unat start + unat num \<le> 208" "num \<noteq> 0" using False by (auto simp: user_area_bad_def)
  have a: "unat (ucast start + 816 :: u32) = unat start + 816" using unat_add_no_wrap [of "ucast start :: u32" 816] r(1) by simp
  have nz: "(ucast num :: u32) \<noteq> 0" using r(2) by (metis unat_ucast_u16_u32 unat_eq_zero)
  have "0 < unat num" using r(2) by (simp add: unat_gt_0)
  then have "(unat num - 1) div 8 < length data" using assms(2) div_add_self2 [of 8 "unat num - 1"] by simp
  then obtain d s' where "fi_write F (ucast start + 816) (ucast num) data s = Some (HAL_OK, d, s')" "idle s'" "length d = length data"
    "burns sure (\<lambda>k. unat start + 816 \<le> k \<and> k < unat start + 816 + unat num \<and> buf_bit data (k - (unat start + 816))) (fuses s) (fuses s')"
    using write_law [OF assms(1) nz, of "ucast start + 816" data] a r(1) by auto
  then show ?thesis using False
    by (auto simp: write_post_def efpg_write_user_area_def field_bits_def verified_field_def burns_def grows_def add.commute)
qed

lemma write_field_sure:
  assumes "idle s" "field_len fld num \<le> length data"
  shows "write_post fld data (field_bits fld start num) s (efpg_write_field F fld data start num s)"
proof (cases fld)
  case EFPG_FIELD_HOSC
  have "write_post EFPG_FIELD_HOSC data {unat (385 :: u32)..<unat (385 :: u32) + unat (4 :: u32)} s (write_plain F 385 4 1 data s)"
    by (rule plain_post) (use assms EFPG_FIELD_HOSC in \<open>auto simp: field_len_def field_width_def efpg_read_field_def efpg_read_hosc_def fun_eq_iff\<close>)
  then show ?thesis by (simp add: EFPG_FIELD_HOSC efpg_write_field_def efpg_write_hosc_def field_bits_def)
next
  case EFPG_FIELD_BOOT
  then show ?thesis using boot_post assms by (simp add: efpg_write_field_def field_bits_def field_len_def)
next
  case EFPG_FIELD_MAC_WLAN
  then show ?thesis using wlan_mac_post assms by (simp add: efpg_write_field_def field_bits_def field_len_def)
next
  case EFPG_FIELD_DCXO
  have "write_post fld data (region_range dcxo_region) s (efpg_write_region F dcxo_region data s)"
    by (rule region_post [OF assms(1) regions_one_slot(1)])
      (use assms(2) EFPG_FIELD_DCXO in \<open>auto simp: field_len_def field_width_def efpg_read_field_def dcxo_region_def fun_eq_iff\<close>)
  then show ?thesis using EFPG_FIELD_DCXO by (simp add: efpg_write_field_def field_bits_def dcxo_region_def)
next
  case EFPG_FIELD_POUT_WLAN
  have "write_post fld data (region_range (pout_region EFPG_POUT_WLAN)) s (efpg_write_region F (pout_region EFPG_POUT_WLAN) data s)"
    by (rule region_post [OF assms(1) regions_one_slot(2)])
      (use assms(2) EFPG_FIELD_POUT_WLAN in \<open>auto simp: field_len_def field_width_def efpg_read_field_def pout_region_def fun_eq_iff\<close>)
  then show ?thesis using EFPG_FIELD_POUT_WLAN by (simp add: efpg_write_field_def field_bits_def pout_region_def)
next
  case EFPG_FIELD_CHIPID
  have "write_post EFPG_FIELD_CHIPID data {unat (128 :: u32)..<unat (128 :: u32) + unat (128 :: u32)} s (write_plain F 128 128 16 data s)"
    by (rule plain_post) (use assms EFPG_FIELD_CHIPID in \<open>auto simp: field_len_def field_width_def efpg_read_field_def efpg_read_chipid_def fun_eq_iff\<close>)
  then show ?thesis by (simp add: EFPG_FIELD_CHIPID efpg_write_field_def efpg_write_chipid_def field_bits_def)
next
  case EFPG_FIELD_UA
  then show ?thesis using user_area_post assms by (simp add: efpg_write_field_def field_len_def)
next
  case EFPG_FIELD_POUT_BT
  have "write_post fld data (region_range (pout_region EFPG_POUT_BT)) s (efpg_write_region F (pout_region EFPG_POUT_BT) data s)"
    by (rule region_post [OF assms(1) regions_one_slot(2)])
      (use assms(2) EFPG_FIELD_POUT_BT in \<open>auto simp: field_len_def field_width_def efpg_read_field_def pout_region_def fun_eq_iff\<close>)
  then show ?thesis using EFPG_FIELD_POUT_BT by (simp add: efpg_write_field_def field_bits_def pout_region_def)
next
  case EFPG_FIELD_MAC_BT
  have "write_post fld data (region_range mac_region) s (efpg_write_region F mac_region data s)"
    by (rule region_post [OF assms(1) regions_one_slot(3)])
      (use assms(2) EFPG_FIELD_MAC_BT in \<open>auto simp: field_len_def field_width_def efpg_read_field_def efpg_read_mac_def mac_region_def fun_eq_iff\<close>)
  then show ?thesis using EFPG_FIELD_MAC_BT by (simp add: efpg_write_field_def efpg_write_mac_def field_bits_def mac_region_def)
next
  case EFPG_FIELD_SECRETKEY
  have "write_post EFPG_FIELD_SECRETKEY data {unat (256 :: u32)..<unat (256 :: u32) + unat (128 :: u32)} s (write_plain F 256 128 16 data s)"
    by (rule plain_post) (use assms EFPG_FIELD_SECRETKEY in \<open>auto simp: field_len_def field_width_def efpg_read_field_def efpg_read_secretkey_def fun_eq_iff\<close>)
  then show ?thesis by (simp add: EFPG_FIELD_SECRETKEY efpg_write_field_def efpg_write_secretkey_def field_bits_def)
next
  case EFPG_FIELD_SECURESWD
  have "write_post EFPG_FIELD_SECURESWD data {unat (384 :: u32)..<unat (384 :: u32) + unat (1 :: u32)} s (write_plain F 384 1 1 data s)"
    by (rule plain_post) (use assms EFPG_FIELD_SECURESWD in \<open>auto simp: field_len_def field_width_def efpg_read_field_def efpg_read_secure_swd_def fun_eq_iff\<close>)
  then show ?thesis by (simp add: EFPG_FIELD_SECURESWD efpg_write_field_def efpg_write_secure_swd_def field_bits_def One_nat_def [symmetric] swd_bits del: One_nat_def)
qed (use assms(1) in \<open>simp_all add: write_post_def efpg_write_field_def verified_field_def\<close>)

end

end
