(* ===== verification/Efpg_Spec.thy ===== *)
theory Efpg_Spec
  imports Efpg Efpg_Field_Spec
begin

text \<open>
  What the programming protocol promises: reading changes no fuse, a command never programs, and
  a data frame programs only when it carries the digest of the command, its data and the key.
\<close>

section \<open>Reading\<close>

context fuse_store
begin

definition quiet :: "u8 list \<Rightarrow> 's \<Rightarrow> 's ack_res \<Rightarrow> bool" where
  "quiet buf s res \<longleftrightarrow> (\<exists>ack d s'. res = Some (ack, d, s') \<and> length d = length buf \<and> idle s' \<and> fuses s' = fuses s)"

lemma quiet_plain:
  assumes "idle s" "n \<noteq> 0" "unat a + unat n \<le> 1024" "(unat n + 7) div 8 \<le> length buf"
  shows "quiet buf s (read_plain F a n buf s)"
  using read_plain_sure [OF assms] assms(4) by (auto simp: quiet_def)

lemma quiet_region:
  assumes "idle s" "one_slot info" "buf_len info \<le> length buf"
  shows "quiet buf s (efpg_read_region F info buf s)"
proof -
  let ?a = "unat (flag_start info)"
  have i: "flag_bits info = 1" "?a + 1 \<le> 1024" using assms(2) by (auto simp: one_slot_def)
  show ?thesis
  proof (cases "fuses s ?a")
    case True
    have "region_holds info (fuse_bytes (fuses s) (unat (data_start info)) (unat (data_bits info))) (fuses s)"
      using True assms(2) by (simp add: region_holds_def one_slot_def)
    then show ?thesis using read_region_sure [OF assms] assms(2,3) by (fastforce simp: quiet_def one_slot_def)
  next
    case False
    obtain s1 where "fi_read F (ucast (flag_start info)) 1 [0] s = Some (HAL_OK, [0], s1)" "idle s1" "fuses s1 = fuses s"
      using read_law [OF assms(1), of 1 "ucast (flag_start info)" "[0]"] i(2) False by auto
    then show ?thesis using i(1) by (simp add: efpg_read_region_def quiet_def)
  qed
qed

lemma quiet_boot:
  assumes "idle s" "32 \<le> length buf"
  shows "quiet buf s (efpg_read_boot F buf s)"
proof (cases "fuses s 389 \<or> fuses s 390")
  case True
  have "length (boot_value (fuses s)) = 32" by (simp add: boot_value_def Let_def)
  then show ?thesis using read_boot_sure [OF assms True] assms(2) by (auto simp: quiet_def)
next
  case False
  obtain s1 where "fi_read F 389 2 [0] s = Some (HAL_OK, [hd (fuse_bytes (fuses s) 389 2)], s1)" "idle s1" "fuses s1 = fuses s"
    using read_byte [OF assms(1), of 2 389 0] by auto
  then show ?thesis using fuse_bytes_two [of "fuses s" 389] False by (simp add: efpg_read_boot_def quiet_def)
qed

lemma quiet_wlan_mac:
  assumes "idle s" "6 \<le> length buf"
  shows "quiet buf s (efpg_read_mac F EFPG_MAC_WLAN buf s)"
proof -
  obtain s1 where 1: "efpg_read_efuse_ver F s = Some (EFPG_ACK_OK, fuse_bytes (fuses s) 0 4, s1)" "idle s1" "fuses s1 = fuses s"
    using version_sure [OF assms(1)] by blast
  have "quiet buf s1 (efpg_read_region F first_mac_region buf s1)"
    by (rule quiet_region [OF 1(2) regions_one_slot(4)]) (use assms(2) in \<open>simp add: first_mac_region_def\<close>)
  then show ?thesis
    using 1 assms(2) by (auto simp: quiet_def efpg_read_mac_def read_first_wlan_mac_def)
qed

lemma quiet_user_area:
  assumes "idle s" "(unat num + 7) div 8 \<le> length buf"
  shows "quiet buf s (efpg_read_user_area F start num buf s)"
proof (cases "user_area_bad start num")
  case True
  then show ?thesis using assms(1) by (simp add: quiet_def efpg_read_user_area_def)
next
  case False
  have r: "unat start + unat num \<le> 208" "num \<noteq> 0" using False by (auto simp: user_area_bad_def)
  have a: "unat (ucast start + 816 :: u32) = unat start + 816" using unat_add_no_wrap [of "ucast start :: u32" 816] r(1) by simp
  have nz: "(ucast num :: u32) \<noteq> 0" using r(2) by (metis unat_ucast_u16_u32 unat_eq_zero)
  show ?thesis using quiet_plain [OF assms(1) nz, of "ucast start + 816" buf] a r(1) assms(2) False
    by (simp add: efpg_read_user_area_def)
qed

lemma read_field_quiet:
  assumes "idle s" "field_len fld num \<le> length buf" "fld \<noteq> EFPG_FIELD_ALL"
  shows "quiet buf s (efpg_read_field F fld buf start num s)"
  using assms(2,3)
proof (cases fld)
  case EFPG_FIELD_BOOT
  then show ?thesis using quiet_boot assms by (simp add: efpg_read_field_def field_len_def)
next
  case EFPG_FIELD_MAC_WLAN
  then show ?thesis using quiet_wlan_mac assms by (simp add: efpg_read_field_def field_len_def)
next
  case EFPG_FIELD_UA
  then show ?thesis using quiet_user_area assms by (simp add: efpg_read_field_def field_len_def)
next
  case EFPG_FIELD_DCXO
  then show ?thesis using quiet_region [OF assms(1) regions_one_slot(1)] assms(2)
    by (simp add: efpg_read_field_def field_len_def dcxo_region_def)
next
  case EFPG_FIELD_POUT_WLAN
  then show ?thesis using quiet_region [OF assms(1) regions_one_slot(2) [of EFPG_POUT_WLAN]] assms(2)
    by (simp add: efpg_read_field_def field_len_def pout_region_def)
next
  case EFPG_FIELD_POUT_BT
  then show ?thesis using quiet_region [OF assms(1) regions_one_slot(2) [of EFPG_POUT_BT]] assms(2)
    by (simp add: efpg_read_field_def field_len_def pout_region_def)
next
  case EFPG_FIELD_MAC_BT
  then show ?thesis using quiet_region [OF assms(1) regions_one_slot(3)] assms(2)
    by (simp add: efpg_read_field_def efpg_read_mac_def field_len_def mac_region_def)
qed (use assms quiet_plain [OF assms(1), of 4 385 buf] quiet_plain [OF assms(1), of 128 128 buf] quiet_plain [OF assms(1), of 128 256 buf]
      quiet_plain [OF assms(1), of 1 384 buf] in
    \<open>simp_all add: efpg_read_field_def field_len_def efpg_read_hosc_def efpg_read_chipid_def efpg_read_secretkey_def
        efpg_read_secure_swd_def quiet_def\<close>)

end

section \<open>The digest\<close>

text \<open>
  The hash engine: \<open>absorbed\<close> is what it has taken in since the last initialisation, \<open>H\<close> the
  digest; only what succeeds is constrained.
\<close>

definition digests :: "'u efpg_env \<Rightarrow> ('u \<Rightarrow> u8 list) \<Rightarrow> (u8 list \<Rightarrow> u8 list) \<Rightarrow> bool" where
  "digests E absorbed H \<longleftrightarrow>
     (\<forall>u u'. HAL_SHA256_Init E u = (HAL_OK, u') \<longrightarrow> absorbed u' = []) \<and>
     (\<forall>d u u'. HAL_SHA256_Append E d u = (HAL_OK, u') \<longrightarrow> absorbed u' = absorbed u @ d) \<and>
     (\<forall>u d u'. HAL_SHA256_Finish E u = (HAL_OK, d, u') \<longrightarrow> take 32 d = H (absorbed u))"

text \<open>A data frame \<open>f\<close> that ends with the digest of the command \<open>c\<close>, its data and the key.\<close>

definition authentic :: "(u8 list \<Rightarrow> u8 list) \<Rightarrow> u8 list \<Rightarrow> u8 list \<Rightarrow> u8 list \<Rightarrow> bool" where
  "authentic H k c f \<longleftrightarrow> 32 \<le> length f \<and> drop (length f - 32) f = H (c @ take (length f - 32) f @ k)"

abbreviation (input) key_of :: "efpg_priv \<Rightarrow> u8 list" where
  "key_of p \<equiv> take (unat (key_len p)) (key p)"

lemma msg_dgst_value:
  assumes "digests E absorbed H" "msg_dgst E p d u = (Some x, u')"
  shows "x = H (cmd_frame p @ d @ key_of p)"
  using assms unfolding digests_def
  by (auto simp: msg_dgst_def Let_def split: prod.splits if_splits) (metis append.assoc append_Nil)

lemma check_signed:
  assumes "digests E absorbed H" "efpg_check_msg_dgst E st = Some (r, st')"
  shows "\<exists>u. st' = st\<lparr>ep_env := u\<rparr>"
    "0 \<le> r \<Longrightarrow> authentic H (key_of (ep_priv st)) (cmd_frame (ep_priv st)) (take (unat (recv_len (ep_priv st))) (data_frame (ep_priv st)))"
proof -
  let ?p = "ep_priv st"
  let ?n = "unat (recv_len ?p)"
  have n: "32 \<le> ?n" "?n \<le> length (data_frame ?p)"
    using assms(2) by (auto simp: efpg_check_msg_dgst_def Let_def word_less_nat_alt split: if_splits)
  show "\<exists>u. st' = st\<lparr>ep_env := u\<rparr>" using assms(2) by (auto simp: efpg_check_msg_dgst_def Let_def split: if_splits prod.splits)
  assume "0 \<le> r"
  then obtain u' where "msg_dgst E ?p (take (?n - 32) (data_frame ?p)) (ep_env st) = (Some (take 32 (drop (?n - 32) (data_frame ?p))), u')"
    using assms(2) by (auto simp: efpg_check_msg_dgst_def body_len_def Let_def split: if_splits prod.splits)
  from msg_dgst_value [OF assms(1) this] show "authentic H (key_of ?p) (cmd_frame ?p) (take ?n (data_frame ?p))"
    using n by (simp add: authentic_def drop_take min_def)
qed

lemma send_ack_keeps [simp]:
  "ep_priv (snd (efpg_send_ack E x st)) = ep_priv st" "ep_fuse (snd (efpg_send_ack E x st)) = ep_fuse st"
  by (auto simp: efpg_send_ack_def Let_def split: prod.splits)

lemma send_ack_result: "efpg_send_ack E x st = (r, st') \<Longrightarrow> ep_priv st' = ep_priv st \<and> ep_fuse st' = ep_fuse st"
  by (metis send_ack_keeps snd_conv)

section \<open>Well-formed control blocks\<close>

definition buffers_ok :: "efpg_priv \<Rightarrow> bool" where
  "buffers_ok p \<longleftrightarrow> length (cmd_frame p) = 8 \<and> length (data_frame p) = 108 \<and> length (ext_cmd_frame p) = 13 \<and>
     length (key p) = 64 \<and> unat (key_len p) \<le> 64"

text \<open>The length that is expected fits the field.\<close>

definition phase_ok :: "efpg_priv \<Rightarrow> bool" where
  "phase_ok p \<longleftrightarrow> unat (expt_len p) = field_len (ep_field p) (bit_length p) + 32 \<and> ep_field p \<noteq> EFPG_FIELD_ALL"

text \<open>A command frame has been accepted.\<close>

definition in_cmd :: "efpg_priv \<Rightarrow> bool" where
  "in_cmd p \<longleftrightarrow> is_cmd p = 0 \<or> ext_cmd p = 1"

definition efpg_wf :: "efpg_priv \<Rightarrow> bool" where
  "efpg_wf p \<longleftrightarrow> buffers_ok p \<and> (is_cmd p = 0 \<longrightarrow> phase_ok p) \<and> (\<not> in_cmd p \<longrightarrow> expt_len p = 8)"

definition same_frames :: "efpg_priv \<Rightarrow> efpg_priv \<Rightarrow> bool" where
  "same_frames p q \<longleftrightarrow> cmd_frame q = cmd_frame p \<and> data_frame q = data_frame p \<and> ext_cmd_frame q = ext_cmd_frame p \<and>
     key q = key p \<and> key_len q = key_len p"

lemma reset_wf: "buffers_ok p \<Longrightarrow> efpg_wf (efpg_reset p)" "\<not> in_cmd (efpg_reset p)" "same_frames p (efpg_reset p)"
  by (auto simp: efpg_wf_def buffers_ok_def efpg_reset_def in_cmd_def same_frames_def)

definition ua_frame_len :: "u16 \<Rightarrow> u16" where
  "ua_frame_len bits = bits div 8 + 32 + (if bits mod 8 \<noteq> 0 then 1 else 0)"

lemma unat_ua_frame_len: "unat (ua_frame_len bits) = (unat bits + 7) div 8 + 32"
proof -
  have b: "unat bits div 8 \<le> 8191" using unat_u16_bound [of bits] by linarith
  have d: "unat (bits div 8) = unat bits div 8" "unat (bits mod 8) = unat bits mod 8" by (simp_all add: unat_div unat_mod)
  have 1: "unat (bits div 8 + 32) = unat bits div 8 + 32" using b d by (subst unat_add_no_wrap) simp_all
  have z: "bits mod 8 = 0 \<longleftrightarrow> unat bits mod 8 = 0" using d(2) by (metis unat_eq_zero)
  have c: "(n + 7) div 8 = n div 8 + (if n mod 8 \<noteq> 0 then 1 else 0)" for n :: nat by presburger
  show ?thesis
  proof (cases "bits mod 8 = 0")
    case True
    then show ?thesis using 1 z c [of "unat bits"] by (simp add: ua_frame_len_def)
  next
    case False
    then have "unat (bits div 8 + 32 + 1) = unat bits div 8 + 33" using 1 b by (subst unat_add_no_wrap) simp_all
    then show ?thesis using False z c [of "unat bits"] by (simp add: ua_frame_len_def)
  qed
qed

lemma field_of_type_len: "field_of_type t = Some (fld, n) \<Longrightarrow> unat n = field_len fld b + 32 \<and> fld \<noteq> EFPG_FIELD_ALL"
  by (auto simp: field_of_type_def field_len_def split: if_splits)

lemma parse_type_effect:
  assumes "parse_type t frame len p = (r, q)"
  shows "same_frames p q \<and> is_cmd q = is_cmd p \<and> recv_len q = recv_len p \<and> ep_op q = ep_op p" "r \<noteq> None \<Longrightarrow> ext_cmd q \<noteq> 1 \<Longrightarrow> phase_ok q"
  using assms
  by (auto simp: parse_type_def same_frames_def phase_ok_def field_len_def Let_def unat_ua_frame_len
      ua_frame_len_def [symmetric] simp del: mod_eq_0_iff_dvd dest!: field_of_type_len split: if_splits option.splits)

lemma parse_cmd_effect:
  assumes "efpg_parse_cmd p = (r, q)"
  shows "same_frames p q \<and> is_cmd q = is_cmd p \<and> recv_len q = recv_len p"
    "0 \<le> r \<Longrightarrow> ext_cmd q \<noteq> 1 \<Longrightarrow> ep_op q = EFPG_OP_READ \<or> ep_op q = EFPG_OP_WRITE \<Longrightarrow> phase_ok q"
  using assms parse_type_effect
  by (auto simp: efpg_parse_cmd_def same_frames_def Let_def split: if_splits option.splits prod.splits)

text \<open>The state with a complete frame in its buffer.\<close>

definition loaded :: "u8 list \<Rightarrow> efpg_priv \<Rightarrow> ('u, 's) efpg_st \<Rightarrow> ('u, 's) efpg_st" where
  "loaded bs q st = st\<lparr>ep_priv := q\<lparr>recv_len := word_of_nat (length bs)\<rparr>\<rparr>"

definition after_frame :: "int \<Rightarrow> ('u, 's) efpg_st \<Rightarrow> bool \<times> ('u, 's) efpg_st" where
  "after_frame x st = (if x = 0 then (True, st) else if x = 1 then (True, st\<lparr>ep_priv := efpg_reset (ep_priv st)\<rparr>) else (False, st))"

lemma turn_cases:
  assumes "efpg_turn E F (Some f) st = Some (go, st')" "bs = take (unat (expt_len (ep_priv st))) f"
  obtains "bs = []" "go" "st' = st"
  | q where "bs \<noteq> []" "efpg_receive bs (ep_priv st) = Some q" "word_of_nat (length bs) \<noteq> expt_len q"
      "go" "st' = st\<lparr>ep_priv := efpg_reset q\<rparr>"
  | q x st2 where "bs \<noteq> []" "efpg_receive bs (ep_priv st) = Some q" "word_of_nat (length bs) = expt_len q"
      "(if is_cmd q \<noteq> 0 then efpg_cmd_frame_process E F (loaded bs q st) else efpg_data_frame_process E F (loaded bs q st)) = Some (x, st2)"
      "(go, st') = after_frame x st2"
proof (cases "bs = []")
  case True
  then show thesis using that(1) assms by (simp add: efpg_turn_def)
next
  case ne: False
  then obtain q where q: "efpg_receive bs (ep_priv st) = Some q"
    using assms by (cases "efpg_receive bs (ep_priv st)") (auto simp: efpg_turn_def Let_def)
  show thesis
  proof (cases "word_of_nat (length bs) = expt_len q")
    case False
    then show thesis using that(2) [OF ne q False] assms ne q by (auto simp: efpg_turn_def Let_def)
  next
    case True
    let ?r = "if is_cmd q \<noteq> 0 then efpg_cmd_frame_process E F (loaded bs q st) else efpg_data_frame_process E F (loaded bs q st)"
    have t: "efpg_turn E F (Some f) st = Option.bind ?r (\<lambda>(x, st2). Some (after_frame x st2))"
      unfolding efpg_turn_def option.case Let_def assms(2) [symmetric] after_frame_def loaded_def
      using ne q True by (auto intro!: Option.bind_cong)
    obtain x st2 where r: "?r = Some (x, st2)" using t assms(1) by (cases ?r) auto
    then have "(go, st') = after_frame x st2" using t assms(1) by simp
    then show thesis by (rule that(3) [OF ne q True r])
  qed
qed

section \<open>Frames\<close>

context fuse_store
begin

lemma read_process_effect:
  assumes "idle (ep_fuse st)" "phase_ok (ep_priv st)" "efpg_read_process E F st = Some (r, st')"
  shows "idle (ep_fuse st') \<and> fuses (ep_fuse st') = fuses (ep_fuse st) \<and> ep_priv st' = ep_priv st \<and> r \<noteq> 0"
proof -
  let ?p = "ep_priv st"
  have "quiet (replicate (unat (expt_len ?p)) 0) (ep_fuse st)
      (efpg_read_field F (ep_field ?p) (replicate (unat (expt_len ?p)) 0) (start_bit_addr ?p) (bit_length ?p) (ep_fuse st))"
    by (rule read_field_quiet [OF assms(1)]) (use assms(2) in \<open>auto simp: phase_ok_def\<close>)
  then show ?thesis using assms(1,3)
    by (auto simp: quiet_def efpg_read_process_def Let_def dest!: send_ack_result split: prod.splits if_splits option.splits)
qed

lemma cmd_process_effect:
  assumes "idle (ep_fuse st)" "efpg_cmd_frame_process E F st = Some (r, st')" "is_cmd (ep_priv st) \<noteq> 0"
  shows "idle (ep_fuse st') \<and> fuses (ep_fuse st') = fuses (ep_fuse st) \<and> same_frames (ep_priv st) (ep_priv st')"
    "r = 0 \<Longrightarrow> in_cmd (ep_priv st') \<and> (is_cmd (ep_priv st') = 0 \<longrightarrow> phase_ok (ep_priv st'))"
proof -
  obtain x q where q: "efpg_parse_cmd (ep_priv st) = (x, q)" by fastforce
  note e = parse_cmd_effect [OF q]
  have r: "0 \<le> x \<Longrightarrow> ext_cmd q \<noteq> 1 \<Longrightarrow> ep_op q = EFPG_OP_READ \<Longrightarrow> efpg_read_process E F (st\<lparr>ep_priv := q\<rparr>) = Some (r, st') \<Longrightarrow>
      idle (ep_fuse st') \<and> fuses (ep_fuse st') = fuses (ep_fuse st) \<and> ep_priv st' = q \<and> r \<noteq> 0"
    using read_process_effect [of "st\<lparr>ep_priv := q\<rparr>" E r st'] e(2) assms(1) by simp
  have f: "same_frames (ep_priv st) (q\<lparr>is_cmd := a, recv_len := b\<rparr>)" for a b using e(1) by (simp add: same_frames_def)
  show "idle (ep_fuse st') \<and> fuses (ep_fuse st') = fuses (ep_fuse st) \<and> same_frames (ep_priv st) (ep_priv st')"
    using assms q r e(1) f
    by (auto simp: efpg_cmd_frame_process_def efpg_ext_cmd_process_def efpg_write_process_def efpg_stop_process_def Let_def
        same_frames_def dest!: send_ack_result split: prod.splits if_splits efpg_op_t.splits)
  assume "r = 0"
  then show "in_cmd (ep_priv st') \<and> (is_cmd (ep_priv st') = 0 \<longrightarrow> phase_ok (ep_priv st'))"
    using assms q r e f
    by (auto simp: efpg_cmd_frame_process_def efpg_ext_cmd_process_def efpg_write_process_def efpg_stop_process_def Let_def
        in_cmd_def phase_ok_def dest!: send_ack_result split: prod.splits if_splits efpg_op_t.splits)
qed

lemma data_process_effect:
  assumes "idle (ep_fuse st)" "efpg_data_frame_process E F st = Some (r, st')" "digests E absorbed H"
    and p: "phase_ok (ep_priv st)" "buffers_ok (ep_priv st)" "recv_len (ep_priv st) = expt_len (ep_priv st)"
  shows "idle (ep_fuse st') \<and> buffers_ok (ep_priv st') \<and> r = 1 \<and> key_of (ep_priv st') = key_of (ep_priv st)"
    "fuses (ep_fuse st') \<noteq> fuses (ep_fuse st) \<Longrightarrow>
      authentic H (key_of (ep_priv st)) (cmd_frame (ep_priv st)) (take (unat (recv_len (ep_priv st))) (data_frame (ep_priv st)))"
    "grows (field_bits (ep_field (ep_priv st)) (start_bit_addr (ep_priv st)) (bit_length (ep_priv st))) (fuses (ep_fuse st)) (fuses (ep_fuse st'))"
proof -
  let ?p = "ep_priv st"
  let ?n = "unat (recv_len ?p)"
  obtain x st1 where c: "efpg_check_msg_dgst E st = Some (x, st1)"
    using assms(2) by (cases "efpg_check_msg_dgst E st") (auto simp: efpg_data_frame_process_def)
  obtain u where u: "st1 = st\<lparr>ep_env := u\<rparr>" using check_signed(1) [OF assms(3) c] by blast
  have n: "?n \<le> 108" using c p(2) by (auto simp: efpg_check_msg_dgst_def Let_def buffers_ok_def split: if_splits)
  have "field_len (ep_field ?p) (bit_length ?p) \<le> length (data_frame ?p)"
    using p n by (simp add: phase_ok_def buffers_ok_def)
  from write_field_sure [OF assms(1) this, of "start_bit_addr ?p"]
  obtain ack d s where w: "efpg_write_field F (ep_field ?p) (data_frame ?p) (start_bit_addr ?p) (bit_length ?p) (ep_fuse st) = Some (ack, d, s)"
    "idle s" "length d = length (data_frame ?p)" "grows (field_bits (ep_field ?p) (start_bit_addr ?p) (bit_length ?p)) (fuses (ep_fuse st)) (fuses s)"
    by (auto simp: write_post_def)
  have st': "(x < 0 \<and> r = 1 \<and> ep_priv st' = ?p \<and> ep_fuse st' = ep_fuse st) \<or>
      (0 \<le> x \<and> r = 1 \<and> ep_priv st' = ?p\<lparr>data_frame := d\<rparr> \<and> ep_fuse st' = s)"
    using assms(2) c u w(1) by (auto simp: efpg_data_frame_process_def Let_def split: if_splits)
  then show "idle (ep_fuse st') \<and> buffers_ok (ep_priv st') \<and> r = 1 \<and> key_of (ep_priv st') = key_of ?p"
    using assms(1) w p(2) by (auto simp: buffers_ok_def)
  show "grows (field_bits (ep_field ?p) (start_bit_addr ?p) (bit_length ?p)) (fuses (ep_fuse st)) (fuses (ep_fuse st'))"
    using st' w(4) by auto
  assume "fuses (ep_fuse st') \<noteq> fuses (ep_fuse st)"
  then have "0 \<le> x" using st' by auto
  then show "authentic H (key_of ?p) (cmd_frame ?p) (take ?n (data_frame ?p))" by (rule check_signed(2) [OF assms(3) c])
qed

text \<open>
  One receive call: fuses change only when a data frame is signed for the command that is kept.
\<close>

lemma fill_buf_value: "fill_buf bs buf = Some b \<Longrightarrow> b = bs @ drop (length bs) buf \<and> length bs \<le> length buf"
  by (auto simp: fill_buf_def split: if_splits)

lemma receive_effect:
  assumes "efpg_receive bs p = Some q" "buffers_ok p"
  shows "buffers_ok q \<and> expt_len q = expt_len p \<and> is_cmd q = is_cmd p \<and> ext_cmd q = ext_cmd p \<and> ep_field q = ep_field p \<and>
      bit_length q = bit_length p \<and> start_bit_addr q = start_bit_addr p \<and> key_of q = key_of p"
    "in_cmd p \<Longrightarrow> cmd_frame q = cmd_frame p"
    "\<not> in_cmd p \<Longrightarrow> cmd_frame q = bs @ drop (length bs) (cmd_frame p)"
    "is_cmd p = 0 \<Longrightarrow> take (length bs) (data_frame q) = bs"
  using assms by (auto simp: efpg_receive_def buffers_ok_def in_cmd_def Option.bind_eq_Some_conv dest!: fill_buf_value split: if_splits)

lemma same_frames_ok: "same_frames p q \<Longrightarrow> buffers_ok p \<Longrightarrow> buffers_ok q \<and> key_of q = key_of p"
  by (auto simp: same_frames_def buffers_ok_def)

definition turn_post :: "(u8 list \<Rightarrow> u8 list) \<Rightarrow> u8 list option \<Rightarrow> ('u, 's) efpg_st \<Rightarrow> bool \<Rightarrow> ('u, 's) efpg_st \<Rightarrow> bool" where
  "turn_post H ev st go st' \<longleftrightarrow> (let p = ep_priv st; q = ep_priv st' in
     idle (ep_fuse st') \<and> key_of q = key_of p \<and> (go \<longrightarrow> efpg_wf q) \<and>
     (fuses (ep_fuse st') \<noteq> fuses (ep_fuse st) \<longrightarrow>
        in_cmd p \<and> (\<exists>f n. ev = Some f \<and> authentic H (key_of p) (cmd_frame p) (take n f))) \<and>
     (go \<longrightarrow> in_cmd q \<longrightarrow> (in_cmd p \<and> cmd_frame q = cmd_frame p) \<or> (\<exists>c. ev = Some c \<and> cmd_frame q = take 8 c)))"

lemma data_turn:
  assumes "idle (ep_fuse st)" "efpg_wf (ep_priv st)" "digests E absorbed H" "efpg_receive bs (ep_priv st) = Some q"
    and bs: "bs = take n f" "word_of_nat (length bs) = expt_len q"
    and d: "is_cmd q = 0" "efpg_data_frame_process E F (loaded bs q st) = Some (x, st2)" "(go, st') = after_frame x st2"
  shows "turn_post H (Some f) st go st'"
proof -
  let ?p = "ep_priv st" and ?s = "loaded bs q st"
  have b: "buffers_ok ?p" using assms(2) by (simp add: efpg_wf_def)
  note r = receive_effect [OF assms(4) b]
  have p1: "buffers_ok (ep_priv ?s)" "key_of (ep_priv ?s) = key_of ?p" "idle (ep_fuse ?s)" "fuses (ep_fuse ?s) = fuses (ep_fuse st)"
    "recv_len (ep_priv ?s) = expt_len (ep_priv ?s)"
    using r(1) assms(1) bs(2) by (simp_all add: loaded_def buffers_ok_def)
  have ic: "in_cmd ?p" "is_cmd ?p = 0" using d(1) r(1) by (simp_all add: in_cmd_def)
  have ph: "phase_ok (ep_priv ?s)" using assms(2) r(1) ic(2) by (simp add: efpg_wf_def phase_ok_def loaded_def)
  note e = data_process_effect [OF p1(3) d(2) assms(3) ph p1(1,5)]
  have cf: "cmd_frame (ep_priv ?s) = cmd_frame ?p" using r(2) [OF ic(1)] by (simp add: loaded_def)
  have "length bs \<le> 108" using assms(4) b ic(2)
    by (auto simp: efpg_receive_def buffers_ok_def Option.bind_eq_Some_conv dest!: fill_buf_value)
  then have "unat (recv_len (ep_priv ?s)) = length bs"
    by (simp add: loaded_def unsigned_of_nat take_bit_nat_eq_self)
  then have tk: "take (unat (recv_len (ep_priv ?s))) (data_frame (ep_priv ?s)) = take n f"
    using r(4) [OF ic(2)] bs(1) by (simp add: loaded_def)
  have sg: "authentic H (key_of ?p) (cmd_frame ?p) (take n f)" if "fuses (ep_fuse st2) \<noteq> fuses (ep_fuse st)"
    using e(2) that unfolding p1(2,4) cf tk by simp
  have "go \<and> st' = st2\<lparr>ep_priv := efpg_reset (ep_priv st2)\<rparr>" using e(1) d(3) by (simp add: after_frame_def)
  then show ?thesis using e(1) p1(2) ic(1) sg reset_wf [of "ep_priv st2"] same_frames_ok [OF reset_wf(3)]
    by (auto simp: turn_post_def Let_def)
qed

lemma cmd_turn:
  assumes "idle (ep_fuse st)" "efpg_wf (ep_priv st)" "efpg_receive bs (ep_priv st) = Some q"
    and bs: "bs = take (unat (expt_len (ep_priv st))) f" "word_of_nat (length bs) = expt_len q"
    and d: "is_cmd q \<noteq> 0" "efpg_cmd_frame_process E F (loaded bs q st) = Some (x, st2)" "(go, st') = after_frame x st2"
  shows "turn_post H (Some f) st go st'"
proof -
  let ?p = "ep_priv st" and ?s = "loaded bs q st"
  have b: "buffers_ok ?p" using assms(2) by (simp add: efpg_wf_def)
  note r = receive_effect [OF assms(3) b]
  have p1: "buffers_ok (ep_priv ?s)" "key_of (ep_priv ?s) = key_of ?p" "idle (ep_fuse ?s)" "fuses (ep_fuse ?s) = fuses (ep_fuse st)"
    "is_cmd (ep_priv ?s) \<noteq> 0"
    using r(1) assms(1) d(1) by (simp_all add: loaded_def buffers_ok_def)
  note e = cmd_process_effect [OF p1(3) d(2) p1(5)]
  have fr: "buffers_ok (ep_priv st2)" "key_of (ep_priv st2) = key_of ?p" "cmd_frame (ep_priv st2) = cmd_frame q"
    using same_frames_ok [of "ep_priv ?s" "ep_priv st2"] e(1) p1 by (simp_all add: same_frames_def loaded_def)
  have cf: "(in_cmd ?p \<and> cmd_frame q = cmd_frame ?p) \<or> cmd_frame q = take 8 f"
  proof (cases "in_cmd ?p")
    case False
    then have l: "expt_len ?p = 8" using assms(2) by (simp add: efpg_wf_def)
    then have "(word_of_nat (length bs) :: u16) = 8" "length bs \<le> 8" using bs r(1) by simp_all
    moreover from this(2) have "unat (word_of_nat (length bs) :: u16) = length bs" by (simp add: unsigned_of_nat take_bit_nat_eq_self)
    ultimately have "length bs = 8" by simp
    then show ?thesis using r(3) [OF False] r(1) b l bs(1) by (simp add: buffers_ok_def)
  qed (use r(2) in simp)
  show ?thesis using d(3) e p1(4) fr cf reset_wf [of "ep_priv st2"] same_frames_ok [OF reset_wf(3) fr(1)]
    by (auto simp: turn_post_def after_frame_def efpg_wf_def Let_def split: if_splits)
qed

lemma turn_effect:
  assumes "idle (ep_fuse st)" "efpg_wf (ep_priv st)" "digests E absorbed H" "efpg_turn E F ev st = Some (go, st')"
  shows "turn_post H ev st go st'"
proof (cases ev)
  case None
  then show ?thesis using assms by (simp add: efpg_turn_def turn_post_def)
next
  case (Some f)
  then have t: "efpg_turn E F (Some f) st = Some (go, st')" using assms(4) by simp
  have b: "buffers_ok (ep_priv st)" using assms(2) by (simp add: efpg_wf_def)
  from t refl show ?thesis unfolding Some
  proof (cases rule: turn_cases)
    case 1
    then show "turn_post H (Some f) st go st'" using assms by (simp add: turn_post_def Let_def)
  next
    case (2 q)
    then show "turn_post H (Some f) st go st'"
      using receive_effect(1) [OF 2(2) b] reset_wf [of q] same_frames_ok [OF reset_wf(3)] assms(1) by (simp add: turn_post_def Let_def)
  next
    case (3 q x st2)
    then show "turn_post H (Some f) st go st'"
      using data_turn [OF assms(1-3) 3(2) refl 3(3)] cmd_turn [OF assms(1,2) 3(2) refl 3(3)] by (auto split: if_splits)
  qed
qed

lemma loop_effect:
  assumes "idle (ep_fuse st)" "efpg_wf (ep_priv st)" "digests E absorbed H" "efpg_loop E F evs st = Some (go, st')"
    and "fuses (ep_fuse st') \<noteq> fuses (ep_fuse st)"
  shows "\<exists>j f n. j < length evs \<and> evs ! j = Some f \<and>
     ((in_cmd (ep_priv st) \<and> authentic H (key_of (ep_priv st)) (cmd_frame (ep_priv st)) (take n f)) \<or>
      (\<exists>i < j. \<exists>c. evs ! i = Some c \<and> authentic H (key_of (ep_priv st)) (take 8 c) (take n f)))"
  using assms(1,2,4,5)
proof (induction evs arbitrary: st)
  case (Cons ev evs)
  let ?k = "key_of (ep_priv st)"
  obtain g st1 where t: "efpg_turn E F ev st = Some (g, st1)"
    using Cons.prems(3) by (cases "efpg_turn E F ev st") auto
  have post: "turn_post H ev st g st1" by (rule turn_effect [OF Cons.prems(1,2) assms(3) t])
  show ?case
  proof (cases "fuses (ep_fuse st1) = fuses (ep_fuse st)")
    case False
    then obtain f n where "ev = Some f" "in_cmd (ep_priv st)" "authentic H ?k (cmd_frame (ep_priv st)) (take n f)"
      using post by (auto simp: turn_post_def Let_def)
    then show ?thesis by (intro exI [of _ 0]) auto
  next
    case same: True
    have g: "g"
    proof (rule ccontr)
      assume "\<not> g"
      then have "ep_fuse st' = ep_fuse st1" using Cons.prems(3) t by (auto simp: call_cb_def split: option.splits)
      then show False using same Cons.prems(4) by simp
    qed
    have 1: "idle (ep_fuse st1)" "efpg_wf (ep_priv st1)" "key_of (ep_priv st1) = ?k" "efpg_loop E F evs st1 = Some (go, st')"
      using post g t Cons.prems(3) by (auto simp: turn_post_def Let_def)
    obtain j f n where j: "j < length evs" "evs ! j = Some f"
      "(in_cmd (ep_priv st1) \<and> authentic H ?k (cmd_frame (ep_priv st1)) (take n f)) \<or>
        (\<exists>i < j. \<exists>c. evs ! i = Some c \<and> authentic H ?k (take 8 c) (take n f))"
      using Cons.IH [OF 1(1,2,4) Cons.prems(4) [folded same]] unfolding 1(3) by blast
    from j(3) have "(in_cmd (ep_priv st) \<and> authentic H ?k (cmd_frame (ep_priv st)) (take n f)) \<or>
        (\<exists>i < Suc j. \<exists>c. (ev # evs) ! i = Some c \<and> authentic H ?k (take 8 c) (take n f))"
    proof
      assume a: "in_cmd (ep_priv st1) \<and> authentic H ?k (cmd_frame (ep_priv st1)) (take n f)"
      then have "(in_cmd (ep_priv st) \<and> cmd_frame (ep_priv st1) = cmd_frame (ep_priv st)) \<or> (\<exists>c. ev = Some c \<and> cmd_frame (ep_priv st1) = take 8 c)"
        using post g by (simp add: turn_post_def Let_def)
      then show ?thesis using a by (metis nth_Cons_0 zero_less_Suc)
    next
      assume "\<exists>i < j. \<exists>c. evs ! i = Some c \<and> authentic H ?k (take 8 c) (take n f)"
      then obtain i c where "i < j" "evs ! i = Some c" "authentic H ?k (take 8 c) (take n f)" by blast
      then show ?thesis by (metis Suc_less_eq nth_Cons_Suc)
    qed
    then show ?thesis using j(1,2) by (intro exI [of _ "Suc j"] exI [of _ f] exI [of _ n]) simp
  qed
qed simp

end

text \<open>Two receive calls that deliver a command and, later, a data frame that is signed for it.\<close>

definition signed_pair :: "(u8 list \<Rightarrow> u8 list) \<Rightarrow> u8 list \<Rightarrow> u8 list option list \<Rightarrow> bool" where
  "signed_pair H k evs \<longleftrightarrow> (\<exists>i j c f n. i < j \<and> j < length evs \<and> evs ! i = Some c \<and> evs ! j = Some f \<and>
     authentic H k (take 8 c) (take n f))"

lemma call_cb_keeps [simp]: "ep_priv (call_cb cb st) = ep_priv st" "ep_fuse (call_cb cb st) = ep_fuse st"
  by (simp_all add: call_cb_def split: option.splits)

context fuse_store
begin

lemma task_effect:
  assumes "idle (ep_fuse st)" "buffers_ok (ep_priv st)" "digests E absorbed H" "efpg_task E F evs st = Some (go, st')"
    and "fuses (ep_fuse st') \<noteq> fuses (ep_fuse st)"
  shows "signed_pair H (key_of (ep_priv st)) evs"
proof -
  let ?s = "(call_cb (start_cb E) st)\<lparr>ep_priv := efpg_reset (ep_priv st)\<rparr>"
  have 1: "efpg_loop E F evs ?s = Some (go, st')" using assms(4) by (simp add: efpg_task_def Let_def)
  have 2: "idle (ep_fuse ?s)" "efpg_wf (ep_priv ?s)" "fuses (ep_fuse st') \<noteq> fuses (ep_fuse ?s)" "\<not> in_cmd (ep_priv ?s)"
    "key_of (ep_priv ?s) = key_of (ep_priv st)"
    using assms(1,2,5) reset_wf [of "ep_priv st"] same_frames_ok [OF reset_wf(3)] by simp_all
  from loop_effect [OF 2(1,2) assms(3) 1 2(3)] 2(4) show ?thesis unfolding 2(5) signed_pair_def by blast
qed

end

end
