(* ===== verification/Efpg_Exchange.thy ===== *)
theory Efpg_Exchange
  imports Efpg_Spec
begin

text \<open>
  Whole exchanges between the programming tool and the task: the commands as the tool forms them,
  an authenticated write, and the extended command whose length is not limited.
\<close>

section \<open>The tool's side\<close>

definition with_checksum :: "u8 list \<Rightarrow> u8 list" where
  "with_checksum bs = bs @ [0xFF - efpg_checksum8 bs]"

definition tool_cmd :: "u16 \<Rightarrow> u16 \<Rightarrow> u16 \<Rightarrow> u8 \<Rightarrow> u8 list" where
  "tool_cmd op_code t len ext = with_checksum (bytes_of_u16 op_code @ bytes_of_u16 t @ bytes_of_u16 len @ [ext])"

definition tool_ext_cmd :: "u16 \<Rightarrow> u16 \<Rightarrow> u16 \<Rightarrow> u16 \<Rightarrow> u16 \<Rightarrow> u8 list" where
  "tool_ext_cmd op_code len version start bits =
     with_checksum (bytes_of_u16 op_code @ bytes_of_u16 EFPG_TYPE_USER_AREA @ bytes_of_u16 len @ bytes_of_u16 version @
       bytes_of_u16 start @ bytes_of_u16 bits)"

definition ack_bytes :: "u16 \<Rightarrow> u8 list" where
  "ack_bytes status = (bytes_of_u16 status @ [0, 0])[3 := 0xFF - efpg_checksum8 (bytes_of_u16 status @ [0, 0])]"

lemma checksum_ok: "efpg_checksum8 (with_checksum bs) = 0xFF"
  by (simp add: with_checksum_def efpg_checksum8_def)

text \<open>An environment in which nothing fails; \<open>sent\<close> are the frames that went out.\<close>

definition obliging :: "'u efpg_env \<Rightarrow> ('u \<Rightarrow> u8 list) \<Rightarrow> (u8 list \<Rightarrow> u8 list) \<Rightarrow> ('u \<Rightarrow> u8 list list) \<Rightarrow> bool" where
  "obliging E absorbed H sent \<longleftrightarrow>
     (\<forall>n u. \<exists>u'. env_malloc E n u = (True, u') \<and> sent u' = sent u) \<and>
     (\<forall>d u. \<exists>u'. env_transmit E d u = (int (length d), u') \<and> sent u' = sent u @ [d]) \<and>
     (\<forall>u. \<exists>u'. HAL_SHA256_Init E u = (HAL_OK, u') \<and> absorbed u' = [] \<and> sent u' = sent u) \<and>
     (\<forall>d u. \<exists>u'. HAL_SHA256_Append E d u = (HAL_OK, u') \<and> absorbed u' = absorbed u @ d \<and> sent u' = sent u) \<and>
     (\<forall>u. \<exists>u' d. HAL_SHA256_Finish E u = (HAL_OK, d, u') \<and> take 32 d = H (absorbed u) \<and> sent u' = sent u)"

lemma ack_sent:
  assumes "obliging E absorbed H sent"
  shows "\<exists>u. efpg_send_ack E x st = (0, st\<lparr>ep_env := u\<rparr>) \<and> sent u = sent (ep_env st) @ [ack_bytes x]"
proof -
  obtain u where u: "env_malloc E 4 (ep_env st) = (True, u)" "sent u = sent (ep_env st)"
    using assms unfolding obliging_def by blast
  obtain u' where "env_transmit E (ack_bytes x) u = (int (length (ack_bytes x)), u')" "sent u' = sent u @ [ack_bytes x]"
    using assms unfolding obliging_def by blast
  then have "efpg_send_ack E x st = (0, st\<lparr>ep_env := u'\<rparr>)" "sent u' = sent (ep_env st) @ [ack_bytes x]"
    using u by (simp_all add: efpg_send_ack_def ack_bytes_def Let_def)
  then show ?thesis by blast
qed

lemma dgst_computed:
  assumes "obliging E absorbed H sent"
  shows "\<exists>u'. msg_dgst E p d u = (Some (H (cmd_frame p @ d @ key_of p)), u') \<and> sent u' = sent u"
proof -
  note o = assms [unfolded obliging_def]
  obtain u1 where 1: "HAL_SHA256_Init E u = (HAL_OK, u1)" "absorbed u1 = []" "sent u1 = sent u" using o by blast
  obtain u2 where 2: "HAL_SHA256_Append E (cmd_frame p) u1 = (HAL_OK, u2)" "absorbed u2 = cmd_frame p" "sent u2 = sent u"
    using o 1 by (metis append_Nil)
  obtain u3 where 3: "HAL_SHA256_Append E d u2 = (HAL_OK, u3)" "absorbed u3 = cmd_frame p @ d" "sent u3 = sent u"
    using o 2 by metis
  obtain u4 where 4: "HAL_SHA256_Append E (key_of p) u3 = (HAL_OK, u4)" "absorbed u4 = cmd_frame p @ d @ key_of p" "sent u4 = sent u"
    using o 3 by (metis append.assoc)
  obtain u5 x where "HAL_SHA256_Finish E u4 = (HAL_OK, x, u5)" "take 32 x = H (absorbed u4)" "sent u5 = sent u"
    using o 4(3) by metis
  then show ?thesis using 1 2 3 4 by (simp add: msg_dgst_def)
qed

section \<open>A command, then data\<close>

lemma tool_cmd_len [simp]: "length (tool_cmd a b c d) = 8"
  by (simp add: tool_cmd_def with_checksum_def)

lemma tool_cmd_ne [simp]: "tool_cmd a b c d \<noteq> []"
  by (simp add: tool_cmd_def with_checksum_def)

lemma tool_cmd_fields:
  "u16_of_bytes (tool_cmd a b c d) = a" "u16_of_bytes (drop 2 (tool_cmd a b c d)) = b"
  "u16_of_bytes (drop 4 (tool_cmd a b c d)) = c" "tool_cmd a b c d ! 6 = d"
  by (simp_all add: tool_cmd_def with_checksum_def nth_append)

lemma complete_turn:
  assumes "length bs = unat (expt_len (ep_priv st))" "bs \<noteq> []" "efpg_receive bs (ep_priv st) = Some q" "expt_len q = expt_len (ep_priv st)"
  shows "efpg_turn E F (Some bs) st =
     Option.bind (if is_cmd q \<noteq> 0 then efpg_cmd_frame_process E F (st\<lparr>ep_priv := q\<lparr>recv_len := expt_len q\<rparr>\<rparr>)
        else efpg_data_frame_process E F (st\<lparr>ep_priv := q\<lparr>recv_len := expt_len q\<rparr>\<rparr>)) (\<lambda>(x, st2). Some (after_frame x st2))"
  using assms by (auto simp: efpg_turn_def after_frame_def Let_def intro!: Option.bind_cong)

text \<open>The state after a command to write has been accepted.\<close>

definition writing :: "efpg_priv \<Rightarrow> u8 list \<Rightarrow> efpg_field_t \<Rightarrow> u16 \<Rightarrow> efpg_priv" where
  "writing p c fld n = p\<lparr>cmd_frame := c, ep_op := EFPG_OP_WRITE, ep_field := fld, expt_len := n, is_cmd := 0, recv_len := 0\<rparr>"

lemma write_cmd_turn:
  assumes "obliging E absorbed H sent" "buffers_ok p" "ep_priv st = efpg_reset p" "field_of_type t = Some (fld, n)"
  shows "\<exists>u. efpg_turn E F (Some (tool_cmd 0xF00F t n x)) st =
     Some (True, st\<lparr>ep_priv := writing (efpg_reset p) (tool_cmd 0xF00F t n x) fld n, ep_env := u\<rparr>) \<and>
     sent u = sent (ep_env st) @ [ack_bytes EFPG_ACK_OK]"
proof -
  let ?c = "tool_cmd 0xF00F t n x"
  let ?q = "(efpg_reset p)\<lparr>cmd_frame := ?c\<rparr>"
  let ?w = "writing (efpg_reset p) ?c fld n"
  have rc: "efpg_receive ?c (ep_priv st) = Some ?q"
    using assms(2,3) by (simp add: efpg_receive_def efpg_reset_def fill_buf_def buffers_ok_def)
  have nt: "t \<noteq> EFPG_TYPE_USER_AREA" using assms(4) by (auto simp: field_of_type_def split: if_splits)
  have parse: "efpg_parse_cmd (?q\<lparr>recv_len := 8\<rparr>) = (0, ?w\<lparr>recv_len := 8, is_cmd := 1\<rparr>)"
    using nt assms(4) by (simp add: efpg_parse_cmd_def efpg_reset_def tool_cmd_fields parse_type_def Let_def writing_def)
  obtain u where u: "efpg_send_ack E EFPG_ACK_OK (st\<lparr>ep_priv := ?w\<rparr>) = (0, st\<lparr>ep_priv := ?w, ep_env := u\<rparr>)"
    "sent u = sent (ep_env st) @ [ack_bytes EFPG_ACK_OK]"
    using ack_sent [OF assms(1), of EFPG_ACK_OK "st\<lparr>ep_priv := ?w\<rparr>"] by auto
  have cs: "efpg_checksum8 (take 8 ?c) = 0xFF" by (metis take_all tool_cmd_len order_refl tool_cmd_def checksum_ok)
  have "efpg_cmd_frame_process E F (st\<lparr>ep_priv := ?q\<lparr>recv_len := 8\<rparr>\<rparr>) = Some (0, st\<lparr>ep_priv := ?w, ep_env := u\<rparr>)"
    using parse u(1) cs
    by (simp add: efpg_cmd_frame_process_def efpg_write_process_def efpg_reset_def writing_def Let_def)
  then have "efpg_turn E F (Some ?c) st = Some (True, st\<lparr>ep_priv := ?w, ep_env := u\<rparr>)"
    using complete_turn [of ?c st ?q E F] rc assms(3) by (simp add: after_frame_def efpg_reset_def)
  then show ?thesis using u(2) by blast
qed

lemma data_turn_written:
  assumes "obliging E absorbed H sent" "buffers_ok p" "ep_priv st = writing (efpg_reset p) c fld n"
    and f: "length f = unat n" "32 \<le> unat n" "unat n \<le> 108" "authentic H (key_of p) c f"
    and w: "efpg_write_field F fld (f @ drop (unat n) (data_frame p)) 0 0 (ep_fuse st) = Some (status, d, s)"
  shows "\<exists>u. efpg_turn E F (Some f) st =
      Some (True, st\<lparr>ep_priv := efpg_reset (p\<lparr>cmd_frame := c, data_frame := d\<rparr>), ep_fuse := s, ep_env := u\<rparr>) \<and>
    sent u = sent (ep_env st) @ [ack_bytes status]"
proof -
  let ?p = "ep_priv st"
  let ?data = "f @ drop (unat n) (data_frame p)"
  let ?q = "?p\<lparr>data_frame := ?data, recv_len := n\<rparr>"
  have rc: "efpg_receive f ?p = Some (?p\<lparr>data_frame := ?data\<rparr>)"
    using assms(2,3) f by (simp add: efpg_receive_def writing_def efpg_reset_def fill_buf_def buffers_ok_def)
  obtain u1 where u1: "msg_dgst E ?q (take (unat n - 32) f) (ep_env st) =
      (Some (H (cmd_frame ?q @ take (unat n - 32) f @ key_of ?q)), u1)" "sent u1 = sent (ep_env st)"
    using dgst_computed [OF assms(1)] by blast
  have n32: "\<not> n < 32" using f(2) by (simp add: word_less_nat_alt)
  have dg: "H (cmd_frame ?q @ take (unat n - 32) f @ key_of ?q) = drop (unat n - 32) f"
    using f assms(3) by (simp add: authentic_def writing_def efpg_reset_def)
  have t: "take 32 (drop (unat n - 32) ?data) = drop (unat n - 32) f" using f(1,2) by simp
  have check: "efpg_check_msg_dgst E (st\<lparr>ep_priv := ?q\<rparr>) = Some (0, st\<lparr>ep_priv := ?q, ep_env := u1\<rparr>)"
    using u1(1) dg t n32 f(1-3) assms(2)
    by (simp add: efpg_check_msg_dgst_def body_len_def Let_def buffers_ok_def)
  let ?s2 = "st\<lparr>ep_env := u1, ep_priv := ?q\<lparr>data_frame := d\<rparr>, ep_fuse := s\<rparr>"
  obtain u where u: "efpg_send_ack E status ?s2 = (0, ?s2\<lparr>ep_env := u\<rparr>)" "sent u = sent u1 @ [ack_bytes status]"
    using ack_sent [OF assms(1), of status ?s2] by auto
  have "efpg_data_frame_process E F (st\<lparr>ep_priv := ?q\<rparr>) = Some (1, ?s2\<lparr>ep_env := u\<rparr>)"
    using check w u(1) assms(3) by (simp add: efpg_data_frame_process_def Let_def writing_def efpg_reset_def)
  moreover have "f \<noteq> []" using f(1,2) by auto
  ultimately have "efpg_turn E F (Some f) st = Some (True, st\<lparr>ep_fuse := s, ep_env := u, ep_priv := efpg_reset (?q\<lparr>data_frame := d\<rparr>)\<rparr>)"
    using complete_turn [of f st "?p\<lparr>data_frame := ?data\<rparr>" E F] rc assms(3) f(1)
    by (simp add: after_frame_def writing_def efpg_reset_def)
  moreover have "efpg_reset (?q\<lparr>data_frame := d\<rparr>) = efpg_reset (p\<lparr>cmd_frame := c, data_frame := d\<rparr>)"
    using assms(3) by (simp add: efpg_reset_def writing_def)
  moreover have "st\<lparr>ep_fuse := s, ep_env := u, ep_priv := x\<rparr> = st\<lparr>ep_priv := x, ep_fuse := s, ep_env := u\<rparr>" for x
    by (cases st) simp
  ultimately show ?thesis using u(2) u1(2) by auto
qed

text \<open>A command to write, followed by a signed frame: the field is written, both are answered.\<close>

lemma write_exchange:
  assumes "obliging E absorbed H sent" "buffers_ok (ep_priv st)" "field_of_type t = Some (fld, n)"
    and f: "length f = unat n" "authentic H (key_of (ep_priv st)) (tool_cmd 0xF00F t n x) f"
    and w: "efpg_write_field F fld (f @ drop (unat n) (data_frame (ep_priv st))) 0 0 (ep_fuse st) = Some (status, d, s)"
  shows "\<exists>st'. efpg_task E F [Some (tool_cmd 0xF00F t n x), Some f] st = Some (True, st') \<and> ep_fuse st' = s \<and>
     buffers_ok (ep_priv st') = (length d = 108) \<and>
     sent (ep_env st') = sent (ep_env (call_cb (start_cb E) st)) @ [ack_bytes EFPG_ACK_OK, ack_bytes status]"
proof -
  let ?p = "ep_priv st" and ?c = "tool_cmd 0xF00F t n x"
  let ?s0 = "(call_cb (start_cb E) st)\<lparr>ep_priv := efpg_reset ?p\<rparr>"
  obtain u1 where 1: "efpg_turn E F (Some ?c) ?s0 = Some (True, ?s0\<lparr>ep_priv := writing (efpg_reset ?p) ?c fld n, ep_env := u1\<rparr>)"
    "sent u1 = sent (ep_env ?s0) @ [ack_bytes EFPG_ACK_OK]"
    using write_cmd_turn [OF assms(1,2) _ assms(3), of ?s0] by auto
  let ?s1 = "?s0\<lparr>ep_priv := writing (efpg_reset ?p) ?c fld n, ep_env := u1\<rparr>"
  have n: "32 \<le> unat n" "unat n \<le> 108" using assms(3) by (auto simp: field_of_type_def split: if_splits)
  obtain u2 where 2: "efpg_turn E F (Some f) ?s1 =
      Some (True, ?s1\<lparr>ep_priv := efpg_reset (?p\<lparr>cmd_frame := ?c, data_frame := d\<rparr>), ep_fuse := s, ep_env := u2\<rparr>)"
    "sent u2 = sent u1 @ [ack_bytes status]"
    using data_turn_written [OF assms(1,2), of ?s1 ?c fld n f F status d s] f n w by auto
  then show ?thesis using 1 assms(2) by (auto simp: efpg_task_def Let_def buffers_ok_def efpg_reset_def)
qed

section \<open>The extended command\<close>

lemma tool_ext_len [simp]: "length (tool_ext_cmd a b c d e) = 13"
  by (simp add: tool_ext_cmd_def with_checksum_def)

lemma tool_ext_ne [simp]: "tool_ext_cmd a b c d e \<noteq> []"
  by (simp add: tool_ext_cmd_def with_checksum_def)

lemma tool_ext_fields:
  "u16_of_bytes (tool_ext_cmd a b c d e) = a" "u16_of_bytes (drop 2 (tool_ext_cmd a b c d e)) = EFPG_TYPE_USER_AREA"
  "u16_of_bytes (drop 10 (tool_ext_cmd a b c d e)) = e"
  by (simp_all add: tool_ext_cmd_def with_checksum_def nth_append)

lemma announce_turn:
  assumes "obliging E absorbed H sent" "buffers_ok p" "ep_priv st = efpg_reset p"
  shows "\<exists>u q. efpg_turn E F (Some (tool_cmd 0xF00F EFPG_TYPE_USER_AREA 13 1)) st = Some (True, st\<lparr>ep_priv := q, ep_env := u\<rparr>) \<and>
     buffers_ok q \<and> is_cmd q = 1 \<and> ext_cmd q = 1 \<and> expt_len q = 13"
proof -
  let ?c = "tool_cmd 0xF00F EFPG_TYPE_USER_AREA 13 1"
  let ?q = "(efpg_reset p)\<lparr>cmd_frame := ?c\<rparr>"
  let ?w = "?q\<lparr>ext_cmd := 1, ep_op := EFPG_OP_WRITE, ep_field := EFPG_FIELD_UA, expt_len := 13, is_cmd := 1, recv_len := 0\<rparr>"
  have rc: "efpg_receive ?c (ep_priv st) = Some ?q"
    using assms(2,3) by (simp add: efpg_receive_def efpg_reset_def fill_buf_def buffers_ok_def)
  have parse: "efpg_parse_cmd (?q\<lparr>recv_len := 8\<rparr>) =
      (0, ?q\<lparr>recv_len := 8, ext_cmd := 1, ep_op := EFPG_OP_WRITE, ep_field := EFPG_FIELD_UA, expt_len := 13\<rparr>)"
    by (simp add: efpg_parse_cmd_def efpg_reset_def tool_cmd_fields parse_type_def Let_def)
  obtain u where u: "efpg_send_ack E EFPG_ACK_OK (st\<lparr>ep_priv := ?w\<rparr>) = (0, st\<lparr>ep_priv := ?w, ep_env := u\<rparr>)"
    using ack_sent [OF assms(1), of EFPG_ACK_OK "st\<lparr>ep_priv := ?w\<rparr>"] by auto
  have cs: "efpg_checksum8 (take 8 ?c) = 0xFF" by (metis take_all tool_cmd_len order_refl tool_cmd_def checksum_ok)
  have "efpg_cmd_frame_process E F (st\<lparr>ep_priv := ?q\<lparr>recv_len := 8\<rparr>\<rparr>) = Some (0, st\<lparr>ep_priv := ?w, ep_env := u\<rparr>)"
    using parse u cs
    by (simp add: efpg_cmd_frame_process_def efpg_ext_cmd_process_def efpg_reset_def Let_def)
  then have "efpg_turn E F (Some ?c) st = Some (True, st\<lparr>ep_priv := ?w, ep_env := u\<rparr>)"
    using complete_turn [of ?c st ?q E F] rc assms(3) by (simp add: after_frame_def efpg_reset_def)
  moreover have "buffers_ok ?w" "is_cmd ?w = 1" "ext_cmd ?w = 1" "expt_len ?w = 13"
    using assms(2) by (simp_all add: buffers_ok_def efpg_reset_def)
  ultimately show ?thesis by blast
qed

lemma ext_turn:
  assumes "obliging E absorbed H sent" "buffers_ok p" "ep_priv st = p" "is_cmd p = 1" "ext_cmd p = 1" "expt_len p = 13"
  shows "\<exists>u q. efpg_turn E F (Some (tool_ext_cmd 0xF00F b c d bits)) st = Some (True, st\<lparr>ep_priv := q, ep_env := u\<rparr>) \<and>
     buffers_ok q \<and> is_cmd q = 0 \<and> expt_len q = ua_frame_len bits"
proof -
  let ?c = "tool_ext_cmd 0xF00F b c d bits"
  let ?q = "p\<lparr>ext_cmd_frame := ?c\<rparr>"
  obtain q where q: "efpg_parse_cmd (?q\<lparr>recv_len := 13\<rparr>) = (0, q)" "is_cmd q = 1" "ext_cmd q = 0" "ep_op q = EFPG_OP_WRITE"
    "expt_len q = ua_frame_len bits" "buffers_ok q"
    using assms(2,4,5) by (simp add: efpg_parse_cmd_def tool_ext_fields parse_type_def Let_def ua_frame_len_def buffers_ok_def)
  let ?w = "q\<lparr>is_cmd := 0, recv_len := 0\<rparr>"
  have rc: "efpg_receive ?c (ep_priv st) = Some ?q"
    using assms by (simp add: efpg_receive_def fill_buf_def buffers_ok_def)
  obtain u where u: "efpg_send_ack E EFPG_ACK_OK (st\<lparr>ep_priv := ?w\<rparr>) = (0, st\<lparr>ep_priv := ?w, ep_env := u\<rparr>)"
    using ack_sent [OF assms(1), of EFPG_ACK_OK "st\<lparr>ep_priv := ?w\<rparr>"] by auto
  have cs: "efpg_checksum8 (take 13 ?c) = 0xFF" by (metis take_all tool_ext_len order_refl tool_ext_cmd_def checksum_ok)
  have "efpg_cmd_frame_process E F (st\<lparr>ep_priv := ?q\<lparr>recv_len := 13\<rparr>\<rparr>) = Some (0, st\<lparr>ep_priv := ?w, ep_env := u\<rparr>)"
    using q u cs assms(5) by (simp add: efpg_cmd_frame_process_def efpg_write_process_def Let_def)
  then have "efpg_turn E F (Some ?c) st = Some (True, st\<lparr>ep_priv := ?w, ep_env := u\<rparr>)"
    using complete_turn [of ?c st ?q E F] rc assms(3,4,6) by (simp add: after_frame_def)
  moreover have "buffers_ok ?w" "is_cmd ?w = 0" "expt_len ?w = ua_frame_len bits"
    using q(5,6) by (simp_all add: buffers_ok_def)
  ultimately show ?thesis by blast
qed

lemma overflow_turn:
  assumes "is_cmd (ep_priv st) = 0" "buffers_ok (ep_priv st)" "108 < unat (expt_len (ep_priv st))" "108 < length f"
  shows "efpg_turn E F (Some f) st = None"
proof -
  have "take (unat (expt_len (ep_priv st))) f \<noteq> []" using assms(3,4) by (cases f) auto
  moreover have "efpg_receive (take (unat (expt_len (ep_priv st))) f) (ep_priv st) = None"
    using assms by (simp add: efpg_receive_def fill_buf_def buffers_ok_def)
  ultimately show ?thesis by (simp add: efpg_turn_def)
qed

text \<open>The two commands and then more bytes than the buffer has.\<close>

lemma overflow_exchange:
  assumes "obliging E absorbed H sent" "buffers_ok (ep_priv st)" "608 < unat bits" "108 < length f"
  shows "efpg_task E F [Some (tool_cmd 0xF00F EFPG_TYPE_USER_AREA 13 1), Some (tool_ext_cmd 0xF00F len version start bits), Some f] st = None"
proof -
  let ?s0 = "(call_cb (start_cb E) st)\<lparr>ep_priv := efpg_reset (ep_priv st)\<rparr>"
  obtain u1 q1 where 1: "efpg_turn E F (Some (tool_cmd 0xF00F EFPG_TYPE_USER_AREA 13 1)) ?s0 = Some (True, ?s0\<lparr>ep_priv := q1, ep_env := u1\<rparr>)"
    "buffers_ok q1" "is_cmd q1 = 1" "ext_cmd q1 = 1" "expt_len q1 = 13"
    using announce_turn [OF assms(1,2), of ?s0 F] by auto
  obtain u2 q2 where 2: "efpg_turn E F (Some (tool_ext_cmd 0xF00F len version start bits)) (?s0\<lparr>ep_priv := q1, ep_env := u1\<rparr>) =
      Some (True, ?s0\<lparr>ep_priv := q2, ep_env := u2\<rparr>)" "buffers_ok q2" "is_cmd q2 = 0" "expt_len q2 = ua_frame_len bits"
    using ext_turn [OF assms(1) 1(2), of "?s0\<lparr>ep_priv := q1, ep_env := u1\<rparr>" F len version start bits] 1(3-5) by auto
  have "108 < unat (ua_frame_len bits)" using assms(3) unfolding unat_ua_frame_len by linarith
  then have "efpg_turn E F (Some f) (?s0\<lparr>ep_priv := q2, ep_env := u2\<rparr>) = None"
    using overflow_turn [of "?s0\<lparr>ep_priv := q2, ep_env := u2\<rparr>" f E F] 2 assms(4) by simp
  then show ?thesis using 1(1) 2(1) by (simp add: efpg_task_def Let_def)
qed

end
