(* ===== verification/Efpg_Sim.thy ===== *)
theory Efpg_Sim
  imports Efpg_Exchange
begin

text \<open>
  A perfect eFuse controller and an environment that never fails, on which the statements about
  the eFuses and the programming protocol are applied.
\<close>

definition sim_fuse_hw :: "(nat \<Rightarrow> u32) fuse_hw" where
  "sim_fuse_hw = \<lparr>fuse_value = (\<lambda>e. e), fuse_program = (\<lambda>i v e. e(i := e i OR v)), fuse_update = (\<lambda>e. e)\<rparr>"

definition sim_efuse :: "(nat \<Rightarrow> u32) efuse_hal" where
  "sim_efuse = \<lparr>gEfuseState = EFUSE_STATE_INVALID, ef_hw = (\<lambda>_. 0), ef_clock = 40000000, ef_mallocs = [], ef_junk = (\<lambda>_. 0)\<rparr>"

lemma sim_fuse_hw_ok: "fuse_hw_ok sure sim_fuse_hw (\<lambda>e. e)"
  by (auto simp: fuse_hw_ok_def sim_fuse_hw_def burns_def fuse_bit_def bit_or_iff)

lemma sim_efuse_idle: "hal_idle sure sim_fuse_hw (\<lambda>e. e) sim_efuse"
  by (simp add: hal_idle_def sim_fuse_hw_ok efuse_idle_def sim_efuse_def HOSC_CLOCKS_def) (simp add: sim_fuse_hw_def)

lemma sim_efuse_blank: "\<not> hal_fuses (\<lambda>e. e) sim_efuse k"
  by (simp add: hal_fuses_def fuse_bit_def sim_efuse_def)

text \<open>The environment keeps what the hash engine absorbed and what was sent.\<close>

type_synonym sim_env = "u8 list \<times> u8 list list"

definition sim_hash :: "u8 list \<Rightarrow> u8 list" where
  "sim_hash bs = take 32 (rev bs @ replicate 32 0)"

definition sim_efpg_env :: "sim_env efpg_env" where
  "sim_efpg_env = \<lparr>env_malloc = (\<lambda>n u. (True, u)), env_transmit = (\<lambda>d (a, out). (int (length d), (a, out @ [d]))),
     HAL_SHA256_Init = (\<lambda>(a, out). (HAL_OK, ([], out))), HAL_SHA256_Append = (\<lambda>d (a, out). (HAL_OK, (a @ d, out))),
     HAL_SHA256_Finish = (\<lambda>(a, out). (HAL_OK, sim_hash a, (a, out))), start_cb = None, stop_cb = None\<rparr>"

lemma sim_obliging: "obliging sim_efpg_env fst sim_hash snd"
  by (auto simp: obliging_def sim_efpg_env_def sim_hash_def)

lemma sim_digests: "digests sim_efpg_env fst sim_hash"
  by (auto simp: digests_def sim_efpg_env_def sim_hash_def)

definition sim_key :: "u8 list" where
  "sim_key = replicate 64 7"

definition sim_priv :: efpg_priv where
  "sim_priv = \<lparr>key = sim_key, key_len = 8, is_cmd = 0, ext_cmd = 0, cmd_frame = replicate 8 0, data_frame = replicate 108 0,
     ext_cmd_frame = replicate 13 0, expt_len = 0, recv_len = 0, protocol_version = 0, start_bit_addr = 0, bit_length = 0,
     ep_op = EFPG_OP_NUM, ep_field = EFPG_FIELD_NUM\<rparr>"

definition sim_efpg :: "(sim_env, (nat \<Rightarrow> u32) efuse_hal) efpg_st" where
  "sim_efpg = \<lparr>ep_priv = sim_priv, ep_env = ([], []), ep_fuse = sim_efuse\<rparr>"

lemma sim_efpg_ok: "buffers_ok (ep_priv sim_efpg)" "ep_fuse sim_efpg = sim_efuse" "take (unat (key_len (ep_priv sim_efpg))) (key (ep_priv sim_efpg)) = replicate 8 7"
  by (simp_all add: buffers_ok_def sim_efpg_def sim_priv_def sim_key_def)

text \<open>A signed frame for a command.\<close>

definition sim_frame :: "u8 list \<Rightarrow> u8 list \<Rightarrow> u8 list" where
  "sim_frame c d = d @ sim_hash (c @ d @ replicate 8 7)"

lemma sim_frame_ok: "authentic sim_hash (replicate 8 7) c (sim_frame c d)" "length (sim_frame c d) = length d + 32"
  by (simp_all add: authentic_def sim_frame_def sim_hash_def)

lemma sim_efpg_data: "data_frame (ep_priv sim_efpg) = replicate 108 0"
  by (simp add: sim_efpg_def sim_priv_def)

lemma sim_efpg_quiet: "call_cb (start_cb sim_efpg_env) st = st" "ep_env sim_efpg = ([], [])"
  by (simp_all add: call_cb_def sim_efpg_env_def sim_efpg_def)

text \<open>Programming the crystal's type, 12, sets the fuses 387 and 388.\<close>

lemma sim_hosc_written:
  assumes "length rest = 107"
  shows "\<exists>status d s. efpg_write_field (hal_fuse_if sim_fuse_hw) EFPG_FIELD_HOSC (12 # rest) 0 0 sim_efuse = Some (status, d, s) \<and>
     hal_fuses (\<lambda>e. e) s 387 \<and> length d = 108"
proof -
  let ?F = "hal_fuse_if sim_fuse_hw"
  obtain d s where w: "fi_write ?F 385 4 (12 # rest) sim_efuse = Some (HAL_OK, d, s)" "hal_idle True sim_fuse_hw (\<lambda>e. e) s" "length d = 108"
    "burns True (\<lambda>k. unat (385 :: u32) \<le> k \<and> k < unat (385 :: u32) + unat (4 :: u32) \<and> buf_bit (12 # rest) (k - unat (385 :: u32)))
       (hal_fuses (\<lambda>e. e) sim_efuse) (hal_fuses (\<lambda>e. e) s)"
    using hal.write_law [OF sim_efuse_idle [of True], of 4 385 "12 # rest"] assms by auto
  have "bit (12 :: u8) 2" by (simp add: bit_numeral_rec)
  then have b: "hal_fuses (\<lambda>e. e) s 387" using w(4) by (simp add: burns_def buf_bit_def)
  obtain buf s' where r: "fi_read ?F 385 4 [0] s = Some (HAL_OK, buf, s')" "hal_fuses (\<lambda>e. e) s' = hal_fuses (\<lambda>e. e) s"
    using hal.read_law [OF w(2), of 4 385 "[0]"] by auto
  show ?thesis using w(1,3) r b
    by (simp add: efpg_write_field_def efpg_write_hosc_def write_plain_def read_back_def)
qed

definition sim_hosc_frames :: "u8 list option list" where
  "sim_hosc_frames = [Some (tool_cmd 0xF00F 0xFF00 33 0), Some (sim_frame (tool_cmd 0xF00F 0xFF00 33 0) [12])]"

lemma sim_hosc_exchange:
  "\<exists>st'. efpg_task sim_efpg_env (hal_fuse_if sim_fuse_hw) sim_hosc_frames sim_efpg = Some (True, st') \<and>
    hal_fuses (\<lambda>e. e) (ep_fuse st') 387"
proof -
  let ?f = "sim_frame (tool_cmd 0xF00F 0xFF00 33 0) [12]"
  have l: "length ?f = unat (33 :: u16)" by (simp add: sim_frame_ok)
  have f: "?f @ drop 33 (data_frame (ep_priv sim_efpg)) = 12 # (sim_hash (tool_cmd 0xF00F 0xFF00 33 0 @ [12] @ replicate 8 7) @ replicate 75 0)"
    by (simp add: sim_frame_def sim_efpg_data)
  obtain status d s where w: "efpg_write_field (hal_fuse_if sim_fuse_hw) EFPG_FIELD_HOSC (?f @ drop 33 (data_frame (ep_priv sim_efpg))) 0 0 sim_efuse =
      Some (status, d, s)" "hal_fuses (\<lambda>e. e) s 387"
    using sim_hosc_written [of "sim_hash (tool_cmd 0xF00F 0xFF00 33 0 @ [12] @ replicate 8 7) @ replicate 75 0"] unfolding f
    by (auto simp: sim_hash_def)
  have t: "field_of_type 0xFF00 = Some (EFPG_FIELD_HOSC, 33)" by (simp add: field_of_type_def)
  have a: "authentic sim_hash (take (unat (key_len (ep_priv sim_efpg))) (key (ep_priv sim_efpg))) (tool_cmd 0xF00F 0xFF00 33 0) ?f"
    unfolding sim_efpg_ok(3) by (rule sim_frame_ok)
  show ?thesis using write_exchange [OF sim_obliging sim_efpg_ok(1) t l a] w sim_efpg_ok(2) unfolding sim_hosc_frames_def by fastforce
qed

end
