(* ===== verification/SmartConfig.thy ===== *)
theory SmartConfig
  imports Pm_Wakelock
begin

text \<open>
  The receiver of network credentials, \<open>src/smartlink/smartconfig\<close>: an application on a phone
  sends the name and the password of the access point as multicast frames whose destination
  addresses carry the data; the device, which cannot decrypt them yet, sees the addresses only.
  Four frames with a lead code announce the channel, the lengths and a random number, then chunks
  of two bytes follow, numbered from 5.  The radio and \<open>sc_assistant\<close> (a binary library) are
  outside, their calls are logged; the AES engine is a parameter.
\<close>

section \<open>State\<close>

datatype sc_status = SC_STATUS_END | SC_STATUS_SEARCH_CHAN | SC_STATUS_LOCKED_CHAN | SC_STATUS_COMPLETE

datatype leadcode_seq = LEAD_CODE_NOME | LEAD_CODE_GET_CHANNEL | LEAD_CODE_GET_SSIDPWD_SIZE | LEAD_CODE_GET_PWD_SIZE
  | LEAD_CODE_GET_ROUND_NUM | LEAD_CODE_COMPLETE

record sc_lead_code =
  lc_channel :: int
  lc_ssidpwd_len :: int
  lc_pwd_len :: int
  lc_packet_total :: int
  lc_packet_count :: int
  lc_random :: u8
  lc_locked_mac_flag :: int
  lc_lead_complete_flag :: u8
  lc_count_pkt :: "u8 list"

record sc_result =
  sr_ssid :: "u8 list"
  sr_pwd :: "u8 list"
  sr_ssid_len :: u8
  sr_pwd_len :: u8
  sr_random :: u8

record smartconfig_priv =
  sp_aes_key :: "u8 list"
  sp_lead_code :: sc_lead_code
  sp_status :: sc_status
  sp_result :: sc_result
  sp_waiting :: u8
  sp_ack_run :: u8
  sp_src_data_buff :: "u8 list"

abbreviation (input) WLAN_SSID_MAX_LEN :: nat where "WLAN_SSID_MAX_LEN \<equiv> 32"
abbreviation (input) WLAN_PASSPHRASE_MAX_LEN :: nat where "WLAN_PASSPHRASE_MAX_LEN \<equiv> 63"
abbreviation (input) SC_BUFF_LEN :: nat where "SC_BUFF_LEN \<equiv> 256"

text \<open>The AES engine in ECB mode: input and key give the output, or a failure.\<close>

type_synonym aes = "u8 list \<Rightarrow> u8 list \<Rightarrow> u8 list option"

section \<open>Checksum\<close>

definition crc8_shift :: "u8 \<Rightarrow> u8" where
  "crc8_shift crc = (if crc AND 1 \<noteq> 0 then drop_bit 1 crc XOR 0x31 else drop_bit 1 crc)"

definition cal_crc8 :: "u8 list \<Rightarrow> u8" where
  "cal_crc8 bs = fold (\<lambda>b crc. (crc8_shift ^^ 8) (crc XOR b)) bs 0"

section \<open>Lead codes\<close>

text \<open>The bit of a packet in the map of those that have been seen, the highest bit first.\<close>

definition packet_bit :: "u8 \<Rightarrow> u8" where
  "packet_bit packet_num = push_bit (8 - unat packet_num mod 8 - 1) 1"

definition dec_valid_packet_count :: "u8 list \<Rightarrow> u8 \<Rightarrow> int \<times> u8 list" where
  "dec_valid_packet_count count_pkt packet_num =
     (if packet_num > 127 then (0, count_pkt) else
      let i = unat packet_num div 8 in
      if count_pkt ! i AND packet_bit packet_num \<noteq> 0 then (0, count_pkt)
      else (1, count_pkt[i := count_pkt ! i OR packet_bit packet_num]))"

definition sc_reset_lead_code :: "sc_lead_code" where
  "sc_reset_lead_code = \<lparr>lc_channel = 0, lc_ssidpwd_len = 0, lc_pwd_len = - 1, lc_packet_total = 0, lc_packet_count = 0,
     lc_random = 0, lc_locked_mac_flag = 0, lc_lead_complete_flag = 0, lc_count_pkt = replicate 16 0\<rparr>"

text \<open>\<open>i_addr1\<close> and \<open>i_addr3\<close> of a frame.\<close>

definition frame_addr :: "u8 list \<Rightarrow> u8 \<Rightarrow> u8 list" where
  "frame_addr frame addr_src = take 6 (drop (if addr_src = 1 then 4 else 16) frame)"

definition lead_ready :: "sc_lead_code \<Rightarrow> sc_status \<Rightarrow> bool" where
  "lead_ready l status \<longleftrightarrow> \<not> (status \<noteq> SC_STATUS_LOCKED_CHAN \<or> lc_ssidpwd_len l = 0 \<or> lc_pwd_len l = - 1 \<or> lc_random l = 0)"

definition dec_get_lead_code ::
  "u8 list \<Rightarrow> sc_lead_code \<Rightarrow> u8 \<Rightarrow> sc_status \<Rightarrow> u8 \<Rightarrow> leadcode_seq \<times> sc_lead_code \<times> sc_status" where
  "dec_get_lead_code iframe l packet_num status addr_src =
     (if addr_src \<noteq> 1 \<and> addr_src \<noteq> 3 then (LEAD_CODE_NOME, l, status) else
      let data = frame_addr iframe addr_src ! 4; crc = frame_addr iframe addr_src ! 5 in
      if packet_num = 0 \<or> packet_num > 4 then (LEAD_CODE_NOME, l, status)
      else if lead_ready l status then (LEAD_CODE_COMPLETE, l\<lparr>lc_locked_mac_flag := 0\<rparr>, status)
      else if cal_crc8 [data] \<noteq> crc then (LEAD_CODE_NOME, l, status)
      else
        let l = l\<lparr>lc_locked_mac_flag := 1\<rparr>; v = int (unat data) in
        if packet_num = 1 then (LEAD_CODE_GET_CHANNEL, l\<lparr>lc_channel := v\<rparr>, SC_STATUS_LOCKED_CHAN)
        else if packet_num = 2 then
          (LEAD_CODE_GET_SSIDPWD_SIZE, l\<lparr>lc_ssidpwd_len := v, lc_packet_total := v div 2 + 1 + v mod 2\<rparr>, status)
        else if packet_num = 3 then (LEAD_CODE_GET_PWD_SIZE, l\<lparr>lc_pwd_len := v\<rparr>, status)
        else (LEAD_CODE_GET_ROUND_NUM, l\<lparr>lc_random := data\<rparr>, status))"

section \<open>Decoding\<close>

definition put_ssid :: "u8 list \<Rightarrow> nat \<Rightarrow> sc_result \<Rightarrow> sc_result" where
  "put_ssid src n r = r\<lparr>sr_ssid_len := of_nat n, sr_ssid := take n src @ drop n (sr_ssid r)\<rparr>"

definition put_pwd :: "u8 list \<Rightarrow> nat \<Rightarrow> sc_result \<Rightarrow> sc_result" where
  "put_pwd src n r = r\<lparr>sr_pwd_len := of_nat n, sr_pwd := take n src @ 0 # drop (n + 1) (sr_pwd r)\<rparr>"

text \<open>The loop over the padding: \<open>None\<close> when it reads in front of the buffer.\<close>

fun pad_loop :: "u8 list \<Rightarrow> nat \<Rightarrow> u8 \<Rightarrow> nat list \<Rightarrow> bool option" where
  "pad_loop temp len dlen [] = Some True"
| "pad_loop temp len dlen (i # is) =
     (if len \<le> i then None else if temp ! (len - 1 - i) \<noteq> dlen then Some False else pad_loop temp len dlen is)"

text \<open>
  One encrypted field into a zeroed buffer of \<open>cap\<close> bytes: the plain bytes with their number, or
  \<open>Some None\<close> when the engine fails or the padding is wrong.
\<close>

definition decrypt_field :: "aes \<Rightarrow> u8 list \<Rightarrow> nat \<Rightarrow> u8 list \<Rightarrow> nat \<Rightarrow> (u8 list \<times> int) option option" where
  "decrypt_field A key cap src len =
     (case A (take len src) key of
        None \<Rightarrow> Some None
      | Some out \<Rightarrow>
          if cap < length out then None else
          let temp = out @ drop (length out) (replicate cap 0); dlen = temp ! (len - 1) in do {
            ok \<leftarrow> pad_loop temp len dlen [0..<unat dlen];
            Some (if ok then Some (temp, int len - int (unat dlen)) else None)
          })"

definition decode_pwd :: "aes \<Rightarrow> u8 list \<Rightarrow> u8 list \<Rightarrow> nat \<Rightarrow> sc_result \<Rightarrow> (bool \<times> sc_result) option" where
  "decode_pwd A key src len r =
     (if len = 0 then Some (True, r) else do {
        f \<leftarrow> decrypt_field A key 66 src len;
        case f of
          None \<Rightarrow> Some (False, r)
        | Some (temp, n) \<Rightarrow>
            if 0 \<le> n \<and> n \<le> int WLAN_PASSPHRASE_MAX_LEN then Some (True, put_pwd temp (nat n) r) else Some (False, r)
      })"

definition decode_ssid :: "aes \<Rightarrow> u8 list \<Rightarrow> u8 list \<Rightarrow> nat \<Rightarrow> sc_result \<Rightarrow> (bool \<times> sc_result) option" where
  "decode_ssid A key src len r =
     (if len = 0 then Some (True, r) else do {
        f \<leftarrow> decrypt_field A key 65 src len;
        case f of
          None \<Rightarrow> Some (False, r)
        | Some (temp, n) \<Rightarrow>
            if 0 < n \<and> n \<le> int WLAN_SSID_MAX_LEN then Some (True, put_ssid temp (nat n) r) else Some (False, r)
      })"

definition decode_plain :: "u8 list \<Rightarrow> nat \<Rightarrow> nat \<Rightarrow> sc_result \<Rightarrow> bool \<times> sc_result" where
  "decode_plain src pwd_size ssid_size r =
     (if \<not> (0 < ssid_size \<and> ssid_size \<le> WLAN_SSID_MAX_LEN) then (False, r) else
      let r = put_ssid (drop pwd_size src) ssid_size r in
      if pwd_size \<le> WLAN_PASSPHRASE_MAX_LEN then (True, put_pwd src pwd_size r) else (False, r))"

definition decode_fields :: "aes \<Rightarrow> u8 list \<Rightarrow> u8 list \<Rightarrow> nat \<Rightarrow> nat \<Rightarrow> sc_result \<Rightarrow> (bool \<times> sc_result) option" where
  "decode_fields A key src pwd_size ssid_size r =
     (if key ! 0 \<noteq> 0 then
        if pwd_size \<ge> 66 \<or> ssid_size \<ge> 65 then Some (False, r) else do {
          (ok, r) \<leftarrow> decode_pwd A key src pwd_size r;
          if ok then decode_ssid A key (drop pwd_size src) ssid_size r else Some (False, r)
        }
      else Some (decode_plain src pwd_size ssid_size r))"

definition buff_at :: "u8 list \<Rightarrow> int \<Rightarrow> u8 option" where
  "buff_at b i = (if 0 \<le> i \<and> i < int (length b) then Some (b ! nat i) else None)"

text \<open>The result, the buffer and 0 for success; the result is written before it is checked.\<close>

definition dec_data_decode ::
  "aes \<Rightarrow> u8 list \<Rightarrow> sc_result \<Rightarrow> sc_lead_code \<Rightarrow> u8 list \<Rightarrow> (int \<times> sc_result \<times> u8 list) option" where
  "dec_data_decode A key r l src =
     (let ssid_size = unat (word_of_int (lc_ssidpwd_len l - lc_pwd_len l) :: u8);
          pwd_size = unat (word_of_int (lc_pwd_len l) :: u8) in
      if ssid_size + pwd_size \<ge> SC_BUFF_LEN then Some (- 1, r, src) else do {
        (ok, r) \<leftarrow> decode_fields A key src pwd_size ssid_size r;
        if \<not> ok then Some (- 1, r, src) else
          let r = r\<lparr>sr_random := lc_random l\<rparr>; i = lc_ssidpwd_len l mod 2 in do {
            crc8_pwd \<leftarrow> buff_at src (lc_ssidpwd_len l + i);
            if cal_crc8 (take (unat (sr_pwd_len r)) (sr_pwd r)) \<noteq> crc8_pwd then Some (- 1, r, src[0 := 0]) else do {
              crc8_ssid \<leftarrow> buff_at src (lc_ssidpwd_len l + i + 1);
              if cal_crc8 (take (unat (sr_ssid_len r)) (sr_ssid r)) \<noteq> crc8_ssid then Some (- 1, r, src[0 := 0])
              else Some (0, r, src[0 := 0])
            }
          }
      })"

text \<open>A chunk of two bytes.\<close>

definition dec_push_data :: "sc_lead_code \<Rightarrow> u8 \<Rightarrow> u8 list \<Rightarrow> u8 list \<Rightarrow> (int \<times> sc_lead_code \<times> u8 list) option" where
  "dec_push_data l packet_num src data =
     (let packet_num = packet_num - 5;
          (new, cp) = dec_valid_packet_count (lc_count_pkt l) packet_num;
          l = l\<lparr>lc_count_pkt := cp, lc_packet_count := lc_packet_count l + new\<rparr>;
          i = unat packet_num * 2 in
      if length src \<le> i + 1 then None
      else Some (lc_packet_count l - lc_packet_total l, l, src[i := data ! 0, i + 1 := data ! 1]))"

definition is_magic :: "u8 list \<Rightarrow> bool" where
  "is_magic a \<longleftrightarrow> take 3 a = [0x01, 0x00, 0x5E]"

text \<open>Which address carries the code: 0xff for none, the third address wins over the first.\<close>

definition addr_source :: "u8 list \<Rightarrow> u8" where
  "addr_source frame = (if is_magic (frame_addr frame 3) then 3 else if is_magic (frame_addr frame 1) then 1 else 0xFF)"

text \<open>The end of \<open>sc_dec_packet_decode\<close>, once a chunk has been stored.\<close>

definition finish_decode :: "aes \<Rightarrow> smartconfig_priv \<Rightarrow> (sc_status \<times> smartconfig_priv) option" where
  "finish_decode A p =
     (let l = sp_lead_code p in
      if sp_status p \<noteq> SC_STATUS_COMPLETE \<and> lc_packet_total l = lc_packet_count l then do {
        (ret, r, src) \<leftarrow> dec_data_decode A (sp_aes_key p) (sp_result p) l (sp_src_data_buff p);
        let p = p\<lparr>sp_result := r, sp_src_data_buff := src\<rparr> in
        if ret \<noteq> 0 then Some (SC_STATUS_END, p\<lparr>sp_lead_code := sc_reset_lead_code, sp_src_data_buff := src[0 := 0]\<rparr>)
        else Some (SC_STATUS_COMPLETE, p)
      }
      else Some (sp_status p, p))"

definition sc_dec_packet_decode :: "aes \<Rightarrow> smartconfig_priv \<Rightarrow> u8 list \<Rightarrow> (sc_status \<times> smartconfig_priv) option" where
  "sc_dec_packet_decode A p frame =
     (let addr_src = addr_source frame; a = frame_addr frame addr_src; packet_num = a ! 3; l = sp_lead_code p in
      if addr_src = 0xFF then Some (sp_status p, p)
      else if 0 < packet_num \<and> packet_num < 5 then
        if lc_lead_complete_flag l = 0 then
          let (ret, l, status) = dec_get_lead_code frame l packet_num (sp_status p) addr_src;
              l = (if ret = LEAD_CODE_COMPLETE then l\<lparr>lc_lead_complete_flag := 1\<rparr> else l) in
          Some (status, p\<lparr>sp_lead_code := l\<rparr>)
        else Some (sp_status p, p)
      else if lc_lead_complete_flag l = 0 then Some (sp_status p, p)
      else if 5 \<le> packet_num \<and> packet_num \<le> 127 then do {
        (d, l, src) \<leftarrow> dec_push_data l packet_num (sp_src_data_buff p) (drop 4 a);
        let p = p\<lparr>sp_lead_code := l, sp_src_data_buff := src\<rparr> in
        if d \<noteq> 0 then Some (sp_status p, p) else finish_decode A p
      }
      else finish_decode A p)"

definition sc_read_locked_channel :: "smartconfig_priv \<Rightarrow> u16" where
  "sc_read_locked_channel p = word_of_int (lc_channel (sp_lead_code p))"

section \<open>The service\<close>

datatype sc_call = sc_newstatus_complete | sc_newstatus_locked "u8 list" | sc_connect_ap "u8 list" "u8 list option"
  | sc_open_sta | sc_stop_connect_ap | sc_unregister_cbs | sc_send_ack u8

record smartconfig =
  sc_priv :: "smartconfig_priv option"
  sc_calls :: "sc_call list"

definition sc_log :: "sc_call \<Rightarrow> smartconfig \<Rightarrow> smartconfig" where
  "sc_log c s = s\<lparr>sc_calls := sc_calls s @ [c]\<rparr>"

text \<open>The address of the access point, by the direction of the frame.\<close>

definition frame_ap_mac :: "u8 list \<Rightarrow> u8 list" where
  "frame_ap_mac frame =
     (let dir = frame ! 1 AND 3 in take 6 (drop (if dir = 0 then 16 else if dir = 2 then 10 else 4) frame))"

definition smartconfig_recv_rawframe :: "aes \<Rightarrow> u8 list \<Rightarrow> smartconfig \<Rightarrow> smartconfig option" where
  "smartconfig_recv_rawframe A frame s =
     (case sc_priv s of
        None \<Rightarrow> Some s
      | Some p \<Rightarrow>
          if length frame < 24 then Some s else do {
            (status, p) \<leftarrow> sc_dec_packet_decode A p frame;
            let s = s\<lparr>sc_priv := Some p\<rparr> in
            if status = SC_STATUS_COMPLETE \<and> sp_status p \<noteq> SC_STATUS_COMPLETE then
              Some (sc_log sc_newstatus_complete (s\<lparr>sc_priv := Some (p\<lparr>sp_status := status\<rparr>)\<rparr>))
            else if status = SC_STATUS_LOCKED_CHAN \<and> sp_status p \<noteq> status then
              Some (sc_log (sc_newstatus_locked (frame_ap_mac frame)) (s\<lparr>sc_priv := Some (p\<lparr>sp_status := status\<rparr>)\<rparr>))
            else Some s
          })"

fun recv_frames :: "aes \<Rightarrow> u8 list list \<Rightarrow> smartconfig \<Rightarrow> smartconfig option" where
  "recv_frames A [] s = Some s"
| "recv_frames A (f # fs) s = do { s \<leftarrow> smartconfig_recv_rawframe A f s; recv_frames A fs s }"

section \<open>Starting, waiting and stopping\<close>

definition zero_priv :: smartconfig_priv where
  "zero_priv = \<lparr>sp_aes_key = replicate 16 0, sp_lead_code = sc_reset_lead_code\<lparr>lc_pwd_len := 0\<rparr>, sp_status = SC_STATUS_END,
     sp_result = \<lparr>sr_ssid = replicate 32 0, sr_pwd = replicate 64 0, sr_ssid_len = 0, sr_pwd_len = 0, sr_random = 0\<rparr>,
     sp_waiting = 0, sp_ack_run = 0, sp_src_data_buff = replicate 256 0\<rparr>"

text \<open>\<open>regs\<close> says whether the two callbacks could be registered.\<close>

definition smartconfig_start :: "bool \<times> bool \<Rightarrow> smartconfig_priv \<Rightarrow> bool \<times> smartconfig_priv" where
  "smartconfig_start regs p = (fst regs \<and> snd regs, p\<lparr>sp_status := SC_STATUS_SEARCH_CHAN\<rparr>)"

definition wlan_smart_config_start ::
  "bool \<Rightarrow> u8 list option \<Rightarrow> bool \<Rightarrow> bool \<times> bool \<Rightarrow> smartconfig \<Rightarrow> int \<times> smartconfig" where
  "wlan_smart_config_start nif key malloc regs s =
     (if \<not> nif \<or> sc_priv s \<noteq> None then (- 1, s)
      else if \<not> malloc then (- 12, s)
      else
        let p = zero_priv\<lparr>sp_lead_code := sc_reset_lead_code, sp_status := SC_STATUS_SEARCH_CHAN\<rparr>;
            failed = (- 1, s\<lparr>sc_priv := None\<rparr>) in
        case key of
          None \<Rightarrow> (let (ok, p) = smartconfig_start regs p in if ok then (0, s\<lparr>sc_priv := Some p\<rparr>) else failed)
        | Some k \<Rightarrow>
            if length k \<noteq> 16 then failed
            else let (ok, p) = smartconfig_start regs (p\<lparr>sp_aes_key := k\<rparr>) in if ok then (0, s\<lparr>sc_priv := Some p\<rparr>) else failed)"

definition wlan_smart_config_get_status :: "smartconfig \<Rightarrow> sc_status" where
  "wlan_smart_config_get_status s = (case sc_priv s of None \<Rightarrow> SC_STATUS_END | Some p \<Rightarrow> sp_status p)"

record wlan_smart_config_result =
  wr_ssid :: "u8 list"
  wr_ssid_len :: u8
  wr_passphrase :: "u8 list"
  wr_random_num :: u8

definition smartconfig_read_result :: "sc_result \<Rightarrow> wlan_smart_config_result \<Rightarrow> wlan_smart_config_result option" where
  "smartconfig_read_result src r =
     (let n = unat (sr_ssid_len src); m = unat (sr_pwd_len src) in
      if n > WLAN_SSID_MAX_LEN \<or> m > WLAN_PASSPHRASE_MAX_LEN then None
      else Some (r\<lparr>wr_ssid := take n (sr_ssid src) @ drop n (wr_ssid r), wr_ssid_len := sr_ssid_len src,
        wr_passphrase := (if m > 0 then take m (sr_pwd src) @ 0 # drop (m + 1) (wr_passphrase r) else (wr_passphrase r)[0 := 0]),
        wr_random_num := sr_random src\<rparr>))"

definition smartconfig_get_result :: "wlan_smart_config_result \<Rightarrow> smartconfig \<Rightarrow> wlan_smart_config_result option" where
  "smartconfig_get_result r s = (case sc_priv s of None \<Rightarrow> None | Some p \<Rightarrow> smartconfig_read_result (sp_result p) r)"

abbreviation (input) SC_TASK_RUN :: u8 where "SC_TASK_RUN \<equiv> 1"
abbreviation (input) SC_TASK_STOP :: u8 where "SC_TASK_STOP \<equiv> 2"

definition upd_priv :: "(smartconfig_priv \<Rightarrow> smartconfig_priv) \<Rightarrow> smartconfig \<Rightarrow> smartconfig" where
  "upd_priv f s = s\<lparr>sc_priv := map_option f (sc_priv s)\<rparr>"

text \<open>Waiting: the flag, then tests of the shared state at certain times, then the verdict.\<close>

definition wait_begin :: "smartconfig \<Rightarrow> smartconfig" where
  "wait_begin = upd_priv (\<lambda>p. p\<lparr>sp_waiting := sp_waiting p OR SC_TASK_RUN\<rparr>)"

definition wait_goes_on :: "u32 \<Rightarrow> u32 \<Rightarrow> smartconfig_priv \<Rightarrow> bool" where
  "wait_goes_on end_time now p \<longleftrightarrow>
     sp_waiting p AND SC_TASK_STOP = 0 \<and> sp_status p \<noteq> SC_STATUS_COMPLETE \<and> OS_TimeBefore now end_time"

definition wait_end :: "u32 \<Rightarrow> u32 \<Rightarrow> smartconfig \<Rightarrow> int \<times> smartconfig" where
  "wait_end end_time now s = (if OS_TimeAfterEqual now end_time then - 2 else 0, upd_priv (\<lambda>p. p\<lparr>sp_waiting := 0\<rparr>) s)"

text \<open>
  The acknowledgement: at every turn the flags and the time that are seen and whether the
  datagrams could be sent.
\<close>

fun smart_config_ack_loop :: "(u8 \<times> u32 \<times> bool) list \<Rightarrow> u32 \<Rightarrow> int option" where
  "smart_config_ack_loop [] end_time = None"
| "smart_config_ack_loop ((run, now, ok) # turns) end_time =
     (if run AND SC_TASK_STOP \<noteq> 0 \<or> \<not> OS_TimeBefore now end_time then Some (- 1)
      else if ok then Some 0 else smart_config_ack_loop turns end_time)"

definition smart_config_ack_start :: "u8 \<Rightarrow> u32 \<Rightarrow> (u8 \<times> u32 \<times> bool) list \<Rightarrow> smartconfig \<Rightarrow> (int \<times> smartconfig) option" where
  "smart_config_ack_start random_num end_time turns s = do {
     let s = upd_priv (\<lambda>p. p\<lparr>sp_ack_run := sp_ack_run p OR SC_TASK_RUN\<rparr>) s;
     r \<leftarrow> smart_config_ack_loop turns end_time;
     let s = (if r = 0 then sc_log (sc_send_ack random_num) s else s);
     Some (r, upd_priv (\<lambda>p. p\<lparr>sp_ack_run := 0\<rparr>) s)
   }"

definition wlan_smart_config_connect_ack ::
  "wlan_smart_config_result \<Rightarrow> u32 \<Rightarrow> (u8 \<times> u32 \<times> bool) list \<Rightarrow> smartconfig \<Rightarrow> (int \<times> smartconfig) option" where
  "wlan_smart_config_connect_ack r end_time turns s =
     (case smartconfig_get_result r s of
        None \<Rightarrow> Some (- 1, s)
      | Some r \<Rightarrow>
          let psk = (if wr_passphrase r ! 0 \<noteq> 0 then Some (wr_passphrase r) else None);
              s = sc_log (sc_connect_ap (take (unat (wr_ssid_len r)) (wr_ssid r)) psk) (sc_log sc_open_sta s) in
          smart_config_ack_start (wr_random_num r) end_time turns s)"

text \<open>
  Stopping waits for the acknowledgement and for the waiting task; it returns once they have
  cleared their flags.
\<close>

definition stop_request :: "smartconfig \<Rightarrow> smartconfig" where
  "stop_request s = sc_log sc_unregister_cbs
     (upd_priv (\<lambda>p. p\<lparr>sp_status := SC_STATUS_END, sp_ack_run := sp_ack_run p OR SC_TASK_STOP\<rparr>) s)"

definition stop_finish :: "smartconfig_priv \<Rightarrow> smartconfig \<Rightarrow> smartconfig option" where
  "stop_finish p s = (if (sp_waiting p OR SC_TASK_STOP) AND SC_TASK_RUN \<noteq> 0 then None
     else Some (sc_log sc_stop_connect_ap (s\<lparr>sc_priv := None\<rparr>)))"

definition wlan_smart_config_stop :: "smartconfig \<Rightarrow> (int \<times> smartconfig) option" where
  "wlan_smart_config_stop s =
     (case sc_priv s of
        None \<Rightarrow> Some (- 1, s)
      | Some p \<Rightarrow> if sp_ack_run p AND SC_TASK_RUN \<noteq> 0 then None
          else do { s \<leftarrow> stop_finish p (stop_request s); Some (0, s) })"

end
