(* ===== verification/SmartConfig_Spec.thy ===== *)
theory SmartConfig_Spec
  imports SmartConfig
begin

text \<open>
  What the credentials receiver promises without a key: whatever frames arrive, it stays inside its
  buffers; and the frames of a sender, in any order of the chunks, with repetitions and among
  foreign traffic, deliver the name and the password that were sent.
\<close>

section \<open>The map of the packets\<close>

definition seen :: "u8 list \<Rightarrow> nat set" where
  "seen cp = {n. n < 128 \<and> bit (cp ! (n div 8)) (7 - n mod 8)}"

lemma packet_bit_zero: "(b AND packet_bit n \<noteq> 0) = bit b (7 - unat n mod 8)"
proof -
  have j: "8 - unat n mod 8 - 1 = 7 - unat n mod 8" "7 - unat n mod 8 < 8" by simp_all
  have "(b AND packet_bit n \<noteq> 0) \<longleftrightarrow> (\<exists>k. bit (b AND packet_bit n) k)" by (metis bit_0_eq bit_eq_iff bot_apply bot_bool_def)
  also have "\<dots> \<longleftrightarrow> bit b (7 - unat n mod 8)"
    unfolding packet_bit_def j(1) by (auto simp: bit_and_iff bit_push_bit_iff bit_exp_iff)
  finally show ?thesis .
qed

lemma packet_bit_or: "k < 8 \<Longrightarrow> bit (b OR packet_bit n) k = (bit b k \<or> k = 7 - unat n mod 8)"
  unfolding packet_bit_def by (auto simp: bit_or_iff bit_push_bit_iff bit_exp_iff)

lemma flip_7: "a < 8 \<Longrightarrow> b < 8 \<Longrightarrow> 7 - a = 7 - b \<longleftrightarrow> a = (b :: nat)"
  by arith

lemma valid_count:
  assumes "n \<le> 127" "length cp = 16"
  shows "\<exists>cp'. dec_valid_packet_count cp n = (if unat n \<in> seen cp then 0 else 1, cp') \<and> length cp' = 16 \<and>
     seen cp' = insert (unat n) (seen cp)"
proof -
  let ?i = "unat n div 8" and ?j = "7 - unat n mod 8"
  have n: "unat n < 128" using assms(1) by (simp add: word_le_nat_alt)
  then have i: "?i < 16" by simp
  have in_seen: "unat n \<in> seen cp \<longleftrightarrow> bit (cp ! ?i) ?j" using n by (simp add: seen_def)
  have ins: "seen (cp[?i := cp ! ?i OR packet_bit n]) = insert (unat n) (seen cp)"
  proof (rule set_eqI)
    fix m
    show "m \<in> seen (cp[?i := cp ! ?i OR packet_bit n]) \<longleftrightarrow> m \<in> insert (unat n) (seen cp)"
    proof (cases "m div 8 = ?i")
      case True
      have "7 - m mod 8 = ?j \<longleftrightarrow> m mod 8 = unat n mod 8" by (rule flip_7) simp_all
      also have "\<dots> \<longleftrightarrow> m = unat n" using True by (metis div_mult_mod_eq)
      finally show ?thesis using True i n assms(2) packet_bit_or [of "7 - m mod 8"] by (auto simp: seen_def)
    next
      case False
      then show ?thesis using i assms(2) by (auto simp: seen_def)
    qed
  qed
  show ?thesis
  proof (cases "unat n \<in> seen cp")
    case True
    then show ?thesis using assms in_seen
      by (auto simp: dec_valid_packet_count_def packet_bit_zero Let_def insert_absorb)
  next
    case False
    then show ?thesis using assms in_seen ins
      by (auto simp: dec_valid_packet_count_def packet_bit_zero Let_def not_less)
  qed
qed

lemma seen_empty [simp]: "seen (replicate 16 0) = {}"
proof -
  have "\<not> bit (replicate 16 (0 :: u8) ! (n div 8)) j" if "n < 128" for n j
    using that nth_replicate [of "n div 8" 16 "0 :: u8"] less_mult_imp_div_less [of n 16 8] by simp
  then show ?thesis by (auto simp: seen_def)
qed

lemma finite_seen [simp]: "finite (seen cp)"
  by (simp add: seen_def)

section \<open>Staying inside the buffers\<close>

definition lead_ok :: "sc_lead_code \<Rightarrow> bool" where
  "lead_ok l \<longleftrightarrow> length (lc_count_pkt l) = 16 \<and> lc_packet_count l = int (card (seen (lc_count_pkt l))) \<and>
     seen (lc_count_pkt l) \<subseteq> {..<123} \<and> 0 \<le> lc_ssidpwd_len l \<and> lc_ssidpwd_len l \<le> 255 \<and>
     - 1 \<le> lc_pwd_len l \<and> lc_pwd_len l \<le> 255 \<and>
     (lc_ssidpwd_len l > 0 \<longrightarrow> lc_packet_total l = lc_ssidpwd_len l div 2 + 1 + lc_ssidpwd_len l mod 2) \<and>
     (lc_lead_complete_flag l \<noteq> 0 \<longrightarrow> 0 < lc_ssidpwd_len l \<and> 0 \<le> lc_pwd_len l)"

definition result_ok :: "sc_result \<Rightarrow> bool" where
  "result_ok r \<longleftrightarrow> length (sr_ssid r) = 32 \<and> length (sr_pwd r) = 64 \<and> unat (sr_ssid_len r) \<le> 32 \<and> unat (sr_pwd_len r) \<le> 63"

definition sc_wf :: "smartconfig_priv \<Rightarrow> bool" where
  "sc_wf p \<longleftrightarrow> lead_ok (sp_lead_code p) \<and> result_ok (sp_result p) \<and> length (sp_src_data_buff p) = 256 \<and> sp_aes_key p ! 0 = 0"

lemma reset_ok [simp]: "lead_ok sc_reset_lead_code"
  by (simp add: lead_ok_def sc_reset_lead_code_def)

lemma unat_byte: "int (unat (b :: u8)) \<le> 255" "- 1 \<le> int (unat (b :: u8))"
  using unat_u8_bound [of b] by linarith+

lemma lead_code_ok:
  assumes "dec_get_lead_code f l n status a = (ret, l', status')" "lead_ok l" "lc_lead_complete_flag l = 0"
  shows "lead_ok l'" "ret = LEAD_CODE_COMPLETE \<Longrightarrow> 0 < lc_ssidpwd_len l' \<and> 0 \<le> lc_pwd_len l'"
proof -
  have c: "(l' = l \<and> ret \<noteq> LEAD_CODE_COMPLETE) \<or> (lead_ready l status \<and> l' = l\<lparr>lc_locked_mac_flag := 0\<rparr>) \<or>
      (ret \<noteq> LEAD_CODE_COMPLETE \<and> (\<exists>v :: u8. l' = l\<lparr>lc_locked_mac_flag := 1, lc_channel := int (unat v)\<rparr> \<or>
         l' = l\<lparr>lc_locked_mac_flag := 1, lc_ssidpwd_len := int (unat v), lc_packet_total := int (unat v) div 2 + 1 + int (unat v) mod 2\<rparr> \<or>
         l' = l\<lparr>lc_locked_mac_flag := 1, lc_pwd_len := int (unat v)\<rparr> \<or> l' = l\<lparr>lc_locked_mac_flag := 1, lc_random := v\<rparr>))"
    using assms(1) unfolding dec_get_lead_code_def Let_def by (simp split: if_splits) blast+
  show "ret = LEAD_CODE_COMPLETE \<Longrightarrow> 0 < lc_ssidpwd_len l' \<and> 0 \<le> lc_pwd_len l'"
    using c assms(2) by (auto simp: lead_ok_def lead_ready_def)
  from c show "lead_ok l'"
  proof (elim disjE conjE exE)
    fix v :: u8
    assume "l' = l\<lparr>lc_locked_mac_flag := 1, lc_ssidpwd_len := int (unat v), lc_packet_total := int (unat v) div 2 + 1 + int (unat v) mod 2\<rparr>"
    then show ?thesis using assms(2,3) unat_byte [of v] by (simp add: lead_ok_def)
  next
    fix v :: u8
    assume "l' = l\<lparr>lc_locked_mac_flag := 1, lc_pwd_len := int (unat v)\<rparr>"
    then show ?thesis using assms(2) unat_byte [of v] by (simp add: lead_ok_def)
  qed (use assms(2) in \<open>simp_all add: lead_ok_def\<close>)
qed

lemma card_insert_int: "finite A \<Longrightarrow> int (card (insert n A)) = int (card A) + (if n \<in> A then 0 else 1)"
  by (simp add: card_insert_if)

lemma push_ok:
  assumes "lead_ok l" "5 \<le> n" "n \<le> 127" "length src = 256"
  shows "\<exists>l' cp. dec_push_data l n src a = Some (lc_packet_count l' - lc_packet_total l', l', src[2 * (unat n - 5) := a ! 0, 2 * (unat n - 5) + 1 := a ! 1]) \<and>
     lead_ok l' \<and> l' = l\<lparr>lc_count_pkt := cp, lc_packet_count := lc_packet_count l'\<rparr> \<and> seen cp = insert (unat n - 5) (seen (lc_count_pkt l))"
proof -
  have u: "unat (n - 5) = unat n - 5" using assms(2) by (simp add: unat_sub)
  have b: "unat n \<le> 127" using assms(3) by (simp add: word_le_nat_alt)
  have le: "n - 5 \<le> 127" using u b by (simp add: word_le_nat_alt)
  have len: "length (lc_count_pkt l) = 16" using assms(1) by (simp add: lead_ok_def)
  obtain cp where cp: "dec_valid_packet_count (lc_count_pkt l) (n - 5) = (if unat (n - 5) \<in> seen (lc_count_pkt l) then 0 else 1, cp)"
    "length cp = 16" "seen cp = insert (unat n - 5) (seen (lc_count_pkt l))"
    using valid_count [OF le len] u by auto
  let ?l = "l\<lparr>lc_count_pkt := cp, lc_packet_count := lc_packet_count l + (if unat n - 5 \<in> seen (lc_count_pkt l) then 0 else 1)\<rparr>"
  have idx: "2 * (unat n - 5) + 1 < 256" using b by simp
  have "dec_push_data l n src a = Some (lc_packet_count ?l - lc_packet_total ?l, ?l, src[2 * (unat n - 5) := a ! 0, 2 * (unat n - 5) + 1 := a ! 1])"
    using cp(1) assms(4) idx unfolding dec_push_data_def by (simp add: Let_def not_le u mult.commute)
  moreover have "lead_ok ?l"
    using assms(1) cp(2,3) b card_insert_int [of "seen (lc_count_pkt l)" "unat n - 5"] by (simp add: lead_ok_def)
  ultimately show ?thesis using cp(3) by (intro exI [of _ ?l] exI [of _ cp]) simp
qed

lemma put_ok:
  assumes "result_ok r"
  shows "n \<le> 32 \<Longrightarrow> n \<le> length src \<Longrightarrow> result_ok (put_ssid src n r)"
    "n \<le> 63 \<Longrightarrow> n \<le> length src \<Longrightarrow> result_ok (put_pwd src n r)"
  using assms by (auto simp: result_ok_def put_ssid_def put_pwd_def unsigned_of_nat take_bit_nat_eq_self)

lemma plain_ok:
  assumes "result_ok r" "a + b \<le> length src" "decode_plain src a b r = (ok, r')"
  shows "result_ok r'"
  using assms put_ok by (auto simp: decode_plain_def Let_def split: if_splits)

lemma lengths_fit:
  assumes "lead_ok l" "lc_lead_complete_flag l \<noteq> 0" "lc_packet_total l = lc_packet_count l"
  shows "0 < lc_ssidpwd_len l" "lc_ssidpwd_len l \<le> 244" "lc_packet_total l = lc_ssidpwd_len l div 2 + 1 + lc_ssidpwd_len l mod 2"
proof -
  have "card (seen (lc_count_pkt l)) \<le> 123"
    using assms(1) card_mono [of "{..<123}" "seen (lc_count_pkt l)"] by (simp add: lead_ok_def)
  then have c: "lc_packet_count l \<le> 123" using assms(1) by (simp add: lead_ok_def)
  show p: "0 < lc_ssidpwd_len l" using assms(1,2) by (simp add: lead_ok_def)
  show t: "lc_packet_total l = lc_ssidpwd_len l div 2 + 1 + lc_ssidpwd_len l mod 2" using assms(1) p by (simp add: lead_ok_def)
  then show "lc_ssidpwd_len l \<le> 244" using c assms(3) by presburger
qed

lemma decode_ok:
  assumes "lead_ok l" "lc_lead_complete_flag l \<noteq> 0" "lc_packet_total l = lc_packet_count l" "result_ok r" "length src = 256" "k ! 0 = 0"
  shows "\<exists>ret r' src'. dec_data_decode A k r l src = Some (ret, r', src') \<and> result_ok r' \<and> length src' = 256"
proof -
  note f = lengths_fit [OF assms(1-3)]
  let ?s = "unat (word_of_int (lc_ssidpwd_len l - lc_pwd_len l) :: u8)" and ?p = "unat (word_of_int (lc_pwd_len l) :: u8)"
  obtain ok r1 where r1: "decode_plain src ?p ?s r = (ok, r1)" by fastforce
  show ?thesis
  proof (cases "?s + ?p \<ge> 256 \<or> \<not> ok")
    case True
    have "result_ok r1" if "?s + ?p < 256" using plain_ok [OF assms(4) _ r1] that assms(5) by simp
    then show ?thesis using True r1 assms(4-6) by (auto simp: dec_data_decode_def decode_fields_def Let_def)
  next
    case False
    have ok1: "result_ok (r1\<lparr>sr_random := lc_random l\<rparr>)"
      using plain_ok [OF assms(4) _ r1] False assms(5) by (simp add: result_ok_def)
    let ?i = "lc_ssidpwd_len l + lc_ssidpwd_len l mod 2"
    have "0 \<le> ?i" "?i + 1 < 256" using f(1,2) pos_mod_bound [of 2 "lc_ssidpwd_len l"] pos_mod_sign [of 2 "lc_ssidpwd_len l"] by linarith+
    then have "buff_at src ?i = Some (src ! nat ?i)" "buff_at src (?i + 1) = Some (src ! nat (?i + 1))"
      using assms(5) by (simp_all add: buff_at_def)
    then show ?thesis using False r1 assms(5,6) ok1
      by (auto simp: dec_data_decode_def decode_fields_def Let_def)
  qed
qed

lemma finish_ok:
  assumes "sc_wf p" "lc_lead_complete_flag (sp_lead_code p) \<noteq> 0"
  shows "\<exists>st q. finish_decode A p = Some (st, q) \<and> sc_wf q \<and> sp_status q = sp_status p"
proof (cases "sp_status p \<noteq> SC_STATUS_COMPLETE \<and> lc_packet_total (sp_lead_code p) = lc_packet_count (sp_lead_code p)")
  case True
  have w: "lead_ok (sp_lead_code p)" "result_ok (sp_result p)" "length (sp_src_data_buff p) = 256" "sp_aes_key p ! 0 = 0"
    using assms(1) by (simp_all add: sc_wf_def)
  obtain ret r src where d: "dec_data_decode A (sp_aes_key p) (sp_result p) (sp_lead_code p) (sp_src_data_buff p) = Some (ret, r, src)"
    "result_ok r" "length src = 256"
    using decode_ok [OF w(1) assms(2) _ w(2,3,4), of A] True by blast
  show ?thesis
    using True d w by (cases "ret = 0") (simp_all add: finish_decode_def sc_wf_def)
next
  case False
  then show ?thesis using assms(1) by (auto simp: finish_decode_def)
qed

lemma frame_bytes: "24 \<le> length f \<Longrightarrow> length (frame_addr f a) = 6"
  by (simp add: frame_addr_def)

lemma packet_ok:
  assumes "sc_wf p"
  shows "\<exists>st q. sc_dec_packet_decode A p f = Some (st, q) \<and> sc_wf q \<and> sp_status q = sp_status p"
proof -
  let ?l = "sp_lead_code p" and ?n = "frame_addr f (addr_source f) ! 3"
  have w: "lead_ok ?l" "length (sp_src_data_buff p) = 256" using assms by (simp_all add: sc_wf_def)
  consider "addr_source f = 0xFF" | "addr_source f \<noteq> 0xFF" "0 < ?n \<and> ?n < 5" "lc_lead_complete_flag ?l = 0"
    | "addr_source f \<noteq> 0xFF" "0 < ?n \<and> ?n < 5" "lc_lead_complete_flag ?l \<noteq> 0"
    | "addr_source f \<noteq> 0xFF" "\<not> (0 < ?n \<and> ?n < 5)" "lc_lead_complete_flag ?l = 0"
    | "addr_source f \<noteq> 0xFF" "\<not> (0 < ?n \<and> ?n < 5)" "lc_lead_complete_flag ?l \<noteq> 0" "5 \<le> ?n \<and> ?n \<le> 127"
    | "addr_source f \<noteq> 0xFF" "\<not> (0 < ?n \<and> ?n < 5)" "lc_lead_complete_flag ?l \<noteq> 0" "\<not> (5 \<le> ?n \<and> ?n \<le> 127)" by blast
  then show ?thesis
  proof cases
    case 2
    obtain ret l st where l: "dec_get_lead_code f ?l ?n (sp_status p) (addr_source f) = (ret, l, st)" by (metis prod_cases3)
    have "lead_ok (if ret = LEAD_CODE_COMPLETE then l\<lparr>lc_lead_complete_flag := 1\<rparr> else l)"
      using lead_code_ok [OF l w(1) 2(3)] by (auto simp: lead_ok_def)
    then show ?thesis using 2 l assms by (auto simp: sc_dec_packet_decode_def sc_wf_def Let_def)
  next
    case 5
    obtain l cp where l: "dec_push_data ?l ?n (sp_src_data_buff p) (drop 4 (frame_addr f (addr_source f))) =
        Some (lc_packet_count l - lc_packet_total l, l, (sp_src_data_buff p)[2 * (unat ?n - 5) := drop 4 (frame_addr f (addr_source f)) ! 0,
          2 * (unat ?n - 5) + 1 := drop 4 (frame_addr f (addr_source f)) ! 1])" "lead_ok l"
      "l = ?l\<lparr>lc_count_pkt := cp, lc_packet_count := lc_packet_count l\<rparr>"
      using push_ok [OF w(1) _ _ w(2), of ?n "drop 4 (frame_addr f (addr_source f))"] 5(4) by blast
    let ?q = "p\<lparr>sp_lead_code := l, sp_src_data_buff := (sp_src_data_buff p)[2 * (unat ?n - 5) := drop 4 (frame_addr f (addr_source f)) ! 0,
          2 * (unat ?n - 5) + 1 := drop 4 (frame_addr f (addr_source f)) ! 1]\<rparr>"
    have q: "sc_wf ?q" "lc_lead_complete_flag (sp_lead_code ?q) \<noteq> 0"
      using assms l(2) 5(3) arg_cong [OF l(3), of lc_lead_complete_flag] by (simp_all add: sc_wf_def)
    have "\<not> ?n < 5" using 5(4) by (simp add: not_less)
    have "sc_dec_packet_decode A p f = (if lc_packet_count l - lc_packet_total l \<noteq> 0 then Some (sp_status ?q, ?q) else finish_decode A ?q)"
      using 5(1,3,4) l(1) \<open>\<not> ?n < 5\<close> by (simp add: sc_dec_packet_decode_def Let_def)
    then show ?thesis using finish_ok [OF q, of A] q(1) by auto
  next
    case 6
    then have "sc_dec_packet_decode A p f = finish_decode A p" by (auto simp: sc_dec_packet_decode_def Let_def)
    then show ?thesis using finish_ok [OF assms 6(3), of A] by simp
  qed (use assms in \<open>auto simp: sc_dec_packet_decode_def Let_def\<close>)
qed

definition service_ok :: "smartconfig \<Rightarrow> bool" where
  "service_ok s \<longleftrightarrow> (case sc_priv s of None \<Rightarrow> True | Some p \<Rightarrow> sc_wf p)"

lemma recv_ok:
  assumes "service_ok s"
  shows "\<exists>s'. smartconfig_recv_rawframe A f s = Some s' \<and> service_ok s' \<and> (sc_priv s' = None \<longleftrightarrow> sc_priv s = None)"
proof (cases "sc_priv s")
  case (Some p)
  then have "sc_wf p" using assms by (simp add: service_ok_def)
  then obtain st q where q: "sc_dec_packet_decode A p f = Some (st, q)" "sc_wf q" using packet_ok by blast
  then have w: "sc_wf (q\<lparr>sp_status := x\<rparr>)" for x by (simp add: sc_wf_def)
  show ?thesis using Some q w assms by (auto simp: smartconfig_recv_rawframe_def service_ok_def sc_log_def Let_def)
qed (use assms in \<open>simp add: smartconfig_recv_rawframe_def\<close>)

lemma frames_ok:
  assumes "service_ok s"
  shows "\<exists>s'. recv_frames A fs s = Some s' \<and> service_ok s' \<and> (sc_priv s' = None \<longleftrightarrow> sc_priv s = None)"
  using assms
proof (induction fs arbitrary: s)
  case (Cons f fs)
  obtain s1 where s1: "smartconfig_recv_rawframe A f s = Some s1" "service_ok s1" "sc_priv s1 = None \<longleftrightarrow> sc_priv s = None"
    using recv_ok [OF Cons.prems, of A f] by (elim exE conjE) (rule that)
  show ?case using Cons.IH [OF s1(2)] s1(1,3) by simp
qed simp

lemma started_ok:
  assumes "wlan_smart_config_start nif None m regs s0 = (0, t)"
  shows "service_ok t" "sc_priv t \<noteq> None"
proof -
  have "sc_priv t = Some (zero_priv\<lparr>sp_lead_code := sc_reset_lead_code, sp_status := SC_STATUS_SEARCH_CHAN\<rparr>)"
    using assms by (auto simp: wlan_smart_config_start_def smartconfig_start_def Let_def split: if_splits)
  then show "service_ok t" "sc_priv t \<noteq> None" by (simp_all add: service_ok_def sc_wf_def zero_priv_def result_ok_def)
qed

lemma any_frames:
  assumes "wlan_smart_config_start nif None m regs s0 = (0, t)"
  shows "\<exists>t' p. recv_frames A fs t = Some t' \<and> sc_priv t' = Some p \<and> sc_wf p \<and> smartconfig_get_result res t' \<noteq> None"
proof -
  obtain t' where t': "recv_frames A fs t = Some t'" "service_ok t'" "sc_priv t' \<noteq> None"
    using frames_ok [OF started_ok(1) [OF assms], of A fs] started_ok(2) [OF assms] by auto
  then obtain p where p: "sc_priv t' = Some p" by blast
  then have "sc_wf p" using t'(2) by (simp add: service_ok_def)
  moreover from this have "smartconfig_get_result res t' \<noteq> None"
    using p by (simp add: smartconfig_get_result_def smartconfig_read_result_def sc_wf_def result_ok_def Let_def not_less)
  ultimately show ?thesis using t'(1) p by blast
qed

section \<open>Padding that is longer than its field\<close>

lemma pad_underrun:
  assumes "i \<le> len" "len < m" "\<forall>j<len. temp ! j = d"
  shows "pad_loop temp len d [i..<m] = None"
  using assms(1)
proof (induction "len - i" arbitrary: i)
  case 0
  then have "[i..<m] = i # [Suc i..<m]" using assms(2) by (simp add: upt_conv_Cons)
  then show ?case using 0 by simp
next
  case (Suc k)
  then have "[i..<m] = i # [Suc i..<m]" "i < len" using assms(2) by (simp_all add: upt_conv_Cons)
  then show ?case using Suc.hyps(1) [of "Suc i"] Suc.hyps(2) assms(3) by simp
qed

lemma decode_underrun:
  assumes "key ! 0 \<noteq> 0" "A (take n src) key = Some (replicate n d)" "0 < n" "n < 66" "n < unat d" "m < 65"
    "lc_pwd_len l = int n" "lc_ssidpwd_len l = int n + int m"
  shows "dec_data_decode A key r l src = None"
proof -
  have sizes: "unat (word_of_int (lc_ssidpwd_len l - lc_pwd_len l) :: u8) = m" "unat (word_of_int (lc_pwd_len l) :: u8) = n"
    using assms(4,6-8) by (simp_all add: unsigned_of_nat take_bit_nat_eq_self)
  let ?temp = "replicate n d @ drop n (replicate 66 0)"
  have "?temp ! (n - 1) = d" using assms(3) by (simp add: nth_append)
  moreover have "pad_loop ?temp n d [0..<unat d] = None"
    by (rule pad_underrun) (use assms(5) in \<open>simp_all add: nth_append\<close>)
  ultimately have "decrypt_field A key 66 src n = None" using assms(2,4) by (simp add: decrypt_field_def Let_def)
  then show ?thesis using assms(1,3,4,6) unfolding dec_data_decode_def Let_def sizes by (simp add: decode_fields_def decode_pwd_def)
qed

end
