(* ===== verification/SmartConfig_Sender.thy ===== *)
theory SmartConfig_Sender
  imports SmartConfig_Spec
begin

text \<open>
  The sender's frames and what becomes of them: from the start of the receiver on, every legal
  sequence that contains the four lead codes, another one, and then all the chunks ends with the
  credentials delivered.  The receiver is in one of three phases: collecting the lead codes,
  collecting the chunks, done.
\<close>

section \<open>Frames as codes\<close>

type_synonym sc_code = "u8 \<times> u8 \<times> u8"

definition frame_code :: "u8 list \<Rightarrow> sc_code option" where
  "frame_code f = (if length f < 24 \<or> addr_source f = 0xFF then None
     else let a = frame_addr f (addr_source f) in Some (a ! 3, a ! 4, a ! 5))"

definition codes :: "u8 list list \<Rightarrow> sc_code list" where
  "codes fs = List.map_filter frame_code fs"

lemma codes_simps [simp]:
  "codes [] = []" "frame_code f = None \<Longrightarrow> codes (f # fs) = codes fs" "frame_code f = Some c \<Longrightarrow> codes (f # fs) = c # codes fs"
  unfolding codes_def List.map_filter_def by (cases c, simp_all)+

definition cred_bytes :: "u8 list \<Rightarrow> u8 list \<Rightarrow> u8 list" where
  "cred_bytes w s = w @ s @ (if odd (length w + length s) then [0] else []) @ [cal_crc8 w, cal_crc8 s]"

definition chunk_total :: "u8 list \<Rightarrow> u8 list \<Rightarrow> nat" where
  "chunk_total w s = (length w + length s) div 2 + 1 + (length w + length s) mod 2"

definition lead_code :: "u8 \<Rightarrow> u8 \<Rightarrow> sc_code" where
  "lead_code n v = (n, v, cal_crc8 [v])"

definition lead_codes :: "u8 \<Rightarrow> u8 list \<Rightarrow> u8 list \<Rightarrow> u8 \<Rightarrow> sc_code set" where
  "lead_codes ch w s r = {lead_code 1 ch, lead_code 2 (of_nat (length w + length s)), lead_code 3 (of_nat (length w)), lead_code 4 r}"

definition chunk_code :: "u8 list \<Rightarrow> u8 list \<Rightarrow> nat \<Rightarrow> sc_code" where
  "chunk_code w s k = (of_nat (k + 5), cred_bytes w s ! (2 * k), cred_bytes w s ! (2 * k + 1))"

definition chunk_codes :: "u8 list \<Rightarrow> u8 list \<Rightarrow> sc_code set" where
  "chunk_codes w s = chunk_code w s ` {..<chunk_total w s}"

definition creds_ok :: "u8 list \<Rightarrow> u8 list \<Rightarrow> u8 \<Rightarrow> bool" where
  "creds_ok w s r \<longleftrightarrow> 0 < length s \<and> length s \<le> 32 \<and> length w \<le> 63 \<and> r \<noteq> 0"

lemma two_bytes: "(if odd n then n + 3 else n + 2) = 2 * (n div 2 + 1 + n mod 2)" for n :: nat
  by (simp add: mod_2_eq_odd)

lemma cred_len: "length (cred_bytes w s) = 2 * chunk_total w s"
proof -
  define n where "n = length w + length s"
  have "length (cred_bytes w s) = (if odd n then n + 3 else n + 2)"
    unfolding cred_bytes_def n_def [symmetric] by (cases "odd n") (simp_all add: n_def)
  then show ?thesis unfolding two_bytes chunk_total_def n_def .
qed

lemma chunk_bound: "creds_ok w s r \<Longrightarrow> chunk_total w s \<le> 49"
proof -
  assume "creds_ok w s r"
  then have "length w + length s \<le> 95" by (simp add: creds_ok_def)
  moreover have "n div 2 + 1 + n mod 2 \<le> 49" if "n \<le> 95" for n :: nat
    using that div_le_mono [of n 95 2] mod_less_divisor [of 2 n] by simp
  ultimately show ?thesis by (simp add: chunk_total_def)
qed

section \<open>The phases\<close>

definition result_is :: "u8 list \<Rightarrow> u8 list \<Rightarrow> u8 \<Rightarrow> sc_result \<Rightarrow> bool" where
  "result_is w s r res \<longleftrightarrow> sr_ssid_len res = of_nat (length s) \<and> take (length s) (sr_ssid res) = s \<and>
     sr_pwd_len res = of_nat (length w) \<and> take (length w + 1) (sr_pwd res) = w @ [0] \<and> sr_random res = r"

definition leading :: "u8 list \<Rightarrow> u8 list \<Rightarrow> u8 \<Rightarrow> u8 set \<Rightarrow> smartconfig_priv \<Rightarrow> bool" where
  "leading w s r L p \<longleftrightarrow> sc_wf p \<and> (let l = sp_lead_code p in
     lc_lead_complete_flag l = 0 \<and> seen (lc_count_pkt l) = {} \<and> lc_packet_count l = 0 \<and>
     (sp_status p = SC_STATUS_SEARCH_CHAN \<and> 1 \<notin> L \<or> sp_status p = SC_STATUS_LOCKED_CHAN) \<and>
     lc_ssidpwd_len l = (if 2 \<in> L then int (length w + length s) else 0) \<and>
     lc_pwd_len l = (if 3 \<in> L then int (length w) else - 1) \<and> lc_random l = (if 4 \<in> L then r else 0))"

definition gathering :: "u8 list \<Rightarrow> u8 list \<Rightarrow> u8 \<Rightarrow> nat set \<Rightarrow> smartconfig_priv \<Rightarrow> bool" where
  "gathering w s r K p \<longleftrightarrow> sc_wf p \<and> (let l = sp_lead_code p in
     lc_lead_complete_flag l \<noteq> 0 \<and> sp_status p = SC_STATUS_LOCKED_CHAN \<and> seen (lc_count_pkt l) = K \<and> K \<subset> {..<chunk_total w s} \<and>
     lc_ssidpwd_len l = int (length w + length s) \<and> lc_pwd_len l = int (length w) \<and> lc_random l = r \<and>
     (\<forall>k\<in>K. sp_src_data_buff p ! (2 * k) = cred_bytes w s ! (2 * k) \<and> sp_src_data_buff p ! (2 * k + 1) = cred_bytes w s ! (2 * k + 1)))"

definition delivered :: "u8 list \<Rightarrow> u8 list \<Rightarrow> u8 \<Rightarrow> smartconfig_priv \<Rightarrow> bool" where
  "delivered w s r p \<longleftrightarrow> sc_wf p \<and> sp_status p = SC_STATUS_COMPLETE \<and> lc_lead_complete_flag (sp_lead_code p) \<noteq> 0 \<and>
     result_is w s r (sp_result p)"

lemma code_addr:
  assumes "frame_code f = Some (n, x, y)"
  shows "24 \<le> length f" "addr_source f = 1 \<or> addr_source f = 3" "addr_source f \<noteq> 0xFF" "frame_addr f (addr_source f) ! 3 = n"
    "frame_addr f (addr_source f) ! 4 = x" "frame_addr f (addr_source f) ! 5 = y"
    "drop 4 (frame_addr f (addr_source f)) = [x, y]"
proof -
  show l: "24 \<le> length f" and nf: "addr_source f \<noteq> 0xFF" and e: "frame_addr f (addr_source f) ! 3 = n"
    "frame_addr f (addr_source f) ! 4 = x" "frame_addr f (addr_source f) ! 5 = y"
    using assms by (auto simp: frame_code_def Let_def split: if_splits)
  show "addr_source f = 1 \<or> addr_source f = 3" using nf by (auto simp: addr_source_def split: if_splits)
  show "drop 4 (frame_addr f (addr_source f)) = [x, y]"
  proof (rule nth_equalityI)
    fix i assume "i < length (drop 4 (frame_addr f (addr_source f)))"
    then have "i = 0 \<or> i = 1" using frame_bytes [OF l] by auto
    then show "drop 4 (frame_addr f (addr_source f)) ! i = [x, y] ! i" using e frame_bytes [OF l] by auto
  qed (use frame_bytes [OF l] in simp)
qed

section \<open>Single frames\<close>

lemma foreign_frame:
  assumes "frame_code f = None" "sc_priv t = Some p"
  shows "smartconfig_recv_rawframe A f t = Some t"
  using assms by (auto simp: smartconfig_recv_rawframe_def frame_code_def sc_dec_packet_decode_def Let_def split: if_splits)

text \<open>The control block after a frame of which the decoder says \<open>st\<close>.\<close>

definition after_status :: "sc_status \<Rightarrow> smartconfig_priv \<Rightarrow> smartconfig_priv" where
  "after_status st q = (if st = SC_STATUS_COMPLETE \<or> st = SC_STATUS_LOCKED_CHAN then q\<lparr>sp_status := st\<rparr> else q)"

lemma recv_after:
  assumes "sc_priv t = Some p" "24 \<le> length f" "sc_dec_packet_decode A p f = Some (st, q)"
  shows "\<exists>t'. smartconfig_recv_rawframe A f t = Some t' \<and> sc_priv t' = Some (after_status st q)"
proof (cases "sp_status q = st")
  case True
  then have "after_status st q = q" by (simp add: after_status_def)
  then show ?thesis using assms True by (auto simp: smartconfig_recv_rawframe_def Let_def)
next
  case False
  then show ?thesis using assms
    by (auto simp: smartconfig_recv_rawframe_def after_status_def sc_log_def Let_def)
qed

lemma lead_frame:
  assumes "frame_code f = Some (lead_code n v)" "0 < n" "n < 5" "lc_lead_complete_flag (sp_lead_code p) = 0"
  shows "sc_dec_packet_decode A p f = Some (
    let l = sp_lead_code p; k = l\<lparr>lc_locked_mac_flag := 1\<rparr>; i = int (unat v) in
    if lead_ready l (sp_status p) then (sp_status p, p\<lparr>sp_lead_code := l\<lparr>lc_locked_mac_flag := 0, lc_lead_complete_flag := 1\<rparr>\<rparr>)
    else if n = 1 then (SC_STATUS_LOCKED_CHAN, p\<lparr>sp_lead_code := k\<lparr>lc_channel := i\<rparr>\<rparr>)
    else if n = 2 then (sp_status p, p\<lparr>sp_lead_code := k\<lparr>lc_ssidpwd_len := i, lc_packet_total := i div 2 + 1 + i mod 2\<rparr>\<rparr>)
    else if n = 3 then (sp_status p, p\<lparr>sp_lead_code := k\<lparr>lc_pwd_len := i\<rparr>\<rparr>)
    else (sp_status p, p\<lparr>sp_lead_code := k\<lparr>lc_random := v\<rparr>\<rparr>))"
proof -
  note a = code_addr [OF assms(1) [unfolded lead_code_def]]
  have "\<not> 4 < n" "n \<noteq> 0" using assms(2,3) by (auto simp: word_less_nat_alt)
  then show ?thesis using a assms(2-4)
    by (auto simp: sc_dec_packet_decode_def dec_get_lead_code_def Let_def)
qed

lemma after_same: "sp_status p = st \<Longrightarrow> after_status st p = p"
  by (cases p) (simp add: after_status_def)

lemma unat_small: "n < 256 \<Longrightarrow> unat (of_nat n :: u8) = n"
  by (simp add: unsigned_of_nat take_bit_nat_eq_self)

lemma total_int: "int (length w + length s) div 2 + 1 + int (length w + length s) mod 2 = int (chunk_total w s)"
  by (simp add: chunk_total_def zdiv_int zmod_int)

lemma leading_total:
  assumes "leading w s r L p" "2 \<in> L" "creds_ok w s r"
  shows "lc_packet_total (sp_lead_code p) = int (chunk_total w s)"
proof -
  have l: "lead_ok (sp_lead_code p)" "lc_ssidpwd_len (sp_lead_code p) = int (length w + length s)"
    using assms by (auto simp: leading_def sc_wf_def Let_def)
  have "0 < length s" using assms(3) by (simp add: creds_ok_def)
  then have "0 < lc_ssidpwd_len (sp_lead_code p)" unfolding l(2) by linarith
  then have "lc_packet_total (sp_lead_code p) = lc_ssidpwd_len (sp_lead_code p) div 2 + 1 + lc_ssidpwd_len (sp_lead_code p) mod 2"
    using l(1) by (simp add: lead_ok_def)
  then show ?thesis unfolding l(2) total_int .
qed

lemma leading_lead:
  assumes p: "leading w s r L p" and c: "creds_ok w s r" and f: "frame_code f = Some (lead_code n v)" "lead_code n v \<in> lead_codes ch w s r"
  shows "\<exists>st q. sc_dec_packet_decode A p f = Some (st, q) \<and>
     (gathering w s r {} (after_status st q) \<or> \<not> {1, 2, 3, 4} \<subseteq> L \<and> leading w s r (insert n L) (after_status st q))"
proof -
  let ?l = "sp_lead_code p"
  have l: "sc_wf p" "lc_lead_complete_flag ?l = 0" "seen (lc_count_pkt ?l) = {}" "lc_packet_count ?l = 0"
    "sp_status p = SC_STATUS_SEARCH_CHAN \<and> 1 \<notin> L \<or> sp_status p = SC_STATUS_LOCKED_CHAN"
    "lc_ssidpwd_len ?l = (if 2 \<in> L then int (length w + length s) else 0)"
    "lc_pwd_len ?l = (if 3 \<in> L then int (length w) else - 1)" "lc_random ?l = (if 4 \<in> L then r else 0)"
    using p by (simp_all add: leading_def Let_def)
  have n: "n \<in> {1, 2, 3, 4}" using f(2) by (auto simp: lead_codes_def lead_code_def)
  then have n5: "0 < n" "n < 5" by auto
  obtain st q where q: "sc_dec_packet_decode A p f = Some (st, q)" "sc_wf q" "sp_status q = sp_status p"
    using packet_ok [OF l(1)] by blast
  have wf: "sc_wf (after_status st q)" using q(2) by (simp add: after_status_def sc_wf_def)
  have small: "length w + length s < 256" using c by (simp add: creds_ok_def)
  have ready: "lead_ready ?l (sp_status p) \<longleftrightarrow> sp_status p = SC_STATUS_LOCKED_CHAN \<and> 2 \<in> L \<and> 3 \<in> L \<and> 4 \<in> L"
  proof -
    have "0 < length s" "r \<noteq> 0" using c by (simp_all add: creds_ok_def)
    then have "int (length w + length s) \<noteq> 0" "int (length w) \<noteq> - 1" by linarith+
    then show ?thesis using \<open>r \<noteq> 0\<close> unfolding lead_ready_def l(6-8) by auto
  qed
  note lf = lead_frame [OF f(1) n5 l(2), of A, unfolded q(1) Let_def]
  show ?thesis
  proof (cases "lead_ready ?l (sp_status p)")
    case True
    have "gathering w s r {} (after_status st q)"
      using True lf wf l ready c chunk_bound [OF c] by (auto simp: gathering_def after_status_def creds_ok_def chunk_total_def Let_def)
    then show ?thesis using q(1) by blast
  next
    case False
    have nL: "\<not> {1, 2, 3, 4} \<subseteq> L" using False ready l(5) by auto
    have v: "n = 1 \<Longrightarrow> v = ch" "n = 2 \<Longrightarrow> unat v = length w + length s" "n = 3 \<Longrightarrow> unat v = length w" "n = 4 \<Longrightarrow> v = r"
      using f(2) small unat_small [of "length w + length s"] unat_small [of "length w"]
      by (auto simp: lead_codes_def lead_code_def)
    have "leading w s r (insert n L) (after_status st q)"
      using n
    proof (elim insertE emptyE)
      assume "n = 1"
      then show ?thesis using False lf wf l by (auto simp: leading_def after_status_def Let_def)
    next
      assume "n = 2"
      then show ?thesis using False lf wf l v(2) by (auto simp: leading_def after_status_def Let_def)
    next
      assume "n = 3"
      then show ?thesis using False lf wf l v(3) by (auto simp: leading_def after_status_def Let_def)
    next
      assume "n = 4"
      then show ?thesis using False lf wf l v(4) by (auto simp: leading_def after_status_def Let_def)
    qed
    then show ?thesis using q(1) nL by blast
  qed
qed

end
