(* ===== verification/SmartConfig_Run.thy ===== *)
theory SmartConfig_Run
  imports SmartConfig_Sender
begin

text \<open>
  From the phases of single frames to whole transmissions: chunks before the lead codes are
  complete and lead codes after that are ignored, a chunk is stored where the decoder expects it,
  the last missing chunk delivers, and nothing disturbs what has been delivered.
\<close>

section \<open>Frames that change nothing\<close>

lemma chunk_number:
  assumes "k < chunk_total w s" "creds_ok w s r"
  shows "unat (of_nat (k + 5) :: u8) = k + 5" "5 \<le> (of_nat (k + 5) :: u8)" "(of_nat (k + 5) :: u8) \<le> 127"
    "\<not> (of_nat (k + 5) :: u8) < 5"
proof -
  have b: "k + 5 \<le> 54" using assms(1) chunk_bound [OF assms(2)] by simp
  show u: "unat (of_nat (k + 5) :: u8) = k + 5" by (rule unat_small) (use b in simp)
  show "5 \<le> (of_nat (k + 5) :: u8)" "(of_nat (k + 5) :: u8) \<le> 127" "\<not> (of_nat (k + 5) :: u8) < 5"
    using b unfolding word_le_nat_alt word_less_nat_alt u by simp_all
qed

lemma leading_chunk:
  assumes "leading w s r L p" "frame_code f = Some (chunk_code w s k)" "k < chunk_total w s" "creds_ok w s r"
  shows "sc_dec_packet_decode A p f = Some (sp_status p, p)"
proof -
  note a = code_addr [OF assms(2) [unfolded chunk_code_def]] and n = chunk_number [OF assms(3,4)]
  have "lc_lead_complete_flag (sp_lead_code p) = 0" using assms(1) by (simp add: leading_def Let_def)
  then show ?thesis unfolding sc_dec_packet_decode_def Let_def a(4) using a(3) n(4) by simp
qed

lemma late_lead:
  assumes "lc_lead_complete_flag (sp_lead_code p) \<noteq> 0" "frame_code f = Some c" "c \<in> lead_codes ch w s r"
  shows "sc_dec_packet_decode A p f = Some (sp_status p, p)"
proof -
  obtain n v where c: "c = lead_code n v" "0 < n" "n < 5" using assms(3) by (auto simp: lead_codes_def)
  note a = code_addr [OF assms(2) [unfolded c lead_code_def]]
  show ?thesis unfolding sc_dec_packet_decode_def Let_def a(4) using a(3) c(2,3) assms(1) by simp
qed

lemma complete_packet:
  assumes "sc_wf p" "sp_status p = SC_STATUS_COMPLETE" "lc_lead_complete_flag (sp_lead_code p) \<noteq> 0"
  shows "\<exists>q. sc_dec_packet_decode A p f = Some (SC_STATUS_COMPLETE, q) \<and> sc_wf q \<and> sp_status q = SC_STATUS_COMPLETE \<and>
     lc_lead_complete_flag (sp_lead_code q) \<noteq> 0 \<and> sp_result q = sp_result p"
proof -
  let ?l = "sp_lead_code p" and ?a = "frame_addr f (addr_source f)"
  have fin: "finish_decode A q = Some (SC_STATUS_COMPLETE, q)" if "sp_status q = SC_STATUS_COMPLETE" for q
    using that by (simp add: finish_decode_def Let_def)
  have w: "lead_ok ?l" "length (sp_src_data_buff p) = 256" using assms(1) by (simp_all add: sc_wf_def)
  show ?thesis
  proof (cases "addr_source f \<noteq> 0xFF \<and> \<not> (0 < ?a ! 3 \<and> ?a ! 3 < 5) \<and> 5 \<le> ?a ! 3 \<and> ?a ! 3 \<le> 127")
    case True
    obtain l cp src where l: "dec_push_data ?l (?a ! 3) (sp_src_data_buff p) (drop 4 ?a) = Some (lc_packet_count l - lc_packet_total l, l, src)"
      "lead_ok l" "l = ?l\<lparr>lc_count_pkt := cp, lc_packet_count := lc_packet_count l\<rparr>" "length src = 256"
      using push_ok [OF w(1) _ _ w(2), of "?a ! 3" "drop 4 ?a"] True w(2) by auto
    let ?q = "p\<lparr>sp_lead_code := l, sp_src_data_buff := src\<rparr>"
    have "sc_dec_packet_decode A p f = (if lc_packet_count l - lc_packet_total l \<noteq> 0 then Some (sp_status ?q, ?q) else finish_decode A ?q)"
      using True l(1) assms(3) by (auto simp: sc_dec_packet_decode_def Let_def)
    moreover have "sc_wf ?q" using assms(1) l(2,4) by (simp add: sc_wf_def)
    moreover have "lc_lead_complete_flag l \<noteq> 0" using assms(3) arg_cong [OF l(3), of lc_lead_complete_flag] by simp
    ultimately show ?thesis using fin [of ?q] assms(2) by (intro exI [of _ ?q]) auto
  next
    case False
    then have "sc_dec_packet_decode A p f = Some (SC_STATUS_COMPLETE, p)"
      using assms(2,3) fin [OF assms(2)] by (auto simp: sc_dec_packet_decode_def Let_def)
    then show ?thesis using assms by blast
  qed
qed

section \<open>The last chunk\<close>

lemma unat_int_word: "n < 256 \<Longrightarrow> unat (word_of_int (int n) :: u8) = n"
  by (simp add: unsigned_of_nat take_bit_nat_eq_self)

lemma nth_of_take: "take n xs = ys \<Longrightarrow> i < n \<Longrightarrow> xs ! i = ys ! i"
  by (metis nth_take)

lemma buff_at_int: "j < length b \<Longrightarrow> buff_at b (int j) = Some (b ! j)"
  by (simp add: buff_at_def)

lemma decode_delivers:
  assumes c: "creds_ok w s r" and src: "take (2 * chunk_total w s) src = cred_bytes w s" "length src = 256" and k: "key ! 0 = 0"
    and l: "lc_ssidpwd_len l = int (length w + length s)" "lc_pwd_len l = int (length w)" "lc_random l = r"
    and res: "result_ok res"
  shows "\<exists>res'. dec_data_decode A key res l src = Some (0, res', src[0 := 0]) \<and> result_is w s r res'"
proof -
  have len: "0 < length s" "length s \<le> 32" "length w \<le> 63" using c by (simp_all add: creds_ok_def)
  let ?n = "length w + length s" and ?T = "chunk_total w s"
  have T: "2 * ?T \<le> 256" using chunk_bound [OF c] by simp
  have nT: "?n + ?n mod 2 + 1 < 2 * ?T" unfolding chunk_total_def by (cases "even ?n") (auto elim!: evenE oddE)
  have head: "take ?n src = w @ s"
  proof -
    have "take ?n src = take ?n (take (2 * ?T) src)" using nT by (simp add: min_def)
    then show ?thesis unfolding src(1) by (simp add: cred_bytes_def)
  qed
  have w: "take (length w) src = w" using arg_cong [OF head, of "take (length w)"] by simp
  have s: "take (length s) (drop (length w) src) = s"
    using arg_cong [OF head, of "drop (length w)"] by (simp add: drop_take)
  have crc: "src ! (?n + ?n mod 2) = cal_crc8 w" "src ! (?n + ?n mod 2 + 1) = cal_crc8 s"
  proof -
    have "src ! (?n + ?n mod 2) = cred_bytes w s ! (?n + ?n mod 2)" by (rule nth_of_take [OF src(1)]) (use nT in simp)
    also have "\<dots> = cal_crc8 w" unfolding cred_bytes_def by (cases "odd ?n") (simp_all add: nth_append mod_2_eq_odd)
    finally show "src ! (?n + ?n mod 2) = cal_crc8 w" .
    have "src ! (?n + ?n mod 2 + 1) = cred_bytes w s ! (?n + ?n mod 2 + 1)" by (rule nth_of_take [OF src(1)]) (use nT in simp)
    also have "\<dots> = cal_crc8 s" unfolding cred_bytes_def by (cases "odd ?n") (simp_all add: nth_append mod_2_eq_odd)
    finally show "src ! (?n + ?n mod 2 + 1) = cal_crc8 s" .
  qed
  have sizes: "unat (word_of_int (lc_ssidpwd_len l - lc_pwd_len l) :: u8) = length s" "unat (word_of_int (lc_pwd_len l) :: u8) = length w"
    unfolding l using len unat_int_word [of "length s"] unat_int_word [of "length w"] by simp_all
  let ?r1 = "put_pwd src (length w) (put_ssid (drop (length w) src) (length s) res)"
  let ?r = "?r1\<lparr>sr_random := r\<rparr>"
  have plain: "decode_plain src (length w) (length s) res = (True, ?r1)"
    using len by (simp add: decode_plain_def Let_def)
  have ln: "length (sr_pwd res) = 64" "length (sr_ssid res) = 32" using res by (simp_all add: result_ok_def)
  have goal_is: "result_is w s r ?r"
    using len w s ln by (simp add: result_is_def put_pwd_def put_ssid_def)
  have pw: "take (unat (sr_pwd_len ?r)) (sr_pwd ?r) = w" "take (unat (sr_ssid_len ?r)) (sr_ssid ?r) = s"
    using len w s ln unat_small [of "length w"] unat_small [of "length s"] by (simp_all add: put_pwd_def put_ssid_def)
  have i: "lc_ssidpwd_len l + lc_ssidpwd_len l mod 2 = int (?n + ?n mod 2)"
    "lc_ssidpwd_len l + lc_ssidpwd_len l mod 2 + 1 = int (?n + ?n mod 2 + 1)" unfolding l by (simp_all add: zmod_int)
  have buff: "buff_at src (lc_ssidpwd_len l + lc_ssidpwd_len l mod 2) = Some (cal_crc8 w)"
    unfolding i(1) crc(1) [symmetric] by (rule buff_at_int) (use nT T src(2) in simp)
  have buff': "buff_at src (lc_ssidpwd_len l + lc_ssidpwd_len l mod 2 + 1) = Some (cal_crc8 s)"
    unfolding i(2) crc(2) [symmetric] by (rule buff_at_int) (use nT T src(2) in simp)
  have "dec_data_decode A key res l src = Some (0, ?r, src[0 := 0])"
    unfolding dec_data_decode_def Let_def sizes decode_fields_def
    using len k plain buff buff' pw l(3) by (simp del: of_nat_add)
  then show ?thesis using goal_is by blast
qed

section \<open>Chunks\<close>

lemma nth_two: "length b = 256 \<Longrightarrow> 2 * j + 1 < 256 \<Longrightarrow> i = 2 * j \<or> i = 2 * j + 1 \<Longrightarrow>
    (b[2 * k := x, 2 * k + 1 := y]) ! i = (if j = k then if i = 2 * j then x else y else b ! i)"
  by auto

lemma pairs_eq:
  assumes "\<And>k. k < n \<Longrightarrow> xs ! (2 * k) = ys ! (2 * k) \<and> xs ! (2 * k + 1) = ys ! (2 * k + 1)" "length ys = 2 * n" "2 * n \<le> length xs"
  shows "take (2 * n) xs = ys"
proof (rule nth_equalityI)
  fix i assume "i < length (take (2 * n) xs)"
  then have i: "i div 2 < n" "i < 2 * n" using assms(3) by auto
  have "i = 2 * (i div 2) \<or> i = 2 * (i div 2) + 1" by presburger
  then have "xs ! i = ys ! i" using assms(1) [OF i(1)] by metis
  then show "take (2 * n) xs ! i = ys ! i" using i by simp
qed (use assms in simp)

definition gathered :: "u8 list \<Rightarrow> u8 list \<Rightarrow> u8 \<Rightarrow> nat set \<Rightarrow> smartconfig_priv \<Rightarrow> bool" where
  "gathered w s r K p \<longleftrightarrow> delivered w s r p \<or> (\<exists>L. K \<subseteq> L \<and> gathering w s r L p)"

lemma gathering_chunk:
  assumes p: "gathering w s r K p" and c: "creds_ok w s r" and f: "frame_code f = Some (chunk_code w s k)" and k: "k < chunk_total w s"
  shows "\<exists>st q. sc_dec_packet_decode A p f = Some (st, q) \<and> gathered w s r (insert k K) (after_status st q)"
proof -
  let ?l = "sp_lead_code p" and ?b = "sp_src_data_buff p" and ?T = "chunk_total w s" and ?c = "cred_bytes w s"
  note a = code_addr [OF f [unfolded chunk_code_def]] and n = chunk_number [OF k c]
  have g: "sc_wf p" "lc_lead_complete_flag ?l \<noteq> 0" "sp_status p = SC_STATUS_LOCKED_CHAN" "seen (lc_count_pkt ?l) = K" "K \<subset> {..<?T}"
    "lc_ssidpwd_len ?l = int (length w + length s)" "lc_pwd_len ?l = int (length w)" "lc_random ?l = r"
    "\<And>j. j \<in> K \<Longrightarrow> ?b ! (2 * j) = ?c ! (2 * j) \<and> ?b ! (2 * j + 1) = ?c ! (2 * j + 1)"
    using p by (simp_all add: gathering_def Let_def)
  have w: "lead_ok ?l" "length ?b = 256" "result_ok (sp_result p)" "sp_aes_key p ! 0 = 0" using g(1) by (simp_all add: sc_wf_def)
  let ?src = "?b[2 * k := ?c ! (2 * k), 2 * k + 1 := ?c ! (2 * k + 1)]"
  obtain l cp where l: "dec_push_data ?l (of_nat (k + 5)) ?b [?c ! (2 * k), ?c ! (2 * k + 1)] = Some (lc_packet_count l - lc_packet_total l, l, ?src)"
    "lead_ok l" "l = ?l\<lparr>lc_count_pkt := cp, lc_packet_count := lc_packet_count l\<rparr>" "seen cp = insert k K"
    using push_ok [OF w(1) n(2,3) w(2), of "[?c ! (2 * k), ?c ! (2 * k + 1)]"] unfolding n(1) g(4) by auto
  have same: "lc_lead_complete_flag l \<noteq> 0" "lc_ssidpwd_len l = int (length w + length s)" "lc_pwd_len l = int (length w)" "lc_random l = r"
    "lc_count_pkt l = cp"
    by (subst l(3), simp add: g(2,6-8))+
  have T: "?T \<le> 49" and s0: "0 < length s" using chunk_bound [OF c] c by (simp_all add: creds_ok_def)
  have total: "lc_packet_total l = int ?T"
  proof -
    have "0 < lc_ssidpwd_len l" unfolding same(2) using s0 by linarith
    then have "lc_packet_total l = lc_ssidpwd_len l div 2 + 1 + lc_ssidpwd_len l mod 2" using l(2) by (simp add: lead_ok_def)
    then show ?thesis unfolding same(2) total_int .
  qed
  have count: "lc_packet_count l = int (card (insert k K))" using l(2,4) same(5) by (simp add: lead_ok_def)
  let ?q = "p\<lparr>sp_lead_code := l, sp_src_data_buff := ?src\<rparr>"
  have dec: "sc_dec_packet_decode A p f = (if card (insert k K) \<noteq> ?T then Some (sp_status ?q, ?q) else finish_decode A ?q)"
    unfolding sc_dec_packet_decode_def Let_def a(4,7) using a(3) n g(2) l(1) count total by simp
  obtain st q where q: "sc_dec_packet_decode A p f = Some (st, q)" "sc_wf q" using packet_ok [OF g(1)] by blast
  have stored: "?src ! (2 * j) = ?c ! (2 * j) \<and> ?src ! (2 * j + 1) = ?c ! (2 * j + 1)" if j: "j \<in> insert k K" for j
  proof -
    have "j < ?T" using j k g(5) by auto
    then have b: "2 * j + 1 < 256" using T by simp
    show ?thesis using nth_two [OF w(2) b, of "2 * j" k] nth_two [OF w(2) b, of "2 * j + 1" k] g(9) [of j] j by (cases "j = k") auto
  qed
  show ?thesis
  proof (cases "insert k K = {..<?T}")
    case True
    have src: "take (2 * ?T) ?src = ?c"
      by (rule pairs_eq) (use stored True cred_len w(2) T in auto)
    obtain res where res: "dec_data_decode A (sp_aes_key p) (sp_result p) l ?src = Some (0, res, ?src[0 := 0])" "result_is w s r res"
      using decode_delivers [OF c src _ w(4) same(2-4) w(3)] w(2) by auto
    have "finish_decode A ?q = Some (SC_STATUS_COMPLETE, ?q\<lparr>sp_result := res, sp_src_data_buff := ?src[0 := 0]\<rparr>)"
      using g(3) True res(1) count total by (simp add: finish_decode_def Let_def)
    then have "st = SC_STATUS_COMPLETE" "q = ?q\<lparr>sp_result := res, sp_src_data_buff := ?src[0 := 0]\<rparr>"
      using q(1) True unfolding dec by simp_all
    then have "delivered w s r (after_status st q)"
      using q(2) res(2) same(1) by (simp add: delivered_def after_status_def sc_wf_def)
    then show ?thesis using q(1) by (simp add: gathered_def)
  next
    case False
    then have sub: "insert k K \<subset> {..<?T}" using k g(5) by auto
    then have "card (insert k K) \<noteq> ?T" using psubset_card_mono [OF _ sub] by simp
    then have e: "st = SC_STATUS_LOCKED_CHAN" "q = ?q" using q(1) g(3) unfolding dec by simp_all
    have "gathering w s r (insert k K) ?q"
      unfolding gathering_def Let_def using q(2) [unfolded e(2)] same l(4) sub stored g(3) by simp
    moreover have "after_status st q = ?q" unfolding e by (rule after_same) (use g(3) in simp)
    ultimately show ?thesis using q(1) unfolding gathered_def by (intro exI [of _ st] exI [of _ q]) auto
  qed
qed

section \<open>Whole transmissions\<close>

text \<open>Multicast frames of other senders are told by a number outside the range of the code.\<close>

fun other_code :: "sc_code \<Rightarrow> bool" where
  "other_code (n, x, y) \<longleftrightarrow> n = 0 \<or> 127 < n"

definition expected_frame :: "u8 \<Rightarrow> u8 list \<Rightarrow> u8 list \<Rightarrow> u8 \<Rightarrow> u8 list \<Rightarrow> bool" where
  "expected_frame ch w s r f \<longleftrightarrow> (case frame_code f of None \<Rightarrow> True
     | Some c \<Rightarrow> other_code c \<or> c \<in> lead_codes ch w s r \<or> c \<in> chunk_codes w s)"

lemma other_packet:
  assumes "frame_code f = Some c" "other_code c"
    "lc_lead_complete_flag (sp_lead_code p) = 0 \<or> lc_packet_total (sp_lead_code p) \<noteq> lc_packet_count (sp_lead_code p)"
  shows "sc_dec_packet_decode A p f = Some (sp_status p, p)"
proof -
  obtain n x y where c: "c = (n, x, y)" by (cases c)
  note a = code_addr [OF assms(1) [unfolded c]]
  have "\<not> (0 < n \<and> n < 5)" "\<not> (5 \<le> n \<and> n \<le> 127)" using assms(2) c by (auto simp: word_less_nat_alt word_le_nat_alt)
  then show ?thesis unfolding sc_dec_packet_decode_def Let_def a(4) using a(3) assms(3) by (auto simp: finish_decode_def Let_def)
qed

lemma gathering_count:
  assumes "gathering w s r K p" "creds_ok w s r"
  shows "lc_packet_total (sp_lead_code p) \<noteq> lc_packet_count (sp_lead_code p)"
proof -
  let ?l = "sp_lead_code p"
  have l: "lead_ok ?l" "lc_ssidpwd_len ?l = int (length w + length s)" "seen (lc_count_pkt ?l) \<subset> {..<chunk_total w s}"
    using assms(1) by (simp_all add: gathering_def sc_wf_def Let_def)
  have "0 < length s" using assms(2) by (simp add: creds_ok_def)
  then have "0 < lc_ssidpwd_len ?l" unfolding l(2) by linarith
  then have "lc_packet_total ?l = lc_ssidpwd_len ?l div 2 + 1 + lc_ssidpwd_len ?l mod 2" using l(1) by (simp add: lead_ok_def)
  then have "lc_packet_total ?l = int (chunk_total w s)" unfolding l(2) total_int .
  then show ?thesis using l(1) psubset_card_mono [OF _ l(3)] by (simp add: lead_ok_def)
qed

definition chunks_of :: "u8 list \<Rightarrow> u8 list \<Rightarrow> u8 list \<Rightarrow> nat set" where
  "chunks_of w s f = {k. k < chunk_total w s \<and> frame_code f = Some (chunk_code w s k)}"

lemma chunk_code_inj:
  assumes "chunk_code w s j = chunk_code w s k" "j < chunk_total w s" "k < chunk_total w s" "creds_ok w s r"
  shows "j = k"
proof -
  have "unat (of_nat (j + 5) :: u8) = unat (of_nat (k + 5) :: u8)" using assms(1) by (simp add: chunk_code_def)
  then show ?thesis unfolding chunk_number(1) [OF assms(2,4)] chunk_number(1) [OF assms(3,4)] by simp
qed

lemma gathered_mono: "gathered w s r K p \<Longrightarrow> L \<subseteq> K \<Longrightarrow> gathered w s r L p"
  unfolding gathered_def by blast

lemma gathered_packet:
  assumes g: "gathered w s r K p" and c: "creds_ok w s r" and e: "expected_frame ch w s r f" and f: "frame_code f = Some d"
  shows "\<exists>st q. sc_dec_packet_decode A p f = Some (st, q) \<and>
     gathered w s r (K \<union> chunks_of w s f) (after_status st q)"
proof (cases "delivered w s r p")
  case True
  then have p: "sc_wf p" "sp_status p = SC_STATUS_COMPLETE" "lc_lead_complete_flag (sp_lead_code p) \<noteq> 0" "result_is w s r (sp_result p)"
    by (simp_all add: delivered_def)
  obtain q where q: "sc_dec_packet_decode A p f = Some (SC_STATUS_COMPLETE, q)" "sc_wf q" "sp_status q = SC_STATUS_COMPLETE"
    "lc_lead_complete_flag (sp_lead_code q) \<noteq> 0" "sp_result q = sp_result p"
    using complete_packet [OF p(1-3)] by blast
  then have "delivered w s r q" using p(4) by (simp add: delivered_def)
  then show ?thesis using q(1) after_same [OF q(3)] unfolding gathered_def by (metis (no_types))
next
  case False
  then obtain L where L: "K \<subseteq> L" "gathering w s r L p" using g by (auto simp: gathered_def)
  then have p: "lc_lead_complete_flag (sp_lead_code p) \<noteq> 0" "sp_status p = SC_STATUS_LOCKED_CHAN"
    by (simp_all add: gathering_def Let_def)
  show ?thesis
  proof (cases "d \<in> chunk_codes w s")
    case True
    then obtain k where k: "k < chunk_total w s" "d = chunk_code w s k" by (auto simp: chunk_codes_def)
    have "{j. j < chunk_total w s \<and> frame_code f = Some (chunk_code w s j)} \<subseteq> {k}"
      using chunk_code_inj [OF _ _ k(1) c] f k(2) by auto
    then have sub: "K \<union> chunks_of w s f \<subseteq> insert k L" using L(1) by (auto simp: chunks_of_def)
    obtain st q where "sc_dec_packet_decode A p f = Some (st, q)" "gathered w s r (insert k L) (after_status st q)"
      using gathering_chunk [OF L(2) c f [unfolded k(2)] k(1)] by blast
    then show ?thesis using gathered_mono [OF _ sub] by blast
  next
    case no: False
    then have "other_code d \<or> d \<in> lead_codes ch w s r" using e f by (simp add: expected_frame_def)
    then have "sc_dec_packet_decode A p f = Some (sp_status p, p)"
      using other_packet [OF f, of p] late_lead [OF p(1) f] gathering_count [OF L(2) c] by blast
    moreover have "K \<union> chunks_of w s f \<subseteq> K" using no f by (auto simp: chunk_codes_def chunks_of_def)
    then have "gathered w s r (K \<union> chunks_of w s f) p" by (rule gathered_mono [OF g])
    ultimately show ?thesis using after_same [of p "sp_status p"] by (intro exI [of _ "sp_status p"] exI [of _ p]) simp
  qed
qed

text \<open>The receiver has seen the lead codes numbered \<open>L\<close>, or is beyond them.\<close>

definition led :: "u8 list \<Rightarrow> u8 list \<Rightarrow> u8 \<Rightarrow> u8 set \<Rightarrow> smartconfig_priv \<Rightarrow> bool" where
  "led w s r L p \<longleftrightarrow> gathered w s r {} p \<or> (\<exists>M. L \<subseteq> M \<and> leading w s r M p)"

definition leads_of :: "u8 \<Rightarrow> u8 list \<Rightarrow> u8 list \<Rightarrow> u8 \<Rightarrow> u8 list \<Rightarrow> u8 set" where
  "leads_of ch w s r f = {n. \<exists>v. lead_code n v \<in> lead_codes ch w s r \<and> frame_code f = Some (lead_code n v)}"

lemma led_packet:
  assumes g: "led w s r L p" and c: "creds_ok w s r" and e: "expected_frame ch w s r f" and f: "frame_code f = Some d"
  shows "\<exists>st q. sc_dec_packet_decode A p f = Some (st, q) \<and> led w s r (L \<union> leads_of ch w s r f) (after_status st q)"
proof (cases "gathered w s r {} p")
  case True
  then obtain st q where "sc_dec_packet_decode A p f = Some (st, q)"
    "gathered w s r ({} \<union> chunks_of w s f) (after_status st q)"
    using gathered_packet [OF _ c e f] by blast
  then show ?thesis using gathered_mono [of w s r _ _ "{}"] unfolding led_def by blast
next
  case False
  then obtain M where M: "L \<subseteq> M" "leading w s r M p" using g by (auto simp: led_def)
  show ?thesis
  proof (cases "d \<in> lead_codes ch w s r")
    case True
    then obtain n v where d: "d = lead_code n v" by (auto simp: lead_codes_def)
    have sub: "L \<union> leads_of ch w s r f \<subseteq> insert n M"
      using M(1) f d by (auto simp: leads_of_def lead_code_def)
    obtain st q where "sc_dec_packet_decode A p f = Some (st, q)"
      "gathering w s r {} (after_status st q) \<or> leading w s r (insert n M) (after_status st q)"
      using leading_lead [OF M(2) c f [unfolded d] True [unfolded d]] by blast
    then show ?thesis using sub unfolding led_def gathered_def by blast
  next
    case no: False
    have "sc_dec_packet_decode A p f = Some (sp_status p, p)"
    proof (cases "d \<in> chunk_codes w s")
      case True
      then show ?thesis using leading_chunk [OF M(2) _ _ c] f by (auto simp: chunk_codes_def)
    next
      case False
      then have "other_code d" using e f no by (simp add: expected_frame_def)
      then show ?thesis using other_packet [OF f] M(2) by (simp add: leading_def Let_def)
    qed
    moreover have "leads_of ch w s r f = {}" using no f by (auto simp: leads_of_def)
    ultimately show ?thesis using g after_same [of p "sp_status p"] by (intro exI [of _ "sp_status p"] exI [of _ p]) simp
  qed
qed

text \<open>
  Both phases are of one kind: what has been received only grows, by what each frame carries, and
  frames without a code leave everything alone.
\<close>

type_synonym sc_creds = "u8 \<times> u8 list \<times> u8 list \<times> u8"

locale sc_phase =
  fixes P :: "sc_creds \<Rightarrow> 'a set \<Rightarrow> smartconfig_priv \<Rightarrow> bool" and gain :: "sc_creds \<Rightarrow> u8 list \<Rightarrow> 'a set"
    and legal :: "sc_creds \<Rightarrow> u8 list \<Rightarrow> bool"
  assumes packet: "P c K p \<Longrightarrow> legal c f \<Longrightarrow> frame_code f = Some d \<Longrightarrow>
      \<exists>st q. sc_dec_packet_decode A p f = Some (st, q) \<and> P c (K \<union> gain c f) (after_status st q)"
    and no_gain: "frame_code f = None \<Longrightarrow> gain c f = {}"
begin

lemma frame:
  assumes "sc_priv t = Some p" "P c K p" "legal c f"
  shows "\<exists>t' q. smartconfig_recv_rawframe A f t = Some t' \<and> sc_priv t' = Some q \<and> P c (K \<union> gain c f) q"
proof (cases "frame_code f")
  case None
  then show ?thesis using foreign_frame [OF None assms(1), of A] no_gain [OF None] assms(1,2) by simp
next
  case (Some d)
  obtain n x y where d: "d = (n, x, y)" by (cases d)
  show ?thesis using packet [OF assms(2,3) Some, of A] recv_after [OF assms(1) code_addr(1) [OF Some [unfolded d]]] by blast
qed

lemma frames:
  assumes "sc_priv t = Some p" "P c K p" "\<forall>f\<in>set fs. legal c f"
  shows "\<exists>t' q. recv_frames A fs t = Some t' \<and> sc_priv t' = Some q \<and> P c (K \<union> (\<Union>f\<in>set fs. gain c f)) q"
  using assms
proof (induction fs arbitrary: t p K)
  case (Cons f fs)
  obtain t1 p1 where 1: "smartconfig_recv_rawframe A f t = Some t1" "sc_priv t1 = Some p1" "P c (K \<union> gain c f) p1"
    using frame [OF Cons.prems(1,2), of f A] Cons.prems(3) by auto
  show ?case using Cons.IH [OF 1(2,3)] Cons.prems(3) 1(1) by (simp add: Un_assoc)
qed simp

end

interpretation leading_phase: sc_phase "\<lambda>(ch, w, s, r) L p. creds_ok w s r \<and> led w s r L p" "\<lambda>(ch, w, s, r). leads_of ch w s r"
  "\<lambda>(ch, w, s, r). expected_frame ch w s r"
proof (unfold_locales, goal_cases)
  case (1 c K p f d A)
  then show ?case using led_packet [of _ _ _ K p _ f d A] by (auto split: prod.splits)
next
  case (2 f c)
  then show ?case by (auto simp: leads_of_def split: prod.splits)
qed

interpretation gathering_phase: sc_phase "\<lambda>(ch, w, s, r) K p. creds_ok w s r \<and> gathered w s r K p" "\<lambda>(ch, w, s, r). chunks_of w s"
  "\<lambda>(ch, w, s, r). expected_frame ch w s r"
proof (unfold_locales, goal_cases)
  case (1 c K p f d A)
  then show ?case using gathered_packet [of _ _ _ K p _ f d A] by (auto split: prod.splits)
next
  case (2 f c)
  then show ?case by (auto simp: chunks_of_def split: prod.splits)
qed

section \<open>Delivery\<close>

lemma started:
  assumes "wlan_smart_config_start True None True (True, True) s0 = (0, t)"
  shows "\<exists>p. sc_priv t = Some p \<and> leading w s r {} p"
proof -
  let ?p = "zero_priv\<lparr>sp_lead_code := sc_reset_lead_code, sp_status := SC_STATUS_SEARCH_CHAN\<rparr>"
  have "sc_priv t = Some ?p" using assms by (auto simp: wlan_smart_config_start_def smartconfig_start_def Let_def split: if_splits)
  moreover have "sc_wf ?p" by (simp add: sc_wf_def zero_priv_def result_ok_def)
  then have "leading w s r {} ?p" by (simp add: leading_def zero_priv_def sc_reset_lead_code_def Let_def)
  ultimately show ?thesis by blast
qed

lemma gathered_all:
  assumes "gathered w s r {..<chunk_total w s} p"
  shows "delivered w s r p"
  using assms unfolding gathered_def gathering_def Let_def by blast

lemma recv_append: "recv_frames A (xs @ ys) t = Option.bind (recv_frames A xs t) (recv_frames A ys)"
  by (induction xs arbitrary: t) (simp_all split: bind_split)

lemma led_mono: "led w s r M p \<Longrightarrow> L \<subseteq> M \<Longrightarrow> led w s r L p"
  unfolding led_def by blast

lemma fifth_lead:
  assumes "sc_priv t = Some p" "led w s r {1, 2, 3, 4} p" "creds_ok w s r" "frame_code x \<in> Some ` lead_codes ch w s r"
    "expected_frame ch w s r x"
  shows "\<exists>t' q. smartconfig_recv_rawframe A x t = Some t' \<and> sc_priv t' = Some q \<and> gathered w s r {} q"
proof (cases "gathered w s r {} p")
  case True
  then show ?thesis using gathering_phase.frame [OF assms(1), of "(ch, w, s, r)" "{}" x A] assms(3,5)
    by (auto intro: gathered_mono)
next
  case False
  then obtain M where M: "{1, 2, 3, 4} \<subseteq> M" "leading w s r M p" using assms(2) by (auto simp: led_def)
  obtain n v where x: "frame_code x = Some (lead_code n v)" "lead_code n v \<in> lead_codes ch w s r"
    using assms(4) by (auto simp: lead_codes_def)
  obtain st q where "sc_dec_packet_decode A p x = Some (st, q)" "gathering w s r {} (after_status st q)"
    using leading_lead [OF M(2) assms(3) x] M(1) by blast
  then show ?thesis using recv_after [OF assms(1) code_addr(1) [OF x(1) [unfolded lead_code_def]]]
    unfolding gathered_def by blast
qed

lemma all_leads:
  assumes "Some ` lead_codes ch w s r \<subseteq> frame_code ` set us"
  shows "{1, 2, 3, 4} \<subseteq> (\<Union>f\<in>set us. leads_of ch w s r f)"
proof -
  have "n \<in> (\<Union>f\<in>set us. leads_of ch w s r f)" if "lead_code n v \<in> lead_codes ch w s r" for n v
  proof -
    obtain f where "f \<in> set us" "frame_code f = Some (lead_code n v)" using assms \<open>lead_code n v \<in> _\<close> by force
    then show ?thesis using that unfolding leads_of_def by blast
  qed
  then show ?thesis unfolding lead_codes_def by blast
qed

lemma transmission:
  assumes "sc_priv t = Some p" "leading w s r {} p" "creds_ok w s r" "\<forall>f\<in>set (us @ x # vs). expected_frame ch w s r f"
    "Some ` lead_codes ch w s r \<subseteq> frame_code ` set us" "frame_code x \<in> Some ` lead_codes ch w s r"
    "Some ` chunk_codes w s \<subseteq> frame_code ` set vs"
  shows "\<exists>t' q. recv_frames A (us @ x # vs) t = Some t' \<and> sc_priv t' = Some q \<and> delivered w s r q"
proof -
  let ?c = "(ch, w, s, r)"
  have l: "led w s r {} p" using assms(2) unfolding led_def by blast
  obtain t1 q1 where 1: "recv_frames A us t = Some t1" "sc_priv t1 = Some q1" "led w s r (\<Union>f\<in>set us. leads_of ch w s r f) q1"
    using leading_phase.frames [OF assms(1), of ?c "{}" us A] l assms(3,4) by auto
  have "led w s r {1, 2, 3, 4} q1" by (rule led_mono [OF 1(3) all_leads [OF assms(5)]])
  then obtain t2 q2 where 2: "smartconfig_recv_rawframe A x t1 = Some t2" "sc_priv t2 = Some q2" "gathered w s r {} q2"
    using fifth_lead [OF 1(2) _ assms(3,6), of A] assms(4) by auto
  obtain t3 q3 where 3: "recv_frames A vs t2 = Some t3" "sc_priv t3 = Some q3" "gathered w s r (\<Union>f\<in>set vs. chunks_of w s f) q3"
    using gathering_phase.frames [OF 2(2), of ?c "{}" vs A] 2(3) assms(3,4) by auto
  have "k \<in> (\<Union>f\<in>set vs. chunks_of w s f)" if "k < chunk_total w s" for k
  proof -
    have "Some (chunk_code w s k) \<in> frame_code ` set vs" using assms(7) that unfolding chunk_codes_def by blast
    then obtain f where "f \<in> set vs" "frame_code f = Some (chunk_code w s k)" by force
    then show ?thesis using that unfolding chunks_of_def by blast
  qed
  then have "{..<chunk_total w s} \<subseteq> (\<Union>f\<in>set vs. chunks_of w s f)" by (simp add: subset_iff)
  then have "gathered w s r {..<chunk_total w s} q3" by (rule gathered_mono [OF 3(3)])
  then have "delivered w s r q3" by (rule gathered_all)
  then show ?thesis using 3(2) by (simp add: recv_append 1(1) 2(1) 3(1))
qed

definition received :: "u8 list \<Rightarrow> u8 list \<Rightarrow> u8 \<Rightarrow> wlan_smart_config_result \<Rightarrow> bool" where
  "received w s r res \<longleftrightarrow> wr_ssid_len res = of_nat (length s) \<and> take (length s) (wr_ssid res) = s \<and>
     take (length w + 1) (wr_passphrase res) = w @ [0] \<and> wr_random_num res = r"

lemma take_Suc_snoc: "take (Suc n) xs = ys @ [y] \<Longrightarrow> length ys = n \<Longrightarrow> take n xs = ys"
  by (metis append_eq_conv_conj butlast_snoc butlast_take diff_Suc_1 length_take min.commute take_all_iff take_take
      append_take_drop_id append.assoc)

lemma delivered_result:
  assumes "sc_priv t = Some q" "delivered w s r q" "creds_ok w s r" "length (wr_ssid res0) = 32" "length (wr_passphrase res0) = 64"
  shows "wlan_smart_config_get_status t = SC_STATUS_COMPLETE" "\<exists>res. smartconfig_get_result res0 t = Some res \<and> received w s r res"
proof -
  have c: "length s \<le> 32" "length w \<le> 63" using assms(3) by (simp_all add: creds_ok_def)
  show "wlan_smart_config_get_status t = SC_STATUS_COMPLETE"
    using assms(1,2) by (simp add: wlan_smart_config_get_status_def delivered_def)
  let ?R = "sp_result q"
  have u: "unat (of_nat (length s) :: u8) = length s" "unat (of_nat (length w) :: u8) = length w" using c unat_small by simp_all
  have R: "sr_ssid_len ?R = of_nat (length s)" "take (length s) (sr_ssid ?R) = s" "sr_pwd_len ?R = of_nat (length w)"
    "take (Suc (length w)) (sr_pwd ?R) = w @ [0]" "sr_random ?R = r"
    using assms(2) by (simp_all add: delivered_def result_is_def)
  have w: "take (length w) (sr_pwd ?R) = w" by (rule take_Suc_snoc [OF R(4) refl])
  have s: "length s \<le> length (sr_ssid ?R)" using R(2) by (metis length_take min.cobounded2 min.commute)
  obtain x xs where x: "wr_passphrase res0 = x # xs" using assms(5) by (cases "wr_passphrase res0") auto
  show "\<exists>res. smartconfig_get_result res0 t = Some res \<and> received w s r res"
    using assms(1,4,5) c R u w s x
    by (auto simp: smartconfig_get_result_def smartconfig_read_result_def received_def Let_def)
qed

end
