(* ===== verification/SmartConfig_Sim.thy ===== *)
theory SmartConfig_Sim
  imports SmartConfig_Run
begin

text \<open>A concrete transmission: frames that carry given codes, and an engine that decrypts to a constant.\<close>

definition code_frame :: "sc_code \<Rightarrow> u8 list" where
  "code_frame = (\<lambda>(n, x, y). [8, 2, 0, 0, 1, 0, 0x5E, n, x, y] @ replicate 14 0)"

definition sim_sc_idle :: smartconfig where
  "sim_sc_idle = \<lparr>sc_priv = None, sc_calls = []\<rparr>"

definition sim_sc_started :: smartconfig where
  "sim_sc_started = snd (wlan_smart_config_start True None True (True, True) sim_sc_idle)"

definition sim_sc_aes :: aes where
  "sim_sc_aes = (\<lambda>src key. Some (replicate (length src) 255))"

text \<open>The password 12345, the name of the network ap; a multicast frame of a name service passes by.\<close>

definition sim_pwd :: "u8 list" where
  "sim_pwd = [49, 50, 51, 52, 53]"

definition sim_ssid :: "u8 list" where
  "sim_ssid = [97, 112]"

definition sim_leads :: "u8 list list" where
  "sim_leads = map code_frame [lead_code 4 77, chunk_code sim_pwd sim_ssid 0, lead_code 2 7, lead_code 3 5, (0, 0, 0xFB), lead_code 1 6]"

definition sim_chunks :: "u8 list list" where
  "sim_chunks = map code_frame [chunk_code sim_pwd sim_ssid 3, lead_code 2 7, chunk_code sim_pwd sim_ssid 0, chunk_code sim_pwd sim_ssid 3,
     chunk_code sim_pwd sim_ssid 1, chunk_code sim_pwd sim_ssid 4, chunk_code sim_pwd sim_ssid 2]"

definition sim_res :: wlan_smart_config_result where
  "sim_res = \<lparr>wr_ssid = replicate 32 0, wr_ssid_len = 0, wr_passphrase = replicate 64 0, wr_random_num = 0\<rparr>"

lemma sim_started: "wlan_smart_config_start True None True (True, True) sim_sc_idle = (0, sim_sc_started)"
  by (simp add: sim_sc_started_def sim_sc_idle_def wlan_smart_config_start_def smartconfig_start_def Let_def)

lemma code_of_frame [simp]: "frame_code (code_frame c) = Some c"
  by (cases c) (simp add: code_frame_def frame_code_def addr_source_def is_magic_def frame_addr_def Let_def numeral_3_eq_3)

lemma sim_chunk_total [simp]: "chunk_total sim_pwd sim_ssid = 5"
  by (simp add: chunk_total_def sim_pwd_def sim_ssid_def)

lemma sim_lead_codes: "lead_codes 6 sim_pwd sim_ssid 77 = {lead_code 1 6, lead_code 2 7, lead_code 3 5, lead_code 4 77}"
  by (simp add: lead_codes_def sim_pwd_def sim_ssid_def)

lemma sim_expected: "\<forall>f\<in>set (sim_leads @ code_frame (lead_code 1 6) # sim_chunks). expected_frame 6 sim_pwd sim_ssid 77 f"
  by (simp add: sim_leads_def sim_chunks_def expected_frame_def chunk_codes_def sim_lead_codes)

lemma sim_complete:
  "Some ` lead_codes 6 sim_pwd sim_ssid 77 \<subseteq> frame_code ` set sim_leads"
  "frame_code (code_frame (lead_code 1 6)) \<in> Some ` lead_codes 6 sim_pwd sim_ssid 77"
  "Some ` chunk_codes sim_pwd sim_ssid \<subseteq> frame_code ` set sim_chunks"
proof -
  have "{..<5} = {0, 1, 2, 3, 4 :: nat}" by auto
  then show "Some ` chunk_codes sim_pwd sim_ssid \<subseteq> frame_code ` set sim_chunks" by (simp add: chunk_codes_def sim_chunks_def)
qed (simp_all add: sim_lead_codes sim_leads_def)

end
