(* ===== verification/At_Queue.thy ===== *)
theory At_Queue
  imports XR_Prelude
begin

text \<open>
  The input of the AT command interpreter, \<open>src/atcmd/at_queue.c\<close>: a ring buffer that is filled
  from a callback of the application when it is empty.  The locale \<open>at_input\<close> is what the
  interpreter relies on: bytes come out in the order of a stream, and looking ahead takes nothing.
\<close>

datatype at_queue_error = AQEC_OK | AQEC_FAIL | AQEC_EMPTY | AQEC_FULL

text \<open>The callback delivers bytes, at most as many as it is asked for; none when it has nothing.\<close>

record 'e at_queue =
  qbuf :: "u8 list"
  qsize :: int
  qcnt :: int
  ridx :: int
  widx :: int
  at_queue_callback :: "(nat \<Rightarrow> 'e \<Rightarrow> u8 list \<times> 'e) option"

definition at_queue_init ::
  "u8 list option \<Rightarrow> int \<Rightarrow> (nat \<Rightarrow> 'e \<Rightarrow> u8 list \<times> 'e) option \<Rightarrow> 'e at_queue \<Rightarrow> int \<times> 'e at_queue" where
  "at_queue_init buf sz cb q =
     (case (buf, cb) of
        (Some b, Some f) \<Rightarrow> (0, \<lparr>qbuf = b, qsize = sz, qcnt = 0, ridx = 0, widx = 0, at_queue_callback = Some f\<rparr>)
      | _ \<Rightarrow> (- 1, q))"

definition queue_put :: "u8 \<Rightarrow> 'e at_queue \<Rightarrow> 'e at_queue option" where
  "queue_put b q =
     (if widx q < 0 \<or> int (length (qbuf q)) \<le> widx q then None
      else let w = widx q + 1 in
        Some (q\<lparr>qbuf := (qbuf q)[nat (widx q) := b], widx := (if w \<ge> qsize q then 0 else w), qcnt := qcnt q + 1\<rparr>))"

fun queue_puts :: "u8 list \<Rightarrow> 'e at_queue \<Rightarrow> 'e at_queue option" where
  "queue_puts [] q = Some q"
| "queue_puts (b # bs) q = do { q \<leftarrow> queue_put b q; queue_puts bs q }"

abbreviation (input) WINBUF :: nat where "WINBUF \<equiv> 32"

text \<open>The first part of both operations: \<open>False\<close> says that they return \<open>AQEC_EMPTY\<close>.\<close>

definition queue_fill :: "'e \<Rightarrow> 'e at_queue \<Rightarrow> (bool \<times> 'e \<times> 'e at_queue) option" where
  "queue_fill e q =
     (if qcnt q \<le> 0 then
        case at_queue_callback q of
          None \<Rightarrow> Some (False, e, q)
        | Some f \<Rightarrow>
            let (bs, e) = f WINBUF e in
            if length bs > WINBUF then None
            else if bs = [] then Some (False, e, q)
            else if int (length bs) > qsize q - qcnt q then Some (True, e, q)
            else do { q \<leftarrow> queue_puts bs q; Some (True, e, q) }
      else Some (True, e, q))"

definition queue_front :: "'e at_queue \<Rightarrow> u8 option" where
  "queue_front q = (if ridx q < 0 \<or> int (length (qbuf q)) \<le> ridx q then None else Some (qbuf q ! nat (ridx q)))"

definition at_queue_get :: "'e \<Rightarrow> 'e at_queue \<Rightarrow> (u8 option \<times> 'e \<times> 'e at_queue) option" where
  "at_queue_get e q = do {
     (ok, e, q) \<leftarrow> queue_fill e q;
     if \<not> ok then Some (None, e, q) else do {
       b \<leftarrow> queue_front q;
       let r = ridx q + 1 in
       Some (Some b, e, q\<lparr>ridx := (if r \<ge> qsize q then 0 else r), qcnt := qcnt q - 1\<rparr>)
     }
   }"

definition at_queue_peek :: "'e \<Rightarrow> 'e at_queue \<Rightarrow> (u8 option \<times> 'e \<times> 'e at_queue) option" where
  "at_queue_peek e q = do {
     (ok, e, q) \<leftarrow> queue_fill e q;
     if \<not> ok then Some (None, e, q) else do { b \<leftarrow> queue_front q; Some (Some b, e, q) }
   }"

section \<open>The bytes in the ring\<close>

definition ring_ok :: "'e at_queue \<Rightarrow> bool" where
  "ring_ok q \<longleftrightarrow> 0 < qsize q \<and> qsize q = int (length (qbuf q)) \<and> 0 \<le> qcnt q \<and> qcnt q \<le> qsize q \<and>
     0 \<le> ridx q \<and> ridx q < qsize q \<and> widx q = (ridx q + qcnt q) mod qsize q"

definition ring :: "'e at_queue \<Rightarrow> u8 list" where
  "ring q = map (\<lambda>i. qbuf q ! ((nat (ridx q) + i) mod nat (qsize q))) [0..<nat (qcnt q)]"

lemma ring_empty [simp]: "qcnt q \<le> 0 \<Longrightarrow> ring q = []"
  by (simp add: ring_def)

lemma wrap_mod: "0 \<le> w \<Longrightarrow> w < n \<Longrightarrow> (if w + 1 \<ge> n then 0 else w + 1) = (w + 1) mod n" for w n :: int
  by (cases "w + 1 = n") simp_all

lemma put_index:
  assumes "r < n" "c < n" "i < c"
  shows "(r + i) mod n \<noteq> (r + c) mod (n :: nat)"
proof
  assume "(r + i) mod n = (r + c) mod n"
  then have "(r + c - (r + i)) mod n = 0" by (metis mod_eq_dvd_iff_nat add_le_mono less_imp_le_nat assms(3) order_refl dvd_imp_mod_0)
  then have "(c - i) mod n = 0" by simp
  then show False using assms by simp
qed

lemma put_ring:
  assumes "ring_ok q" "qcnt q < qsize q"
  shows "\<exists>q'. queue_put b q = Some q' \<and> ring_ok q' \<and> ring q' = ring q @ [b] \<and> qcnt q' = qcnt q + 1 \<and>
     qsize q' = qsize q \<and> at_queue_callback q' = at_queue_callback q"
proof -
  let ?n = "nat (qsize q)" and ?r = "nat (ridx q)" and ?c = "nat (qcnt q)" and ?w = "nat (widx q)"
  have q: "0 < qsize q" "qsize q = int (length (qbuf q))" "0 \<le> qcnt q" "0 \<le> ridx q" "ridx q < qsize q"
    "widx q = (ridx q + qcnt q) mod qsize q" using assms(1) unfolding ring_ok_def by blast+
  have w: "0 \<le> widx q" "widx q < qsize q" using q(1,6) pos_mod_bound [OF q(1)] pos_mod_sign [OF q(1)] by metis+
  have wn: "?w = (?r + ?c) mod ?n"
    using q by (simp add: nat_mod_distrib nat_add_distrib)
  let ?q = "q\<lparr>qbuf := (qbuf q)[?w := b], widx := (widx q + 1) mod qsize q, qcnt := qcnt q + 1\<rparr>"
  have put: "queue_put b q = Some ?q"
    using w q(2) wrap_mod [OF w] by (simp add: queue_put_def Let_def)
  have "(widx q + 1) mod qsize q = (ridx q + (qcnt q + 1)) mod qsize q"
    unfolding q(6) by (simp add: mod_add_left_eq add.assoc)
  then have ok: "ring_ok ?q" using q assms(2) by (simp add: ring_ok_def)
  have "ring ?q = map (\<lambda>i. (qbuf q)[?w := b] ! ((?r + i) mod ?n)) ([0..<?c] @ [?c])"
    using q(3) by (simp add: ring_def nat_add_distrib)
  also have "\<dots> = ring q @ [b]"
  proof -
    have "(qbuf q)[?w := b] ! ((?r + i) mod ?n) = qbuf q ! ((?r + i) mod ?n)" if "i < ?c" for i
    proof -
      have "(?r + i) mod ?n \<noteq> (?r + ?c) mod ?n" by (rule put_index) (use q assms(2) that in auto)
      then show ?thesis unfolding wn by (metis nth_list_update_neq)
    qed
    moreover have "(qbuf q)[?w := b] ! ((?r + ?c) mod ?n) = b" using w q(2) wn by simp
    ultimately show ?thesis by (simp add: ring_def)
  qed
  finally show ?thesis using put ok by simp
qed

lemma puts_ring:
  assumes "ring_ok q" "int (length bs) \<le> qsize q - qcnt q"
  shows "\<exists>q'. queue_puts bs q = Some q' \<and> ring_ok q' \<and> ring q' = ring q @ bs \<and> qcnt q' = qcnt q + int (length bs) \<and>
     at_queue_callback q' = at_queue_callback q \<and> qsize q' = qsize q"
  using assms
proof (induction bs arbitrary: q)
  case (Cons b bs)
  obtain q1 where 1: "queue_put b q = Some q1" "ring_ok q1" "ring q1 = ring q @ [b]" "qcnt q1 = qcnt q + 1"
    "qsize q1 = qsize q" "at_queue_callback q1 = at_queue_callback q"
    using put_ring [OF Cons.prems(1), of b] Cons.prems(2) by auto
  obtain q2 where "queue_puts bs q1 = Some q2" "ring_ok q2" "ring q2 = ring q1 @ bs" "qcnt q2 = qcnt q1 + int (length bs)"
    "at_queue_callback q2 = at_queue_callback q1" "qsize q2 = qsize q1"
    using Cons.IH [OF 1(2)] Cons.prems(2) 1(4,5) by auto
  then show ?case using 1 by simp
qed simp

section \<open>The stream of the callback\<close>

text \<open>
  What the callback will deliver is a list of bursts, each no longer than was asked for; an empty
  one stands for a moment at which nothing has arrived.
\<close>

definition from_bursts :: "(nat \<Rightarrow> 'e \<Rightarrow> u8 list \<times> 'e) \<Rightarrow> ('e \<Rightarrow> u8 list list) \<Rightarrow> bool" where
  "from_bursts f rest \<longleftrightarrow> (\<forall>e. (\<forall>b \<in> set (rest e). length b \<le> WINBUF) \<longrightarrow>
     (case rest e of [] \<Rightarrow> fst (f WINBUF e) = [] \<and> rest (snd (f WINBUF e)) = []
      | b # bs \<Rightarrow> fst (f WINBUF e) = b \<and> rest (snd (f WINBUF e)) = bs))"

definition input_ok :: "('e \<Rightarrow> u8 list list) \<Rightarrow> 'e \<Rightarrow> 'e at_queue \<Rightarrow> bool" where
  "input_ok rest e q \<longleftrightarrow> ring_ok q \<and> int WINBUF \<le> qsize q \<and> (\<exists>f. at_queue_callback q = Some f \<and> from_bursts f rest) \<and>
     (\<forall>b \<in> set (rest e). length b \<le> WINBUF)"

text \<open>The bytes still to come, and the number of bursts as a measure of the waiting.\<close>

definition pending :: "('e \<Rightarrow> u8 list list) \<Rightarrow> 'e \<Rightarrow> 'e at_queue \<Rightarrow> u8 list" where
  "pending rest e q = ring q @ concat (rest e)"

lemma burst_empty: "from_bursts f rest \<Longrightarrow> rest e = [] \<Longrightarrow> fst (f WINBUF e) = [] \<and> rest (snd (f WINBUF e)) = []"
  by (auto simp: from_bursts_def dest: spec [of _ e])

lemma burst_next:
  "from_bursts f rest \<Longrightarrow> \<forall>b \<in> set (rest e). length b \<le> WINBUF \<Longrightarrow> rest e = b # bs \<Longrightarrow> fst (f WINBUF e) = b \<and> rest (snd (f WINBUF e)) = bs"
  unfolding from_bursts_def by (drule spec [of _ e]) simp

lemma fill_ok:
  assumes "input_ok rest e q"
  shows "\<exists>ok e' q'. queue_fill e q = Some (ok, e', q') \<and> input_ok rest e' q' \<and> pending rest e' q' = pending rest e q \<and>
     length (rest e') \<le> length (rest e) \<and> (ok \<longleftrightarrow> 0 < qcnt q') \<and> (\<not> ok \<longrightarrow> rest e = [] \<or> length (rest e') < length (rest e))"
proof (cases "qcnt q \<le> 0")
  case False
  then show ?thesis using assms by (intro exI [of _ True] exI [of _ e] exI [of _ q]) (simp add: queue_fill_def)
next
  case True
  obtain f where f: "at_queue_callback q = Some f" "from_bursts f rest" and q: "ring_ok q" "int WINBUF \<le> qsize q"
    "\<forall>b \<in> set (rest e). length b \<le> WINBUF"
    using assms by (auto simp: input_ok_def)
  have c: "qcnt q = 0" using True q(1) by (simp add: ring_ok_def)
  obtain bs e' where fe: "f WINBUF e = (bs, e')" by fastforce
  show ?thesis
  proof (cases "rest e")
    case Nil
    have "bs = []" "rest e' = []" using burst_empty [OF f(2) Nil] fe by simp_all
    then have "queue_fill e q = Some (False, e', q)" "input_ok rest e' q" "pending rest e' q = pending rest e q"
      using True f fe Nil q by (auto simp: queue_fill_def input_ok_def pending_def)
    then show ?thesis using c Nil \<open>rest e' = []\<close> by (intro exI [of _ False] exI [of _ e'] exI [of _ q]) simp
  next
    case (Cons b rs)
    have r: "bs = b" "rest e' = rs" using burst_next [OF f(2) q(3) Cons] fe by simp_all
    have b: "length b \<le> WINBUF" using q(3) Cons by simp
    show ?thesis
    proof (cases "b = []")
      case True
      then have "queue_fill e q = Some (False, e', q)" "input_ok rest e' q" "pending rest e' q = pending rest e q"
        using c f fe r Cons q by (auto simp: queue_fill_def input_ok_def pending_def)
      then show ?thesis using c Cons r(2) by (intro exI [of _ False] exI [of _ e'] exI [of _ q]) simp
    next
      case False
      obtain q' where q': "queue_puts b q = Some q'" "ring_ok q'" "ring q' = ring q @ b" "qcnt q' = qcnt q + int (length b)"
        "at_queue_callback q' = at_queue_callback q" "qsize q' = qsize q"
        using puts_ring [OF q(1), of b] c b q(2) by auto
      have "queue_fill e q = Some (True, e', q')"
        using c f(1) fe r(1) b q(2) q'(1) False by (simp add: queue_fill_def)
      moreover have "input_ok rest e' q'" using q' q(2,3) f r(2) Cons by (simp add: input_ok_def)
      ultimately show ?thesis using q'(3,4) c r(2) Cons False
        by (intro exI [of _ True] exI [of _ e'] exI [of _ q']) (simp add: pending_def)
    qed
  qed
qed

lemma ring_front:
  assumes "ring_ok q" "0 < qcnt q"
  shows "\<exists>b. queue_front q = Some b \<and> ring q = b # ring (q\<lparr>ridx := (ridx q + 1) mod qsize q, qcnt := qcnt q - 1\<rparr>) \<and>
     ring_ok (q\<lparr>ridx := (ridx q + 1) mod qsize q, qcnt := qcnt q - 1\<rparr>)"
proof -
  let ?n = "nat (qsize q)" and ?r = "nat (ridx q)" and ?c = "nat (qcnt q)"
  have q: "0 < qsize q" "qsize q = int (length (qbuf q))" "qcnt q \<le> qsize q" "0 \<le> ridx q" "ridx q < qsize q"
    "widx q = (ridx q + qcnt q) mod qsize q" using assms(1) unfolding ring_ok_def by blast+
  obtain c where c: "?c = Suc c" using assms(2) by (metis not0_implies_Suc zero_less_nat_eq less_numeral_extra(3))
  have c': "nat (qcnt q - 1) = c" using c by simp
  have r': "nat ((ridx q + 1) mod qsize q) = (?r + 1) mod ?n" using q by (simp add: nat_mod_distrib nat_add_distrib)
  have upt: "[0..<Suc c] = 0 # map Suc [0..<c]" by (simp add: map_Suc_upt upt_conv_Cons del: upt_Suc)
  have "ring q = map (\<lambda>i. qbuf q ! ((?r + i) mod ?n)) (0 # map Suc [0..<c])"
    unfolding ring_def c by (simp only: upt)
  also have "\<dots> = qbuf q ! ?r # map (\<lambda>i. qbuf q ! ((?r + Suc i) mod ?n)) [0..<c]"
    using q by (simp add: comp_def)
  also have "map (\<lambda>i. qbuf q ! ((?r + Suc i) mod ?n)) [0..<c] =
      ring (q\<lparr>ridx := (ridx q + 1) mod qsize q, qcnt := qcnt q - 1\<rparr>)"
    unfolding ring_def by (simp add: c' r' mod_add_left_eq)
  finally have ring: "ring q = qbuf q ! ?r # ring (q\<lparr>ridx := (ridx q + 1) mod qsize q, qcnt := qcnt q - 1\<rparr>)" .
  have "(ridx q + 1) mod qsize q + (qcnt q - 1) = (ridx q + 1) mod qsize q + qcnt q - 1" by simp
  moreover have "((ridx q + 1) mod qsize q + (qcnt q - 1)) mod qsize q = (ridx q + qcnt q) mod qsize q"
    by (simp add: mod_add_left_eq)
  ultimately have "ring_ok (q\<lparr>ridx := (ridx q + 1) mod qsize q, qcnt := qcnt q - 1\<rparr>)"
    using q assms(2) pos_mod_bound [OF q(1), of "ridx q + 1"] pos_mod_sign [OF q(1), of "ridx q + 1"]
    unfolding ring_ok_def by (simp add: less_imp_le)
  moreover have "queue_front q = Some (qbuf q ! ?r)" using q by (simp add: queue_front_def)
  ultimately show ?thesis using ring by blast
qed

section \<open>The interface\<close>

text \<open>
  Reading and looking ahead over a stream of bytes; \<open>lag\<close> bounds how often nothing is there
  although bytes are still to come.
\<close>

locale at_input =
  fixes get peek :: "'e \<Rightarrow> 'q \<Rightarrow> (u8 option \<times> 'e \<times> 'q) option" and ok :: "'e \<Rightarrow> 'q \<Rightarrow> bool"
    and stream :: "'e \<Rightarrow> 'q \<Rightarrow> u8 list" and lag :: "'e \<Rightarrow> 'q \<Rightarrow> nat"
  assumes get: "ok e q \<Longrightarrow> \<exists>r e' q'. get e q = Some (r, e', q') \<and> ok e' q' \<and> lag e' q' \<le> lag e q \<and>
      (case r of None \<Rightarrow> stream e' q' = stream e q \<and> (stream e q = [] \<or> lag e' q' < lag e q)
       | Some b \<Rightarrow> stream e q = b # stream e' q')"
    and peek: "ok e q \<Longrightarrow> \<exists>r e' q'. peek e q = Some (r, e', q') \<and> ok e' q' \<and> lag e' q' \<le> lag e q \<and> stream e' q' = stream e q \<and>
      (case r of None \<Rightarrow> True | Some b \<Rightarrow> \<exists>bs. stream e q = b # bs)"

lemma queue_get:
  assumes "input_ok rest e q"
  shows "\<exists>r e' q'. at_queue_get e q = Some (r, e', q') \<and> input_ok rest e' q' \<and> length (rest e') \<le> length (rest e) \<and>
      (case r of None \<Rightarrow> pending rest e' q' = pending rest e q \<and> (pending rest e q = [] \<or> length (rest e') < length (rest e))
       | Some b \<Rightarrow> pending rest e q = b # pending rest e' q')"
proof -
  obtain ok e1 q1 where 1: "queue_fill e q = Some (ok, e1, q1)" "input_ok rest e1 q1" "pending rest e1 q1 = pending rest e q"
    "length (rest e1) \<le> length (rest e)" "ok \<longleftrightarrow> 0 < qcnt q1" "\<not> ok \<Longrightarrow> rest e = [] \<or> length (rest e1) < length (rest e)"
    using fill_ok [OF assms] by auto
  have r1: "ring_ok q1" using 1(2) by (simp add: input_ok_def)
  show ?thesis
  proof (cases ok)
    case False
    have "pending rest e q = []" if "rest e = []"
      using 1(3-5) that False by (simp add: pending_def)
    then show ?thesis using 1 False by (intro exI [of _ None] exI [of _ e1] exI [of _ q1]) (auto simp: at_queue_get_def)
  next
    case True
    let ?q = "q1\<lparr>ridx := (ridx q1 + 1) mod qsize q1, qcnt := qcnt q1 - 1\<rparr>"
    obtain b where b: "queue_front q1 = Some b" "ring q1 = b # ring ?q" "ring_ok ?q"
      using ring_front [OF r1] True 1(5) by blast
    have wrap: "(if ridx q1 + 1 \<ge> qsize q1 then 0 else ridx q1 + 1) = (ridx q1 + 1) mod qsize q1"
      by (rule wrap_mod) (use r1 in \<open>auto simp: ring_ok_def\<close>)
    have "at_queue_get e q = Some (Some b, e1, ?q)"
      using 1(1) True b(1) by (simp add: at_queue_get_def Let_def wrap)
    moreover have "input_ok rest e1 ?q" using 1(2) b(3) by (simp add: input_ok_def)
    ultimately show ?thesis using 1(3,4) b(2)
      by (intro exI [of _ "Some b"] exI [of _ e1] exI [of _ ?q]) (simp add: pending_def)
  qed
qed

lemma queue_peek:
  assumes "input_ok rest e q"
  shows "\<exists>r e' q'. at_queue_peek e q = Some (r, e', q') \<and> input_ok rest e' q' \<and> length (rest e') \<le> length (rest e) \<and>
      pending rest e' q' = pending rest e q \<and> (case r of None \<Rightarrow> True | Some b \<Rightarrow> \<exists>bs. pending rest e q = b # bs)"
proof -
  obtain ok e1 q1 where 1: "queue_fill e q = Some (ok, e1, q1)" "input_ok rest e1 q1" "pending rest e1 q1 = pending rest e q"
    "length (rest e1) \<le> length (rest e)" "ok \<longleftrightarrow> 0 < qcnt q1"
    using fill_ok [OF assms] by auto
  show ?thesis
  proof (cases ok)
    case False
    then show ?thesis using 1 by (intro exI [of _ None] exI [of _ e1] exI [of _ q1]) (simp add: at_queue_peek_def)
  next
    case True
    obtain b bs where "queue_front q1 = Some b" "ring q1 = b # bs"
      using ring_front [of q1] True 1(2,5) unfolding input_ok_def by blast
    then have "at_queue_peek e q = Some (Some b, e1, q1)" "pending rest e q = b # bs @ concat (rest e1)"
      using 1 True by (simp_all add: at_queue_peek_def) (simp add: pending_def flip: 1(3))
    then show ?thesis using 1 by (intro exI [of _ "Some b"] exI [of _ e1] exI [of _ q1]) simp
  qed
qed

interpretation aq: at_input at_queue_get at_queue_peek "input_ok rest" "pending rest" "\<lambda>e q. length (rest e)" for rest
  by unfold_locales (rule queue_get queue_peek, assumption)+

text \<open>
  A callback that delivers more than the buffer holds, when the buffer is empty: the bytes are
  dropped, but the reader gets whatever lies in the buffer, and the count goes below zero.
\<close>

lemma small_queue_reads_stale:
  assumes "ring_ok q" "qcnt q = 0" "at_queue_callback q = Some f" "f WINBUF e = (bs, e')" "qsize q < int (length bs)" "length bs \<le> WINBUF"
  shows "\<exists>q'. at_queue_get e q = Some (Some (qbuf q ! nat (ridx q)), e', q') \<and> qcnt q' = - 1"
proof -
  have "0 \<le> ridx q" "ridx q < int (length (qbuf q))" "bs \<noteq> []" using assms(1,5) unfolding ring_ok_def by auto
  then show ?thesis using assms(2-6) by (simp add: at_queue_get_def queue_fill_def queue_front_def Let_def)
qed

end
