(* ===== verification/At_Para.thy ===== *)
theory At_Para
  imports XR_Prelude
begin

text \<open>
  Parameters of AT commands, \<open>src/atcmd/at_parameter.c\<close>: their values, how a value is printed and
  how it is read.  A pointer into the command line is the memory from there on, a list of bytes;
  reading behind it, or writing behind a buffer of the function, is \<open>None\<close>.
\<close>

section \<open>Values\<close>

datatype at_para_type = APT_TEXT | APT_HEX | APT_DI | APT_HI | APT_IP

text \<open>A text is its characters up to the terminating zero, the other values are as in memory.\<close>

datatype at_value = V_text "u8 list" | V_hex "u8 list" | V_di int | V_hi u32 | V_ip "u8 list"

datatype at_error = AEC_OK | AEC_BLANK_LINE | AEC_CMD_FAIL | AEC_CMD_ERROR | AEC_PARA_ERROR | AEC_NO_PARA | AEC_UNSUPPORTED
  | AEC_NOT_FOUND | AEC_NULL_POINTER | AEC_OUT_OF_RANGE | AEC_SCAN_FAIL | AEC_READ_ONLY | AEC_SEND_FAIL | AEC_SWITCH_MODE
  | AEC_CONNECT_FAIL | AEC_BIND_FAIL | AEC_SOCKET_FAIL | AEC_LIMITED | AEC_DISCONNECT | AEC_NETWORK_ERROR
  | AEC_NOT_ENOUGH_MEMORY | AEC_IMPROPER_OPERATION | AEC_SOCKET_EXISTING | AEC_SEND_READY | AEC_SEND_TIMEOUT
  | AEC_UPGRADE_FAILED | AEC_UNDEFINED

abbreviation (input) AT_PARA_MAX_SIZE :: nat where "AT_PARA_MAX_SIZE \<equiv> 64"

abbreviation (input) AET_PARA :: u32 where "AET_PARA \<equiv> 256"
abbreviation (input) AET_LINE :: u32 where "AET_LINE \<equiv> 512"

definition SIZE_LIMIT :: "u32 \<Rightarrow> nat" where
  "SIZE_LIMIT opt = unat (opt AND 127)"

abbreviation (input) AT_SEPARATOR :: u8 where "AT_SEPARATOR \<equiv> 44"
abbreviation (input) AT_CR :: u8 where "AT_CR \<equiv> 13"
abbreviation (input) AT_LF :: u8 where "AT_LF \<equiv> 10"
abbreviation (input) AT_COLON :: u8 where "AT_COLON \<equiv> 58"
abbreviation (input) AT_DOT :: u8 where "AT_DOT \<equiv> 46"
abbreviation (input) AT_EQU :: u8 where "AT_EQU \<equiv> 61"
abbreviation (input) AT_QUO :: u8 where "AT_QUO \<equiv> 34"
abbreviation (input) AT_QUE :: u8 where "AT_QUE \<equiv> 63"

section \<open>Digits and numbers\<close>

definition is_hex :: "u8 \<Rightarrow> bool" where
  "is_hex ch \<longleftrightarrow> (48 \<le> ch \<and> ch \<le> 57) \<or> (65 \<le> ch \<and> ch \<le> 70) \<or> (97 \<le> ch \<and> ch \<le> 102)"

definition hex_to_num :: "u8 \<Rightarrow> nat" where
  "hex_to_num ch = (if 48 \<le> ch \<and> ch \<le> 57 then unat ch - 48
     else if 65 \<le> ch \<and> ch \<le> 70 then unat ch - 65 + 10 else unat ch - 97 + 10)"

definition is_dec :: "u8 \<Rightarrow> bool" where
  "is_dec ch \<longleftrightarrow> 48 \<le> ch \<and> ch \<le> 57"

definition digits_value :: "nat \<Rightarrow> u8 list \<Rightarrow> nat" where
  "digits_value base ds = foldl (\<lambda>n d. base * n + hex_to_num d) 0 ds"

text \<open>\<open>atoi\<close> on digits: without a value when the number does not fit.\<close>

definition at_atoi :: "u8 list \<Rightarrow> int option" where
  "at_atoi ds = (let n = digits_value 10 ds in if n < 2 ^ 31 then Some (int n) else None)"

text \<open>\<open>sscanf\<close> with \<open>%x\<close> on hexadecimal digits.\<close>

definition scan_hex :: "u8 list \<Rightarrow> u32 option" where
  "scan_hex ds = (let n = digits_value 16 ds in if n < 2 ^ 32 then Some (of_nat n) else None)"

definition hex_digit :: "nat \<Rightarrow> u8" where
  "hex_digit n = (if n < 10 then of_nat (48 + n) else of_nat (55 + n))"

definition hex2 :: "u8 \<Rightarrow> u8 list" where
  "hex2 b = [hex_digit (unat b div 16), hex_digit (unat b mod 16)]"

fun dec_text :: "nat \<Rightarrow> u8 list" where
  "dec_text n = (if n < 10 then [of_nat (48 + n)] else dec_text (n div 10) @ [of_nat (48 + n mod 10)])"

declare dec_text.simps [simp del]

definition int_text :: "int \<Rightarrow> u8 list" where
  "int_text i = (if i < 0 then 45 # dec_text (nat (- i)) else dec_text (nat i))"

fun join_bytes :: "u8 \<Rightarrow> (u8 \<Rightarrow> u8 list) \<Rightarrow> u8 list \<Rightarrow> u8 list" where
  "join_bytes sep f [] = []"
| "join_bytes sep f [b] = f b"
| "join_bytes sep f (b # bs) = f b @ sep # join_bytes sep f bs"

text \<open>The text of a value; the function fails for a type it does not know, of which there is none.\<close>

definition at_get_value :: "at_value \<Rightarrow> u8 list" where
  "at_get_value v = (case v of
       V_di i \<Rightarrow> int_text i
     | V_hi w \<Rightarrow> [48, 120] @ map (\<lambda>i. hex_digit (unat w div 16 ^ i mod 16)) [7, 6, 5, 4, 3, 2, 1, 0]
     | V_hex bs \<Rightarrow> join_bytes 58 hex2 bs
     | V_ip bs \<Rightarrow> join_bytes 46 (\<lambda>b. dec_text (unat b)) bs
     | V_text s \<Rightarrow> s)"

section \<open>Reading\<close>

text \<open>
  The end of a parameter at a pointer: which kind, whether the line is over, and the pointer
  behind it.  All the functions test for it in the same way.
\<close>

definition para_end :: "u8 list \<Rightarrow> (u32 \<times> bool \<times> u8 list) option option" where
  "para_end p = (case p of
       [] \<Rightarrow> None
     | c # q \<Rightarrow>
         if c = AT_SEPARATOR then Some (Some (AET_PARA, False, q))
         else if c = AT_CR then
           (case q of [] \<Rightarrow> None | d # r \<Rightarrow> Some (Some (AET_LINE, True, if d = AT_LF then r else q)))
         else if c = AT_LF then Some (Some (AET_LINE, True, q))
         else Some None)"

definition strbuf_put :: "u8 list \<Rightarrow> u8 \<Rightarrow> u8 list option" where
  "strbuf_put buf b = (if length buf < AT_PARA_MAX_SIZE then Some (buf @ [b]) else None)"

text \<open>What a reading function leaves: the value if it wrote one, the over flag, the pointer.\<close>

type_synonym para_result = "at_value option \<times> bool \<times> u8 list"

fun text_loop :: "nat \<Rightarrow> u8 list \<Rightarrow> u8 list \<Rightarrow> (u8 list \<times> u32 \<times> bool \<times> u8 list) option" where
  "text_loop limit buf [] = (if limit \<le> length buf then Some (buf, 0, False, []) else None)"
| "text_loop limit buf (c # p) =
     (if limit \<le> length buf then Some (buf, 0, False, c # p) else do {
        e \<leftarrow> para_end (c # p);
        case e of
          Some (t, over, q) \<Rightarrow> Some (buf, t, over, q)
        | None \<Rightarrow> if c = AT_QUO then text_loop limit buf p
            else do { buf \<leftarrow> strbuf_put buf c; text_loop limit buf p }
      })"

definition get_text_para :: "u32 \<Rightarrow> u8 list \<Rightarrow> para_result option" where
  "get_text_para opt p = do {
     (buf, t, over, q) \<leftarrow> text_loop (SIZE_LIMIT opt) [] p;
     if t AND opt \<noteq> 0 \<and> buf \<noteq> [] \<and> length buf < SIZE_LIMIT opt then do {
       _ \<leftarrow> strbuf_put buf 0;
       Some (Some (V_text (takeWhile (\<lambda>c. c \<noteq> 0) buf)), over, q)
     }
     else Some (None, over, q)
   }"

definition hex_byte :: "u8 list \<Rightarrow> u8" where
  "hex_byte ds = of_nat (hex_to_num (ds ! 0) * 16 + hex_to_num (ds ! 1))"

text \<open>\<open>hex\<close> holds up to two digits that have been read.\<close>

function hex_loop :: "nat \<Rightarrow> u8 list \<Rightarrow> u8 list \<Rightarrow> u8 list \<Rightarrow> (u8 list \<times> u8 list \<times> u32 \<times> bool \<times> u8 list) option" where
  "hex_loop limit buf hex p =
     (if limit \<le> length buf then Some (buf, hex, 0, False, p) else do {
        e \<leftarrow> para_end p;
        case e of
          Some (t, over, q) \<Rightarrow> Some (buf, hex, t, over, q)
        | None \<Rightarrow>
            if hd p = AT_COLON then Some (buf, hex, AET_PARA, False, p)
            else if hd p = AT_QUO then hex_loop limit buf hex (tl p)
            else if length hex < 2 then
              if is_hex (hd p) then hex_loop limit buf (hex @ [hd p]) (tl p) else Some (buf, hex, 0, False, p)
            else if length hex = 2 then do { buf \<leftarrow> strbuf_put buf (hex_byte hex); hex_loop limit buf [] p }
            else Some (buf, hex, 0, False, p)
      })"
  by pat_completeness auto

lemma para_end_None: "para_end p = Some e \<Longrightarrow> p \<noteq> []"
  by (cases p) (simp_all add: para_end_def)

termination hex_loop
proof (relation "measure (\<lambda>(limit, buf, hex, p). 2 * length p + length hex)", simp_all)
qed (auto dest!: para_end_None simp: neq_Nil_conv)

declare hex_loop.simps [simp del]

definition get_hex_para :: "u32 \<Rightarrow> u8 list \<Rightarrow> para_result option" where
  "get_hex_para opt p = do {
     (buf, hex, t, over, q) \<leftarrow> hex_loop (SIZE_LIMIT opt) [] [] p;
     if t AND opt \<noteq> 0 \<and> length hex = 2 then do {
       buf \<leftarrow> strbuf_put buf (hex_byte hex);
       Some (Some (V_hex (buf @ replicate (SIZE_LIMIT opt - length buf) 0)), over, tl q)
     }
     else Some (None, over, q)
   }"

fun di_loop :: "nat \<Rightarrow> u8 list \<Rightarrow> u8 list \<Rightarrow> (u8 list \<times> u32 \<times> bool \<times> u8 list) option" where
  "di_loop limit buf [] = (if limit \<le> length buf then Some (buf, 0, False, []) else None)"
| "di_loop limit buf (c # p) =
     (if limit \<le> length buf then Some (buf, 0, False, c # p) else do {
        e \<leftarrow> para_end (c # p);
        case e of
          Some (t, over, q) \<Rightarrow> Some (buf, t, over, q)
        | None \<Rightarrow>
            if c = AT_COLON then Some (buf, AET_LINE, True, p)
            else if is_dec c then di_loop limit (buf @ [c]) p
            else Some (buf, 0, False, c # p)
      })"

definition get_di_para :: "u32 \<Rightarrow> u8 list \<Rightarrow> para_result option" where
  "get_di_para opt p = do {
     (buf, t, over, q) \<leftarrow> di_loop 11 [] p;
     if t AND opt \<noteq> 0 \<and> buf \<noteq> [] \<and> length buf < 11 then do {
       i \<leftarrow> at_atoi buf;
       Some (Some (V_di i), over, q)
     }
     else Some (None, over, q)
   }"

fun hi_loop :: "nat \<Rightarrow> u8 list \<Rightarrow> u8 list \<Rightarrow> (u8 list \<times> u32 \<times> bool \<times> u8 list) option" where
  "hi_loop limit buf [] = (if limit \<le> length buf then Some (buf, 0, False, []) else None)"
| "hi_loop limit buf (c # p) =
     (if limit \<le> length buf then Some (buf, 0, False, c # p) else do {
        e \<leftarrow> para_end (c # p);
        case e of
          Some (t, over, q) \<Rightarrow> Some (buf, t, over, q)
        | None \<Rightarrow>
            if c = AT_QUO then hi_loop limit buf p
            else if is_hex c then hi_loop limit (buf @ [c]) p
            else Some (buf, 0, False, c # p)
      })"

definition get_hi_para :: "u32 \<Rightarrow> u8 list \<Rightarrow> para_result option" where
  "get_hi_para opt p = do {
     (buf, t, over, q) \<leftarrow> hi_loop 11 [] p;
     if t AND opt \<noteq> 0 \<and> buf \<noteq> [] \<and> length buf < 11 then do {
       w \<leftarrow> scan_hex buf;
       Some (Some (V_hi w), over, q)
     }
     else Some (None, over, q)
   }"

text \<open>A group of an address: up to three digits, at most 255.\<close>

definition ip_group :: "u8 list \<Rightarrow> u8 option" where
  "ip_group ds = (if 1 \<le> length ds \<and> length ds \<le> 3 \<and> digits_value 10 ds \<le> 255 then Some (of_nat (digits_value 10 ds)) else None)"

text \<open>\<open>ds\<close> holds the digits of the current group.\<close>

fun ip_loop :: "nat \<Rightarrow> u8 list \<Rightarrow> u8 list \<Rightarrow> u8 list \<Rightarrow> (u8 list \<times> u8 list \<times> u32 \<times> bool \<times> u8 list) option" where
  "ip_loop limit buf ds [] = (if limit \<le> length buf then Some (buf, ds, 0, False, []) else None)"
| "ip_loop limit buf ds (c # p) =
     (if limit \<le> length buf then Some (buf, ds, 0, False, c # p) else do {
        e \<leftarrow> para_end (c # p);
        case e of
          Some (t, over, q) \<Rightarrow> Some (buf, ds, t, over, q)
        | None \<Rightarrow>
            if c = AT_QUO then ip_loop limit buf ds p
            else if c = AT_DOT then
              (case ip_group ds of None \<Rightarrow> Some (buf, [], 0, False, p) | Some b \<Rightarrow> ip_loop limit (buf @ [b]) [] p)
            else if is_dec c then
              if length ds < 3 then ip_loop limit buf (ds @ [c]) p else Some (buf, ds, 0, False, c # p)
            else Some (buf, ds, 0, False, c # p)
      })"

definition get_ip_para :: "u32 \<Rightarrow> u8 list \<Rightarrow> para_result option" where
  "get_ip_para opt p = do {
     (buf, ds, t, over, q) \<leftarrow> ip_loop 4 [] [] p;
     case ip_group ds of
       Some b \<Rightarrow> Some (if t AND opt \<noteq> 0 \<and> length buf = 3 then Some (V_ip (buf @ [b])) else None, over, q)
     | None \<Rightarrow> Some (None, over, q)
   }"

definition get_para :: "at_para_type \<Rightarrow> u32 \<Rightarrow> u8 list \<Rightarrow> para_result option" where
  "get_para pt = (case pt of APT_TEXT \<Rightarrow> get_text_para | APT_HEX \<Rightarrow> get_hex_para | APT_DI \<Rightarrow> get_di_para
     | APT_HI \<Rightarrow> get_hi_para | APT_IP \<Rightarrow> get_ip_para)"

definition at_get_newline :: "u8 list \<Rightarrow> at_error option" where
  "at_get_newline p = (case p of
       [] \<Rightarrow> None
     | c # q \<Rightarrow> if c = AT_LF then Some AEC_OK
         else if c = AT_CR then (if q = [] then None else Some AEC_OK)
         else Some AEC_CMD_ERROR)"

text \<open>The values read, in the order of the list; the number of them is the parameter count.\<close>

fun para_list :: "(at_para_type \<times> u32) list \<Rightarrow> u8 list \<Rightarrow> (at_error \<times> at_value list \<times> u8 list) option" where
  "para_list [] p = Some (AEC_OK, [], p)"
| "para_list ((pt, opt) # ds) p = do {
     (v, over, q) \<leftarrow> get_para pt opt p;
     case v of
       None \<Rightarrow> Some (AEC_PARA_ERROR, [], q)
     | Some v \<Rightarrow>
         if over then Some (AEC_OK, [v], q)
         else do { (e, vs, r) \<leftarrow> para_list ds q; Some (e, v # vs, r) }
   }"

definition at_get_parameters :: "(at_para_type \<times> u32) list \<Rightarrow> u8 list \<Rightarrow> (at_error \<times> at_value list \<times> u8 list) option" where
  "at_get_parameters ds p =
     (if ds = [] then do { e \<leftarrow> at_get_newline p; Some (e, [], p) } else para_list ds p)"

end
