(* ===== verification/At_Command.thy ===== *)
theory At_Command
  imports At_Queue At_Para "HOL-Library.Char_ord"
begin

text \<open>
  The AT command interpreter: the variables of \<open>src/atcmd/at_config.c\<close>, the responses of
  \<open>at_common.c\<close>, and of \<open>at_command.c\<close> the table of commands, the assembly of lines from the input
  and the handlers of the configuration commands and of sending data.  The other handlers
  (network, WLAN, GPIO) and the application's callback are parameters.
\<close>

section \<open>State\<close>

definition at_str :: "string \<Rightarrow> u8 list" where
  "at_str = map of_char"

record cmd_cache =
  cc_cnt :: nat
  cc_buf :: "u8 list"

record cmd_send_cache =
  snd_status :: u32
  snd_cnt :: nat
  snd_linkID :: u32
  snd_length :: u32
  snd_buf :: "u8 list"

abbreviation (input) CMD_CACHE_MAX_LEN :: nat where "CMD_CACHE_MAX_LEN \<equiv> 1024"
abbreviation (input) CMD_SEND_DATA_MAX_LEN :: nat where "CMD_SEND_DATA_MAX_LEN \<equiv> 1028"

definition clear_cache :: cmd_cache where
  "clear_cache = \<lparr>cc_cnt = 0, cc_buf = replicate CMD_SEND_DATA_MAX_LEN 0\<rparr>"

definition clear_send_cache :: cmd_send_cache where
  "clear_send_cache = \<lparr>snd_status = 0, snd_cnt = 0, snd_linkID = 0, snd_length = 0, snd_buf = replicate CMD_SEND_DATA_MAX_LEN 0\<rparr>"

text \<open>
  The configuration is the list of the variables in the order of their table; \<open>at_out\<close> collects
  what \<open>at_dump\<close> prints.  \<open>at_flag\<close>, \<open>at_timeout\<close> and \<open>at_t0\<close> are the local variables of \<open>at_parse\<close>.
\<close>

record ('e, 'q) at_state =
  at_cfg :: "at_value list"
  at_out :: "u8 list"
  at_cache :: cmd_cache
  at_send :: cmd_send_cache
  at_flag :: bool
  at_timeout :: bool
  at_t0 :: u32
  at_env :: 'e
  at_queue :: 'q

datatype at_callback_cmd = ACC_ACT | ACC_RST | ACC_SAVE | ACC_FACTORY | ACC_CIPSEND int int "u8 list"

text \<open>The application: its callback, the clock, the sockets, and the handlers left out.\<close>

record ('e, 'q) at_app =
  handle_cb :: "(at_callback_cmd \<Rightarrow> at_value list \<Rightarrow> 'e \<Rightarrow> at_value list \<times> 'e) option"
  app_ticks :: "'e \<Rightarrow> u32"
  app_socket :: "'e \<Rightarrow> int"
  app_other :: "nat \<Rightarrow> u8 list \<Rightarrow> ('e, 'q) at_state \<Rightarrow> (at_error \<times> ('e, 'q) at_state) option"

definition at_dump :: "u8 list \<Rightarrow> ('e, 'q) at_state \<Rightarrow> ('e, 'q) at_state" where
  "at_dump bs st = st\<lparr>at_out := at_out st @ bs\<rparr>"

definition call_handle :: "('e, 'q) at_app \<Rightarrow> at_callback_cmd \<Rightarrow> ('e, 'q) at_state \<Rightarrow> ('e, 'q) at_state" where
  "call_handle A c st = (case handle_cb A of None \<Rightarrow> st
     | Some f \<Rightarrow> (let (cfg, e) = f c (at_cfg st) (at_env st) in st\<lparr>at_cfg := cfg, at_env := e\<rparr>))"

section \<open>Variables\<close>

record at_var =
  av_key :: "u8 list"
  av_pt :: at_para_type
  av_rw :: bool
  av_size :: nat
  av_verify :: "(int \<Rightarrow> bool) option"

definition between :: "int \<Rightarrow> int \<Rightarrow> int \<Rightarrow> bool" where
  "between a b i \<longleftrightarrow> a \<le> i \<and> i \<le> b"

definition console1_speed_verify :: "int \<Rightarrow> bool" where
  "console1_speed_verify i \<longleftrightarrow> i \<in> {9600, 19200, 38400, 115200, 921600}"

definition cfg_var :: "string \<Rightarrow> at_para_type \<Rightarrow> bool \<Rightarrow> nat \<Rightarrow> (int \<Rightarrow> bool) option \<Rightarrow> at_var" where
  "cfg_var k pt rw n v = \<lparr>av_key = at_str k, av_pt = pt, av_rw = rw, av_size = n, av_verify = v\<rparr>"

definition at_cfg_table :: "at_var list" where
  "at_cfg_table =
     [cfg_var ''nv_manuf'' APT_TEXT False 32 None, cfg_var ''nv_model'' APT_TEXT False 32 None,
      cfg_var ''nv_serial'' APT_TEXT False 32 None, cfg_var ''nv_wifi_macaddr'' APT_HEX False 6 None,
      cfg_var ''wind_off_low'' APT_HI True 4 None, cfg_var ''wind_off_medium'' APT_HI True 4 None,
      cfg_var ''wind_off_high'' APT_HI True 4 None, cfg_var ''user_desc'' APT_TEXT True 64 None,
      cfg_var ''escape_seq'' APT_TEXT True 8 None, cfg_var ''localecho1'' APT_DI True 4 (Some (between 0 1)),
      cfg_var ''console1_speed'' APT_DI True 4 (Some console1_speed_verify),
      cfg_var ''console1_hwfc'' APT_DI True 4 (Some (between 0 1)), cfg_var ''wifi_channelnum'' APT_DI True 4 None,
      cfg_var ''wifi_mode'' APT_DI True 4 (Some (between 0 3)), cfg_var ''wifi_ssid'' APT_HEX True 33 None,
      cfg_var ''wifi_ssid_len'' APT_DI True 4 (Some (between 0 32)), cfg_var ''wifi_wpa_psk_text'' APT_TEXT True 65 None,
      cfg_var ''ip_use_dhcp'' APT_DI True 4 (Some (between 0 2)), cfg_var ''ip_ipaddr'' APT_IP True 4 None,
      cfg_var ''ip_netmask'' APT_IP True 4 None, cfg_var ''ip_gw'' APT_IP True 4 None, cfg_var ''ip_dns'' APT_IP True 4 None]"

text \<open>The search through a table: the first entry with the key.\<close>

fun find_key :: "u8 list list \<Rightarrow> u8 list \<Rightarrow> nat option" where
  "find_key [] k = None"
| "find_key (x # xs) k = (if k = x then Some 0 else map_option Suc (find_key xs k))"

definition find_var :: "u8 list \<Rightarrow> nat option" where
  "find_var key = find_key (map av_key at_cfg_table) key"

text \<open>One line of a listing; the value is printed into a buffer of 256 bytes.\<close>

definition dump_var :: "nat \<Rightarrow> ('e, 'q) at_state \<Rightarrow> ('e, 'q) at_state option" where
  "dump_var i st =
     (let s = at_get_value (at_cfg st ! i) in
      if 256 \<le> length s then None
      else Some (at_dump (at_str ''# '' @ av_key (at_cfg_table ! i) @ at_str '' = '' @ s @ [13, 10]) st))"

definition at_getcfg :: "u8 list \<Rightarrow> ('e, 'q) at_state \<Rightarrow> (at_error \<times> ('e, 'q) at_state) option" where
  "at_getcfg key st = (case find_var key of
       None \<Rightarrow> Some (AEC_NOT_FOUND, st)
     | Some i \<Rightarrow> do { st \<leftarrow> dump_var i st; Some (AEC_OK, st) })"

definition at_typecfg :: "u8 list \<Rightarrow> at_para_type option" where
  "at_typecfg key = map_option (\<lambda>i. av_pt (at_cfg_table ! i)) (find_var key)"

text \<open>Storing a value of the type of the variable; a text may not be longer than its array.\<close>

definition at_set_value :: "nat \<Rightarrow> at_value \<Rightarrow> at_value option" where
  "at_set_value vsize v = (case v of
       V_text s \<Rightarrow> if length s < vsize then Some (V_text s) else None
     | V_hex bs \<Rightarrow> Some (V_hex (take vsize bs))
     | V_ip bs \<Rightarrow> Some (V_ip (take vsize bs))
     | _ \<Rightarrow> Some v)"

definition verify_value :: "(int \<Rightarrow> bool) option \<Rightarrow> at_value \<Rightarrow> bool" where
  "verify_value f v = (case (f, v) of (Some g, V_di i) \<Rightarrow> g i | _ \<Rightarrow> True)"

definition at_setcfg :: "u8 list \<Rightarrow> at_value \<Rightarrow> ('e, 'q) at_state \<Rightarrow> (at_error \<times> ('e, 'q) at_state) option" where
  "at_setcfg key v st = (case find_var key of
       None \<Rightarrow> Some (AEC_NOT_FOUND, st)
     | Some i \<Rightarrow>
         let d = at_cfg_table ! i in
         if \<not> av_rw d then Some (AEC_READ_ONLY, st)
         else if \<not> verify_value (av_verify d) v then Some (AEC_OUT_OF_RANGE, st)
         else do {
           c \<leftarrow> at_set_value (av_size d) v;
           Some (AEC_OK, st\<lparr>at_cfg := (at_cfg st)[i := c]\<rparr>)
         })"

abbreviation (input) CFG_WIFI_SSID :: nat where "CFG_WIFI_SSID \<equiv> 14"
abbreviation (input) CFG_WIFI_SSID_LEN :: nat where "CFG_WIFI_SSID_LEN \<equiv> 15"
abbreviation (input) CFG_LOCALECHO1 :: nat where "CFG_LOCALECHO1 \<equiv> 9"

definition at_ssidtxt :: "u8 list \<Rightarrow> ('e, 'q) at_state \<Rightarrow> (at_error \<times> ('e, 'q) at_state) option" where
  "at_ssidtxt ssid st =
     (if 33 < length ssid then None
      else Some (AEC_OK, st\<lparr>at_cfg := (at_cfg st)[CFG_WIFI_SSID := V_hex (ssid @ replicate (33 - length ssid) 0),
        CFG_WIFI_SSID_LEN := V_di (int (length ssid))]\<rparr>))"

fun dump_vars :: "nat list \<Rightarrow> ('e, 'q) at_state \<Rightarrow> ('e, 'q) at_state option" where
  "dump_vars [] st = Some st"
| "dump_vars (i # is) st = do { st \<leftarrow> dump_var i st; dump_vars is st }"

definition at_config :: "('e, 'q) at_state \<Rightarrow> (at_error \<times> ('e, 'q) at_state) option" where
  "at_config st = do { st \<leftarrow> dump_vars [0..<length at_cfg_table] st; Some (AEC_OK, st) }"

definition at_factory :: "('e, 'q) at_app \<Rightarrow> ('e, 'q) at_state \<Rightarrow> at_error \<times> ('e, 'q) at_state" where
  "at_factory A st = (AEC_OK, call_handle A ACC_FACTORY st)"

definition at_save :: "('e, 'q) at_app \<Rightarrow> ('e, 'q) at_state \<Rightarrow> at_error \<times> ('e, 'q) at_state" where
  "at_save A st = (AEC_OK, call_handle A ACC_SAVE st)"

section \<open>Responses\<close>

definition err_info :: "(at_error \<times> string) list" where
  "err_info =
     [(AEC_CMD_FAIL, ''FAIL''), (AEC_CMD_ERROR, ''Error command.''), (AEC_NO_PARA, ''No parameter.''),
      (AEC_PARA_ERROR, ''Error parameter.''), (AEC_UNSUPPORTED, ''Unsupported.''), (AEC_NOT_FOUND, ''Not found.''),
      (AEC_NULL_POINTER, ''Null pointer.''), (AEC_OUT_OF_RANGE, ''Out of range.''), (AEC_SCAN_FAIL, ''Scan fail.''),
      (AEC_READ_ONLY, ''Read only.''), (AEC_SEND_FAIL, ''Send fail.''), (AEC_CONNECT_FAIL, ''Connect fail.''),
      (AEC_BIND_FAIL, ''Bind fail.''), (AEC_SOCKET_FAIL, ''Socket fail.''), (AEC_LIMITED, ''Limited.''),
      (AEC_DISCONNECT, ''Disconnect.''), (AEC_NETWORK_ERROR, ''Network error.''),
      (AEC_NOT_ENOUGH_MEMORY, ''Not enough memory.''), (AEC_IMPROPER_OPERATION, ''Improper operation.''),
      (AEC_SOCKET_EXISTING, '' ''), (AEC_SEND_READY, ''OK''), (AEC_SEND_TIMEOUT, ''Data send timeout''),
      (AEC_UPGRADE_FAILED, ''Upgrade failed''), (AEC_UNDEFINED, ''Undefined.'')]"

definition at_response :: "at_error \<Rightarrow> ('e, 'q) at_state \<Rightarrow> ('e, 'q) at_state" where
  "at_response aec st =
     (if aec = AEC_OK then at_dump ([13, 10] @ at_str ''OK'' @ [13, 10]) st
      else if aec = AEC_CMD_FAIL then at_dump ([13, 10] @ at_str ''FAIL'' @ [13, 10]) st
      else case map_of err_info aec of
          None \<Rightarrow> st
        | Some info \<Rightarrow>
            if aec = AEC_SEND_READY then at_dump (at_str info @ [13, 10]) st
            else at_dump ([13, 10] @ at_str ''ERROR: '' @ at_str info @ [13, 10]) st)"

definition at_event :: "nat \<Rightarrow> ('e, 'q) at_state \<Rightarrow> bool option" where
  "at_event idx st =
     (if 96 \<le> idx then Some False
      else case at_cfg st ! (4 + idx div 32) of V_hi w \<Rightarrow> Some (\<not> bit w (idx mod 32)) | _ \<Rightarrow> None)"

definition at_act :: "('e, 'q) at_app \<Rightarrow> ('e, 'q) at_state \<Rightarrow> at_error \<times> ('e, 'q) at_state" where
  "at_act A st = (AEC_OK, call_handle A ACC_ACT st)"

definition at_reset :: "('e, 'q) at_app \<Rightarrow> ('e, 'q) at_state \<Rightarrow> at_error \<times> ('e, 'q) at_state" where
  "at_reset A st = (AEC_OK, call_handle A ACC_RST st)"

definition at_send_data :: "('e, 'q) at_app \<Rightarrow> int \<Rightarrow> u8 list \<Rightarrow> int \<Rightarrow> ('e, 'q) at_state \<Rightarrow> at_error \<times> ('e, 'q) at_state" where
  "at_send_data A linkId buf n st = (AEC_OK, call_handle A (ACC_CIPSEND linkId n buf) st)"

section \<open>Handlers\<close>

type_synonym ('e, 'q) at_result = "(at_error \<times> ('e, 'q) at_state) option"

text \<open>A handler without parameters: the line has to end; some pass the error on as it is.\<close>

definition no_parameters :: "u8 list \<Rightarrow> (('e, 'q) at_state \<Rightarrow> ('e, 'q) at_result) \<Rightarrow> ('e, 'q) at_state \<Rightarrow> ('e, 'q) at_result" where
  "no_parameters p f st = do {
     (res, _, _) \<leftarrow> at_get_parameters [] p;
     if res \<noteq> AEC_OK then Some (AEC_PARA_ERROR, st) else f st
   }"

definition attention_handler :: "u8 list \<Rightarrow> ('e, 'q) at_state \<Rightarrow> ('e, 'q) at_result" where
  "attention_handler p st = do { (res, _, _) \<leftarrow> at_get_parameters [] p; Some (res, st) }"

text \<open>What stands at the pointer of a handler.\<close>

definition after_equ :: "u8 list \<Rightarrow> u8 list option option" where
  "after_equ p = (case p of [] \<Rightarrow> None | c # q \<Rightarrow> Some (if c = AT_EQU then Some q else None))"

definition act_handler :: "('e, 'q) at_app \<Rightarrow> u8 list \<Rightarrow> ('e, 'q) at_state \<Rightarrow> ('e, 'q) at_result" where
  "act_handler A p = no_parameters p (\<lambda>st. Some (at_act A st))"

definition reset_handler :: "('e, 'q) at_app \<Rightarrow> u8 list \<Rightarrow> ('e, 'q) at_state \<Rightarrow> ('e, 'q) at_result" where
  "reset_handler A p = no_parameters p (\<lambda>st. Some (at_reset A st))"

definition config_handler :: "u8 list \<Rightarrow> ('e, 'q) at_state \<Rightarrow> ('e, 'q) at_result" where
  "config_handler p = no_parameters p at_config"

definition factory_handler :: "('e, 'q) at_app \<Rightarrow> u8 list \<Rightarrow> ('e, 'q) at_state \<Rightarrow> ('e, 'q) at_result" where
  "factory_handler A p = no_parameters p (\<lambda>st. Some (at_factory A st))"

definition save_handler :: "('e, 'q) at_app \<Rightarrow> u8 list \<Rightarrow> ('e, 'q) at_state \<Rightarrow> ('e, 'q) at_result" where
  "save_handler A p = no_parameters p (\<lambda>st. Some (at_save A st))"

text \<open>A handler with one text up to the end of the line.\<close>

definition one_text :: "u8 list \<Rightarrow> (u8 list \<Rightarrow> ('e, 'q) at_state \<Rightarrow> ('e, 'q) at_result) \<Rightarrow> ('e, 'q) at_state \<Rightarrow> ('e, 'q) at_result" where
  "one_text p f st = do {
     eq \<leftarrow> after_equ p;
     case eq of
       None \<Rightarrow> Some (AEC_NO_PARA, st)
     | Some p \<Rightarrow> do {
         (res, vs, _) \<leftarrow> at_get_parameters [(APT_TEXT, AET_LINE OR 64)] p;
         case vs of
           [V_text s] \<Rightarrow> if res \<noteq> AEC_OK then Some (AEC_PARA_ERROR, st) else f s st
         | _ \<Rightarrow> Some (AEC_PARA_ERROR, st)
       }
   }"

definition getcfg_handler :: "u8 list \<Rightarrow> ('e, 'q) at_state \<Rightarrow> ('e, 'q) at_result" where
  "getcfg_handler p = one_text p at_getcfg"

definition ssidtxt_handler :: "u8 list \<Rightarrow> ('e, 'q) at_state \<Rightarrow> ('e, 'q) at_result" where
  "ssidtxt_handler p = one_text p at_ssidtxt"

text \<open>The size limits of the values: 64 for texts and bytes, 4 for the others.\<close>

definition value_option :: "at_para_type \<Rightarrow> u32" where
  "value_option pt = AET_LINE OR (case pt of APT_TEXT \<Rightarrow> 64 | APT_HEX \<Rightarrow> 64 | _ \<Rightarrow> 4)"

definition setcfg_handler :: "u8 list \<Rightarrow> ('e, 'q) at_state \<Rightarrow> ('e, 'q) at_result" where
  "setcfg_handler p st = do {
     eq \<leftarrow> after_equ p;
     case eq of
       None \<Rightarrow> Some (AEC_NO_PARA, st)
     | Some p \<Rightarrow> do {
         (res, ks, p) \<leftarrow> at_get_parameters [(APT_TEXT, AET_PARA OR 64)] p;
         case ks of
           [V_text key] \<Rightarrow>
             if res \<noteq> AEC_OK then Some (AEC_PARA_ERROR, st) else
             (case at_typecfg key of
                None \<Rightarrow> Some (AEC_NOT_FOUND, st)
              | Some pt \<Rightarrow> do {
                  (res, vs, _) \<leftarrow> at_get_parameters [(pt, value_option pt)] p;
                  case vs of
                    [v] \<Rightarrow> if res \<noteq> AEC_OK then Some (AEC_PARA_ERROR, st) else at_setcfg key v st
                  | _ \<Rightarrow> Some (AEC_PARA_ERROR, st)
                })
         | _ \<Rightarrow> Some (AEC_PARA_ERROR, st)
       }
   }"

definition echo_on_handler :: "('e, 'q) at_state \<Rightarrow> ('e, 'q) at_result" where
  "echo_on_handler st = Some (AEC_OK, st\<lparr>at_cfg := (at_cfg st)[CFG_LOCALECHO1 := V_di 1]\<rparr>)"

definition echo_off_handler :: "('e, 'q) at_state \<Rightarrow> ('e, 'q) at_result" where
  "echo_off_handler st = Some (AEC_OK, st\<lparr>at_cfg := (at_cfg st)[CFG_LOCALECHO1 := V_di 0]\<rparr>)"

text \<open>Sending data: first the command, then, with \<open>snd_status\<close> 1, the data that has been collected.\<close>

definition send_data_handler :: "('e, 'q) at_app \<Rightarrow> u8 list \<Rightarrow> ('e, 'q) at_state \<Rightarrow> ('e, 'q) at_result" where
  "send_data_handler A p st = do {
     eq \<leftarrow> after_equ p;
     case eq of
       None \<Rightarrow> Some (AEC_PARA_ERROR, st)
     | Some p \<Rightarrow> do {
         (res, vs, _) \<leftarrow> at_get_parameters [(APT_DI, AET_PARA OR AET_LINE OR 12), (APT_DI, AET_PARA OR AET_LINE OR 12)] p;
         case vs of
           [V_di linkId, V_di n] \<Rightarrow>
             if res \<noteq> AEC_OK then Some (AEC_PARA_ERROR, st)
             else if app_socket A (at_env st) = 0 then Some (AEC_UNDEFINED, at_dump (at_str ''link is not valid'' @ [13, 10]) st)
             else if snd_status (at_send st) = 0 then
               if linkId \<ge> 4 \<or> n > int CMD_SEND_DATA_MAX_LEN then Some (AEC_PARA_ERROR, st\<lparr>at_send := clear_send_cache\<rparr>)
               else Some (AEC_SEND_READY, st\<lparr>at_send := (at_send st)\<lparr>snd_linkID := word_of_int linkId,
                 snd_length := word_of_int n, snd_status := 1\<rparr>\<rparr>)
             else Some (at_send_data A (sint (snd_linkID (at_send st))) (snd_buf (at_send st)) (sint (snd_length (at_send st))) st)
         | _ \<Rightarrow> Some (AEC_PARA_ERROR, st)
       }
   }"

section \<open>The table of commands\<close>

datatype at_handler = H_attention | H_act | H_reset | H_getcfg | H_setcfg | H_ssidtxt | H_config | H_factory | H_save
  | H_echo_on | H_echo_off | H_send_data | H_other

definition at_command_table :: "(string \<times> at_handler) list" where
  "at_command_table =
     [(''AT'', H_attention), (''AT+ACT'', H_act), (''AT+RST'', H_reset), (''AT+S.HELP'', H_other), (''AT+S.GCFG'', H_getcfg),
      (''AT+S.SCFG'', H_setcfg), (''AT+S.SSIDTXT'', H_ssidtxt), (''AT&V'', H_config), (''AT&F'', H_factory),
      (''AT&W'', H_save), (''AT+S.STS'', H_other), (''AT+S.PING'', H_other), (''AT+S.SOCKON'', H_other),
      (''AT+S.SOCKW'', H_other), (''AT+S.SOCKQ'', H_other), (''AT+S.SOCKR'', H_other), (''AT+S.SOCKC'', H_other),
      (''AT+S.SOCKD'', H_other), (''AT+S.'', H_other), (''AT+S.WIFI'', H_other), (''AT+S.ROAM'', H_other),
      (''AT+S.SCAN'', H_other), (''ATE1'', H_echo_on), (''ATE0'', H_echo_off), (''etf'', H_other), (''AT+GMR'', H_other),
      (''AT+UART_CUR'', H_other), (''AT+UART_DEF'', H_other), (''AT+RESTORE'', H_other), (''AT+CWJAP'', H_other),
      (''AT+CWJAP_CUR'', H_other), (''AT+CWJAP_DEF'', H_other), (''AT+CWLAPOPT'', H_other), (''AT+CWLAP'', H_other),
      (''AT+CWQAP'', H_other), (''AT+CWAUTOCONN'', H_other), (''AT+CWDHCP'', H_other), (''AT+CWDHCP_CUR'', H_other),
      (''AT+CWDHCP_DEF'', H_other), (''AT+CIPSTAMAC_DEF'', H_other), (''AT+CIPSTAMAC_CUR'', H_other),
      (''AT+CIPSTAMAC'', H_other), (''AT+PING'', H_other), (''AT+CIPSTA_CUR'', H_other), (''AT+CIPSTA'', H_other),
      (''AT+CIPSTA_DEF'', H_other), (''AT+CIPAP_DEF'', H_other), (''AT+CWDHCPS_DEF'', H_other), (''AT+CIPSTART'', H_other),
      (''AT+CIPCLOSE'', H_other), (''AT+CIPSEND'', H_send_data), (''AT+CIPSTATUS'', H_other), (''AT+CIPSERVER'', H_other),
      (''AT+CIPSTO'', H_other), (''AT+CIPSERVERMAXCONN'', H_other), (''AT+CIPRECVMODE'', H_other),
      (''AT+CIPRECVDATA'', H_other), (''AT+CIPRECVLEN'', H_other), (''AT+CWLIF'', H_other), (''AT+CIFSR'', H_other),
      (''AT+CWSAP_DEF'', H_other), (''AT+PS'', H_other), (''AT+SLEEP'', H_other), (''AT+WAKEUPGPIO'', H_other),
      (''AT+CWMODE'', H_other), (''AT+CWMODE_DEF'', H_other), (''AT+CWLAPOPT'', H_other), (''AT+CWHOSTNAME'', H_other),
      (''AT+CWSTARTSMART'', H_other), (''AT+CWSTOPSMART'', H_other), (''AT+CWSTARTDISCOVER'', H_other),
      (''AT+CWSTOPDISCOVER'', H_other), (''AT+CIPDOMAIN'', H_other), (''AT+CIPSENDBUF'', H_other),
      (''AT+CIPBUFSTATUS'', H_other), (''AT+CIPMUX'', H_other), (''AT+SAVETRANSLINK'', H_other), (''AT+CIPMODE'', H_other),
      (''AT+CIPDNS'', H_other), (''AT+CIPRECVDATA'', H_other), (''AT+CIPDINFO'', H_other), (''AT++CIPRECVMODE'', H_other),
      (''AT+SYSIOSETCFG'', H_other), (''AT+SYSIOGETCFG'', H_other), (''AT+SYSGPIODIR'', H_other),
      (''AT+SYSGPIOWRITE'', H_other), (''AT+SYSGPIOREAD'', H_other), (''AT+OTA'', H_other)]"

definition at_match :: "u8 list \<Rightarrow> nat option" where
  "at_match cmd = find_key (map (\<lambda>(n, _). at_str n) at_command_table) (takeWhile (\<lambda>c. c \<noteq> 0) cmd)"

definition run_handler :: "('e, 'q) at_app \<Rightarrow> nat \<Rightarrow> u8 list \<Rightarrow> ('e, 'q) at_state \<Rightarrow> ('e, 'q) at_result" where
  "run_handler A i p st = (case snd (at_command_table ! i) of
       H_attention \<Rightarrow> attention_handler p st
     | H_act \<Rightarrow> act_handler A p st
     | H_reset \<Rightarrow> reset_handler A p st
     | H_getcfg \<Rightarrow> getcfg_handler p st
     | H_setcfg \<Rightarrow> setcfg_handler p st
     | H_ssidtxt \<Rightarrow> ssidtxt_handler p st
     | H_config \<Rightarrow> config_handler p st
     | H_factory \<Rightarrow> factory_handler A p st
     | H_save \<Rightarrow> save_handler A p st
     | H_echo_on \<Rightarrow> echo_on_handler st
     | H_echo_off \<Rightarrow> echo_off_handler st
     | H_send_data \<Rightarrow> send_data_handler A p st
     | H_other \<Rightarrow> app_other A i p st)"

abbreviation (input) AT_CMD_MAX_SIZE :: nat where "AT_CMD_MAX_SIZE \<equiv> 32"

text \<open>The name of the command: the characters up to one that ends it, and the pointer to that one.\<close>

fun cmd_name :: "nat \<Rightarrow> u8 list \<Rightarrow> u8 list \<Rightarrow> (u8 list \<times> u8 list) option option" where
  "cmd_name 0 acc p = Some (Some (acc, p))"
| "cmd_name (Suc n) acc [] = None"
| "cmd_name (Suc n) acc (c # p) =
     (if c = AT_EQU \<or> c = AT_LF \<or> c = AT_QUE \<or> c = AT_CR then Some (Some (acc, c # p))
      else if length acc < AT_CMD_MAX_SIZE then cmd_name n (acc @ [c]) p
      else Some None)"

definition at_parse_cmd :: "('e, 'q) at_app \<Rightarrow> u8 list \<Rightarrow> nat \<Rightarrow> ('e, 'q) at_state \<Rightarrow> ('e, 'q) at_result" where
  "at_parse_cmd A cmdline sz st = do {
     r \<leftarrow> cmd_name sz [] cmdline;
     case r of
       None \<Rightarrow> Some (AEC_CMD_ERROR, st)
     | Some (cmd, p) \<Rightarrow>
         if cmd = [] then Some (AEC_BLANK_LINE, st)
         else case at_match cmd of None \<Rightarrow> Some (AEC_CMD_ERROR, st) | Some i \<Rightarrow> run_handler A i p st
   }"

section \<open>Assembling lines\<close>

definition cache_put :: "u8 \<Rightarrow> ('e, 'q) at_state \<Rightarrow> ('e, 'q) at_state option" where
  "cache_put b st = (let c = at_cache st in
     if length (cc_buf c) \<le> cc_cnt c then None
     else Some (st\<lparr>at_cache := \<lparr>cc_cnt = cc_cnt c + 1, cc_buf = (cc_buf c)[cc_cnt c := b]\<rparr>\<rparr>))"

text \<open>
  Putting a character where there may be no room any more: then the command is discarded and the
  turn ends.  The flag of the result says whether the turn goes on.
\<close>

definition cache_room_put :: "u8 \<Rightarrow> ('e, 'q) at_state \<Rightarrow> (bool \<times> ('e, 'q) at_state) option" where
  "cache_room_put b st =
     (if cc_cnt (at_cache st) < CMD_CACHE_MAX_LEN then do { st \<leftarrow> cache_put b st; Some (True, st) }
      else Some (False, st\<lparr>at_cache := (at_cache st)\<lparr>cc_cnt := 0\<rparr>\<rparr>))"

type_synonym ('e, 'q) at_read = "'e \<Rightarrow> 'q \<Rightarrow> (u8 option \<times> 'e \<times> 'q) option"

definition at_read :: "('e, 'q) at_read \<Rightarrow> ('e, 'q) at_state \<Rightarrow> (u8 option \<times> ('e, 'q) at_state) option" where
  "at_read f st = do { (r, e, q) \<leftarrow> f (at_env st) (at_queue st); Some (r, st\<lparr>at_env := e, at_queue := q\<rparr>) }"

text \<open>The end of a line; the last character that has been read goes into the line once more.\<close>

definition line_feed :: "u8 \<Rightarrow> ('e, 'q) at_state \<Rightarrow> (bool \<times> ('e, 'q) at_state) option" where
  "line_feed tmp st = do {
     (on, st) \<leftarrow> cache_room_put tmp st;
     if on then cache_room_put tmp (st\<lparr>at_flag := True\<rparr>) else Some (False, st)
   }"

definition carriage_return :: "('e, 'q) at_read \<Rightarrow> ('e, 'q) at_read \<Rightarrow> u8 \<Rightarrow> ('e, 'q) at_state \<Rightarrow> (bool \<times> ('e, 'q) at_state) option" where
  "carriage_return get peek tmp st = do {
     st \<leftarrow> cache_put tmp st;
     (r, st) \<leftarrow> at_read peek st;
     case r of
       None \<Rightarrow> cache_room_put tmp (st\<lparr>at_flag := True\<rparr>)
     | Some c \<Rightarrow>
         if c \<noteq> AT_LF then cache_room_put c (st\<lparr>at_flag := True\<rparr>)
         else do {
           (r, st) \<leftarrow> at_read get st;
           line_feed (case r of None \<Rightarrow> c | Some d \<Rightarrow> d) st
         }
   }"

definition send_line :: "u8 list" where
  "send_line = at_str ''AT+CIPSEND=0,1,u'' @ [0]"

definition collect_data :: "('e, 'q) at_app \<Rightarrow> u8 \<Rightarrow> ('e, 'q) at_state \<Rightarrow> (bool \<times> ('e, 'q) at_state) option" where
  "collect_data A tmp st =
     (let s = at_send st in
      if length (snd_buf s) \<le> snd_cnt s then None else
      let s = s\<lparr>snd_buf := (snd_buf s)[snd_cnt s := tmp], snd_cnt := snd_cnt s + 1\<rparr> in
      if unat (snd_length s) \<le> snd_cnt s then
        Some (False, st\<lparr>at_t0 := app_ticks A (at_env st), at_timeout := False, at_flag := True,
          at_send := (if CMD_CACHE_MAX_LEN \<le> snd_cnt s then s\<lparr>snd_cnt := 0\<rparr> else s),
          at_cache := \<lparr>cc_cnt = length send_line, cc_buf = send_line @ replicate (CMD_SEND_DATA_MAX_LEN - length send_line) 0\<rparr>\<rparr>)
      else cache_room_put tmp (st\<lparr>at_t0 := app_ticks A (at_env st), at_timeout := True, at_send := s\<rparr>))"

definition at_receive ::
  "('e, 'q) at_app \<Rightarrow> ('e, 'q) at_read \<Rightarrow> ('e, 'q) at_read \<Rightarrow> u8 \<Rightarrow> ('e, 'q) at_state \<Rightarrow> (bool \<times> ('e, 'q) at_state) option" where
  "at_receive A get peek tmp st =
     (if snd_status (at_send st) = 0 then
        if tmp = AT_LF then line_feed tmp st
        else if tmp = AT_CR then carriage_return get peek tmp st
        else cache_room_put tmp st
      else if snd_status (at_send st) = 1 then collect_data A tmp st
      else cache_room_put tmp st)"

definition send_timed_out :: "('e, 'q) at_app \<Rightarrow> ('e, 'q) at_state \<Rightarrow> ('e, 'q) at_state" where
  "send_timed_out A st =
     (if at_timeout st \<and> 10000 < app_ticks A (at_env st) - at_t0 st then
        at_response AEC_SEND_TIMEOUT (st\<lparr>at_timeout := False, at_send := clear_send_cache, at_cache := clear_cache\<rparr>)
      else st)"

definition at_echo :: "('e, 'q) at_state \<Rightarrow> ('e, 'q) at_state option" where
  "at_echo st =
     (if at_cfg st ! CFG_LOCALECHO1 = V_di 0 then Some st
      else let c = at_cache st in
        if length (cc_buf c) \<le> cc_cnt c then None
        else let b = (cc_buf c)[cc_cnt c := 0] in
          Some (at_dump (takeWhile (\<lambda>c. c \<noteq> 0) b) (st\<lparr>at_cache := c\<lparr>cc_buf := b\<rparr>\<rparr>)))"

definition at_execute :: "('e, 'q) at_app \<Rightarrow> ('e, 'q) at_state \<Rightarrow> ('e, 'q) at_state option" where
  "at_execute A st =
     (if \<not> at_flag st then Some st else do {
        st \<leftarrow> at_echo st;
        (aec, st) \<leftarrow> at_parse_cmd A (cc_buf (at_cache st)) (cc_cnt (at_cache st)) st;
        let st = (if snd_status (at_send st) = 1 \<and> aec \<noteq> AEC_SEND_READY then st\<lparr>at_send := clear_send_cache\<rparr> else st);
            st = at_response aec st in
        Some (st\<lparr>at_cache := (at_cache st)\<lparr>cc_cnt := 0\<rparr>, at_flag := False\<rparr>)
      })"

text \<open>One turn of the loop of \<open>at_parse\<close>, which never ends.\<close>

definition at_turn :: "('e, 'q) at_app \<Rightarrow> ('e, 'q) at_read \<Rightarrow> ('e, 'q) at_read \<Rightarrow> ('e, 'q) at_state \<Rightarrow> ('e, 'q) at_state option" where
  "at_turn A get peek st = do {
     (r, st) \<leftarrow> at_read get st;
     (on, st) \<leftarrow> (case r of None \<Rightarrow> Some (True, st) | Some tmp \<Rightarrow> at_receive A get peek tmp st);
     if on then at_execute A (send_timed_out A st) else Some st
   }"

definition at_parse_begin :: "('e, 'q) at_state \<Rightarrow> ('e, 'q) at_state" where
  "at_parse_begin st = st\<lparr>at_send := clear_send_cache, at_cache := clear_cache, at_flag := False, at_timeout := False, at_t0 := 0\<rparr>"

fun at_turns :: "('e, 'q) at_app \<Rightarrow> ('e, 'q) at_read \<Rightarrow> ('e, 'q) at_read \<Rightarrow> nat \<Rightarrow> ('e, 'q) at_state \<Rightarrow> ('e, 'q) at_state option" where
  "at_turns A get peek 0 st = Some st"
| "at_turns A get peek (Suc n) st = do { st \<leftarrow> at_turn A get peek st; at_turns A get peek n st }"

definition at_parse :: "('e, 'e at_queue) at_app \<Rightarrow> nat \<Rightarrow> ('e, 'e at_queue) at_state \<Rightarrow> ('e, 'e at_queue) at_state option" where
  "at_parse A n st = at_turns A at_queue_get at_queue_peek n (at_parse_begin st)"

end
