(* ===== verification/At_Para_Spec.thy ===== *)
theory At_Para_Spec
  imports At_Para
begin

text \<open>
  Which printed values can be read back: decimal numbers, addresses and plain texts; not
  hexadecimal numbers, and byte strings only without the colons they are printed with.
\<close>

section \<open>Digits\<close>

lemma u8_of_nat: "n < 256 \<Longrightarrow> unat (of_nat n :: u8) = n"
  by (simp add: unsigned_of_nat take_bit_nat_eq_self)

lemma u8_le: "(a :: u8) \<le> b \<longleftrightarrow> unat a \<le> unat b" "(a :: u8) < b \<longleftrightarrow> unat a < unat b"
  by (simp_all add: word_le_nat_alt word_less_nat_alt)

lemma u8_eq: "(a :: u8) = b \<longleftrightarrow> unat a = unat b"
  by (simp add: word_unat_eq_iff)

lemma dec_digit: "n < 10 \<Longrightarrow> is_dec (of_nat (48 + n)) \<and> hex_to_num (of_nat (48 + n)) = n"
  using u8_of_nat [of "48 + n"] by (simp add: is_dec_def hex_to_num_def u8_le)

lemma hex_digit_ok: "n < 16 \<Longrightarrow> is_hex (hex_digit n) \<and> hex_to_num (hex_digit n) = n"
  using u8_of_nat [of "48 + n"] u8_of_nat [of "55 + n"]
  by (simp add: hex_digit_def is_hex_def hex_to_num_def u8_le)

lemma dec_text_small: "n < 10 \<Longrightarrow> dec_text n = [of_nat (48 + n)]"
  by (subst dec_text.simps) simp

lemma dec_text_big: "\<not> n < 10 \<Longrightarrow> dec_text n = dec_text (n div 10) @ [of_nat (48 + n mod 10)]"
  by (subst dec_text.simps) simp

lemma dec_text_ok: "dec_text n \<noteq> [] \<and> (\<forall>c \<in> set (dec_text n). is_dec c) \<and> digits_value 10 (dec_text n) = n"
proof (induction n rule: dec_text.induct)
  case (1 n)
  show ?case
  proof (cases "n < 10")
    case True
    then show ?thesis using dec_digit [OF True] by (simp add: dec_text_small digits_value_def)
  next
    case False
    have "n mod 10 < 10" by simp
    then show ?thesis using 1 [OF False] dec_digit [of "n mod 10"] False
      by (simp add: dec_text_big digits_value_def)
  qed
qed

lemma dec_text_length: "n < 10 ^ k \<Longrightarrow> 0 < k \<Longrightarrow> length (dec_text n) \<le> k"
proof (induction n arbitrary: k rule: dec_text.induct)
  case (1 n)
  show ?case
  proof (cases "n < 10")
    case True
    then show ?thesis using 1(3) by (simp add: dec_text_small)
  next
    case False
    obtain j where j: "k = Suc j" using 1(3) by (cases k) auto
    then have "n div 10 < 10 ^ j" using 1(2) by (simp add: less_mult_imp_div_less mult.commute)
    moreover have "0 < j" using False 1(2) j by (cases j) auto
    ultimately show ?thesis using 1(1) [OF False] False j by (simp add: dec_text_big)
  qed
qed

lemma is_dec_plain: "is_dec c \<Longrightarrow> c \<noteq> 44 \<and> c \<noteq> 13 \<and> c \<noteq> 10 \<and> c \<noteq> 58 \<and> c \<noteq> 34 \<and> c \<noteq> 46"
  by (auto simp: is_dec_def)

lemma is_hex_plain: "is_hex c \<Longrightarrow> c \<noteq> 44 \<and> c \<noteq> 13 \<and> c \<noteq> 10 \<and> c \<noteq> 58 \<and> c \<noteq> 34"
  by (auto simp: is_hex_def)

lemma para_end_plain: "c \<noteq> 44 \<Longrightarrow> c \<noteq> 13 \<Longrightarrow> c \<noteq> 10 \<Longrightarrow> para_end (c # p) = Some None"
  by (simp add: para_end_def)

section \<open>Decimal numbers\<close>

lemma di_digits:
  assumes "\<forall>c \<in> set ds. is_dec c" "length buf + length ds < limit" "para_end p = Some (Some (t, over, q))"
  shows "di_loop limit buf (ds @ p) = Some (buf @ ds, t, over, q)"
  using assms(1,2)
proof (induction ds arbitrary: buf)
  case Nil
  obtain c r where "p = c # r" using para_end_None [OF assms(3)] by (cases p) auto
  then show ?case using assms(3) Nil by simp
next
  case (Cons d ds)
  then show ?case using Cons.IH [of "buf @ [d]"] is_dec_plain [of d] by (simp add: para_end_plain)
qed

lemma int_reads_back:
  assumes "0 \<le> i" "i < 2 ^ 31" "para_end p = Some (Some (t, over, q))" "t AND opt \<noteq> 0"
  shows "get_di_para opt (int_text i @ p) = Some (Some (V_di i), over, q)"
proof -
  have len: "length (dec_text (nat i)) \<le> 10" by (rule dec_text_length) (use assms(1,2) in auto)
  have "di_loop 11 [] (dec_text (nat i) @ p) = Some (dec_text (nat i), t, over, q)"
    using di_digits [of "dec_text (nat i)" "[]" 11 p t over q] dec_text_ok len assms(3) by auto
  then show ?thesis using assms(1,2,4) len dec_text_ok [of "nat i"]
    by (simp add: get_di_para_def int_text_def at_atoi_def Let_def)
qed

section \<open>Texts\<close>

definition plain_text :: "u8 list \<Rightarrow> bool" where
  "plain_text s \<longleftrightarrow> (\<forall>c \<in> set s. c \<noteq> 44 \<and> c \<noteq> 13 \<and> c \<noteq> 10 \<and> c \<noteq> 34 \<and> c \<noteq> 0)"

lemma text_plain:
  assumes "plain_text s" "length buf + length s < limit" "limit \<le> 64" "para_end p = Some (Some (t, over, q))"
  shows "text_loop limit buf (s @ p) = Some (buf @ s, t, over, q)"
  using assms(1,2)
proof (induction s arbitrary: buf)
  case Nil
  obtain c r where "p = c # r" using para_end_None [OF assms(4)] by (cases p) auto
  then show ?case using assms(4) Nil by simp
next
  case (Cons d s)
  then show ?case using Cons.IH [of "buf @ [d]"] assms(3)
    by (simp add: para_end_plain plain_text_def strbuf_put_def)
qed

lemma text_reads_back:
  assumes "plain_text s" "s \<noteq> []" "length s < SIZE_LIMIT opt" "SIZE_LIMIT opt \<le> 64" "para_end p = Some (Some (t, over, q))" "t AND opt \<noteq> 0"
  shows "get_text_para opt (s @ p) = Some (Some (V_text s), over, q)"
proof -
  have "takeWhile (\<lambda>c. c \<noteq> 0) s = s" using assms(1) by (simp add: plain_text_def takeWhile_eq_all_conv)
  then show ?thesis
    using text_plain [OF assms(1) _ assms(4,5), of "[]"] assms(2-4,6) by (simp add: get_text_para_def strbuf_put_def)
qed

section \<open>Addresses\<close>

lemma ip_digits:
  assumes "\<forall>c \<in> set cs. is_dec c" "length ds + length cs \<le> 3" "length buf < 4"
  shows "ip_loop 4 buf ds (cs @ p) = ip_loop 4 buf (ds @ cs) p"
  using assms(1,2)
proof (induction cs arbitrary: ds)
  case (Cons c cs)
  then show ?case using Cons.IH [of "ds @ [c]"] is_dec_plain [of c] assms(3) by (simp add: para_end_plain)
qed simp

lemma group_reads_back: "ip_group (dec_text (unat b)) = Some b" "length (dec_text (unat (b :: u8))) \<le> 3"
proof -
  show l: "length (dec_text (unat b)) \<le> 3" by (rule dec_text_length [OF less_trans [OF unat_u8_bound]]) simp_all
  have "unat b \<le> 255" using unat_u8_bound [of b] by linarith
  with l show "ip_group (dec_text (unat b)) = Some b"
    using dec_text_ok [of "unat b"] by (cases "dec_text (unat b)") (auto simp: ip_group_def)
qed

lemma ip_dotted:
  assumes "length buf < 4"
  shows "ip_loop 4 buf [] (dec_text (unat b) @ 46 # p) = ip_loop 4 (buf @ [b]) [] p"
  using ip_digits [of "dec_text (unat b)" "[]" buf "46 # p"] dec_text_ok group_reads_back [of b] assms
  by (simp add: para_end_plain)

lemma ip_reads_back:
  assumes "length bs = 4" "para_end p = Some (Some (t, over, q))" "t AND opt \<noteq> 0"
  shows "get_ip_para opt (at_get_value (V_ip bs) @ p) = Some (Some (V_ip bs), over, q)"
proof -
  obtain a b c d where bs: "bs = [a, b, c, d]" using assms(1) by (auto simp: numeral_eq_Suc length_Suc_conv)
  obtain x r where p: "p = x # r" using para_end_None [OF assms(2)] by (cases p) auto
  have "ip_loop 4 [a, b, c] [] (dec_text (unat d) @ p) = ip_loop 4 [a, b, c] (dec_text (unat d)) p"
    using ip_digits [of "dec_text (unat d)" "[]" "[a, b, c]" p] dec_text_ok group_reads_back(2) by simp
  also have "\<dots> = Some ([a, b, c], dec_text (unat d), t, over, q)" using assms(2) p by simp
  finally have last: "ip_loop 4 [a, b, c] [] (dec_text (unat d) @ p) = Some ([a, b, c], dec_text (unat d), t, over, q)" .
  have "at_get_value (V_ip bs) @ p =
      dec_text (unat a) @ 46 # dec_text (unat b) @ 46 # dec_text (unat c) @ 46 # dec_text (unat d) @ p"
    by (simp add: bs at_get_value_def)
  then show ?thesis using last assms(3)
    by (simp add: get_ip_para_def ip_dotted group_reads_back(1) bs)
qed

section \<open>Byte strings\<close>

lemma nibble: "unat (b :: u8) div 16 < 16"
  by (rule less_mult_imp_div_less) (use unat_u8_bound [of b] in simp)

lemma hex2_byte: "hex_byte (hex2 b) = b"
proof -
  have "hex_byte (hex2 b) = of_nat (unat b div 16 * 16 + unat b mod 16)"
    using hex_digit_ok [OF nibble [of b]] hex_digit_ok [of "unat b mod 16"] by (simp add: hex_byte_def hex2_def)
  also have "unat b div 16 * 16 + unat b mod 16 = unat b" by simp
  finally show ?thesis by simp
qed

lemma hex_end: "para_end p = Some (Some (t, over, q)) \<Longrightarrow> length buf < limit \<Longrightarrow> hex_loop limit buf hex p = Some (buf, hex, t, over, q)"
  by (subst hex_loop.simps) simp

lemma hex_push:
  assumes "is_hex c" "length buf < limit" "length hex < 2"
  shows "hex_loop limit buf hex (c # p) = hex_loop limit buf (hex @ [c]) p"
  using assms is_hex_plain [OF assms(1)] by (subst hex_loop.simps) (simp add: para_end_plain)

lemma hex_store:
  assumes "is_hex c" "length buf < limit" "length hex = 2" "limit \<le> 64"
  shows "hex_loop limit buf hex (c # p) = hex_loop limit (buf @ [hex_byte hex]) [] (c # p)"
  using assms is_hex_plain [OF assms(1)] by (subst hex_loop.simps) (simp add: para_end_plain strbuf_put_def)

lemma hex2_digits: "hex2 b = [hex_digit (unat b div 16), hex_digit (unat b mod 16)]" "is_hex (hex_digit (unat (b :: u8) div 16))"
  "is_hex (hex_digit (unat b mod 16))"
  "length (hex2 b) = 2"
  using hex_digit_ok [OF nibble [of b]] hex_digit_ok [of "unat b mod 16"] by (simp_all add: hex2_def)

lemma hex_bytes:
  assumes "length buf + length bs < limit" "limit \<le> 64" "para_end p = Some (Some (t, over, q))"
  shows "hex_loop limit buf [] (concat (map hex2 (bs @ [b])) @ p) = Some (buf @ bs, hex2 b, t, over, q)"
  using assms(1)
proof (induction bs arbitrary: buf)
  case Nil
  then show ?case using hex_end [OF assms(3)] hex2_digits [of b] by (simp add: hex_push)
next
  case (Cons a bs)
  obtain c r where c: "concat (map hex2 (bs @ [b])) @ p = c # r" "is_hex c"
    by (cases bs) (simp_all add: hex2_digits)
  have "hex_loop limit buf [] (concat (map hex2 ((a # bs) @ [b])) @ p) = hex_loop limit buf (hex2 a) (c # r)"
    using Cons.prems hex2_digits [of a] c(1) by (simp add: hex_push)
  also have "\<dots> = hex_loop limit (buf @ [a]) [] (c # r)"
    using hex_store [OF c(2) _ _ assms(2), of buf "hex2 a" r] Cons.prems hex2_byte [of a] by (simp add: hex2_def)
  finally show ?case using Cons.IH [of "buf @ [a]"] Cons.prems c(1) by simp
qed

lemma hex_reads_plain:
  assumes "length bs < SIZE_LIMIT opt" "SIZE_LIMIT opt \<le> 64" "para_end p = Some (Some (t, over, q))" "t AND opt \<noteq> 0"
  shows "get_hex_para opt (concat (map hex2 (bs @ [b])) @ p) =
     Some (Some (V_hex (bs @ [b] @ replicate (SIZE_LIMIT opt - length bs - 1) 0)), over, tl q)"
  using hex_bytes [OF _ assms(2,3), of "[]" bs b] assms(1,2,4)
  by (simp add: get_hex_para_def strbuf_put_def hex2_byte hex2_digits(4))

text \<open>The printed form, with colons, ends at the first of them.\<close>

lemma hex_colon_refused:
  assumes "AET_PARA AND opt = 0" "0 < SIZE_LIMIT opt"
  shows "\<exists>over q. get_hex_para opt (at_get_value (V_hex (a # b # bs)) @ p) = Some (None, over, q)"
proof -
  have h: "hex_loop (SIZE_LIMIT opt) [] (hex2 a) (58 # r) = Some ([], hex2 a, 256, False, 58 # r)" for r
    using assms(2) by (subst hex_loop.simps) (simp add: para_end_plain)
  have "\<exists>r. at_get_value (V_hex (a # b # bs)) @ p = hex2 a @ 58 # r"
    by (simp add: at_get_value_def)
  then obtain r where r: "at_get_value (V_hex (a # b # bs)) @ p = hex2 a @ 58 # r" by blast
  have "hex_loop (SIZE_LIMIT opt) [] [] (hex2 a @ 58 # r) = Some ([], hex2 a, 256, False, 58 # r)"
    using h [of r] hex2_digits [of a] assms(2) by (simp add: hex_push)
  then have "get_hex_para opt (hex2 a @ 58 # r) = Some (None, False, 58 # r)" using assms(1) by (simp add: get_hex_para_def)
  then show ?thesis unfolding r by blast
qed

section \<open>Hexadecimal numbers\<close>

lemma hi_refused: "\<exists>q. get_hi_para opt (at_get_value (V_hi w) @ p) = Some (None, False, q)"
  by (simp add: at_get_value_def get_hi_para_def para_end_def is_hex_def)

end
