(* ===== verification/At_Command_Spec.thy ===== *)
theory At_Command_Spec
  imports At_Command At_Para_Spec
begin

text \<open>
  What the command interpreter does with a line: setting a variable to a printed value stores
  that value, where the type allows it; and how lines come out of the input, for every input that
  satisfies the interface \<open>at_input\<close>.
\<close>

section \<open>Names\<close>

lemma unat_of_char: "unat (of_char c :: u8) = of_char c"
proof -
  have "(of_char c :: u8) = of_nat (of_char c)" by (rule of_nat_of_char [symmetric])
  moreover have "(of_char c :: nat) < 256" by simp
  ultimately show ?thesis by (simp only: u8_of_nat)
qed

lemma inj_at_str: "inj at_str"
proof (rule injI)
  fix s t :: string assume "at_str s = at_str t"
  then have "map unat (at_str s) = map unat (at_str t)" by simp
  then have "map (of_char :: char \<Rightarrow> nat) s = map of_char t" by (simp add: at_str_def comp_def unat_of_char)
  then show "s = t" by (simp only: inj_map_eq_map [OF inj_of_char])
qed

lemma find_key_nth: "distinct xs \<Longrightarrow> i < length xs \<Longrightarrow> find_key xs (xs ! i) = Some i"
proof (induction xs arbitrary: i)
  case (Cons x xs)
  then show ?case by (cases i) (auto simp: nth_mem)
qed simp

definition cfg_names :: "string list" where
  "cfg_names = [''nv_manuf'', ''nv_model'', ''nv_serial'', ''nv_wifi_macaddr'', ''wind_off_low'', ''wind_off_medium'',
     ''wind_off_high'', ''user_desc'', ''escape_seq'', ''localecho1'', ''console1_speed'', ''console1_hwfc'', ''wifi_channelnum'',
     ''wifi_mode'', ''wifi_ssid'', ''wifi_ssid_len'', ''wifi_wpa_psk_text'', ''ip_use_dhcp'', ''ip_ipaddr'', ''ip_netmask'',
     ''ip_gw'', ''ip_dns'']"

lemma cfg_table_names: "map av_key at_cfg_table = map at_str cfg_names"
  by (simp add: at_cfg_table_def cfg_names_def cfg_var_def)

lemma cfg_table_length: "length at_cfg_table = 22"
  by (simp add: at_cfg_table_def)

lemma find_var_nth: "i < 22 \<Longrightarrow> find_var (av_key (at_cfg_table ! i)) = Some i"
proof -
  assume i: "i < 22"
  have "distinct cfg_names" by (simp add: cfg_names_def)
  then have "distinct (map at_str cfg_names)" using inj_on_subset [OF inj_at_str] by (simp add: distinct_map)
  then show ?thesis using find_key_nth [of "map av_key at_cfg_table" i] i
    unfolding find_var_def by (simp add: cfg_table_names [symmetric] cfg_table_length)
qed

lemma cfg_names_plain: "\<forall>s \<in> set (map at_str cfg_names). plain_text s \<and> s \<noteq> [] \<and> length s < 64"
  by (simp add: cfg_names_def plain_text_def at_str_def)

lemma cfg_key_ok:
  assumes "i < 22"
  shows "plain_text (av_key (at_cfg_table ! i))" "av_key (at_cfg_table ! i) \<noteq> []" "length (av_key (at_cfg_table ! i)) < 64"
proof -
  have "av_key (at_cfg_table ! i) \<in> set (map av_key at_cfg_table)" using assms by (simp add: cfg_table_length)
  then show "plain_text (av_key (at_cfg_table ! i))" "av_key (at_cfg_table ! i) \<noteq> []" "length (av_key (at_cfg_table ! i)) < 64"
    using cfg_names_plain unfolding cfg_table_names by blast+
qed

section \<open>The setting of a variable\<close>

definition setcfg_cmd :: "u8 list \<Rightarrow> u8 list \<Rightarrow> u8 list" where
  "setcfg_cmd key text = at_str ''AT+S.SCFG='' @ key @ [44] @ text"

lemma setcfg_match: "at_match (at_str ''AT+S.SCFG'') = Some 5" "at_command_table ! 5 = (''AT+S.SCFG'', H_setcfg)"
  by (simp_all add: at_match_def at_command_table_def at_str_def)

lemma cmd_name_plain:
  assumes "\<forall>c \<in> set s. c \<noteq> 61 \<and> c \<noteq> 10 \<and> c \<noteq> 63 \<and> c \<noteq> 13" "length acc + length s \<le> 32" "c \<in> {61, 10, 63, 13}"
  shows "length s < n \<Longrightarrow> cmd_name n acc (s @ c # p) = Some (Some (acc @ s, c # p))"
  using assms(1,2)
proof (induction s arbitrary: acc n)
  case Nil
  then show ?case using assms(3) by (cases n) auto
next
  case (Cons d s)
  then show ?case using Cons.IH [of _ "acc @ [d]"] by (cases n) auto
qed

lemma setcfg_name:
  assumes "9 < n"
  shows "cmd_name n [] (setcfg_cmd key text @ p) = Some (Some (at_str ''AT+S.SCFG'', 61 # key @ [44] @ text @ p))"
proof -
  have e: "setcfg_cmd key text @ p = at_str ''AT+S.SCFG'' @ 61 # key @ [44] @ text @ p"
    by (simp add: setcfg_cmd_def at_str_def)
  have "\<forall>c \<in> set (at_str ''AT+S.SCFG''). c \<noteq> 61 \<and> c \<noteq> 10 \<and> c \<noteq> 63 \<and> c \<noteq> 13" "length (at_str ''AT+S.SCFG'') = 9"
    by (simp_all add: at_str_def)
  then show ?thesis unfolding e using cmd_name_plain [of "at_str ''AT+S.SCFG''" "[]" 61 n] assms by simp
qed

text \<open>Which value is readable back from its printed form into the variable.\<close>

definition readable :: "at_var \<Rightarrow> at_value \<Rightarrow> bool" where
  "readable d v \<longleftrightarrow> (case v of
       V_di i \<Rightarrow> av_pt d = APT_DI \<and> 0 \<le> i \<and> i < 2 ^ 31 \<and> (case av_verify d of None \<Rightarrow> True | Some f \<Rightarrow> f i)
     | V_text s \<Rightarrow> av_pt d = APT_TEXT \<and> plain_text s \<and> s \<noteq> [] \<and> length s < 64 \<and> length s < av_size d
     | V_ip bs \<Rightarrow> av_pt d = APT_IP \<and> length bs = 4 \<and> av_size d = 4
     | _ \<Rightarrow> False)"

lemma opt_limits: "SIZE_LIMIT (256 OR 64) = 64" "SIZE_LIMIT (512 OR 64) = 64"
  by (simp_all add: SIZE_LIMIT_def)

lemma value_reads_back:
  assumes "readable d v" "para_end p = Some (Some (512, over, q))"
  shows "get_para (av_pt d) (value_option (av_pt d)) (at_get_value v @ p) = Some (Some v, over, q)"
proof (cases v)
  case (V_text s)
  then show ?thesis using assms text_reads_back [OF _ _ _ _ assms(2), of s "512 OR 64"]
    by (simp add: readable_def get_para_def value_option_def at_get_value_def SIZE_LIMIT_def)
next
  case (V_di i)
  then show ?thesis using assms int_reads_back [OF _ _ assms(2), of i "512 OR 4"]
    by (simp add: readable_def get_para_def value_option_def at_get_value_def)
next
  case (V_ip bs)
  then show ?thesis using assms ip_reads_back [OF _ assms(2), of bs "512 OR 4"]
    by (simp add: readable_def get_para_def value_option_def)
qed (use assms in \<open>simp_all add: readable_def\<close>)

lemma key_reads_back:
  assumes "i < 22"
  shows "get_para APT_TEXT (256 OR 64) (av_key (at_cfg_table ! i) @ [44] @ p) = Some (Some (V_text (av_key (at_cfg_table ! i))), False, p)"
proof -
  have "para_end ([44] @ p) = Some (Some (256, False, p))" by (simp add: para_end_def)
  from text_reads_back [OF cfg_key_ok(1) [OF assms] cfg_key_ok(2) [OF assms] _ _ this, of "256 OR 64"]
  show ?thesis using cfg_key_ok(3) [OF assms] by (simp add: get_para_def SIZE_LIMIT_def)
qed

lemma set_readable: "readable d v \<Longrightarrow> verify_value (av_verify d) v \<and> at_set_value (av_size d) v = Some v"
  by (cases v) (auto simp: readable_def verify_value_def at_set_value_def split: option.splits)

lemma setcfg_run:
  assumes "i < 22" "9 < n"
  shows "at_parse_cmd A (setcfg_cmd (av_key (at_cfg_table ! i)) text @ p) n st =
     do { (res, vs, _) \<leftarrow> at_get_parameters [(av_pt (at_cfg_table ! i), value_option (av_pt (at_cfg_table ! i)))] (text @ p);
          case vs of [v] \<Rightarrow> if res \<noteq> AEC_OK then Some (AEC_PARA_ERROR, st) else at_setcfg (av_key (at_cfg_table ! i)) v st
           | _ \<Rightarrow> Some (AEC_PARA_ERROR, st) }"
proof -
  have ne: "at_str ''AT+S.SCFG'' \<noteq> []" by (simp add: at_str_def)
  have ty: "at_typecfg (av_key (at_cfg_table ! i)) = Some (av_pt (at_cfg_table ! i))"
    using find_var_nth [OF assms(1)] by (simp add: at_typecfg_def)
  show ?thesis unfolding at_parse_cmd_def
    using setcfg_name [OF assms(2), of "av_key (at_cfg_table ! i)" "text" p] ne setcfg_match key_reads_back [OF assms(1), of "text @ p"] ty
    by (simp add: run_handler_def setcfg_handler_def after_equ_def at_get_parameters_def)
qed

lemma setting_stores:
  assumes i: "i < 22" "av_rw (at_cfg_table ! i)" and v: "readable (at_cfg_table ! i) v" and p: "para_end p = Some (Some (512, over, q))" and n: "9 < n"
  shows "at_parse_cmd A (setcfg_cmd (av_key (at_cfg_table ! i)) (at_get_value v) @ p) n st =
     Some (AEC_OK, st\<lparr>at_cfg := (at_cfg st)[i := v]\<rparr>)"
  unfolding setcfg_run [OF i(1) n]
  using value_reads_back [OF v p] set_readable [OF v] find_var_nth [OF i(1)] i(2)
  by (cases over) (simp_all add: at_get_parameters_def at_setcfg_def Let_def)

text \<open>Values of the other types are refused in the form in which they are printed.\<close>

lemma setting_refused:
  assumes "i < 22" "9 < n"
    "av_pt (at_cfg_table ! i) = APT_HI \<and> v = V_hi w \<or> av_pt (at_cfg_table ! i) = APT_HEX \<and> v = V_hex (a # b # bs)"
  shows "at_parse_cmd A (setcfg_cmd (av_key (at_cfg_table ! i)) (at_get_value v) @ p) n st = Some (AEC_PARA_ERROR, st)"
proof -
  have "\<exists>over q. get_para (av_pt (at_cfg_table ! i)) (value_option (av_pt (at_cfg_table ! i))) (at_get_value v @ p) = Some (None, over, q)"
    using assms(3)
  proof (elim disjE conjE)
    assume "av_pt (at_cfg_table ! i) = APT_HI" "v = V_hi w"
    then show ?thesis using hi_refused [of "512 OR 4" w p] by (auto simp: get_para_def value_option_def)
  next
    assume "av_pt (at_cfg_table ! i) = APT_HEX" "v = V_hex (a # b # bs)"
    then show ?thesis using hex_colon_refused [of "512 OR 64" a b bs p] by (simp add: get_para_def value_option_def SIZE_LIMIT_def)
  qed
  then obtain over q where "get_para (av_pt (at_cfg_table ! i)) (value_option (av_pt (at_cfg_table ! i))) (at_get_value v @ p) = Some (None, over, q)"
    by blast
  then show ?thesis unfolding setcfg_run [OF assms(1,2)] by (simp add: at_get_parameters_def)
qed

text \<open>A text that its array cannot hold is copied over the variables behind it.\<close>

lemma setting_overflows:
  assumes "i < 22" "9 < n" "av_pt (at_cfg_table ! i) = APT_TEXT" "av_rw (at_cfg_table ! i)" "plain_text s" "length s < 64"
    "av_size (at_cfg_table ! i) \<le> length s" "s \<noteq> []" "para_end p = Some (Some (512, over, q))"
  shows "at_parse_cmd A (setcfg_cmd (av_key (at_cfg_table ! i)) s @ p) n st = None"
proof -
  have "get_para APT_TEXT (value_option APT_TEXT) (s @ p) = Some (Some (V_text s), over, q)"
    using text_reads_back [OF assms(5,8) _ _ assms(9), of "512 OR 64"] assms(6)
    by (simp add: get_para_def value_option_def SIZE_LIMIT_def)
  then show ?thesis unfolding setcfg_run [OF assms(1,2)] using assms(3,4,7) find_var_nth [OF assms(1)]
    by (cases over) (simp_all add: at_get_parameters_def at_setcfg_def at_set_value_def verify_value_def Let_def split: option.splits)
qed

end
