(* ===== verification/At_Lines.thy ===== *)
theory At_Lines
  imports At_Command_Spec
begin

text \<open>
  How lines come out of the input, for every input that satisfies the interface \<open>at_input\<close>: in
  whatever pieces the characters of a line arrive, with however many turns in between at which
  nothing is there, the line is executed once, as it was typed.
\<close>

section \<open>Turns\<close>

lemma turns_add: "at_turns A get peek (m + n) st = Option.bind (at_turns A get peek m st) (at_turns A get peek n)"
  by (induction m arbitrary: st) (simp_all split: bind_split)

text \<open>The interpreter between two commands, with a part of a line in the cache.\<close>

definition at_quiet :: "('e, 'q) at_state \<Rightarrow> bool" where
  "at_quiet st \<longleftrightarrow> snd_status (at_send st) = 0 \<and> \<not> at_timeout st \<and> \<not> at_flag st"

abbreviation (input) moved :: "('e, 'q) at_state \<Rightarrow> u8 list \<Rightarrow> u8 list \<Rightarrow> 'e \<Rightarrow> 'q \<Rightarrow> ('e, 'q) at_state" where
  "moved st s b e q \<equiv> st\<lparr>at_cache := \<lparr>cc_cnt = length s, cc_buf = s @ b\<rparr>, at_env := e, at_queue := q\<rparr>"

lemma turn_idle:
  assumes "at_quiet st" "get (at_env st) (at_queue st) = Some (None, e, q)"
  shows "at_turn A get peek st = Some (st\<lparr>at_env := e, at_queue := q\<rparr>)"
  using assms by (simp add: at_turn_def at_read_def send_timed_out_def at_execute_def at_quiet_def)

lemma put_next: "cc_buf c = s @ x # b \<Longrightarrow> cc_cnt c = length s \<Longrightarrow>
    cache_put d (st\<lparr>at_cache := c\<rparr>) = Some (st\<lparr>at_cache := \<lparr>cc_cnt = length (s @ [d]), cc_buf = (s @ [d]) @ b\<rparr>\<rparr>)"
  by (simp add: cache_put_def Let_def)

lemma room_next:
  assumes "at_cache st = \<lparr>cc_cnt = length s, cc_buf = s @ x # b\<rparr>" "length s < 1024"
  shows "cache_room_put d st = Some (True, st\<lparr>at_cache := \<lparr>cc_cnt = length (s @ [d]), cc_buf = (s @ [d]) @ b\<rparr>\<rparr>)"
  using assms by (simp add: cache_room_put_def cache_put_def Let_def)

lemma turn_char:
  assumes "at_quiet st" "at_cache st = \<lparr>cc_cnt = length s, cc_buf = s @ x # b\<rparr>" "length s < 1024" "c \<noteq> 10" "c \<noteq> 13"
    "get (at_env st) (at_queue st) = Some (Some c, e, q)"
  shows "at_turn A get peek st = Some (moved st (s @ [c]) b e q)"
  using assms room_next [of "st\<lparr>at_env := e, at_queue := q\<rparr>" s x b c]
  by (simp add: at_turn_def at_read_def at_receive_def at_quiet_def send_timed_out_def at_execute_def)

lemma turn_line:
  assumes "at_quiet st" "at_cache st = \<lparr>cc_cnt = length s, cc_buf = s @ x # y # b\<rparr>" "length s < 1023"
    "get (at_env st) (at_queue st) = Some (Some 10, e, q)"
  shows "at_turn A get peek st = at_execute A ((moved st (s @ [10, 10]) b e q)\<lparr>at_flag := True\<rparr>)"
proof -
  let ?st = "st\<lparr>at_env := e, at_queue := q\<rparr>"
  have 1: "cache_room_put 10 ?st = Some (True, ?st\<lparr>at_cache := \<lparr>cc_cnt = length (s @ [10]), cc_buf = (s @ [10]) @ y # b\<rparr>\<rparr>)"
    using room_next [of ?st s x "y # b" 10] assms(2,3) by simp
  have 2: "cache_room_put 10 (?st\<lparr>at_cache := \<lparr>cc_cnt = length (s @ [10]), cc_buf = (s @ [10]) @ y # b\<rparr>, at_flag := True\<rparr>) =
      Some (True, (moved st (s @ [10, 10]) b e q)\<lparr>at_flag := True\<rparr>)"
    using room_next [of "?st\<lparr>at_cache := \<lparr>cc_cnt = length (s @ [10]), cc_buf = (s @ [10]) @ y # b\<rparr>, at_flag := True\<rparr>" "s @ [10]" y b 10] assms(3)
    by simp
  show ?thesis using assms(1,4) 1 2
    by (simp add: at_turn_def at_read_def at_receive_def line_feed_def at_quiet_def send_timed_out_def)
qed

lemma turn_full:
  assumes "at_quiet st" "cc_cnt (at_cache st) = 1024" "c \<noteq> 10" "c \<noteq> 13" "get (at_env st) (at_queue st) = Some (Some c, e, q)"
  shows "at_turn A get peek st = Some (st\<lparr>at_cache := (at_cache st)\<lparr>cc_cnt := 0\<rparr>, at_env := e, at_queue := q\<rparr>)"
  using assms by (simp add: at_turn_def at_read_def at_receive_def at_quiet_def cache_room_put_def)

section \<open>A line over the interface\<close>

context at_input
begin

lemma next_byte:
  assumes "at_quiet st" "ok (at_env st) (at_queue st)" "stream (at_env st) (at_queue st) = b # bs"
  shows "\<exists>n e1 q1 e2 q2. at_turns A get peek n st = Some (st\<lparr>at_env := e1, at_queue := q1\<rparr>) \<and>
     get e1 q1 = Some (Some b, e2, q2) \<and> ok e2 q2 \<and> stream e2 q2 = bs"
  using assms
proof (induction "lag (at_env st) (at_queue st)" arbitrary: st rule: less_induct)
  case less
  obtain r e q where g: "get (at_env st) (at_queue st) = Some (r, e, q)" "ok e q"
    "case r of None \<Rightarrow> stream e q = stream (at_env st) (at_queue st) \<and> (stream (at_env st) (at_queue st) = [] \<or> lag e q < lag (at_env st) (at_queue st))
     | Some b \<Rightarrow> stream (at_env st) (at_queue st) = b # stream e q"
    using get [OF less.prems(2)] by blast
  show ?case
  proof (cases r)
    case None
    let ?st = "st\<lparr>at_env := e, at_queue := q\<rparr>"
    have "lag (at_env ?st) (at_queue ?st) < lag (at_env st) (at_queue st)" "at_quiet ?st" "ok (at_env ?st) (at_queue ?st)"
      "stream (at_env ?st) (at_queue ?st) = b # bs"
      using None g(2,3) less.prems by (simp_all add: at_quiet_def)
    from less.hyps [OF this] obtain n e1 q1 e2 q2 where n: "at_turns A get peek n ?st = Some (?st\<lparr>at_env := e1, at_queue := q1\<rparr>)"
      "get e1 q1 = Some (Some b, e2, q2)" "ok e2 q2" "stream e2 q2 = bs" by blast
    have "at_turns A get peek (Suc n) st = Some (st\<lparr>at_env := e1, at_queue := q1\<rparr>)"
      using turn_idle [of st get e q A peek, OF less.prems(1) g(1) [unfolded None]] n(1) by simp
    then show ?thesis using n(2-4) by blast
  next
    case (Some c)
    have "at_turns A get peek 0 st = Some (st\<lparr>at_env := at_env st, at_queue := at_queue st\<rparr>)" by simp
    then show ?thesis using Some g less.prems(3)
      by (intro exI [of _ 0] exI [of _ "at_env st"] exI [of _ "at_queue st"] exI [of _ e] exI [of _ q]) simp
  qed
qed

lemma typed_chars:
  assumes "at_quiet st" "at_cache st = \<lparr>cc_cnt = length s, cc_buf = s @ b\<rparr>" "length cs \<le> length b" "length s + length cs \<le> 1024"
    "\<forall>c \<in> set cs. c \<noteq> 10 \<and> c \<noteq> 13" "ok (at_env st) (at_queue st)" "stream (at_env st) (at_queue st) = cs @ rest"
  shows "\<exists>n e q. at_turns A get peek n st = Some (moved st (s @ cs) (drop (length cs) b) e q) \<and> ok e q \<and> stream e q = rest"
  using assms
proof (induction cs arbitrary: st s b)
  case Nil
  have "at_turns A get peek 0 st = Some (moved st s b (at_env st) (at_queue st))" using Nil.prems(2) by simp
  then show ?case using Nil.prems(6,7)
    by (intro exI [of _ 0] exI [of _ "at_env st"] exI [of _ "at_queue st"]) simp
next
  case (Cons c cs)
  obtain x b' where b: "b = x # b'" using Cons.prems(3) by (cases b) auto
  obtain n e1 q1 e2 q2 where n: "at_turns A get peek n st = Some (st\<lparr>at_env := e1, at_queue := q1\<rparr>)"
    "get e1 q1 = Some (Some c, e2, q2)" "ok e2 q2" "stream e2 q2 = cs @ rest"
    using next_byte [OF Cons.prems(1,6), of c "cs @ rest" A] Cons.prems(7) by auto
  let ?st1 = "st\<lparr>at_env := e1, at_queue := q1\<rparr>"
  have "at_turn A get peek ?st1 = Some (moved ?st1 (s @ [c]) b' e2 q2)"
    by (rule turn_char [of ?st1 s x b']) (use Cons.prems b n(2) in \<open>simp_all add: at_quiet_def\<close>)
  then have step: "at_turns A get peek (n + 1) st = Some (moved st (s @ [c]) b' e2 q2)"
    unfolding turns_add using n(1) by simp
  let ?st = "moved st (s @ [c]) b' e2 q2"
  have "\<exists>m e q. at_turns A get peek m ?st = Some (moved ?st ((s @ [c]) @ cs) (drop (length cs) b') e q) \<and> ok e q \<and> stream e q = rest"
    by (rule Cons.IH [of ?st "s @ [c]" b']) (use Cons.prems n(3,4) b in \<open>simp_all add: at_quiet_def\<close>)
  then obtain m e q where m: "at_turns A get peek m ?st = Some (moved ?st ((s @ [c]) @ cs) (drop (length cs) b') e q)"
    "ok e q" "stream e q = rest" by blast
  have "at_turns A get peek (n + 1 + m) st = Some (moved st (s @ c # cs) (drop (length (c # cs)) b) e q)"
    unfolding turns_add [of _ _ _ "n + 1"] step using m(1) b by simp
  then show ?case using m(2,3) by blast
qed

lemma line_arrives:
  assumes "at_quiet st" "cc_cnt (at_cache st) = 0" "length (cc_buf (at_cache st)) = 1028" "length cs \<le> 1022"
    "\<forall>c \<in> set cs. c \<noteq> 10 \<and> c \<noteq> 13" "ok (at_env st) (at_queue st)" "stream (at_env st) (at_queue st) = cs @ 10 # rest"
  shows "\<exists>n e q b. at_turns A get peek n st = at_execute A ((moved st (cs @ [10, 10]) b e q)\<lparr>at_flag := True\<rparr>) \<and> ok e q \<and>
     stream e q = rest \<and> length b = 1026 - length cs"
proof -
  let ?b = "cc_buf (at_cache st)"
  have c: "at_cache st = \<lparr>cc_cnt = length ([] :: u8 list), cc_buf = [] @ ?b\<rparr>" using assms(2) by (cases "at_cache st") simp
  obtain n e q where n: "at_turns A get peek n st = Some (moved st cs (drop (length cs) ?b) e q)" "ok e q" "stream e q = 10 # rest"
    using typed_chars [OF assms(1) c _ _ assms(5,6,7), of A] assms(3,4) by auto
  let ?st = "moved st cs (drop (length cs) ?b) e q"
  obtain x y b where b: "drop (length cs) ?b = x # y # b"
  proof -
    have "2 \<le> length (drop (length cs) ?b)" using assms(3,4) by simp
    then show thesis using that by (cases "drop (length cs) ?b"; cases "tl (drop (length cs) ?b)") auto
  qed
  have lb: "length b = 1026 - length cs" using arg_cong [OF b, of length] assms(3) by simp
  have q: "at_quiet ?st" using assms(1) by (simp add: at_quiet_def)
  obtain m e1 q1 e2 q2 where m: "at_turns A get peek m ?st = Some (?st\<lparr>at_env := e1, at_queue := q1\<rparr>)"
    "get e1 q1 = Some (Some 10, e2, q2)" "ok e2 q2" "stream e2 q2 = rest"
    using next_byte [OF q, of 10 rest A] n(2,3) by auto
  have "at_turn A get peek (?st\<lparr>at_env := e1, at_queue := q1\<rparr>) =
      at_execute A ((moved (?st\<lparr>at_env := e1, at_queue := q1\<rparr>) (cs @ [10, 10]) b e2 q2)\<lparr>at_flag := True\<rparr>)"
    by (rule turn_line) (use q m(2) assms(4) b in \<open>simp_all add: at_quiet_def\<close>)
  then have "at_turns A get peek (n + (m + 1)) st = at_execute A ((moved st (cs @ [10, 10]) b e2 q2)\<lparr>at_flag := True\<rparr>)"
    unfolding turns_add using n(1) m(1) by (cases "at_execute A ((moved st (cs @ [10, 10]) b e2 q2)\<lparr>at_flag := True\<rparr>)") simp_all
  then show ?thesis using m(3,4) lb by blast
qed

text \<open>The part of a line behind its first 1025 characters is a line of its own.\<close>

lemma overlong_line:
  assumes "at_quiet st" "cc_cnt (at_cache st) = 0" "length (cc_buf (at_cache st)) = 1028" "length cs = 1025" "length ds \<le> 1022"
    "\<forall>c \<in> set (cs @ ds). c \<noteq> 10 \<and> c \<noteq> 13" "ok (at_env st) (at_queue st)" "stream (at_env st) (at_queue st) = cs @ ds @ 10 # rest"
  shows "\<exists>n e q b. at_turns A get peek n st = at_execute A ((moved st (ds @ [10, 10]) b e q)\<lparr>at_flag := True\<rparr>) \<and> ok e q \<and> stream e q = rest"
proof -
  let ?b = "cc_buf (at_cache st)" and ?rest = "ds @ 10 # rest"
  obtain cs' c where cs: "cs = cs' @ [c]" using assms(4) by (cases cs rule: rev_cases) auto
  have l: "length cs' = 1024" using assms(4) cs by simp
  have 0: "at_cache st = \<lparr>cc_cnt = length ([] :: u8 list), cc_buf = [] @ ?b\<rparr>" using assms(2) by (cases "at_cache st") simp
  obtain n e q where n: "at_turns A get peek n st = Some (moved st cs' (drop 1024 ?b) e q)" "ok e q" "stream e q = c # ?rest"
    using typed_chars [OF assms(1) 0, of cs' "c # ?rest" A] assms(3,6-8) l cs by auto
  let ?st = "moved st cs' (drop 1024 ?b) e q"
  have q: "at_quiet ?st" using assms(1) by (simp add: at_quiet_def)
  obtain m e1 q1 e2 q2 where m: "at_turns A get peek m ?st = Some (?st\<lparr>at_env := e1, at_queue := q1\<rparr>)"
    "get e1 q1 = Some (Some c, e2, q2)" "ok e2 q2" "stream e2 q2 = ?rest"
    using next_byte [OF q, of c ?rest A] n(2,3) by auto
  let ?st1 = "?st\<lparr>at_env := e1, at_queue := q1\<rparr>"
  let ?st2 = "?st1\<lparr>at_cache := (at_cache ?st1)\<lparr>cc_cnt := 0\<rparr>, at_env := e2, at_queue := q2\<rparr>"
  have full: "at_turn A get peek ?st1 = Some ?st2"
    by (rule turn_full) (use q m(2) assms(6) cs l in \<open>simp_all add: at_quiet_def\<close>)
  obtain k e3 q3 b where k: "at_turns A get peek k ?st2 = at_execute A ((moved ?st2 (ds @ [10, 10]) b e3 q3)\<lparr>at_flag := True\<rparr>)"
    "ok e3 q3" "stream e3 q3 = rest"
    using line_arrives [of ?st2 ds rest A] assms(1,3,5,6) m(3,4) l by (auto simp: at_quiet_def)
  have "at_turns A get peek (n + (m + (1 + k))) st = at_execute A ((moved st (ds @ [10, 10]) b e3 q3)\<lparr>at_flag := True\<rparr>)"
    unfolding turns_add using n(1) m(1) full k(1) by simp
  then show ?thesis using k(2,3) by blast
qed

end

section \<open>Executing the setting of a variable\<close>

definition no_line_end :: "u8 \<Rightarrow> bool" where
  "no_line_end c \<longleftrightarrow> c \<noteq> 10 \<and> c \<noteq> 13 \<and> c \<noteq> 0"

lemma dec_no_line_end: "list_all no_line_end (dec_text n)"
proof -
  have "is_dec c \<Longrightarrow> no_line_end c" for c by (auto simp: is_dec_def no_line_end_def)
  then show ?thesis using dec_text_ok [of n] unfolding list_all_iff by blast
qed

lemma printed_plain:
  assumes "readable d v"
  shows "list_all no_line_end (at_get_value v)" "length (at_get_value v) \<le> 64"
proof -
  have ip: "\<exists>a b c d. bs = [a, b, c, d]" if "length bs = 4" for bs :: "u8 list"
    using that by (auto simp: numeral_eq_Suc length_Suc_conv)
  have g: "length (dec_text (unat (b :: u8))) \<le> 3" for b by (rule group_reads_back(2))
  show "list_all no_line_end (at_get_value v)"
  proof (cases v)
    case (V_di i)
    then show ?thesis using assms by (simp add: readable_def at_get_value_def int_text_def dec_no_line_end)
  next
    case (V_ip bs)
    then have "length bs = 4" using assms by (simp add: readable_def)
    then obtain a b c d where bs: "bs = [a, b, c, d]" using ip by blast
    then show ?thesis using V_ip by (simp add: at_get_value_def dec_no_line_end no_line_end_def)
  next
    case (V_text s)
    then show ?thesis using assms by (auto simp: readable_def at_get_value_def plain_text_def list_all_iff no_line_end_def)
  qed (use assms in \<open>simp_all add: readable_def\<close>)
  show "length (at_get_value v) \<le> 64"
  proof (cases v)
    case (V_di i)
    then have "length (dec_text (nat i)) \<le> 10" by (intro dec_text_length) (use assms in \<open>auto simp: readable_def\<close>)
    then show ?thesis using assms V_di by (simp add: readable_def at_get_value_def int_text_def)
  next
    case (V_ip bs)
    then have "length bs = 4" using assms by (simp add: readable_def)
    then obtain a b c d where bs: "bs = [a, b, c, d]" using ip by blast
    then show ?thesis using V_ip g [of a] g [of b] g [of c] g [of d] by (simp add: at_get_value_def)
  qed (use assms in \<open>simp_all add: readable_def at_get_value_def\<close>)
qed

definition echo_of :: "('e, 'q) at_state \<Rightarrow> u8 list \<Rightarrow> u8 list" where
  "echo_of st line = (if at_cfg st ! CFG_LOCALECHO1 = V_di 0 then [] else line @ [10, 10])"

definition ok_response :: "u8 list" where
  "ok_response = [13, 10] @ at_str ''OK'' @ [13, 10]"

text \<open>The interpreter ready for the next command.\<close>

definition ready :: "('e, 'q) at_state \<Rightarrow> bool" where
  "ready st \<longleftrightarrow> at_quiet st \<and> cc_cnt (at_cache st) = 0 \<and> length (cc_buf (at_cache st)) = CMD_SEND_DATA_MAX_LEN"

lemma takeWhile_line: "\<forall>c \<in> set line. c \<noteq> 0 \<Longrightarrow> takeWhile (\<lambda>c. c \<noteq> (0 :: u8)) (line @ 10 # 10 # 0 # b) = line @ [10, 10]"
  by (simp add: takeWhile_append2)

lemma setcfg_line_ok:
  assumes "i < 22" "readable (at_cfg_table ! i) v"
  shows "\<forall>c \<in> set (setcfg_cmd (av_key (at_cfg_table ! i)) (at_get_value v)). c \<noteq> 10 \<and> c \<noteq> 13 \<and> c \<noteq> 0"
    "9 < length (setcfg_cmd (av_key (at_cfg_table ! i)) (at_get_value v))"
    "length (setcfg_cmd (av_key (at_cfg_table ! i)) (at_get_value v)) \<le> 1022"
proof -
  have k: "plain_text (av_key (at_cfg_table ! i))" "length (av_key (at_cfg_table ! i)) < 64" using cfg_key_ok [OF assms(1)] by blast+
  have a: "\<forall>c \<in> set (at_str ''AT+S.SCFG=''). c \<noteq> 10 \<and> c \<noteq> 13 \<and> c \<noteq> 0" "length (at_str ''AT+S.SCFG='') = 10"
    by (simp_all add: at_str_def)
  show "\<forall>c \<in> set (setcfg_cmd (av_key (at_cfg_table ! i)) (at_get_value v)). c \<noteq> 10 \<and> c \<noteq> 13 \<and> c \<noteq> 0"
    using k(1) a(1) printed_plain(1) [OF assms(2)] by (auto simp: setcfg_cmd_def plain_text_def list_all_iff no_line_end_def)
  show "9 < length (setcfg_cmd (av_key (at_cfg_table ! i)) (at_get_value v))"
    "length (setcfg_cmd (av_key (at_cfg_table ! i)) (at_get_value v)) \<le> 1022"
    using k(2) a(2) printed_plain(2) [OF assms(2)] by (simp_all add: setcfg_cmd_def)
qed

lemma execute_setting:
  fixes st :: "('e, 'q) at_state" and i :: nat and v :: at_value
  defines "line \<equiv> setcfg_cmd (av_key (at_cfg_table ! i)) (at_get_value v)"
  assumes i: "i < 22" "av_rw (at_cfg_table ! i)" and v: "readable (at_cfg_table ! i) v"
    and st: "at_cache st = \<lparr>cc_cnt = length (line @ [10, 10]), cc_buf = (line @ [10, 10]) @ b\<rparr>" "at_flag st" "snd_status (at_send st) = 0"
      "\<not> at_timeout st" "length b = 1026 - length line"
  shows "\<exists>st'. at_execute A st = Some st' \<and> ready st' \<and> at_cfg st' = (at_cfg st)[i := v] \<and>
     at_out st' = at_out st @ echo_of st line @ ok_response \<and> at_env st' = at_env st \<and> at_queue st' = at_queue st"
proof -
  note l = setcfg_line_ok [OF i(1) v, folded line_def]
  obtain x b' where b: "b = x # b'" using st(5) l(3) by (cases b) auto
  have "\<exists>b2. length b2 = length b \<and> at_echo st = Some (st\<lparr>at_out := at_out st @ echo_of st line,
      at_cache := \<lparr>cc_cnt = length (line @ [10, 10]), cc_buf = (line @ [10, 10]) @ b2\<rparr>\<rparr>)"
  proof (cases "at_cfg st ! 9 = V_di 0")
    case True
    then show ?thesis using st(1) by (intro exI [of _ b]) (cases st, simp add: at_echo_def echo_of_def)
  next
    case False
    have "(line @ [10, 10] @ x # b')[length line + 2 := 0] = line @ 10 # 10 # 0 # b'"
      by (simp add: list_update_append numeral_2_eq_2)
    then show ?thesis using False st(1) b takeWhile_line [of line b'] l(1)
      by (intro exI [of _ "0 # b'"]) (simp add: at_echo_def echo_of_def at_dump_def Let_def)
  qed
  then obtain b2 where e: "length b2 = length b" "at_echo st = Some (st\<lparr>at_out := at_out st @ echo_of st line,
      at_cache := \<lparr>cc_cnt = length (line @ [10, 10]), cc_buf = (line @ [10, 10]) @ b2\<rparr>\<rparr>)" by blast
  have p: "para_end (10 # 10 # b2) = Some (Some (512, True, 10 # b2))" by (simp add: para_end_def)
  have run: "at_parse_cmd A (line @ 10 # 10 # b2) (length line + 2) s = Some (AEC_OK, s\<lparr>at_cfg := (at_cfg s)[i := v]\<rparr>)" for s :: "('e, 'q) at_state"
    unfolding line_def by (rule setting_stores [OF i v p]) (use l(2) in \<open>simp add: line_def\<close>)
  show ?thesis using e run st(2-5) l(3)
    by (simp add: at_execute_def at_response_def at_dump_def ready_def at_quiet_def ok_response_def Let_def)
qed

lemma typed_setting:
  fixes st :: "('e, 'e at_queue) at_state" and i :: nat and v :: at_value
  defines "line \<equiv> setcfg_cmd (av_key (at_cfg_table ! i)) (at_get_value v)"
  assumes i: "i < 22" "av_rw (at_cfg_table ! i)" and v: "readable (at_cfg_table ! i) v"
    and st: "ready st" "input_ok rest (at_env st) (at_queue st)" "pending rest (at_env st) (at_queue st) = line @ 10 # later"
  shows "\<exists>n st'. at_turns A at_queue_get at_queue_peek n st = Some st' \<and> ready st' \<and> at_cfg st' = (at_cfg st)[i := v] \<and>
     at_out st' = at_out st @ echo_of st line @ ok_response \<and>
     input_ok rest (at_env st') (at_queue st') \<and> pending rest (at_env st') (at_queue st') = later"
proof -
  note l = setcfg_line_ok [OF i(1) v, folded line_def]
  have s: "at_quiet st" "cc_cnt (at_cache st) = 0" "length (cc_buf (at_cache st)) = 1028" using st(1) by (simp_all add: ready_def)
  have plain: "\<forall>c \<in> set line. c \<noteq> 10 \<and> c \<noteq> 13" using l(1) by blast
  obtain n e q b where n: "at_turns A at_queue_get at_queue_peek n st = at_execute A ((moved st (line @ [10, 10]) b e q)\<lparr>at_flag := True\<rparr>)"
    "input_ok rest e q" "pending rest e q = later" "length b = 1026 - length line"
    using aq.line_arrives [OF s l(3) plain st(2,3)] by blast
  let ?st = "(moved st (line @ [10, 10]) b e q)\<lparr>at_flag := True\<rparr>"
  obtain st' where "at_execute A ?st = Some st'" "ready st'" "at_cfg st' = (at_cfg ?st)[i := v]"
    "at_out st' = at_out ?st @ echo_of ?st line @ ok_response" "at_env st' = at_env ?st" "at_queue st' = at_queue ?st"
    using execute_setting [OF i v, of ?st b A, folded line_def] n(4) s(1) by (auto simp: at_quiet_def)
  then show ?thesis using n(1-3) by (intro exI [of _ n] exI [of _ st']) (simp add: echo_of_def)
qed

end
