(* ===== verification/At_Sim.thy ===== *)
theory At_Sim
  imports At_Lines
begin

text \<open>A concrete application: bursts of characters in a list, a ring of 64 bytes, factory settings.\<close>

definition sim_burst :: "nat \<Rightarrow> u8 list list \<Rightarrow> u8 list \<times> u8 list list" where
  "sim_burst n e = (case e of [] \<Rightarrow> ([], []) | b # bs \<Rightarrow> (b, bs))"

definition sim_ring :: "u8 list list at_queue" where
  "sim_ring = \<lparr>qbuf = replicate 64 0, qsize = 64, qcnt = 0, ridx = 60, widx = 60, at_queue_callback = Some sim_burst\<rparr>"

definition sim_cfg :: "at_value list" where
  "sim_cfg = [V_text (at_str ''XR''), V_text (at_str ''806''), V_text (at_str ''1''), V_hex [2, 0, 0, 0, 0, 1], V_hi 0, V_hi 0, V_hi 0,
     V_text (at_str ''anonymous''), V_text (at_str ''at+s.''), V_di 1, V_di 115200, V_di 0, V_di 6, V_di 1,
     V_hex (replicate 33 0), V_di 0, V_text [], V_di 1, V_ip [192, 168, 0, 50], V_ip [255, 255, 255, 0], V_ip [192, 168, 0, 1], V_ip [192, 168, 0, 1]]"

definition sim_at :: "u8 list list \<Rightarrow> (u8 list list, u8 list list at_queue) at_state" where
  "sim_at bursts = \<lparr>at_cfg = sim_cfg, at_out = [], at_cache = clear_cache, at_send = clear_send_cache, at_flag = False,
     at_timeout = False, at_t0 = 0, at_env = bursts, at_queue = sim_ring\<rparr>"

definition sim_app :: "(u8 list list, u8 list list at_queue) at_app" where
  "sim_app = \<lparr>handle_cb = None, app_ticks = (\<lambda>_. 0), app_socket = (\<lambda>_. 0), app_other = (\<lambda>_ _ st. Some (AEC_OK, st))\<rparr>"

lemma sim_bursts: "from_bursts sim_burst (\<lambda>e. e)"
  by (simp add: from_bursts_def sim_burst_def split: list.splits)

lemma sim_input: "\<forall>b \<in> set bursts. length b \<le> 32 \<Longrightarrow> input_ok (\<lambda>e. e) bursts sim_ring"
  using sim_bursts by (simp add: input_ok_def sim_ring_def ring_ok_def)

lemma sim_pending: "pending (\<lambda>e. e) bursts sim_ring = concat bursts"
  by (simp add: pending_def ring_def sim_ring_def)

lemma sim_at_ready: "ready (sim_at bursts)" "at_env (sim_at bursts) = bursts" "at_queue (sim_at bursts) = sim_ring" "at_cfg (sim_at bursts) = sim_cfg"
  "at_out (sim_at bursts) = []"
  by (simp_all add: ready_def at_quiet_def sim_at_def clear_cache_def clear_send_cache_def)

lemma sim_vars: "at_cfg_table ! 13 = cfg_var ''wifi_mode'' APT_DI True 4 (Some (between 0 3))"
  "at_cfg_table ! 4 = cfg_var ''wind_off_low'' APT_HI True 4 None"
  "at_cfg_table ! 8 = cfg_var ''escape_seq'' APT_TEXT True 8 None"
  by (simp_all add: at_cfg_table_def)

text \<open>Setting the mode to 2, in two pieces with a pause.\<close>

definition sim_line :: "u8 list" where
  "sim_line = setcfg_cmd (av_key (at_cfg_table ! 13)) (at_get_value (V_di 2))"

lemma sim_line_text: "sim_line = at_str ''AT+S.SCFG=wifi_mode,2''"
  by (simp add: sim_line_def sim_vars setcfg_cmd_def cfg_var_def at_get_value_def int_text_def dec_text_small at_str_def)

definition sim_typed :: "u8 list list" where
  "sim_typed = [take 7 sim_line, [], drop 7 sim_line @ [10]]"

lemma sim_typed_ok: "\<forall>b \<in> set sim_typed. length b \<le> 32" "concat sim_typed = sim_line @ 10 # []"
  by (simp_all add: sim_typed_def) (simp add: sim_line_text at_str_def)

lemma sim_readable: "readable (at_cfg_table ! 13) (V_di 2)"
  by (simp add: readable_def sim_vars cfg_var_def between_def)

text \<open>A line that is too long, with a reset to the factory settings at its end.\<close>

definition sim_flood :: "u8 list list" where
  "sim_flood = replicate 32 (replicate 32 120) @ [[120] @ at_str ''AT&F'' @ [10]]"

lemma concat_replicates: "concat (replicate n (replicate m x)) = replicate (n * m) x"
  by (induction n) (simp_all add: replicate_add)

lemma sim_flood_ok: "\<forall>b \<in> set sim_flood. length b \<le> 32" "concat sim_flood = replicate 1025 120 @ at_str ''AT&F'' @ 10 # []"
proof -
  have "replicate 1025 (120 :: u8) = replicate (32 * 32) 120 @ [120]"
    using replicate_add [of 1024 1 "120 :: u8"] by simp
  then show "concat sim_flood = replicate 1025 120 @ at_str ''AT&F'' @ 10 # []"
    by (simp add: sim_flood_def concat_replicates)
  show "\<forall>b \<in> set sim_flood. length b \<le> 32" by (auto simp: sim_flood_def at_str_def)
qed

end
