(* ===== verification/Spec2Isabelle.thy ===== *)
theory Spec2Isabelle
  imports Sim_Image Flash_Overwrite_Spec Flash_Fault_Spec Sys_Sim Sys_Build_Spec Sys_Observer Pm_Wakelock_Spec
    Console_Lines Sysinfo_Sim Efpg_Sim SmartConfig_Sim At_Sim
begin

text \<open>
  This library models the part of the XR806 SDK that decides which firmware a device runs: the
  flash driver, the record store and the boot image format in flash, and the over-the-air
  update built on them.  The definitions are translations of the C functions of the same
  names; the theorems at the end of this file are the properties of the whole.

  The program, bottom up, and the theories that model it (paths under the repository root):

  \<^item> \<open>Flash_Chip\<close>, \<open>HAL_Flash\<close>: the driver \<open>src/rom/rom_bin/src/driver/chip/hal_flash.c\<close>.  A chip
    is a record of operations over an abstract chip state (\<open>struct FlashDrv\<close> and the function
    pointers of \<open>struct FlashChip\<close>); the chip drivers behind it are not modelled.  What the code
    relies on is the predicate \<open>nor_chip\<close>: programming ANDs inside a 256-byte page, erasing
    sets a block to ones, a command completes when the busy flag clears, reads return the
    contents; every command may also fail.  Memory, mutexes and the watchdog are part of the
    state \<open>hal\<close>; the outcomes of \<open>malloc\<close> and of the mutex calls are lists given in advance.
  \<^item> \<open>Flash_Area\<close>: \<open>src/rom/rom_bin/src/image/flash.c\<close>, areas of a flash and the choice of erase
    commands.  \<open>Flash_Iface\<close> states what its clients use as the locale \<open>flash_store\<close> (operations
    \<open>flash_if\<close>, laws for whatever status comes back); \<open>Flash_Reliable\<close> extends it to
    \<open>reliable_store\<close>, where operations inside the device succeed.  Both are interpreted on the
    code: \<open>rom\<close> for every chip that follows the data sheet, \<open>good\<close> for chips that also answer in
    time, with memory and mutexes available.
  \<^item> \<open>Fdcm\<close>: \<open>src/rom/rom_bin/src/image/fdcm.c\<close>, a store of equally sized records that uses a
    bitmap to find the last one and erases only when it is full.  \<open>Fdcm_Spec\<close> holds the
    abstraction \<open>fdcm_holds\<close> (the area holds this history of records) and the behaviour under
    faults, \<open>Fdcm_Reliable\<close> the refinement on healthy hardware.
  \<^item> \<open>Image\<close>: \<open>src/rom/rom_bin/src/image/image.c\<close> and \<open>src/image/image.c\<close>: the chain of
    sections with their checksums, the cache of section addresses, the boot configuration.
    \<open>Image_Spec\<close> and \<open>Image_Cfg_Spec\<close> give the meaning of a verdict under faults (an inductive
    predicate for intact chains), \<open>Image_Reliable\<close> and \<open>Image_Cfg_Reliable\<close> the verdicts and
    values on healthy hardware.
  \<^item> \<open>Ota\<close>: \<open>src/ota/ota.c\<close>, \<open>ota_file.c\<close>, \<open>ota_http.c\<close>: download or push of an image into the
    slot that is not running, verification of its digest, switch of the boot configuration.
    The digest engines are the record \<open>crypto\<close>, file system and HTTP client the record
    \<open>ota_net\<close>.  \<open>Ota_Spec\<close> and \<open>Ota_Download_Spec\<close> confine what an update touches,
    \<open>Ota_Verify_Spec\<close> says what an accepted image is, \<open>Ota_Reliable\<close> runs a whole session.
  \<^item> \<open>Flash_Overwrite_Spec\<close>, \<open>Flash_Fault_Spec\<close>: composed operations of the driver and the cases
    where its status misleads.
  \<^item> \<open>Sim_Chip\<close>, \<open>Sim_Image\<close>: one concrete chip, a bootloader and an image, the instances at
    which the theorems are shown to apply.

  Conventions.  A function that reads past an array, divides by zero or never returns has the
  value \<open>None\<close>; errors of the program are values.  Integers are words of the C width, pointers
  into buffers are offsets into lists, a NULL pointer is \<open>None\<close>.  Loops that may not end are
  \<open>partial_function (option)\<close>, and that they do end is proved where it holds.  There is no
  fuel.  The build modelled is the default one of the headers: \<open>CONFIG_CHIP_ARCH_VER\<close> 3, two
  images, XIP reads on and XIP writes off, transports file and HTTP, all four digests; the
  choices that a project makes (ping-pong or compressed images, bootloader) are parameters.

  A second part is the event framework \<open>project/common/framework/sys_ctrl\<close>, through which the
  parts of a product talk to each other:

  \<^item> \<open>Sys_List\<close>: the intrusive lists of \<open>include/sys/list.h\<close> over a store of pointers, with the
    abstraction \<open>dlist\<close> to lists of nodes.
  \<^item> \<open>Sys_Container\<close>, \<open>Sys_Event\<close>: \<open>container.c\<close> and \<open>event_queue.c\<close>, the sorted list, the
    priority queue over it and the plain queue over the queue of the operating system (the
    parameter \<open>os_queue_ops\<close> with the hypothesis \<open>fifo_queue\<close>).  The locale \<open>event_channel\<close> is
    what the service relies on, interpreted on the plain queue; the priority queue does not
    satisfy it, as its theorems show.
  \<^item> \<open>Sys_Publisher\<close>, \<open>Sys_Observer\<close>: \<open>publisher.c\<close> and \<open>observer.c\<close>.  Callbacks are functions on
    the publisher's state, so that they can attach and detach while a notification runs;
    \<open>Sys_Publisher_Spec\<close> holds the invariant \<open>pub_ok\<close> and the rules for callbacks
    (\<open>disciplined\<close>) under which a notification returns.
  \<^item> \<open>Sys_Ctrl\<close>: \<open>looper.c\<close> and \<open>sys_ctrl.c\<close>, the calls of the service and the rounds of its
    looper; \<open>Sys_Ctrl_Spec\<close> follows batches of events from the sender to the observers.
  \<^item> \<open>Sys_Build\<close>: how the service is put together, over a store of allocated objects in which
    any request may be refused; \<open>Sys_Build_Spec\<close> says what is left in each case and that it
    refines \<open>sys_ctrl_create\<close>.
  \<^item> \<open>Sys_Sim\<close>: a concrete queue and publisher at which the theorems apply.
  \<^item> \<open>Pm_Wakelock\<close>: \<open>src/pm/wakelock.c\<close>, which keeps its locks in the same lists and decides
    whether the system may suspend; entering a lock (\<open>__pm_wake_lock\<close>, in a binary library) is
    a parameter with the documented effect \<open>lock_entered\<close>.  \<open>Pm_Wakelock_Spec\<close> gives the flag and
    the timer their meaning.
  \<^item> \<open>Console\<close>: \<open>src/console/console.c\<close>, the receive interrupt that assembles command lines and
    the task that executes them; the relation \<open>console_step\<close> interleaves data, interrupts and the
    turns of the task.  \<open>Console_Spec\<close> holds the invariant of the two buffers and of the
    semaphore, \<open>Console_Lines\<close> what becomes of the characters typed.
  \<^item> \<open>Sysinfo\<close>: \<open>project/common/framework/sysinfo.c\<close> and \<open>user_data.c\<close>, clients of the record
    store; how the compiler lays out the structures is the parameter \<open>'a layout\<close> with the
    hypothesis \<open>layout_ok\<close>.  \<open>Sysinfo_Spec\<close> proves what survives a restart over the interfaces
    \<open>flash_store\<close> and \<open>reliable_store\<close>, \<open>Sysinfo_Sim\<close> holds a concrete layout and place.

  A third part is the eFuse array and its programming:

  \<^item> \<open>Fuse_Iface\<close>: the contract of reading and programming bit ranges, the locale \<open>fuse_store\<close>;
    bits are only ever set, and with \<open>sure\<close> those asked for are.
  \<^item> \<open>Efuse\<close>: \<open>src/driver/chip/hal_efuse.c\<close> over a controller \<open>fuse_hw\<close>; \<open>Efuse_Spec\<close> proves that
    its word and shift arithmetic is bitwise access (\<open>efuse_read_bits\<close>, \<open>efuse_write_bits\<close>) and
    interprets the locale on it.
  \<^item> \<open>Efpg_Fuse\<close>: the fields of \<open>src/efpg/efpg_efuse.c\<close> for chip architecture 3; \<open>Efpg_Fuse_Spec\<close>
    treats plain fields and regions, \<open>Efpg_Field_Spec\<close> the correction of the boot hash and every
    field by number, with fuses that may be defective.
  \<^item> \<open>Efpg\<close>: the protocol of \<open>src/efpg/efpg.c\<close> and \<open>efpg_frame.c\<close>; the task is a function of the
    results of its receive calls, UART, hash engine and heap are the parameter \<open>efpg_env\<close> with
    the hypotheses \<open>digests\<close> and \<open>obliging\<close>.  \<open>Efpg_Spec\<close> shows that nothing is programmed without
    a digest, \<open>Efpg_Exchange\<close> follows whole exchanges, \<open>Efpg_Sim\<close> is a concrete controller.

  A fourth part receives the network credentials of a new device, \<open>src/smartlink/smartconfig\<close>:

  \<^item> \<open>SmartConfig\<close>: the decoder of the multicast frames, the service around it and the
    acknowledgement; the AES engine is a parameter, calls of \<open>sc_assistant\<close> (a binary library) are
    logged, the wait loop appears as its first action, its test and its last action.
  \<^item> \<open>SmartConfig_Spec\<close>: the invariant \<open>sc_wf\<close> and that all frames keep it when there is no key.
  \<^item> \<open>SmartConfig_Sender\<close>: what a sender transmits (\<open>lead_codes\<close>, \<open>chunk_codes\<close>) and the phases of
    the receiver; \<open>SmartConfig_Run\<close> follows whole transmissions over the locale \<open>sc_phase\<close>, the
    contract the two receiving phases share; \<open>SmartConfig_Sim\<close> is a concrete transmission.

  A fifth part is the AT command interpreter, \<open>src/atcmd\<close>:

  \<^item> \<open>At_Queue\<close>: \<open>at_queue.c\<close>, the ring of input bytes, with its abstraction to a stream (\<open>pending\<close>) and
    the interface \<open>at_input\<close>, interpreted on it.
  \<^item> \<open>At_Para\<close>: \<open>at_parameter.c\<close>; a pointer into the command line is the memory from there on.
    \<open>At_Para_Spec\<close> says which printed values can be read back.
  \<^item> \<open>At_Command\<close>: \<open>at_config.c\<close>, \<open>at_common.c\<close> and \<open>at_command.c\<close>; \<open>at_turn\<close> is one turn of the endless loop
    of \<open>at_parse\<close>, \<open>at_turns\<close> counts them, and the theorems say that some number suffices.  The
    callback of the application and the handlers that only fill its parameters are the record
    \<open>at_app\<close>.  \<open>At_Command_Spec\<close> treats single lines, \<open>At_Lines\<close> follows them from the input over
    the interface, \<open>At_Sim\<close> is a concrete application.
  Not modelled: the chip drivers and the flash controller (register sequences), registration and
  power management of flash devices (board tables, clock trees), \<open>ota_reboot\<close> (a hardware
  reset), the bodies of the digest engines, of the file system and of the HTTP client
  (third-party code), debug output.
\<close>

section \<open>Over-the-air update\<close>

text \<open>
  C1.  On healthy hardware, finishing a push of an image whose sections are all intact returns
  OK exactly when the image is acceptable: there are no verify data behind its last section, or
  they name no algorithm, or they hold the digest of the pushed image.  In that case the boot
  configuration names the pushed slot as verified; otherwise no flash content changes at all.
  Nothing outside the configuration area is ever touched.
\<close>

theorem push_finish_switches_iff_accepted:
  assumes "ota_ready B st" "\<not> BOOTLOADER B" "\<not> POLICY_COMPRESSION B" "op_get_size st \<noteq> 0"
    and "rom_good ops cells (IMG_BL_FLASH (iop (o_img st))) (o_fs st)"
    and "rom_good ops cells (update_flash st) (o_fs st)"
    and "boot_area_ok (rom_good ops cells) dev_size (dev_mem cells) (iop (o_img st)) (o_fs st)"
    and "cfg_area_fits (iop (o_img st)) (dev_size (ucast (ota_flash (iop (o_img st)))) (o_fs st))"
    and "sound_chain IMAGE_CHECK_NORMAL (iop (o_img st)) (ota_get_update_seq st)
           (\<lambda>f. dev_mem cells f (o_fs st)) (\<lambda>f. dev_size f (o_fs st))
           (IMG_BL_FLASH (iop (o_img st))) (IMG_BL_ADDR (iop (o_img st)))"
    and "sound_chain IMAGE_CHECK_OTA (iop (o_img st)) (ota_get_update_seq st)
           (\<lambda>f. dev_mem cells f (o_fs st)) (\<lambda>f. dev_size f (o_fs st))
           (IMG_BL_FLASH (iop (o_img st))) (IMG_BL_ADDR (iop (o_img st)))"
    and "image_end (iop (o_img st)) (ota_get_update_seq st) (\<lambda>f. dev_mem cells f (o_fs st))
           (IMG_BL_FLASH (iop (o_img st))) (IMG_BL_ADDR (iop (o_img st))) pos"
    and "pos \<noteq> 0" "unat pos + 44 \<le> dev_size (update_flash st) (o_fs st)"
    and "engine_runs C absorbed H" "verified_fits (dev_size (update_flash st) (o_fs st)) st"
    and "accepted = image_accepted (dev_mem cells (update_flash st) (o_fs st)) st H pos"
  shows "\<exists>st'. ota_push_finish (rom_flash_if ops flag) B C st =
       Some (if accepted then OTA_STATUS_OK else OTA_STATUS_ERROR, st') \<and>
     same_service st st' \<and>
     store_frame (rom_good ops cells) dev_size (dev_mem cells) (ucast (ota_flash (iop (o_img st))))
       (unat (ota_addr (iop (o_img st)))) (unat (ota_size (iop (o_img st)))) (o_fs st) (o_fs st') \<and>
     (if accepted
      then cfg_stored (dev_mem cells (ucast (ota_flash (iop (o_img st)))) (o_fs st')) (iop (o_img st))
             (raw_of_seq (ota_get_update_seq st))
      else store_frame (rom_good ops cells) dev_size (dev_mem cells) 0 0 0 (o_fs st) (o_fs st'))"
  by (rule good.push_finish_sure [OF assms])

theorem push_finish_switches_iff_accepted_witness:
  "\<exists>st'. ota_push_finish (rom_flash_if sim_ops False) sim_build toy_crypto pushed_ota = Some (OTA_STATUS_OK, st') \<and>
     cfg_stored (dev_mem (\<lambda>c. c) 0 (o_fs st')) sim_iop (raw_of_seq 1)"
  using push_finish_switches_iff_accepted [of sim_build pushed_ota sim_ops "\<lambda>c. c" "0x100044" toy_crypto
      "\<lambda>alg h. h" "\<lambda>alg. toy_digest" True False]
  by (auto simp: sim_sound_chain sim_end toy_runs sim_accepted)

text \<open>
  C2.  Starting a push and pushing an image chunk by chunk, on healthy hardware, with an image
  that fits the slot behind the skipped bootloader: every call returns OK, the slot then holds
  the pushed bytes after the skipped ones, contiguously from its start, the rest of the slot is
  erased, and nothing outside the slot has changed.
\<close>

theorem pushed_image_is_stored:
  assumes "ota_ready B st" "rom_good ops cells (update_flash st) (o_fs st)" "op_get_size st = 0"
    and "unat (update_addr st) + unat (update_size B st) \<le> dev_size (update_flash st) (o_fs st)"
    and "4096 dvd unat (update_addr st)" "4096 dvd unat (update_size B st)"
    and "k = unat (ota_skip_size (default_skip B (iop (o_img st)) st))"
    and "k + unat (update_size B st) < 4294967296"
    and "length (concat chunks) \<le> k + unat (update_size B st)"
  shows "\<exists>st1 st2. ota_push_start (rom_flash_if ops flag) B st = Some (OTA_STATUS_OK, st1) \<and>
     push_chunks (rom_flash_if ops flag) B chunks st1 = Some (OTA_STATUS_OK, st2) \<and>
     unat (op_get_size st2) = length (concat chunks) \<and>
     content_read (dev_mem cells (update_flash st) (o_fs st2)) (unat (update_addr st))
       (length (concat chunks) - k) = drop k (concat chunks) \<and>
     erased (dev_mem cells (update_flash st) (o_fs st2))
       (unat (update_addr st) + (length (concat chunks) - k))
       (unat (update_size B st) - (length (concat chunks) - k)) \<and>
     store_frame (rom_good ops cells) dev_size (dev_mem cells) (update_flash st)
       (unat (update_addr st)) (unat (update_size B st)) (o_fs st) (o_fs st2)"
  using good.push_session_sure [OF assms] .

theorem pushed_image_is_stored_witness:
  "\<exists>st1 st2. ota_push_start (rom_flash_if sim_ops False) sim_build (sim_ota 4 blank) = Some (OTA_STATUS_OK, st1) \<and>
     push_chunks (rom_flash_if sim_ops False) sim_build [[1, 2, 3], [4, 5, 6, 7]] st1 = Some (OTA_STATUS_OK, st2) \<and>
     content_read (dev_mem (\<lambda>c. c) 0 (o_fs st2)) 0x100000 3 = [5, 6, 7]"
proof -
  have len: "length (concat [[1, 2, 3], [4, 5, 6, 7 :: u8]]) = 7"
    and rest: "drop 4 (concat [[1, 2, 3], [4, 5, 6, 7 :: u8]]) = [5, 6, 7]" by simp_all
  have skip: "(4 :: nat) = unat (ota_skip_size (default_skip sim_build (iop (o_img (sim_ota 4 blank))) (sim_ota 4 blank)))"
    by simp
  show ?thesis
    using pushed_image_is_stored [OF _ _ _ _ _ _ skip, of sim_ops "\<lambda>c. c" "[[1, 2, 3], [4, 5, 6, 7]]" False,
        unfolded len rest]
    by (simp del: concat.simps content_read_0) blast
qed

text \<open>
  C3.  A chunk that does not fit the slot any more is rejected with an error and the flash is
  left as it was, whatever the hardware does.
\<close>

theorem push_data_rejects_what_does_not_fit:
  assumes "ota_ready B st" "rom_ok ops cells (update_flash st) (o_fs st)"
    and "unat (update_addr st) + unat (update_size B st) \<le> dev_size (update_flash st) (o_fs st)"
    and "unat (ota_skip_size st) + unat (update_size B st) < 4294967296"
    and "length data < 4294967296"
    and "push_inv B (dev_mem cells (update_flash st) (o_fs st)) st pushed"
    and "length pushed + length data > unat (ota_skip_size st) + unat (update_size B st)"
  shows "\<exists>st'. ota_push_data (rom_flash_if ops flag) B data st = Some (OTA_STATUS_ERROR, st') \<and>
     o_fs st' = o_fs st \<and> same_service st st'"
  using rom.push_data_law [OF assms(1-6), of flag] assms(7) by blast

theorem push_data_rejects_what_does_not_fit_witness:
  "\<exists>st'. ota_push_data (rom_flash_if sim_ops False) sim_build (replicate 0x10001 7) (sim_ota 0 blank) =
     Some (OTA_STATUS_ERROR, st') \<and> o_fs st' = sim_hal blank"
  using push_data_rejects_what_does_not_fit [of sim_build "sim_ota 0 blank" sim_ops "\<lambda>c. c" "replicate 0x10001 7" "[]" False]
  by (auto simp: push_inv_def)

text \<open>
  C4.  Verifying the pushed image with an algorithm and a digest returns OK exactly when the
  digest of the slot's content is the given one (or no algorithm is asked for), and then the
  boot configuration names the pushed slot; a rejected image changes no flash content.
\<close>

theorem verify_image_accepts_iff_digest_matches:
  assumes "ota_ready B st" "\<not> BOOTLOADER B" "\<not> POLICY_COMPRESSION B"
    and "rom_good ops cells (update_flash st) (o_fs st)" "op_get_size st \<noteq> 0"
    and "boot_area_ok (rom_good ops cells) dev_size (dev_mem cells) (iop (o_img st)) (o_fs st)"
    and "cfg_area_fits (iop (o_img st)) (dev_size (ucast (ota_flash (iop (o_img st)))) (o_fs st))"
    and "digest_size alg \<le> length expected" "engine_runs C absorbed H"
    and "verified_fits (dev_size (update_flash st) (o_fs st)) st"
    and "matches \<longleftrightarrow> alg = OTA_VERIFY_NONE \<or>
           digest_matches (dev_mem cells (update_flash st) (o_fs st)) st H alg expected"
  shows "\<exists>st'. ota_verify_image (rom_flash_if ops flag) B C (Some alg) (Some expected) st =
       Some (if matches then OTA_STATUS_OK else OTA_STATUS_ERROR, st') \<and>
     (if matches
      then cfg_stored (dev_mem cells (ucast (ota_flash (iop (o_img st)))) (o_fs st')) (iop (o_img st))
             (raw_of_seq (ota_get_update_seq st))
      else store_frame (rom_good ops cells) dev_size (dev_mem cells) 0 0 0 (o_fs st) (o_fs st'))"
proof -
  have v: "\<forall>a d. Some alg = Some a \<and> Some expected = Some d \<longrightarrow> digest_size a \<le> length d" using assms(8) by simp
  have m: "accepts_image (dev_mem cells (update_flash st) (o_fs st)) st H (Some alg) (Some expected) = matches"
    using assms(11) by (simp add: accepts_image_def)
  show ?thesis
    using good.verify_image_sure [OF assms(1-7) v _ assms(9), of flag] assms(10)
      good.verify_image_law [OF assms(1-4,6) v, of flag C]
    by (fastforce simp: m)
qed

theorem verify_image_accepts_iff_digest_matches_witness:
  "\<exists>st'. ota_verify_image (rom_flash_if sim_ops False) sim_build toy_crypto (Some OTA_VERIFY_CRC32)
       (Some (toy_digest app_bytes)) pushed_ota = Some (OTA_STATUS_OK, st') \<and>
     cfg_stored (dev_mem (\<lambda>c. c) 0 (o_fs st')) sim_iop (raw_of_seq 1)"
  using verify_image_accepts_iff_digest_matches [of sim_build pushed_ota sim_ops "\<lambda>c. c" OTA_VERIFY_CRC32
      "toy_digest app_bytes" toy_crypto "\<lambda>alg h. h" "\<lambda>alg. toy_digest" True False]
  by (auto simp: toy_runs digest_matches_def sim_flash_reads digest_size_def toy_digest_def)



text \<open>
  C6.  The sequence an update goes to is never the running one.
\<close>

theorem update_never_targets_running_image:
  assumes "ota_get_update_seq st \<noteq> IMAGE_SEQ_NUM"
  shows "ota_get_update_seq st < IMAGE_SEQ_NUM \<and> ota_get_update_seq st \<noteq> running_seq (iop (o_img st)) \<and>
     running_seq (iop (o_img st)) < IMAGE_SEQ_NUM"
  using update_seq_valid [OF assms] update_seq_other by blast

theorem update_never_targets_running_image_witness:
  "ota_get_update_seq (sim_ota 0 blank) \<noteq> running_seq (iop (o_img (sim_ota 0 blank)))"
  using update_never_targets_running_image [of "sim_ota 0 blank"] by simp



section \<open>Boot configuration\<close>

text \<open>
  C8.  On healthy hardware, setting the boot configuration to a slot and reading it back
  returns that slot as verified, and so does the choice of the running sequence at the next
  start; only the configuration's area changes.
\<close>

theorem boot_config_round_trip:
  assumes "rom_good ops cells (ucast (ota_flash (iop img))) s"
    and "cfg_area_fits (iop img) (dev_size (ucast (ota_flash (iop img))) s)"
    and "cfg_area_ready (dev_mem cells (ucast (ota_flash (iop img))) s)
           (unat (ota_addr (iop img))) (ota_size (iop img))"
    and "sq < IMAGE_SEQ_NUM"
  shows "\<exists>s1. image_set_cfg (rom_flash_if ops flag) img
         (Some \<lparr>cfg_seq = sq, cfg_state = IMAGE_STATE_VERIFIED\<rparr>) s = Some (0, s1) \<and>
     store_frame (rom_good ops cells) dev_size (dev_mem cells) (ucast (ota_flash (iop img)))
       (unat (ota_addr (iop img))) (unat (ota_size (iop img))) s s1 \<and>
     (\<exists>s2. image_get_cfg (rom_flash_if ops flag) img (Some c) s1 =
         Some (0, Some \<lparr>cfg_seq = sq, cfg_state = IMAGE_STATE_VERIFIED\<rparr>, s2)) \<and>
     (\<exists>s2. image_init_running_seq (rom_flash_if ops flag) img s1 = Some (sq, s2))"
  using good.cfg_round_trip [OF assms] .

theorem boot_config_round_trip_witness:
  "\<exists>s1 s2. image_set_cfg (rom_flash_if sim_ops False) sim_img
         (Some \<lparr>cfg_seq = 1, cfg_state = IMAGE_STATE_VERIFIED\<rparr>) (sim_hal blank) = Some (0, s1) \<and>
     image_init_running_seq (rom_flash_if sim_ops False) sim_img s1 = Some (1, s2)"
  using boot_config_round_trip [of sim_ops "\<lambda>c. c" sim_img "sim_hal blank" 1 False]
    blank_cfg_ready [of "0x1000" "0xFF000"]
  by (simp add: word_less_nat_alt) blast

section \<open>Section checks\<close>

text \<open>
  C9.  On healthy hardware, an image all of whose sections lie in their device and are intact
  is reported valid.
\<close>

theorem sound_image_is_valid:
  assumes "sound_chain IMAGE_CHECK_NORMAL (iop img) sq (\<lambda>f. dev_mem cells f s) (\<lambda>f. dev_size f s)
             (IMG_BL_FLASH (iop img)) (IMG_BL_ADDR (iop img))"
    and "rom_good ops cells (IMG_BL_FLASH (iop img)) s"
    and "rom_good ops cells (ucast (iop_flash (iop img) ! unat sq)) s"
    and "unat sq < length (iop_flash (iop img))"
  shows "\<exists>s'. image_check_sections (rom_flash_if ops flag) sq img s = Some (IMAGE_VALID, s')"
  using good.check_all_sure [OF assms, of flag] unfolding image_check_sections_def by blast

theorem sound_image_is_valid_witness:
  "\<exists>s'. image_check_sections (rom_flash_if sim_ops False) 1 sim_img (sim_hal sim_flash) = Some (IMAGE_VALID, s')"
  using sound_image_is_valid [of sim_img 1 "\<lambda>c. c" "sim_hal sim_flash" sim_ops False]
  by (simp add: sim_sound_chain sim_iop_flash)



text \<open>
  C11.  The check returns for every image whose chain of sections ends, whatever fails
  underneath.
\<close>

theorem section_check_returns:
  assumes "finite_chain IMAGE_CHECK_NORMAL (iop img) sq (\<lambda>f. dev_mem cells f s)
             (IMG_BL_FLASH (iop img)) (IMG_BL_ADDR (iop img))"
    and "rom_ok ops cells (IMG_BL_FLASH (iop img)) s"
    and "rom_ok ops cells (ucast (iop_flash (iop img) ! unat sq)) s"
    and "unat sq < length (iop_flash (iop img))"
  shows "\<exists>v s'. image_check_sections (rom_flash_if ops flag) sq img s = Some (v, s')"
  using rom.check_sections_law [OF assms(2,3,4,1), of flag] by blast

theorem section_check_returns_witness:
  "\<exists>v s'. image_check_sections (rom_flash_if sim_ops False) 1 sim_img (sim_hal sim_flash) = Some (v, s')"
  using section_check_returns [of sim_img 1 "\<lambda>c. c" "sim_hal sim_flash" sim_ops False]
  by (simp add: sim_finite_chain sim_iop_flash)

section \<open>The chunk store\<close>

text \<open>
  C12.  On healthy hardware, writing any number of chunks to an area of the store and reading
  afterwards returns the last one, also when the area fills up and is erased in between;
  nothing outside the area changes.
\<close>

theorem store_returns_last_chunk:
  assumes "rom_good ops cells (fh_flash hdl) s" "fdcm_usable hdl (dev_size (fh_flash hdl) s) ds"
    and "unat (fh_size hdl) \<le> 524288" "\<forall>x \<in> set chunks. length x = unat ds" "chunks \<noteq> []"
    and "fdcm_ready (dev_mem cells (fh_flash hdl) s) (unat (fh_addr hdl)) (fh_size hdl) ds"
    and "length buf = unat ds"
  shows "\<exists>s1 s2. fdcm_write_all (rom_flash_if ops flag) hdl ds chunks s = Some (True, s1) \<and>
     rom_fdcm_read (rom_flash_if ops flag) (Some hdl) (Some buf) ds s1 = Some (ucast ds, Some (last chunks), s2) \<and>
     store_frame (rom_good ops cells) dev_size (dev_mem cells) (fh_flash hdl)
       (unat (fh_addr hdl)) (unat (fh_size hdl)) s s2"
  using good.fdcm_history [OF assms] .

theorem store_returns_last_chunk_witness:
  "\<exists>s1 s2. fdcm_write_all (rom_flash_if sim_ops False) sim_hdl 2 [[1, 2], [3, 4], [5, 6]] (sim_hal blank) = Some (True, s1) \<and>
     rom_fdcm_read (rom_flash_if sim_ops False) (Some sim_hdl) (Some [0, 0]) 2 s1 = Some (2, Some [5, 6], s2)"
  using store_returns_last_chunk [of sim_ops "\<lambda>c. c" sim_hdl "sim_hal blank" 2 "[[1, 2], [3, 4], [5, 6]]" "[0, 0]" False]
  by (simp add: sim_hdl_usable sim_hdl_ready del: fdcm_write_all.simps) blast

text \<open>
  C13.  A write to the store never leaves its area, whatever fails underneath and whatever the
  area holds, as long as its header is unusable or names a bitmap the store itself could have
  chosen; it returns the chunk's size or 0.
\<close>

theorem store_write_confined:
  assumes "rom_ok ops cells (fh_flash hdl) s" "fdcm_area hdl (dev_size (fh_flash hdl) s)"
    and "unat ds \<le> length data"
    and "h = fdcm_header_of_bytes (content_read (dev_mem cells (fh_flash hdl) s) (unat (fh_addr hdl)) 8)"
    and "header_invalid h ds (fh_size hdl) \<or> unat (bitmap_size h) \<le> 1024"
  shows "\<exists>r s'. rom_fdcm_write (rom_flash_if ops flag) (Some hdl) (Some data) ds s = Some (r, s') \<and>
     (r = ucast ds \<or> r = 0) \<and>
     store_frame (rom_ok ops cells) dev_size (dev_mem cells) (fh_flash hdl)
       (unat (fh_addr hdl)) (unat (fh_size hdl)) s s'"
  using rom.fdcm_write_law [OF assms refl refl, of flag] by blast

theorem store_write_confined_witness:
  "\<exists>r s'. rom_fdcm_write (rom_flash_if sim_ops False) (Some sim_hdl) (Some [1, 2]) 2 (sim_hal blank) = Some (r, s') \<and>
     (r = 2 \<or> r = 0)"
  using store_write_confined [of sim_ops "\<lambda>c. c" sim_hdl "sim_hal blank" 2 "[1, 2]" _ False, OF _ _ _ refl]
    sim_hdl_invalid by (simp add: fdcm_area_def) blast

section \<open>The flash driver and its areas\<close>

text \<open>
  C14.  Erasing, writing and reading back an area of whole 4 KB blocks on healthy hardware:
  all three return success, the data come back, and nothing outside the area has changed.
\<close>

theorem flash_write_reads_back:
  assumes "rom_good ops cells fl s" "4096 dvd unat a" "4096 dvd unat n" "n \<noteq> 0"
    and "unat a + unat n \<le> dev_size fl s" "length data = unat n" "length buf = unat n"
  shows "\<exists>s1 s2 s3. rom_flash_erase ops fl a n s = Some (0, s1) \<and>
     flash_write ops flag fl a data n s1 = Some (n, s2) \<and>
     flash_read ops fl a buf n s2 = Some (n, data, s3) \<and>
     store_frame (rom_good ops cells) dev_size (dev_mem cells) fl (unat a) (unat n) s s3"
proof -
  obtain s1 where 1: "rom_flash_erase ops fl a n s = Some (0, s1)"
    "store_frame (rom_good ops cells) dev_size (dev_mem cells) fl (unat a) (unat n) s s1"
    "dev_mem cells fl s1 = nor_erase (dev_mem cells fl s) (unat a) (unat n)"
    using good.erase_sure [OF assms(1-3,5), of False] by auto
  note g1 = store_frame_ok [OF 1(2) assms(1)] and d1 = store_frame_dsize [OF 1(2), of fl]
  obtain s2 where 2: "flash_write ops flag fl a data n s1 = Some (n, s2)"
    "store_frame (rom_good ops cells) dev_size (dev_mem cells) fl (unat a) (unat n) s1 s2"
    "dev_mem cells fl s2 = nor_program (dev_mem cells fl s1) (unat a) data"
    using good.write_sure [OF g1 _ assms(4), of data a flag] assms(5,6) d1 by auto
  note g2 = store_frame_ok [OF 2(2) g1] and d2 = store_frame_dsize [OF 2(2), of fl]
  obtain s3 where 3: "flash_read ops fl a buf n s2 = Some (n, content_read (dev_mem cells fl s2) (unat a) (unat n), s3)"
    "store_frame (rom_good ops cells) dev_size (dev_mem cells) fl 0 0 s2 s3"
    using good.read_sure [OF g2 _ assms(4), of buf a False] assms(5,7) d1 d2 by auto
  have "content_read (dev_mem cells fl s2) (unat a) (unat n) = data"
    unfolding 2(3) 1(3) using program_erased_range [of _ "unat a" data] assms(6) place_read_in [of "unat a" "unat a" "unat n" data]
    by simp
  then show ?thesis
    using 1 2 3 store_frame_trans [OF store_frame_trans [OF 1(2) 2(2)] store_frame_none [OF 3(2)]] by blast
qed

theorem flash_write_reads_back_witness:
  "\<exists>s1 s2 s3. rom_flash_erase sim_ops 0 0x1000 0x1000 (sim_hal blank) = Some (0, s1) \<and>
     flash_write sim_ops False 0 0x1000 (replicate 4096 7) 0x1000 s1 = Some (0x1000, s2) \<and>
     flash_read sim_ops 0 0x1000 (replicate 4096 0) 0x1000 s2 = Some (0x1000, replicate 4096 7, s3)"
  using flash_write_reads_back [of sim_ops "\<lambda>c. c" 0 "sim_hal blank" "0x1000" "0x1000"
      "replicate 4096 7" "replicate 4096 0" False] by simp blast



text \<open>
  C16.  Overwriting an arbitrary range on healthy hardware (read the 4 KB block, erase it, write
  it back with the new bytes, block by block) returns success and replaces exactly the range:
  all other bytes of the blocks involved keep their values.
\<close>

theorem overwrite_replaces_range:
  assumes "rom_good ops cells fl s" "block_device fl s"
    and "unat a + unat n \<le> dev_size fl s" "n \<noteq> 0" "length data = unat n"
  shows "\<exists>s'. HAL_Flash_Overwrite ops flag fl a data n s = Some (HAL_OK, s') \<and>
     store_frame (rom_good ops cells) dev_size (dev_mem cells) fl 0 (dev_size fl s) s s' \<and>
     dev_mem cells fl s' = place (unat a) data (dev_mem cells fl s)"
  by (rule Overwrite_replaces [OF assms])

theorem overwrite_replaces_range_witness:
  "\<exists>s'. HAL_Flash_Overwrite sim_ops False 0 4095 [1, 2] 2 (sim_hal blank) = Some (HAL_OK, s') \<and>
     dev_mem (\<lambda>c. c) 0 s' = place 4095 [1, 2] blank"
  using overwrite_replaces_range [of sim_ops "\<lambda>c. c" 0 "sim_hal blank" 4095 2 "[1, 2]" False]
  by (simp add: block_device_def) blast

section \<open>The system event service\<close>





text \<open>
  C19.  Whatever the callbacks do to the publisher while a notification walks its list (attach
  observers of a finite set, detach observers that are in the list), the notification returns,
  and the list is well formed again, with no observer left marked for removal.
\<close>

theorem notification_returns_consistent:
  assumes "disciplined U trig" "finite U" "pub_ok xs p" "set xs \<subseteq> U"
  shows "\<exists>c q zs. pub_notify trig cmp e a p = Some (c, q) \<and> pub_ok zs q \<and> set zs \<subseteq> U \<and>
     pb_state q = PUBLISHER_IDLE \<and> 0 \<le> c \<and> c \<le> int (card U)"
  by (rule notify_returns [OF assms])

theorem notification_returns_consistent_witness:
  "\<exists>c q zs. pub_notify leave_trig sys_compare (MK_EVENT 1 2) 5 two_pub = Some (c, q) \<and> pub_ok zs q \<and> c \<le> 2"
  using notification_returns_consistent [of "{0, 1}" leave_trig "[0, 1]" two_pub sys_compare "MK_EVENT 1 2" 5]
  by (simp add: leave_disciplined two_ok del: One_nat_def) blast



text \<open>
  C21.  Attaching an observer that is not in the list appends it and reports success, and
  detaching an observer between notifications takes it out and leaves the others in their order:
  the pointer operations refine the operations on sequences.
\<close>

theorem attach_and_detach_refine_sequences:
  assumes "pub_ok xs p" "pb_state p = PUBLISHER_IDLE" "x \<notin> set xs"
  shows "fst (attach x p) = 0 \<and> pub_ok (xs @ [x]) (snd (attach x p)) \<and>
     fst (detach y p) = 0 \<and> pub_ok (removeAll y xs) (snd (detach y p))"
proof -
  have "fst (detach y p) = 0" by (simp add: detach_def)
  then show ?thesis
    using attach_new [OF assms(1,3), of False] detach_idle [OF assms(1,2), of y] unfolding attach_def by blast
qed

theorem attach_and_detach_refine_sequences_witness:
  "pub_ok [0, 1, 2] (snd (attach 2 two_pub)) \<and> pub_ok [1] (snd (detach 0 two_pub))"
  using attach_and_detach_refine_sequences [OF two_ok, of 2 0] by simp





section \<open>Serial console\<close>

text \<open>
  C24.  Lines arrive in the receive interrupt and are executed by the console task; whatever the
  order in which data, interrupts, turns of the task, disabling and enabling follow each other
  after a successful start, and as long as no rubout is sent, the task has executed a prefix of
  the lines completed so far, each once, in order and unchanged; the others are at most two, one
  release of the semaphore for each; and the interrupt can always return.
\<close>

theorem console_executes_lines_in_order:
  assumes "console_started s" "console_run s t"
  shows "\<exists>rest. cn_lines (sy_console t) = sy_executed t @ rest \<and> length rest = cn_sem (sy_console t) \<and> length rest \<le> 2 \<and>
     (cn_rx_idx (sy_console t) = 2 \<longrightarrow> rest \<noteq> []) \<and> (\<exists>c. console_rx_callback (sy_console t) = Some c)"
  using inv_order [OF run_inv [OF assms(2,1)]] by blast

definition stopped_console :: console_priv where
  "stopped_console = \<lparr>cn_state = CONSOLE_STATE_STOP, cn_free = [False, False], cn_ready = [False, False], cn_last = 0,
     cn_rx_idx = 0, cn_rx_cnt = 0, cn_buf = replicate 512 0, cn_sem = 0, cn_rx_data = None, cn_uart = [], cn_tx = [],
     cn_rx_enabled = False, cn_lines = []\<rparr>"

definition fresh_console :: console_sys where
  "fresh_console = \<lparr>sy_console = snd (console_start True True stopped_console), sy_task = T_wait, sy_executed = []\<rparr>"

lemma fresh_console_started: "console_started fresh_console"
proof -
  have "console_start True True stopped_console = (0, sy_console fresh_console) \<and> length (cn_buf stopped_console) = 512 \<and>
      cn_lines stopped_console = []"
    by (simp add: fresh_console_def console_start_def stopped_console_def)
  moreover have "no_rubout (sy_console fresh_console)" "sy_task fresh_console = T_wait" "sy_executed fresh_console = []"
    by (simp_all add: fresh_console_def console_start_def stopped_console_def no_rubout_def incoming_def)
  ultimately show ?thesis unfolding console_started_def by blast
qed

lemma fresh_console_typing: "typing [] (sy_console fresh_console)"
  by (simp add: typing_def fresh_console_def console_start_def stopped_console_def)

theorem console_executes_lines_in_order_witness:
  "\<exists>t. console_run fresh_console t \<and> sy_executed t = [] \<and> cn_lines (sy_console t) = [[0x61]] \<and> cn_sem (sy_console t) = 1"
proof -
  let ?c = "sy_console fresh_console"
  define s1 where "s1 = fresh_console\<lparr>sy_console := ?c\<lparr>cn_uart := [0x61]\<rparr>\<rparr>"
  define s2 where "s2 = fresh_console\<lparr>sy_console := ?c\<lparr>cn_uart := [0x61, 0x0A]\<rparr>\<rparr>"
  have fresh: "cn_uart ?c = []" "cn_rx_enabled ?c" "cn_rx_data ?c = None" "cn_rx_cnt ?c = 0" "cn_lines ?c = []"
    by (simp_all add: fresh_console_def console_start_def stopped_console_def)
  have "console_step fresh_console s1" "console_step s1 s2"
    using arrive [of fresh_console "0x61"] arrive [of s1 "0x0A"] fresh by (simp_all add: s1_def s2_def)
  moreover have "no_rubout (sy_console s1)" "no_rubout (sy_console s2)"
    by (simp_all add: no_rubout_def incoming_def s1_def s2_def fresh)
  ultimately have run: "console_run fresh_console s2" using console_run.intros by blast
  obtain e where e: "console_rx_callback (sy_console s2) = Some e" "cn_lines e = [[0x61]]" "cn_uart e = []"
    using typed_line [of "[]" "sy_console s2" "[0x61]" "[]"] fresh_console_typing fresh
    by (auto simp: s2_def typing_uart isprint_def)
  have "no_rubout e"
    using run_inv [OF run fresh_console_started] interrupt_inv e(1) by (fastforce simp: sys_inv_def)
  moreover have "console_step s2 (s2\<lparr>sy_console := e\<rparr>)"
    using interrupt [OF _ e(1)] fresh by (simp add: s2_def)
  ultimately have "console_run fresh_console (s2\<lparr>sy_console := e\<rparr>)" using console_run.step [OF run] by simp
  then show ?thesis
    using console_executes_lines_in_order [OF fresh_console_started, of "s2\<lparr>sy_console := e\<rparr>"] e(2)
    by (auto simp: s2_def fresh_console_def)
qed

text \<open>
  C25.  A line of printable characters that fits the buffer, in whatever pieces the interrupts
  receive it, is handed to the task exactly as it was typed, echoed character by character and
  closed by a carriage return and a line feed, and the count starts again at zero.
\<close>

theorem typed_line_is_handed_over:
  assumes "length (cn_buf c) = 512" "cn_rx_idx c < 2" "cn_rx_data c = None" "cn_rx_cnt c = 0" "cn_uart c = []"
    and "\<forall>d \<in> set (concat ss @ s). isprint d" "length (concat ss @ s) < 256"
  shows "\<exists>e. receive (ss @ [s @ [0x0A]]) c = Some e \<and> cn_lines e = cn_lines c @ [concat ss @ s] \<and>
     cn_tx e = cn_tx c @ concat ss @ s @ [0x0D, 0x0A] \<and> cn_uart e = [] \<and> cn_rx_cnt e = 0"
proof -
  have "typing [] c" using assms(1-3) by (simp add: typing_def)
  then show ?thesis using typed_in_pieces [of "[]" c ss s] assms(4-7) by auto
qed

theorem typed_line_is_handed_over_witness:
  "\<exists>e. receive [[0x6C], [], [0x73, 0x0A]] (sy_console fresh_console) = Some e \<and> cn_lines e = [[0x6C, 0x73]]"
  using typed_line_is_handed_over [of "sy_console fresh_console" "[[0x6C], []]" "[0x73]"]
  by (auto simp: fresh_console_def console_start_def stopped_console_def isprint_def simp del: receive.simps)

section \<open>Settings of the device\<close>

text \<open>
  C26.  Saving the settings on healthy hardware succeeds, and the next start, whatever the
  memory holds by then, succeeds and finds them: exactly as saved when the MAC address comes
  from the flash, otherwise with the address of the configured source; nothing outside the area
  changes.
\<close>

theorem settings_survive_restart:
  assumes "rom_good ops cells (conf_flash conf) s" "conf_fits conf L (dev_size (conf_flash conf) s)" "opened conf p"
    and "fdcm_ready (dev_mem cells (conf_flash conf) s) (unat (conf_addr conf)) (conf_size conf) (lsize L)"
    and "\<not> area_overlaps (pingpong conf) ip (conf_addr conf)" "sysinfo_wf (g_sysinfo p)" "sysinfo_wf (g_sysinfo p')"
  shows "\<exists>s1 q s2. sysinfo_save (rom_flash_if ops flag) L p s = Some (0, s1) \<and>
     sysinfo_init (rom_flash_if ops flag) L conf ip rand p' s1 = Some (0, q, s2) \<and>
     g_sysinfo q = (if mac_source conf = 3 then g_sysinfo p else (g_sysinfo p)\<lparr>mac_addr := mac_of conf rand\<rparr>) \<and>
     store_frame (rom_good ops cells) dev_size (dev_mem cells) (conf_flash conf) (unat (conf_addr conf)) (unat (conf_size conf)) s s2"
  by (rule good.save_and_restart [OF assms])

theorem settings_survive_restart_witness:
  "\<exists>s1 q s2. sysinfo_save (rom_flash_if sim_ops False) sim_layout (zero_info\<lparr>g_fdcm_hdl := Some (conf_hdl (sim_conf 3))\<rparr>) (sim_hal blank) = Some (0, s1) \<and>
     sysinfo_init (rom_flash_if sim_ops False) sim_layout (sim_conf 3) high_iop [1, 2, 3, 4, 5, 6] zero_info s1 = Some (0, q, s2) \<and>
     g_sysinfo q = sysinfo_zero"
proof -
  have "fdcm_ready blank 0x100000 0x1000 233" using sim_hdl_invalid by (simp add: fdcm_ready_def)
  moreover have "opened (sim_conf 3) (zero_info\<lparr>g_fdcm_hdl := Some (conf_hdl (sim_conf 3))\<rparr>)"
    "g_sysinfo zero_info = sysinfo_zero" "sysinfo_wf sysinfo_zero"
    using zero_info_wf by (simp_all add: opened_def zero_info_def)
  ultimately show ?thesis
    using settings_survive_restart [of sim_ops "\<lambda>c. c" "sim_conf 3" "sim_hal blank" sim_layout
        "zero_info\<lparr>g_fdcm_hdl := Some (conf_hdl (sim_conf 3))\<rparr>" high_iop zero_info False "[1, 2, 3, 4, 5, 6]"]
      sim_conf_fits high_iop_free by simp blast
qed



section \<open>eFuses\<close>

text \<open>
  C28.  The eFuse driver against single bits, on a controller whose fuses all work: writing range
  \<open>a\<close>, \<open>n\<close> sets exactly the bits asked for and no other, the caller's buffer loses the bits
  behind the last one, and reading any range afterwards delivers those bits, lowest first, and
  leaves the rest of the buffer alone.
\<close>

theorem efuse_accesses_are_bitwise:
  assumes "hal_idle True hw cells s" "n \<noteq> 0" "unat a + unat n \<le> 1024" "(unat n + 7) div 8 \<le> length d"
    and "m \<noteq> 0" "unat b + unat m \<le> 1024" "(unat m + 7) div 8 \<le> length buf"
  shows "\<exists>s'. HAL_EFUSE_Write hw a n d s = Some (HAL_OK, mask_last n d, s') \<and> hal_idle True hw cells s' \<and>
     (\<forall>k. hal_fuses cells s' k = (hal_fuses cells s k \<or> unat a \<le> k \<and> k < unat a + unat n \<and> buf_bit d (k - unat a))) \<and>
     HAL_EFUSE_Read hw b m buf s' =
       Some (HAL_OK, fuse_bytes (hal_fuses cells s') (unat b) (unat m) @ drop ((unat m + 7) div 8) buf,
             s'\<lparr>gEfuseState := EFUSE_STATE_READY\<rparr>)"
proof -
  have "0 < unat n" using assms(2) by (simp add: unat_gt_0)
  then have "(unat n - 1) div 8 < length d" using assms(4) div_add_self2 [of 8 "unat n - 1"] by simp
  then obtain s' where w: "HAL_EFUSE_Write hw a n d s = Some (HAL_OK, mask_last n d, s')" "hal_idle True hw cells s'"
    "burns True (\<lambda>k. unat a \<le> k \<and> k < unat a + unat n \<and> buf_bit d (k - unat a)) (hal_fuses cells s) (hal_fuses cells s')"
    using hal_write_burns [OF assms(1-3)] by blast
  show ?thesis using w hal_read_bytes [OF w(2) assms(5-7)] by (auto simp: burns_def)
qed

theorem efuse_accesses_are_bitwise_witness:
  "\<exists>s'. HAL_EFUSE_Write sim_fuse_hw 30 5 [0xFF] sim_efuse = Some (HAL_OK, mask_last 5 [0xFF], s') \<and>
     hal_fuses (\<lambda>e. e) s' 33 \<and>
     HAL_EFUSE_Read sim_fuse_hw 29 4 [0] s' =
       Some (HAL_OK, fuse_bytes (hal_fuses (\<lambda>e. e) s') 29 4, s'\<lparr>gEfuseState := EFUSE_STATE_READY\<rparr>)"
proof -
  have "bit (0xFF :: u8) 3" by (simp add: bit_numeral_rec)
  then show ?thesis
    using efuse_accesses_are_bitwise [OF sim_efuse_idle, of 5 30 "[0xFF]" 4 29 "[0]"] by (auto simp: buf_bit_def)
qed



text \<open>
  C30.  The programming task over any sequence of receptions, from a control block of any content:
  if a fuse has changed in the end, then one of the receptions delivered a data frame that ends
  with the digest of an earlier received command, its own data and the key.
\<close>

theorem fuses_change_only_when_authenticated:
  assumes "hal_idle sure hw cells (ep_fuse st)" "buffers_ok (ep_priv st)" "digests E absorbed H"
    and "efpg_task E (hal_fuse_if hw) evs st = Some (go, st')"
    and "hal_fuses cells (ep_fuse st') \<noteq> hal_fuses cells (ep_fuse st)"
  shows "\<exists>i j c f n. i < j \<and> j < length evs \<and> evs ! i = Some c \<and> evs ! j = Some f \<and>
     authentic H (take (unat (key_len (ep_priv st))) (key (ep_priv st))) (take 8 c) (take n f)"
  using hal.task_effect [OF assms] unfolding signed_pair_def .

theorem fuses_change_only_when_authenticated_witness:
  "\<exists>st'. efpg_task sim_efpg_env (hal_fuse_if sim_fuse_hw) sim_hosc_frames sim_efpg = Some (True, st') \<and>
    hal_fuses (\<lambda>e. e) (ep_fuse st') 387 \<and>
    (\<exists>i j c f n. i < j \<and> j < length sim_hosc_frames \<and> sim_hosc_frames ! i = Some c \<and> sim_hosc_frames ! j = Some f \<and>
      authentic sim_hash (replicate 8 7) (take 8 c) (take n f))"
proof -
  obtain st' where t: "efpg_task sim_efpg_env (hal_fuse_if sim_fuse_hw) sim_hosc_frames sim_efpg = Some (True, st')"
    "hal_fuses (\<lambda>e. e) (ep_fuse st') 387"
    using sim_hosc_exchange by blast
  have ch: "hal_fuses (\<lambda>e. e) (ep_fuse st') \<noteq> hal_fuses (\<lambda>e. e) (ep_fuse sim_efpg)"
    using t(2) sim_efuse_blank sim_efpg_ok(2) by metis
  have "hal_idle True sim_fuse_hw (\<lambda>e. e) (ep_fuse sim_efpg)" unfolding sim_efpg_ok(2) by (rule sim_efuse_idle)
  from fuses_change_only_when_authenticated [OF this sim_efpg_ok(1) sim_digests t(1) ch, unfolded sim_efpg_ok(3)]
  have "\<exists>i j c f n. i < j \<and> j < length sim_hosc_frames \<and> sim_hosc_frames ! i = Some c \<and> sim_hosc_frames ! j = Some f \<and>
      authentic sim_hash (replicate 8 7) (take 8 c) (take n f)" .
  with t show ?thesis by (intro exI [of _ st'] conjI)
qed

text \<open>
  C31.  A command to write a field and the data frame that carries its digest: both are answered,
  the field is written out of the frame, the second answer is the code of the writing, and the
  task waits for the next command.
\<close>

theorem authenticated_write_is_carried_out:
  assumes "obliging E absorbed H sent" "buffers_ok (ep_priv st)" "field_of_type t = Some (fld, n)"
    and "length f = unat n" "authentic H (take (unat (key_len (ep_priv st))) (key (ep_priv st))) (tool_cmd 0xF00F t n x) f"
    and "efpg_write_field F fld (f @ drop (unat n) (data_frame (ep_priv st))) 0 0 (ep_fuse st) = Some (status, d, s)"
  shows "\<exists>st'. efpg_task E F [Some (tool_cmd 0xF00F t n x), Some f] st = Some (True, st') \<and> ep_fuse st' = s \<and>
     sent (ep_env st') = sent (ep_env (call_cb (start_cb E) st)) @ [ack_bytes EFPG_ACK_OK, ack_bytes status]"
  using write_exchange [OF assms] by blast

theorem authenticated_write_is_carried_out_witness:
  "\<exists>status d s st'. efpg_write_field (hal_fuse_if sim_fuse_hw) EFPG_FIELD_MAC_BT
       (sim_frame (tool_cmd 0xF00F 0xF708 38 0) [1, 2, 3, 4, 5, 6] @ replicate 70 0) 0 0 sim_efuse = Some (status, d, s) \<and>
     efpg_task sim_efpg_env (hal_fuse_if sim_fuse_hw)
       [Some (tool_cmd 0xF00F 0xF708 38 0), Some (sim_frame (tool_cmd 0xF00F 0xF708 38 0) [1, 2, 3, 4, 5, 6])] sim_efpg = Some (True, st') \<and>
     ep_fuse st' = s \<and> snd (ep_env st') = [ack_bytes EFPG_ACK_OK, ack_bytes status]"
proof -
  let ?f = "sim_frame (tool_cmd 0xF00F 0xF708 38 0) [1, 2, 3, 4, 5, 6]"
  have "field_len EFPG_FIELD_MAC_BT 0 \<le> length (?f @ replicate 70 0)" by (simp add: field_len_def sim_frame_ok)
  from hal.write_field_sure [OF sim_efuse_idle [of True] this, of 0]
  obtain status d s where w: "efpg_write_field (hal_fuse_if sim_fuse_hw) EFPG_FIELD_MAC_BT (?f @ replicate 70 0) 0 0 sim_efuse = Some (status, d, s)"
    unfolding hal.write_post_def by blast
  have "field_of_type 0xF708 = Some (EFPG_FIELD_MAC_BT, 38)" by (simp add: field_of_type_def)
  from authenticated_write_is_carried_out [OF sim_obliging sim_efpg_ok(1) this, of ?f 0 "hal_fuse_if sim_fuse_hw" status d s]
  show ?thesis using w sim_frame_ok(1) by (simp add: sim_efpg_ok sim_frame_ok(2) sim_efpg_data sim_efpg_quiet)
qed

text \<open>
  C32.  An extended command that announces more than 608 bits of user area is accepted before
  anything has been authenticated, and the data frame that follows is received behind the end of
  the buffer of 108 bytes.
\<close>

theorem extended_command_overruns_buffer:
  assumes "obliging E absorbed H sent" "buffers_ok (ep_priv st)" "608 < unat nbits" "108 < length f"
  shows "efpg_task E F [Some (tool_cmd 0xF00F 0xFA05 13 1), Some (tool_ext_cmd 0xF00F n pv addr nbits), Some f] st = None"
  by (rule overflow_exchange [OF assms])

theorem extended_command_overruns_buffer_witness:
  "efpg_task sim_efpg_env (hal_fuse_if sim_fuse_hw)
     [Some (tool_cmd 0xF00F 0xFA05 13 1), Some (tool_ext_cmd 0xF00F 0 1 0 609), Some (replicate 109 0)] sim_efpg = None"
  by (rule extended_command_overruns_buffer [OF sim_obliging sim_efpg_ok(1)]) simp_all

section \<open>Network credentials over the air\<close>



text \<open>
  C34.  Without a key, no sequence of frames whatever leads the receiver outside its buffers: every
  access to the packet map, the chunk buffer and the result succeeds, the lengths in the result
  fit their fields, and the packets counted are those marked in the map.
\<close>

theorem frames_stay_in_bounds:
  assumes "wlan_smart_config_start nif None granted regs s0 = (0, t)"
  shows "\<exists>t' p. recv_frames A fs t = Some t' \<and> sc_priv t' = Some p \<and> length (sp_src_data_buff p) = 256 \<and>
     unat (sr_ssid_len (sp_result p)) \<le> 32 \<and> unat (sr_pwd_len (sp_result p)) \<le> 63 \<and>
     lc_packet_count (sp_lead_code p) = int (card (seen (lc_count_pkt (sp_lead_code p)))) \<and>
     smartconfig_get_result res t' \<noteq> None"
  using any_frames [OF assms, of A fs res] by (auto simp: sc_wf_def result_ok_def lead_ok_def)

theorem frames_stay_in_bounds_witness:
  "\<exists>t'. recv_frames sim_sc_aes [code_frame (5, 1, 2), [], code_frame (127, 3, 4)] sim_sc_started = Some t' \<and>
     smartconfig_get_result sim_res t' \<noteq> None"
  using frames_stay_in_bounds [OF sim_started] by blast

text \<open>
  C35.  With a key, the password field is not safe: when the engine turns it into bytes that all
  have one value, larger than the length of the field, as the padding of a forged field may, the
  check of the padding reads in front of the buffer before any checksum has been compared.
\<close>

theorem overlong_padding_reads_below_buffer:
  assumes "k ! 0 \<noteq> 0" "A (take n src) k = Some (replicate n d)" "0 < n" "n < 66" "n < unat d" "m < 65"
    and "lc_pwd_len l = int n" "lc_ssidpwd_len l = int n + int m"
  shows "dec_data_decode A k r l src = None"
  by (rule decode_underrun [of k A n src d m l r, OF assms])

theorem overlong_padding_reads_below_buffer_witness:
  "dec_data_decode sim_sc_aes (replicate 16 7) (sp_result zero_priv)
     (sc_reset_lead_code\<lparr>lc_pwd_len := 16, lc_ssidpwd_len := 18\<rparr>) (replicate 256 0) = None"
  by (rule overlong_padding_reads_below_buffer [of "replicate 16 7" sim_sc_aes 16 "replicate 256 0" 255 2]) (simp_all add: sim_sc_aes_def sc_reset_lead_code_def)

section \<open>AT commands\<close>

text \<open>
  C36.  A command that sets a variable to a value in its printed form, typed into the idle
  interpreter in whatever bursts the characters arrive: the variable holds the value, no other is
  changed, the answer is OK, and what was typed behind the line is still to come.  It holds for
  every writable variable whose type is a number, a text or an address, and every value of it in
  range.
\<close>

theorem typed_setting_is_stored:
  fixes st :: "('e, 'e at_queue) at_state"
  assumes "i < 22" "av_rw (at_cfg_table ! i)" "readable (at_cfg_table ! i) v" "ready st"
    and "input_ok rest (at_env st) (at_queue st)"
    and "pending rest (at_env st) (at_queue st) = setcfg_cmd (av_key (at_cfg_table ! i)) (at_get_value v) @ 10 # later"
  shows "\<exists>n st'. at_turns A at_queue_get at_queue_peek n st = Some st' \<and> ready st' \<and> at_cfg st' = (at_cfg st)[i := v] \<and>
     at_out st' = at_out st @ echo_of st (setcfg_cmd (av_key (at_cfg_table ! i)) (at_get_value v)) @ ok_response \<and>
     input_ok rest (at_env st') (at_queue st') \<and> pending rest (at_env st') (at_queue st') = later"
  by (rule typed_setting [OF assms])

theorem typed_setting_is_stored_witness:
  "\<exists>n st'. at_turns sim_app at_queue_get at_queue_peek n (sim_at sim_typed) = Some st' \<and> at_cfg st' = sim_cfg[13 := V_di 2] \<and>
     at_out st' = sim_line @ [10, 10] @ ok_response"
proof -
  have p: "pending (\<lambda>e. e) (at_env (sim_at sim_typed)) (at_queue (sim_at sim_typed)) =
      setcfg_cmd (av_key (at_cfg_table ! 13)) (at_get_value (V_di 2)) @ 10 # []"
    unfolding sim_at_ready sim_pending sim_typed_ok(2) sim_line_def ..
  have i: "input_ok (\<lambda>e. e) (at_env (sim_at sim_typed)) (at_queue (sim_at sim_typed))"
    unfolding sim_at_ready by (rule sim_input [OF sim_typed_ok(1)])
  have "(13 :: nat) < 22" "av_rw (at_cfg_table ! 13)" by (simp_all add: sim_vars cfg_var_def)
  from typed_setting_is_stored [OF this sim_readable sim_at_ready(1) i p, of sim_app]
  show ?thesis unfolding sim_at_ready sim_line_def [symmetric] by (auto simp: echo_of_def sim_at_ready sim_cfg_def)
qed

text \<open>
  C37.  The input queue against the stream of bytes that its callback delivers, for a buffer of at
  least the 32 bytes that it asks for: a read gives the next byte of the stream and leaves the
  rest, or says that nothing is there and leaves all of it, and that only while the callback has
  an empty burst or nothing more; the invariant of the ring holds again.
\<close>

theorem input_queue_is_a_stream:
  assumes "input_ok rest e q"
  shows "\<exists>r e' q'. at_queue_get e q = Some (r, e', q') \<and> input_ok rest e' q' \<and>
      (case r of None \<Rightarrow> pending rest e' q' = pending rest e q \<and> (pending rest e q = [] \<or> length (rest e') < length (rest e))
       | Some b \<Rightarrow> pending rest e q = b # pending rest e' q')"
  using aq.get [OF assms] by blast

theorem input_queue_is_a_stream_witness:
  "\<exists>e' q'. at_queue_get [[65, 66], [67]] sim_ring = Some (Some 65, e', q') \<and> pending (\<lambda>e. e) e' q' = [66, 67]"
proof -
  have "input_ok (\<lambda>e. e) [[65, 66], [67]] sim_ring" by (rule sim_input) simp
  from input_queue_is_a_stream [OF this] obtain r e' q' where r: "at_queue_get [[65, 66], [67]] sim_ring = Some (r, e', q')"
    "case r of None \<Rightarrow> pending (\<lambda>e. e) e' q' = pending (\<lambda>e. e) [[65, 66], [67]] sim_ring \<and>
       (pending (\<lambda>e. e) [[65, 66], [67]] sim_ring = [] \<or> length e' < length [[65, 66], [67 :: u8]])
     | Some b \<Rightarrow> pending (\<lambda>e. e) [[65, 66], [67]] sim_ring = b # pending (\<lambda>e. e) e' q'"
    by blast
  have "r \<noteq> None" using r(1) by (auto simp: at_queue_get_def queue_fill_def sim_ring_def sim_burst_def queue_put_def queue_front_def Let_def)
  then show ?thesis using r by (auto simp: sim_pending)
qed

text \<open>
  C38.  Hexadecimal numbers, and byte strings of two or more bytes, are printed in a form that the
  interpreter does not read: setting such a variable to the text that its listing shows is
  answered with a parameter error and changes nothing.
\<close>

theorem printed_hex_is_refused:
  assumes "i < 22" "9 < n"
    and "av_pt (at_cfg_table ! i) = APT_HI \<and> v = V_hi w \<or> av_pt (at_cfg_table ! i) = APT_HEX \<and> v = V_hex (a # b # bs)"
  shows "at_parse_cmd A (setcfg_cmd (av_key (at_cfg_table ! i)) (at_get_value v) @ p) n st = Some (AEC_PARA_ERROR, st)"
  by (rule setting_refused [OF assms])

theorem printed_hex_is_refused_witness:
  "at_parse_cmd sim_app (setcfg_cmd (at_str ''wind_off_low'') (at_get_value (V_hi 0)) @ [13, 10]) 36 (sim_at []) = Some (AEC_PARA_ERROR, sim_at [])"
  using printed_hex_is_refused [of 4 36 "V_hi 0" 0 0 0 "[]" sim_app "[13, 10]" "sim_at []"] by (simp add: sim_vars cfg_var_def)

text \<open>
  C39.  A text is stored without regard to the size of its variable: a text of at most 63 characters
  that fills the array of the variable or is longer is copied beyond it.
\<close>

theorem long_setting_overruns_variable:
  assumes "i < 22" "9 < n" "av_pt (at_cfg_table ! i) = APT_TEXT" "av_rw (at_cfg_table ! i)" "plain_text s" "length s < 64"
    and "av_size (at_cfg_table ! i) \<le> length s" "s \<noteq> []" "para_end p = Some (Some (512, over, q))"
  shows "at_parse_cmd A (setcfg_cmd (av_key (at_cfg_table ! i)) s @ p) n st = None"
  by (rule setting_overflows [OF assms])

theorem long_setting_overruns_variable_witness:
  "at_parse_cmd sim_app (setcfg_cmd (at_str ''escape_seq'') (replicate 8 97) @ [10]) 30 (sim_at []) = None"
proof -
  have "at_parse_cmd sim_app (setcfg_cmd (av_key (at_cfg_table ! 8)) (replicate 8 97) @ [10]) 30 (sim_at []) = None"
    by (rule long_setting_overruns_variable [where over = True and q = "[]"]) (simp_all add: sim_vars cfg_var_def plain_text_def para_end_def)
  then show ?thesis by (simp add: sim_vars cfg_var_def)
qed

text \<open>
  C40.  A line that does not fit the cache is not discarded as a whole: what follows its first 1025
  characters is executed as a command of its own.
\<close>

theorem tail_of_long_line_is_executed:
  fixes st :: "('e, 'e at_queue) at_state"
  assumes "ready st" "length cs = 1025" "length ds \<le> 1022" "\<forall>c \<in> set (cs @ ds). c \<noteq> 10 \<and> c \<noteq> 13"
    and "input_ok rest (at_env st) (at_queue st)" "pending rest (at_env st) (at_queue st) = cs @ ds @ 10 # later"
  shows "\<exists>n e q b. at_turns A at_queue_get at_queue_peek n st = at_execute A (st\<lparr>at_cache := \<lparr>cc_cnt = length ds + 2,
       cc_buf = ds @ [10, 10] @ b\<rparr>, at_env := e, at_queue := q, at_flag := True\<rparr>) \<and> pending rest e q = later"
proof -
  have "at_quiet st" "cc_cnt (at_cache st) = 0" "length (cc_buf (at_cache st)) = 1028" using assms(1) by (simp_all add: ready_def)
  from aq.overlong_line [OF this assms(2-6), of A] show ?thesis by auto
qed

theorem tail_of_long_line_is_executed_witness:
  "\<exists>n e q b. at_turns sim_app at_queue_get at_queue_peek n (sim_at sim_flood) =
     at_execute sim_app ((sim_at sim_flood)\<lparr>at_cache := \<lparr>cc_cnt = length (at_str ''AT&F'') + 2,
       cc_buf = at_str ''AT&F'' @ [10, 10] @ b\<rparr>, at_env := e, at_queue := q, at_flag := True\<rparr>)"
proof -
  have p: "pending (\<lambda>e. e) (at_env (sim_at sim_flood)) (at_queue (sim_at sim_flood)) = replicate 1025 120 @ at_str ''AT&F'' @ 10 # []"
    unfolding sim_at_ready sim_pending sim_flood_ok(2) ..
  have i: "input_ok (\<lambda>e. e) (at_env (sim_at sim_flood)) (at_queue (sim_at sim_flood))"
    unfolding sim_at_ready by (rule sim_input [OF sim_flood_ok(1)])
  have "\<forall>c \<in> set (replicate 1025 120 @ at_str ''AT&F''). c \<noteq> 10 \<and> c \<noteq> (13 :: u8)" "length (at_str ''AT&F'') \<le> 1022"
    by (auto simp: at_str_def)
  from tail_of_long_line_is_executed [OF sim_at_ready(1) length_replicate this(2,1) i p, of sim_app] show ?thesis by blast
qed

end
